(* ===== verification/Prelude.thy ===== *)
theory Prelude
  imports Complex_Main "HOL-Library.Word"
begin

text \<open>
  Shared vocabulary of the development: the collections of rewrite rules the component
  theories extend, the operator codes of \<^verbatim>\<open>src/token.h\<close> that the value and range code
  switches on, and generic facts about truncation of machine integers.
\<close>

named_theorems ctype_simps \<open>what the type predicates say of the built-in types\<close>
named_theorems sval_simps \<open>reading the fields of a scalar value after an operation\<close>
named_theorems rl_simps \<open>denotation of the range list operations\<close>

section \<open>Operator codes\<close>

text \<open>
  An \<^verbatim>\<open>int op\<close> of the source is a character or one of the \<^verbatim>\<open>SPECIAL_\<close> codes of the
  enumeration in \<^verbatim>\<open>src/token.h\<close>. \<open>UNKNOWN_COMPARISON\<close> (the value 0, which several callers
  also pass for "no operator") and \<open>IMPOSSIBLE_COMPARISON\<close> (-1) are the two extra codes of
  \<^verbatim>\<open>src/smatch.h\<close>.
\<close>

datatype opcode =
    Ch char
  | SPECIAL_LTE
  | SPECIAL_GTE
  | SPECIAL_EQUAL
  | SPECIAL_NOTEQUAL
  | SPECIAL_LOGICAL_AND
  | SPECIAL_LOGICAL_OR
  | SPECIAL_LEFTSHIFT
  | SPECIAL_RIGHTSHIFT
  | SPECIAL_UNSIGNED_LT
  | SPECIAL_UNSIGNED_GT
  | SPECIAL_UNSIGNED_LTE
  | SPECIAL_UNSIGNED_GTE
  | UNKNOWN_COMPARISON
  | IMPOSSIBLE_COMPARISON

type_synonym u64 = "64 word"

section \<open>Wrapping an integer into a machine range\<close>

text \<open>
  \<open>uwrap n x\<close> and \<open>swrap n x\<close> are the unsigned and the two's complement reading of the low
  \<open>n\<close> bits of \<open>x\<close>: the mathematical content of a C conversion to an integer type of \<open>n\<close>
  bits.
\<close>

definition uwrap :: "nat \<Rightarrow> int \<Rightarrow> int" where
  "uwrap n x = x mod 2 ^ n"

definition swrap :: "nat \<Rightarrow> int \<Rightarrow> int" where
  "swrap n x = (x + 2 ^ (n - 1)) mod 2 ^ n - 2 ^ (n - 1)"

lemma uwrap_bounds: "0 \<le> uwrap n x \<and> uwrap n x < 2 ^ n"
  by (simp add: uwrap_def)

lemma uwrap_id: "0 \<le> x \<Longrightarrow> x < 2 ^ n \<Longrightarrow> uwrap n x = x"
  by (simp add: uwrap_def)

lemma swrap_bounds:
  assumes "0 < n"
  shows "- (2 ^ (n - 1)) \<le> swrap n x \<and> swrap n x < 2 ^ (n - 1)"
proof -
  have "(2::int) ^ n = 2 * 2 ^ (n - 1)"
    using assms by (cases n) auto
  moreover have "0 \<le> (x + 2 ^ (n - 1)) mod 2 ^ n" "(x + 2 ^ (n - 1)) mod 2 ^ n < 2 ^ n"
    by simp_all
  ultimately show ?thesis
    unfolding swrap_def by linarith
qed

lemma swrap_id:
  assumes "0 < n" "- (2 ^ (n - 1)) \<le> x" "x < 2 ^ (n - 1)"
  shows "swrap n x = x"
proof -
  have "(2::int) ^ n = 2 * 2 ^ (n - 1)"
    using assms by (cases n) auto
  then have "(x + 2 ^ (n - 1)) mod 2 ^ n = x + 2 ^ (n - 1)"
    using assms by (intro mod_pos_pos_trivial) linarith+
  then show ?thesis by (simp add: swrap_def)
qed

lemma uwrap_cong: "x mod 2 ^ n = y mod 2 ^ n \<Longrightarrow> uwrap n x = uwrap n y"
  by (simp add: uwrap_def)

lemma swrap_cong: "x mod 2 ^ n = y mod 2 ^ n \<Longrightarrow> swrap n x = swrap n y"
  unfolding swrap_def by (metis mod_add_cong)

lemma uwrap_mod: "uwrap n x mod 2 ^ n = x mod 2 ^ n"
  by (simp add: uwrap_def)

lemma swrap_mod: "swrap n x mod 2 ^ n = x mod 2 ^ n"
  by (simp add: swrap_def mod_diff_left_eq)

lemma swrap_signed_take_bit: "0 < n \<Longrightarrow> swrap n x = signed_take_bit (n - 1) x"
  by (cases n) (simp_all add: swrap_def signed_take_bit_eq_take_bit_shift take_bit_eq_mod)

lemma uwrap_take_bit: "uwrap n x = take_bit n x"
  by (simp add: uwrap_def take_bit_eq_mod)

section \<open>Readings of a 64-bit word\<close>

lemma mod_pow2_le: "n \<le> m \<Longrightarrow> x mod 2 ^ m = y mod 2 ^ m \<Longrightarrow> x mod 2 ^ n = y mod (2::int) ^ n"
  by (metis mod_mod_cancel le_imp_power_dvd)

lemma uint64_bounds: "0 \<le> uint (w :: u64) \<and> uint w < 2 ^ 64"
  using uint_bounded [of w] by simp

lemma sint64_bounds: "- (2 ^ 63) \<le> sint (w :: u64) \<and> sint w < 2 ^ 63"
  using sint_ge [of w] sint_lt [of w] by simp

lemma sint_swrap: "sint (w :: u64) = swrap 64 (uint w)"
  by (simp add: sint_uint swrap_signed_take_bit)

lemma sint_mod_uint: "sint (w :: u64) mod 2 ^ 64 = uint w mod 2 ^ 64"
  using swrap_mod [of 64 "uint w"] by (simp only: sint_swrap)

lemma sint_mod_uint_le: "n \<le> 64 \<Longrightarrow> sint (w :: u64) mod 2 ^ n = uint w mod 2 ^ n"
  using sint_mod_uint mod_pow2_le by blast

lemma sint_uint_cases: "sint (w :: u64) = (if uint w < 2 ^ 63 then uint w else uint w - 2 ^ 64)"
proof (cases "uint w < 2 ^ 63")
  case True
  then have "(uint w + 2 ^ 63) mod 2 ^ 64 = uint w + 2 ^ 63"
    using uint64_bounds [of w] by (intro mod_pos_pos_trivial) auto
  with True show ?thesis by (simp add: sint_swrap swrap_def)
next
  case False
  have "(uint w + 2 ^ 63) mod 2 ^ 64 = (uint w + 2 ^ 63 - 2 ^ 64) mod 2 ^ 64"
    by (simp only: minus_mod_self2)
  also have "\<dots> = uint w + 2 ^ 63 - 2 ^ 64"
    using False uint64_bounds [of w] by (intro mod_pos_pos_trivial) auto
  finally show ?thesis using False by (simp add: sint_swrap swrap_def)
qed

lemma uint_sint_cases: "uint (w :: u64) = (if 0 \<le> sint w then sint w else sint w + 2 ^ 64)"
  using uint64_bounds [of w] by (auto simp: sint_uint_cases)

lemma uwrap_sint: "n \<le> 64 \<Longrightarrow> uwrap n (sint (w :: u64)) = uwrap n (uint w)"
  by (rule uwrap_cong) (rule sint_mod_uint_le)

lemma swrap_sint: "n \<le> 64 \<Longrightarrow> swrap n (sint (w :: u64)) = swrap n (uint w)"
  by (rule swrap_cong) (rule sint_mod_uint_le)

lemma swrap64_sint [simp]: "swrap 64 (sint (w :: u64)) = sint w"
  using sint64_bounds [of w] by (intro swrap_id) auto

lemma uwrap64_uint [simp]: "uwrap 64 (uint (w :: u64)) = uint w"
  using uint64_bounds [of w] by (intro uwrap_id) auto

lemma uwrap64_sint [simp]: "uwrap 64 (sint (w :: u64)) = uint w"
  by (simp add: uwrap_sint)

lemma sint_eq_0_iff [simp]: "sint (w :: u64) = 0 \<longleftrightarrow> w = 0"
  using signed_word_eqI [of w 0] by auto

lemma uint_eq_0_iff [simp]: "uint (w :: u64) = 0 \<longleftrightarrow> w = 0"
  using word_uint_eqI [of w 0] by auto

lemma uint_mask: "m \<le> 64 \<Longrightarrow> uint (mask m :: u64) = 2 ^ m - 1"
  unfolding mask_eq_exp_minus_1 [symmetric] by (rule bit_eqI) (auto simp: bit_simps)

lemma uint_neg1 [simp]: "uint (- 1 :: u64) = 2 ^ 64 - 1"
  by (simp add: unsigned_minus_1_eq_mask mask_eq_exp_minus_1)

lemma sint_not_mask: "n < 64 \<Longrightarrow> sint (Bit_Operations.not (mask n) :: u64) = - (2 ^ n)"
proof -
  assume n: "n < 64"
  have "sint (push_bit n (- 1) :: u64) = push_bit n (- 1)"
    by (rule bit_eqI) (use n in \<open>auto simp: bit_simps min_def\<close>)
  then show ?thesis by (simp add: push_bit_minus_one_eq_not_mask [symmetric] push_bit_eq_mult)
qed

text \<open>The two C conversions to a narrower type and back to 64 bits.\<close>

lemma uint_ucast_ucast:
  "LENGTH('n) \<le> 64 \<Longrightarrow>
    uint (ucast (ucast (w :: u64) :: 'n::len word) :: u64) = uwrap LENGTH('n) (sint w)"
  by (subst uwrap_sint) (simp_all add: uwrap_take_bit unsigned_ucast_eq min_def unsigned_take_bit_eq)

lemma sint_scast_ucast:
  "LENGTH('n) < 64 \<Longrightarrow>
    sint (scast (ucast (w :: u64) :: 'n::len word) :: u64) = swrap LENGTH('n) (sint w)"
  by (simp add: swrap_signed_take_bit, rule bit_eqI) (auto simp: bit_simps min_def)

end
