(* ===== verification/Ctype.thy ===== *)
theory Ctype
  imports Prelude
begin

text \<open>
  C types as smatch sees them: \<^verbatim>\<open>struct symbol\<close> restricted to the fields the value and
  range code reads (\<^verbatim>\<open>src/symbol.h\<close>), the built-in types set up by \<^verbatim>\<open>init_ctype\<close>
  (\<^verbatim>\<open>src/symbol.c\<close>) for the default target (\<^verbatim>\<open>src/target.c\<close>), the inline predicates
  of \<^verbatim>\<open>src/smatch.h\<close>, and the helpers of \<^verbatim>\<open>src/smatch_type.c\<close>.
\<close>

section \<open>Symbols\<close>

datatype sym_type =
    SYM_UNINITIALIZED | SYM_PREPROCESSOR | SYM_BASETYPE | SYM_NODE | SYM_PTR | SYM_FN
  | SYM_ARRAY | SYM_STRUCT | SYM_UNION | SYM_ENUM | SYM_TYPEOF | SYM_TYPEOF_UNQUAL
  | SYM_BITFIELD | SYM_LABEL | SYM_RESTRICT | SYM_FOULED | SYM_KEYWORD | SYM_BAD

text \<open>
  The source compares types by address. \<open>sym_ident\<close> names the object, so that two
  symbols with equal fields at different addresses stay different; a NULL
  \<^verbatim>\<open>struct symbol *\<close> is \<open>None\<close>. The modifier bits the code looks at are
  \<^verbatim>\<open>MOD_SIGNED\<close> and \<^verbatim>\<open>MOD_UNSIGNED\<close>. Symbols are taken as already examined, so the
  lazy \<^verbatim>\<open>examine_symbol_type\<close> calls are the identity.
\<close>

datatype symbol = Symbol
  (sym_ident: string)
  (symtype: sym_type)
  (bit_size: int)
  (mod_signed: bool)
  (mod_unsigned: bool)
  (alignment: int)
  (base_type: "symbol option")

type_synonym ctype = "symbol option"

section \<open>Target description\<close>

definition bits_in_bool :: int where "bits_in_bool = 1"
definition bits_in_char :: int where "bits_in_char = 8"
definition bits_in_short :: int where "bits_in_short = 16"
definition bits_in_int :: int where "bits_in_int = 32"
definition bits_in_long :: int where "bits_in_long = 64"
definition bits_in_longlong :: int where "bits_in_longlong = 64"
definition max_int_alignment :: int where "max_int_alignment = 8"
definition bits_in_float :: int where "bits_in_float = 32"
definition bits_in_double :: int where "bits_in_double = 64"
definition bits_in_longdouble :: int where "bits_in_longdouble = 128"
definition max_fp_alignment :: int where "max_fp_alignment = 16"
definition bits_in_pointer :: int where "bits_in_pointer = 64"
definition pointer_alignment :: int where "pointer_alignment = 8"

lemmas target_defs =
  bits_in_bool_def bits_in_char_def bits_in_short_def bits_in_int_def bits_in_long_def
  bits_in_longlong_def max_int_alignment_def bits_in_float_def bits_in_double_def
  bits_in_longdouble_def max_fp_alignment_def bits_in_pointer_def pointer_alignment_def

definition bits_to_bytes :: "int \<Rightarrow> int" where
  "bits_to_bytes bits = (if bits \<ge> 0 then (bits + bits_in_char - 1) div bits_in_char else -1)"

section \<open>Built-in types\<close>

text \<open>
  One row of \<^verbatim>\<open>ctype_declaration\<close> through the body of \<^verbatim>\<open>init_ctype\<close>. A missing bit size is -1
  and a missing alignment bound 0; the alignment is computed as an \<^verbatim>\<open>unsigned long\<close>,
  in which the -1 of an absent size is the largest value and so is cut down to the bound.
\<close>

definition init_ctype ::
  "string \<Rightarrow> sym_type \<Rightarrow> bool \<Rightarrow> bool \<Rightarrow> int option \<Rightarrow> int option \<Rightarrow> symbol option \<Rightarrow> symbol" where
  "init_ctype name ty msigned munsigned bsize maxalign base =
     (let bits = (case bsize of None \<Rightarrow> -1 | Some b \<Rightarrow> b);
          maxal = (case maxalign of None \<Rightarrow> 0 | Some a \<Rightarrow> a);
          al = bits_to_bytes bits;
          al = (if al < 0 \<or> al > maxal then maxal else al)
      in Symbol name ty bits msigned munsigned al base)"

definition int_type :: symbol where
  "int_type = Symbol ''int_type'' SYM_UNINITIALIZED 0 False False 0 None"

definition fp_type :: symbol where
  "fp_type = Symbol ''fp_type'' SYM_UNINITIALIZED 0 False False 0 None"

text \<open>The row macros \<^verbatim>\<open>T__INT\<close> (and \<^verbatim>\<open>T_SINT\<close>), \<^verbatim>\<open>T_UINT\<close>, \<^verbatim>\<open>T_FLOAT\<close> and \<^verbatim>\<open>T_PTR\<close>.\<close>

definition T_INT :: "string \<Rightarrow> int \<Rightarrow> symbol" where
  "T_INT name bits =
     init_ctype name SYM_BASETYPE True False (Some bits) (Some max_int_alignment) (Some int_type)"

definition T_UINT :: "string \<Rightarrow> int \<Rightarrow> symbol" where
  "T_UINT name bits =
     init_ctype name SYM_BASETYPE False True (Some bits) (Some max_int_alignment) (Some int_type)"

definition T_FLOAT :: "string \<Rightarrow> int \<Rightarrow> symbol" where
  "T_FLOAT name bits =
     init_ctype name SYM_BASETYPE False False (Some bits) (Some max_fp_alignment) (Some fp_type)"

definition T_PTR :: "string \<Rightarrow> symbol \<Rightarrow> symbol" where
  "T_PTR name base =
     init_ctype name SYM_PTR False False (Some bits_in_pointer) (Some pointer_alignment) (Some base)"

definition void_ctype :: symbol where
  "void_ctype = init_ctype ''void_ctype'' SYM_BASETYPE False False None None None"

definition bool_ctype :: symbol where "bool_ctype = T_UINT ''bool_ctype'' bits_in_bool"
definition char_ctype :: symbol where "char_ctype = T_INT ''char_ctype'' bits_in_char"
definition schar_ctype :: symbol where "schar_ctype = T_INT ''schar_ctype'' bits_in_char"
definition uchar_ctype :: symbol where "uchar_ctype = T_UINT ''uchar_ctype'' bits_in_char"
definition short_ctype :: symbol where "short_ctype = T_INT ''short_ctype'' bits_in_short"
definition ushort_ctype :: symbol where "ushort_ctype = T_UINT ''ushort_ctype'' bits_in_short"
definition int_ctype :: symbol where "int_ctype = T_INT ''int_ctype'' bits_in_int"
definition uint_ctype :: symbol where "uint_ctype = T_UINT ''uint_ctype'' bits_in_int"
definition long_ctype :: symbol where "long_ctype = T_INT ''long_ctype'' bits_in_long"
definition ulong_ctype :: symbol where "ulong_ctype = T_UINT ''ulong_ctype'' bits_in_long"
definition llong_ctype :: symbol where "llong_ctype = T_INT ''llong_ctype'' bits_in_longlong"
definition ullong_ctype :: symbol where "ullong_ctype = T_UINT ''ullong_ctype'' bits_in_longlong"
definition float_ctype :: symbol where "float_ctype = T_FLOAT ''float_ctype'' bits_in_float"
definition double_ctype :: symbol where "double_ctype = T_FLOAT ''double_ctype'' bits_in_double"
definition ldouble_ctype :: symbol where
  "ldouble_ctype = T_FLOAT ''ldouble_ctype'' bits_in_longdouble"
definition ptr_ctype :: symbol where "ptr_ctype = T_PTR ''ptr_ctype'' void_ctype"
definition int_ptr_ctype :: symbol where "int_ptr_ctype = T_PTR ''int_ptr_ctype'' int_ctype"
definition ssize_t_ctype :: symbol where "ssize_t_ctype = long_ctype"
definition size_t_ctype :: symbol where "size_t_ctype = ulong_ctype"

lemmas ctype_defs =
  void_ctype_def bool_ctype_def char_ctype_def schar_ctype_def uchar_ctype_def short_ctype_def
  ushort_ctype_def int_ctype_def uint_ctype_def long_ctype_def ulong_ctype_def llong_ctype_def
  ullong_ctype_def float_ctype_def double_ctype_def ldouble_ctype_def ptr_ctype_def
  int_ptr_ctype_def ssize_t_ctype_def size_t_ctype_def T_INT_def T_UINT_def T_FLOAT_def T_PTR_def
  init_ctype_def bits_to_bytes_def target_defs

section \<open>Type predicates\<close>

definition is_sym :: "sym_type \<Rightarrow> ctype \<Rightarrow> bool" where
  "is_sym k t = (case t of None \<Rightarrow> False | Some s \<Rightarrow> symtype s = k)"

definition type_is_ptr :: "ctype \<Rightarrow> bool" where
  "type_is_ptr t = (is_sym SYM_PTR t \<or> is_sym SYM_ARRAY t \<or> is_sym SYM_FN t)"

definition type_is_fp :: "ctype \<Rightarrow> bool" where
  "type_is_fp t = (t = Some float_ctype \<or> t = Some double_ctype \<or> t = Some ldouble_ctype)"

text \<open>The source follows one \<^verbatim>\<open>SYM_NODE\<close> link; the base of a node is never NULL.\<close>

definition is_ptr_type :: "ctype \<Rightarrow> bool" where
  "is_ptr_type t =
     (case t of
        None \<Rightarrow> False
      | Some s \<Rightarrow>
          (let t' = (if symtype s = SYM_NODE then base_type s else Some s)
           in is_sym SYM_PTR t' \<or> is_sym SYM_ARRAY t' \<or> is_sym SYM_FN t'))"

definition type_bits :: "ctype \<Rightarrow> int" where
  "type_bits t =
     (case t of None \<Rightarrow> 0 | Some s \<Rightarrow> if type_is_ptr t then bits_in_pointer else bit_size s)"

definition type_unsigned :: "ctype \<Rightarrow> bool" where
  "type_unsigned t = (case t of None \<Rightarrow> False | Some s \<Rightarrow> is_ptr_type t \<or> mod_unsigned s)"

definition type_signed :: "ctype \<Rightarrow> bool" where
  "type_signed t = (case t of None \<Rightarrow> False | Some s \<Rightarrow> mod_signed s)"

definition type_positive_bits :: "ctype \<Rightarrow> int" where
  "type_positive_bits t =
     (if t = None then 0
      else if is_ptr_type t then bits_in_pointer
      else if type_unsigned t then type_bits t
      else type_bits t - 1)"

function get_real_base_type :: "ctype \<Rightarrow> ctype" where
  "get_real_base_type None = None"
| "get_real_base_type (Some (Symbol nm ty bits ms mu al base)) =
     (if ty = SYM_BASETYPE then Some (Symbol nm ty bits ms mu al base)
      else (case base of
              None \<Rightarrow> None
            | Some r \<Rightarrow>
                if symtype r = SYM_RESTRICT \<or> symtype r = SYM_NODE then get_real_base_type (Some r)
                else Some r))"
  by pat_completeness auto
termination
  by (relation "measure (\<lambda>t. case t of None \<Rightarrow> 0 | Some s \<Rightarrow> size s)") auto

definition get_promoted_type :: "ctype \<Rightarrow> ctype \<Rightarrow> ctype" where
  "get_promoted_type left right =
     (let ret = Some int_ctype;
          ret = (if type_positive_bits left > type_positive_bits ret then left else ret);
          ret = (if type_positive_bits right > type_positive_bits ret then right else ret);
          ret = (if type_is_ptr left then left else ret)
      in if type_is_ptr right then right else ret)"

section \<open>Arithmetic types\<close>

text \<open>
  The types for which smatch's 64-bit representation is meaningful: the integer types of 8,
  16, 32 and 64 bits, bool, and pointers. Exactly one signedness modifier applies.
\<close>

definition arith_type :: "ctype \<Rightarrow> bool" where
  "arith_type t =
     (t \<noteq> None \<and> \<not> type_is_fp t \<and> (type_signed t = (\<not> type_unsigned t))
      \<and> (is_ptr_type t \<longrightarrow> type_bits t = 64)
      \<and> (type_bits t = 1 \<and> type_unsigned t
         \<or> type_bits t = 8 \<or> type_bits t = 16 \<or> type_bits t = 32 \<or> type_bits t = 64))"

text \<open>An arithmetic type that is no pointer.\<close>

definition int_type_ok :: "ctype \<Rightarrow> bool" where
  "int_type_ok t = (arith_type t \<and> \<not> is_ptr_type t \<and> \<not> type_is_ptr t)"

definition type_width :: "ctype \<Rightarrow> nat" where
  "type_width t = nat (type_bits t)"

text \<open>Bounds of a type as mathematical integers.\<close>

definition type_lo :: "ctype \<Rightarrow> int" where
  "type_lo t = (if type_unsigned t then 0 else - (2 ^ (type_width t - 1)))"

definition type_hi :: "ctype \<Rightarrow> int" where
  "type_hi t = (if type_unsigned t then 2 ^ type_width t - 1 else 2 ^ (type_width t - 1) - 1)"

lemmas type_pred_defs =
  type_is_fp_def type_is_ptr_def is_ptr_type_def is_sym_def type_bits_def type_unsigned_def
  type_signed_def type_positive_bits_def

lemma type_bits_builtin [ctype_simps, simp]:
  "type_bits (Some bool_ctype) = 1" "type_bits (Some char_ctype) = 8"
  "type_bits (Some uchar_ctype) = 8" "type_bits (Some short_ctype) = 16"
  "type_bits (Some ushort_ctype) = 16" "type_bits (Some int_ctype) = 32"
  "type_bits (Some uint_ctype) = 32" "type_bits (Some long_ctype) = 64"
  "type_bits (Some ulong_ctype) = 64" "type_bits (Some llong_ctype) = 64"
  "type_bits (Some ullong_ctype) = 64" "type_bits (Some ptr_ctype) = 64"
  "type_bits (Some int_ptr_ctype) = 64" "type_bits None = 0"
  by (simp_all add: type_pred_defs ctype_defs)

lemma type_unsigned_builtin [ctype_simps, simp]:
  "type_unsigned (Some bool_ctype)" "\<not> type_unsigned (Some char_ctype)"
  "type_unsigned (Some uchar_ctype)" "\<not> type_unsigned (Some short_ctype)"
  "type_unsigned (Some ushort_ctype)" "\<not> type_unsigned (Some int_ctype)"
  "type_unsigned (Some uint_ctype)" "\<not> type_unsigned (Some long_ctype)"
  "type_unsigned (Some ulong_ctype)" "\<not> type_unsigned (Some llong_ctype)"
  "type_unsigned (Some ullong_ctype)" "type_unsigned (Some ptr_ctype)"
  "type_unsigned (Some int_ptr_ctype)" "\<not> type_unsigned None"
  by (simp_all add: type_pred_defs ctype_defs)

lemma type_signed_builtin [ctype_simps, simp]:
  "\<not> type_signed (Some bool_ctype)" "type_signed (Some char_ctype)"
  "\<not> type_signed (Some uchar_ctype)" "type_signed (Some short_ctype)"
  "\<not> type_signed (Some ushort_ctype)" "type_signed (Some int_ctype)"
  "\<not> type_signed (Some uint_ctype)" "type_signed (Some long_ctype)"
  "\<not> type_signed (Some ulong_ctype)" "type_signed (Some llong_ctype)"
  "\<not> type_signed (Some ullong_ctype)" "\<not> type_signed (Some ptr_ctype)"
  "\<not> type_signed (Some int_ptr_ctype)" "\<not> type_signed None"
  by (simp_all add: type_pred_defs ctype_defs)

lemma type_is_fp_builtin [ctype_simps, simp]:
  "\<not> type_is_fp (Some bool_ctype)" "\<not> type_is_fp (Some char_ctype)"
  "\<not> type_is_fp (Some uchar_ctype)" "\<not> type_is_fp (Some short_ctype)"
  "\<not> type_is_fp (Some ushort_ctype)" "\<not> type_is_fp (Some int_ctype)"
  "\<not> type_is_fp (Some uint_ctype)" "\<not> type_is_fp (Some long_ctype)"
  "\<not> type_is_fp (Some ulong_ctype)" "\<not> type_is_fp (Some llong_ctype)"
  "\<not> type_is_fp (Some ullong_ctype)" "\<not> type_is_fp (Some ptr_ctype)"
  "\<not> type_is_fp (Some int_ptr_ctype)" "\<not> type_is_fp None"
  "type_is_fp (Some float_ctype)" "type_is_fp (Some double_ctype)" "type_is_fp (Some ldouble_ctype)"
  by (simp_all add: type_pred_defs ctype_defs)

lemma is_ptr_type_builtin [ctype_simps, simp]:
  "\<not> is_ptr_type (Some bool_ctype)" "\<not> is_ptr_type (Some char_ctype)"
  "\<not> is_ptr_type (Some uchar_ctype)" "\<not> is_ptr_type (Some short_ctype)"
  "\<not> is_ptr_type (Some ushort_ctype)" "\<not> is_ptr_type (Some int_ctype)"
  "\<not> is_ptr_type (Some uint_ctype)" "\<not> is_ptr_type (Some long_ctype)"
  "\<not> is_ptr_type (Some ulong_ctype)" "\<not> is_ptr_type (Some llong_ctype)"
  "\<not> is_ptr_type (Some ullong_ctype)" "is_ptr_type (Some ptr_ctype)"
  "is_ptr_type (Some int_ptr_ctype)" "\<not> is_ptr_type None"
  by (simp_all add: type_pred_defs ctype_defs)

lemma type_is_ptr_builtin [ctype_simps, simp]:
  "\<not> type_is_ptr (Some bool_ctype)" "\<not> type_is_ptr (Some char_ctype)"
  "\<not> type_is_ptr (Some uchar_ctype)" "\<not> type_is_ptr (Some short_ctype)"
  "\<not> type_is_ptr (Some ushort_ctype)" "\<not> type_is_ptr (Some int_ctype)"
  "\<not> type_is_ptr (Some uint_ctype)" "\<not> type_is_ptr (Some long_ctype)"
  "\<not> type_is_ptr (Some ulong_ctype)" "\<not> type_is_ptr (Some llong_ctype)"
  "\<not> type_is_ptr (Some ullong_ctype)" "type_is_ptr (Some ptr_ctype)"
  "type_is_ptr (Some int_ptr_ctype)" "\<not> type_is_ptr None"
  by (simp_all add: type_pred_defs ctype_defs)

lemma ctype_distinct [ctype_simps, simp]:
  "bool_ctype \<noteq> int_ctype" "int_ctype \<noteq> bool_ctype" "uint_ctype \<noteq> bool_ctype"
  "int_ctype \<noteq> uint_ctype" "uint_ctype \<noteq> int_ctype" "int_ctype \<noteq> ptr_ctype"
  "llong_ctype \<noteq> bool_ctype" "ullong_ctype \<noteq> bool_ctype" "llong_ctype \<noteq> int_ctype"
  "int_ctype \<noteq> llong_ctype" "ulong_ctype \<noteq> bool_ctype" "uchar_ctype \<noteq> bool_ctype"
  "char_ctype \<noteq> bool_ctype" "ptr_ctype \<noteq> int_ctype" "ptr_ctype \<noteq> bool_ctype"
  "uchar_ctype \<noteq> int_ctype" "int_ctype \<noteq> uchar_ctype"
  by (simp_all add: ctype_defs)

lemma type_positive_bits_eq:
  "arith_type t \<Longrightarrow>
    type_positive_bits t = (if type_unsigned t then type_bits t else type_bits t - 1)"
  by (auto simp: arith_type_def type_positive_bits_def bits_in_pointer_def type_unsigned_def
      split: option.splits)

lemma arith_type_builtin [ctype_simps, simp]:
  "arith_type (Some bool_ctype)" "arith_type (Some char_ctype)" "arith_type (Some uchar_ctype)"
  "arith_type (Some short_ctype)" "arith_type (Some ushort_ctype)" "arith_type (Some int_ctype)"
  "arith_type (Some uint_ctype)" "arith_type (Some long_ctype)" "arith_type (Some ulong_ctype)"
  "arith_type (Some llong_ctype)" "arith_type (Some ullong_ctype)" "arith_type (Some ptr_ctype)"
  "arith_type (Some int_ptr_ctype)" "\<not> arith_type None"
  by (simp_all add: arith_type_def)

lemma int_type_ok_builtin [ctype_simps, simp]:
  "int_type_ok (Some bool_ctype)" "int_type_ok (Some char_ctype)" "int_type_ok (Some uchar_ctype)"
  "int_type_ok (Some short_ctype)" "int_type_ok (Some ushort_ctype)"
  "int_type_ok (Some int_ctype)" "int_type_ok (Some uint_ctype)" "int_type_ok (Some long_ctype)"
  "int_type_ok (Some ulong_ctype)" "int_type_ok (Some llong_ctype)"
  "int_type_ok (Some ullong_ctype)"
  by (simp_all add: int_type_ok_def)

lemma type_positive_bits_builtin [ctype_simps, simp]:
  "type_positive_bits (Some bool_ctype) = 1" "type_positive_bits (Some char_ctype) = 7"
  "type_positive_bits (Some uchar_ctype) = 8" "type_positive_bits (Some short_ctype) = 15"
  "type_positive_bits (Some ushort_ctype) = 16" "type_positive_bits (Some int_ctype) = 31"
  "type_positive_bits (Some uint_ctype) = 32" "type_positive_bits (Some long_ctype) = 63"
  "type_positive_bits (Some ulong_ctype) = 64" "type_positive_bits (Some llong_ctype) = 63"
  "type_positive_bits (Some ullong_ctype) = 64" "type_positive_bits (Some ptr_ctype) = 64"
  "type_positive_bits (Some int_ptr_ctype) = 64" "type_positive_bits None = 0"
  by (simp_all add: type_positive_bits_eq) (simp add: type_positive_bits_def)

text \<open>The shapes of an arithmetic type, for case analysis.\<close>

lemma arith_type_cases [consumes 1, case_names bool u8 s8 u16 s16 u32 s32 u64 s64]:
  assumes "arith_type t"
  obtains "type_bits t = 1" "type_unsigned t" "\<not> type_signed t"
  | "type_bits t = 8" "type_unsigned t" "\<not> type_signed t"
  | "type_bits t = 8" "\<not> type_unsigned t" "type_signed t"
  | "type_bits t = 16" "type_unsigned t" "\<not> type_signed t"
  | "type_bits t = 16" "\<not> type_unsigned t" "type_signed t"
  | "type_bits t = 32" "type_unsigned t" "\<not> type_signed t"
  | "type_bits t = 32" "\<not> type_unsigned t" "type_signed t"
  | "type_bits t = 64" "type_unsigned t" "\<not> type_signed t"
  | "type_bits t = 64" "\<not> type_unsigned t" "type_signed t"
  using assms unfolding arith_type_def by blast

lemma arith_type_not_None: "arith_type t \<Longrightarrow> t \<noteq> None"
  by (simp add: arith_type_def)

lemma arith_type_not_fp: "arith_type t \<Longrightarrow> \<not> type_is_fp t"
  by (simp add: arith_type_def)

lemma arith_type_signed: "arith_type t \<Longrightarrow> type_signed t = (\<not> type_unsigned t)"
  by (simp add: arith_type_def)

lemma is_ptr_type_unsigned: "is_ptr_type t \<Longrightarrow> type_unsigned t"
  by (auto simp: type_unsigned_def is_ptr_type_def split: option.splits)

lemma int_type_ok_arith: "int_type_ok t \<Longrightarrow> arith_type t"
  by (simp add: int_type_ok_def)

end
