(* ===== verification/Sval.thy ===== *)
theory Sval
  imports Ctype "HOL-Library.Signed_Division" "HOL-Library.Log_Nat"
begin

text \<open>
  Typed scalar values (\<^verbatim>\<open>src/smatch_sval.c\<close>, \<^verbatim>\<open>sval_cmp\<close> of \<^verbatim>\<open>src/smatch.h\<close>, the type
  bounds of \<^verbatim>\<open>src/smatch_type.c\<close>): a 64-bit word that is read signed or unsigned according to
  its type. The first half translates the operations; the second half gives a value its
  mathematical integer and shows that conversion, comparison, range checks and arithmetic
  compute what C prescribes for that integer.
\<close>

unbundle bit_operations_syntax

section \<open>Representation\<close>

text \<open>
  \<^verbatim>\<open>sval_t\<close> is a type and a union. \<open>sv_val\<close> is the member read as \<^verbatim>\<open>value\<close> (by \<open>sint\<close>) or
  \<^verbatim>\<open>uvalue\<close> (by \<open>uint\<close>); \<open>sv_fp\<close> is the floating member selected by the type. Floating values
  are rationals rounded to the precision of their format; infinities, NaN and the exponent
  range are left out, and the bit pattern that the union would show through the integer
  member of a floating value is not modelled.
\<close>

record sval =
  sv_type :: ctype
  sv_val :: u64
  sv_fp :: rat

abbreviation svalue :: "sval \<Rightarrow> int" where
  "svalue s \<equiv> sint (sv_val s)"

abbreviation uvalue :: "sval \<Rightarrow> int" where
  "uvalue s \<equiv> uint (sv_val s)"

definition mk_sval :: "ctype \<Rightarrow> u64 \<Rightarrow> sval" where
  "mk_sval t v = \<lparr>sv_type = t, sv_val = v, sv_fp = 0\<rparr>"

definition INT_MAX :: int where "INT_MAX = 2 ^ 31 - 1"
definition INT_MIN :: int where "INT_MIN = - (2 ^ 31)"
definition UINT_MAX :: int where "UINT_MAX = 2 ^ 32 - 1"
definition SHRT_MAX :: int where "SHRT_MAX = 2 ^ 15 - 1"
definition SHRT_MIN :: int where "SHRT_MIN = - (2 ^ 15)"
definition USHRT_MAX :: int where "USHRT_MAX = 2 ^ 16 - 1"
definition LLONG_MAX :: int where "LLONG_MAX = 2 ^ 63 - 1"
definition LLONG_MIN :: int where "LLONG_MIN = - (2 ^ 63)"
definition ULLONG_MAX :: int where "ULLONG_MAX = 2 ^ 64 - 1"

lemmas limit_defs =
  INT_MAX_def INT_MIN_def UINT_MAX_def SHRT_MAX_def SHRT_MIN_def USHRT_MAX_def LLONG_MAX_def
  LLONG_MIN_def ULLONG_MAX_def

definition MTAG_OFFSET_MASK :: u64 where "MTAG_OFFSET_MASK = 0xfff"
definition valid_ptr_min :: u64 where "valid_ptr_min = 4096"
definition valid_ptr_max :: u64 where "valid_ptr_max = (- 1) AND NOT MTAG_OFFSET_MASK"

section \<open>Floating formats\<close>

definition round_half_even :: "rat \<Rightarrow> int" where
  "round_half_even x =
     (let f = \<lfloor>x\<rfloor>; d = x - of_int f
      in if d < 1 / 2 then f else if d > 1 / 2 then f + 1 else if even f then f else f + 1)"

definition fp_exponent :: "rat \<Rightarrow> int" where
  "fp_exponent r =
     (let (n, d) = quotient_of \<bar>r\<bar>;
          e = int (floorlog 2 (nat n)) - int (floorlog 2 (nat d))
      in if \<bar>r\<bar> < 2 powi e then e - 1 else e)"

definition fp_round :: "nat \<Rightarrow> rat \<Rightarrow> rat" where
  "fp_round p r =
     (if r = 0 then 0
      else (let q = 2 powi (fp_exponent r - int p + 1) in of_int (round_half_even (r / q)) * q))"

definition fp_trunc :: "rat \<Rightarrow> int" where
  "fp_trunc r = (if r < 0 then - \<lfloor>- r\<rfloor> else \<lfloor>r\<rfloor>)"

definition fp_precision :: "ctype \<Rightarrow> nat" where
  "fp_precision t = (if t = Some float_ctype then 24 else if t = Some double_ctype then 53 else 64)"

definition FLT_MAX :: rat where "FLT_MAX = (2 - 1 / 2 ^ 23) * 2 ^ 127"
definition DBL_MAX :: rat where "DBL_MAX = (2 - 1 / 2 ^ 52) * 2 ^ 1023"
definition LDBL_MAX :: rat where "LDBL_MAX = (2 - 1 / 2 ^ 63) * 2 ^ 16383"

definition fp_max :: "ctype \<Rightarrow> sval" where
  "fp_max t =
     \<lparr>sv_type = t, sv_val = 0,
      sv_fp = (if t = Some float_ctype then FLT_MAX
               else if t = Some double_ctype then DBL_MAX else LDBL_MAX)\<rparr>"

definition fp_min :: "ctype \<Rightarrow> sval" where
  "fp_min t =
     \<lparr>sv_type = t, sv_val = 0,
      sv_fp = (if t = Some float_ctype then - FLT_MAX
               else if t = Some double_ctype then - DBL_MAX else - LDBL_MAX)\<rparr>"

section \<open>Type bounds\<close>

definition sval_type_max :: "ctype \<Rightarrow> sval" where
  "sval_type_max bt =
     (if type_is_fp bt then fp_max bt
      else
        (let bt = (if bt = None \<or> type_bits bt = 0
                          then Some llong_ctype else bt)
         in mk_sval bt (drop_bit (nat (64 - type_positive_bits bt)) (NOT 0))))"

definition sval_type_min :: "ctype \<Rightarrow> sval" where
  "sval_type_min bt =
     (if type_is_fp bt then fp_min bt
      else
        (let bt = (if bt = None \<or> type_bits bt = 0
                          then Some llong_ctype else bt)
         in if type_unsigned bt \<or> is_ptr_type bt then mk_sval bt 0
            else mk_sval bt (push_bit (nat (type_positive_bits bt)) (NOT 0))))"

section \<open>Constructors and predicates\<close>

text \<open>The result of \<^verbatim>\<open>get_type(expr)\<close> is the first argument of the two expression variants.\<close>

definition sval_blank :: "ctype \<Rightarrow> sval" where
  "sval_blank ty = mk_sval (case ty of None \<Rightarrow> Some int_ctype | Some s \<Rightarrow> Some s) 123456789"

definition sval_type_val :: "ctype \<Rightarrow> u64 \<Rightarrow> sval" where
  "sval_type_val t v = mk_sval (case t of None \<Rightarrow> Some llong_ctype | Some s \<Rightarrow> Some s) v"

definition sval_is_ptr :: "sval \<Rightarrow> bool" where
  "sval_is_ptr sval = (is_sym SYM_PTR (sv_type sval) \<or> is_sym SYM_ARRAY (sv_type sval))"

definition sval_is_fp :: "sval \<Rightarrow> bool" where
  "sval_is_fp sval = type_is_fp (sv_type sval)"

definition sval_unsigned :: "sval \<Rightarrow> bool" where
  "sval_unsigned sval = (if is_ptr_type (sv_type sval) then True else type_unsigned (sv_type sval))"

definition sval_signed :: "sval \<Rightarrow> bool" where
  "sval_signed sval = (\<not> type_unsigned (sv_type sval))"

definition sval_bits :: "sval \<Rightarrow> int" where
  "sval_bits sval = type_bits (sv_type sval)"

definition sval_positive_bits :: "sval \<Rightarrow> int" where
  "sval_positive_bits sval = type_positive_bits (sv_type sval)"

text \<open>The loop \<^verbatim>\<open>for (i = 64; i >= 1; i--)\<close>, counted by \<open>i\<close>.\<close>

fun bits_used_loop :: "u64 \<Rightarrow> nat \<Rightarrow> nat" where
  "bits_used_loop v 0 = 0"
| "bits_used_loop v (Suc i) = (if v AND push_bit i 1 \<noteq> 0 then Suc i else bits_used_loop v i)"

definition sval_bits_used :: "sval \<Rightarrow> nat" where
  "sval_bits_used sval = bits_used_loop (sv_val sval) 64"

definition sval_is_negative :: "sval \<Rightarrow> bool" where
  "sval_is_negative sval = (if type_unsigned (sv_type sval) then False else svalue sval < 0)"

definition sval_is_positive :: "sval \<Rightarrow> bool" where
  "sval_is_positive sval = (\<not> sval_is_negative sval)"

definition fp_is_min :: "sval \<Rightarrow> bool" where
  "fp_is_min sval =
     (if sv_type sval = Some float_ctype then sv_fp sval = - FLT_MAX
      else if sv_type sval = Some double_ctype then sv_fp sval = - DBL_MAX
      else if sv_type sval = Some ldouble_ctype then sv_fp sval = - LDBL_MAX
      else False)"

definition sval_is_min :: "sval \<Rightarrow> bool" where
  "sval_is_min sval =
     (if sval_is_fp sval then fp_is_min sval
      else if sval_unsigned sval then uvalue sval = 0
      else svalue sval \<le> svalue (sval_type_min (sv_type sval)))"

definition fp_is_max :: "sval \<Rightarrow> bool" where
  "fp_is_max sval =
     (if sv_type sval = Some float_ctype then sv_fp sval = FLT_MAX
      else if sv_type sval = Some double_ctype then sv_fp sval = DBL_MAX
      else if sv_type sval = Some ldouble_ctype then sv_fp sval = LDBL_MAX
      else False)"

text \<open>
  In the unsigned case the source compares \<^verbatim>\<open>sval.uvalue >= max.value\<close>, which C converts to an
  unsigned comparison.
\<close>

definition sval_is_max :: "sval \<Rightarrow> bool" where
  "sval_is_max sval =
     (let max = sval_type_max (sv_type sval)
      in if sval_is_fp sval then fp_is_max sval
         else if sval_unsigned sval then uvalue sval \<ge> uvalue max
         else svalue sval \<ge> svalue max)"

definition sval_is_a_min :: "sval \<Rightarrow> bool" where
  "sval_is_a_min sval =
     (if sval_is_min sval then True
      else if sval_is_fp sval then False
      else if sval_signed sval \<and> svalue sval = SHRT_MIN then True
      else if sval_signed sval \<and> svalue sval = INT_MIN then True
      else sval_signed sval \<and> svalue sval = LLONG_MIN)"

definition sval_is_a_max :: "sval \<Rightarrow> bool" where
  "sval_is_a_max sval =
     (if sval_is_max sval then True
      else if sval_is_fp sval then False
      else if uvalue sval = SHRT_MAX then True
      else if uvalue sval = INT_MAX then True
      else if uvalue sval = LLONG_MAX then True
      else if uvalue sval = USHRT_MAX then True
      else if uvalue sval = UINT_MAX then True
      else if sval_unsigned sval \<and> uvalue sval = ULLONG_MAX then True
      else uvalue sval > uint (valid_ptr_max - 1000) \<and> uvalue sval < uint (valid_ptr_max + 1000))"

definition sval_is_negative_min :: "sval \<Rightarrow> bool" where
  "sval_is_negative_min sval =
     (if sval_is_fp sval then False
      else if \<not> sval_is_negative sval then False
      else sval_is_min sval)"

section \<open>Conversion\<close>

definition cast_to_fp :: "ctype \<Rightarrow> sval \<Rightarrow> sval" where
  "cast_to_fp t sval =
     \<lparr>sv_type = t, sv_val = 0,
      sv_fp = (if \<not> type_is_fp t then 0
               else fp_round (fp_precision t)
                 (if \<not> sval_is_fp sval
                  then (if sval_unsigned sval then of_int (uvalue sval) else of_int (svalue sval))
                  else sv_fp sval))\<rparr>"

text \<open>The part of \<^verbatim>\<open>sval_cast\<close> after the floating point tests.\<close>

definition sval_cast_int :: "symbol option \<Rightarrow> sval \<Rightarrow> sval" where
  "sval_cast_int t sval =
     (let ret = mk_sval t 0; v = sv_val sval
      in if sval_bits ret = 1 then ret\<lparr>sv_val := (if v \<noteq> 0 then 1 else 0)\<rparr>
         else if sval_bits ret = 8 then
           ret\<lparr>sv_val := (if sval_unsigned ret then ucast (ucast v :: 8 word)
                          else scast (ucast v :: 8 word))\<rparr>
         else if sval_bits ret = 16 then
           ret\<lparr>sv_val := (if sval_unsigned ret then ucast (ucast v :: 16 word)
                          else scast (ucast v :: 16 word))\<rparr>
         else if sval_bits ret = 32 then
           ret\<lparr>sv_val := (if sval_unsigned ret then ucast (ucast v :: 32 word)
                          else scast (ucast v :: 32 word))\<rparr>
         else ret\<lparr>sv_val := v\<rparr>)"

text \<open>
  \<^verbatim>\<open>cast_from_fp\<close> calls \<^verbatim>\<open>sval_cast\<close> back with a \<^verbatim>\<open>long long\<close> value and the same non-floating
  type, so the call takes the integer part.
\<close>

definition cast_from_fp :: "ctype \<Rightarrow> sval \<Rightarrow> sval" where
  "cast_from_fp t sval =
     sval_cast_int t (mk_sval (Some llong_ctype)
       (if type_is_fp (sv_type sval) then word_of_int (fp_trunc (sv_fp sval)) else 0))"

definition sval_cast :: "ctype \<Rightarrow> sval \<Rightarrow> sval" where
  "sval_cast t sval =
     (let t = (if t = None then Some int_ctype else t)
      in if type_is_fp t then cast_to_fp t sval
         else if type_is_fp (sv_type sval) then cast_from_fp t sval
         else sval_cast_int t sval)"

definition sval_from_val :: "ctype \<Rightarrow> u64 \<Rightarrow> sval" where
  "sval_from_val ty v = sval_cast ty ((sval_blank ty)\<lparr>sv_val := v\<rparr>)"

definition sval_type_fval :: "ctype \<Rightarrow> rat \<Rightarrow> sval" where
  "sval_type_fval t fval = sval_cast t \<lparr>sv_type = Some ldouble_ctype, sv_val = 0, sv_fp = fval\<rparr>"

definition ll_to_sval :: "u64 \<Rightarrow> sval" where
  "ll_to_sval v = mk_sval (Some llong_ctype) v"

section \<open>Comparison\<close>

definition fp_cmp :: "sval \<Rightarrow> sval \<Rightarrow> int" where
  "fp_cmp one two =
     (let t = (if sval_is_fp one \<and> sval_is_fp two
               then (if type_bits (sv_type one) > type_bits (sv_type two)
                     then sv_type one else sv_type two)
               else if sval_is_fp one then sv_type one else sv_type two);
          one = sval_cast t one; two = sval_cast t two
      in if sv_fp one < sv_fp two then -1 else if sv_fp one = sv_fp two then 0 else 1)"

definition sval_cmp :: "sval \<Rightarrow> sval \<Rightarrow> int" where
  "sval_cmp one two =
     (if sval_is_fp one \<or> sval_is_fp two then fp_cmp one two
      else
        (let t = (if sval_positive_bits two > sval_positive_bits one
                  then sv_type two else sv_type one);
             t = (if type_bits t < 31 then Some int_ctype else t);
             one = sval_cast t one; two = sval_cast t two
         in if type_unsigned t
            then (if uvalue one < uvalue two then -1
                  else if uvalue one = uvalue two then 0 else 1)
            else (if svalue one < svalue two then -1
                  else if svalue one = svalue two then 0 else 1)))"

definition sval_cmp_t :: "ctype \<Rightarrow> sval \<Rightarrow> sval \<Rightarrow> int" where
  "sval_cmp_t t one two = sval_cmp (sval_cast t one) (sval_cast t two)"

definition sval_cmp_val :: "sval \<Rightarrow> u64 \<Rightarrow> int" where
  "sval_cmp_val one v = sval_cmp one (sval_type_val (Some llong_ctype) v)"

definition sval_min :: "sval \<Rightarrow> sval \<Rightarrow> sval" where
  "sval_min one two = (if sval_cmp one two > 0 then two else one)"

definition sval_max :: "sval \<Rightarrow> sval \<Rightarrow> sval" where
  "sval_max one two = (if sval_cmp one two < 0 then two else one)"

definition sval_min_nonneg :: "sval \<Rightarrow> sval \<Rightarrow> sval" where
  "sval_min_nonneg one two =
     (if sval_is_negative one \<and> sval_is_negative two then one\<lparr>sv_val := 0\<rparr>
      else if sval_is_negative one then two
      else if sval_is_negative two then one
      else sval_min one two)"

definition sval_too_low :: "ctype \<Rightarrow> sval \<Rightarrow> bool" where
  "sval_too_low t sval =
     (if sval_is_negative sval \<and> type_unsigned t then True
      else if type_signed t \<and> sval_unsigned sval then False
      else if type_signed (sv_type sval) \<and> svalue sval < svalue (sval_type_min t) then True
      else sval_cmp sval (sval_type_min t) < 0)"

definition sval_too_high :: "ctype \<Rightarrow> sval \<Rightarrow> bool" where
  "sval_too_high t sval =
     (if sval_is_negative sval then False else uvalue sval > uvalue (sval_type_max t))"

definition sval_fits :: "ctype \<Rightarrow> sval \<Rightarrow> bool" where
  "sval_fits t sval =
     (if type_is_fp t then True
      else if type_is_fp (sv_type sval) then False
      else if sval_too_low t sval then False
      else if sval_too_high t sval then False
      else True)"

section \<open>Arithmetic\<close>

definition sval_preop :: "sval \<Rightarrow> opcode \<Rightarrow> sval" where
  "sval_preop sval op =
     (if op = Ch CHR ''!'' then sval\<lparr>sv_val := (if sv_val sval = 0 then 1 else 0)\<rparr>
      else if op = Ch CHR ''~'' then sval_cast (sv_type sval) (sval\<lparr>sv_val := NOT (sv_val sval)\<rparr>)
      else if op = Ch CHR ''-'' then sval_cast (sv_type sval) (sval\<lparr>sv_val := - sv_val sval\<rparr>)
      else sval)"

text \<open>
  Shifts by 64 or more are undefined in C; here the count is taken modulo 64, as the x86-64
  instructions do. Signed overflow wraps.
\<close>

definition shl64 :: "u64 \<Rightarrow> u64 \<Rightarrow> u64" where
  "shl64 a n = push_bit (unat n mod 64) a"

definition shr64 :: "u64 \<Rightarrow> u64 \<Rightarrow> u64" where
  "shr64 a n = drop_bit (unat n mod 64) a"

definition sar64 :: "u64 \<Rightarrow> u64 \<Rightarrow> u64" where
  "sar64 a n = signed_drop_bit (unat n mod 64) a"

definition sval_binop_unsigned :: "ctype \<Rightarrow> sval \<Rightarrow> opcode \<Rightarrow> sval \<Rightarrow> sval" where
  "sval_binop_unsigned t left op right =
     (let l = sv_val left; r = sv_val right
      in mk_sval t
        (if op = Ch CHR ''*'' then l * r
         else if op = Ch CHR ''/'' then (if r = 0 then 123456789 else l div r)
         else if op = Ch CHR ''+'' then l + r
         else if op = Ch CHR ''-'' then l - r
         else if op = Ch CHR ''%'' then (if r = 0 then 123456789 else l mod r)
         else if op = Ch CHR ''|'' then l OR r
         else if op = Ch CHR ''&'' then l AND r
         else if op = SPECIAL_RIGHTSHIFT then shr64 l r
         else if op = SPECIAL_LEFTSHIFT then shl64 l r
         else if op = Ch CHR ''^'' then l XOR r
         else 1234567))"

definition sval_binop_signed :: "ctype \<Rightarrow> sval \<Rightarrow> opcode \<Rightarrow> sval \<Rightarrow> sval" where
  "sval_binop_signed t left op right =
     (let l = sv_val left; r = sv_val right
      in mk_sval t
        (if op = Ch CHR ''*'' then l * r
         else if op = Ch CHR ''/'' then
           (if r = 0 then 123456789
            else if sint l = LLONG_MIN \<and> sint r = -1 then 12345678
            else word_of_int (sint l sdiv sint r))
         else if op = Ch CHR ''+'' then l + r
         else if op = Ch CHR ''-'' then l - r
         else if op = Ch CHR ''%'' then
           (if r = 0 then 123456789 else word_of_int (sint l smod sint r))
         else if op = Ch CHR ''|'' then l OR r
         else if op = Ch CHR ''&'' then l AND r
         else if op = SPECIAL_RIGHTSHIFT then sar64 l r
         else if op = SPECIAL_LEFTSHIFT then shl64 l r
         else if op = Ch CHR ''^'' then l XOR r
         else 1234567))"

text \<open>
  The operands on which the machine division instruction traps, and those with which
  \<^verbatim>\<open>sval_binop_signed\<close> reaches that instruction: the quotient is guarded against
  \<^verbatim>\<open>LLONG_MIN / -1\<close>, the remainder only against zero.
\<close>

definition idiv_traps :: "int \<Rightarrow> int \<Rightarrow> bool" where
  "idiv_traps l r = (r = 0 \<or> l = LLONG_MIN \<and> r = -1)"

definition sval_binop_signed_traps :: "sval \<Rightarrow> opcode \<Rightarrow> sval \<Rightarrow> bool" where
  "sval_binop_signed_traps left op right =
     (let l = svalue left; r = svalue right
      in if op = Ch CHR ''/'' then
           (if r = 0 then False
            else if l = LLONG_MIN \<and> r = -1 then False
            else idiv_traps l r)
         else if op = Ch CHR ''%'' then (if r = 0 then False else idiv_traps l r)
         else False)"

definition sym_alignment :: "ctype \<Rightarrow> int" where
  "sym_alignment t = (case t of None \<Rightarrow> 0 | Some s \<Rightarrow> alignment s)"

text \<open>The first lines of \<^verbatim>\<open>ptr_binop\<close>: the pointed-to type and the scale factor.\<close>

definition ptr_target :: "ctype \<Rightarrow> ctype" where
  "ptr_target t = (if is_sym SYM_PTR t then get_real_base_type t else t)"

definition ptr_align :: "ctype \<Rightarrow> u64" where
  "ptr_align t =
     (let align = sym_alignment (ptr_target t) in word_of_int (if align \<le> 0 then 1 else align))"

text \<open>The case \<^verbatim>\<open>op == '+'\<close>, which the subtraction case calls recursively.\<close>

definition ptr_binop_add :: "ctype \<Rightarrow> sval \<Rightarrow> sval \<Rightarrow> sval" where
  "ptr_binop_add t left right =
     mk_sval t
       (if type_is_ptr (sv_type left) then sv_val left + sv_val right * ptr_align t
        else sv_val left * ptr_align t + sv_val right)"

definition ptr_binop :: "ctype \<Rightarrow> sval \<Rightarrow> opcode \<Rightarrow> sval \<Rightarrow> sval" where
  "ptr_binop t left op right =
     (if op \<noteq> Ch CHR ''+'' \<and> op \<noteq> Ch CHR ''-'' then sval_binop_unsigned t left op right
      else if op = Ch CHR ''+'' then ptr_binop_add t left right
      else
        (let ret = (if \<not> type_is_ptr (sv_type left) then
                      ptr_binop_add (ptr_target t) (left\<lparr>sv_val := - sv_val left\<rparr>) right
                    else if \<not> type_is_ptr (sv_type right) then
                      ptr_binop_add (ptr_target t) left (right\<lparr>sv_val := - sv_val right\<rparr>)
                    else mk_sval t
                      (word_of_int (sint (sv_val left - sv_val right) sdiv sint (ptr_align t))))
         in ret\<lparr>sv_type := Some ssize_t_ctype\<rparr>))"

definition sval_binop :: "sval \<Rightarrow> opcode \<Rightarrow> sval \<Rightarrow> sval" where
  "sval_binop left op right =
     (let t = get_promoted_type (sv_type left) (sv_type right)
      in sval_cast t
        (if type_is_ptr t then ptr_binop t left op right
         else if type_unsigned t then sval_binop_unsigned t left op right
         else sval_binop_signed t left op right))"

section \<open>Overflow checks\<close>

definition invert_op :: "opcode \<Rightarrow> opcode" where
  "invert_op op =
     (if op = Ch CHR ''*'' then Ch CHR ''/''
      else if op = Ch CHR ''/'' then Ch CHR ''*''
      else if op = Ch CHR ''+'' then Ch CHR ''-''
      else if op = Ch CHR ''-'' then Ch CHR ''+''
      else if op = SPECIAL_LEFTSHIFT then SPECIAL_RIGHTSHIFT
      else if op = SPECIAL_RIGHTSHIFT then SPECIAL_LEFTSHIFT
      else UNKNOWN_COMPARISON)"

definition sval_unop_overflows :: "sval \<Rightarrow> opcode \<Rightarrow> bool" where
  "sval_unop_overflows sval op =
     (if op \<noteq> Ch CHR ''-'' then False
      else if sval_positive_bits sval = 32 \<and> svalue sval = INT_MIN then True
      else if sval_positive_bits sval = 64 \<and> svalue sval = LLONG_MIN then True
      else if sval_is_negative sval then False
      else if sval_signed sval then False
      else if sval_bits sval = 32 \<and> uvalue sval > INT_MAX then True
      else sval_bits sval = 64 \<and> uvalue sval > LLONG_MAX)"

text \<open>
  The macro \<^verbatim>\<open>type_overflow(type, a, op, b)\<close>: both operands are converted to \<^verbatim>\<open>type\<close>, of which
  \<open>conv\<close> is the conversion and \<open>lo\<close> to \<open>hi\<close> the range, and the builtin reports whether the
  exact result lies outside it.
\<close>

definition type_overflow :: "(int \<Rightarrow> int) \<Rightarrow> int \<Rightarrow> int \<Rightarrow> int \<Rightarrow> opcode \<Rightarrow> int \<Rightarrow> bool" where
  "type_overflow conv lo hi a op b =
     (let out = (\<lambda>x. x < lo \<or> hi < x)
      in if op = Ch CHR ''*'' then out (conv a * conv b)
         else if op = Ch CHR ''+'' then out (conv a + conv b)
         else if op = Ch CHR ''-'' then out (conv a - conv b)
         else True)"

definition overflow_type :: "ctype \<Rightarrow> ctype \<Rightarrow> ctype" where
  "overflow_type left right =
     (let t = Some int_ctype;
          t = (if type_positive_bits left > type_positive_bits t then left else t)
      in if type_positive_bits right > type_positive_bits t then right else t)"

definition sval_binop_overflows :: "sval \<Rightarrow> opcode \<Rightarrow> sval \<Rightarrow> bool" where
  "sval_binop_overflows left op right =
     (let t = overflow_type (sv_type left) (sv_type right); l = svalue left; r = svalue right
      in if op = SPECIAL_LEFTSHIFT
         then sval_cmp left (sval_binop (sval_type_max t) (invert_op op) right) > 0
         else if op \<noteq> Ch CHR ''*'' \<and> op \<noteq> Ch CHR ''+'' \<and> op \<noteq> Ch CHR ''-'' then False
         else if type_positive_bits t = 31 then type_overflow (swrap 32) INT_MIN INT_MAX l op r
         else if type_positive_bits t = 32 then type_overflow (uwrap 32) 0 UINT_MAX l op r
         else if type_positive_bits t = 63 then
           type_overflow (swrap 64) LLONG_MIN LLONG_MAX l op r
         else if type_positive_bits t = 64 then type_overflow (uwrap 64) 0 ULLONG_MAX l op r
         else False)"

definition sval_binop_overflows_no_sign :: "sval \<Rightarrow> opcode \<Rightarrow> sval \<Rightarrow> bool" where
  "sval_binop_overflows_no_sign left op right =
     (let t = (if type_positive_bits (sv_type right) > type_positive_bits (sv_type left)
               then sv_type right else sv_type left);
          t = (if type_positive_bits t \<le> 31 then Some uint_ctype else Some ullong_ctype)
      in sval_binop_overflows (sval_cast t left) op (sval_cast t right))"

section \<open>Bit scans\<close>

text \<open>The loop \<^verbatim>\<open>for (i = 0; i < 64; i++)\<close>; \<open>n\<close> is \<open>64 - i\<close>.\<close>

fun zero_bit_loop :: "u64 \<Rightarrow> nat \<Rightarrow> nat" where
  "zero_bit_loop v 0 = 64"
| "zero_bit_loop v (Suc n) =
     (if v AND push_bit (63 - n) 1 = 0 then 63 - n else zero_bit_loop v n)"

definition find_first_zero_bit :: "u64 \<Rightarrow> nat" where
  "find_first_zero_bit v = zero_bit_loop v 64"

function sm_fls64 :: "u64 \<Rightarrow> nat" where
  "sm_fls64 v = (if v \<noteq> 0 then Suc (sm_fls64 (drop_bit 1 v)) else 0)"
  by pat_completeness auto
termination
  by (relation "measure unat")
    (auto simp: drop_bit_eq_div unat_div intro!: div_less_dividend unat_gt_0 [THEN iffD2])

declare sm_fls64.simps [simp del]

definition fls_mask :: "u64 \<Rightarrow> u64" where
  "fls_mask v =
     (let high_bit = sm_fls64 v
      in if high_bit = 0 then 0 else drop_bit (64 - high_bit) (- 1))"

definition sval_fls_mask :: "sval \<Rightarrow> u64" where
  "sval_fls_mask sval = fls_mask (sv_val sval)"

end
