(* ===== verification/Ranges.thy ===== *)
theory Ranges
  imports Sval
begin

text \<open>
  Range lists (\<^verbatim>\<open>src/smatch_ranges.c\<close>): the sets of values smatch tracks for an expression, as
  sorted lists of closed intervals of typed values. This theory translates the construction,
  conversion, set operations and comparison tests; the proofs are in the theories that import
  it.
\<close>

unbundle bit_operations_syntax

section \<open>Data\<close>

record data_range =
  dr_min :: sval
  dr_max :: sval

text \<open>
  A \<^verbatim>\<open>struct range_list *\<close> is a pointer list of ranges; NULL is the empty list. A range list is
  a value here: the in-place edits of \<^verbatim>\<open>add_range\<close> return the new list.
\<close>

type_synonym range_list = "data_range list"

datatype project_type =
  PROJ_NONE | PROJ_KERNEL | PROJ_WINE | PROJ_ILLUMOS_KERNEL | PROJ_ILLUMOS_USER | PROJ_UNKNOWN

definition alloc_range :: "sval \<Rightarrow> sval \<Rightarrow> data_range" where
  "alloc_range mn mx = \<lparr>dr_min = mn, dr_max = mx\<rparr>"

definition valid_ptr_min_sval :: sval where
  "valid_ptr_min_sval = mk_sval (Some ptr_ctype) 4096"

definition valid_ptr_max_sval :: sval where
  "valid_ptr_max_sval = mk_sval (Some ptr_ctype) valid_ptr_max"

definition int_zero :: sval where "int_zero = mk_sval (Some int_ctype) 0"
definition int_minus_one :: sval where "int_minus_one = mk_sval (Some int_ctype) (- 1)"

definition rl_min :: "range_list \<Rightarrow> sval" where
  "rl_min rl =
     (case rl of [] \<Rightarrow> mk_sval (Some llong_ctype) (word_of_int LLONG_MIN) | d # _ \<Rightarrow> dr_min d)"

definition rl_max :: "range_list \<Rightarrow> sval" where
  "rl_max rl =
     (case rl of [] \<Rightarrow> mk_sval (Some llong_ctype) (word_of_int LLONG_MAX)
      | _ # _ \<Rightarrow> dr_max (last rl))"

definition rl_type :: "range_list \<Rightarrow> ctype" where
  "rl_type rl = (if rl = [] then None else sv_type (rl_min rl))"

text \<open>The out parameter of \<^verbatim>\<open>rl_to_sval\<close> is the \<open>Some\<close> value.\<close>

definition rl_to_sval :: "range_list \<Rightarrow> sval option" where
  "rl_to_sval rl =
     (if rl = [] then None
      else if sval_cmp (rl_min rl) (rl_max rl) \<noteq> 0 then None
      else Some (rl_min rl))"

text \<open>The global \<^verbatim>\<open>option_project\<close> is an argument of every function that reads it.\<close>

definition is_err_ptr :: "project_type \<Rightarrow> sval \<Rightarrow> bool" where
  "is_err_ptr prj sval =
     (if prj \<noteq> PROJ_KERNEL then False
      else if \<not> type_is_ptr (sv_type sval) then False
      else if sval_cmp sval valid_ptr_max_sval \<le> 0 then False
      else True)"

definition rl_is_zero :: "range_list \<Rightarrow> bool" where
  "rl_is_zero rl = (rl \<noteq> [] \<and> svalue (rl_min rl) = 0 \<and> svalue (rl_max rl) = 0)"

definition is_whole_rl :: "range_list \<Rightarrow> bool" where
  "is_whole_rl rl =
     (case rl of [] \<Rightarrow> False | d # _ \<Rightarrow> sval_is_min (dr_min d) \<and> sval_is_max (dr_max d))"

definition is_whole_rl_non_zero :: "range_list \<Rightarrow> bool" where
  "is_whole_rl_non_zero rl =
     (case rl of
        [] \<Rightarrow> False
      | d # _ \<Rightarrow>
          if sval_unsigned (dr_min d) \<and> svalue (dr_min d) = 1 \<and> sval_is_max (dr_max d) then True
          else if \<not> sval_is_min (dr_min d) \<or> svalue (dr_max d) \<noteq> -1 then False
          else if svalue (dr_min (last rl)) \<noteq> 1 \<or> \<not> sval_is_max (dr_max (last rl)) then False
          else True)"

text \<open>The loop gives up at the third range.\<close>

fun is_unknown_ptr_loop :: "nat \<Rightarrow> range_list \<Rightarrow> bool" where
  "is_unknown_ptr_loop cnt [] = False"
| "is_unknown_ptr_loop cnt (d # ds) =
     (if Suc cnt \<ge> 3 then False
      else if sval_cmp (dr_min d) valid_ptr_min_sval = 0
              \<and> sval_cmp (dr_max d) valid_ptr_max_sval = 0 then True
      else is_unknown_ptr_loop (Suc cnt) ds)"

definition is_unknown_ptr :: "range_list \<Rightarrow> bool" where
  "is_unknown_ptr rl = (if is_whole_rl rl then True else is_unknown_ptr_loop 0 rl)"

definition ulong_ULONG_MAX :: sval where
  "ulong_ULONG_MAX = sval_type_max (Some ulong_ctype)"

definition is_whole_ptr_rl :: "range_list \<Rightarrow> bool" where
  "is_whole_ptr_rl rl =
     (if is_whole_rl rl then True
      else
        (case rl of
           [d1, d2] \<Rightarrow>
             (if svalue (dr_min d1) \<noteq> 0 \<or> svalue (dr_max d1) \<noteq> 0 then False
              else if sv_val (dr_min d2) \<noteq> valid_ptr_min
                      \<or> sval_cmp (dr_max d2) ulong_ULONG_MAX \<noteq> 0
                        \<and> sval_cmp (dr_max d2) valid_ptr_max_sval \<noteq> 0 then False
              else True)
         | _ \<Rightarrow> False))"

section \<open>Adding one range\<close>

text \<open>
  The iterations of \<^verbatim>\<open>add_range\<close> after \<^verbatim>\<open>check_next\<close> has been set: \<open>new\<close> is the range already
  in the list, and the ranges it now overlaps are deleted or merged into it.
\<close>

fun add_range_next :: "sval \<Rightarrow> data_range \<Rightarrow> range_list \<Rightarrow> range_list" where
  "add_range_next mx new [] = [new]"
| "add_range_next mx new (tmp # rest) =
     (if \<not> sval_is_max mx \<and> sv_val mx + 1 = sv_val (dr_min tmp) then
        new\<lparr>dr_max := dr_max tmp\<rparr> # rest
      else if sval_cmp mx (dr_min tmp) < 0 then new # tmp # rest
      else if sval_cmp mx (dr_max tmp) \<le> 0 then new\<lparr>dr_max := dr_max tmp\<rparr> # rest
      else add_range_next mx new rest)"

fun add_range_loop :: "sval \<Rightarrow> sval \<Rightarrow> range_list \<Rightarrow> range_list" where
  "add_range_loop mn mx [] = [alloc_range mn mx]"
| "add_range_loop mn mx (tmp # rest) =
     (if \<not> sval_is_max mx \<and> sv_val mx + 1 = sv_val (dr_min tmp) then
        alloc_range mn (dr_max tmp) # rest
      else if sval_cmp mx (dr_min tmp) < 0 then alloc_range mn mx # tmp # rest
      else if sval_cmp mn (dr_min tmp) < 0 then
        (if sval_cmp mx (dr_max tmp) < 0 then alloc_range mn (dr_max tmp) # rest
         else add_range_next mx (alloc_range mn mx) rest)
      else if sval_cmp mx (dr_max tmp) \<le> 0 then tmp # rest
      else if sval_cmp mn (dr_max tmp) \<le> 0 then
        add_range_next mx (alloc_range (dr_min tmp) mx) rest
      else if \<not> sval_is_min mn \<and> sv_val mn - 1 = sv_val (dr_max tmp) then
        add_range_next mx (alloc_range (dr_min tmp) mx) rest
      else tmp # add_range_loop mn mx rest)"

section \<open>Conversion tests\<close>

definition sval_too_big :: "ctype \<Rightarrow> sval \<Rightarrow> bool" where
  "sval_too_big t sval =
     (if type_bits t \<ge> 32 \<and> type_bits (sv_type sval) \<le> type_bits t then False
      else if uvalue sval \<le> uint (shl64 1 (word_of_int (type_bits t)) - 1) then False
      else if type_signed (sv_type sval) then
        (if type_unsigned t \<and> uint (NOT (sv_val sval)) \<le> uvalue (sval_type_max t) then False
         else if svalue sval < svalue (sval_type_min t) then True
         else if svalue sval > svalue (sval_type_max t) then True
         else False)
      else uvalue sval > uvalue (sval_type_max t))"

definition truncates_nicely :: "ctype \<Rightarrow> sval \<Rightarrow> sval \<Rightarrow> bool" where
  "truncates_nicely t mn mx =
     (let bits = type_bits t
      in if type_is_fp (sv_type mn) \<and> \<not> type_is_fp t then False
         else if bits \<ge> type_bits (sv_type mn) then False
         else
           (let m = shl64 (- 1) (word_of_int bits)
            in sv_val mn AND m = sv_val mx AND m))"

definition rl_is_sane :: "range_list \<Rightarrow> bool" where
  "rl_is_sane rl =
     list_all (\<lambda>tmp. sval_fits (rl_type rl) (dr_min tmp) \<and> sval_fits (rl_type rl) (dr_max tmp)
                     \<and> \<not> sval_cmp (dr_min tmp) (dr_max tmp) > 0) rl"

definition rl_type_consistent :: "range_list \<Rightarrow> bool" where
  "rl_type_consistent rl =
     list_all (\<lambda>tmp. rl_type rl = sv_type (dr_min tmp) \<and> rl_type rl = sv_type (dr_max tmp)) rl"

text \<open>The two flags computed by the loop of \<^verbatim>\<open>cast_to_bool\<close>.\<close>

definition bool_has_one :: "range_list \<Rightarrow> bool" where
  "bool_has_one rl = list_ex (\<lambda>tmp. svalue (dr_min tmp) \<noteq> 0 \<or> svalue (dr_max tmp) \<noteq> 0) rl"

definition bool_has_zero :: "range_list \<Rightarrow> bool" where
  "bool_has_zero rl =
     list_ex (\<lambda>tmp. \<not> (sval_is_negative (dr_min tmp) \<and> sval_is_negative (dr_max tmp))
                    \<and> (svalue (dr_min tmp) = 0 \<or> svalue (dr_max tmp) = 0
                       \<or> sval_is_negative (dr_min tmp) \<and> svalue (dr_max tmp) > 0)) rl"

section \<open>add_range and cast_rl\<close>

text \<open>
  \<^verbatim>\<open>add_range\<close>, \<^verbatim>\<open>collapse_pointer_rl\<close>, \<^verbatim>\<open>add_range_t\<close>, \<^verbatim>\<open>cast_rl\<close> and \<^verbatim>\<open>alloc_whole_rl\<close> call
  each other: a range whose type differs from the list's makes \<^verbatim>\<open>add_range\<close> convert the list,
  and the conversion adds the converted ranges one by one. \<open>n\<close> bounds the depth of these calls;
  \<open>fuel_enough\<close> in \<open>Range_Fuel\<close> shows that the depth chosen below is never reached for integers. \<open>rc\<close> is the static variable
  \<^verbatim>\<open>recurse\<close> of \<^verbatim>\<open>collapse_pointer_rl\<close>, which is set exactly during that function's own calls.
\<close>

definition cast_to_bool :: "(range_list \<Rightarrow> sval \<Rightarrow> sval \<Rightarrow> range_list) \<Rightarrow> range_list \<Rightarrow> range_list" where
  "cast_to_bool add rl =
     add [] (mk_sval (Some bool_ctype) (if bool_has_zero rl then 0 else 1))
            (mk_sval (Some bool_ctype) (if bool_has_one rl then 1 else 0))"

text \<open>\<^verbatim>\<open>alloc_rl\<close> and \<^verbatim>\<open>alloc_whole_rl\<close> over the adding function they call.\<close>

definition whole_type :: "ctype \<Rightarrow> ctype" where
  "whole_type t =
     (let t = (if t = None \<or> type_positive_bits t < 0 then Some llong_ctype else t);
          t = (if is_sym SYM_ARRAY t then Some ptr_ctype else t);
          t = (if is_sym SYM_FN t then Some ptr_ctype else t)
      in if is_sym SYM_NODE t then get_real_base_type t else t)"

definition alloc_whole_with ::
  "(range_list \<Rightarrow> sval \<Rightarrow> sval \<Rightarrow> range_list) \<Rightarrow> ctype \<Rightarrow> range_list" where
  "alloc_whole_with add t = add [] (sval_type_min (whole_type t)) (sval_type_max (whole_type t))"

text \<open>The end of \<^verbatim>\<open>add_range_t\<close>: the ranges that cross a sign boundary of the new type are split.\<close>

definition add_range_t_wrap ::
  "(range_list \<Rightarrow> sval \<Rightarrow> sval \<Rightarrow> range_list) \<Rightarrow> ctype \<Rightarrow> range_list \<Rightarrow> sval \<Rightarrow> sval \<Rightarrow> range_list" where
  "add_range_t_wrap add t rl mn mx =
     (let (rl, mn, mx) =
            (if sval_is_negative mn \<and> type_unsigned t then
               (if sval_is_positive mx then
                  (let rl = add rl (sval_type_val t 0) (sval_cast t mx);
                       mx = sval_type_max t; mn = sval_cast t mn
                   in (add rl mn mx, mn, mx))
                else
                  (let mx = sval_cast t mx; mn = sval_cast t mn
                   in (add rl mn mx, mn, mx)))
             else (rl, mn, mx));
          (rl, mn, mx) =
            (if sval_unsigned mx \<and> sval_is_negative (sval_cast t mx) then
               (if \<not> sval_is_negative (sval_cast t mn) then
                  (let rl = add rl (sval_cast t mn) (sval_type_max t);
                       mn = sval_type_min t; mx = sval_cast t mx
                   in (add rl mn mx, mn, mx))
                else
                  (let mn = sval_cast t mn; mx = sval_cast t mx
                   in (add rl mn mx, mn, mx)))
             else (rl, mn, mx))
      in add rl (sval_cast t mn) (sval_cast t mx))"

definition add_range_t ::
  "(range_list \<Rightarrow> sval \<Rightarrow> sval \<Rightarrow> range_list) \<Rightarrow> ctype \<Rightarrow> range_list \<Rightarrow> sval \<Rightarrow> sval \<Rightarrow> range_list" where
  "add_range_t add t rl mn mx =
     (if sval_cmp mn mx = 0 then add rl (sval_cast t mn) (sval_cast t mx)
      else if sval_fits t mn \<and> sval_fits t mx then add rl (sval_cast t mn) (sval_cast t mx)
      else if truncates_nicely t mn mx then add rl (sval_cast t mn) (sval_cast t mx)
      else if sval_too_big t mn \<or> sval_too_big t mx then
        add rl (sval_type_min t) (sval_type_max t)
      else if sval_is_negative mn \<and> type_unsigned t \<and> sval_is_positive mx
              \<and> sval_too_high t mx then
        add rl (sval_type_min t) (sval_type_max t)
      else add_range_t_wrap add t rl mn mx)"

definition cast_rl_with ::
  "(range_list \<Rightarrow> sval \<Rightarrow> sval \<Rightarrow> range_list) \<Rightarrow> ctype \<Rightarrow> range_list \<Rightarrow> range_list" where
  "cast_rl_with add t rl =
     (if rl = [] then []
      else if t = None then rl
      else if \<not> rl_is_sane rl then alloc_whole_with add t
      else if t = rl_type rl \<and> rl_type_consistent rl then rl
      else if t = Some bool_ctype then cast_to_bool add rl
      else
        (let ret = foldl (\<lambda>ret tmp. add_range_t add t ret (dr_min tmp) (dr_max tmp)) [] rl
         in if ret = [] then alloc_whole_with add t else ret))"

definition collapse_with ::
  "(range_list \<Rightarrow> sval \<Rightarrow> sval \<Rightarrow> range_list) \<Rightarrow> project_type \<Rightarrow> range_list \<Rightarrow> sval \<Rightarrow> sval \<Rightarrow>
     range_list option" where
  "collapse_with add prj rl mn mx =
     (if \<not> type_is_ptr (sv_type mn) then None
      else if length rl < 8 then None
      else if length (filter (\<lambda>tmp. \<not> is_err_ptr prj (dr_min tmp)) rl) < 8 then None
      else
        (let new_rl = foldl (\<lambda>new_rl tmp.
                 if sval_cmp (dr_min tmp) valid_ptr_min_sval \<ge> 0
                    \<and> sval_cmp (dr_max tmp) valid_ptr_max_sval \<le> 0
                 then add new_rl valid_ptr_min_sval valid_ptr_max_sval
                 else add new_rl (dr_min tmp) (dr_max tmp)) [] rl
         in Some (add new_rl mn mx)))"

fun add_range_f ::
  "nat \<Rightarrow> bool \<Rightarrow> project_type \<Rightarrow> range_list \<Rightarrow> sval \<Rightarrow> sval \<Rightarrow> range_list" where
  "add_range_f 0 rc prj rl mn mx = []"
| "add_range_f (Suc n) rc prj rl mn mx =
     (let (rl, mn, mx) =
            (if rl \<noteq> [] \<and> rl_type rl \<noteq> sv_type mn then
               (if is_sym SYM_PTR (rl_type rl) then
                  (rl, sval_cast (rl_type rl) mn, sval_cast (rl_type rl) mx)
                else if is_sym SYM_PTR (sv_type mn) then
                  (cast_rl_with (add_range_f n rc prj) (sv_type mn) rl, mn, mx)
                else if type_bits (rl_type rl) \<ge> type_bits (sv_type mn) then
                  (rl, sval_cast (rl_type rl) mn, sval_cast (rl_type rl) mx)
                else (cast_rl_with (add_range_f n rc prj) (sv_type mn) rl, mn, mx))
             else (rl, mn, mx));
          (mn, mx) =
            (if sval_cmp mn mx > 0
             then (sval_type_min (sv_type mn), sval_type_max (sv_type (sval_type_min (sv_type mn))))
             else (mn, mx))
      in case (if rc then None
               else collapse_with (add_range_f n True prj) prj rl mn mx) of
           Some rl' \<Rightarrow> rl'
         | None \<Rightarrow> add_range_loop mn mx rl)"

text \<open>
  The depth limit. The longest chain of the source is a conversion of the list, the collapse of a
  pointer list inside it, a second conversion and an addition.
\<close>

definition add_range_depth :: nat where
  "add_range_depth = 6"

definition add_range :: "project_type \<Rightarrow> range_list \<Rightarrow> sval \<Rightarrow> sval \<Rightarrow> range_list" where
  "add_range prj = add_range_f add_range_depth False prj"

definition cast_rl :: "project_type \<Rightarrow> ctype \<Rightarrow> range_list \<Rightarrow> range_list" where
  "cast_rl prj = cast_rl_with (add_range prj)"

definition alloc_whole_rl :: "project_type \<Rightarrow> ctype \<Rightarrow> range_list" where
  "alloc_whole_rl prj = alloc_whole_with (add_range prj)"

definition alloc_rl :: "project_type \<Rightarrow> sval \<Rightarrow> sval \<Rightarrow> range_list" where
  "alloc_rl prj mn mx =
     (if sval_cmp mn mx > 0 then alloc_whole_rl prj (sv_type mn) else add_range prj [] mn mx)"

section \<open>Set operations\<close>

definition rl_union :: "project_type \<Rightarrow> range_list \<Rightarrow> range_list \<Rightarrow> range_list" where
  "rl_union prj one two =
     (let ret = foldl (\<lambda>ret tmp. add_range prj ret (dr_min tmp) (dr_max tmp)) [] one
      in foldl (\<lambda>ret tmp. add_range prj ret (dr_min tmp) (dr_max tmp)) ret two)"

text \<open>
  The loop of \<^verbatim>\<open>remove_range\<close>. It carries the bounds, because the branches that cut a range step
  the bound in place (\<^verbatim>\<open>max.value++\<close>, \<^verbatim>\<open>min.value--\<close>).
\<close>

fun remove_range_loop ::
  "project_type \<Rightarrow> sval \<Rightarrow> sval \<Rightarrow> range_list \<Rightarrow> range_list \<Rightarrow> range_list" where
  "remove_range_loop prj mn mx ret [] = ret"
| "remove_range_loop prj mn mx ret (tmp # rest) =
     (if sval_cmp (dr_max tmp) mn < 0 then
        remove_range_loop prj mn mx (add_range prj ret (dr_min tmp) (dr_max tmp)) rest
      else if sval_cmp (dr_min tmp) mx > 0 then
        remove_range_loop prj mn mx (add_range prj ret (dr_min tmp) (dr_max tmp)) rest
      else if sval_cmp (dr_min tmp) mn \<ge> 0 \<and> sval_cmp (dr_max tmp) mx \<le> 0 then
        remove_range_loop prj mn mx ret rest
      else if sval_cmp (dr_min tmp) mn \<ge> 0 then
        (let mx = mx\<lparr>sv_val := sv_val mx + 1\<rparr>
         in remove_range_loop prj mn mx (add_range prj ret mx (dr_max tmp)) rest)
      else if sval_cmp (dr_max tmp) mx \<le> 0 then
        (let mn = mn\<lparr>sv_val := sv_val mn - 1\<rparr>
         in remove_range_loop prj mn mx (add_range prj ret (dr_min tmp) mn) rest)
      else
        (let mn = mn\<lparr>sv_val := sv_val mn - 1\<rparr>; mx = mx\<lparr>sv_val := sv_val mx + 1\<rparr>;
             ret = add_range prj ret (dr_min tmp) mn
         in remove_range_loop prj mn mx (add_range prj ret mx (dr_max tmp)) rest))"

definition remove_range :: "project_type \<Rightarrow> range_list \<Rightarrow> sval \<Rightarrow> sval \<Rightarrow> range_list" where
  "remove_range prj list mn mx =
     (if list = [] then []
      else
        (let mn = sval_cast (rl_type list) mn; mx = sval_cast (rl_type list) mx;
             (mn, mx) = (if sval_cmp mn mx > 0 then (mx, mn) else (mn, mx))
         in remove_range_loop prj mn mx [] list))"

definition rl_filter :: "project_type \<Rightarrow> range_list \<Rightarrow> range_list \<Rightarrow> range_list" where
  "rl_filter prj rl filt = foldl (\<lambda>rl tmp. remove_range prj rl (dr_min tmp) (dr_max tmp)) rl filt"

text \<open>
  The two-pointer walk of \<^verbatim>\<open>do_intersection\<close>; \<open>None\<close> is the \<^verbatim>\<open>sm_fatal\<close> exit.
\<close>

function do_intersection_loop ::
  "project_type \<Rightarrow> range_list \<Rightarrow> range_list \<Rightarrow> range_list \<Rightarrow> range_list option" where
  "do_intersection_loop prj ret [] twos = Some ret"
| "do_intersection_loop prj ret (one # ones) [] = Some ret"
| "do_intersection_loop prj ret (one # ones) (two # twos) =
     (if sval_cmp (dr_max one) (dr_min two) < 0 then
        do_intersection_loop prj ret ones (two # twos)
      else if sval_cmp (dr_min one) (dr_min two) < 0 \<and> sval_cmp (dr_max one) (dr_max two) \<le> 0 then
        do_intersection_loop prj (add_range prj ret (dr_min two) (dr_max one)) ones (two # twos)
      else if sval_cmp (dr_min one) (dr_min two) \<ge> 0 \<and> sval_cmp (dr_max one) (dr_max two) \<le> 0 then
        do_intersection_loop prj (add_range prj ret (dr_min one) (dr_max one)) ones (two # twos)
      else if sval_cmp (dr_min one) (dr_min two) < 0 \<and> sval_cmp (dr_max one) (dr_max two) > 0 then
        do_intersection_loop prj (add_range prj ret (dr_min two) (dr_max two)) (one # ones) twos
      else if sval_cmp (dr_min one) (dr_max two) \<le> 0 \<and> sval_cmp (dr_max one) (dr_max two) > 0 then
        do_intersection_loop prj (add_range prj ret (dr_min one) (dr_max two)) (one # ones) twos
      else if sval_cmp (dr_min one) (dr_max two) \<le> 0 then None
      else do_intersection_loop prj ret (one # ones) twos)"
  by pat_completeness auto
termination
  by (relation "measure (\<lambda>(prj, ret, ones, twos). length ones + length twos)") auto

definition do_intersection ::
  "project_type \<Rightarrow> range_list \<Rightarrow> range_list \<Rightarrow> range_list option" where
  "do_intersection prj one_rl two_rl = do_intersection_loop prj [] one_rl two_rl"

definition rl_intersection ::
  "project_type \<Rightarrow> range_list \<Rightarrow> range_list \<Rightarrow> range_list option" where
  "rl_intersection prj one two =
     (if one = [] \<or> two = [] then Some []
      else
        (let ret_type = rl_type one;
             large_type = (if type_bits (rl_type two) < type_bits (rl_type one)
                           then rl_type one else rl_type two)
         in map_option (cast_rl prj ret_type)
              (do_intersection prj (cast_rl prj large_type one) (cast_rl prj large_type two))))"

section \<open>Tests on range lists\<close>

definition rl_has_sval :: "range_list \<Rightarrow> sval \<Rightarrow> bool" where
  "rl_has_sval rl sval =
     list_ex (\<lambda>tmp. sval_cmp (dr_min tmp) sval \<le> 0 \<and> sval_cmp (dr_max tmp) sval \<ge> 0) rl"

definition ranges_equiv :: "data_range option \<Rightarrow> data_range option \<Rightarrow> bool" where
  "ranges_equiv one two =
     (case (one, two) of
        (None, None) \<Rightarrow> True
      | (Some a, Some b) \<Rightarrow>
          sval_cmp (dr_min a) (dr_min b) = 0 \<and> sval_cmp (dr_max a) (dr_max b) = 0
      | _ \<Rightarrow> False)"

text \<open>\<^verbatim>\<open>get_binop_type\<close> of \<^verbatim>\<open>src/smatch_ranges.c\<close>.\<close>

definition get_binop_type :: "range_list \<Rightarrow> range_list \<Rightarrow> ctype" where
  "get_binop_type left right =
     (let t = Some int_ctype;
          t = (if type_positive_bits (rl_type left) > type_positive_bits t then rl_type left else t)
      in if type_positive_bits (rl_type right) > type_positive_bits t then rl_type right else t)"

fun rl_equiv_loop :: "range_list \<Rightarrow> range_list \<Rightarrow> bool" where
  "rl_equiv_loop [] [] = True"
| "rl_equiv_loop (a # as) [] = ranges_equiv (Some a) None"
| "rl_equiv_loop [] (b # bs) = ranges_equiv None (Some b)"
| "rl_equiv_loop (a # as) (b # bs) =
     (if \<not> ranges_equiv (Some a) (Some b) then False else rl_equiv_loop as bs)"

text \<open>The shortcut for equal pointers is the empty list against itself here.\<close>

definition rl_equiv :: "project_type \<Rightarrow> range_list \<Rightarrow> range_list \<Rightarrow> bool" where
  "rl_equiv prj one two =
     (if one = two then True
      else if one = [] \<or> two = [] then False
      else if rl_type one \<noteq> rl_type two then
        (let t = get_binop_type one two
         in rl_equiv_loop (cast_rl prj t one) (cast_rl prj t two))
      else rl_equiv_loop one two)"

definition true_comparison_range :: "data_range \<Rightarrow> opcode \<Rightarrow> data_range \<Rightarrow> bool" where
  "true_comparison_range left comparison right =
     (if comparison = Ch CHR ''<'' \<or> comparison = SPECIAL_UNSIGNED_LT then
        sval_cmp (dr_min left) (dr_max right) < 0
      else if comparison = SPECIAL_UNSIGNED_LTE \<or> comparison = SPECIAL_LTE then
        sval_cmp (dr_min left) (dr_max right) \<le> 0
      else if comparison = SPECIAL_EQUAL then
        (if sval_cmp (dr_max left) (dr_min right) < 0 then False
         else if sval_cmp (dr_min left) (dr_max right) > 0 then False
         else True)
      else if comparison = SPECIAL_UNSIGNED_GTE \<or> comparison = SPECIAL_GTE then
        sval_cmp (dr_max left) (dr_min right) \<ge> 0
      else if comparison = Ch CHR ''>'' \<or> comparison = SPECIAL_UNSIGNED_GT then
        sval_cmp (dr_max left) (dr_min right) > 0
      else if comparison = SPECIAL_NOTEQUAL then
        (if sval_cmp (dr_min left) (dr_max left) \<noteq> 0 then True
         else if sval_cmp (dr_min right) (dr_max right) \<noteq> 0 then True
         else if sval_cmp (dr_min left) (dr_min right) \<noteq> 0 then True
         else False)
      else False)"

definition true_comparison_range_LR :: "opcode \<Rightarrow> data_range \<Rightarrow> data_range \<Rightarrow> bool \<Rightarrow> bool" where
  "true_comparison_range_LR comparison var val left =
     (if left then true_comparison_range var comparison val
      else true_comparison_range val comparison var)"

definition false_comparison_range_sval :: "data_range \<Rightarrow> opcode \<Rightarrow> data_range \<Rightarrow> bool" where
  "false_comparison_range_sval left comparison right =
     (if comparison = Ch CHR ''<'' \<or> comparison = SPECIAL_UNSIGNED_LT then
        sval_cmp (dr_max left) (dr_min right) \<ge> 0
      else if comparison = SPECIAL_UNSIGNED_LTE \<or> comparison = SPECIAL_LTE then
        sval_cmp (dr_max left) (dr_min right) > 0
      else if comparison = SPECIAL_EQUAL then
        (if sval_cmp (dr_min left) (dr_max left) \<noteq> 0 then True
         else if sval_cmp (dr_min right) (dr_max right) \<noteq> 0 then True
         else if sval_cmp (dr_min left) (dr_min right) \<noteq> 0 then True
         else False)
      else if comparison = SPECIAL_UNSIGNED_GTE \<or> comparison = SPECIAL_GTE then
        sval_cmp (dr_min left) (dr_max right) < 0
      else if comparison = Ch CHR ''>'' \<or> comparison = SPECIAL_UNSIGNED_GT then
        sval_cmp (dr_min left) (dr_max right) \<le> 0
      else if comparison = SPECIAL_NOTEQUAL then
        (if sval_cmp (dr_max left) (dr_min right) < 0 then False
         else if sval_cmp (dr_min left) (dr_max right) > 0 then False
         else True)
      else False)"

definition false_comparison_range_LR :: "opcode \<Rightarrow> data_range \<Rightarrow> data_range \<Rightarrow> bool \<Rightarrow> bool" where
  "false_comparison_range_LR comparison var val left =
     (if left then false_comparison_range_sval var comparison val
      else false_comparison_range_sval val comparison var)"

definition possibly_true_rl :: "project_type \<Rightarrow> range_list \<Rightarrow> opcode \<Rightarrow> range_list \<Rightarrow> bool" where
  "possibly_true_rl prj left_ranges comparison right_ranges =
     (if left_ranges = [] \<or> right_ranges = [] \<or> comparison = UNKNOWN_COMPARISON then True
      else if comparison = IMPOSSIBLE_COMPARISON then False
      else
        (let t = get_binop_type left_ranges right_ranges
         in list_ex (\<lambda>left_tmp.
              list_ex (\<lambda>right_tmp. true_comparison_range left_tmp comparison right_tmp)
                (cast_rl prj t right_ranges))
              (cast_rl prj t left_ranges)))"

definition possibly_false_rl :: "project_type \<Rightarrow> range_list \<Rightarrow> opcode \<Rightarrow> range_list \<Rightarrow> bool" where
  "possibly_false_rl prj left_ranges comparison right_ranges =
     (if left_ranges = [] \<or> right_ranges = [] \<or> comparison = UNKNOWN_COMPARISON then True
      else if comparison = IMPOSSIBLE_COMPARISON then False
      else
        (let t = get_binop_type left_ranges right_ranges
         in list_ex (\<lambda>left_tmp.
              list_ex (\<lambda>right_tmp. false_comparison_range_sval left_tmp comparison right_tmp)
                (cast_rl prj t right_ranges))
              (cast_rl prj t left_ranges)))"

definition possibly_true_rl_LR ::
  "project_type \<Rightarrow> opcode \<Rightarrow> range_list \<Rightarrow> range_list \<Rightarrow> bool \<Rightarrow> bool" where
  "possibly_true_rl_LR prj comparison a b left =
     (if left then possibly_true_rl prj a comparison b else possibly_true_rl prj b comparison a)"

definition possibly_false_rl_LR ::
  "project_type \<Rightarrow> opcode \<Rightarrow> range_list \<Rightarrow> range_list \<Rightarrow> bool \<Rightarrow> bool" where
  "possibly_false_rl_LR prj comparison a b left =
     (if left then possibly_false_rl prj a comparison b else possibly_false_rl prj b comparison a)"

definition rl_fits_in_type :: "range_list \<Rightarrow> ctype \<Rightarrow> bool" where
  "rl_fits_in_type rl t =
     (if type_bits (rl_type rl) \<le> type_bits t then True
      else if sval_cmp (rl_max rl) (sval_type_max t) > 0 then False
      else if sval_is_negative (rl_min rl) \<and> sval_cmp (rl_min rl) (sval_type_min t) < 0 then False
      else True)"

definition rl_truncate_cast :: "project_type \<Rightarrow> ctype \<Rightarrow> range_list \<Rightarrow> range_list" where
  "rl_truncate_cast prj t rl =
     (if rl = [] then []
      else if t = None \<or> t = rl_type rl then rl
      else
        foldl (\<lambda>ret tmp.
          let mn = dr_min tmp; mx = dr_max tmp;
              m = shl64 1 (word_of_int (type_bits t)) - 1;
              narrow = type_bits t < type_bits (rl_type rl);
              mn = (if narrow then mn\<lparr>sv_val := sv_val mn AND m\<rparr> else mn);
              mx = (if narrow then mx\<lparr>sv_val := sv_val mx AND m\<rparr> else mx);
              (mn, mx) = (if sval_cmp mn mx > 0 then (sval_cast t mn, sval_cast t mx)
                            else (mn, mx))
          in add_range_t (add_range prj) t ret mn mx) [] rl)"

section \<open>Error and null pointers\<close>

definition is_err_or_null :: "project_type \<Rightarrow> range_list \<Rightarrow> bool" where
  "is_err_or_null prj rl =
     (if rl = [] then False
      else if svalue (rl_min rl) = 0 \<and> svalue (rl_max rl) = 0 then True
      else
        (let no_null = (if svalue (rl_min rl) \<noteq> 0 then rl
                        else remove_range prj rl (rl_min rl) (rl_min rl))
         in is_err_ptr prj (rl_min no_null) \<and> is_err_ptr prj (rl_max no_null)))"

definition is_oxdead :: "range_list \<Rightarrow> bool" where
  "is_oxdead rl =
     (case rl_to_sval rl of
        None \<Rightarrow> False
      | Some sval \<Rightarrow> drop_bit (nat (bits_in_pointer - 16)) (sv_val sval) = 0xdead)"

definition is_noderef_ptr_rl :: "project_type \<Rightarrow> range_list \<Rightarrow> bool" where
  "is_noderef_ptr_rl prj rl =
     (if rl = [] then False
      else if svalue (rl_min rl) = 0 \<and> svalue (rl_max rl) = 0 then True
      else if is_err_or_null prj rl then True
      else is_oxdead rl)"

section \<open>Filtering by a comparison\<close>

definition add_one :: "sval \<Rightarrow> sval" where
  "add_one sval = sval\<lparr>sv_val := sv_val sval + 1\<rparr>"

definition sub_one :: "sval \<Rightarrow> sval" where
  "sub_one sval = sval\<lparr>sv_val := sv_val sval - 1\<rparr>"

text \<open>
  The \<^verbatim>\<open>switch\<close> of \<^verbatim>\<open>filter_by_comparison\<close>, which computes \<^verbatim>\<open>ret_rl\<close>; \<open>None\<close> is the \<^verbatim>\<open>sm_fatal\<close> exit of the
  intersection.
\<close>

definition filter_switch ::
  "project_type \<Rightarrow> range_list \<Rightarrow> opcode \<Rightarrow> ctype \<Rightarrow> range_list \<Rightarrow> range_list \<Rightarrow> range_list option" where
  "filter_switch prj rl comparison cast_type left_orig right_orig =
     (let mn = sval_type_min cast_type; mx = sval_type_max cast_type
      in if comparison = Ch CHR ''<'' \<or> comparison = SPECIAL_UNSIGNED_LT then
           Some (remove_range prj left_orig (rl_max right_orig) mx)
         else if comparison = SPECIAL_LTE \<or> comparison = SPECIAL_UNSIGNED_LTE then
           Some (if \<not> sval_is_max (rl_max right_orig)
                 then remove_range prj left_orig (add_one (rl_max right_orig)) mx else rl)
         else if comparison = SPECIAL_EQUAL then rl_intersection prj left_orig right_orig
         else if comparison = SPECIAL_GTE \<or> comparison = SPECIAL_UNSIGNED_GTE then
           Some (if \<not> sval_is_min (rl_min right_orig)
                 then remove_range prj left_orig mn (sub_one (rl_min right_orig)) else rl)
         else if comparison = Ch CHR ''>'' \<or> comparison = SPECIAL_UNSIGNED_GT then
           Some (remove_range prj left_orig mn (rl_min right_orig))
         else
           Some (if sval_cmp (rl_min right_orig) (rl_max right_orig) = 0
                 then remove_range prj left_orig (rl_min right_orig) (rl_min right_orig) else rl))"

definition filter_by_comparison ::
  "project_type \<Rightarrow> range_list \<Rightarrow> opcode \<Rightarrow> range_list \<Rightarrow> range_list option" where
  "filter_by_comparison prj rl comparison right =
     (if comparison = UNKNOWN_COMPARISON \<or> comparison = IMPOSSIBLE_COMPARISON then Some rl
      else if comparison \<notin> {Ch CHR ''<'', SPECIAL_UNSIGNED_LT, SPECIAL_LTE, SPECIAL_UNSIGNED_LTE,
                 SPECIAL_EQUAL, SPECIAL_GTE, SPECIAL_UNSIGNED_GTE, Ch CHR ''>'', SPECIAL_UNSIGNED_GT,
                 SPECIAL_NOTEQUAL} then Some rl
      else
        (let cast_type = get_binop_type rl right
         in map_option (cast_rl prj (rl_type rl))
              (filter_switch prj rl comparison cast_type (cast_rl prj cast_type rl)
                 (cast_rl prj cast_type right))))"

record split_rl =
  left_true :: range_list
  left_false :: range_list
  right_true :: range_list
  right_false :: range_list

definition split_comparison_rl ::
  "project_type \<Rightarrow> range_list \<Rightarrow> opcode \<Rightarrow> range_list \<Rightarrow> split_rl option" where
  "split_comparison_rl prj left_orig op right_orig =
     (let mn = sval_type_min (rl_type left_orig); mx = sval_type_max (rl_type left_orig);
          lmin = rl_min left_orig; lmax = rl_max left_orig;
          rmin = rl_min right_orig; rmax = rl_max right_orig;
          rm = remove_range prj
      in if op = Ch CHR ''<'' \<or> op = SPECIAL_UNSIGNED_LT then
           Some \<lparr>left_true = rm left_orig rmax mx,
             left_false = (if \<not> sval_is_min rmin then rm left_orig mn (sub_one rmin) else left_orig),
             right_true = rm right_orig mn lmin,
             right_false = (if \<not> sval_is_max lmax then rm right_orig (add_one lmax) mx
                            else right_orig)\<rparr>
         else if op = SPECIAL_UNSIGNED_LTE \<or> op = SPECIAL_LTE then
           (let lt = (if \<not> sval_is_max rmax then rm left_orig (add_one rmax) mx else left_orig);
                lf = rm left_orig mn rmin;
                rt = (if \<not> sval_is_min lmin then rm right_orig mn (sub_one lmin) else right_orig);
                rf = rm right_orig lmax mx;
                lf = (if sval_cmp lmin rmin = 0 then rm lf lmin lmin else lf);
                rf = (if sval_cmp lmax rmax = 0 then rm rf lmax lmax else rf)
            in Some \<lparr>left_true = lt, left_false = lf, right_true = rt, right_false = rf\<rparr>)
         else if op = SPECIAL_EQUAL then
           map_option (\<lambda>lt.
             \<lparr>left_true = lt,
              left_false = (if sval_cmp rmin rmax = 0 then rm left_orig rmin rmin else left_orig),
              right_true = lt,
              right_false = (if sval_cmp lmin lmax = 0 then rm right_orig lmin lmin
                             else right_orig)\<rparr>)
             (rl_intersection prj left_orig right_orig)
         else if op = SPECIAL_UNSIGNED_GTE \<or> op = SPECIAL_GTE then
           (let lt = (if \<not> sval_is_min rmin then rm left_orig mn (sub_one rmin) else left_orig);
                lf = rm left_orig rmax mx;
                rt = (if \<not> sval_is_max lmax then rm right_orig (add_one lmax) mx else right_orig);
                rf = rm right_orig mn lmin;
                rf = (if sval_cmp lmin rmin = 0 then rm rf lmin lmin else rf);
                lf = (if sval_cmp lmax rmax = 0 then rm lf lmax lmax else lf)
            in Some \<lparr>left_true = lt, left_false = lf, right_true = rt, right_false = rf\<rparr>)
         else if op = Ch CHR ''>'' \<or> op = SPECIAL_UNSIGNED_GT then
           Some \<lparr>left_true = rm left_orig mn rmin,
             left_false = (if \<not> sval_is_max rmax then rm left_orig (add_one rmax) mx else left_orig),
             right_true = rm right_orig lmax mx,
             right_false = (if \<not> sval_is_min lmin then rm right_orig mn (sub_one lmin)
                            else right_orig)\<rparr>
         else if op = SPECIAL_NOTEQUAL then
           map_option (\<lambda>lf.
             \<lparr>left_true = (if sval_cmp rmin rmax = 0 then rm left_orig rmin rmin else left_orig),
              left_false = lf,
              right_true = (if sval_cmp lmin lmax = 0 then rm right_orig lmin lmin
                            else right_orig),
              right_false = lf\<rparr>)
             (rl_intersection prj left_orig right_orig)
         else Some \<lparr>left_true = left_orig, left_false = left_orig,
                    right_true = right_orig, right_false = right_orig\<rparr>)"

end
