(* ===== verification/Sval_Facts.thy ===== *)
theory Sval_Facts
  imports Sval
begin

text \<open>
  What the operations of \<^verbatim>\<open>src/smatch_sval.c\<close> compute, in terms of the mathematical integer a
  value stands for.
\<close>

unbundle bit_operations_syntax

section \<open>The integer of a value\<close>

definition sval_int :: "sval \<Rightarrow> int" where
  "sval_int s = (if type_unsigned (sv_type s) then uvalue s else svalue s)"

text \<open>A value is well-formed when it has an arithmetic type and lies within its bounds.\<close>

definition sval_ok :: "sval \<Rightarrow> bool" where
  "sval_ok s =
     (arith_type (sv_type s) \<and> type_lo (sv_type s) \<le> sval_int s \<and> sval_int s \<le> type_hi (sv_type s)
      \<and> sv_fp s = 0)"

text \<open>The C conversion of an integer to an arithmetic type.\<close>

definition wrap :: "ctype \<Rightarrow> int \<Rightarrow> int" where
  "wrap t x =
     (if type_bits t = 1 then (if x = 0 then 0 else 1)
      else if type_unsigned t then uwrap (type_width t) x
      else swrap (type_width t) x)"

lemma type_bounds_cases:
  assumes "arith_type t"
  shows "type_lo t = (if type_unsigned t then 0 else - (2 ^ (nat (type_bits t) - 1)))"
    and "type_hi t = (if type_unsigned t then 2 ^ nat (type_bits t) - 1
                      else 2 ^ (nat (type_bits t) - 1) - 1)"
  by (simp_all add: type_lo_def type_hi_def type_width_def)

lemma wrap_bounds:
  assumes "arith_type t"
  shows "type_lo t \<le> wrap t x \<and> wrap t x \<le> type_hi t"
  using assms uwrap_bounds [of "type_width t" x] swrap_bounds [of "type_width t" x]
  by (cases rule: arith_type_cases)
    (auto simp: wrap_def type_lo_def type_hi_def type_width_def)

lemma wrap_id:
  assumes "arith_type t" "type_lo t \<le> x" "x \<le> type_hi t"
  shows "wrap t x = x"
  using assms
  by (cases rule: arith_type_cases)
    (auto simp: wrap_def type_lo_def type_hi_def type_width_def intro!: uwrap_id swrap_id)

lemma wrap_0: "arith_type t \<Longrightarrow> wrap t 0 = 0"
  by (rule wrap_id) (auto simp: type_lo_def type_hi_def)

lemma type_width_le: "arith_type t \<Longrightarrow> type_width t \<le> 64"
  by (cases rule: arith_type_cases) (auto simp: type_width_def)

lemma wrap_svalue_uvalue: "arith_type t \<Longrightarrow> wrap t (sint (w :: u64)) = wrap t (uint w)"
  by (simp add: wrap_def type_width_le uwrap_sint swrap_sint)

lemma wrap_sval_int: "arith_type t \<Longrightarrow> wrap t (svalue s) = wrap t (sval_int s)"
  by (simp add: sval_int_def wrap_svalue_uvalue)

section \<open>Conversion\<close>

lemma sval_cast_eq_int:
  "arith_type t \<Longrightarrow> \<not> type_is_fp (sv_type s) \<Longrightarrow> sval_cast t s = sval_cast_int t s"
  using arith_type_not_None [of t] arith_type_not_fp [of t]
  by (auto simp: sval_cast_def Let_def)

lemma sv_type_sval_cast_int [simp]: "sv_type (sval_cast_int t s) = t"
  by (simp add: sval_cast_int_def mk_sval_def Let_def)

lemma sv_fp_sval_cast_int [simp]: "sv_fp (sval_cast_int t s) = 0"
  by (simp add: sval_cast_int_def mk_sval_def Let_def)

lemma sval_unsigned_eq: "sval_unsigned s = type_unsigned (sv_type s)"
  by (auto simp: sval_unsigned_def is_ptr_type_unsigned)

lemma sval_int_cast_int:
  assumes "arith_type t"
  shows "sval_int (sval_cast_int t s) = wrap t (svalue s)"
  using assms
  by (cases rule: arith_type_cases)
    (auto simp: sval_int_def sval_cast_int_def wrap_def mk_sval_def Let_def sval_bits_def
      type_width_def sval_unsigned_eq uint_ucast_ucast sint_scast_ucast)

lemma sv_type_sval_cast:
  "arith_type t \<Longrightarrow> \<not> type_is_fp (sv_type s) \<Longrightarrow> sv_type (sval_cast t s) = t"
  by (simp add: sval_cast_eq_int)

lemma sval_int_cast:
  "arith_type t \<Longrightarrow> \<not> type_is_fp (sv_type s) \<Longrightarrow> sval_int (sval_cast t s) = wrap t (sval_int s)"
  by (simp add: sval_cast_eq_int sval_int_cast_int wrap_sval_int)

lemma sval_ok_cast:
  "arith_type t \<Longrightarrow> \<not> type_is_fp (sv_type s) \<Longrightarrow> sval_ok (sval_cast t s)"
  by (simp add: sval_ok_def sval_int_cast sv_type_sval_cast wrap_bounds) (simp add: sval_cast_eq_int)

lemma sval_okD:
  assumes "sval_ok s"
  shows "arith_type (sv_type s)" "\<not> type_is_fp (sv_type s)"
    "type_lo (sv_type s) \<le> sval_int s" "sval_int s \<le> type_hi (sv_type s)" "sv_fp s = 0"
    "\<not> sval_is_fp s"
  using assms by (auto simp: sval_ok_def arith_type_not_fp sval_is_fp_def)

text \<open>A value is determined by its type and its integer.\<close>

lemma sval_eqI:
  assumes "sv_type a = sv_type b" "sval_int a = sval_int b" "sv_fp a = sv_fp b"
  shows "a = b"
proof -
  have "sv_val a = sv_val b"
    using assms by (auto simp: sval_int_def word_uint_eqI signed_word_eqI split: if_splits)
  with assms show ?thesis by simp
qed

lemma sval_ok_eqI:
  "sval_ok a \<Longrightarrow> sval_ok b \<Longrightarrow> sv_type a = sv_type b \<Longrightarrow> sval_int a = sval_int b \<Longrightarrow> a = b"
  by (rule sval_eqI) (auto simp: sval_ok_def)

lemma sval_cast_id: "sval_ok s \<Longrightarrow> sval_cast (sv_type s) s = s"
  by (rule sval_ok_eqI)
    (auto simp: sval_okD sval_ok_cast sv_type_sval_cast sval_int_cast wrap_id)

section \<open>Comparison\<close>

text \<open>The order on integers as C's three-way result.\<close>

definition cmp_int :: "int \<Rightarrow> int \<Rightarrow> int" where
  "cmp_int x y = (if x < y then -1 else if x = y then 0 else 1)"

text \<open>The type in which \<^verbatim>\<open>sval_cmp\<close> compares.\<close>

definition cmp_type :: "ctype \<Rightarrow> ctype \<Rightarrow> ctype" where
  "cmp_type one two =
     (let t = (if type_positive_bits two > type_positive_bits one then two else one)
      in if type_bits t < 31 then Some int_ctype else t)"

lemma arith_cmp_type: "arith_type a \<Longrightarrow> arith_type b \<Longrightarrow> arith_type (cmp_type a b)"
  by (simp add: cmp_type_def Let_def)

lemma sval_cmp_wrap:
  assumes "arith_type (sv_type a)" "arith_type (sv_type b)"
  shows "sval_cmp a b =
    cmp_int (wrap (cmp_type (sv_type a) (sv_type b)) (sval_int a))
            (wrap (cmp_type (sv_type a) (sv_type b)) (sval_int b))"
proof -
  let ?t = "cmp_type (sv_type a) (sv_type b)"
  have t: "arith_type ?t" using assms by (rule arith_cmp_type)
  have "sval_int (sval_cast ?t s) =
      (if type_unsigned ?t then uvalue (sval_cast ?t s) else svalue (sval_cast ?t s))"
    if "arith_type (sv_type s)" for s
    using that t by (simp add: sval_int_def sv_type_sval_cast arith_type_not_fp)
  moreover have "sval_cmp a b =
      (if type_unsigned ?t
       then cmp_int (uvalue (sval_cast ?t a)) (uvalue (sval_cast ?t b))
       else cmp_int (svalue (sval_cast ?t a)) (svalue (sval_cast ?t b)))"
    using assms
    by (simp add: sval_cmp_def sval_is_fp_def arith_type_not_fp Let_def cmp_int_def
        sval_positive_bits_def cmp_type_def)
  ultimately have "sval_cmp a b = cmp_int (sval_int (sval_cast ?t a)) (sval_int (sval_cast ?t b))"
    using assms by (cases "type_unsigned ?t") auto
  then show ?thesis
    using assms t by (simp add: sval_int_cast arith_type_not_fp)
qed

lemma cmp_type_same: "cmp_type t t = (if type_bits t < 31 then Some int_ctype else t)"
  by (simp add: cmp_type_def)

lemma type_lo_int [simp]: "type_lo (Some int_ctype) = - (2 ^ 31)"
  and type_hi_int [simp]: "type_hi (Some int_ctype) = 2 ^ 31 - 1"
  by (simp_all add: type_lo_def type_hi_def type_width_def)

lemma small_type_in_int:
  assumes "arith_type t" "type_bits t < 31"
  shows "type_lo (Some int_ctype) \<le> type_lo t" "type_hi t \<le> type_hi (Some int_ctype)"
  using assms
  by (cases rule: arith_type_cases; simp add: type_bounds_cases; fail)+

lemma wrap_cmp_type_same:
  "arith_type t \<Longrightarrow> type_lo t \<le> x \<Longrightarrow> x \<le> type_hi t \<Longrightarrow> wrap (cmp_type t t) x = x"
  using small_type_in_int [of t] by (auto simp: cmp_type_same intro!: wrap_id)

lemma sval_cmp_same:
  assumes "sval_ok a" "sval_ok b" "sv_type a = sv_type b"
  shows "sval_cmp a b = cmp_int (sval_int a) (sval_int b)"
  using assms sval_okD [OF assms(1)] sval_okD [OF assms(2)]
  by (simp add: sval_cmp_wrap wrap_cmp_type_same)

lemma cmp_int_simps [simp]:
  "cmp_int x y < 0 \<longleftrightarrow> x < y" "cmp_int x y \<le> 0 \<longleftrightarrow> x \<le> y" "cmp_int x y = 0 \<longleftrightarrow> x = y"
  "cmp_int x y > 0 \<longleftrightarrow> x > y" "cmp_int x y \<ge> 0 \<longleftrightarrow> x \<ge> y"
  by (auto simp: cmp_int_def)

section \<open>Bounds\<close>

lemma sval_type_max_ok:
  assumes "arith_type t"
  shows "sv_type (sval_type_max t) = t" "sval_int (sval_type_max t) = type_hi t"
    "sval_ok (sval_type_max t)" "uvalue (sval_type_max t) = type_hi t"
proof -
  have bits: "type_bits t \<noteq> 0" using assms by (cases rule: arith_type_cases) auto
  have eq: "sval_type_max t = mk_sval t (drop_bit (nat (64 - type_positive_bits t)) (- 1))"
    using assms arith_type_not_None [of t] arith_type_not_fp [of t] bits
    by (auto simp: sval_type_max_def Let_def)
  then show ty: "sv_type (sval_type_max t) = t" by (simp add: mk_sval_def)
  show u: "uvalue (sval_type_max t) = type_hi t"
    unfolding eq using assms assms
    by (cases rule: arith_type_cases)
      (auto simp: mk_sval_def type_positive_bits_eq type_bounds_cases uint_mask)
  show i: "sval_int (sval_type_max t) = type_hi t"
    using assms assms u ty
    by (cases rule: arith_type_cases)
      (auto simp: sval_int_def sint_uint_cases type_bounds_cases)
  show "sval_ok (sval_type_max t)"
    using assms i ty wrap_bounds [OF assms, of 0] by (simp add: sval_ok_def) (simp add: eq mk_sval_def)
qed

lemma sval_type_min_ok:
  assumes "arith_type t"
  shows "sv_type (sval_type_min t) = t" "sval_int (sval_type_min t) = type_lo t"
    "sval_ok (sval_type_min t)"
proof -
  have bits: "type_bits t \<noteq> 0" using assms by (cases rule: arith_type_cases) auto
  have eq: "sval_type_min t =
      mk_sval t (if type_unsigned t then 0 else push_bit (nat (type_positive_bits t)) (- 1))"
    using assms arith_type_not_None [of t] arith_type_not_fp [of t] bits
    by (auto simp: sval_type_min_def Let_def is_ptr_type_unsigned)
  then show ty: "sv_type (sval_type_min t) = t" by (simp add: mk_sval_def)
  show i: "sval_int (sval_type_min t) = type_lo t"
    unfolding eq using assms assms
    by (cases rule: arith_type_cases)
      (auto simp: mk_sval_def sval_int_def type_positive_bits_eq type_bounds_cases
        sint_not_mask)
  show "sval_ok (sval_type_min t)"
    using assms i ty wrap_bounds [OF assms, of 0] by (simp add: sval_ok_def) (simp add: eq mk_sval_def)
qed

lemma sval_is_max_iff: "sval_ok s \<Longrightarrow> sval_is_max s \<longleftrightarrow> sval_int s = type_hi (sv_type s)"
  using sval_type_max_ok [of "sv_type s"]
  by (auto simp: sval_is_max_def Let_def sval_okD sval_unsigned_eq sval_int_def
      dest: sval_okD(3,4) split: if_splits)

lemma sval_is_min_iff: "sval_ok s \<Longrightarrow> sval_is_min s \<longleftrightarrow> sval_int s = type_lo (sv_type s)"
  using sval_type_min_ok [of "sv_type s"]
  by (auto simp: sval_is_min_def Let_def sval_okD sval_unsigned_eq sval_int_def type_lo_def
      dest: sval_okD(3,4) split: if_splits)

lemma sval_is_negative_iff: "sval_is_negative s \<longleftrightarrow> sval_int s < 0"
  using uint64_bounds [of "sv_val s"] by (auto simp: sval_is_negative_def sval_int_def)

section \<open>Range checks\<close>

lemma wrap_cmp_type_left:
  assumes "arith_type a" "arith_type b" "type_lo a \<le> x" "x \<le> type_hi a"
    "0 \<le> x \<or> \<not> type_unsigned (cmp_type a b)"
  shows "wrap (cmp_type a b) x = x"
proof (rule wrap_id)
  show "arith_type (cmp_type a b)" using assms by (simp add: arith_cmp_type)
  show "type_lo (cmp_type a b) \<le> x" "x \<le> type_hi (cmp_type a b)"
    using assms assms(1)
    by (cases rule: arith_type_cases; use assms(2) in \<open>cases rule: arith_type_cases\<close>;
        simp add: cmp_type_def type_positive_bits_eq type_bounds_cases; fail)+
qed

lemma wrap_cmp_type_right:
  assumes "arith_type a" "arith_type b" "type_lo b \<le> x" "x \<le> type_hi b"
    "0 \<le> x \<or> \<not> type_unsigned (cmp_type a b)"
  shows "wrap (cmp_type a b) x = x"
proof (rule wrap_id)
  show "arith_type (cmp_type a b)" using assms by (simp add: arith_cmp_type)
  show "type_lo (cmp_type a b) \<le> x" "x \<le> type_hi (cmp_type a b)"
    using assms assms(1)
    by (cases rule: arith_type_cases; use assms(2) in \<open>cases rule: arith_type_cases\<close>;
        simp add: cmp_type_def type_positive_bits_eq type_bounds_cases; fail)+
qed

lemma type_lo_nonpos: "type_lo t \<le> 0"
  by (simp add: type_lo_def)

lemma type_hi_nonneg: "arith_type t \<Longrightarrow> 0 \<le> type_hi t"
  by (simp add: type_hi_def)

lemma svalue_type_min: "arith_type t \<Longrightarrow> svalue (sval_type_min t) = type_lo t"
  using sval_type_min_ok [of t] by (cases "type_unsigned t") (auto simp: sval_int_def type_lo_def)

lemma sval_cmp_type_min:
  assumes "sval_ok s" "arith_type t"
    "0 \<le> sval_int s \<and> type_unsigned t \<or> \<not> type_unsigned (cmp_type (sv_type s) t)"
  shows "sval_cmp s (sval_type_min t) < 0 \<longleftrightarrow> sval_int s < type_lo t"
proof -
  note s = sval_okD [OF assms(1)]
  have "wrap (cmp_type (sv_type s) t) (sval_int s) = sval_int s"
    using s assms by (intro wrap_cmp_type_left) auto
  moreover have "wrap (cmp_type (sv_type s) t) (type_lo t) = type_lo t"
    if "\<not> type_unsigned (cmp_type (sv_type s) t)"
    using that s assms type_hi_nonneg [of t] type_lo_nonpos [of t]
    by (intro wrap_cmp_type_right) auto
  moreover have "0 \<le> wrap (cmp_type (sv_type s) t) x" if "type_unsigned (cmp_type (sv_type s) t)"
    for x
    using wrap_bounds [of "cmp_type (sv_type s) t" x] that s assms
    by (simp add: arith_cmp_type type_lo_def)
  moreover have "wrap (cmp_type (sv_type s) t) (type_lo t) = 0"
    if "type_unsigned t"
    using that s assms by (simp add: type_lo_def wrap_0 arith_cmp_type)
  ultimately show ?thesis
    using s assms type_lo_nonpos [of t] sval_type_min_ok [OF assms(2)] sval_cmp_wrap [of s "sval_type_min t"]
    by (cases "type_unsigned (cmp_type (sv_type s) t)"; cases "type_unsigned t")
      (auto simp: type_lo_def)
qed

lemma cmp_type_signed:
  "\<not> type_unsigned a \<Longrightarrow> \<not> type_unsigned b \<Longrightarrow> \<not> type_unsigned (cmp_type a b)"
  by (simp add: cmp_type_def Let_def)

lemma sval_too_low_iff:
  assumes "sval_ok s" "arith_type t"
  shows "sval_too_low t s \<longleftrightarrow> sval_int s < type_lo t"
proof (cases "type_unsigned (sv_type s)")
  case True
  then have "0 \<le> sval_int s" by (simp add: sval_int_def)
  with True assms show ?thesis
    using sval_cmp_type_min [of s t] sval_okD [OF assms(1)] type_lo_nonpos [of t]
    by (auto simp: sval_too_low_def sval_is_negative_iff sval_unsigned_eq arith_type_signed)
next
  case False
  show ?thesis
  proof (cases "type_unsigned t")
    case True
    with False assms show ?thesis
      using sval_cmp_type_min [of s t] sval_okD [OF assms(1)]
      by (auto simp: sval_too_low_def sval_is_negative_iff sval_unsigned_eq arith_type_signed
          svalue_type_min sval_int_def type_lo_def)
  next
    case signed: False
    with False assms show ?thesis
      using sval_cmp_type_min [of s t] sval_okD [OF assms(1)] cmp_type_signed [of "sv_type s" t]
      by (auto simp: sval_too_low_def sval_unsigned_eq arith_type_signed svalue_type_min
          sval_int_def)
  qed
qed

lemma uvalue_nonneg: "0 \<le> sval_int s \<Longrightarrow> uvalue s = sval_int s"
  by (auto simp: sval_int_def uint_sint_cases split: if_splits)

lemma sval_too_high_iff:
  "sval_ok s \<Longrightarrow> arith_type t \<Longrightarrow> sval_too_high t s \<longleftrightarrow> sval_int s > type_hi t"
  using type_hi_nonneg [of t]
  by (auto simp: sval_too_high_def sval_is_negative_iff sval_type_max_ok uvalue_nonneg)

lemma sval_fits_iff:
  "sval_ok s \<Longrightarrow> arith_type t \<Longrightarrow>
    sval_fits t s \<longleftrightarrow> type_lo t \<le> sval_int s \<and> sval_int s \<le> type_hi t"
  by (auto simp: sval_fits_def sval_okD arith_type_not_fp sval_too_low_iff sval_too_high_iff)

section \<open>Arithmetic\<close>

lemma wrap_cong:
  assumes "arith_type t" "type_bits t \<noteq> 1" "x mod 2 ^ type_width t = y mod 2 ^ type_width t"
  shows "wrap t x = wrap t y"
  using assms by (auto simp: wrap_def intro: uwrap_cong swrap_cong)

lemma wrap_mod: "arith_type t \<Longrightarrow> type_bits t \<noteq> 1 \<Longrightarrow> wrap t x mod 2 ^ type_width t = x mod 2 ^ type_width t"
  by (simp add: wrap_def uwrap_mod swrap_mod)

lemma wrap_cong64:
  assumes "arith_type t" "type_bits t \<noteq> 1" "x mod 2 ^ 64 = y mod 2 ^ 64"
  shows "wrap t x = wrap t y"
  using assms mod_pow2_le [OF type_width_le [OF assms(1)] assms(3)] by (intro wrap_cong)

lemma get_promoted_type_int:
  assumes "int_type_ok a" "int_type_ok b"
  shows "get_promoted_type a b = overflow_type a b" "arith_type (overflow_type a b)"
    "\<not> type_is_ptr (overflow_type a b)"
    "type_bits (overflow_type a b) = 32 \<or> type_bits (overflow_type a b) = 64"
proof -
  show "get_promoted_type a b = overflow_type a b" "arith_type (overflow_type a b)"
    "\<not> type_is_ptr (overflow_type a b)"
    using assms by (auto simp: get_promoted_type_def overflow_type_def int_type_ok_def Let_def)
  have a: "arith_type a" and b: "arith_type b" using assms by (auto simp: int_type_ok_def)
  show "type_bits (overflow_type a b) = 32 \<or> type_bits (overflow_type a b) = 64"
    using a a b
    by (cases rule: arith_type_cases; use b in \<open>cases rule: arith_type_cases\<close>;
        simp add: overflow_type_def type_positive_bits_eq; fail)
qed

text \<open>The exact integer operation behind the three operators that can overflow.\<close>

definition int_binop :: "opcode \<Rightarrow> int \<Rightarrow> int \<Rightarrow> int" where
  "int_binop op x y =
     (if op = Ch CHR ''*'' then x * y else if op = Ch CHR ''+'' then x + y else x - y)"

definition overflow_op :: "opcode \<Rightarrow> bool" where
  "overflow_op op \<longleftrightarrow> op = Ch CHR ''*'' \<or> op = Ch CHR ''+'' \<or> op = Ch CHR ''-''"

lemma int_binop_cong:
  assumes "x mod 2 ^ n = x' mod 2 ^ n" "y mod 2 ^ n = y' mod (2::int) ^ n"
  shows "int_binop op x y mod 2 ^ n = int_binop op x' y' mod 2 ^ n"
  using assms unfolding int_binop_def by (auto intro: mod_mult_cong mod_add_cong mod_diff_cong)

lemma sval_int_mod64: "sval_int s mod 2 ^ 64 = uvalue s mod 2 ^ 64"
  by (simp only: sval_int_def sint_mod_uint split: if_split) simp

lemma sval_cast_mk:
  "arith_type t \<Longrightarrow> sval_int (sval_cast t (mk_sval t v)) = wrap t (uint v)"
  using wrap_svalue_uvalue [of t v] wrap_sval_int [of t "mk_sval t v"]
  by (simp add: sval_int_cast arith_type_not_fp mk_sval_def)

lemma sval_binop_arith:
  assumes "int_type_ok (sv_type l)" "int_type_ok (sv_type r)" "overflow_op op"
  shows "sval_int (sval_binop l op r) =
    wrap (overflow_type (sv_type l) (sv_type r)) (int_binop op (sval_int l) (sval_int r))"
proof -
  let ?t = "overflow_type (sv_type l) (sv_type r)"
  note t = get_promoted_type_int [OF assms(1,2)]
  define w where "w = (if op = Ch CHR ''*'' then sv_val l * sv_val r
    else if op = Ch CHR ''+'' then sv_val l + sv_val r else sv_val l - sv_val r)"
  have "sval_binop l op r = sval_cast ?t (mk_sval ?t w)"
    using assms(3) t
    by (auto simp: sval_binop_def sval_binop_unsigned_def sval_binop_signed_def Let_def w_def
        overflow_op_def)
  then have "sval_int (sval_binop l op r) = wrap ?t (uint w)"
    using t by (simp add: sval_cast_mk)
  also have "uint w mod 2 ^ 64 = int_binop op (uvalue l) (uvalue r) mod 2 ^ 64"
    by (auto simp: w_def int_binop_def uint_word_ariths take_bit_eq_mod)
  then have "uint w mod 2 ^ 64 = int_binop op (sval_int l) (sval_int r) mod 2 ^ 64"
    using int_binop_cong [OF sval_int_mod64 [of l] sval_int_mod64 [of r], of op] by (simp only:)
  then have "wrap ?t (uint w) = wrap ?t (int_binop op (sval_int l) (sval_int r))"
    using t by (intro wrap_cong64) auto
  finally show ?thesis .
qed

lemma type_overflow_iff:
  "overflow_op op \<Longrightarrow>
    type_overflow conv lo hi a op b \<longleftrightarrow>
      int_binop op (conv a) (conv b) < lo \<or> hi < int_binop op (conv a) (conv b)"
  by (auto simp: type_overflow_def overflow_op_def int_binop_def Let_def)

lemma overflow_op_simps:
  assumes "overflow_op op"
  shows "op \<noteq> SPECIAL_LEFTSHIFT"
    "\<not> (op \<noteq> Ch CHR ''*'' \<and> op \<noteq> Ch CHR ''+'' \<and> op \<noteq> Ch CHR ''-'')"
  using assms by (auto simp: overflow_op_def)

lemma sval_binop_overflows_iff:
  assumes "int_type_ok (sv_type l)" "int_type_ok (sv_type r)" "overflow_op op"
    and t: "t = overflow_type (sv_type l) (sv_type r)"
  shows "sval_binop_overflows l op r \<longleftrightarrow>
    int_binop op (wrap t (sval_int l)) (wrap t (sval_int r)) < type_lo t
    \<or> type_hi t < int_binop op (wrap t (sval_int l)) (wrap t (sval_int r))"
proof -
  note pt = get_promoted_type_int [OF assms(1,2), folded t]
  have "wrap t (sval_int s) = wrap t (svalue s)" for s
    using pt by (simp add: wrap_sval_int)
  moreover have "sval_binop_overflows l op r \<longleftrightarrow>
      type_overflow (wrap t) (type_lo t) (type_hi t) (svalue l) op (svalue r)"
    using pt(4,2) overflow_op_simps [OF assms(3)]
    by (cases "type_unsigned t")
      (auto simp: sval_binop_overflows_def t [symmetric] Let_def type_positive_bits_eq
        type_bounds_cases wrap_def [abs_def] type_width_def limit_defs)
  ultimately show ?thesis
    using assms(3) by (simp add: type_overflow_iff)
qed

lemma wrap_int_binop:
  assumes "arith_type t" "type_bits t \<noteq> 1"
  shows "wrap t (int_binop op (wrap t x) (wrap t y)) = wrap t (int_binop op x y)"
  using assms by (intro wrap_cong int_binop_cong wrap_mod)

lemma sval_binop_no_overflow:
  assumes "int_type_ok (sv_type l)" "int_type_ok (sv_type r)" "overflow_op op"
    and t: "t = overflow_type (sv_type l) (sv_type r)"
    and "\<not> sval_binop_overflows l op r"
  shows "sval_int (sval_binop l op r) =
    int_binop op (wrap t (sval_int l)) (wrap t (sval_int r))"
proof -
  note pt = get_promoted_type_int [OF assms(1,2), folded t]
  have "sval_int (sval_binop l op r) = wrap t (int_binop op (sval_int l) (sval_int r))"
    using assms by (simp add: sval_binop_arith)
  also have "\<dots> = wrap t (int_binop op (wrap t (sval_int l)) (wrap t (sval_int r)))"
    using pt by (subst wrap_int_binop) auto
  also have "\<dots> = int_binop op (wrap t (sval_int l)) (wrap t (sval_int r))"
    using assms sval_binop_overflows_iff [OF assms(1-4)] pt by (intro wrap_id) auto
  finally show ?thesis .
qed

lemma mk_sval_eta:
  "mk_sval t (sv_val (sval_binop_unsigned t l op r)) = sval_binop_unsigned t l op r"
  "mk_sval t (sv_val (sval_binop_signed t l op r)) = sval_binop_signed t l op r"
  by (simp_all add: sval_binop_unsigned_def sval_binop_signed_def Let_def mk_sval_def)

text \<open>The result type and well-formedness of every binary operation on integer types.\<close>

lemma sval_binop_ok:
  assumes "int_type_ok (sv_type l)" "int_type_ok (sv_type r)"
  shows "sv_type (sval_binop l op r) = overflow_type (sv_type l) (sv_type r)"
    "sval_ok (sval_binop l op r)"
proof -
  let ?t = "overflow_type (sv_type l) (sv_type r)"
  note t = get_promoted_type_int [OF assms]
  obtain w where "sval_binop l op r = sval_cast ?t (mk_sval ?t w)"
  proof
    show "sval_binop l op r = sval_cast ?t (mk_sval ?t
        (sv_val (if type_unsigned ?t then sval_binop_unsigned ?t l op r
                 else sval_binop_signed ?t l op r)))"
      using t by (simp add: sval_binop_def mk_sval_eta Let_def)
  qed
  then show "sv_type (sval_binop l op r) = ?t" "sval_ok (sval_binop l op r)"
    using t by (auto simp: sv_type_sval_cast arith_type_not_fp sval_ok_cast mk_sval_def)
qed

section \<open>Division\<close>

text \<open>
  Division and remainder read the stored words without converting them first, so they are right
  when both operands already lie in the promoted type.
\<close>

lemma sval_int_in_type:
  assumes "arith_type t" "type_lo t \<le> sval_int s" "sval_int s \<le> type_hi t"
    "arith_type (sv_type s)"
  shows "type_unsigned t \<Longrightarrow> uvalue s = sval_int s"
    and "\<not> type_unsigned t \<Longrightarrow> type_bits t \<le> 64 \<Longrightarrow> svalue s = sval_int s"
proof -
  show "uvalue s = sval_int s" if "type_unsigned t"
    using that assms by (intro uvalue_nonneg) (simp add: type_lo_def)
  show "svalue s = sval_int s" if "\<not> type_unsigned t"
    using assms(1) that assms uint64_bounds [of "sv_val s"]
    by (cases rule: arith_type_cases)
      (auto simp: sval_int_def sint_uint_cases type_bounds_cases split: if_splits)
qed

lemma sdiv_nonneg: "0 \<le> a \<Longrightarrow> 0 \<le> b \<Longrightarrow> a sdiv b = a div (b::int)"
  by (cases "a = 0"; cases "b = 0") (auto simp: signed_divide_int_def)

lemma sval_binop_divide:
  assumes "int_type_ok (sv_type l)" "int_type_ok (sv_type r)"
    and t: "t = overflow_type (sv_type l) (sv_type r)"
    and l: "type_lo t \<le> sval_int l" "sval_int l \<le> type_hi t"
    and r: "type_lo t \<le> sval_int r" "sval_int r \<le> type_hi t" "sval_int r \<noteq> 0"
    and no_trap: "\<not> (sval_int l = LLONG_MIN \<and> sval_int r = -1)"
  shows "sval_int (sval_binop l (Ch CHR ''/'') r) = wrap t (sval_int l sdiv sval_int r)"
proof -
  note pt = get_promoted_type_int [OF assms(1,2), folded t]
  have at: "arith_type (sv_type l)" "arith_type (sv_type r)"
    using assms by (simp_all add: int_type_ok_arith)
  have nz: "sv_val r \<noteq> 0" using r(3) by (auto simp: sval_int_def split: if_splits)
  show ?thesis
  proof (cases "type_unsigned t")
    case True
    then have "uvalue l = sval_int l" "uvalue r = sval_int r"
      using sval_int_in_type pt at l r by auto
    moreover have "uvalue l sdiv uvalue r = uvalue l div uvalue r"
      by (rule sdiv_nonneg) simp_all
    moreover have "sval_int (sval_binop l (Ch CHR ''/'') r) = wrap t (uint (sv_val l div sv_val r))"
      using True pt nz
      by (simp add: sval_binop_def Let_def sval_binop_unsigned_def sval_cast_mk)
    ultimately show ?thesis by (simp only: uint_div)
  next
    case False
    then have "svalue l = sval_int l" "svalue r = sval_int r"
      using sval_int_in_type pt at l r by auto
    moreover have "wrap t (uint (word_of_int x :: u64)) = wrap t x" for x
      using pt by (intro wrap_cong64) (auto simp: uint_word_of_int_eq take_bit_eq_mod)
    ultimately show ?thesis
      using False pt no_trap nz
      by (auto simp: sval_binop_def Let_def sval_binop_signed_def sval_cast_mk)
  qed
qed

section \<open>Bit scans\<close>

lemma sm_fls64_bounds:
  "uint v < 2 ^ sm_fls64 v \<and> (v \<noteq> 0 \<longrightarrow> 2 ^ (sm_fls64 v - 1) \<le> uint v)"
proof (induction v rule: sm_fls64.induct)
  case (1 v)
  show ?case
  proof (cases "v = 0")
    case True
    then show ?thesis by (simp add: sm_fls64.simps)
  next
    case False
    let ?h = "drop_bit 1 v"
    have h: "uint ?h = uint v div 2"
      by (simp add: drop_bit_eq_div uint_div)
    have eq: "sm_fls64 v = Suc (sm_fls64 ?h)"
      using False by (simp add: sm_fls64.simps [of v])
    have up: "uint v div 2 < 2 ^ sm_fls64 ?h"
      using "1" [OF False] by (simp only: h)
    have "2 ^ sm_fls64 ?h \<le> uint v"
    proof (cases "?h = 0")
      case True
      then have "sm_fls64 ?h = 0" by (simp add: sm_fls64.simps)
      moreover have "uint v > 0" using False uint64_bounds [of v] by (simp add: order_less_le)
      ultimately show ?thesis by simp
    next
      case nz: False
      then have "0 < sm_fls64 ?h" by (subst sm_fls64.simps) simp
      then have "(2::int) ^ sm_fls64 ?h = 2 * 2 ^ (sm_fls64 ?h - 1)"
        by (cases "sm_fls64 ?h") auto
      moreover have "2 ^ (sm_fls64 ?h - 1) \<le> uint v div 2"
        using "1" [OF False] nz unfolding h by blast
      ultimately show ?thesis by linarith
    qed
    with up eq show ?thesis by auto
  qed
qed

lemma and_push_bit_1: "v AND push_bit i (1 :: u64) = 0 \<longleftrightarrow> \<not> bit v i" if "i < 64"
proof -
  have "v AND push_bit i 1 = (if bit v i then push_bit i 1 else 0)"
    by (rule bit_word_eqI) (auto simp: bit_simps)
  moreover have "push_bit i (1 :: u64) \<noteq> 0"
    using that by (auto dest: arg_cong [where f = "\<lambda>w. bit w i"] simp: bit_simps)
  ultimately show ?thesis by simp
qed

lemma fls_unique:
  assumes "2 ^ n \<le> x" "x < 2 ^ Suc n" "x < 2 ^ k" "2 ^ (k - 1) \<le> (x::int)"
  shows "k = Suc n"
proof -
  have "(2::int) ^ n < 2 ^ k" "(2::int) ^ (k - 1) < 2 ^ Suc n" using assms by linarith+
  then have "n < k" "k - 1 < Suc n"
    using power_strict_increasing_iff [of "2::int"] by (auto simp del: power_Suc)
  then show ?thesis by simp
qed

lemma div_less_of_less_mult:
  assumes "0 < m" "x < k * m"
  shows "x div m < (k::int)"
proof (rule ccontr)
  assume "\<not> x div m < k"
  then have "k * m \<le> x div m * m" using assms by (intro mult_right_mono) auto
  also have "x div m * m \<le> x"
    using div_mult_mod_eq [of x m] pos_mod_sign [OF assms(1), of x] by linarith
  finally show False using assms by simp
qed

lemma bits_used_loop_eq:
  assumes "n \<le> 64" "uint v < 2 ^ n"
  shows "bits_used_loop v n = sm_fls64 v"
  using assms
proof (induction n)
  case 0
  then have "uint v < 1" by simp
  with uint_ge_0 [of v] have "uint v = 0" by linarith
  then have "v = 0" by simp
  then show ?case by (simp add: sm_fls64.simps)
next
  case (Suc n)
  have bit: "v AND push_bit n 1 \<noteq> 0 \<longleftrightarrow> 2 ^ n \<le> uint v"
  proof -
    have "bit v n \<longleftrightarrow> odd (uint v div 2 ^ n)"
      using bit_uint_iff [of v n] bit_iff_odd [of "uint v" n] Suc.prems
      by (simp del: bit_uint_iff)
    moreover have "uint v div 2 ^ n < 2"
      using Suc.prems by (intro div_less_of_less_mult) auto
    moreover have "uint v div 2 ^ n = 0 \<longleftrightarrow> uint v < 2 ^ n" "0 \<le> uint v div 2 ^ n"
      by (auto simp: zdiv_eq_0_iff pos_imp_zdiv_nonneg_iff)
    moreover from this calculation have "uint v div 2 ^ n = 0 \<or> uint v div 2 ^ n = 1" by linarith
    ultimately have "bit v n \<longleftrightarrow> 2 ^ n \<le> uint v" by (auto simp: not_le)
    then show ?thesis
      using Suc.prems and_push_bit_1 [of n v] by simp
  qed
  show ?case
  proof (cases "2 ^ n \<le> uint v")
    case True
    then have "v \<noteq> 0" by auto
    with True Suc.prems sm_fls64_bounds [of v] have "sm_fls64 v = Suc n"
      by (intro fls_unique) auto
    with True bit show ?thesis by simp
  next
    case False
    with bit Suc show ?thesis by simp
  qed
qed

lemma uint_fls_mask: "uint (fls_mask v) = 2 ^ sm_fls64 v - 1"
proof -
  have "sm_fls64 v \<le> 64"
  proof (cases "v = 0")
    case True
    then show ?thesis by (simp add: sm_fls64.simps)
  next
    case False
    then have "(2::int) ^ (sm_fls64 v - 1) < 2 ^ 64"
      using sm_fls64_bounds [of v] uint64_bounds [of v] by linarith
    then have "sm_fls64 v - 1 < 64" by (rule power_less_imp_less_exp [rotated]) simp
    then show ?thesis by simp
  qed
  then show ?thesis
    by (auto simp: fls_mask_def Let_def uint_mask)
qed

end
