(* ===== verification/Range_Facts.thy ===== *)
theory Range_Facts
  imports Ranges Sval_Facts
begin

text \<open>
  The denotation of range lists as sets of integers, the representation invariant, and the facts
  that adding, removing, uniting and intersecting ranges keep the invariant and denote the set
  operation of the same name.
\<close>

unbundle bit_operations_syntax

section \<open>Denotation and invariant\<close>

abbreviation dlo :: "data_range \<Rightarrow> int" where
  "dlo d \<equiv> sval_int (dr_min d)"

abbreviation dhi :: "data_range \<Rightarrow> int" where
  "dhi d \<equiv> sval_int (dr_max d)"

definition rset :: "data_range \<Rightarrow> int set" where
  "rset d = {dlo d..dhi d}"

definition rl_set :: "range_list \<Rightarrow> int set" where
  "rl_set rl = (\<Union>d \<in> set rl. rset d)"

definition range_ok :: "ctype \<Rightarrow> data_range \<Rightarrow> bool" where
  "range_ok t d \<longleftrightarrow>
     sval_ok (dr_min d) \<and> sval_ok (dr_max d) \<and> sv_type (dr_min d) = t \<and> sv_type (dr_max d) = t
     \<and> dlo d \<le> dhi d"

text \<open>Ranges are in increasing order, and no two of them touch.\<close>

definition rl_ok :: "ctype \<Rightarrow> range_list \<Rightarrow> bool" where
  "rl_ok t rl \<longleftrightarrow> (\<forall>d \<in> set rl. range_ok t d) \<and> sorted_wrt (\<lambda>a b. dhi a + 1 < dlo b) rl"

lemma rl_set_simps [simp, rl_simps]:
  "rl_set [] = {}" "rl_set (d # rl) = rset d \<union> rl_set rl" "rl_set (a @ b) = rl_set a \<union> rl_set b"
  by (auto simp: rl_set_def)

lemma rl_ok_Nil [simp, intro]: "rl_ok t []"
  by (simp add: rl_ok_def)

lemma rl_ok_Cons:
  "rl_ok t (d # rl) \<longleftrightarrow> range_ok t d \<and> rl_ok t rl \<and> (\<forall>x \<in> rl_set rl. dhi d + 1 < x)"
proof -
  have "(\<forall>b \<in> set rl. dhi d + 1 < dlo b) \<longleftrightarrow> (\<forall>x \<in> rl_set rl. dhi d + 1 < x)"
    if "\<forall>b \<in> set rl. range_ok t b"
    using that by (fastforce simp: rl_set_def rset_def range_ok_def)
  then show ?thesis by (auto simp: rl_ok_def)
qed

lemma range_okD:
  assumes "range_ok t d"
  shows "arith_type t" "sval_ok (dr_min d)" "sval_ok (dr_max d)" "sv_type (dr_min d) = t"
    "sv_type (dr_max d) = t" "dlo d \<le> dhi d" "type_lo t \<le> dlo d" "dhi d \<le> type_hi t"
  using assms by (auto simp: range_ok_def dest: sval_okD)

lemma rl_ok_range: "rl_ok t rl \<Longrightarrow> d \<in> set rl \<Longrightarrow> range_ok t d"
  by (simp add: rl_ok_def)

lemma rl_set_bounds: "rl_ok t rl \<Longrightarrow> x \<in> rl_set rl \<Longrightarrow> type_lo t \<le> x \<and> x \<le> type_hi t"
  by (fastforce simp: rl_set_def rset_def dest: rl_ok_range range_okD)

lemma rset_alloc_range [simp]: "rset (alloc_range a b) = {sval_int a..sval_int b}"
  by (simp add: rset_def alloc_range_def)

lemma dr_alloc_range [simp]: "dr_min (alloc_range a b) = a" "dr_max (alloc_range a b) = b"
  by (simp_all add: alloc_range_def)

section \<open>Neighbouring values\<close>

lemma sval_succ:
  assumes "sval_ok s" "sval_int s < type_hi (sv_type s)"
  shows "sval_int (s\<lparr>sv_val := sv_val s + 1\<rparr>) = sval_int s + 1"
    "sval_ok (s\<lparr>sv_val := sv_val s + 1\<rparr>)"
proof -
  note s = sval_okD [OF assms(1)]
  let ?s = "s\<lparr>sv_val := sv_val s + 1\<rparr>"
  have u: "uint (sv_val s + 1) = (uvalue s + 1) mod 2 ^ 64"
    by (simp add: uint_word_ariths take_bit_eq_mod)
  show i: "sval_int ?s = sval_int s + 1"
  proof (cases "type_unsigned (sv_type s)")
    case True
    have "uvalue s + 1 < 2 ^ 64"
      using s(1) True assms(2) by (cases rule: arith_type_cases) (auto simp: sval_int_def type_hi_def type_width_def)
    then show ?thesis using True u by (simp add: sval_int_def)
  next
    case False
    have "svalue s < 2 ^ 63 - 1"
      using s(1) False assms(2)
      by (cases rule: arith_type_cases) (auto simp: sval_int_def type_hi_def type_width_def)
    then have "sint (sv_val s + 1) = svalue s + 1"
      using sint64_bounds [of "sv_val s"]
      by (simp add: sint_word_ariths signed_take_bit_int_eq_self)
    then show ?thesis using False by (simp add: sval_int_def)
  qed
  show "sval_ok ?s" using assms s i by (simp add: sval_ok_def)
qed

lemma sval_pred:
  assumes "sval_ok s" "type_lo (sv_type s) < sval_int s"
  shows "sval_int (s\<lparr>sv_val := sv_val s - 1\<rparr>) = sval_int s - 1"
    "sval_ok (s\<lparr>sv_val := sv_val s - 1\<rparr>)"
proof -
  note s = sval_okD [OF assms(1)]
  let ?s = "s\<lparr>sv_val := sv_val s - 1\<rparr>"
  have u: "uint (sv_val s - 1) = (uvalue s - 1) mod 2 ^ 64"
    by (simp add: uint_word_ariths take_bit_eq_mod)
  show i: "sval_int ?s = sval_int s - 1"
  proof (cases "type_unsigned (sv_type s)")
    case True
    then have "0 \<le> uvalue s - 1"
      using assms(2) by (auto simp: sval_int_def type_lo_def)
    then show ?thesis using True u uint64_bounds [of "sv_val s"] by (simp add: sval_int_def)
  next
    case False
    have "- (2 ^ 63) < svalue s"
      using s(1) False assms(2)
      by (cases rule: arith_type_cases) (auto simp: sval_int_def type_lo_def type_width_def)
    then have "sint (sv_val s - 1) = svalue s - 1"
      using sint64_bounds [of "sv_val s"]
      by (simp add: sint_word_ariths signed_take_bit_int_eq_self)
    then show ?thesis using False by (simp add: sval_int_def)
  qed
  show "sval_ok ?s" using assms s i by (simp add: sval_ok_def)
qed

lemma sval_val_eq_iff:
  "sv_type a = sv_type b \<Longrightarrow> sv_val a = sv_val b \<longleftrightarrow> sval_int a = sval_int b"
  by (auto simp: sval_int_def word_uint_eqI signed_word_eqI)

text \<open>The adjacency tests of \<^verbatim>\<open>add_range\<close>.\<close>

lemma adjacent_above_iff:
  assumes "sval_ok a" "sval_ok b" "sv_type a = sv_type b"
  shows "\<not> sval_is_max a \<and> sv_val a + 1 = sv_val b \<longleftrightarrow> sval_int a + 1 = sval_int b"
proof (cases "sval_int a = type_hi (sv_type a)")
  case True
  then show ?thesis using assms sval_okD [OF assms(2)] by (simp add: sval_is_max_iff)
next
  case False
  then have "sval_int a < type_hi (sv_type a)" using sval_okD [OF assms(1)] by simp
  then show ?thesis
    using sval_succ [OF assms(1)] assms False
      sval_val_eq_iff [of "a\<lparr>sv_val := sv_val a + 1\<rparr>" b]
    by (simp add: sval_is_max_iff)
qed

lemma adjacent_below_iff:
  assumes "sval_ok a" "sval_ok b" "sv_type a = sv_type b"
  shows "\<not> sval_is_min a \<and> sv_val a - 1 = sv_val b \<longleftrightarrow> sval_int a - 1 = sval_int b"
proof (cases "sval_int a = type_lo (sv_type a)")
  case True
  then show ?thesis using assms sval_okD [OF assms(2)] by (simp add: sval_is_min_iff)
next
  case False
  then have "type_lo (sv_type a) < sval_int a" using sval_okD [OF assms(1)] by simp
  then show ?thesis
    using sval_pred [OF assms(1)] assms False
      sval_val_eq_iff [of "a\<lparr>sv_val := sv_val a - 1\<rparr>" b]
    by (simp add: sval_is_min_iff)
qed

section \<open>The loop of add_range\<close>

lemma range_cmp:
  assumes "sval_ok a" "sv_type a = t" "range_ok t d"
  shows "sval_cmp a (dr_min d) = cmp_int (sval_int a) (dlo d)"
    "sval_cmp a (dr_max d) = cmp_int (sval_int a) (dhi d)"
    "sval_cmp (dr_min d) a = cmp_int (dlo d) (sval_int a)"
    "sval_cmp (dr_max d) a = cmp_int (dhi d) (sval_int a)"
    "\<not> sval_is_max a \<and> sv_val a + 1 = sv_val (dr_min d) \<longleftrightarrow> sval_int a + 1 = dlo d"
    "\<not> sval_is_min a \<and> sv_val a - 1 = sv_val (dr_max d) \<longleftrightarrow> sval_int a - 1 = dhi d"
  using assms range_okD [OF assms(3)]
  by (auto simp: sval_cmp_same adjacent_above_iff adjacent_below_iff)

lemma range_ok_set_max:
  "range_ok t new \<Longrightarrow> range_ok t d \<Longrightarrow> dlo new \<le> dhi d \<Longrightarrow> range_ok t (new\<lparr>dr_max := dr_max d\<rparr>)"
  by (simp add: range_ok_def)

lemma add_range_next_spec:
  assumes "range_ok t new" "dr_max new = mx" "rl_ok t rest" "\<forall>x \<in> rl_set rest. dlo new \<le> x"
  shows "rl_ok t (add_range_next mx new rest)
    \<and> rl_set (add_range_next mx new rest) = rset new \<union> rl_set rest"
  using assms
proof (induction mx new rest rule: add_range_next.induct)
  case (1 mx new)
  then show ?case by (simp add: rl_ok_Cons)
next
  case (2 mx new tmp rest)
  have tmp: "range_ok t tmp" and rest: "rl_ok t rest" "\<forall>x \<in> rl_set rest. dhi tmp + 1 < x"
    using 2 by (auto simp: rl_ok_Cons)
  have mx: "sval_ok mx" "sv_type mx = t" using 2 by (auto simp: range_ok_def)
  have le: "dlo new \<le> dlo tmp" "dlo new \<le> dhi tmp"
    using 2(5) range_okD(6) [OF tmp] by (auto simp: rset_def)
  note cmp = range_cmp [OF mx tmp] cmp_int_simps
  have eq: "add_range_next mx new (tmp # rest) =
      (if sval_int mx + 1 = dlo tmp then new\<lparr>dr_max := dr_max tmp\<rparr> # rest
       else if sval_int mx < dlo tmp then new # tmp # rest
       else if sval_int mx \<le> dhi tmp then new\<lparr>dr_max := dr_max tmp\<rparr> # rest
       else add_range_next mx new rest)"
    by (simp only: add_range_next.simps cmp)
  note IH = "2.IH" [unfolded cmp]
  have merged: "range_ok t (new\<lparr>dr_max := dr_max tmp\<rparr>)"
    using "2.prems" tmp le by (intro range_ok_set_max) auto
  have new: "sval_int mx = dhi new" "dlo new \<le> dhi new"
    using "2.prems" range_okD(6) by auto
  show ?case
  proof (cases "dhi new < dhi tmp \<and> dlo tmp \<le> dhi new + 1")
    case True
    then have "add_range_next mx new (tmp # rest) = new\<lparr>dr_max := dr_max tmp\<rparr> # rest"
      using eq new by auto
    moreover have "rset (new\<lparr>dr_max := dr_max tmp\<rparr>) = rset new \<union> rset tmp"
      using True new le by (auto simp: rset_def)
    ultimately show ?thesis using merged rest by (auto simp: rl_ok_Cons)
  next
    case no_merge: False
    show ?thesis
    proof (cases "dhi new + 1 < dlo tmp")
      case True
      then have "add_range_next mx new (tmp # rest) = new # tmp # rest"
        using eq new by auto
      moreover have "\<forall>x \<in> rset tmp \<union> rl_set rest. dhi new + 1 < x"
        using True rest(2) range_okD(6) [OF tmp] by (force simp: rset_def)
      ultimately show ?thesis
        using "2.prems" by (auto simp: rl_ok_Cons)
    next
      case False
      then have ge: "dhi tmp \<le> dhi new" using no_merge by auto
      show ?thesis
      proof (cases "dhi tmp = dhi new")
        case True
        then have "add_range_next mx new (tmp # rest) = new\<lparr>dr_max := dr_max tmp\<rparr> # rest"
          using eq new range_okD(6) [OF tmp] by auto
        moreover have "rset (new\<lparr>dr_max := dr_max tmp\<rparr>) = rset new \<union> rset tmp"
          using True new le by (auto simp: rset_def)
        ultimately show ?thesis using merged rest by (auto simp: rl_ok_Cons)
      next
        case neq: False
        then have step: "add_range_next mx new (tmp # rest) = add_range_next mx new rest"
          using eq new ge range_okD(6) [OF tmp] by auto
        have "rset tmp \<subseteq> rset new" using le ge by (auto simp: rset_def)
        moreover have "rl_ok t (add_range_next mx new rest)
            \<and> rl_set (add_range_next mx new rest) = rset new \<union> rl_set rest"
          using "2.prems" new ge neq rest range_okD(6) [OF tmp]
          by (intro IH) (auto simp: rl_ok_Cons)
        ultimately show ?thesis using step by auto
      qed
    qed
  qed
qed

lemma add_range_loop_spec:
  assumes "range_ok t (alloc_range mn mx)" "rl_ok t rl"
  shows "rl_ok t (add_range_loop mn mx rl)
    \<and> rl_set (add_range_loop mn mx rl) = {sval_int mn..sval_int mx} \<union> rl_set rl"
  using assms
proof (induction mn mx rl rule: add_range_loop.induct)
  case (1 mn mx)
  then show ?case by (simp add: rl_ok_Cons)
next
  case (2 mn mx tmp rest)
  have tmp: "range_ok t tmp" and rest: "rl_ok t rest" "\<forall>x \<in> rl_set rest. dhi tmp + 1 < x"
    using 2 by (auto simp: rl_ok_Cons)
  have mn: "sval_ok mn" "sv_type mn = t" and mx: "sval_ok mx" "sv_type mx = t"
    and le: "sval_int mn \<le> sval_int mx" "dlo tmp \<le> dhi tmp"
    using "2.prems" tmp by (auto simp: range_ok_def)
  note cmp = range_cmp [OF mn tmp] range_cmp [OF mx tmp] cmp_int_simps
  have eq: "add_range_loop mn mx (tmp # rest) =
      (if sval_int mx + 1 = dlo tmp then alloc_range mn (dr_max tmp) # rest
       else if sval_int mx < dlo tmp then alloc_range mn mx # tmp # rest
       else if sval_int mn < dlo tmp then
         (if sval_int mx < dhi tmp then alloc_range mn (dr_max tmp) # rest
          else add_range_next mx (alloc_range mn mx) rest)
       else if sval_int mx \<le> dhi tmp then tmp # rest
       else if sval_int mn \<le> dhi tmp then add_range_next mx (alloc_range (dr_min tmp) mx) rest
       else if sval_int mn - 1 = dhi tmp then
         add_range_next mx (alloc_range (dr_min tmp) mx) rest
       else tmp # add_range_loop mn mx rest)"
    by (simp only: add_range_loop.simps cmp)
  note IH = "2.IH" [unfolded cmp]
  have lo: "range_ok t (alloc_range (dr_min tmp) mx)" if "dlo tmp \<le> sval_int mx"
    using that tmp mx by (simp add: range_ok_def)
  have hi: "range_ok t (alloc_range mn (dr_max tmp))" if "sval_int mn \<le> dhi tmp"
    using that tmp mn by (simp add: range_ok_def)
  have above: "\<forall>x \<in> rl_set rest. sval_int mn \<le> x" if "sval_int mn \<le> dhi tmp"
    using that rest(2) by force
  consider (join) "sval_int mx + 1 = dlo tmp"
    | (below) "sval_int mx + 1 < dlo tmp"
    | (part_below) "dlo tmp \<le> sval_int mx" "sval_int mn < dlo tmp" "sval_int mx < dhi tmp"
    | (over) "sval_int mn < dlo tmp" "dhi tmp \<le> sval_int mx"
    | (incl) "dlo tmp \<le> sval_int mn" "sval_int mx \<le> dhi tmp"
    | (part_above) "dlo tmp \<le> sval_int mn" "sval_int mn \<le> dhi tmp + 1" "dhi tmp < sval_int mx"
    | (above) "dhi tmp + 1 < sval_int mn"
    by linarith
  then show ?case
  proof cases
    case join
    then have "add_range_loop mn mx (tmp # rest) = alloc_range mn (dr_max tmp) # rest"
      using eq by simp
    then show ?thesis using join le hi rest by (auto simp: rl_ok_Cons rset_def)
  next
    case below
    then have "add_range_loop mn mx (tmp # rest) = alloc_range mn mx # tmp # rest"
      using eq by simp
    moreover have "\<forall>x \<in> rset tmp \<union> rl_set rest. sval_int mx + 1 < x"
      using below le rest(2) by (force simp: rset_def)
    ultimately show ?thesis using "2.prems" by (auto simp: rl_ok_Cons)
  next
    case part_below
    then have "add_range_loop mn mx (tmp # rest) = alloc_range mn (dr_max tmp) # rest"
      using eq by simp
    then show ?thesis using part_below le hi rest by (auto simp: rl_ok_Cons rset_def)
  next
    case over
    then have "add_range_loop mn mx (tmp # rest) = add_range_next mx (alloc_range mn mx) rest"
      using eq le by simp
    then show ?thesis
      using over le add_range_next_spec [of t "alloc_range mn mx" mx rest] "2.prems" rest above
      by (auto simp: rset_def)
  next
    case incl
    then have "add_range_loop mn mx (tmp # rest) = tmp # rest"
      using eq le by simp
    then show ?thesis using incl "2.prems" by (auto simp: rset_def)
  next
    case part_above
    then have "add_range_loop mn mx (tmp # rest) =
        add_range_next mx (alloc_range (dr_min tmp) mx) rest"
      using eq le by auto
    moreover have "\<forall>x \<in> rl_set rest. dlo tmp \<le> x" using rest(2) le by force
    ultimately show ?thesis
      using part_above le add_range_next_spec [of t "alloc_range (dr_min tmp) mx" mx rest] rest lo
      by (auto simp: rset_def)
  next
    case above
    then have "add_range_loop mn mx (tmp # rest) = tmp # add_range_loop mn mx rest"
      using eq le by auto
    moreover have "rl_ok t (add_range_loop mn mx rest)
        \<and> rl_set (add_range_loop mn mx rest) = {sval_int mn..sval_int mx} \<union> rl_set rest"
      using "2.prems" rest above le by (intro IH) auto
    ultimately show ?thesis using above tmp rest(2) by (auto simp: rl_ok_Cons)
  qed
qed

section \<open>Values and lists of a given type\<close>

definition has_type :: "ctype \<Rightarrow> sval \<Rightarrow> bool" where
  "has_type t s \<longleftrightarrow> sval_ok s \<and> sv_type s = t"

lemma has_typeD:
  assumes "has_type t s"
  shows "sval_ok s" "sv_type s = t" "arith_type t" "\<not> type_is_fp t" "type_lo t \<le> sval_int s"
    "sval_int s \<le> type_hi t"
  using assms sval_okD [of s] by (auto simp: has_type_def)

lemma has_type_cmp:
  "has_type t a \<Longrightarrow> has_type t b \<Longrightarrow> sval_cmp a b = cmp_int (sval_int a) (sval_int b)"
  by (simp add: has_type_def sval_cmp_same)

lemma has_type_limits [simp, intro]:
  "arith_type t \<Longrightarrow> has_type t (sval_type_min t)" "arith_type t \<Longrightarrow> has_type t (sval_type_max t)"
  by (simp_all add: has_type_def sval_type_min_ok sval_type_max_ok)

lemma has_type_cast [simp, intro]:
  "arith_type t \<Longrightarrow> \<not> type_is_fp (sv_type s) \<Longrightarrow> has_type t (sval_cast t s)"
  by (simp add: has_type_def sval_ok_cast sv_type_sval_cast)

lemma has_type_cast_id: "has_type t s \<Longrightarrow> sval_cast t s = s"
  using sval_cast_id by (auto simp: has_type_def)

lemma range_ok_iff:
  "range_ok t d \<longleftrightarrow> has_type t (dr_min d) \<and> has_type t (dr_max d) \<and> dlo d \<le> dhi d"
  by (auto simp: range_ok_def has_type_def)

lemma range_ok_has_type:
  "range_ok t d \<Longrightarrow> has_type t (dr_min d)" "range_ok t d \<Longrightarrow> has_type t (dr_max d)"
  by (simp_all add: range_ok_iff)

lemma rl_ok_arith: "rl_ok t rl \<Longrightarrow> rl \<noteq> [] \<Longrightarrow> arith_type t"
  by (cases rl) (auto simp: rl_ok_Cons dest: range_okD)

lemma rl_type_ok: "rl_ok t rl \<Longrightarrow> rl_type rl = (if rl = [] then None else t)"
  by (cases rl) (auto simp: rl_type_def rl_min_def rl_ok_Cons range_ok_def)

lemma rl_ok_append_iff:
  "rl_ok t (a @ b) \<longleftrightarrow> rl_ok t a \<and> rl_ok t b \<and> (\<forall>x \<in> set a. \<forall>y \<in> set b. dhi x + 1 < dlo y)"
  by (auto simp: rl_ok_def sorted_wrt_append)

lemma rl_set_empty_iff: "rl_ok t rl \<Longrightarrow> rl_set rl = {} \<longleftrightarrow> rl = []"
  by (cases rl) (auto simp: rl_ok_Cons rset_def dest: range_okD)

lemma rl_min_ok:
  assumes "rl_ok t rl" "rl \<noteq> []"
  shows "has_type t (rl_min rl)" "sval_int (rl_min rl) \<in> rl_set rl"
    "x \<in> rl_set rl \<Longrightarrow> sval_int (rl_min rl) \<le> x"
  using assms by (cases rl; fastforce simp: rl_min_def rl_ok_Cons range_ok_iff rset_def)+

lemma rl_max_ok:
  assumes "rl_ok t rl" "rl \<noteq> []"
  shows "has_type t (rl_max rl)" "sval_int (rl_max rl) \<in> rl_set rl"
    "x \<in> rl_set rl \<Longrightarrow> x \<le> sval_int (rl_max rl)"
proof -
  obtain front d where rl: "rl = front @ [d]" using assms(2) by (cases rl rule: rev_cases) auto
  then have mx: "rl_max rl = dr_max d" by (cases front) (auto simp: rl_max_def)
  have d: "range_ok t d" and below: "\<forall>y \<in> set front. dhi y + 1 < dlo d"
    using assms(1) by (auto simp: rl rl_ok_append_iff rl_ok_Cons)
  show "has_type t (rl_max rl)" "sval_int (rl_max rl) \<in> rl_set rl"
    using d unfolding mx by (auto simp: range_ok_iff rl rset_def)
  show "x \<in> rl_set rl \<Longrightarrow> x \<le> sval_int (rl_max rl)"
    using below range_okD(6) [OF d] unfolding mx by (fastforce simp: rl rl_set_def rset_def)
qed

section \<open>Adding a range\<close>

text \<open>
  The contract of \<^verbatim>\<open>add_range\<close> that the other functions rely on, for lists and values of one
  integer type: the invariant is kept and the range is united with the list; a range with
  swapped bounds stands for the whole type.
\<close>

definition span :: "ctype \<Rightarrow> sval \<Rightarrow> sval \<Rightarrow> int set" where
  "span t mn mx =
     (if sval_int mn \<le> sval_int mx then {sval_int mn..sval_int mx} else {type_lo t..type_hi t})"

locale range_adder =
  fixes add :: "range_list \<Rightarrow> sval \<Rightarrow> sval \<Rightarrow> range_list"
  assumes add_ok: "int_type_ok t \<Longrightarrow> rl_ok t rl \<Longrightarrow> has_type t mn \<Longrightarrow> has_type t mx \<Longrightarrow>
      rl_ok t (add rl mn mx)"
    and add_set: "int_type_ok t \<Longrightarrow> rl_ok t rl \<Longrightarrow> has_type t mn \<Longrightarrow> has_type t mx \<Longrightarrow>
      rl_set (add rl mn mx) = rl_set rl \<union> span t mn mx"
begin

lemma add_ranges:
  assumes "int_type_ok t" "rl_ok t acc" "\<forall>d \<in> set rl. range_ok t d"
  shows "rl_ok t (foldl (\<lambda>ret tmp. add ret (dr_min tmp) (dr_max tmp)) acc rl)
    \<and> rl_set (foldl (\<lambda>ret tmp. add ret (dr_min tmp) (dr_max tmp)) acc rl)
      = rl_set acc \<union> rl_set rl"
  using assms
proof (induction rl arbitrary: acc)
  case (Cons d rl)
  then have "has_type t (dr_min d)" "has_type t (dr_max d)" "span t (dr_min d) (dr_max d) = rset d"
    by (auto simp: range_ok_iff span_def rset_def)
  then show ?case
    using Cons.IH [of "add acc (dr_min d) (dr_max d)"] Cons.prems add_ok [of t acc] add_set [of t acc]
    by auto
qed simp

lemma alloc_whole_set:
  assumes "int_type_ok (whole_type t)"
  shows "rl_ok (whole_type t) (alloc_whole_with add t)"
    "rl_set (alloc_whole_with add t) = {type_lo (whole_type t)..type_hi (whole_type t)}"
  using assms int_type_ok_arith [OF assms] type_lo_nonpos [of "whole_type t"]
    type_hi_nonneg [of "whole_type t"]
  by (auto simp: alloc_whole_with_def add_ok add_set span_def sval_type_min_ok sval_type_max_ok)

end

lemma collapse_int: "int_type_ok (sv_type mn) \<Longrightarrow> collapse_with add prj rl mn mx = None"
  by (simp add: collapse_with_def int_type_ok_def)

lemma add_range_f_same:
  assumes "rl = [] \<or> rl_type rl = sv_type mn"
  shows "add_range_f (Suc n) rc prj rl mn mx =
    (let (mn, mx) = (if sval_cmp mn mx > 0
             then (sval_type_min (sv_type mn), sval_type_max (sv_type (sval_type_min (sv_type mn))))
             else (mn, mx))
     in case (if rc then None else collapse_with (add_range_f n True prj) prj rl mn mx) of
          Some rl' \<Rightarrow> rl' | None \<Rightarrow> add_range_loop mn mx rl)"
proof -
  have conv: "\<not> (rl \<noteq> [] \<and> rl_type rl \<noteq> sv_type mn)" using assms by simp
  show ?thesis unfolding add_range_f.simps if_not_P [OF conv] by (simp only: Let_def prod.case)
qed

lemma add_range_f_int:
  assumes "int_type_ok t" "rl_ok t rl" "has_type t mn" "has_type t mx"
  shows "add_range_f (Suc n) rc prj rl mn mx =
    (if sval_int mn \<le> sval_int mx then add_range_loop mn mx rl
     else add_range_loop (sval_type_min t) (sval_type_max t) rl)"
proof -
  have "rl = [] \<or> rl_type rl = sv_type mn"
    using rl_type_ok [OF assms(2)] assms(3) by (auto simp: has_type_def)
  note eq = add_range_f_same [OF this]
  have ty: "sv_type mn = t" "sv_type (sval_type_min t) = t"
    using assms int_type_ok_arith [OF assms(1)] by (auto simp: has_type_def sval_type_min_ok)
  then have none: "collapse_with (add_range_f n True prj) prj rl mn mx = None"
    "collapse_with (add_range_f n True prj) prj rl (sval_type_min t) (sval_type_max t) = None"
    using assms(1) by (simp_all add: collapse_int)
  show ?thesis
    unfolding eq ty has_type_cmp [OF assms(3,4)] cmp_int_simps
    by (cases "sval_int mn \<le> sval_int mx"; cases rc) (simp_all add: none)
qed

lemma add_range_f_spec:
  assumes "int_type_ok t" "rl_ok t rl" "has_type t mn" "has_type t mx"
  shows "rl_ok t (add_range_f (Suc n) rc prj rl mn mx)
    \<and> rl_set (add_range_f (Suc n) rc prj rl mn mx) = rl_set rl \<union> span t mn mx"
proof -
  have a: "arith_type t" using assms(1) by (rule int_type_ok_arith)
  have r: "range_ok t (alloc_range lo hi)" if "has_type t lo" "has_type t hi" "sval_int lo \<le> sval_int hi"
    for lo hi using that by (simp add: range_ok_iff)
  have whole: "type_lo t \<le> type_hi t" using type_lo_nonpos [of t] type_hi_nonneg [OF a] by simp
  note lim = sval_type_min_ok [OF a] sval_type_max_ok [OF a]
  show ?thesis
  proof (cases "sval_int mn \<le> sval_int mx")
    case True
    then show ?thesis
      using add_range_loop_spec [OF r [OF assms(3,4) True] assms(2)]
      unfolding add_range_f_int [OF assms] by (simp add: span_def Un_commute)
  next
    case False
    have "range_ok t (alloc_range (sval_type_min t) (sval_type_max t))"
      using whole lim a by (intro r) auto
    then show ?thesis
      using add_range_loop_spec [OF _ assms(2), of "sval_type_min t" "sval_type_max t"] False lim
      unfolding add_range_f_int [OF assms] by (simp add: span_def Un_commute)
  qed
qed

interpretation af: range_adder "add_range_f (Suc n) rc prj" for n rc prj
  using add_range_f_spec by unfold_locales blast+

interpretation ar: range_adder "add_range prj" for prj
proof -
  have "add_range prj = add_range_f (Suc 5) False prj"
    by (simp add: add_range_def add_range_depth_def)
  then show "range_adder (add_range prj)"
    using af.range_adder_axioms [of 5 False prj] by simp
qed

end
