(* ===== verification/Range_Sets.thy ===== *)
theory Range_Sets
  imports Range_Facts
begin

text \<open>
  The set operations on range lists: union, removal, filtering and intersection denote the
  operations on sets of integers, for lists of one integer type.
\<close>

unbundle bit_operations_syntax

section \<open>Union\<close>

lemma rl_union_spec:
  assumes "int_type_ok t" "rl_ok t one" "rl_ok t two"
  shows "rl_ok t (rl_union prj one two) \<and> rl_set (rl_union prj one two) = rl_set one \<union> rl_set two"
proof -
  let ?f = "\<lambda>ret tmp. add_range prj ret (dr_min tmp) (dr_max tmp)"
  have one: "rl_ok t (foldl ?f [] one) \<and> rl_set (foldl ?f [] one) = rl_set one"
    using assms(2) ar.add_ranges [OF assms(1) rl_ok_Nil, of one prj] by (simp add: rl_ok_def)
  then show ?thesis
    using assms(3) ar.add_ranges [OF assms(1) conjunct1 [OF one], of two prj]
    by (simp add: rl_union_def rl_ok_def)
qed

section \<open>Removal\<close>

lemma remove_range_loop_spec:
  assumes "int_type_ok t" "rl_ok t ret" "rl_ok t rl" "has_type t mn" "has_type t mx"
    "sval_int mn \<le> sval_int mx"
  shows "rl_ok t (remove_range_loop prj mn mx ret rl)
    \<and> rl_set (remove_range_loop prj mn mx ret rl) =
      rl_set ret \<union> (rl_set rl - {sval_int mn..sval_int mx})"
  using assms
proof (induction rl arbitrary: mn mx ret)
  case (Cons tmp rest)
  have tmp: "range_ok t tmp" and rest: "rl_ok t rest" "\<forall>x \<in> rl_set rest. dhi tmp + 1 < x"
    using Cons.prems by (auto simp: rl_ok_Cons)
  note tt = range_ok_has_type [OF tmp] and le = range_okD(6) [OF tmp] and bd = range_okD(7,8) [OF tmp]
  note mn = Cons.prems(4) and mx = Cons.prems(5)
  note add = ar.add_ok [OF Cons.prems(1), of _ _ _ prj] ar.add_set [OF Cons.prems(1), of _ _ _ prj]
  let ?mx = "mx\<lparr>sv_val := sv_val mx + 1\<rparr>" and ?mn = "mn\<lparr>sv_val := sv_val mn - 1\<rparr>"
  have up: "has_type t ?mx \<and> sval_int ?mx = sval_int mx + 1" if "sval_int mx < dhi tmp"
    using that bd mx sval_succ [of mx] by (auto simp: has_type_def)
  have down: "has_type t ?mn \<and> sval_int ?mn = sval_int mn - 1" if "dlo tmp < sval_int mn"
    using that bd mn sval_pred [of mn] by (auto simp: has_type_def)
  note cmp = has_type_cmp [OF tt(1) mn] has_type_cmp [OF tt(1) mx] has_type_cmp [OF tt(2) mn]
    has_type_cmp [OF tt(2) mx] cmp_int_simps
  note step = remove_range_loop.simps(2) [of prj mn mx ret tmp rest, unfolded cmp]
  note IH = Cons.IH [OF Cons.prems(1) _ rest(1)]
  consider (outside) "dhi tmp < sval_int mn \<or> sval_int mx < dlo tmp"
    | (inside) "sval_int mn \<le> dlo tmp" "dhi tmp \<le> sval_int mx"
    | (low) "sval_int mn \<le> dlo tmp" "dlo tmp \<le> sval_int mx" "sval_int mx < dhi tmp"
    | (high) "dlo tmp < sval_int mn" "sval_int mn \<le> dhi tmp" "dhi tmp \<le> sval_int mx"
    | (middle) "dlo tmp < sval_int mn" "sval_int mx < dhi tmp"
    using le Cons.prems(6) by linarith
  then show ?case
  proof cases
    case outside
    let ?r = "add_range prj ret (dr_min tmp) (dr_max tmp)"
    have "rl_ok t ?r" "rl_set ?r = rl_set ret \<union> rset tmp"
      using add tt le Cons.prems(2) by (auto simp: span_def rset_def)
    moreover have "rset tmp \<inter> {sval_int mn..sval_int mx} = {}"
      using outside by (auto simp: rset_def)
    moreover have "remove_range_loop prj mn mx ret (tmp # rest) = remove_range_loop prj mn mx ?r rest"
      using step outside by (simp split: if_splits)
    ultimately show ?thesis
      using IH [of ?r mn mx] Cons.prems(4-6) by auto
  next
    case inside
    then have "remove_range_loop prj mn mx ret (tmp # rest) = remove_range_loop prj mn mx ret rest"
      using step le by simp
    moreover have "rset tmp - {sval_int mn..sval_int mx} = {}" using inside by (auto simp: rset_def)
    ultimately show ?thesis using IH [of ret mn mx] Cons.prems(2,4-6) by auto
  next
    case low
    let ?r = "add_range prj ret ?mx (dr_max tmp)"
    have "rl_ok t ?r" "rl_set ?r = rl_set ret \<union> {sval_int mx + 1..dhi tmp}"
      using add tt up low Cons.prems(2) by (auto simp: span_def)
    moreover have "remove_range_loop prj mn mx ret (tmp # rest) = remove_range_loop prj mn ?mx ?r rest"
      using step low by (simp add: Let_def)
    moreover have "rset tmp - {sval_int mn..sval_int mx} = {sval_int mx + 1..dhi tmp}"
      "rl_set rest - {sval_int mn..sval_int mx + 1} = rl_set rest - {sval_int mn..sval_int mx}"
      using low rest(2) by (auto simp: rset_def)
    ultimately show ?thesis
      using IH [of ?r mn ?mx] Cons.prems(4-6) up low by (simp add: Un_Diff Un_assoc)
  next
    case high
    let ?r = "add_range prj ret (dr_min tmp) ?mn"
    have "rl_ok t ?r" "rl_set ?r = rl_set ret \<union> {dlo tmp..sval_int mn - 1}"
      using add tt down high Cons.prems(2) by (auto simp: span_def)
    moreover have "remove_range_loop prj mn mx ret (tmp # rest) = remove_range_loop prj ?mn mx ?r rest"
      using step high by (simp add: Let_def)
    moreover have "rset tmp - {sval_int mn..sval_int mx} = {dlo tmp..sval_int mn - 1}"
      "rl_set rest - {sval_int mn - 1..sval_int mx} = rl_set rest - {sval_int mn..sval_int mx}"
      using high rest(2) by (auto simp: rset_def)
    ultimately show ?thesis
      using IH [of ?r ?mn mx] Cons.prems(4-6) down high by (simp add: Un_Diff Un_assoc)
  next
    case middle
    let ?r = "add_range prj ret (dr_min tmp) ?mn" let ?q = "add_range prj ?r ?mx (dr_max tmp)"
    have r: "rl_ok t ?r" "rl_set ?r = rl_set ret \<union> {dlo tmp..sval_int mn - 1}"
      using add tt down middle Cons.prems(2) by (auto simp: span_def)
    then have "rl_ok t ?q" "rl_set ?q = rl_set ?r \<union> {sval_int mx + 1..dhi tmp}"
      using add tt up middle by (auto simp: span_def)
    moreover have "remove_range_loop prj mn mx ret (tmp # rest) = remove_range_loop prj ?mn ?mx ?q rest"
      using step middle Cons.prems(6) by (simp add: Let_def)
    moreover have "rset tmp - {sval_int mn..sval_int mx} =
        {dlo tmp..sval_int mn - 1} \<union> {sval_int mx + 1..dhi tmp}"
      "rl_set rest - {sval_int mn - 1..sval_int mx + 1} = rl_set rest - {sval_int mn..sval_int mx}"
      using middle Cons.prems(6) rest(2) by (auto simp: rset_def)
    ultimately show ?thesis
      using r IH [of ?q ?mn ?mx] Cons.prems(4-6) down up middle by (simp add: Un_Diff Un_assoc)
  qed
qed simp

lemma remove_range_spec:
  assumes "int_type_ok t" "rl_ok t rl" "\<not> type_is_fp (sv_type mn)" "\<not> type_is_fp (sv_type mx)"
    and a: "a = wrap t (sval_int mn)" and b: "b = wrap t (sval_int mx)"
  shows "rl_ok t (remove_range prj rl mn mx)
    \<and> rl_set (remove_range prj rl mn mx) = rl_set rl - {min a b..max a b}"
proof (cases "rl = []")
  case False
  have t: "arith_type t" using assms(1) by (rule int_type_ok_arith)
  let ?mn = "sval_cast t mn" and ?mx = "sval_cast t mx"
  have ty: "has_type t ?mn" "has_type t ?mx" and v: "sval_int ?mn = a" "sval_int ?mx = b"
    using t assms(3,4) by (auto simp: sval_int_cast a b)
  have "rl_type rl = t" using False rl_type_ok [OF assms(2)] by simp
  then have "remove_range prj rl mn mx =
      (if a \<le> b then remove_range_loop prj ?mn ?mx [] rl else remove_range_loop prj ?mx ?mn [] rl)"
    using False by (simp add: remove_range_def has_type_cmp [OF ty] v)
  then show ?thesis
    using remove_range_loop_spec [OF assms(1) rl_ok_Nil assms(2), of ?mn ?mx prj]
      remove_range_loop_spec [OF assms(1) rl_ok_Nil assms(2), of ?mx ?mn prj] ty v
    by (auto simp: min_def max_def)
qed (simp add: remove_range_def)

text \<open>The common case: bounds of the list's type, in order.\<close>

lemma remove_range_same:
  assumes "int_type_ok t" "rl_ok t rl" "has_type t mn" "has_type t mx" "sval_int mn \<le> sval_int mx"
  shows "rl_ok t (remove_range prj rl mn mx)"
    "rl_set (remove_range prj rl mn mx) = rl_set rl - {sval_int mn..sval_int mx}"
  using remove_range_spec [OF assms(1,2), of mn mx _ _ prj] has_typeD [OF assms(3)]
    has_typeD [OF assms(4)] assms(5) by (auto simp: wrap_id min_def max_def)

lemma rl_filter_spec:
  assumes "int_type_ok t" "rl_ok t rl" "\<forall>d \<in> set filt. range_ok t d"
  shows "rl_ok t (rl_filter prj rl filt) \<and> rl_set (rl_filter prj rl filt) = rl_set rl - rl_set filt"
  using assms
proof (induction filt arbitrary: rl)
  case (Cons d filt)
  have d: "has_type t (dr_min d)" "has_type t (dr_max d)" "dlo d \<le> dhi d"
    using Cons.prems by (auto simp: range_ok_iff)
  note r = remove_range_same [OF Cons.prems(1,2) d, of prj]
  show ?case
    using Cons.IH [OF Cons.prems(1) r(1)] Cons.prems(3) r(2) by (auto simp: rl_filter_def rset_def)
qed (simp add: rl_filter_def)

section \<open>Intersection\<close>

lemma do_intersection_loop_spec:
  assumes "int_type_ok t" "rl_ok t ret" "rl_ok t ones" "rl_ok t twos"
  shows "\<exists>rl. do_intersection_loop prj ret ones twos = Some rl \<and> rl_ok t rl
    \<and> rl_set rl = rl_set ret \<union> (rl_set ones \<inter> rl_set twos)"
  using assms
proof (induction prj ret ones twos rule: do_intersection_loop.induct)
  case (3 prj ret one ones two twos)
  have one: "range_ok t one" and ones: "rl_ok t ones" "\<forall>x \<in> rl_set ones. dhi one + 1 < x"
    using 3 by (auto simp: rl_ok_Cons)
  have two: "range_ok t two" and twos: "rl_ok t twos" "\<forall>x \<in> rl_set twos. dhi two + 1 < x"
    using 3 by (auto simp: rl_ok_Cons)
  note t1 = range_ok_has_type [OF one] and le1 = range_okD(6) [OF one]
  note t2 = range_ok_has_type [OF two] and le2 = range_okD(6) [OF two]
  note cmp = has_type_cmp [OF t1(1) t2(1)] has_type_cmp [OF t1(1) t2(2)] has_type_cmp [OF t1(2) t2(1)]
    has_type_cmp [OF t1(2) t2(2)] cmp_int_simps
  note step = do_intersection_loop.simps(3) [of prj ret one ones two twos, unfolded cmp]
  note IH = "3.IH" [unfolded cmp]
  have add: "rl_ok t (add_range prj ret lo hi)
      \<and> rl_set (add_range prj ret lo hi) = rl_set ret \<union> {sval_int lo..sval_int hi}"
    if "has_type t lo" "has_type t hi" "sval_int lo \<le> sval_int hi" for lo hi
    using that ar.add_ok ar.add_set "3.prems"(1,2) by (simp add: span_def)
  show ?case
  proof (cases "dhi one \<le> dhi two")
    case drop1: True
    then have disj: "rset one \<inter> rl_set twos = {}" using twos(2) by (force simp: rset_def)
    consider "dhi one < dlo two" | "dlo one < dlo two" "dlo two \<le> dhi one" | "dlo two \<le> dlo one"
      by linarith
    then show ?thesis
    proof cases
      case 1
      then show ?thesis using step IH(1) "3.prems"(1,2,4) ones disj by (auto simp: rset_def)
    next
      case 2
      then show ?thesis
        using step IH(2) "3.prems"(1,2,4) ones drop1 add [OF t2(1) t1(2)] disj
        by (auto simp: rset_def)
    next
      case 3
      then show ?thesis
        using step IH(3) "3.prems"(1,2,4) ones drop1 le1 add [OF t1] disj by (auto simp: rset_def)
    qed
  next
    case drop2: False
    then have disj: "rset two \<inter> rl_set ones = {}" using ones(2) by (force simp: rset_def)
    consider "dhi one < dlo two" | "dlo one < dlo two" "dlo two \<le> dhi one"
      | "dlo two \<le> dlo one" "dlo one \<le> dhi two" | "dhi two < dlo one"
      using le2 by linarith
    then show ?thesis
    proof cases
      case 1
      then show ?thesis using drop2 le2 by simp
    next
      case 2
      then show ?thesis
        using step IH(4) "3.prems"(1-3) twos drop2 le2 add [OF t2] disj by (auto simp: rset_def)
    next
      case 3
      then show ?thesis
        using step IH(5) "3.prems"(1-3) twos drop2 le2 add [OF t1(1) t2(2)] disj
        by (auto simp: rset_def)
    next
      case 4
      then show ?thesis
        using step IH(6) "3.prems"(1-3) twos drop2 le1 le2 disj by (auto simp: rset_def)
    qed
  qed
qed auto

lemma do_intersection_spec:
  assumes "int_type_ok t" "rl_ok t one" "rl_ok t two"
  shows "\<exists>rl. do_intersection prj one two = Some rl \<and> rl_ok t rl
    \<and> rl_set rl = rl_set one \<inter> rl_set two"
  using do_intersection_loop_spec [OF assms(1) rl_ok_Nil assms(2,3)]
  by (simp add: do_intersection_def)

section \<open>Conversion to the list's own type\<close>

lemma range_ok_sane:
  assumes "range_ok t d"
  shows "sval_fits t (dr_min d) \<and> sval_fits t (dr_max d) \<and> \<not> sval_cmp (dr_min d) (dr_max d) > 0"
  using range_okD [OF assms] by (simp add: sval_fits_iff sval_cmp_same)

lemma rl_ok_sane:
  assumes "rl_ok t rl"
  shows "rl_is_sane rl"
proof -
  have "rl_type rl = t" if "d \<in> set rl" for d
    using rl_type_ok [OF assms] that by (auto split: if_splits)
  then show ?thesis
    using range_ok_sane [OF rl_ok_range [OF assms]] unfolding rl_is_sane_def list_all_iff by metis
qed

lemma rl_ok_consistent:
  assumes "rl_ok t rl"
  shows "rl_type_consistent rl"
proof -
  have "rl_type rl = t" if "d \<in> set rl" for d
    using rl_type_ok [OF assms] that by (auto split: if_splits)
  then show ?thesis
    using range_okD(4,5) [OF rl_ok_range [OF assms]]
    unfolding rl_type_consistent_def list_all_iff by metis
qed

lemma cast_rl_with_same: "rl_ok t rl \<Longrightarrow> cast_rl_with add t rl = rl"
  using rl_ok_sane [of t rl] rl_ok_consistent [of t rl] rl_type_ok [of t rl] rl_ok_arith [of t rl]
  by (auto simp: cast_rl_with_def)

lemma cast_rl_same: "rl_ok t rl \<Longrightarrow> cast_rl prj t rl = rl"
  by (simp add: cast_rl_def cast_rl_with_same)

lemma rl_intersection_spec:
  assumes "int_type_ok t" "rl_ok t one" "rl_ok t two"
  shows "\<exists>rl. rl_intersection prj one two = Some rl \<and> rl_ok t rl
    \<and> rl_set rl = rl_set one \<inter> rl_set two"
proof (cases "one = [] \<or> two = []")
  case False
  then have "rl_type one = t" "rl_type two = t" using rl_type_ok assms(2,3) by auto
  then show ?thesis
    using False do_intersection_spec [OF assms, of prj] assms(2,3)
    by (auto simp: rl_intersection_def cast_rl_same)
qed (auto simp: rl_intersection_def)

end
