(* ===== verification/Range_Cast.thy ===== *)
theory Range_Cast
  imports Range_Sets
begin

text \<open>
  Conversion of range lists between integer types: \<^verbatim>\<open>add_range_t\<close> and \<^verbatim>\<open>cast_rl\<close> cover every
  converted value, except for one shape of range, which is characterised here.
\<close>

unbundle bit_operations_syntax

section \<open>Wrapping an interval\<close>

lemma pow2_width: "arith_type t \<Longrightarrow> type_bits t \<noteq> 1 \<Longrightarrow> (2::int) ^ type_width t = 2 * 2 ^ (type_width t - 1)"
  by (cases rule: arith_type_cases) (auto simp: type_width_def)

lemma wrap_unsigned_neg:
  assumes "arith_type t" "type_bits t \<noteq> 1" "type_unsigned t" "- (2 ^ type_width t) \<le> x" "x < 0"
  shows "wrap t x = x + 2 ^ type_width t"
proof -
  have "x mod 2 ^ type_width t = (x + 2 ^ type_width t) mod 2 ^ type_width t" by simp
  also have "\<dots> = x + 2 ^ type_width t" using assms by (intro mod_pos_pos_trivial) auto
  finally show ?thesis using assms by (simp add: wrap_def uwrap_def)
qed

lemma wrap_signed_high:
  assumes "arith_type t" "type_bits t \<noteq> 1" "\<not> type_unsigned t" "type_hi t < x" "x < 2 ^ type_width t"
  shows "wrap t x = x - 2 ^ type_width t"
proof -
  let ?h = "(2::int) ^ (type_width t - 1)"
  have h: "(2::int) ^ type_width t = 2 * ?h" using pow2_width assms(1,2) by blast
  have "(x + ?h) mod 2 ^ type_width t = (x + ?h - 2 ^ type_width t) mod 2 ^ type_width t" by simp
  also have "\<dots> = x + ?h - 2 ^ type_width t"
    using assms(3-5) h by (intro mod_pos_pos_trivial) (auto simp: type_hi_def)
  finally show ?thesis using assms by (simp add: wrap_def swrap_def)
qed

lemma wrap_signed_mod:
  assumes "arith_type t" "type_bits t \<noteq> 1" "\<not> type_unsigned t"
  shows "wrap t x = (if x mod 2 ^ type_width t \<le> type_hi t then x mod 2 ^ type_width t
    else x mod 2 ^ type_width t - 2 ^ type_width t)"
proof -
  have "wrap t x = wrap t (x mod 2 ^ type_width t)"
    using assms by (intro wrap_cong) auto
  moreover have "type_lo t \<le> x mod 2 ^ type_width t"
    by (rule order_trans [OF type_lo_nonpos]) simp
  ultimately show ?thesis
    using assms wrap_id [of t "x mod 2 ^ type_width t"] wrap_signed_high [of t "x mod 2 ^ type_width t"]
    by simp
qed

lemma wrap_block:
  assumes "arith_type t" "type_bits t \<noteq> 1" "a div 2 ^ type_width t = b div 2 ^ type_width t"
    and "a \<le> x" "x \<le> b" "wrap t a \<le> wrap t b"
  shows "wrap t a \<le> wrap t x \<and> wrap t x \<le> wrap t b"
proof -
  let ?m = "(2::int) ^ type_width t"
  have "a div ?m \<le> x div ?m" "x div ?m \<le> b div ?m"
    using assms(4,5) by (auto intro: zdiv_mono1)
  then have d: "x div ?m = a div ?m" "b div ?m = a div ?m" using assms(3) by auto
  have "z mod ?m = z - ?m * (z div ?m)" for z by (simp add: minus_mult_div_eq_mod)
  then have m: "a mod ?m \<le> x mod ?m" "x mod ?m \<le> b mod ?m" using d assms(4,5) by auto
  show ?thesis
  proof (cases "type_unsigned t")
    case True
    then show ?thesis using m assms(2) by (simp add: wrap_def uwrap_def)
  next
    case False
    obtain A B X where abs: "a mod ?m = A" "b mod ?m = B" "x mod ?m = X" "0 \<le> A" "B < ?m" by simp
    show ?thesis
      using m assms(6) abs(4,5) unfolding wrap_signed_mod [OF assms(1,2) False] abs(1-3)
      by (auto split: if_splits)
  qed
qed

section \<open>The conversion tests\<close>

lemma uint_drop: "uint (drop_bit n (a :: u64)) = uint a div 2 ^ n"
  using uint64_bounds [of a] by (subst unsigned_drop_bit_eq) (simp add: drop_bit_eq_div take_bit_int_eq_self)

lemma word_div_eq_iff:
  fixes a b :: u64
  assumes "n < 64"
  shows "a AND push_bit n (- 1) = b AND push_bit n (- 1) \<longleftrightarrow> uint a div 2 ^ n = uint b div 2 ^ n"
proof -
  have "a AND push_bit n (- 1) = b AND push_bit n (- 1) \<longleftrightarrow> drop_bit n a = drop_bit n b"
  proof
    assume l: "a AND push_bit n (- 1) = b AND push_bit n (- 1)"
    have "drop_bit n c = drop_bit n (c AND push_bit n (- 1))" for c :: u64
      by (rule bit_word_eqI) (auto simp: bit_simps dest: bit_imp_le_length)
    then show "drop_bit n a = drop_bit n b" using l by metis
  next
    assume r: "drop_bit n a = drop_bit n b"
    have "c AND push_bit n (- 1) = push_bit n (drop_bit n c)" for c :: u64
      by (rule bit_word_eqI) (auto simp: bit_simps)
    then show "a AND push_bit n (- 1) = b AND push_bit n (- 1)" using r by metis
  qed
  also have "\<dots> \<longleftrightarrow> uint (drop_bit n a) = uint (drop_bit n b)"
    using word_uint_eqI by auto
  finally show ?thesis by (simp only: uint_drop)
qed

lemma sint_div_eq:
  fixes a b :: u64
  assumes "n < 64" "uint a div 2 ^ n = uint b div 2 ^ n"
  shows "sint a div 2 ^ n = sint b div 2 ^ n"
proof -
  have "drop_bit n a = drop_bit n b"
    using assms(2) by (intro word_uint_eqI) (simp only: uint_drop)
  then have drop: "bit (drop_bit n a) (k - n) = bit (drop_bit n b) (k - n)" for k by simp
  have bits: "bit a k = bit b k" if "n \<le> k" for k
    using drop [of k] that by (simp only: bit_drop_bit_eq comp_apply le_add_diff_inverse)
  have "bit (sint a) k = bit (sint b) k" if "n \<le> k" for k
    using bits [of k] bits [of 63] assms(1) that by (simp add: bit_sint_iff)
  then have "drop_bit n (sint a) = drop_bit n (sint b)"
    by (intro bit_eqI) (simp only: bit_drop_bit_eq comp_apply le_add1)
  then show ?thesis by (simp add: drop_bit_eq_div)
qed

lemma type_shift: 
  "arith_type t \<Longrightarrow> unat (word_of_int (type_bits t) :: u64) mod 64 = (if type_bits t = 64 then 0 else type_width t)"
  by (cases rule: arith_type_cases) (auto simp: type_width_def)

lemma truncates_nicely_iff:
  assumes "has_type s mn" "has_type s mx" "arith_type t"
  shows "truncates_nicely t mn mx \<longleftrightarrow>
    type_bits t < type_bits s \<and> uvalue mn div 2 ^ type_width t = uvalue mx div 2 ^ type_width t"
proof (cases "type_bits t < type_bits s")
  case True
  have s: "arith_type s" using has_typeD(3) [OF assms(1)] .
  have "type_bits s \<le> 64" using s by (cases rule: arith_type_cases) auto
  then have w: "type_bits t \<noteq> 64" "type_width t < 64" using True by (auto simp: type_width_def)
  then have "shl64 (- 1) (word_of_int (type_bits t)) = push_bit (type_width t) (- 1)"
    using type_shift [OF assms(3)] by (simp add: shl64_def)
  then show ?thesis
    using True has_typeD [OF assms(1)] word_div_eq_iff [OF w(2)]
    by (simp add: truncates_nicely_def Let_def)
next
  case False
  then show ?thesis using has_typeD [OF assms(1)] by (auto simp: truncates_nicely_def Let_def)
qed

lemma truncates_nicely_div:
  assumes "has_type s mn" "has_type s mx" "arith_type t" "truncates_nicely t mn mx"
  shows "sval_int mn div 2 ^ type_width t = sval_int mx div 2 ^ type_width t"
proof -
  have tr: "type_bits t < type_bits s"
    "uvalue mn div 2 ^ type_width t = uvalue mx div 2 ^ type_width t"
    using assms truncates_nicely_iff by auto
  have "arith_type s" using has_typeD(3) [OF assms(1)] .
  then have "type_bits s \<le> 64" by (cases rule: arith_type_cases) auto
  then have "type_width t < 64" using tr by (auto simp: type_width_def)
  then have "svalue mn div 2 ^ type_width t = svalue mx div 2 ^ type_width t"
    using tr(2) by (rule sint_div_eq)
  then show ?thesis
    using tr(2) has_typeD(2) [OF assms(1)] has_typeD(2) [OF assms(2)] by (simp add: sval_int_def)
qed

lemma uint_not: "uint (NOT (v :: u64)) = 2 ^ 64 - 1 - uint v"
proof -
  have "NOT v = - 1 - v" by (simp add: not_eq_complement)
  then show ?thesis using uint64_bounds [of v] by (simp only: uint_sub_if' uint_neg1) simp
qed

lemma type_within:
  assumes "arith_type s" "type_bits s \<le> type_bits t" "type_lo s \<le> x" "x \<le> type_hi s"
  shows "- (2 ^ (type_width t - 1)) \<le> x" "x < 2 ^ type_width t"
proof -
  have "2 ^ (type_width s - 1) \<le> (2::int) ^ (type_width t - 1)" "2 ^ type_width s \<le> (2::int) ^ type_width t"
    using assms(2) by (auto intro!: power_increasing simp: type_width_def nat_mono diff_le_mono)
  moreover have "0 \<le> (2::int) ^ (type_width s - 1)" "(2::int) ^ (type_width s - 1) \<le> 2 ^ type_width s"
    by (auto intro!: power_increasing)
  ultimately have "- (2 ^ (type_width t - 1)) \<le> x \<and> x < 2 ^ type_width t"
    using assms(3,4) unfolding type_lo_def type_hi_def
    by (cases "type_unsigned s"; simp only: if_True if_False) linarith+
  then show "- (2 ^ (type_width t - 1)) \<le> x" "x < 2 ^ type_width t" by auto
qed

lemma not_too_big:
  assumes "has_type s v" "arith_type t" "type_bits t \<noteq> 1" "\<not> sval_too_big t v"
  shows "(if type_unsigned t then - (2 ^ type_width t) else type_lo t) \<le> sval_int v
    \<and> sval_int v < 2 ^ type_width t"
proof (cases "type_bits t \<ge> 32 \<and> type_bits s \<le> type_bits t")
  case True
  have "(2::int) ^ type_width t = 2 * 2 ^ (type_width t - 1)" using assms(2,3) by (rule pow2_width)
  then show ?thesis
    using type_within [of s t "sval_int v"] True has_typeD [OF assms(1)] by (auto simp: type_lo_def)
next
  case False
  have s: "arith_type s" "type_lo s \<le> sval_int v" "sval_int v \<le> type_hi s" "sv_type v = s"
    using has_typeD [OF assms(1)] by auto
  have "type_bits s \<le> 64" using s(1) by (cases rule: arith_type_cases) auto
  then have t64: "type_bits t \<noteq> 64" using False by auto
  have mask: "uint (shl64 1 (word_of_int (type_bits t)) - 1) = 2 ^ type_width t - 1"
    using assms(2) t64 by (cases rule: arith_type_cases) (auto simp: shl64_def type_width_def)
  have "type_hi t < 2 ^ 63"
    using assms(2) t64 by (cases rule: arith_type_cases) (auto simp: type_hi_def type_width_def)
  then have mx: "svalue (sval_type_max t) = type_hi t" "uvalue (sval_type_max t) = type_hi t"
    using sval_type_max_ok [OF assms(2)] by (auto simp: sint_uint_cases)
  have small: "(2::int) ^ type_width t \<le> 2 ^ 32" "type_hi t < 2 ^ type_width t"
    using assms(2) t64 by (cases rule: arith_type_cases; auto simp: type_width_def type_hi_def)+
  note big = assms(4) [unfolded sval_too_big_def s(4) mask mx svalue_type_min [OF assms(2)] uint_not]
  show ?thesis
  proof (cases "uvalue v \<le> 2 ^ type_width t - 1")
    case True
    then have "sval_int v = uvalue v" using small by (auto simp: sval_int_def sint_uint_cases)
    moreover have "0 \<le> uvalue v" "0 \<le> (2::int) ^ type_width t" by simp_all
    ultimately show ?thesis
      using True type_lo_nonpos [of t] by (cases "type_unsigned t"; simp only: if_True if_False) linarith+
  next
    case nofit: False
    have "type_unsigned t \<and> 2 ^ 64 - 1 - uvalue v \<le> type_hi t \<or> type_lo t \<le> svalue v \<and> svalue v \<le> type_hi t"
      if "\<not> type_unsigned s"
      using big False nofit that arith_type_signed [OF s(1)] by (simp split: if_splits)
    moreover have "uvalue v \<le> type_hi t" if "type_unsigned s"
      using big False nofit that arith_type_signed [OF s(1)] by (simp split: if_splits)
    ultimately show ?thesis
      using nofit small s(4) uint64_bounds [of "sv_val v"] type_lo_nonpos [of t]
      by (cases "type_unsigned s"; cases "type_unsigned t")
        (auto simp: sval_int_def sint_uint_cases type_lo_def split: if_splits)
  qed
qed

lemma signed_not_truncated:
  assumes "has_type s mn" "has_type s mx" "arith_type t" "type_hi t < sval_int mx"
    "sval_int mx < 2 ^ type_width t" "0 \<le> sval_int mn" "sval_int mn \<le> sval_int mx"
    "\<not> type_unsigned s" "\<not> type_unsigned t"
  shows "truncates_nicely t mn mx"
proof -
  have "sval_int mx \<le> type_hi s" using has_typeD(6) [OF assms(2)] .
  then have "type_hi t < type_hi s" using assms(4) by simp
  then have "(2::int) ^ (type_width t - 1) < 2 ^ (type_width s - 1)"
    using assms(8,9) by (simp add: type_hi_def)
  then have "type_width t - 1 < type_width s - 1" by (rule power_less_imp_less_exp [rotated]) simp
  then have "type_bits t < type_bits s" by (simp add: type_width_def)
  moreover have "uvalue mn = sval_int mn" "uvalue mx = sval_int mx"
    using assms(6,7) by (auto intro: uvalue_nonneg)
  ultimately show ?thesis
    using assms by (simp add: truncates_nicely_iff)
qed

section \<open>One converted range\<close>

text \<open>
  The shape of range that \<^verbatim>\<open>add_range_t\<close> gets wrong: a signed source, a narrower signed target,
  a negative lower bound, and an upper bound that needs the target's sign bit but no higher
  bit.
\<close>

definition cast_hazard :: "ctype \<Rightarrow> ctype \<Rightarrow> data_range \<Rightarrow> bool" where
  "cast_hazard s t d \<longleftrightarrow>
     type_signed s \<and> type_signed t \<and> dlo d < 0 \<and> type_hi t < dhi d \<and> dhi d < 2 ^ type_width t"

text \<open>\<open>covers t rl a b res\<close>: \<open>res\<close> extends \<open>rl\<close> by every converted value of \<open>a..b\<close>.\<close>

definition covers :: "ctype \<Rightarrow> range_list \<Rightarrow> int \<Rightarrow> int \<Rightarrow> range_list \<Rightarrow> bool" where
  "covers t rl a b res \<longleftrightarrow> rl_ok t res \<and> rl_set rl \<subseteq> rl_set res \<and> wrap t ` {a..b} \<subseteq> rl_set res"

context range_adder
begin

lemma add_cast:
  assumes "int_type_ok t" "rl_ok t rl" "has_type s mn" "has_type s mx"
  shows "rl_ok t (add rl (sval_cast t mn) (sval_cast t mx))"
    "rl_set (add rl (sval_cast t mn) (sval_cast t mx)) = rl_set rl \<union>
      (if wrap t (sval_int mn) \<le> wrap t (sval_int mx)
       then {wrap t (sval_int mn)..wrap t (sval_int mx)} else {type_lo t..type_hi t})"
proof -
  have t: "arith_type t" using assms(1) by (rule int_type_ok_arith)
  have "has_type t (sval_cast t mn)" "has_type t (sval_cast t mx)"
    using t has_typeD [OF assms(3)] has_typeD [OF assms(4)] by auto
  then show "rl_ok t (add rl (sval_cast t mn) (sval_cast t mx))"
    "rl_set (add rl (sval_cast t mn) (sval_cast t mx)) = rl_set rl \<union>
      (if wrap t (sval_int mn) \<le> wrap t (sval_int mx)
       then {wrap t (sval_int mn)..wrap t (sval_int mx)} else {type_lo t..type_hi t})"
    using assms t has_typeD [OF assms(3)] has_typeD [OF assms(4)]
    by (simp_all add: add_ok add_set span_def sval_int_cast)
qed

lemma covers_whole:
  assumes "int_type_ok t" "rl_ok t rl"
  shows "covers t rl a b (add rl (sval_type_min t) (sval_type_max t))"
proof -
  have t: "arith_type t" using assms(1) by (rule int_type_ok_arith)
  then have "span t (sval_type_min t) (sval_type_max t) = {type_lo t..type_hi t}"
    by (simp add: span_def sval_type_min_ok sval_type_max_ok)
  then show ?thesis
    using add_ok [OF assms] add_set [OF assms] t wrap_bounds [OF t] by (auto simp: covers_def)
qed

lemma covers_cast:
  assumes "int_type_ok t" "rl_ok t rl" "has_type s mn" "has_type s mx"
    and "\<And>x. sval_int mn \<le> x \<Longrightarrow> x \<le> sval_int mx \<Longrightarrow> wrap t (sval_int mn) \<le> wrap t (sval_int mx) \<Longrightarrow>
      wrap t (sval_int mn) \<le> wrap t x \<and> wrap t x \<le> wrap t (sval_int mx)"
  shows "covers t rl (sval_int mn) (sval_int mx) (add rl (sval_cast t mn) (sval_cast t mx))"
  using add_cast [OF assms(1-4)] assms(5) wrap_bounds [OF int_type_ok_arith [OF assms(1)]]
  unfolding covers_def by (auto split: if_splits)

lemma covers_again:
  assumes "int_type_ok t" "covers t rl a b r" "has_type t mn" "has_type t mx"
  shows "covers t rl a b (add r mn mx)"
  using assms add_ok [of t r mn mx] add_set [of t r mn mx] unfolding covers_def by auto

lemma sval_type_zero:
  assumes "arith_type t"
  shows "has_type t (sval_type_val t 0)" "sval_int (sval_type_val t 0) = 0"
proof -
  have "sval_type_val t 0 = mk_sval t 0"
    using assms by (cases t) (auto simp: sval_type_val_def)
  then show "has_type t (sval_type_val t 0)" "sval_int (sval_type_val t 0) = 0"
    using assms type_lo_nonpos [of t] type_hi_nonneg [OF assms]
    by (auto simp: has_type_def sval_ok_def mk_sval_def sval_int_def)
qed

lemma wrap_cast_again:
  "arith_type t \<Longrightarrow> \<not> type_is_fp (sv_type v) \<Longrightarrow> sval_cast t (sval_cast t v) = sval_cast t v"
  by (rule has_type_cast_id) simp

lemma add_range_t_wrap_unsigned:
  assumes t: "int_type_ok t" "type_bits t \<noteq> 1" "type_unsigned t" and rl: "rl_ok t rl"
    and d: "has_type s mn" "has_type s mx" "sval_int mn \<le> sval_int mx" "sval_int mn < 0"
    and bd: "- (2 ^ type_width t) \<le> sval_int mn" "sval_int mx \<le> type_hi t"
  shows "covers t rl (sval_int mn) (sval_int mx) (add_range_t_wrap add t rl mn mx)"
proof -
  have at: "arith_type t" using t(1) by (rule int_type_ok_arith)
  have fp: "\<not> type_is_fp (sv_type mn)" "\<not> type_is_fp (sv_type mx)"
    using has_typeD [OF d(1)] has_typeD [OF d(2)] by auto
  have nonneg: "\<not> sval_is_negative (sval_cast t v)" if "\<not> type_is_fp (sv_type v)" for v
    using has_typeD(5) [OF has_type_cast [OF at that]] t(3)
    by (simp add: sval_is_negative_iff type_lo_def)
  let ?mn = "sval_cast t mn" and ?mx = "sval_cast t mx"
  have ty: "has_type t ?mn" "has_type t ?mx" using at fp by auto
  have neg: "wrap t x = x + 2 ^ type_width t" if "sval_int mn \<le> x" "x < 0" for x
    using that bd(1) at t by (intro wrap_unsigned_neg) auto
  have hi: "type_hi t = 2 ^ type_width t - 1" using t(3) by (simp add: type_hi_def)
  show ?thesis
  proof (cases "sval_int mx < 0")
    case True
    have "add_range_t_wrap add t rl mn mx = add (add rl ?mn ?mx) ?mn ?mx"
      using True d(4) t(3) fp nonneg at
      by (simp add: add_range_t_wrap_def Let_def sval_is_negative_iff [of mn] sval_is_positive_def
          sval_is_negative_iff [of mx] wrap_cast_again)
    moreover have "covers t rl (sval_int mn) (sval_int mx) (add rl ?mn ?mx)"
      using True neg d(3) by (intro covers_cast [OF t(1) rl d(1,2)]) simp
    ultimately show ?thesis using covers_again [OF t(1) _ ty] by simp
  next
    case False
    let ?z = "sval_type_val t 0" and ?M = "sval_type_max t"
    let ?r = "add rl ?z ?mx"
    have z: "has_type t ?z" "sval_int ?z = 0" using at by (rule sval_type_zero)+
    have M: "has_type t ?M" "sval_int ?M = type_hi t" "sval_cast t ?M = ?M"
      using at by (auto simp: sval_type_max_ok intro: has_type_cast_id)
    have eq: "add_range_t_wrap add t rl mn mx = add (add ?r ?mn ?M) ?mn ?M"
      using False d(4) t(3) fp nonneg nonneg [of ?M] at M
      by (simp add: add_range_t_wrap_def Let_def sval_is_negative_iff [of mn] sval_is_positive_def
          sval_is_negative_iff [of mx] wrap_cast_again has_typeD)
    have mx: "sval_int ?mx = sval_int mx"
      using False bd(2) type_lo_nonpos [of t] at fp by (simp add: sval_int_cast wrap_id)
    have mn: "sval_int ?mn = sval_int mn + 2 ^ type_width t"
      using neg [of "sval_int mn"] d(4) at fp by (simp add: sval_int_cast)
    have r: "rl_ok t ?r" "rl_set ?r = rl_set rl \<union> {0..sval_int mx}"
      using add_ok [OF t(1) rl z(1) ty(2)] add_set [OF t(1) rl z(1) ty(2)] False mx z(2)
      by (auto simp: span_def)
    have q: "rl_ok t (add ?r ?mn ?M)"
      "rl_set (add ?r ?mn ?M) = rl_set ?r \<union> {sval_int mn + 2 ^ type_width t..type_hi t}"
      using add_ok [OF t(1) r(1) ty(1) M(1)] add_set [OF t(1) r(1) ty(1) M(1)] mn M(2) d(4) hi
      by (auto simp: span_def)
    have "wrap t x = (if x < 0 then x + 2 ^ type_width t else x)" if "sval_int mn \<le> x" "x \<le> sval_int mx" for x
      using neg that bd(2) type_lo_nonpos [of t] at by (auto intro!: wrap_id)
    then have "covers t rl (sval_int mn) (sval_int mx) (add ?r ?mn ?M)"
      using q r hi by (auto simp: covers_def)
    then show ?thesis using covers_again [OF t(1) _ ty(1) M(1)] eq by simp
  qed
qed

lemma add_range_t_wrap_signed:
  assumes t: "int_type_ok t" "type_bits t \<noteq> 1" "\<not> type_unsigned t" and rl: "rl_ok t rl"
    and d: "has_type s mn" "has_type s mx" "sval_int mn \<le> sval_int mx" "type_unsigned s"
    and bd: "type_hi t < sval_int mx" "sval_int mx < 2 ^ type_width t"
  shows "covers t rl (sval_int mn) (sval_int mx) (add_range_t_wrap add t rl mn mx)"
proof -
  have at: "arith_type t" using t(1) by (rule int_type_ok_arith)
  have fp: "\<not> type_is_fp (sv_type mn)" "\<not> type_is_fp (sv_type mx)"
    using has_typeD [OF d(1)] has_typeD [OF d(2)] by auto
  let ?mn = "sval_cast t mn" and ?mx = "sval_cast t mx"
  have ty: "has_type t ?mn" "has_type t ?mx" using at fp by auto
  have high: "wrap t x = x - 2 ^ type_width t" if "type_hi t < x" "x \<le> sval_int mx" for x
    using that bd(2) at t by (intro wrap_signed_high) auto
  have a0: "0 \<le> sval_int mn" using has_typeD(5) [OF d(1)] d(4) by (simp add: type_lo_def)
  have low: "wrap t x = x" if "0 \<le> x" "x \<le> type_hi t" for x
    using that type_lo_nonpos [of t] at by (intro wrap_id) auto
  have mx: "sval_int ?mx = sval_int mx - 2 ^ type_width t"
    using high [of "sval_int mx"] bd at fp by (simp add: sval_int_cast)
  have un: "\<not> sval_is_negative mn" "sval_unsigned mx" "sval_is_negative ?mx"
    using a0 d(4) has_typeD(2) [OF d(2)] mx bd
    by (auto simp: sval_is_negative_iff sval_unsigned_eq)
  show ?thesis
  proof (cases "type_hi t < sval_int mn")
    case True
    have mn: "sval_int ?mn = sval_int mn - 2 ^ type_width t"
      using high [of "sval_int mn"] True d(3) at fp by (simp add: sval_int_cast)
    have "add_range_t_wrap add t rl mn mx = add (add rl ?mn ?mx) ?mn ?mx"
      using un mn d(3) bd at fp
      by (simp add: add_range_t_wrap_def Let_def wrap_cast_again sval_is_negative_iff [of ?mn])
    moreover have "covers t rl (sval_int mn) (sval_int mx) (add rl ?mn ?mx)"
      using True high by (intro covers_cast [OF t(1) rl d(1,2)]) simp
    ultimately show ?thesis using covers_again [OF t(1) _ ty] by simp
  next
    case False
    let ?m = "sval_type_min t" and ?M = "sval_type_max t"
    let ?r = "add rl ?mn ?M"
    have m: "has_type t ?m" "sval_int ?m = type_lo t" "sval_cast t ?m = ?m"
      and M: "has_type t ?M" "sval_int ?M = type_hi t"
      using at by (auto simp: sval_type_max_ok sval_type_min_ok intro: has_type_cast_id)
    have mn: "sval_int ?mn = sval_int mn" using False a0 at fp by (simp add: sval_int_cast low)
    have eq: "add_range_t_wrap add t rl mn mx = add (add ?r ?m ?mx) ?m ?mx"
      using un mn a0 at fp m
      by (simp add: add_range_t_wrap_def Let_def wrap_cast_again sval_is_negative_iff [of ?mn])
    have r: "rl_ok t ?r" "rl_set ?r = rl_set rl \<union> {sval_int mn..type_hi t}"
      using add_ok [OF t(1) rl ty(1) M(1)] add_set [OF t(1) rl ty(1) M(1)] False mn M(2)
      by (auto simp: span_def)
    have "type_lo t \<le> sval_int ?mx" using has_typeD(5) [OF ty(2)] .
    then have q: "rl_ok t (add ?r ?m ?mx)"
      "rl_set (add ?r ?m ?mx) = rl_set ?r \<union> {type_lo t..sval_int mx - 2 ^ type_width t}"
      using add_ok [OF t(1) r(1) m(1) ty(2)] add_set [OF t(1) r(1) m(1) ty(2)] m(2) mx
      by (auto simp: span_def)
    have img: "wrap t x \<in> rl_set (add ?r ?m ?mx)" if "sval_int mn \<le> x" "x \<le> sval_int mx" for x
      using that a0 low [of x] high [of x] wrap_bounds [OF at, of x] q(2) r(2)
      by (cases "x \<le> type_hi t") auto
    have "rl_set rl \<subseteq> rl_set (add ?r ?m ?mx)" using q(2) r(2) by auto
    then have "covers t rl (sval_int mn) (sval_int mx) (add ?r ?m ?mx)"
      using q(1) img by (auto simp: covers_def)
    then show ?thesis using covers_again [OF t(1) _ m(1) ty(2)] eq by simp
  qed
qed

lemma add_range_t_covers:
  assumes t: "int_type_ok t" "type_bits t \<noteq> 1" and rl: "rl_ok t rl"
    and d: "has_type s mn" "has_type s mx" "sval_int mn \<le> sval_int mx"
    and ok: "\<not> cast_hazard s t (alloc_range mn mx)"
  shows "covers t rl (sval_int mn) (sval_int mx) (add_range_t add t rl mn mx)"
proof -
  let ?a = "sval_int mn" and ?b = "sval_int mx"
  have at: "arith_type t" using t(1) by (rule int_type_ok_arith)
  note mn = has_typeD [OF d(1)] and mx = has_typeD [OF d(2)]
  have fit: "sval_fits t v \<longleftrightarrow> type_lo t \<le> sval_int v \<and> sval_int v \<le> type_hi t" if "has_type s v" for v
    using sval_fits_iff [of v t] has_typeD [OF that] at by auto
  consider (eq) "?a = ?b"
    | (fits) "?a \<noteq> ?b" "sval_fits t mn \<and> sval_fits t mx"
    | (trunc) "?a \<noteq> ?b" "\<not> (sval_fits t mn \<and> sval_fits t mx)" "truncates_nicely t mn mx"
    | (big) "?a \<noteq> ?b" "\<not> (sval_fits t mn \<and> sval_fits t mx)" "\<not> truncates_nicely t mn mx"
      "sval_too_big t mn \<or> sval_too_big t mx"
    | (rest) "?a \<noteq> ?b" "\<not> (sval_fits t mn \<and> sval_fits t mx)" "\<not> truncates_nicely t mn mx"
      "\<not> (sval_too_big t mn \<or> sval_too_big t mx)"
    by blast
  then show ?thesis
  proof cases
    case eq
    then have "add_range_t add t rl mn mx = add rl (sval_cast t mn) (sval_cast t mx)"
      by (simp add: add_range_t_def has_type_cmp [OF d(1,2)])
    then show ?thesis using covers_cast [OF t(1) rl d(1,2)] eq by auto
  next
    case fits
    then have "add_range_t add t rl mn mx = add rl (sval_cast t mn) (sval_cast t mx)"
      by (simp add: add_range_t_def)
    then show ?thesis
      using covers_cast [OF t(1) rl d(1,2)] fits(2) at by (simp add: fit d wrap_id)
  next
    case trunc
    then have "add_range_t add t rl mn mx = add rl (sval_cast t mn) (sval_cast t mx)"
      by (simp add: add_range_t_def)
    moreover have "covers t rl ?a ?b (add rl (sval_cast t mn) (sval_cast t mx))"
      by (rule covers_cast [OF t(1) rl d(1,2)])
        (rule wrap_block [OF at t(2) truncates_nicely_div [OF d(1,2) at trunc(3)]])
    ultimately show ?thesis by (simp only:)
  next
    case big
    then have "add_range_t add t rl mn mx = add rl (sval_type_min t) (sval_type_max t)"
      by (simp only: add_range_t_def has_type_cmp [OF d(1,2)] cmp_int_simps if_True if_False simp_thms)
    then show ?thesis using covers_whole [OF t(1) rl] by simp
  next
    case rest
    have lo: "(if type_unsigned t then - (2 ^ type_width t) else type_lo t) \<le> ?a"
      and hi: "?b < 2 ^ type_width t"
      using not_too_big [OF d(1) at t(2)] not_too_big [OF d(2) at t(2)] rest(4) by auto
    show ?thesis
    proof (cases "type_unsigned t")
      case True
      then have "type_hi t = 2 ^ type_width t - 1" "type_lo t = 0"
        by (auto simp: type_hi_def type_lo_def)
      moreover from this have neg: "?a < 0" using rest(2) hi d(3) by (auto simp: fit d(1,2))
      ultimately have "add_range_t add t rl mn mx = add_range_t_wrap add t rl mn mx"
        using rest hi mx at
        by (auto simp: add_range_t_def has_type_cmp [OF d(1,2)] sval_too_high_iff)
      then show ?thesis
        using add_range_t_wrap_unsigned [OF t True rl d neg] lo hi True
          \<open>type_hi t = 2 ^ type_width t - 1\<close> by simp
    next
      case False
      then have b: "type_hi t < ?b" using rest(2) lo d(3) by (auto simp: fit d(1,2))
      have "type_unsigned s"
        using signed_not_truncated [OF d(1,2) at b hi _ d(3)] rest(3) ok False b hi at mn(3)
        by (cases "type_unsigned s") (auto simp: cast_hazard_def arith_type_signed)
      moreover have "add_range_t add t rl mn mx = add_range_t_wrap add t rl mn mx"
        using rest False by (auto simp: add_range_t_def has_type_cmp [OF d(1,2)])
      ultimately show ?thesis
        using add_range_t_wrap_signed [OF t False rl d _ b hi] by simp
    qed
  qed
qed

lemma add_range_t_fits:
  assumes t: "int_type_ok t" "rl_ok t rl" and d: "range_ok s d" "rset d \<subseteq> {type_lo t..type_hi t}"
  shows "rl_ok t (add_range_t add t rl (dr_min d) (dr_max d))"
    "rl_set (add_range_t add t rl (dr_min d) (dr_max d)) = rl_set rl \<union> rset d"
proof -
  have at: "arith_type t" using t(1) by (rule int_type_ok_arith)
  have le: "dlo d \<le> dhi d" and ty: "has_type s (dr_min d)" "has_type s (dr_max d)"
    using d(1) by (auto simp: range_ok_iff)
  have in_t: "type_lo t \<le> dlo d" "dhi d \<le> type_hi t" using d(2) le by (auto simp: rset_def)
  then have "sval_fits t (dr_min d)" "sval_fits t (dr_max d)"
    using le at has_typeD(1) [OF ty(1)] has_typeD(1) [OF ty(2)] by (auto simp: sval_fits_iff)
  then have eq: "add_range_t add t rl (dr_min d) (dr_max d) =
      add rl (sval_cast t (dr_min d)) (sval_cast t (dr_max d))"
    by (simp add: add_range_t_def)
  show "rl_ok t (add_range_t add t rl (dr_min d) (dr_max d))"
    "rl_set (add_range_t add t rl (dr_min d) (dr_max d)) = rl_set rl \<union> rset d"
    using add_cast [OF t ty] in_t le at by (auto simp: eq wrap_id rset_def)
qed

section \<open>A whole list\<close>

lemma fold_covers:
  assumes "int_type_ok t" "type_bits t \<noteq> 1" "rl_ok t acc"
    and "\<forall>d \<in> set rl. range_ok s d \<and> \<not> cast_hazard s t d"
    and res: "res = foldl (\<lambda>ret tmp. add_range_t add t ret (dr_min tmp) (dr_max tmp)) acc rl"
  shows "rl_ok t res \<and> rl_set acc \<union> wrap t ` rl_set rl \<subseteq> rl_set res"
  using assms(3-) unfolding res
proof (induction rl arbitrary: acc res)
  case (Cons d rl)
  let ?r = "add_range_t add t acc (dr_min d) (dr_max d)"
  have "covers t acc (dlo d) (dhi d) ?r"
    using Cons.prems add_range_t_covers [OF assms(1,2), of acc s "dr_min d" "dr_max d"]
    by (auto simp: range_ok_iff cast_hazard_def)
  then show ?case
    using Cons.IH [of ?r] Cons.prems unfolding covers_def rset_def [symmetric] by auto
qed simp

lemma fold_fits:
  assumes "int_type_ok t" "rl_ok t acc" "\<forall>d \<in> set rl. range_ok s d"
    "rl_set rl \<subseteq> {type_lo t..type_hi t}"
  shows "rl_ok t (foldl (\<lambda>ret tmp. add_range_t add t ret (dr_min tmp) (dr_max tmp)) acc rl)
    \<and> rl_set (foldl (\<lambda>ret tmp. add_range_t add t ret (dr_min tmp) (dr_max tmp)) acc rl)
      = rl_set acc \<union> rl_set rl"
  using assms
proof (induction rl arbitrary: acc)
  case (Cons d rl)
  then show ?case
    using Cons.IH [of "add_range_t add t acc (dr_min d) (dr_max d)"] add_range_t_fits [of t acc s d]
    by auto
qed simp

lemma cast_rl_with_fold:
  assumes "rl_ok s rl" "t \<noteq> s" "t \<noteq> Some bool_ctype" "t \<noteq> None"
    and "rl = [] \<or> foldl (\<lambda>ret tmp. add_range_t add t ret (dr_min tmp) (dr_max tmp)) [] rl \<noteq> []"
  shows "cast_rl_with add t rl =
    foldl (\<lambda>ret tmp. add_range_t add t ret (dr_min tmp) (dr_max tmp)) [] rl"
  using assms rl_ok_sane [OF assms(1)] rl_type_ok [OF assms(1)] by (auto simp: cast_rl_with_def)

lemma not_bool: "type_bits t \<noteq> 1 \<Longrightarrow> t \<noteq> Some bool_ctype"
  by auto

theorem cast_rl_with_sound:
  assumes "int_type_ok t" "type_bits t \<noteq> 1" "rl_ok s rl" "\<forall>d \<in> set rl. \<not> cast_hazard s t d"
  shows "rl_ok t (cast_rl_with add t rl) \<and> wrap t ` rl_set rl \<subseteq> rl_set (cast_rl_with add t rl)"
proof (cases "t = s \<or> rl = []")
  case True
  then show ?thesis
    using cast_rl_with_same [OF assms(3)] assms(3) wrap_id [OF int_type_ok_arith [OF assms(1)]]
    by (auto simp: cast_rl_with_def dest: rl_set_bounds)
next
  case False
  let ?res = "foldl (\<lambda>ret tmp. add_range_t add t ret (dr_min tmp) (dr_max tmp)) [] rl"
  have "rl_ok t ?res \<and> wrap t ` rl_set rl \<subseteq> rl_set ?res"
    using fold_covers [OF assms(1,2) rl_ok_Nil, of rl s ?res] assms(3,4) by (auto dest: rl_ok_range)
  moreover from this have "?res \<noteq> []"
    using False assms(3) rl_set_empty_iff [of s rl] by auto
  ultimately show ?thesis
    using cast_rl_with_fold [OF assms(3), of t] False not_bool [OF assms(2)]
      arith_type_not_None [OF int_type_ok_arith [OF assms(1)]] by auto
qed

theorem cast_rl_with_exact:
  assumes "int_type_ok t" "type_bits t \<noteq> 1" "rl_ok s rl" "rl_set rl \<subseteq> {type_lo t..type_hi t}"
  shows "rl_ok t (cast_rl_with add t rl) \<and> rl_set (cast_rl_with add t rl) = rl_set rl"
proof (cases "t = s \<or> rl = []")
  case True
  then show ?thesis using cast_rl_with_same [OF assms(3)] assms(3) by (auto simp: cast_rl_with_def)
next
  case False
  let ?res = "foldl (\<lambda>ret tmp. add_range_t add t ret (dr_min tmp) (dr_max tmp)) [] rl"
  have r: "rl_ok t ?res \<and> rl_set ?res = rl_set rl"
    using fold_fits [OF assms(1) rl_ok_Nil _ assms(4), of s] assms(3) by (simp add: rl_ok_def)
  then have "?res \<noteq> []" using False assms(3) rl_set_empty_iff [of s rl] by auto
  then show ?thesis
    using r cast_rl_with_fold [OF assms(3), of t] False not_bool [OF assms(2)]
      arith_type_not_None [OF int_type_ok_arith [OF assms(1)]] by auto
qed

end

section \<open>Conversion to bool\<close>

lemma svalue_0_iff: "svalue v = 0 \<longleftrightarrow> sval_int v = 0"
  by (simp add: sval_int_def)

lemma bool_has_one_iff: "rl_ok s rl \<Longrightarrow> bool_has_one rl \<longleftrightarrow> (\<exists>x \<in> rl_set rl. x \<noteq> 0)"
proof (induction rl)
  case (Cons d rl)
  have "dlo d \<le> dhi d" using Cons.prems by (simp add: rl_ok_Cons range_ok_def)
  then have "svalue (dr_min d) \<noteq> 0 \<or> svalue (dr_max d) \<noteq> 0 \<longleftrightarrow> (\<exists>x \<in> rset d. x \<noteq> 0)"
    unfolding svalue_0_iff rset_def by force
  then show ?case using Cons by (auto simp: bool_has_one_def rl_ok_Cons)
qed (simp add: bool_has_one_def)

lemma bool_has_zero_range:
  assumes "range_ok s d"
  shows "(\<not> (sval_is_negative (dr_min d) \<and> sval_is_negative (dr_max d))
      \<and> (svalue (dr_min d) = 0 \<or> svalue (dr_max d) = 0
         \<or> sval_is_negative (dr_min d) \<and> svalue (dr_max d) > 0)) \<longleftrightarrow> 0 \<in> rset d"
proof -
  have le: "dlo d \<le> dhi d" "sv_type (dr_min d) = sv_type (dr_max d)"
    using assms by (auto simp: range_ok_def)
  have "svalue (dr_max d) = dhi d" if "dlo d < 0"
    using that le(2) by (auto simp: sval_int_def split: if_splits)
  then show ?thesis unfolding svalue_0_iff sval_is_negative_iff using le(1) by (auto simp: rset_def)
qed

lemma bool_has_zero_iff:
  assumes "rl_ok s rl"
  shows "bool_has_zero rl \<longleftrightarrow> 0 \<in> rl_set rl"
proof -
  have "bool_has_zero rl \<longleftrightarrow> (\<exists>d \<in> set rl. 0 \<in> rset d)"
    unfolding bool_has_zero_def list_ex_iff
    by (rule bex_cong [OF refl], rule bool_has_zero_range, rule rl_ok_range [OF assms])
  then show ?thesis by (auto simp: rl_set_def)
qed

lemma wrap_bool: "wrap (Some bool_ctype) x = (if x = 0 then 0 else 1)"
  by (simp add: wrap_def)

lemma bool_sval:
  assumes "b = 0 \<or> b = (1 :: u64)"
  shows "has_type (Some bool_ctype) (mk_sval (Some bool_ctype) b)"
    "sval_int (mk_sval (Some bool_ctype) b) = uint b"
  using assms by (auto simp: has_type_def sval_ok_def mk_sval_def sval_int_def type_lo_def type_hi_def
      type_width_def)

context range_adder
begin

theorem cast_rl_with_bool:
  assumes "rl_ok s rl"
  shows "rl_ok (Some bool_ctype) (cast_rl_with add (Some bool_ctype) rl)
    \<and> rl_set (cast_rl_with add (Some bool_ctype) rl) = wrap (Some bool_ctype) ` rl_set rl"
proof (cases "Some bool_ctype = s \<or> rl = []")
  case True
  then have "wrap (Some bool_ctype) x = x" if "x \<in> rl_set rl" for x
    using that rl_set_bounds [OF assms, of x] by (auto intro!: wrap_id)
  then have "wrap (Some bool_ctype) ` rl_set rl = rl_set rl" by force
  moreover have ok: "rl_ok (Some bool_ctype) rl" using True assms by auto
  ultimately show ?thesis by (simp add: cast_rl_with_same [OF ok])
next
  case False
  let ?lo = "mk_sval (Some bool_ctype) (if bool_has_zero rl then 0 else 1)"
  let ?hi = "mk_sval (Some bool_ctype) (if bool_has_one rl then 1 else 0)"
  have eq: "cast_rl_with add (Some bool_ctype) rl = add [] ?lo ?hi"
    using False rl_ok_sane [OF assms] rl_type_ok [OF assms]
    by (auto simp: cast_rl_with_def cast_to_bool_def)
  have lo: "has_type (Some bool_ctype) ?lo" "sval_int ?lo = (if bool_has_zero rl then 0 else 1)"
    and hi: "has_type (Some bool_ctype) ?hi" "sval_int ?hi = (if bool_has_one rl then 1 else 0)"
    using bool_sval [of "if bool_has_zero rl then 0 else 1"] bool_sval [of "if bool_has_one rl then 1 else 0"]
    by auto
  obtain x where "x \<in> rl_set rl" using False rl_set_empty_iff [OF assms] by auto
  then have "{if bool_has_zero rl then 0 else 1..if bool_has_one rl then 1 else 0} =
      wrap (Some bool_ctype) ` rl_set rl"
    "(if bool_has_zero rl then 0 else 1) \<le> (if bool_has_one rl then 1 else (0::int))"
    unfolding bool_has_zero_iff [OF assms] bool_has_one_iff [OF assms] wrap_bool
    by (auto simp: image_iff) metis
  then show ?thesis
    unfolding eq using add_ok [OF _ rl_ok_Nil lo(1) hi(1)] add_set [OF _ rl_ok_Nil lo(1) hi(1)]
    by (simp add: span_def lo(2) hi(2))
qed

end

text \<open>The contract on \<^verbatim>\<open>cast_rl\<close> itself.\<close>

lemma cast_rl_sound:
  assumes "int_type_ok t" "type_bits t \<noteq> 1" "rl_ok s rl" "\<forall>d \<in> set rl. \<not> cast_hazard s t d"
  shows "rl_ok t (cast_rl prj t rl)" "wrap t ` rl_set rl \<subseteq> rl_set (cast_rl prj t rl)"
  using ar.cast_rl_with_sound [OF assms, of prj] by (simp_all add: cast_rl_def)

lemma cast_rl_exact:
  assumes "int_type_ok t" "type_bits t \<noteq> 1" "rl_ok s rl" "rl_set rl \<subseteq> {type_lo t..type_hi t}"
  shows "rl_ok t (cast_rl prj t rl)" "rl_set (cast_rl prj t rl) = rl_set rl"
  using ar.cast_rl_with_exact [OF assms, of prj] by (simp_all add: cast_rl_def)

lemma cast_rl_bool:
  assumes "rl_ok s rl"
  shows "rl_ok (Some bool_ctype) (cast_rl prj (Some bool_ctype) rl)"
    "rl_set (cast_rl prj (Some bool_ctype) rl) = wrap (Some bool_ctype) ` rl_set rl"
  using ar.cast_rl_with_bool [OF assms, of prj] by (simp_all add: cast_rl_def)

end
