(* ===== verification/Comparison.thy ===== *)
theory Comparison
  imports Ranges "HOL-Library.Sublist"
begin

text \<open>
  The algebra of comparison codes of \<^verbatim>\<open>src/smatch_comparison.c\<close>: how a comparison between two
  variables is flipped, negated, merged at a join, chained, intersected with another one,
  read off two range lists, and updated when one of the variables is incremented or
  decremented.
\<close>

section \<open>Operators\<close>

text \<open>
  The \<^verbatim>\<open>default\<close> branches of \<^verbatim>\<open>flip_comparison\<close> and \<^verbatim>\<open>negate_comparison\<close> print an error and
  return the operator unchanged.
\<close>

fun flip_comparison :: "opcode \<Rightarrow> opcode" where
  "flip_comparison op =
     (if op = UNKNOWN_COMPARISON then UNKNOWN_COMPARISON
      else if op = Ch CHR ''<'' then Ch CHR ''>''
      else if op = SPECIAL_UNSIGNED_LT then SPECIAL_UNSIGNED_GT
      else if op = SPECIAL_LTE then SPECIAL_GTE
      else if op = SPECIAL_UNSIGNED_LTE then SPECIAL_UNSIGNED_GTE
      else if op = SPECIAL_EQUAL then SPECIAL_EQUAL
      else if op = SPECIAL_NOTEQUAL then SPECIAL_NOTEQUAL
      else if op = SPECIAL_GTE then SPECIAL_LTE
      else if op = SPECIAL_UNSIGNED_GTE then SPECIAL_UNSIGNED_LTE
      else if op = Ch CHR ''>'' then Ch CHR ''<''
      else if op = SPECIAL_UNSIGNED_GT then SPECIAL_UNSIGNED_LT
      else if op = IMPOSSIBLE_COMPARISON then UNKNOWN_COMPARISON
      else op)"

fun negate_comparison :: "opcode \<Rightarrow> opcode" where
  "negate_comparison op =
     (if op = UNKNOWN_COMPARISON then UNKNOWN_COMPARISON
      else if op = Ch CHR ''<'' then SPECIAL_GTE
      else if op = SPECIAL_UNSIGNED_LT then SPECIAL_UNSIGNED_GTE
      else if op = SPECIAL_LTE then Ch CHR ''>''
      else if op = SPECIAL_UNSIGNED_LTE then SPECIAL_UNSIGNED_GT
      else if op = SPECIAL_EQUAL then SPECIAL_NOTEQUAL
      else if op = SPECIAL_NOTEQUAL then SPECIAL_EQUAL
      else if op = SPECIAL_GTE then Ch CHR ''<''
      else if op = SPECIAL_UNSIGNED_GTE then SPECIAL_UNSIGNED_LT
      else if op = Ch CHR ''>'' then SPECIAL_LTE
      else if op = SPECIAL_UNSIGNED_GT then SPECIAL_UNSIGNED_LTE
      else if op = IMPOSSIBLE_COMPARISON then UNKNOWN_COMPARISON
      else op)"

fun remove_unsigned_from_comparison :: "opcode \<Rightarrow> opcode" where
  "remove_unsigned_from_comparison SPECIAL_UNSIGNED_LT = Ch CHR ''<''"
| "remove_unsigned_from_comparison SPECIAL_UNSIGNED_LTE = SPECIAL_LTE"
| "remove_unsigned_from_comparison SPECIAL_UNSIGNED_GTE = SPECIAL_GTE"
| "remove_unsigned_from_comparison SPECIAL_UNSIGNED_GT = Ch CHR ''>''"
| "remove_unsigned_from_comparison op = op"

text \<open>
  The contribution of one operand to the counters \<^verbatim>\<open>LT\<close>, \<^verbatim>\<open>EQ\<close>, \<^verbatim>\<open>GT\<close>: the switch statement
  that \<^verbatim>\<open>merge_comparisons\<close> and \<^verbatim>\<open>combine_comparisons\<close> apply to each side. A code with no
  case, \<^verbatim>\<open>SPECIAL_NOTEQUAL\<close> among them, contributes nothing.
\<close>

definition lt_eq_gt :: "opcode \<Rightarrow> nat \<times> nat \<times> nat" where
  "lt_eq_gt op =
     (if op = Ch CHR ''<'' then (1, 0, 0)
      else if op = SPECIAL_LTE then (1, 1, 0)
      else if op = SPECIAL_EQUAL then (0, 1, 0)
      else if op = SPECIAL_GTE then (0, 1, 1)
      else if op = Ch CHR ''>'' then (0, 0, 1)
      else (0, 0, 0))"

definition merge_comparisons :: "opcode \<Rightarrow> opcode \<Rightarrow> opcode" where
  "merge_comparisons one two =
     (if one = UNKNOWN_COMPARISON \<or> two = UNKNOWN_COMPARISON then UNKNOWN_COMPARISON
      else if one = IMPOSSIBLE_COMPARISON then two
      else if two = IMPOSSIBLE_COMPARISON then one
      else
        (let one = remove_unsigned_from_comparison one;
             two = remove_unsigned_from_comparison two
         in if one = two then one
            else
              (let (LT1, EQ1, GT1) = lt_eq_gt one; (LT2, EQ2, GT2) = lt_eq_gt two;
                   LT = LT1 + LT2 > 0; EQ = EQ1 + EQ2 > 0; GT = GT1 + GT2 > 0
               in if LT \<and> EQ \<and> GT then UNKNOWN_COMPARISON
                  else if LT \<and> EQ then SPECIAL_LTE
                  else if LT \<and> GT then SPECIAL_NOTEQUAL
                  else if LT then Ch CHR ''<''
                  else if EQ \<and> GT then SPECIAL_GTE
                  else if GT then Ch CHR ''>''
                  else UNKNOWN_COMPARISON)))"

definition combine_comparisons :: "opcode \<Rightarrow> opcode \<Rightarrow> opcode" where
  "combine_comparisons left_compare right_compare =
     (let left_compare = remove_unsigned_from_comparison left_compare;
          right_compare = remove_unsigned_from_comparison right_compare
      in if left_compare = SPECIAL_EQUAL then right_compare
         else if right_compare = SPECIAL_EQUAL then left_compare
         else
           (let (LT1, EQ1, GT1) = lt_eq_gt left_compare;
                (LT2, EQ2, GT2) = lt_eq_gt right_compare;
                LT = LT1 + LT2; EQ = EQ1 + EQ2; GT = GT1 + GT2
            in if LT = 2 then (if EQ = 2 then SPECIAL_LTE else Ch CHR ''<'')
               else if GT = 2 then (if EQ = 2 then SPECIAL_GTE else Ch CHR ''>'')
               else UNKNOWN_COMPARISON))"

text \<open>
  The counters \<^verbatim>\<open>LT\<close>, \<^verbatim>\<open>EQ\<close>, \<^verbatim>\<open>GT\<close>, \<^verbatim>\<open>NE\<close> and \<^verbatim>\<open>total\<close> of \<^verbatim>\<open>comparison_intersection\<close>; \<open>None\<close> is the
  early return of the \<^verbatim>\<open>default\<close> case.
\<close>

definition lt_eq_gt_ne :: "opcode \<Rightarrow> (nat \<times> nat \<times> nat \<times> nat \<times> nat) option" where
  "lt_eq_gt_ne op =
     (if op = Ch CHR ''<'' then Some (1, 0, 0, 0, 1)
      else if op = SPECIAL_LTE then Some (1, 1, 0, 0, 2)
      else if op = SPECIAL_EQUAL then Some (0, 1, 0, 0, 1)
      else if op = SPECIAL_NOTEQUAL then Some (0, 0, 0, 1, 1)
      else if op = SPECIAL_GTE then Some (0, 1, 1, 0, 2)
      else if op = Ch CHR ''>'' then Some (0, 0, 1, 0, 1)
      else None)"

definition comparison_intersection :: "opcode \<Rightarrow> opcode \<Rightarrow> opcode" where
  "comparison_intersection left_compare right_compare =
     (if left_compare = IMPOSSIBLE_COMPARISON \<or> right_compare = IMPOSSIBLE_COMPARISON
      then IMPOSSIBLE_COMPARISON
      else
        (let left_compare = remove_unsigned_from_comparison left_compare;
             right_compare = remove_unsigned_from_comparison right_compare
         in if left_compare = UNKNOWN_COMPARISON then right_compare
            else if right_compare = UNKNOWN_COMPARISON then left_compare
            else
              (case (lt_eq_gt_ne left_compare, lt_eq_gt_ne right_compare) of
                 (Some (LT1, EQ1, GT1, NE1, total1), Some (LT2, EQ2, GT2, NE2, total2)) \<Rightarrow>
                   (let LT = LT1 + LT2; EQ = EQ1 + EQ2; GT = GT1 + GT2; NE = NE1 + NE2;
                        total = total1 + total2
                    in if LT = 2 then (if EQ = 2 then SPECIAL_LTE else Ch CHR ''<'')
                       else if GT = 2 then (if EQ = 2 then SPECIAL_GTE else Ch CHR ''>'')
                       else if EQ = 2 then SPECIAL_EQUAL
                       else if total = 2 \<and> EQ > 0 \<and> NE > 0 then IMPOSSIBLE_COMPARISON
                       else if GT > 0 \<and> LT > 0 then IMPOSSIBLE_COMPARISON
                       else if GT > 0 \<and> NE > 0 then Ch CHR ''>''
                       else if LT > 0 \<and> NE > 0 then Ch CHR ''<''
                       else if NE = 2 then SPECIAL_NOTEQUAL
                       else if total = 2 \<and> (LT > 0 \<or> GT > 0) \<and> EQ > 0 then IMPOSSIBLE_COMPARISON
                       else UNKNOWN_COMPARISON)
               | _ \<Rightarrow> UNKNOWN_COMPARISON)))"

section \<open>Comparison read off two range lists\<close>

definition get_comparison_rl :: "project_type \<Rightarrow> range_list \<Rightarrow> range_list \<Rightarrow> opcode" where
  "get_comparison_rl prj left_rl right_rl =
     (if left_rl = [] \<or> right_rl = [] then UNKNOWN_COMPARISON
      else
        (let t = Some int_ctype;
             t = (if type_positive_bits (rl_type left_rl) > type_positive_bits t
                  then rl_type left_rl else t);
             t = (if type_positive_bits (rl_type right_rl) > type_positive_bits t
                  then rl_type right_rl else t);
             left_rl = cast_rl prj t left_rl; right_rl = cast_rl prj t right_rl;
             left_min = rl_min left_rl; left_max = rl_max left_rl;
             right_min = rl_min right_rl; right_max = rl_max right_rl
         in if sv_val left_min = sv_val left_max \<and> sv_val right_min = sv_val right_max
               \<and> sv_val left_min = sv_val right_min then SPECIAL_EQUAL
            else if sval_cmp left_max right_min < 0 then Ch CHR ''<''
            else if sval_cmp left_max right_min = 0 then SPECIAL_LTE
            else if sval_cmp left_min right_max > 0 then Ch CHR ''>''
            else if sval_cmp left_min right_max = 0 then SPECIAL_GTE
            else UNKNOWN_COMPARISON))"

section \<open>Comparison states\<close>

text \<open>
  \<^verbatim>\<open>struct compare_data\<close>. An expression pointer is an optional identity; a list of variables
  and symbols is the list of the variables' names. The state's printed name, which
  \<^verbatim>\<open>alloc_compare_state\<close> derives from the operator, is left out.
\<close>

record compare_data =
  left_expr :: "nat option"
  left_var :: string
  left_vsl :: "string list"
  comparison :: opcode
  right_expr :: "nat option"
  right_var :: string
  right_vsl :: "string list"

text \<open>
  The states of the owner \<^verbatim>\<open>comparison_id\<close>, by the name of the link; \<open>Some None\<close> is a state
  without data, such as \<^verbatim>\<open>&undefined\<close>.
\<close>

type_synonym compare_states = "string \<rightharpoonup> compare_data option"

definition state_to_comparison :: "compare_data option option \<Rightarrow> opcode" where
  "state_to_comparison state =
     (case state of Some (Some d) \<Rightarrow> comparison d | _ \<Rightarrow> UNKNOWN_COMPARISON)"

definition merge_compare_states ::
  "compare_data option \<Rightarrow> compare_data option \<Rightarrow> compare_data option" where
  "merge_compare_states s1 s2 =
     map_option (\<lambda>d. d\<lparr>comparison := merge_comparisons (state_to_comparison (Some s1))
                                         (state_to_comparison (Some s2))\<rparr>) s1"

definition eq_or_greater :: "opcode \<Rightarrow> bool" where
  "eq_or_greater op \<longleftrightarrow>
     op = SPECIAL_EQUAL \<or> op = SPECIAL_GTE \<or> op = SPECIAL_UNSIGNED_GTE \<or> op = Ch CHR ''>''
     \<or> op = SPECIAL_UNSIGNED_GT"

text \<open>
  The operator that \<^verbatim>\<open>match_inc\<close> stores for a link; \<^verbatim>\<open>preserve\<close> tells that the amount added may
  be zero.
\<close>

definition inc_op :: "bool \<Rightarrow> bool \<Rightarrow> opcode \<Rightarrow> opcode" where
  "inc_op preserve flip op =
     (let o' = (if flip then flip_comparison op else op)
      in if eq_or_greater o' then
           (if preserve then op else if flip then Ch CHR ''<'' else Ch CHR ''>'')
         else if o' = Ch CHR ''<'' \<or> o' = SPECIAL_UNSIGNED_LT then
           (if flip then SPECIAL_GTE else SPECIAL_LTE)
         else UNKNOWN_COMPARISON)"

text \<open>\<^verbatim>\<open>strncmp(sm->name, tmp, strlen(sm->name)) != 0 || tmp[strlen(sm->name)] != ' '\<close>\<close>

definition link_flipped :: "string \<Rightarrow> string \<Rightarrow> bool" where
  "link_flipped nm link = (\<not> prefix (nm @ '' '') link)"

fun match_inc :: "string \<Rightarrow> bool \<Rightarrow> string list \<Rightarrow> compare_states \<Rightarrow> compare_states" where
  "match_inc nm preserve [] st = st"
| "match_inc nm preserve (tmp # links) st =
     (case st tmp of
        Some (Some d) \<Rightarrow>
          match_inc nm preserve links
            (st(tmp \<mapsto> Some (d\<lparr>comparison := inc_op preserve (link_flipped nm tmp) (comparison d)\<rparr>)))
      | _ \<Rightarrow> match_inc nm preserve links st)"

definition eq_or_less :: "opcode \<Rightarrow> bool" where
  "eq_or_less op \<longleftrightarrow>
     op = SPECIAL_EQUAL \<or> op = SPECIAL_LTE \<or> op = SPECIAL_UNSIGNED_LTE \<or> op = Ch CHR ''<''
     \<or> op = SPECIAL_UNSIGNED_LT"

text \<open>The operator that \<^verbatim>\<open>match_dec\<close> stores: which side of the link was decremented is not asked.\<close>

definition dec_op :: "bool \<Rightarrow> opcode \<Rightarrow> opcode" where
  "dec_op preserve op =
     (if eq_or_less op then (if preserve then op else Ch CHR ''<'') else UNKNOWN_COMPARISON)"

fun match_dec :: "string \<Rightarrow> bool \<Rightarrow> string list \<Rightarrow> compare_states \<Rightarrow> compare_states" where
  "match_dec nm preserve [] st = st"
| "match_dec nm preserve (tmp # links) st =
     (case st tmp of
        Some (Some d) \<Rightarrow>
          match_dec nm preserve links
            (st(tmp \<mapsto> Some (d\<lparr>comparison := dec_op preserve (comparison d)\<rparr>)))
      | _ \<Rightarrow> match_dec nm preserve links st)"

text \<open>
  \<^verbatim>\<open>reset_sm\<close> forgets every comparison of a variable; the second result is the variable's own
  link state, \<^verbatim>\<open>&undefined\<close>, which has no links.
\<close>

fun reset_sm :: "string list \<Rightarrow> compare_states \<Rightarrow> compare_states" where
  "reset_sm [] st = st"
| "reset_sm (tmp # links) st =
     (case st tmp of
        Some (Some d) \<Rightarrow> reset_sm links (st(tmp \<mapsto> Some (d\<lparr>comparison := UNKNOWN_COMPARISON\<rparr>)))
      | _ \<Rightarrow> reset_sm links (st(tmp \<mapsto> None)))"

section \<open>Meaning of a comparison\<close>

definition cmp_op :: "opcode \<Rightarrow> bool" where
  "cmp_op op \<longleftrightarrow>
     op \<in> {Ch CHR ''<'', SPECIAL_UNSIGNED_LT, SPECIAL_LTE, SPECIAL_UNSIGNED_LTE, SPECIAL_EQUAL,
           SPECIAL_NOTEQUAL, SPECIAL_GTE, SPECIAL_UNSIGNED_GTE, Ch CHR ''>'', SPECIAL_UNSIGNED_GT}"

text \<open>Nothing is known under \<^verbatim>\<open>UNKNOWN_COMPARISON\<close>; \<^verbatim>\<open>IMPOSSIBLE_COMPARISON\<close> never holds.\<close>

definition cmp_holds :: "opcode \<Rightarrow> int \<Rightarrow> int \<Rightarrow> bool" where
  "cmp_holds op x y \<longleftrightarrow>
     (if op = Ch CHR ''<'' \<or> op = SPECIAL_UNSIGNED_LT then x < y
      else if op = SPECIAL_LTE \<or> op = SPECIAL_UNSIGNED_LTE then x \<le> y
      else if op = SPECIAL_EQUAL then x = y
      else if op = SPECIAL_NOTEQUAL then x \<noteq> y
      else if op = SPECIAL_GTE \<or> op = SPECIAL_UNSIGNED_GTE then x \<ge> y
      else if op = Ch CHR ''>'' \<or> op = SPECIAL_UNSIGNED_GT then x > y
      else op = UNKNOWN_COMPARISON)"

lemma cmp_op_cases [consumes 1, case_names lt ult lte ulte eq ne gte ugte gt ugt]:
  assumes "cmp_op op"
  obtains "op = Ch CHR ''<''" | "op = SPECIAL_UNSIGNED_LT" | "op = SPECIAL_LTE"
  | "op = SPECIAL_UNSIGNED_LTE" | "op = SPECIAL_EQUAL" | "op = SPECIAL_NOTEQUAL"
  | "op = SPECIAL_GTE" | "op = SPECIAL_UNSIGNED_GTE" | "op = Ch CHR ''>''" | "op = SPECIAL_UNSIGNED_GT"
  using assms unfolding cmp_op_def by blast

lemma negate_comparison_cmp:
  assumes "cmp_op op"
  shows "cmp_op (negate_comparison op)"
    "cmp_holds (negate_comparison op) x y \<longleftrightarrow> \<not> cmp_holds op x y"
    "negate_comparison (negate_comparison op) = op"
  using assms by (cases rule: cmp_op_cases; auto simp: cmp_op_def cmp_holds_def)+

lemma flip_comparison_cmp:
  assumes "cmp_op op"
  shows "cmp_op (flip_comparison op)" "cmp_holds (flip_comparison op) y x \<longleftrightarrow> cmp_holds op x y"
    "flip_comparison (flip_comparison op) = op"
  using assms by (cases rule: cmp_op_cases; auto simp: cmp_op_def cmp_holds_def)+

lemma remove_unsigned_cmp: "cmp_holds (remove_unsigned_from_comparison op) x y = cmp_holds op x y"
  by (cases op rule: remove_unsigned_from_comparison.cases) (auto simp: cmp_holds_def)

section \<open>Merging, chaining and intersecting\<close>

text \<open>The codes a comparison state can hold.\<close>

definition cmp_code :: "opcode \<Rightarrow> bool" where
  "cmp_code op \<longleftrightarrow> cmp_op op \<or> op = UNKNOWN_COMPARISON \<or> op = IMPOSSIBLE_COMPARISON"

lemma cmp_code_cases [consumes 1, case_names lt ult lte ulte eq ne gte ugte gt ugt unknown impossible]:
  assumes "cmp_code op"
  obtains "op = Ch CHR ''<''" | "op = SPECIAL_UNSIGNED_LT" | "op = SPECIAL_LTE"
  | "op = SPECIAL_UNSIGNED_LTE" | "op = SPECIAL_EQUAL" | "op = SPECIAL_NOTEQUAL"
  | "op = SPECIAL_GTE" | "op = SPECIAL_UNSIGNED_GTE" | "op = Ch CHR ''>''" | "op = SPECIAL_UNSIGNED_GT"
  | "op = UNKNOWN_COMPARISON" | "op = IMPOSSIBLE_COMPARISON"
  using assms unfolding cmp_code_def cmp_op_def by blast

lemma merge_comparisons_sound:
  assumes "cmp_code one" "cmp_code two" "one \<noteq> SPECIAL_NOTEQUAL \<or> two = SPECIAL_NOTEQUAL"
    "two \<noteq> SPECIAL_NOTEQUAL \<or> one = SPECIAL_NOTEQUAL" "cmp_holds one x y \<or> cmp_holds two x y"
  shows "cmp_holds (merge_comparisons one two) x y"
  using assms(1) assms(3-5)
  by (cases rule: cmp_code_cases; use assms(2) in \<open>cases rule: cmp_code_cases\<close>;
      simp add: merge_comparisons_def lt_eq_gt_def cmp_holds_def; linarith?)

lemma combine_comparisons_sound:
  assumes "cmp_code left" "cmp_code right" "cmp_holds left a b" "cmp_holds right b c"
  shows "cmp_holds (combine_comparisons left right) a c"
  using assms(1) assms(3,4)
  by (cases rule: cmp_code_cases; use assms(2) in \<open>cases rule: cmp_code_cases\<close>;
      simp add: combine_comparisons_def lt_eq_gt_def cmp_holds_def)

lemma comparison_intersection_exact:
  assumes "cmp_code one" "cmp_code two"
  shows "cmp_holds (comparison_intersection one two) x y \<longleftrightarrow> cmp_holds one x y \<and> cmp_holds two x y"
  using assms(1)
  by (cases rule: cmp_code_cases; use assms(2) in \<open>cases rule: cmp_code_cases\<close>;
      simp add: comparison_intersection_def lt_eq_gt_ne_def cmp_holds_def; linarith?)

lemma comparison_codes_closed:
  assumes "cmp_code one" "cmp_code two"
  shows "cmp_code (merge_comparisons one two)" "cmp_code (combine_comparisons one two)"
    "cmp_code (comparison_intersection one two)"
  using assms(1)
  by (cases rule: cmp_code_cases; use assms(2) in \<open>cases rule: cmp_code_cases\<close>;
      simp add: merge_comparisons_def combine_comparisons_def comparison_intersection_def
        lt_eq_gt_def lt_eq_gt_ne_def cmp_code_def cmp_op_def)+

section \<open>Incrementing and decrementing\<close>

lemma inc_op_left:
  assumes "cmp_code op" "cmp_holds op x y"
  shows "cmp_holds (inc_op False False op) (x + 1) y"
  using assms
  by (cases rule: cmp_code_cases) (auto simp: inc_op_def eq_or_greater_def cmp_holds_def)

lemma inc_op_right:
  assumes "cmp_code op" "cmp_holds op x y"
  shows "cmp_holds (inc_op False True op) x (y + 1)"
  using assms
  by (cases rule: cmp_code_cases) (auto simp: inc_op_def eq_or_greater_def cmp_holds_def)

lemma dec_op_left:
  assumes "cmp_code op" "cmp_holds op x y" "0 < k"
  shows "cmp_holds (dec_op False op) (x - k) y"
  using assms by (cases rule: cmp_code_cases) (auto simp: dec_op_def eq_or_less_def cmp_holds_def)

lemma match_inc_other:
  "link \<notin> set links \<Longrightarrow> match_inc nm preserve links st link = st link"
  by (induction nm preserve links st rule: match_inc.induct) (auto split: option.splits)

lemma match_dec_other:
  "link \<notin> set links \<Longrightarrow> match_dec nm preserve links st link = st link"
  by (induction nm preserve links st rule: match_dec.induct) (auto split: option.splits)

lemma match_inc_link:
  assumes "distinct links" "link \<in> set links" "st link = Some (Some d)"
  shows "match_inc nm preserve links st link =
    Some (Some (d\<lparr>comparison := inc_op preserve (link_flipped nm link) (comparison d)\<rparr>))"
  using assms
proof (induction links arbitrary: st)
  case (Cons tmp links)
  then show ?case by (cases "tmp = link") (auto split: option.splits simp: match_inc_other)
qed simp

lemma match_dec_link:
  assumes "distinct links" "link \<in> set links" "st link = Some (Some d)"
  shows "match_dec nm preserve links st link =
    Some (Some (d\<lparr>comparison := dec_op preserve (comparison d)\<rparr>))"
  using assms
proof (induction links arbitrary: st)
  case (Cons tmp links)
  then show ?case by (cases "tmp = link") (auto split: option.splits simp: match_dec_other)
qed simp

lemma state_to_comparison_simps [simp]:
  "state_to_comparison None = UNKNOWN_COMPARISON"
  "state_to_comparison (Some None) = UNKNOWN_COMPARISON"
  "state_to_comparison (Some (Some d)) = comparison d"
  by (simp_all add: state_to_comparison_def)

lemma reset_sm_keep:
  "state_to_comparison (st link) = UNKNOWN_COMPARISON \<Longrightarrow>
    state_to_comparison (reset_sm links st link) = UNKNOWN_COMPARISON"
  by (induction links st rule: reset_sm.induct) (simp split: option.split)+

lemma reset_sm_link:
  "link \<in> set links \<Longrightarrow> state_to_comparison (reset_sm links st link) = UNKNOWN_COMPARISON"
proof (induction links arbitrary: st)
  case (Cons tmp links)
  show ?case
  proof (cases "link = tmp")
    case True
    then show ?thesis by (auto split: option.split intro!: reset_sm_keep)
  next
    case False
    then show ?thesis using Cons by (auto split: option.split)
  qed
qed simp

end
