(* ===== verification/Range_Cmp.thy ===== *)
theory Range_Cmp
  imports Range_Cast Comparison
begin

text \<open>
  Comparisons of range lists: membership, equality, the tests whether a comparison can be true
  or false for some pair of values, and the narrowing of both sides by a comparison.
\<close>

unbundle bit_operations_syntax

section \<open>Membership and equality\<close>

lemma rl_has_sval_iff:
  assumes "rl_ok t rl" "has_type t v"
  shows "rl_has_sval rl v \<longleftrightarrow> sval_int v \<in> rl_set rl"
proof -
  have "sval_cmp (dr_min d) v \<le> 0 \<and> sval_cmp (dr_max d) v \<ge> 0 \<longleftrightarrow> sval_int v \<in> rset d"
    if "d \<in> set rl" for d
    using range_ok_has_type [OF rl_ok_range [OF assms(1) that]] assms(2)
    by (simp add: has_type_cmp rset_def)
  then show ?thesis by (auto simp: rl_has_sval_def list_ex_iff rl_set_def)
qed

lemma rl_set_Cons_ok:
  assumes "rl_ok t (d # rl)"
  shows "rset d \<noteq> {}" "x \<in> rset d \<longleftrightarrow> dlo d \<le> x \<and> x \<le> dhi d" "dlo d \<in> rset d" "dhi d \<in> rset d"
  using assms by (auto simp: rl_ok_Cons rset_def dest: range_okD)

text \<open>The invariant makes the representation unique.\<close>

lemma rl_ok_unique:
  assumes "rl_ok t a" "rl_ok t b" "rl_set a = rl_set b"
  shows "a = b"
  using assms
proof (induction a arbitrary: b)
  case Nil
  then show ?case using rl_set_empty_iff [of t b] by auto
next
  case (Cons d a)
  then obtain e b' where b: "b = e # b'" using rl_set_empty_iff [of t "d # a"] by (cases b) auto
  have d: "range_ok t d" "rl_ok t a" "\<forall>x \<in> rl_set a. dhi d + 1 < x"
    and e: "range_ok t e" "rl_ok t b'" "\<forall>x \<in> rl_set b'. dhi e + 1 < x"
    using Cons.prems by (auto simp: b rl_ok_Cons)
  have iff: "x \<in> rset d \<union> rl_set a \<longleftrightarrow> x \<in> rset e \<union> rl_set b'" for x
    using Cons.prems(3) by (simp add: b)
  have le: "dlo d \<le> dhi d" "dlo e \<le> dhi e" using d(1) e(1) range_okD(6) by auto
  have lo: "dlo d = dlo e"
    using iff [of "dlo d"] iff [of "dlo e"] d(3) e(3) le by (fastforce simp: rset_def)
  have hi: "dhi d = dhi e"
  proof (rule antisym)
    show "dhi d \<le> dhi e"
      using iff [of "dhi e + 1"] e(3) d(3) lo le by (fastforce simp: rset_def)
    show "dhi e \<le> dhi d"
      using iff [of "dhi d + 1"] e(3) d(3) lo le by (fastforce simp: rset_def)
  qed
  have "rset d = rset e" by (simp add: rset_def lo hi)
  moreover have "rset d \<inter> rl_set a = {}" "rset d \<inter> rl_set b' = {}"
    using d(3) e(3) hi by (fastforce simp: rset_def)+
  ultimately have "rl_set a = rl_set b'" using iff by blast
  moreover have "d = e"
    using d(1) e(1) lo hi by (intro data_range.equality) (auto intro!: sval_ok_eqI simp: range_ok_def)
  ultimately show ?case using Cons.IH [OF d(2) e(2)] b by simp
qed

lemma ranges_equiv_iff:
  "range_ok t a \<Longrightarrow> range_ok t b \<Longrightarrow> ranges_equiv (Some a) (Some b) \<longleftrightarrow> a = b"
  by (auto simp: ranges_equiv_def range_ok_iff has_type_cmp intro!: data_range.equality sval_ok_eqI)
    (auto simp: has_type_def)

lemma rl_equiv_loop_iff: "rl_ok t a \<Longrightarrow> rl_ok t b \<Longrightarrow> rl_equiv_loop a b \<longleftrightarrow> a = b"
  by (induction a b rule: rl_equiv_loop.induct)
    (auto simp: rl_ok_Cons ranges_equiv_iff, auto simp: ranges_equiv_def)

lemma rl_equiv_iff:
  assumes "rl_ok t a" "rl_ok t b"
  shows "rl_equiv prj a b \<longleftrightarrow> rl_set a = rl_set b"
  using assms rl_ok_unique [OF assms] rl_equiv_loop_iff [OF assms]
    rl_type_ok [OF assms(1)] rl_type_ok [OF assms(2)] rl_set_empty_iff [OF assms(1)]
    rl_set_empty_iff [OF assms(2)]
  by (auto simp: rl_equiv_def)

section \<open>Comparison of two ranges\<close>

lemma true_comparison_range_iff:
  assumes "range_ok t l" "range_ok t r" "cmp_op op"
  shows "true_comparison_range l op r \<longleftrightarrow> (\<exists>x \<in> rset l. \<exists>y \<in> rset r. cmp_holds op x y)"
proof -
  note tl = range_ok_has_type [OF assms(1)] and tr = range_ok_has_type [OF assms(2)]
  have le: "dlo l \<le> dhi l" "dlo r \<le> dhi r" using range_okD(6) assms(1,2) by auto
  have ends: "dlo l \<in> rset l" "dhi l \<in> rset l" "dlo r \<in> rset r" "dhi r \<in> rset r"
    using le by (auto simp: rset_def)
  note cmp = has_type_cmp [OF tl(1) tr(1)] has_type_cmp [OF tl(1) tr(2)] has_type_cmp [OF tl(2) tr(1)]
    has_type_cmp [OF tl(2) tr(2)] has_type_cmp [OF tl(1) tl(2)] has_type_cmp [OF tr(1) tr(2)]
  have lt: "(\<exists>x \<in> rset l. \<exists>y \<in> rset r. x < y) \<longleftrightarrow> dlo l < dhi r"
    by (rule iffI, force simp: rset_def, use ends in blast)
  have lte: "(\<exists>x \<in> rset l. \<exists>y \<in> rset r. x \<le> y) \<longleftrightarrow> dlo l \<le> dhi r"
    by (rule iffI, force simp: rset_def, use ends in blast)
  have gt: "(\<exists>x \<in> rset l. \<exists>y \<in> rset r. y < x) \<longleftrightarrow> dlo r < dhi l"
    by (rule iffI, force simp: rset_def, use ends in blast)
  have gte: "(\<exists>x \<in> rset l. \<exists>y \<in> rset r. y \<le> x) \<longleftrightarrow> dlo r \<le> dhi l"
    by (rule iffI, force simp: rset_def, use ends in blast)
  have eq: "(\<exists>x \<in> rset l. x \<in> rset r) \<longleftrightarrow> dlo l \<le> dhi r \<and> dlo r \<le> dhi l"
    using le by (auto simp: rset_def intro!: bexI [of _ "max (dlo l) (dlo r)"])
  have neq: "(\<exists>x \<in> rset l. \<exists>y \<in> rset r. x \<noteq> y) \<longleftrightarrow>
      \<not> (dlo l = dhi l \<and> dlo r = dhi r \<and> dlo l = dlo r)"
    by (rule iffI, force simp: rset_def, rule ccontr, use ends in metis)
  show ?thesis
    using assms(3) unfolding true_comparison_range_def cmp cmp_holds_def cmp_int_simps
    by (auto simp: cmp_op_def lt lte gt gte eq neq)
qed

lemma false_comparison_range_iff:
  assumes "range_ok t l" "range_ok t r" "cmp_op op"
  shows "false_comparison_range_sval l op r \<longleftrightarrow> (\<exists>x \<in> rset l. \<exists>y \<in> rset r. \<not> cmp_holds op x y)"
proof -
  have "false_comparison_range_sval l op r \<longleftrightarrow> true_comparison_range l (negate_comparison op) r"
    using assms(3) by (cases rule: cmp_op_cases)
      (simp_all add: false_comparison_range_sval_def true_comparison_range_def)
  then show ?thesis
    using true_comparison_range_iff [OF assms(1,2) negate_comparison_cmp(1) [OF assms(3)]]
    by (simp only: negate_comparison_cmp(2) [OF assms(3)])
qed

section \<open>Comparison of two lists\<close>

lemma list_ex2_iff:
  assumes "rl_ok t l" "rl_ok t r"
    and "\<And>a b. range_ok t a \<Longrightarrow> range_ok t b \<Longrightarrow> P a b \<longleftrightarrow> (\<exists>x \<in> rset a. \<exists>y \<in> rset b. Q x y)"
  shows "list_ex (\<lambda>a. list_ex (P a) r) l \<longleftrightarrow> (\<exists>x \<in> rl_set l. \<exists>y \<in> rl_set r. Q x y)"
proof -
  have "list_ex (\<lambda>a. list_ex (P a) r) l \<longleftrightarrow> (\<exists>a \<in> set l. \<exists>b \<in> set r. P a b)"
    by (simp add: list_ex_iff)
  also have "\<dots> \<longleftrightarrow> (\<exists>a \<in> set l. \<exists>b \<in> set r. \<exists>x \<in> rset a. \<exists>y \<in> rset b. Q x y)"
    using assms rl_ok_range by (intro bex_cong refl) blast
  also have "\<dots> \<longleftrightarrow> (\<exists>x \<in> rl_set l. \<exists>y \<in> rl_set r. Q x y)"
    unfolding rl_set_def by blast
  finally show ?thesis .
qed

text \<open>The common type of a comparison: no range overflows it upwards, so the conversion is sound.\<close>

lemma type_hi_positive_bits:
  assumes "arith_type t"
  shows "type_hi t = 2 ^ nat (type_positive_bits t) - 1"
  using assms unfolding type_positive_bits_eq [OF assms]
  by (cases rule: arith_type_cases) (auto simp: type_hi_def type_width_def)

lemma type_hi_mono:
  assumes "arith_type s" "arith_type t" "type_positive_bits s \<le> type_positive_bits t"
  shows "type_hi s \<le> type_hi t"
proof -
  have "(2::int) ^ nat (type_positive_bits s) \<le> 2 ^ nat (type_positive_bits t)"
    using assms(3) by (intro power_increasing) auto
  then show ?thesis unfolding type_hi_positive_bits [OF assms(1)] type_hi_positive_bits [OF assms(2)]
    by (rule diff_right_mono)
qed

lemma get_binop_type_ok:
  assumes "int_type_ok s" "int_type_ok t" "rl_ok s a" "rl_ok t b" "a \<noteq> []" "b \<noteq> []"
    and bt: "bt = get_binop_type a b"
  shows "int_type_ok bt" "type_bits bt \<noteq> 1" "type_hi s \<le> type_hi bt" "type_hi t \<le> type_hi bt"
    "bt = overflow_type s t"
proof -
  have ty: "rl_type a = s" "rl_type b = t" using rl_type_ok assms(3-6) by auto
  have eq: "bt = overflow_type s t"
    by (simp add: bt get_binop_type_def ty overflow_type_def)
  then show "bt = overflow_type s t" .
  show "int_type_ok bt" using assms(1,2) unfolding eq overflow_type_def Let_def by auto
  have at: "arith_type s" "arith_type t" using assms(1,2) by (auto simp: int_type_ok_arith)
  have bits: "type_bits bt = 32 \<or> type_bits bt = 64" "arith_type bt"
    using get_promoted_type_int [OF assms(1,2)] by (auto simp: eq)
  then show "type_bits bt \<noteq> 1" by auto
  have pos: "type_positive_bits s \<le> type_positive_bits bt" "type_positive_bits t \<le> type_positive_bits bt"
    unfolding eq overflow_type_def Let_def by auto
  show "type_hi s \<le> type_hi bt" "type_hi t \<le> type_hi bt"
    using pos at bits type_hi_mono by blast+
qed

lemma no_hazard:
  assumes "rl_ok s a" "type_hi s \<le> type_hi t"
  shows "\<forall>d \<in> set a. \<not> cast_hazard s t d"
  using rl_ok_range [OF assms(1)] assms(2) by (force simp: cast_hazard_def dest: range_okD(8))

lemma cast_binop_type:
  assumes "int_type_ok s" "int_type_ok t" "rl_ok s a" "rl_ok t b" "a \<noteq> []" "b \<noteq> []"
    and bt: "bt = get_binop_type a b"
  shows "rl_ok bt (cast_rl prj bt a)" "wrap bt ` rl_set a \<subseteq> rl_set (cast_rl prj bt a)"
    "rl_ok bt (cast_rl prj bt b)" "wrap bt ` rl_set b \<subseteq> rl_set (cast_rl prj bt b)"
proof -
  note ty = get_binop_type_ok [OF assms]
  show "rl_ok bt (cast_rl prj bt a)" "wrap bt ` rl_set a \<subseteq> rl_set (cast_rl prj bt a)"
    using cast_rl_sound [OF ty(1,2) assms(3) no_hazard [OF assms(3) ty(3)]] by auto
  show "rl_ok bt (cast_rl prj bt b)" "wrap bt ` rl_set b \<subseteq> rl_set (cast_rl prj bt b)"
    using cast_rl_sound [OF ty(1,2) assms(4) no_hazard [OF assms(4) ty(4)]] by auto
qed

text \<open>What the two tests decide, in terms of the lists converted to the common type.\<close>

lemma possibly_rl_cast_iff:
  assumes "rl_ok bt (cast_rl prj bt a)" "rl_ok bt (cast_rl prj bt b)" "bt = get_binop_type a b"
    "a \<noteq> []" "b \<noteq> []" "cmp_op op"
  shows "possibly_true_rl prj a op b \<longleftrightarrow>
      (\<exists>x \<in> rl_set (cast_rl prj bt a). \<exists>y \<in> rl_set (cast_rl prj bt b). cmp_holds op x y)"
    "possibly_false_rl prj a op b \<longleftrightarrow>
      (\<exists>x \<in> rl_set (cast_rl prj bt a). \<exists>y \<in> rl_set (cast_rl prj bt b). \<not> cmp_holds op x y)"
proof -
  have op: "op \<noteq> UNKNOWN_COMPARISON" "op \<noteq> IMPOSSIBLE_COMPARISON"
    using assms(6) by (auto simp: cmp_op_def)
  note true = true_comparison_range_iff [OF _ _ assms(6)]
    and false = false_comparison_range_iff [OF _ _ assms(6)]
  show "possibly_true_rl prj a op b \<longleftrightarrow>
      (\<exists>x \<in> rl_set (cast_rl prj bt a). \<exists>y \<in> rl_set (cast_rl prj bt b). cmp_holds op x y)"
    using assms(3-5) op list_ex2_iff [OF assms(1,2) true] by (simp add: possibly_true_rl_def Let_def)
  show "possibly_false_rl prj a op b \<longleftrightarrow>
      (\<exists>x \<in> rl_set (cast_rl prj bt a). \<exists>y \<in> rl_set (cast_rl prj bt b). \<not> cmp_holds op x y)"
    using assms(3-5) op list_ex2_iff [OF assms(1,2) false] by (simp add: possibly_false_rl_def Let_def)
qed

lemma possibly_rl_sound:
  assumes "int_type_ok s" "int_type_ok t" "rl_ok s a" "rl_ok t b" "cmp_op op"
    and "bt = get_binop_type a b" "x \<in> rl_set a" "y \<in> rl_set b"
  shows "cmp_holds op (wrap bt x) (wrap bt y) \<Longrightarrow> possibly_true_rl prj a op b"
    "\<not> cmp_holds op (wrap bt x) (wrap bt y) \<Longrightarrow> possibly_false_rl prj a op b"
proof -
  have ne: "a \<noteq> []" "b \<noteq> []" using assms(7,8) by auto
  note cast = cast_binop_type [OF assms(1-4) ne assms(6), of prj]
  have "wrap bt x \<in> rl_set (cast_rl prj bt a)" "wrap bt y \<in> rl_set (cast_rl prj bt b)"
    using cast(2,4) assms(7,8) by auto
  then show "cmp_holds op (wrap bt x) (wrap bt y) \<Longrightarrow> possibly_true_rl prj a op b"
    "\<not> cmp_holds op (wrap bt x) (wrap bt y) \<Longrightarrow> possibly_false_rl prj a op b"
    using possibly_rl_cast_iff [OF cast(1,3) assms(6) ne assms(5)] by blast+
qed

lemma possibly_rl_exact:
  assumes "int_type_ok t" "rl_ok t a" "rl_ok t b" "a \<noteq> []" "b \<noteq> []" "cmp_op op"
  shows "possibly_true_rl prj a op b \<longleftrightarrow> (\<exists>x \<in> rl_set a. \<exists>y \<in> rl_set b. cmp_holds op x y)"
    "possibly_false_rl prj a op b \<longleftrightarrow> (\<exists>x \<in> rl_set a. \<exists>y \<in> rl_set b. \<not> cmp_holds op x y)"
proof -
  let ?bt = "get_binop_type a b"
  note ty = get_binop_type_ok [OF assms(1,1) assms(2-5) refl]
  have at: "arith_type t" using assms(1) by (rule int_type_ok_arith)
  have lo: "type_lo ?bt \<le> type_lo t"
    using at unfolding ty(5) overflow_type_def type_positive_bits_eq [OF at]
    by (cases rule: arith_type_cases) (auto simp: type_lo_def type_width_def)
  have sub: "rl_set c \<subseteq> {type_lo ?bt..type_hi ?bt}" if "rl_ok t c" for c
    using rl_set_bounds [OF that] lo ty(3) by fastforce
  have cast: "rl_ok ?bt (cast_rl prj ?bt c)" "rl_set (cast_rl prj ?bt c) = rl_set c" if "rl_ok t c" for c
    using cast_rl_exact [OF ty(1,2) that sub [OF that]] by auto
  show "possibly_true_rl prj a op b \<longleftrightarrow> (\<exists>x \<in> rl_set a. \<exists>y \<in> rl_set b. cmp_holds op x y)"
    "possibly_false_rl prj a op b \<longleftrightarrow> (\<exists>x \<in> rl_set a. \<exists>y \<in> rl_set b. \<not> cmp_holds op x y)"
    using possibly_rl_cast_iff [OF cast(1) cast(1) refl assms(4-6)] assms(2,3) cast(2) by auto
qed

section \<open>The comparison of two lists as a code\<close>

lemma get_comparison_rl_binop:
  assumes "a \<noteq> []" "b \<noteq> []" "bt = get_binop_type a b"
  shows "get_comparison_rl prj a b =
    (let l = cast_rl prj bt a; r = cast_rl prj bt b
     in if sv_val (rl_min l) = sv_val (rl_max l) \<and> sv_val (rl_min r) = sv_val (rl_max r)
           \<and> sv_val (rl_min l) = sv_val (rl_min r) then SPECIAL_EQUAL
        else if sval_cmp (rl_max l) (rl_min r) < 0 then Ch CHR ''<''
        else if sval_cmp (rl_max l) (rl_min r) = 0 then SPECIAL_LTE
        else if sval_cmp (rl_min l) (rl_max r) > 0 then Ch CHR ''>''
        else if sval_cmp (rl_min l) (rl_max r) = 0 then SPECIAL_GTE
        else UNKNOWN_COMPARISON)"
  using assms by (simp only: get_comparison_rl_def get_binop_type_def Let_def) simp

lemma get_comparison_rl_sound:
  assumes "int_type_ok s" "int_type_ok t" "rl_ok s a" "rl_ok t b"
    and bt: "bt = get_binop_type a b" and x: "x \<in> rl_set a" and y: "y \<in> rl_set b"
  shows "cmp_holds (get_comparison_rl prj a b) (wrap bt x) (wrap bt y)"
proof -
  have ne: "a \<noteq> []" "b \<noteq> []" using x y by auto
  note cast = cast_binop_type [OF assms(1-4) ne bt, of prj]
  let ?a = "cast_rl prj bt a" and ?b = "cast_rl prj bt b"
  have in_cast: "wrap bt x \<in> rl_set ?a" "wrap bt y \<in> rl_set ?b" using cast(2,4) x y by auto
  then have ne': "?a \<noteq> []" "?b \<noteq> []" by auto
  note l = rl_min_ok [OF cast(1) ne'(1)] rl_max_ok [OF cast(1) ne'(1)]
  note r = rl_min_ok [OF cast(3) ne'(2)] rl_max_ok [OF cast(3) ne'(2)]
  have val: "sv_val u = sv_val v \<longleftrightarrow> sval_int u = sval_int v" if "has_type bt u" "has_type bt v" for u v
    using that by (intro sval_val_eq_iff) (auto simp: has_type_def)
  have eq: "get_comparison_rl prj a b =
      (if sval_int (rl_min ?a) = sval_int (rl_max ?a) \<and> sval_int (rl_min ?b) = sval_int (rl_max ?b)
          \<and> sval_int (rl_min ?a) = sval_int (rl_min ?b) then SPECIAL_EQUAL
       else if sval_int (rl_max ?a) < sval_int (rl_min ?b) then Ch CHR ''<''
       else if sval_int (rl_max ?a) = sval_int (rl_min ?b) then SPECIAL_LTE
       else if sval_int (rl_max ?b) < sval_int (rl_min ?a) then Ch CHR ''>''
       else if sval_int (rl_min ?a) = sval_int (rl_max ?b) then SPECIAL_GTE
       else UNKNOWN_COMPARISON)"
    unfolding get_comparison_rl_binop [OF ne bt] Let_def
      val [OF l(1) l(4)] val [OF r(1) r(4)] val [OF l(1) r(1)]
      has_type_cmp [OF l(4) r(1)] has_type_cmp [OF l(1) r(4)] cmp_int_simps by (rule refl)
  have bounds: "sval_int (rl_min ?a) \<le> wrap bt x" "wrap bt x \<le> sval_int (rl_max ?a)"
    "sval_int (rl_min ?b) \<le> wrap bt y" "wrap bt y \<le> sval_int (rl_max ?b)"
    using l r in_cast by auto
  then show ?thesis unfolding eq by (auto simp: cmp_holds_def)
qed

section \<open>Narrowing by a comparison\<close>

lemma add_one_ok:
  assumes "has_type t v" "\<not> sval_is_max v"
  shows "has_type t (add_one v)" "sval_int (add_one v) = sval_int v + 1"
  using sval_succ [of v] assms has_typeD [OF assms(1)]
  by (auto simp: add_one_def has_type_def sval_is_max_iff)

lemma sub_one_ok:
  assumes "has_type t v" "\<not> sval_is_min v"
  shows "has_type t (sub_one v)" "sval_int (sub_one v) = sval_int v - 1"
  using sval_pred [of v] assms has_typeD [OF assms(1)]
  by (auto simp: sub_one_def has_type_def sval_is_min_iff)

text \<open>The cuts \<^verbatim>\<open>split_comparison_rl\<close> and \<^verbatim>\<open>filter_by_comparison\<close> are made of.\<close>

lemma cut:
  assumes "int_type_ok t" "rl_ok t rl" "has_type t v"
  shows "rl_ok t (remove_range prj rl v (sval_type_max t))"
    "rl_set (remove_range prj rl v (sval_type_max t)) = {x \<in> rl_set rl. x < sval_int v}"
    "rl_ok t (remove_range prj rl (sval_type_min t) v)"
    "rl_set (remove_range prj rl (sval_type_min t) v) = {x \<in> rl_set rl. sval_int v < x}"
    "rl_ok t (remove_range prj rl v v)"
    "rl_set (remove_range prj rl v v) = {x \<in> rl_set rl. x \<noteq> sval_int v}"
proof -
  have at: "arith_type t" using assms(1) by (rule int_type_ok_arith)
  note v = has_typeD [OF assms(3)]
  note lim = has_type_limits [OF at] sval_type_min_ok [OF at] sval_type_max_ok [OF at]
  note rm = remove_range_same [OF assms(1,2)]
  show "rl_ok t (remove_range prj rl v (sval_type_max t))"
    "rl_ok t (remove_range prj rl (sval_type_min t) v)" "rl_ok t (remove_range prj rl v v)"
    using rm [OF assms(3) lim(2)] rm [OF lim(1) assms(3)] rm [OF assms(3) assms(3)] v lim by auto
  show "rl_set (remove_range prj rl v (sval_type_max t)) = {x \<in> rl_set rl. x < sval_int v}"
    using rm(2) [OF assms(3) lim(2)] v lim rl_set_bounds [OF assms(2)] by auto
  show "rl_set (remove_range prj rl (sval_type_min t) v) = {x \<in> rl_set rl. sval_int v < x}"
    using rm(2) [OF lim(1) assms(3)] v lim rl_set_bounds [OF assms(2)] by auto
  show "rl_set (remove_range prj rl v v) = {x \<in> rl_set rl. x \<noteq> sval_int v}"
    using rm(2) [OF assms(3) assms(3)] by auto
qed

lemma cut_above:
  assumes "int_type_ok t" "rl_ok t rl" "has_type t v"
    and "r = (if \<not> sval_is_max v then remove_range prj rl (add_one v) (sval_type_max t) else rl)"
  shows "rl_ok t r" "rl_set r = {x \<in> rl_set rl. x \<le> sval_int v}"
  using assms cut [OF assms(1,2) add_one_ok(1) [OF assms(3)]] add_one_ok(2) [OF assms(3)]
    rl_set_bounds [OF assms(2)] has_typeD [OF assms(3)]
  by (auto simp: sval_is_max_iff)

lemma cut_below:
  assumes "int_type_ok t" "rl_ok t rl" "has_type t v"
    and "r = (if \<not> sval_is_min v then remove_range prj rl (sval_type_min t) (sub_one v) else rl)"
  shows "rl_ok t r" "rl_set r = {x \<in> rl_set rl. sval_int v \<le> x}"
  using assms cut [OF assms(1,2) sub_one_ok(1) [OF assms(3)]] sub_one_ok(2) [OF assms(3)]
    rl_set_bounds [OF assms(2)] has_typeD [OF assms(3)]
  by (auto simp: sval_is_min_iff)

text \<open>
  \<open>split_ok\<close>: every pair of values for which the comparison holds survives in the true parts, every
  other pair in the false parts, and no value is invented.
\<close>

definition split_ok :: "ctype \<Rightarrow> int set \<Rightarrow> opcode \<Rightarrow> int set \<Rightarrow> split_rl \<Rightarrow> bool" where
  "split_ok t A op B s \<longleftrightarrow>
     rl_ok t (left_true s) \<and> rl_ok t (left_false s) \<and> rl_ok t (right_true s) \<and> rl_ok t (right_false s)
     \<and> rl_set (left_true s) \<union> rl_set (left_false s) \<subseteq> A
     \<and> rl_set (right_true s) \<union> rl_set (right_false s) \<subseteq> B
     \<and> (\<forall>x \<in> A. \<forall>y \<in> B.
          if cmp_holds op x y then x \<in> rl_set (left_true s) \<and> y \<in> rl_set (right_true s)
          else x \<in> rl_set (left_false s) \<and> y \<in> rl_set (right_false s))"

lemma split_okI:
  assumes "rl_ok t lt" "rl_ok t lf" "rl_ok t rt" "rl_ok t rf"
    and "rl_set lt \<subseteq> A" "rl_set lf \<subseteq> A" "rl_set rt \<subseteq> B" "rl_set rf \<subseteq> B"
    and "\<And>x y. x \<in> A \<Longrightarrow> y \<in> B \<Longrightarrow> cmp_holds op x y \<Longrightarrow> x \<in> rl_set lt \<and> y \<in> rl_set rt"
    and "\<And>x y. x \<in> A \<Longrightarrow> y \<in> B \<Longrightarrow> \<not> cmp_holds op x y \<Longrightarrow> x \<in> rl_set lf \<and> y \<in> rl_set rf"
  shows "split_ok t A op B
    \<lparr>left_true = lt, left_false = lf, right_true = rt, right_false = rf\<rparr>"
  using assms by (auto simp: split_ok_def)

text \<open>The second cut of a bound that has already been cut off.\<close>

lemma cut_point:
  assumes "int_type_ok t" "rl_ok t rl" "has_type t v"
    and "r = (if c then remove_range prj rl v v else rl)" "c \<longrightarrow> sval_int v \<notin> rl_set rl"
  shows "rl_ok t r" "rl_set r = rl_set rl"
  using assms cut(5,6) [OF assms(1-3), of prj] by auto

lemma split_lt:
  assumes t: "int_type_ok t" and ok: "rl_ok t a" "rl_ok t b" and ne: "a \<noteq> []" "b \<noteq> []"
    and op: "op = Ch CHR ''<'' \<or> op = SPECIAL_UNSIGNED_LT"
  shows "\<exists>s. split_comparison_rl prj a op b = Some s \<and> split_ok t (rl_set a) op (rl_set b) s"
proof -
  have ty: "rl_type a = t" using rl_type_ok [OF ok(1)] ne by auto
  note la = rl_min_ok [OF ok(1) ne(1)] rl_max_ok [OF ok(1) ne(1)]
  note lb = rl_min_ok [OF ok(2) ne(2)] rl_max_ok [OF ok(2) ne(2)]
  note cuts = cut(1,2) [OF t ok(1) lb(4)] cut(3,4) [OF t ok(2) la(1)]
    cut_below [OF t ok(1) lb(1) refl] cut_above [OF t ok(2) la(4) refl]
  have holds: "cmp_holds op x y \<longleftrightarrow> x < y" for x y using op by (auto simp: cmp_holds_def)
  have "split_comparison_rl prj a op b = Some
     \<lparr>left_true = remove_range prj a (rl_max b) (sval_type_max t),
      left_false = (if \<not> sval_is_min (rl_min b)
                    then remove_range prj a (sval_type_min t) (sub_one (rl_min b)) else a),
      right_true = remove_range prj b (sval_type_min t) (rl_min a),
      right_false = (if \<not> sval_is_max (rl_max a)
                     then remove_range prj b (add_one (rl_max a)) (sval_type_max t) else b)\<rparr>"
    (is "_ = Some ?s")
    using op by (simp only: split_comparison_rl_def Let_def ty if_True)
  moreover have "split_ok t (rl_set a) op (rl_set b) ?s"
    by (intro split_okI; (rule cuts)?; unfold holds cuts)
      (auto dest: la(3,6) lb(3,6))
  ultimately show ?thesis by blast
qed

lemma split_lte:
  assumes t: "int_type_ok t" and ok: "rl_ok t a" "rl_ok t b" and ne: "a \<noteq> []" "b \<noteq> []"
    and op: "op = SPECIAL_LTE \<or> op = SPECIAL_UNSIGNED_LTE"
  shows "\<exists>s. split_comparison_rl prj a op b = Some s \<and> split_ok t (rl_set a) op (rl_set b) s"
proof -
  have ty: "rl_type a = t" using rl_type_ok [OF ok(1)] ne by auto
  note la = rl_min_ok [OF ok(1) ne(1)] rl_max_ok [OF ok(1) ne(1)]
  note lb = rl_min_ok [OF ok(2) ne(2)] rl_max_ok [OF ok(2) ne(2)]
  let ?lf = "remove_range prj a (sval_type_min t) (rl_min b)"
  let ?rf = "remove_range prj b (rl_max a) (sval_type_max t)"
  let ?c = "sval_cmp (rl_min a) (rl_min b) = 0" and ?d = "sval_cmp (rl_max a) (rl_max b) = 0"
  note f = cut(3,4) [OF t ok(1) lb(1), of prj] cut(1,2) [OF t ok(2) la(4), of prj]
  have gone: "?c \<longrightarrow> sval_int (rl_min a) \<notin> rl_set ?lf" "?d \<longrightarrow> sval_int (rl_max a) \<notin> rl_set ?rf"
    using f(2,4) by (auto simp: has_type_cmp [OF la(1) lb(1)] has_type_cmp [OF la(4) lb(4)])
  note lf = cut_point [OF t f(1) la(1) refl gone(1)] and rf = cut_point [OF t f(3) la(4) refl gone(2)]
  note cuts = cut_above [OF t ok(1) lb(4) refl, of prj] cut_below [OF t ok(2) la(1) refl, of prj]
  have holds: "cmp_holds op x y \<longleftrightarrow> x \<le> y" for x y using op by (auto simp: cmp_holds_def)
  have "split_comparison_rl prj a op b = Some
     \<lparr>left_true = (if \<not> sval_is_max (rl_max b)
                   then remove_range prj a (add_one (rl_max b)) (sval_type_max t) else a),
      left_false = (if ?c then remove_range prj ?lf (rl_min a) (rl_min a) else ?lf),
      right_true = (if \<not> sval_is_min (rl_min a)
                    then remove_range prj b (sval_type_min t) (sub_one (rl_min a)) else b),
      right_false = (if ?d then remove_range prj ?rf (rl_max a) (rl_max a) else ?rf)\<rparr>"
    (is "_ = Some ?s")
    using op by (elim disjE) (simp_all add: split_comparison_rl_def Let_def ty)
  moreover have "split_ok t (rl_set a) op (rl_set b) ?s"
    by (intro split_okI; (rule cuts lf rf)?; unfold holds cuts lf(2) rf(2) f(2,4))
      (auto dest: la(3,6) lb(3,6))
  ultimately show ?thesis by blast
qed

lemma split_eq:
  assumes t: "int_type_ok t" and ok: "rl_ok t a" "rl_ok t b" and ne: "a \<noteq> []" "b \<noteq> []"
    and op: "op = SPECIAL_EQUAL \<or> op = SPECIAL_NOTEQUAL"
  shows "\<exists>s. split_comparison_rl prj a op b = Some s \<and> split_ok t (rl_set a) op (rl_set b) s"
proof -
  note la = rl_min_ok [OF ok(1) ne(1)] rl_max_ok [OF ok(1) ne(1)]
  note lb = rl_min_ok [OF ok(2) ne(2)] rl_max_ok [OF ok(2) ne(2)]
  obtain i where i: "rl_intersection prj a b = Some i" "rl_ok t i" "rl_set i = rl_set a \<inter> rl_set b"
    using rl_intersection_spec [OF t ok] by blast
  define f where "f = (if sval_cmp (rl_min b) (rl_max b) = 0 then remove_range prj a (rl_min b) (rl_min b) else a)"
  define g where "g = (if sval_cmp (rl_min a) (rl_max a) = 0 then remove_range prj b (rl_min a) (rl_min a) else b)"
  have fg: "rl_ok t f" "rl_ok t g" "rl_set f \<subseteq> rl_set a" "rl_set g \<subseteq> rl_set b"
    using cut(5,6) [OF t ok(1) lb(1)] cut(5,6) [OF t ok(2) la(1)] ok by (auto simp: f_def g_def)
  have diff: "x \<in> rl_set f \<and> y \<in> rl_set g" if "x \<in> rl_set a" "y \<in> rl_set b" "x \<noteq> y" for x y
  proof -
    have "y = sval_int (rl_min b)" if "sval_int (rl_min b) = sval_int (rl_max b)"
      using lb(3,6) [OF \<open>y \<in> rl_set b\<close>] that by simp
    moreover have "x = sval_int (rl_min a)" if "sval_int (rl_min a) = sval_int (rl_max a)"
      using la(3,6) [OF \<open>x \<in> rl_set a\<close>] that by simp
    ultimately show ?thesis
      using that cut(6) [OF t ok(1) lb(1)] cut(6) [OF t ok(2) la(1)]
      by (auto simp: f_def g_def has_type_cmp [OF la(1,4)] has_type_cmp [OF lb(1,4)])
  qed
  have eq: "split_comparison_rl prj a SPECIAL_EQUAL b = Some
      \<lparr>left_true = i, left_false = f, right_true = i, right_false = g\<rparr>"
    and neq: "split_comparison_rl prj a SPECIAL_NOTEQUAL b = Some
      \<lparr>left_true = f, left_false = i, right_true = g, right_false = i\<rparr>"
    by (simp_all add: split_comparison_rl_def Let_def i(1) f_def g_def)
  show ?thesis
    using op eq neq i(2,3) fg diff by (auto intro!: split_okI simp: cmp_holds_def)
qed

text \<open>The remaining operators are the mirror images of the first two.\<close>

definition split_swap :: "split_rl \<Rightarrow> split_rl" where
  "split_swap s = \<lparr>left_true = right_true s, left_false = right_false s,
     right_true = left_true s, right_false = left_false s\<rparr>"

lemma split_ok_swap:
  "cmp_op op \<Longrightarrow> split_ok t A op B s \<Longrightarrow> split_ok t B (flip_comparison op) A (split_swap s)"
  using flip_comparison_cmp(2) [of op] unfolding split_ok_def split_swap_def
  by (simp del: flip_comparison.simps)

lemma sval_cmp_eq_0: "has_type t u \<Longrightarrow> has_type t v \<Longrightarrow> sval_cmp u v = 0 \<longleftrightarrow> u = v"
  by (auto simp: has_type_cmp) (auto simp: has_type_def intro: sval_ok_eqI)

lemma split_comparison_flip:
  assumes ok: "rl_ok t a" "rl_ok t b" and ne: "a \<noteq> []" "b \<noteq> []"
    and op: "op \<in> {Ch CHR ''<'', SPECIAL_UNSIGNED_LT, SPECIAL_LTE, SPECIAL_UNSIGNED_LTE}"
  shows "split_comparison_rl prj b (flip_comparison op) a =
    map_option split_swap (split_comparison_rl prj a op b)"
proof -
  have ty: "rl_type a = t" "rl_type b = t" using rl_type_ok ok ne by auto
  note la = rl_min_ok(1) [OF ok(1) ne(1)] rl_max_ok(1) [OF ok(1) ne(1)]
  note lb = rl_min_ok(1) [OF ok(2) ne(2)] rl_max_ok(1) [OF ok(2) ne(2)]
  show ?thesis
    using op unfolding insert_iff empty_iff
    by (elim disjE FalseE) (simp_all add: split_comparison_rl_def Let_def ty split_swap_def
        sval_cmp_eq_0 [OF la(1) lb(1)] sval_cmp_eq_0 [OF la(2) lb(2)]
        sval_cmp_eq_0 [OF lb(1) la(1)] sval_cmp_eq_0 [OF lb(2) la(2)]
        eq_commute [of "rl_min b"] eq_commute [of "rl_max b"])
qed

lemma split_comparison_rl_spec:
  assumes t: "int_type_ok t" and ok: "rl_ok t a" "rl_ok t b" and ne: "a \<noteq> []" "b \<noteq> []"
    and op: "cmp_op op"
  shows "\<exists>s. split_comparison_rl prj a op b = Some s \<and> split_ok t (rl_set a) op (rl_set b) s"
proof -
  let ?less = "{Ch CHR ''<'', SPECIAL_UNSIGNED_LT, SPECIAL_LTE, SPECIAL_UNSIGNED_LTE}"
  have less: "\<exists>s. split_comparison_rl prj a op b = Some s \<and> split_ok t (rl_set a) op (rl_set b) s"
    if "op \<in> ?less" "rl_ok t a" "rl_ok t b" "a \<noteq> []" "b \<noteq> []" for op a b
    using that split_lt [OF t that(2-5)] split_lte [OF t that(2-5)] by blast
  show ?thesis
  proof (cases "op \<in> ?less \<or> op = SPECIAL_EQUAL \<or> op = SPECIAL_NOTEQUAL")
    case True
    then show ?thesis using less [OF _ ok ne] split_eq [OF t ok ne] by blast
  next
    case False
    have "flip_comparison op \<in> ?less" using op False by (cases rule: cmp_op_cases) simp_all
    note mirror = this flip_comparison_cmp(1) [OF op]
    obtain s where s: "split_comparison_rl prj b (flip_comparison op) a = Some s"
      "split_ok t (rl_set b) (flip_comparison op) (rl_set a) s"
      using less [OF mirror(1) ok(2,1) ne(2,1)] by blast
    show ?thesis
      using split_comparison_flip [OF ok(2,1) ne(2,1) mirror(1), of prj] split_ok_swap [OF mirror(2) s(2)] s(1)
      unfolding flip_comparison_cmp(3) [OF op] by auto
  qed
qed

lemma wrap_back:
  assumes "int_type_ok s" "arith_type bt" "type_bits bt \<noteq> 1" "type_bits s \<noteq> 1"
    "type_bits s \<le> type_bits bt" "type_lo s \<le> x" "x \<le> type_hi s"
  shows "wrap s (wrap bt x) = x"
proof -
  have at: "arith_type s" using assms(1) by (rule int_type_ok_arith)
  have "type_width s \<le> type_width bt" using assms(5) by (simp add: type_width_def)
  then have "wrap bt x mod 2 ^ type_width s = x mod 2 ^ type_width s"
    using wrap_mod [OF assms(2,3)] by (rule mod_pow2_le)
  then have "wrap s (wrap bt x) = wrap s x" by (rule wrap_cong [OF at assms(4)])
  then show ?thesis using wrap_id [OF at assms(6,7)] by simp
qed

lemma binop_type_wide:
  assumes "int_type_ok s" "int_type_ok t" "bt = overflow_type s t"
  shows "type_bits s \<le> type_bits bt" "\<not> type_unsigned bt \<Longrightarrow> type_lo bt \<le> type_lo s"
proof -
  have at: "arith_type s" "arith_type t" using assms by (auto intro: int_type_ok_arith)
  have bt: "arith_type bt" "type_bits bt = 32 \<or> type_bits bt = 64"
    using get_promoted_type_int [OF assms(1,2)] assms(3) by auto
  have pos: "type_positive_bits s \<le> type_positive_bits bt"
    using assms(3) by (auto simp: overflow_type_def Let_def)
  show "type_bits s \<le> type_bits bt"
    using at(1) bt(2) pos unfolding type_positive_bits_eq [OF at(1)] type_positive_bits_eq [OF bt(1)]
    by (cases rule: arith_type_cases) (auto split: if_splits)
  then have "(2::int) ^ (type_width s - 1) \<le> 2 ^ (type_width bt - 1)"
    by (intro power_increasing) (auto simp: type_width_def)
  then show "type_lo bt \<le> type_lo s" if "\<not> type_unsigned bt"
    using that by (simp add: type_lo_def)
qed

lemma cast_back:
  assumes s: "int_type_ok s" "type_bits s \<noteq> 1" and t: "int_type_ok t"
    and ok: "rl_ok s a" "rl_ok t b" and ne: "a \<noteq> []" "b \<noteq> []" and bt: "bt = get_binop_type a b"
    and r: "rl_ok bt r" "rl_set r \<subseteq> rl_set (cast_rl prj bt a)" and x: "x \<in> rl_set a" "wrap bt x \<in> rl_set r"
  shows "rl_ok s (cast_rl prj s r) \<and> x \<in> rl_set (cast_rl prj s r)"
proof -
  note ty = get_binop_type_ok [OF s(1) t ok ne bt]
  note wide = binop_type_wide [OF s(1) t ty(5)]
  have at: "arith_type bt" "arith_type s" using ty(1) s(1) by (auto intro: int_type_ok_arith)
  have "\<not> cast_hazard bt s d" if d: "d \<in> set r" for d
  proof (cases "type_unsigned bt")
    case False
    have "rl_set a \<subseteq> {type_lo bt..type_hi bt}"
      using rl_set_bounds [OF ok(1)] ty(3) wide(2) [OF False] by fastforce
    then have "rl_set r \<subseteq> rl_set a" using cast_rl_exact [OF ty(1,2) ok(1)] r(2) by auto
    moreover have "dhi d \<in> rl_set r"
      using d range_okD(6) [OF rl_ok_range [OF r(1) d]] by (auto simp: rl_set_def rset_def)
    ultimately have "dhi d \<le> type_hi s" using rl_set_bounds [OF ok(1)] by auto
    then show ?thesis by (simp add: cast_hazard_def)
  qed (simp add: cast_hazard_def arith_type_signed [OF at(1)])
  then have c: "rl_ok s (cast_rl prj s r)" "wrap s ` rl_set r \<subseteq> rl_set (cast_rl prj s r)"
    using cast_rl_sound [OF s r(1)] by auto
  have "wrap s (wrap bt x) = x"
    using wrap_back [OF s(1) at(1) ty(2) s(2) wide(1)] rl_set_bounds [OF ok(1) x(1)] by auto
  then show ?thesis using c x(2) by force
qed

lemma filter_switch_keeps:
  assumes bt: "int_type_ok bt" and ok: "rl_ok bt a" "rl_ok bt b" and op: "cmp_op op"
    and x: "x \<in> rl_set a" and y: "y \<in> rl_set b" and h: "cmp_holds op x y"
  shows "\<exists>r. filter_switch prj rl op bt a b = Some r
    \<and> (r = rl \<or> rl_ok bt r \<and> rl_set r \<subseteq> rl_set a \<and> x \<in> rl_set r)"
proof -
  have nb: "b \<noteq> []" using y by auto
  note lb = rl_min_ok [OF ok(2) nb] rl_max_ok [OF ok(2) nb]
  have yb: "sval_int (rl_min b) \<le> y" "y \<le> sval_int (rl_max b)" using lb y by auto
  obtain i where i: "rl_intersection prj a b = Some i" "rl_ok bt i" "rl_set i = rl_set a \<inter> rl_set b"
    using rl_intersection_spec [OF bt ok] by blast
  note cuts = cut [OF bt ok(1), of _ prj]
  note up = cuts(1,2) [OF lb(4)] cuts(1,2) [OF add_one_ok(1) [OF lb(4)]] add_one_ok(2) [OF lb(4)]
  note down = cuts(3,4) [OF lb(1)] cuts(3,4) [OF sub_one_ok(1) [OF lb(1)]] sub_one_ok(2) [OF lb(1)]
  note eq = cuts(5,6) [OF lb(1)] has_type_cmp [OF lb(1,4)]
  show ?thesis
    using op h x y yb unfolding filter_switch_def cmp_holds_def Let_def
    by (cases rule: cmp_op_cases) (auto simp: i up down eq)
qed

lemma filter_by_comparison_sound:
  assumes s: "int_type_ok s" "type_bits s \<noteq> 1" and t: "int_type_ok t"
    and ok: "rl_ok s a" "rl_ok t b" and bt: "bt = get_binop_type a b" and op: "cmp_op op"
    and x: "x \<in> rl_set a" and y: "y \<in> rl_set b" and h: "cmp_holds op (wrap bt x) (wrap bt y)"
  shows "\<exists>r. filter_by_comparison prj a op b = Some r \<and> rl_ok s r \<and> x \<in> rl_set r"
proof -
  have ne: "a \<noteq> []" "b \<noteq> []" using x y by auto
  have tya: "rl_type a = s" using rl_type_ok [OF ok(1)] ne by auto
  note cast = cast_binop_type [OF s(1) t ok ne bt, of prj]
  have wx: "wrap bt x \<in> rl_set (cast_rl prj bt a)" "wrap bt y \<in> rl_set (cast_rl prj bt b)"
    using cast(2,4) x y by auto
  obtain r where r: "filter_switch prj a op bt (cast_rl prj bt a) (cast_rl prj bt b) = Some r"
    "r = a \<or> rl_ok bt r \<and> rl_set r \<subseteq> rl_set (cast_rl prj bt a) \<and> wrap bt x \<in> rl_set r"
    using filter_switch_keeps [OF get_binop_type_ok(1) [OF s(1) t ok ne bt] cast(1,3) op wx h] by blast
  have "filter_by_comparison prj a op b = Some (cast_rl prj s r)"
    using op r(1) by (simp add: filter_by_comparison_def cmp_op_def Let_def bt [symmetric] tya) blast
  moreover have "rl_ok s (cast_rl prj s r) \<and> x \<in> rl_set (cast_rl prj s r)"
    using r(2) cast_back [OF s t ok ne bt _ _ x] cast_rl_same [OF ok(1)] ok(1) x by auto
  ultimately show ?thesis by blast
qed

end
