(* ===== verification/Concrete.thy ===== *)
theory Concrete
  imports Range_Cmp
begin

text \<open>
  Concrete values and range lists of a given type, with the facts that evaluate the invariant
  and the denotation on them.
\<close>

definition tval :: "ctype \<Rightarrow> int \<Rightarrow> sval" where
  "tval t a = mk_sval t (word_of_int a)"

definition trange :: "ctype \<Rightarrow> int \<Rightarrow> int \<Rightarrow> data_range" where
  "trange t a b = alloc_range (tval t a) (tval t b)"

lemma sint_of_int64:
  assumes "- (2 ^ 63) \<le> a" "a < 2 ^ 63"
  shows "sint (word_of_int a :: u64) = a"
proof -
  have "sint (word_of_int a :: u64) = swrap 64 a"
    unfolding sint_swrap by (rule swrap_cong) (simp add: uint_word_of_int)
  then show ?thesis using assms by (simp add: swrap_id)
qed

lemma uint_of_int64: "0 \<le> a \<Longrightarrow> a < 2 ^ 64 \<Longrightarrow> uint (word_of_int a :: u64) = a"
  by (simp add: uint_word_of_int)

lemma tval_ok [simp]:
  assumes "arith_type t" "type_lo t \<le> a" "a \<le> type_hi t"
  shows "has_type t (tval t a)" "sval_int (tval t a) = a"
proof -
  show i: "sval_int (tval t a) = a"
    using assms(1) assms(2,3) by (cases rule: arith_type_cases)
      (auto simp: sval_int_def tval_def mk_sval_def type_lo_def type_hi_def type_width_def
        intro!: sint_of_int64 uint_of_int64)
  show "has_type t (tval t a)"
    unfolding has_type_def sval_ok_def i using assms by (simp add: tval_def mk_sval_def)
qed

lemma tval_type [simp]: "sv_type (tval t a) = t"
  by (simp add: tval_def mk_sval_def)

lemma trange_ok [simp]:
  assumes "arith_type t" "type_lo t \<le> a" "b \<le> type_hi t" "a \<le> b"
  shows "range_ok t (trange t a b)" "rset (trange t a b) = {a..b}"
  using assms by (simp_all add: trange_def range_ok_iff)

lemma trange_bounds [simp]: "dr_min (trange t a b) = tval t a" "dr_max (trange t a b) = tval t b"
  by (simp_all add: trange_def)

lemma type_bounds_builtin [simp]:
  "type_lo (Some uint_ctype) = 0" "type_hi (Some uint_ctype) = 2 ^ 32 - 1"
  "type_lo (Some uchar_ctype) = 0" "type_hi (Some uchar_ctype) = 2 ^ 8 - 1"
  "type_lo (Some char_ctype) = - (2 ^ 7)" "type_hi (Some char_ctype) = 2 ^ 7 - 1"
  "type_lo (Some llong_ctype) = - (2 ^ 63)" "type_hi (Some llong_ctype) = 2 ^ 63 - 1"
  "type_lo (Some ullong_ctype) = 0" "type_hi (Some ullong_ctype) = 2 ^ 64 - 1"
  "type_lo (Some bool_ctype) = 0" "type_hi (Some bool_ctype) = 1"
  by (simp_all add: type_lo_def type_hi_def type_width_def)

lemma rl_ok_Cons_trange:
  assumes "arith_type t" "type_lo t \<le> a" "b \<le> type_hi t" "a \<le> b"
  shows "rl_ok t (trange t a b # rl) \<longleftrightarrow> rl_ok t rl \<and> (\<forall>x \<in> rl_set rl. b + 1 < x)"
  using assms by (simp add: rl_ok_Cons)

end
