(* ===== verification/Range_Fuel.thy ===== *)
theory Range_Fuel
  imports Range_Cmp
begin

text \<open>
  The depth bound of \<open>add_range_f\<close>: for lists and values of integer types the result does not
  depend on it once a conversion and the additions inside it are allowed for.
\<close>

text \<open>Two functions that keep the contract of \<^verbatim>\<open>add_range\<close> agree where the contract speaks.\<close>

lemma adders_agree:
  assumes "range_adder add1" "range_adder add2" "int_type_ok t" "rl_ok t rl" "has_type t mn" "has_type t mx"
  shows "add1 rl mn mx = add2 rl mn mx"
  using range_adder.add_ok [OF assms(1,3-6)] range_adder.add_ok [OF assms(2,3-6)]
    range_adder.add_set [OF assms(1,3-6)] range_adder.add_set [OF assms(2,3-6)] rl_ok_unique by metis

lemma add_range_t_cong:
  assumes a: "range_adder add1" "range_adder add2" and t: "int_type_ok t" and rl: "rl_ok t rl"
    and s: "has_type s mn" "has_type s mx"
  shows "add_range_t add1 t rl mn mx = add_range_t add2 t rl mn mx \<and> rl_ok t (add_range_t add2 t rl mn mx)"
proof -
  have at: "arith_type t" using t by (rule int_type_ok_arith)
  have fp: "\<not> type_is_fp (sv_type mn)" "\<not> type_is_fp (sv_type mx)" "\<not> type_is_fp t"
    using has_typeD [OF s(1)] has_typeD [OF s(2)] arith_type_not_fp [OF at] by auto
  have h: "has_type t (sval_cast t mn)" "has_type t (sval_cast t mx)" "has_type t (sval_type_min t)"
    "has_type t (sval_type_max t)"
    using at fp by auto
  have z: "has_type t (sval_type_val t 0)"
    using at type_lo_nonpos [of t] type_hi_nonneg [OF at]
    by (auto simp: sval_type_val_def has_type_def sval_ok_def mk_sval_def sval_int_def arith_type_def split: option.split)
  have cc: "has_type t (sval_cast t x)" if "has_type t x" for x using that has_type_cast_id by fastforce
  note ag = adders_agree [OF a t] and ok = range_adder.add_ok [OF a(2) t]
  have "add_range_t_wrap add1 t rl mn mx = add_range_t_wrap add2 t rl mn mx \<and> rl_ok t (add_range_t_wrap add2 t rl mn mx)"
    unfolding add_range_t_wrap_def Let_def
    by (auto simp: ag ok h z cc rl split: if_splits)
  then show ?thesis
    unfolding add_range_t_def by (auto simp: ag ok h rl)
qed

lemma cast_rl_with_cong:
  assumes a: "range_adder add1" "range_adder add2" and t: "int_type_ok t" "int_type_ok (whole_type t)" and rl: "rl_ok s rl"
  shows "cast_rl_with add1 t rl = cast_rl_with add2 t rl"
proof -
  let ?f = "\<lambda>add ret tmp. add_range_t add t ret (dr_min tmp) (dr_max tmp)"
  have fold: "foldl (?f add1) ret xs = foldl (?f add2) ret xs" if "rl_ok t ret" "\<forall>d \<in> set xs. range_ok s d" for ret xs
    using that
  proof (induction xs arbitrary: ret)
    case (Cons d xs)
    then have "has_type s (dr_min d)" "has_type s (dr_max d)" by (auto simp: range_ok_iff)
    from add_range_t_cong [OF a t(1) Cons.prems(1) this] Cons show ?case by auto
  qed simp
  have "alloc_whole_with add1 t = alloc_whole_with add2 t"
    using adders_agree [OF a t(2) rl_ok_Nil] int_type_ok_arith [OF t(2)] by (simp add: alloc_whole_with_def)
  moreover have "t = Some bool_ctype \<Longrightarrow> cast_to_bool add1 rl = cast_to_bool add2 rl"
    using adders_agree [OF a t(1) rl_ok_Nil]
    by (auto simp: cast_to_bool_def has_type_def sval_ok_def mk_sval_def sval_int_def arith_type_def type_lo_def type_hi_def type_width_def)
  ultimately show ?thesis
    using fold [OF rl_ok_Nil, of rl] rl_ok_range [OF rl] by (auto simp: cast_rl_with_def Let_def)
qed

lemma fuel_enough:
  assumes "int_type_ok s" "int_type_ok t" "int_type_ok (whole_type t)" "rl_ok s rl" "has_type t mn" "has_type t mx"
  shows "add_range_f (Suc (Suc n)) rc prj rl mn mx = add_range_f (Suc (Suc m)) rc prj rl mn mx"
proof -
  have "cast_rl_with (add_range_f (Suc n) rc prj) t rl = cast_rl_with (add_range_f (Suc m) rc prj) t rl"
    using cast_rl_with_cong [OF af.range_adder_axioms af.range_adder_axioms assms(2-4)] .
  moreover have "sv_type mn = t" using has_typeD [OF assms(5)] by simp
  moreover have "rl \<noteq> [] \<Longrightarrow> rl_type rl = s" using rl_type_ok [OF assms(4)] by simp
  moreover have c: "collapse_with add prj l v w = None" if "int_type_ok (sv_type v)" for add l v w
    using that by (rule collapse_int)
  moreover have "sv_type (sval_cast s mn) = s" "sv_type (sval_type_min s) = s" "sv_type (sval_type_min t) = t"
    using assms(1,2) has_typeD [OF assms(5)] int_type_ok_arith
    by (auto simp: sv_type_sval_cast has_typeD(2) [OF has_type_limits(1)] arith_type_def)
  ultimately show ?thesis
    using assms(1,2) by (cases "rl = []") (auto simp: Let_def split: prod.splits option.splits)
qed

end
