(* ===== verification/Range_Math.thy ===== *)
theory Range_Math
  imports Ranges
begin

text \<open>
  Arithmetic on range lists: \<^verbatim>\<open>rl_binop\<close> of \<^verbatim>\<open>src/smatch_ranges.c\<close> and the handler of each operator,
  with the bit information of \<^verbatim>\<open>src/smatch_bits.c\<close> that the bitwise operators use.
  The result NULL, which means that nothing is known, is the empty list.
\<close>

unbundle bit_operations_syntax

section \<open>Helpers\<close>

text \<open>\<^verbatim>\<open>show_special\<close> of \<^verbatim>\<open>src/tokenize.c\<close>, for the operator codes of the model.\<close>

fun show_special :: "opcode \<Rightarrow> string" where
  "show_special (Ch c) = [c]"
| "show_special SPECIAL_LTE = ''<=''"
| "show_special SPECIAL_GTE = ''>=''"
| "show_special SPECIAL_EQUAL = ''==''"
| "show_special SPECIAL_NOTEQUAL = ''!=''"
| "show_special SPECIAL_LOGICAL_AND = ''&&''"
| "show_special SPECIAL_LOGICAL_OR = ''||''"
| "show_special SPECIAL_LEFTSHIFT = ''<<''"
| "show_special SPECIAL_RIGHTSHIFT = ''>>''"
| "show_special SPECIAL_UNSIGNED_LT = ''<''"
| "show_special SPECIAL_UNSIGNED_GT = ''>''"
| "show_special SPECIAL_UNSIGNED_LTE = ''<=''"
| "show_special SPECIAL_UNSIGNED_GTE = ''>=''"
| "show_special UNKNOWN_COMPARISON = ''''"
| "show_special IMPOSSIBLE_COMPARISON = [CHR 0xFF]"

text \<open>The tests \<^verbatim>\<open>show_special(c)[0] == '>'\<close> and \<^verbatim>\<open>show_special(c)[1] != '='\<close>; a string ends with NUL.\<close>

definition special_gt :: "opcode \<Rightarrow> bool" where
  "special_gt comparison =
     (comparison \<noteq> UNKNOWN_COMPARISON
      \<and> (case show_special comparison of c # _ \<Rightarrow> c = CHR ''>'' | [] \<Rightarrow> False))"

definition special_strict :: "opcode \<Rightarrow> bool" where
  "special_strict comparison =
     (comparison \<noteq> UNKNOWN_COMPARISON
      \<and> (case show_special comparison of _ # c # _ \<Rightarrow> c \<noteq> CHR ''='' | _ \<Rightarrow> True))"

record bit_info =
  bi_set :: u64
  bi_possible :: u64

definition rl_to_binfo :: "range_list \<Rightarrow> bit_info" where
  "rl_to_binfo rl =
     (case rl_to_sval rl of
        Some sval \<Rightarrow> \<lparr>bi_set = sv_val sval, bi_possible = sv_val sval\<rparr>
      | None \<Rightarrow> \<lparr>bi_set = 0, bi_possible = sval_fls_mask (rl_max rl)\<rparr>)"

fun get_neg_loop :: "project_type \<Rightarrow> range_list \<Rightarrow> range_list \<Rightarrow> range_list" where
  "get_neg_loop prj ret [] = ret"
| "get_neg_loop prj ret (tmp # rl) =
     (if sval_is_positive (dr_min tmp) then ret
      else if sval_is_positive (dr_max tmp) then
        add_range prj ret (dr_min tmp) ((dr_max tmp)\<lparr>sv_val := - 1\<rparr>)
      else get_neg_loop prj (add_range prj ret (dr_min tmp) (dr_max tmp)) rl)"

definition get_neg_rl :: "project_type \<Rightarrow> range_list \<Rightarrow> range_list" where
  "get_neg_rl prj rl =
     (if rl = [] then [] else if sval_is_positive (rl_min rl) then [] else get_neg_loop prj [] rl)"

definition get_pos_rl :: "project_type \<Rightarrow> range_list \<Rightarrow> range_list" where
  "get_pos_rl prj rl =
     (if rl = [] then []
      else if sval_is_negative (rl_max rl) then []
      else
        foldl (\<lambda>ret tmp.
          if sval_is_negative (dr_max tmp) then ret
          else if sval_is_positive (dr_min tmp) then add_range prj ret (dr_min tmp) (dr_max tmp)
          else add_range prj ret ((dr_min tmp)\<lparr>sv_val := 0\<rparr>) (dr_max tmp)) [] rl)"

datatype pos_neg = POS_POS | POS_NEG | NEG_POS | NEG_NEG

definition has_negative_information :: "range_list \<Rightarrow> bool" where
  "has_negative_information rl =
     (case rl of
        [] \<Rightarrow> False
      | drange # _ \<Rightarrow>
          if \<not> sval_is_negative (dr_min drange) then False
          else if \<not> sval_is_min (dr_min drange) then True
          else if \<not> sval_is_negative (dr_max drange) then False
          else if svalue (dr_max drange) = -1 then False
          else True)"

text \<open>The union of the four results at the end of the handlers that split by sign.\<close>

definition join4 :: "project_type \<Rightarrow> (pos_neg \<Rightarrow> range_list) \<Rightarrow> range_list" where
  "join4 prj part =
     (let ret = rl_union prj (part NEG_NEG) (part NEG_POS);
          ret = rl_union prj ret (part POS_NEG)
      in rl_union prj ret (part POS_POS))"

text \<open>The operands of each of the four calls.\<close>

definition by_sign :: "pos_neg \<Rightarrow> 'a \<Rightarrow> 'a \<Rightarrow> 'a \<Rightarrow> 'a \<Rightarrow> 'a \<times> 'a" where
  "by_sign pn left_neg left_pos right_neg right_pos =
     (case pn of
        POS_POS \<Rightarrow> (left_pos, right_pos)
      | POS_NEG \<Rightarrow> (left_pos, right_neg)
      | NEG_POS \<Rightarrow> (left_neg, right_pos)
      | NEG_NEG \<Rightarrow> (left_neg, right_neg))"

definition is_zero_rl :: "range_list \<Rightarrow> bool" where
  "is_zero_rl rl = (case rl_to_sval rl of Some sval \<Rightarrow> svalue sval = 0 | None \<Rightarrow> False)"

section \<open>Division\<close>

definition divide_rl_helper ::
  "project_type \<Rightarrow> pos_neg \<Rightarrow> range_list \<Rightarrow> range_list \<Rightarrow> range_list" where
  "divide_rl_helper prj pn left right =
     (let right = (if pn = POS_POS \<or> pn = NEG_POS
                   then rl_filter prj right (alloc_rl prj int_zero int_zero) else right)
      in if left = [] \<or> right = [] then []
         else
           (let (low_left, low_right, high_left, high_right) =
                  (case pn of
                     POS_POS \<Rightarrow> (rl_min left, rl_max right, rl_max left, rl_min right)
                   | POS_NEG \<Rightarrow> (rl_max left, rl_max right, rl_min left, rl_min right)
                   | NEG_POS \<Rightarrow> (rl_min left, rl_min right, rl_max left, rl_max right)
                   | NEG_NEG \<Rightarrow> (rl_max left, rl_min right, rl_min left, rl_max right))
            in alloc_rl prj (sval_binop low_left (Ch CHR ''/'') low_right)
                 (sval_binop high_left (Ch CHR ''/'') high_right)))"

definition rl_handle_divide :: "project_type \<Rightarrow> range_list \<Rightarrow> range_list \<Rightarrow> range_list" where
  "rl_handle_divide prj left right =
     (if is_zero_rl left then alloc_rl prj (rl_min left) (rl_min left)
      else if is_whole_rl left then []
      else if is_whole_rl right then left
      else
        join4 prj (\<lambda>pn.
          let (l, r) = by_sign pn (get_neg_rl prj left) (get_pos_rl prj left)
                         (get_neg_rl prj right) (get_pos_rl prj right)
          in divide_rl_helper prj pn l r))"

section \<open>Multiplication\<close>

definition mult_corners :: "pos_neg \<Rightarrow> range_list \<Rightarrow> range_list \<Rightarrow> sval \<times> sval \<times> sval \<times> sval" where
  "mult_corners pn left right =
     (case pn of
        POS_POS \<Rightarrow> (rl_min left, rl_min right, rl_max left, rl_max right)
      | POS_NEG \<Rightarrow> (rl_max left, rl_min right, rl_min left, rl_max right)
      | NEG_POS \<Rightarrow> (rl_min left, rl_max right, rl_max left, rl_min right)
      | NEG_NEG \<Rightarrow> (rl_max left, rl_max right, rl_min left, rl_min right))"

definition mult_rl_helper ::
  "project_type \<Rightarrow> pos_neg \<Rightarrow> range_list \<Rightarrow> range_list \<Rightarrow> range_list" where
  "mult_rl_helper prj pn left right =
     (if left = [] \<or> right = [] then []
      else
        (let (low_left, low_right, high_left, high_right) = mult_corners pn left right
         in if sval_binop_overflows low_left (Ch CHR ''*'') low_right
               \<or> sval_binop_overflows high_left (Ch CHR ''*'') high_right
            then alloc_whole_rl prj (rl_type left)
            else alloc_rl prj (sval_binop low_left (Ch CHR ''*'') low_right)
                   (sval_binop high_left (Ch CHR ''*'') high_right)))"

definition rl_handle_mult :: "project_type \<Rightarrow> range_list \<Rightarrow> range_list \<Rightarrow> range_list" where
  "rl_handle_mult prj left right =
     (if is_zero_rl left then alloc_rl prj (rl_min left) (rl_min left)
      else if is_zero_rl right then alloc_rl prj (rl_min right) (rl_min right)
      else if is_whole_rl left \<or> is_whole_rl right then []
      else
        join4 prj (\<lambda>pn.
          let (l, r) = by_sign pn (get_neg_rl prj left) (get_pos_rl prj left)
                         (get_neg_rl prj right) (get_pos_rl prj right)
          in mult_rl_helper prj pn l r))"

section \<open>Addition and subtraction\<close>

definition ptr_add_mult :: "project_type \<Rightarrow> range_list \<Rightarrow> opcode \<Rightarrow> range_list \<Rightarrow> range_list" where
  "ptr_add_mult prj left op right =
     (case (rl_to_sval left, rl_to_sval right) of
        (Some l_sval, Some r_sval) \<Rightarrow>
          (let res = sval_binop l_sval op r_sval in alloc_rl prj res res)
      | _ \<Rightarrow>
          if svalue (rl_min left) \<noteq> 0 \<or> svalue (rl_max right) \<noteq> 0
          then cast_rl prj (rl_type left) (alloc_rl prj valid_ptr_min_sval valid_ptr_max_sval)
          else alloc_whole_rl prj (rl_type left))"

definition rl_handle_add :: "project_type \<Rightarrow> range_list \<Rightarrow> range_list \<Rightarrow> range_list" where
  "rl_handle_add prj left right =
     (if is_zero_rl left then right
      else if is_zero_rl right then left
      else if type_is_ptr (rl_type left) \<or> type_is_ptr (rl_type right) then
        ptr_add_mult prj left (Ch CHR ''+'') right
      else if sval_binop_overflows (rl_min left) (Ch CHR ''+'') (rl_min right) then []
      else if sval_binop_overflows (rl_max left) (Ch CHR ''+'') (rl_max right) then []
      else alloc_rl prj (sval_binop (rl_min left) (Ch CHR ''+'') (rl_min right))
             (sval_binop (rl_max left) (Ch CHR ''+'') (rl_max right)))"

definition get_signed_equivalent :: "ctype \<Rightarrow> ctype" where
  "get_signed_equivalent t =
     (if type_positive_bits t = 32 then Some int_ctype
      else if type_positive_bits t = 64 then Some llong_ctype
      else None)"

definition sub_rl_helper ::
  "project_type \<Rightarrow> range_list \<Rightarrow> range_list \<Rightarrow> opcode \<Rightarrow> range_list" where
  "sub_rl_helper prj left right comparison =
     (if left = [] \<or> right = [] then []
      else
        (let low_left = rl_min left;
             low_right = (if special_gt comparison \<and> sval_cmp (rl_min left) (rl_max right) < 0
                          then rl_min left else rl_max right);
             high_left = rl_max left; high_right = rl_min right
         in if sval_binop_overflows low_left (Ch CHR ''-'') low_right
               \<or> sval_binop_overflows high_left (Ch CHR ''-'') high_right
            then alloc_whole_rl prj (rl_type left)
            else alloc_rl prj (sval_binop low_left (Ch CHR ''-'') low_right)
                   (sval_binop high_left (Ch CHR ''-'') high_right)))"

definition valid_ptr_rl :: "project_type \<Rightarrow> range_list" where
  "valid_ptr_rl prj = cast_rl prj (Some ptr_ctype) (alloc_rl prj valid_ptr_min_sval valid_ptr_max_sval)"

text \<open>The part of \<^verbatim>\<open>rl_handle_sub\<close> after the operands have been made signed where needed.\<close>

definition sub_signed ::
  "project_type \<Rightarrow> ctype \<Rightarrow> range_list \<Rightarrow> range_list \<Rightarrow> opcode \<Rightarrow> range_list" where
  "sub_signed prj t left right comparison =
     (let left_neg = get_neg_rl prj left; left_pos = get_pos_rl prj left;
          right_neg = get_neg_rl prj right; right_pos = get_pos_rl prj right
      in if left_pos \<noteq> [] \<and> sval_is_max (rl_max left_pos) \<and> comparison = UNKNOWN_COMPARISON then []
         else if right_pos \<noteq> [] \<and> sval_is_max (rl_max right_pos) \<and> comparison = UNKNOWN_COMPARISON then []
         else
           (let no_neg = special_gt comparison \<and> \<not> has_negative_information left
                           \<and> \<not> has_negative_information right;
                left_neg = (if no_neg then [] else left_neg);
                right_neg = (if no_neg then [] else right_neg);
                ret = join4 prj (\<lambda>pn.
                  let (l, r) = by_sign pn left_neg left_pos right_neg right_pos
                  in sub_rl_helper prj l r comparison);
                ret = (if type_signed (rl_type left) \<and> no_neg
                       then rl_filter prj ret (alloc_rl prj (sval_type_min t) (mk_sval t (- 1)))
                       else ret);
                ret = cast_rl prj t ret
            in if special_strict comparison
               then rl_filter prj ret (alloc_rl prj (mk_sval t 0) (mk_sval t 0)) else ret))"

definition rl_handle_sub ::
  "project_type \<Rightarrow> range_list \<Rightarrow> range_list \<Rightarrow> opcode \<Rightarrow> range_list" where
  "rl_handle_sub prj left right comparison =
     (let t = rl_type left
      in if is_zero_rl right then left
         else if is_whole_rl left \<or> is_whole_rl right then []
         else if type_is_ptr t \<and> rl_to_sval right \<noteq> None then valid_ptr_rl prj
         else if type_unsigned t \<and> sval_cmp (rl_min left) (rl_max right) < 0 then
           (case get_signed_equivalent t of
              None \<Rightarrow> []
            | Some s \<Rightarrow>
                sub_signed prj t (cast_rl prj (Some s) left) (cast_rl prj (Some s) right) comparison)
         else sub_signed prj t left right comparison)"

section \<open>Bitwise operators\<close>

definition rl_bits_always_set :: "range_list \<Rightarrow> u64" where
  "rl_bits_always_set rl = sval_fls_mask (rl_min rl)"

definition rl_bits_maybe_set :: "range_list \<Rightarrow> u64" where
  "rl_bits_maybe_set rl = sval_fls_mask (rl_max rl)"

definition rl_handle_XOR :: "project_type \<Rightarrow> range_list \<Rightarrow> range_list \<Rightarrow> range_list" where
  "rl_handle_XOR prj left right =
     (if is_zero_rl left then right
      else if is_zero_rl right then left
      else
        (let left_set = rl_bits_always_set left; left_maybe = rl_bits_maybe_set left;
             right_set = rl_bits_always_set right; right_maybe = rl_bits_maybe_set right;
             zero = (rl_min left)\<lparr>sv_val := 0\<rparr>;
             mx = (rl_min left)\<lparr>sv_val :=
                     fls_mask ((left_maybe OR right_maybe) XOR (left_set AND right_set))\<rparr>
         in cast_rl prj (rl_type left) (alloc_rl prj zero mx)))"

text \<open>The loop \<^verbatim>\<open>for (i = 0; i < 64; i++)\<close>; \<open>n\<close> is \<open>64 - i\<close>.\<close>

fun lowest_bit_loop :: "u64 \<Rightarrow> nat \<Rightarrow> u64" where
  "lowest_bit_loop v 0 = 0"
| "lowest_bit_loop v (Suc n) =
     (if v AND push_bit (63 - n) 1 \<noteq> 0 then push_bit (63 - n) 1 else lowest_bit_loop v n)"

definition sval_lowest_set_bit :: "sval \<Rightarrow> sval" where
  "sval_lowest_set_bit sval = mk_sval (sv_type sval) (lowest_bit_loop (sv_val sval) 64)"

definition rl_AND_mask :: "project_type \<Rightarrow> range_list \<Rightarrow> u64 \<Rightarrow> range_list" where
  "rl_AND_mask prj rl msk =
     (let zero = mk_sval (rl_type rl) 0; mn = rl_min rl; mx = rl_max rl
      in if rl = [] then []
         else if msk = 0 then alloc_rl prj zero zero
         else
           (let bits = bi_possible (rl_to_binfo rl) AND msk;
                add_zero = (sv_val mn AND bits \<noteq> bits \<and> sv_val mn AND bits = 0);
                mn = (if sv_val mn AND bits \<noteq> bits then
                        (if sv_val mn AND bits = 0 then sval_lowest_set_bit (mk_sval (rl_type rl) bits)
                         else mn\<lparr>sv_val := sv_val mn AND bits\<rparr>)
                      else mn);
                mx = (if \<not> sval_is_max mx \<or> sm_fls64 (sv_val mx) > sm_fls64 bits
                      then mx\<lparr>sv_val := sv_val mx AND bits\<rparr> else mx);
                ret = alloc_rl prj mn mx
            in if add_zero then add_range prj ret zero zero else ret))"

definition rl_handle_AND :: "project_type \<Rightarrow> range_list \<Rightarrow> range_list \<Rightarrow> range_list" where
  "rl_handle_AND prj left right =
     (case (rl_to_sval left, rl_to_sval right) of
        (Some l, Some r) \<Rightarrow> (let sval = sval_binop l (Ch CHR ''&'') r in alloc_rl prj sval sval)
      | (Some l, None) \<Rightarrow> rl_AND_mask prj right (sv_val l)
      | (None, Some r) \<Rightarrow> rl_AND_mask prj left (sv_val r)
      | (None, None) \<Rightarrow>
          (let zero = mk_sval (rl_type left) 0;
               bits = bi_possible (rl_to_binfo left) AND bi_possible (rl_to_binfo right);
               mn = sval_lowest_set_bit (mk_sval (rl_type left) bits);
               mx = sval_min_nonneg (rl_max left) (rl_max right);
               mx = (if \<not> sval_is_max mx \<or> sm_fls64 (sv_val mx) > sm_fls64 bits
                     then mx\<lparr>sv_val := sv_val mx AND bits\<rparr> else mx)
           in add_range prj (alloc_rl prj mn mx) zero zero))"

section \<open>Shifts\<close>

definition rl_handle_lshift :: "project_type \<Rightarrow> range_list \<Rightarrow> range_list \<Rightarrow> range_list" where
  "rl_handle_lshift prj left_orig right_orig =
     (case rl_to_sval right_orig of
        None \<Rightarrow> []
      | Some shift \<Rightarrow>
          if sval_is_negative shift then []
          else if svalue shift = 0 then left_orig
          else
            (let zero = mk_sval (rl_type left_orig) 0;
                 left = (if type_positive_bits (rl_type left_orig) < 32
                         then cast_rl prj (Some uint_ctype) left_orig
                         else if type_positive_bits (rl_type left_orig) = 63
                         then cast_rl prj (Some ullong_ctype) left_orig
                         else left_orig);
                 (ret, add_zero) =
                   foldl (\<lambda>(ret, add_zero) tmp.
                     let mn = dr_min tmp; mx = dr_max tmp;
                         add_zero = (add_zero \<or> svalue mn = 0
                           \<or> uvalue mx > uint (shr64 (sv_val (sval_type_max (sv_type mx))) (sv_val shift)))
                     in if svalue mn = 0 \<and> svalue mx = 0 then (ret, add_zero)
                        else
                          (let mn = (if svalue mn = 0 then mn\<lparr>sv_val := 1\<rparr> else mn);
                               mn = sval_binop mn SPECIAL_LEFTSHIFT shift;
                               mx = sval_binop mx SPECIAL_LEFTSHIFT shift
                           in (add_range prj ret mn mx, add_zero))) ([], False) left;
                 add_zero = (add_zero \<or> \<not> rl_fits_in_type ret (rl_type left_orig));
                 ret = cast_rl prj (rl_type left_orig) ret
             in if add_zero then add_range prj ret zero zero else ret))"

definition rl_handle_rshift :: "project_type \<Rightarrow> range_list \<Rightarrow> range_list \<Rightarrow> range_list" where
  "rl_handle_rshift prj left_orig right_orig =
     (case rl_to_sval right_orig of
        None \<Rightarrow> []
      | Some shift \<Rightarrow>
          if sval_is_negative shift then []
          else if svalue shift = 0 then left_orig
          else
            foldl (\<lambda>ret tmp.
              add_range prj ret (sval_binop (dr_min tmp) SPECIAL_RIGHTSHIFT shift)
                (sval_binop (dr_max tmp) SPECIAL_RIGHTSHIFT shift)) [] left_orig)"

section \<open>All operators\<close>

text \<open>
  \<^verbatim>\<open>rl_binop\<close> over the handler it calls. Two handlers call \<^verbatim>\<open>rl_binop\<close> back: the remainder with
  \<open>*\<close> and the disjunction with \<open>+\<close>, whose own handlers do not call it. \<open>rl_binop_basic\<close> is
  \<^verbatim>\<open>rl_binop\<close> for those.
\<close>

definition rl_binop_with ::
  "(range_list \<Rightarrow> opcode \<Rightarrow> range_list \<Rightarrow> range_list) \<Rightarrow> project_type \<Rightarrow>
     range_list \<Rightarrow> opcode \<Rightarrow> range_list \<Rightarrow> range_list" where
  "rl_binop_with helper prj left op right =
     (if left = [] \<or> right = [] then []
      else
        (case (rl_to_sval left, rl_to_sval right) of
           (Some l, Some r) \<Rightarrow> (let v = sval_binop l op r in alloc_rl prj v v)
         | _ \<Rightarrow>
             (let (left, right) =
                    (if op = SPECIAL_RIGHTSHIFT \<or> op = SPECIAL_LEFTSHIFT then
                       (if type_positive_bits (rl_type left) < 31
                        then (cast_rl prj (Some int_ctype) left, right) else (left, right))
                     else
                       (let cast_type = get_binop_type left right
                        in (cast_rl prj cast_type left, cast_rl prj cast_type right)))
              in if length left * length right > 6 then helper left op right
                 else
                   foldl (\<lambda>ret dl.
                     foldl (\<lambda>ret dr.
                       rl_union prj ret
                         (helper (alloc_rl prj (dr_min dl) (dr_max dl)) op
                            (alloc_rl prj (dr_min dr) (dr_max dr)))) ret right) [] left)))"

definition rl_binop_helper_basic ::
  "project_type \<Rightarrow> range_list \<Rightarrow> opcode \<Rightarrow> range_list \<Rightarrow> range_list" where
  "rl_binop_helper_basic prj left op right =
     (if op = Ch CHR ''/'' then rl_handle_divide prj left right
      else if op = Ch CHR ''*'' then rl_handle_mult prj left right
      else if op = Ch CHR ''+'' then rl_handle_add prj left right
      else if op = Ch CHR ''-'' then rl_handle_sub prj left right UNKNOWN_COMPARISON
      else if op = SPECIAL_RIGHTSHIFT then rl_handle_rshift prj left right
      else if op = SPECIAL_LEFTSHIFT then rl_handle_lshift prj left right
      else if op = Ch CHR ''&'' then rl_handle_AND prj left right
      else if op = Ch CHR ''^'' then rl_handle_XOR prj left right
      else [])"

definition rl_binop_basic ::
  "project_type \<Rightarrow> range_list \<Rightarrow> opcode \<Rightarrow> range_list \<Rightarrow> range_list" where
  "rl_binop_basic prj = rl_binop_with (rl_binop_helper_basic prj) prj"

text \<open>The case \<^verbatim>\<open>POS_POS\<close> of \<^verbatim>\<open>mod_rl_helper\<close>, which the other three call.\<close>

definition mod_pos_pos :: "project_type \<Rightarrow> range_list \<Rightarrow> range_list \<Rightarrow> range_list" where
  "mod_pos_pos prj left right =
     (let right = rl_filter prj right (alloc_rl prj int_zero int_zero)
      in if left = [] \<or> right = [] then []
         else
           (let mx = (rl_max right)\<lparr>sv_val := sv_val (rl_max right) - 1\<rparr>
            in if sval_cmp (rl_max left) mx < 0 then left
               else alloc_rl prj (mk_sval (rl_type left) 0) mx))"

definition mod_rl_helper ::
  "project_type \<Rightarrow> pos_neg \<Rightarrow> range_list \<Rightarrow> range_list \<Rightarrow> range_list" where
  "mod_rl_helper prj pn left right =
     (let minus_one = alloc_rl prj int_minus_one int_minus_one;
          neg = (\<lambda>rl. rl_binop_basic prj rl (Ch CHR ''*'') minus_one);
          right = (if pn = NEG_POS then rl_filter prj right (alloc_rl prj int_zero int_zero) else right)
      in case pn of
           POS_POS \<Rightarrow> mod_pos_pos prj left right
         | POS_NEG \<Rightarrow> if left = [] \<or> right = [] then [] else neg (mod_pos_pos prj left (neg right))
         | NEG_POS \<Rightarrow> if left = [] \<or> right = [] then [] else neg (mod_pos_pos prj (neg left) right)
         | NEG_NEG \<Rightarrow> if left = [] \<or> right = [] then [] else mod_pos_pos prj (neg left) (neg right))"

definition rl_handle_mod :: "project_type \<Rightarrow> range_list \<Rightarrow> range_list \<Rightarrow> range_list" where
  "rl_handle_mod prj left right =
     (if is_zero_rl left then alloc_rl prj (rl_min left) (rl_min left)
      else if is_whole_rl right then
        alloc_rl prj (if sval_is_negative (rl_min left) then rl_min left else mk_sval (rl_type left) 0)
          (rl_max left)
      else if sval_is_max (rl_max right) then left
      else
        (let drop = \<not> has_negative_information left \<and> \<not> has_negative_information right;
             left_neg = (if drop then [] else get_neg_rl prj left);
             right_neg = (if drop then [] else get_neg_rl prj right)
         in join4 prj (\<lambda>pn.
              let (l, r) = by_sign pn left_neg (get_pos_rl prj left) right_neg (get_pos_rl prj right)
              in mod_rl_helper prj pn l r)))"

text \<open>\<^verbatim>\<open>ffsll\<close>: one more than the index of the lowest set bit, 0 for 0.\<close>

fun ffs_loop :: "u64 \<Rightarrow> nat \<Rightarrow> nat" where
  "ffs_loop v 0 = 0"
| "ffs_loop v (Suc n) = (if v AND push_bit (63 - n) 1 \<noteq> 0 then 64 - n else ffs_loop v n)"

definition ffsll :: "u64 \<Rightarrow> nat" where
  "ffsll v = ffs_loop v 64"

text \<open>\<^verbatim>\<open>1 << n\<close> in the type \<^verbatim>\<open>int\<close>, converted to \<^verbatim>\<open>long long\<close>.\<close>

definition shl_int_one :: "nat \<Rightarrow> u64" where
  "shl_int_one n = scast (push_bit (n mod 32) 1 :: 32 word)"

definition rl_handle_OR :: "project_type \<Rightarrow> range_list \<Rightarrow> range_list \<Rightarrow> range_list" where
  "rl_handle_OR prj left right =
     (if (rl_to_sval left \<noteq> None \<or> rl_to_sval right \<noteq> None)
         \<and> \<not> sval_binop_overflows (rl_max left) (Ch CHR ''+'') (rl_max right)
      then rl_binop_basic prj left (Ch CHR ''+'') right
      else
        (let l = bi_possible (rl_to_binfo left); r = bi_possible (rl_to_binfo right);
             low_bit = (if ffsll r > ffsll l then ffsll r else ffsll l)
         in if low_bit = 0 then []
            else
              add_range prj
                (alloc_rl prj (mk_sval (rl_type left) (shl_int_one (low_bit - 1)))
                   (mk_sval (rl_type left) (fls_mask (l OR r))))
                (mk_sval (rl_type left) 0) (mk_sval (rl_type left) 0)))"

definition rl_binop_helper ::
  "project_type \<Rightarrow> range_list \<Rightarrow> opcode \<Rightarrow> range_list \<Rightarrow> range_list" where
  "rl_binop_helper prj left op right =
     (if op = Ch CHR ''%'' then rl_handle_mod prj left right
      else if op = Ch CHR ''|'' then rl_handle_OR prj left right
      else rl_binop_helper_basic prj left op right)"

definition rl_binop ::
  "project_type \<Rightarrow> range_list \<Rightarrow> opcode \<Rightarrow> range_list \<Rightarrow> range_list" where
  "rl_binop prj = rl_binop_with (rl_binop_helper prj) prj"

end
