(* ===== verification/Range_Math_Facts.thy ===== *)
theory Range_Math_Facts
  imports Range_Math Range_Cmp
begin

text \<open>
  Soundness of the arithmetic on range lists: which handlers cover every result, and under
  which conditions \<^verbatim>\<open>rl_binop\<close> does.
\<close>

section \<open>Types of results\<close>

text \<open>The types \<^verbatim>\<open>rl_binop\<close> computes in: at least as wide as \<^verbatim>\<open>int\<close>, and no node of the symbol tree.\<close>

definition calc_type :: "ctype \<Rightarrow> bool" where
  "calc_type t \<longleftrightarrow> int_type_ok t \<and> overflow_type t t = t \<and> whole_type t = t"

lemma calc_typeD:
  "calc_type t \<Longrightarrow> int_type_ok t" "calc_type t \<Longrightarrow> arith_type t" "calc_type t \<Longrightarrow> overflow_type t t = t"
  by (simp_all add: calc_type_def int_type_ok_def)

lemma calc_type_builtin [simp]:
  "calc_type (Some int_ctype)" "calc_type (Some uint_ctype)" "calc_type (Some llong_ctype)" "calc_type (Some ullong_ctype)"
  by (simp_all add: calc_type_def overflow_type_def whole_type_def is_sym_def ctype_defs type_pred_defs int_type_ok_def arith_type_def)

lemma alloc_whole_rl_spec:
  assumes "calc_type t"
  shows "rl_ok t (alloc_whole_rl prj t)" "rl_set (alloc_whole_rl prj t) = {type_lo t..type_hi t}"
  using ar.alloc_whole_set [of t prj] assms by (simp_all add: calc_type_def alloc_whole_rl_def)

lemma alloc_rl_spec:
  assumes "calc_type t" "has_type t mn" "has_type t mx"
  shows "rl_ok t (alloc_rl prj mn mx)" "rl_set (alloc_rl prj mn mx) = span t mn mx"
proof -
  have i: "int_type_ok t" by (rule calc_typeD [OF assms(1)])
  have "sval_cmp mn mx = cmp_int (sval_int mn) (sval_int mx)" "sv_type mn = t"
    using assms(2,3) by (simp_all add: has_type_cmp has_typeD)
  then show "rl_ok t (alloc_rl prj mn mx)" "rl_set (alloc_rl prj mn mx) = span t mn mx"
    using alloc_whole_rl_spec [OF assms(1), of prj] ar.add_ok [OF i rl_ok_Nil assms(2,3), of prj]
      ar.add_set [OF i rl_ok_Nil assms(2,3), of prj]
    by (auto simp: alloc_rl_def span_def)
qed

lemma alloc_rl_range:
  assumes "calc_type t" "range_ok t d"
  shows "alloc_rl prj (dr_min d) (dr_max d) = [d]"
proof -
  have h: "has_type t (dr_min d)" "has_type t (dr_max d)" "dlo d \<le> dhi d"
    using assms(2) by (auto simp: range_ok_iff)
  have "rl_ok t [d]" using assms(2) by (simp add: rl_ok_Cons)
  moreover have "rl_set [d] = span t (dr_min d) (dr_max d)" using h(3) by (simp add: span_def rset_def)
  ultimately show ?thesis
    using alloc_rl_spec [OF assms(1) h(1,2), of prj] rl_ok_unique by metis
qed

section \<open>Splitting by sign\<close>

lemma get_neg_loop_spec:
  assumes "int_type_ok t" "rl_ok t ret" "rl_ok t rl"
  shows "rl_ok t (get_neg_loop prj ret rl)
    \<and> rl_set (get_neg_loop prj ret rl) = rl_set ret \<union> {x \<in> rl_set rl. x < 0}"
  using assms(2,3)
proof (induction rl arbitrary: ret)
  case (Cons d rl)
  have d: "range_ok t d" "rl_ok t rl" "\<forall>x \<in> rl_set rl. dhi d + 1 < x"
    using Cons.prems(2) by (auto simp: rl_ok_Cons)
  have h: "has_type t (dr_min d)" "has_type t (dr_max d)" "dlo d \<le> dhi d"
    using d(1) by (auto simp: range_ok_iff)
  have r: "rset d = {dlo d..dhi d}" by (simp add: rset_def)
  consider "0 \<le> dlo d" | "dlo d < 0" "0 \<le> dhi d" | "dhi d < 0" using h(3) by linarith
  then show ?case
  proof cases
    case 1
    then have "{x \<in> rl_set (d # rl). x < 0} = {}" using d(3) h(3) by (force simp: r)
    moreover have "get_neg_loop prj ret (d # rl) = ret"
      using 1 by (simp add: sval_is_positive_def sval_is_negative_iff)
    ultimately show ?thesis using Cons.prems(1) by (metis Un_empty_right)
  next
    case 2
    let ?m = "(dr_max d)\<lparr>sv_val := - 1\<rparr>"
    have "\<not> type_unsigned t" using 2(1) has_typeD(5) [OF h(1)] by (auto simp: type_lo_def split: if_splits)
    then have m: "sval_int ?m = - 1" "has_type t ?m"
      using h 2 has_typeD [OF h(2)] has_typeD [OF h(1)] type_hi_nonneg [of t]
      by (auto simp: sval_int_def has_type_def sval_ok_def)
    have "{x \<in> rl_set (d # rl). x < 0} = span t (dr_min d) ?m"
      using 2 d(3) h(3) m(1) by (force simp: r span_def)
    then show ?thesis
      using 2 ar.add_ok [OF assms(1) Cons.prems(1) h(1) m(2), of prj] ar.add_set [OF assms(1) Cons.prems(1) h(1) m(2), of prj]
      by (simp add: sval_is_positive_def sval_is_negative_iff)
  next
    case 3
    have s: "span t (dr_min d) (dr_max d) = rset d" using h(3) by (simp add: span_def r)
    have "{x \<in> rl_set (d # rl). x < 0} = rset d \<union> {x \<in> rl_set rl. x < 0}" using 3 by (auto simp: r)
    then show ?thesis
      using 3 h(3) s Cons.IH [OF ar.add_ok [OF assms(1) Cons.prems(1) h(1,2)] d(2)]
        ar.add_set [OF assms(1) Cons.prems(1) h(1,2), of prj]
      by (auto simp: sval_is_positive_def sval_is_negative_iff)
  qed
qed simp

lemma get_neg_rl_spec:
  assumes "int_type_ok t" "rl_ok t rl"
  shows "rl_ok t (get_neg_rl prj rl)" "rl_set (get_neg_rl prj rl) = {x \<in> rl_set rl. x < 0}"
proof -
  have *: "rl \<noteq> [] \<Longrightarrow> sval_is_positive (rl_min rl) \<Longrightarrow> {x \<in> rl_set rl. x < 0} = {}"
    using rl_min_ok(3) [OF assms(2)] by (force simp: sval_is_positive_def sval_is_negative_iff)
  show "rl_ok t (get_neg_rl prj rl)" "rl_set (get_neg_rl prj rl) = {x \<in> rl_set rl. x < 0}"
    using get_neg_loop_spec [OF assms(1) rl_ok_Nil assms(2), of prj] * by (auto simp: get_neg_rl_def)
qed

lemma get_pos_loop_spec:
  fixes prj :: project_type
  assumes "int_type_ok t" "rl_ok t ret" "rl_ok t rl"
  defines "f \<equiv> \<lambda>ret tmp. if sval_is_negative (dr_max tmp) then ret
     else if sval_is_positive (dr_min tmp) then add_range prj ret (dr_min tmp) (dr_max tmp)
     else add_range prj ret ((dr_min tmp)\<lparr>sv_val := 0\<rparr>) (dr_max tmp)"
  shows "rl_ok t (foldl f ret rl) \<and> rl_set (foldl f ret rl) = rl_set ret \<union> {x \<in> rl_set rl. 0 \<le> x}"
  using assms(2,3)
proof (induction rl arbitrary: ret)
  case (Cons d rl)
  have d: "range_ok t d" "rl_ok t rl" using Cons.prems(2) by (auto simp: rl_ok_Cons)
  have h: "has_type t (dr_min d)" "has_type t (dr_max d)" "dlo d \<le> dhi d"
    using d(1) by (auto simp: range_ok_iff)
  have r: "rset d = {dlo d..dhi d}" by (simp add: rset_def)
  have "rl_ok t (f ret d) \<and> rl_set (f ret d) = rl_set ret \<union> {x \<in> rset d. 0 \<le> x}"
  proof -
    consider "dhi d < 0" | "0 \<le> dlo d" | "dlo d < 0" "0 \<le> dhi d" using h(3) by linarith
    then show ?thesis
    proof cases
      case 1
      then show ?thesis using Cons.prems(1) by (auto simp: f_def sval_is_negative_iff r)
    next
      case 2
      then have "span t (dr_min d) (dr_max d) = {x \<in> rset d. 0 \<le> x}" using h(3) by (auto simp: span_def r)
      then show ?thesis
        using 2 h(3) ar.add_ok [OF assms(1) Cons.prems(1) h(1,2), of prj] ar.add_set [OF assms(1) Cons.prems(1) h(1,2), of prj]
        by (simp add: f_def sval_is_positive_def sval_is_negative_iff)
    next
      case 3
      let ?m = "(dr_min d)\<lparr>sv_val := 0\<rparr>"
      have m: "sval_int ?m = 0" "has_type t ?m"
        using has_typeD [OF h(1)] has_typeD(6) [OF h(2)] 3 by (auto simp: sval_int_def has_type_def sval_ok_def)
      have "span t ?m (dr_max d) = {x \<in> rset d. 0 \<le> x}" using 3 m(1) by (auto simp: span_def r)
      then show ?thesis
        using 3 ar.add_ok [OF assms(1) Cons.prems(1) m(2) h(2), of prj] ar.add_set [OF assms(1) Cons.prems(1) m(2) h(2), of prj]
        by (simp add: f_def sval_is_positive_def sval_is_negative_iff)
    qed
  qed
  then show ?case using Cons.IH [OF _ d(2)] by auto
qed simp

lemma get_pos_rl_spec:
  assumes "int_type_ok t" "rl_ok t rl"
  shows "rl_ok t (get_pos_rl prj rl)" "rl_set (get_pos_rl prj rl) = {x \<in> rl_set rl. 0 \<le> x}"
proof -
  have *: "rl \<noteq> [] \<Longrightarrow> sval_is_negative (rl_max rl) \<Longrightarrow> {x \<in> rl_set rl. 0 \<le> x} = {}"
    using rl_max_ok(3) [OF assms(2)] by (force simp: sval_is_negative_iff)
  show "rl_ok t (get_pos_rl prj rl)" "rl_set (get_pos_rl prj rl) = {x \<in> rl_set rl. 0 \<le> x}"
    using get_pos_loop_spec [OF assms(1) rl_ok_Nil assms(2), of prj] * by (auto simp: get_pos_rl_def)
qed

section \<open>Joining the four parts\<close>

lemma join4_spec:
  assumes "int_type_ok t" "\<And>pn. rl_ok t (part pn)"
  shows "rl_ok t (join4 prj part)" "rl_set (join4 prj part) = (\<Union>pn. rl_set (part pn))"
proof -
  have u: "(\<Union>pn. rl_set (part pn)) =
    rl_set (part NEG_NEG) \<union> rl_set (part NEG_POS) \<union> rl_set (part POS_NEG) \<union> rl_set (part POS_POS)"
    by (auto intro: pos_neg.exhaust) (metis pos_neg.exhaust)
  note un = rl_union_spec [OF assms(1)]
  show "rl_ok t (join4 prj part)" "rl_set (join4 prj part) = (\<Union>pn. rl_set (part pn))"
    using un [OF assms(2) assms(2), of prj NEG_NEG NEG_POS] un [OF _ assms(2)] unfolding u join4_def Let_def
    by blast+
qed

text \<open>The part of the operands that a pair of values belongs to.\<close>

definition sign_of :: "int \<Rightarrow> int \<Rightarrow> pos_neg" where
  "sign_of x y =
     (if 0 \<le> x then (if 0 \<le> y then POS_POS else POS_NEG) else (if 0 \<le> y then NEG_POS else NEG_NEG))"

lemma by_sign_spec:
  assumes "int_type_ok t" "rl_ok t a" "rl_ok t b"
    "by_sign pn (get_neg_rl prj a) (get_pos_rl prj a) (get_neg_rl prj b) (get_pos_rl prj b) = (l, r)"
  shows "rl_ok t l" "rl_ok t r" "x \<in> rl_set l \<Longrightarrow> y \<in> rl_set r \<Longrightarrow> sign_of x y = pn"
    "x \<in> rl_set a \<Longrightarrow> y \<in> rl_set b \<Longrightarrow> sign_of x y = pn \<Longrightarrow> x \<in> rl_set l \<and> y \<in> rl_set r"
    "rl_set l \<subseteq> rl_set a" "rl_set r \<subseteq> rl_set b"
  using assms(4) get_neg_rl_spec [OF assms(1,2), of prj] get_pos_rl_spec [OF assms(1,2), of prj]
    get_neg_rl_spec [OF assms(1,3), of prj] get_pos_rl_spec [OF assms(1,3), of prj]
  by (cases pn; auto simp: by_sign_def sign_of_def split: if_splits)+

text \<open>Operands of one call: parts of the two lists whose values have the signs that the call is for.\<close>

definition sign_part :: "ctype \<Rightarrow> int set \<Rightarrow> int set \<Rightarrow> pos_neg \<Rightarrow> range_list \<Rightarrow> range_list \<Rightarrow> bool" where
  "sign_part t A B pn l r \<longleftrightarrow> rl_ok t l \<and> rl_ok t r \<and> rl_set l \<subseteq> A \<and> rl_set r \<subseteq> B
     \<and> (\<forall>x \<in> rl_set l. \<forall>y \<in> rl_set r. sign_of x y = pn)"

lemma split_covers:
  assumes "int_type_ok t" "rl_ok t a" "rl_ok t b"
    and part: "\<forall>pn l r. sign_part t (rl_set a) (rl_set b) pn l r \<longrightarrow>
      rl_ok t (h pn l r) \<and> (\<forall>x \<in> rl_set l. \<forall>y \<in> rl_set r. P x y \<longrightarrow> f x y \<in> rl_set (h pn l r))"
  shows "rl_ok t (join4 prj (\<lambda>pn.
      let (l, r) = by_sign pn (get_neg_rl prj a) (get_pos_rl prj a) (get_neg_rl prj b) (get_pos_rl prj b)
      in h pn l r))" (is "rl_ok t (join4 prj ?part)")
    and "x \<in> rl_set a \<Longrightarrow> y \<in> rl_set b \<Longrightarrow> P x y \<Longrightarrow> f x y \<in> rl_set (join4 prj (\<lambda>pn.
      let (l, r) = by_sign pn (get_neg_rl prj a) (get_pos_rl prj a) (get_neg_rl prj b) (get_pos_rl prj b)
      in h pn l r))"
proof -
  have p: "rl_ok t (?part pn) \<and> (\<forall>x \<in> rl_set a. \<forall>y \<in> rl_set b. sign_of x y = pn \<longrightarrow> P x y \<longrightarrow> f x y \<in> rl_set (?part pn))" for pn
  proof -
    obtain l r where lr: "by_sign pn (get_neg_rl prj a) (get_pos_rl prj a) (get_neg_rl prj b) (get_pos_rl prj b) = (l, r)"
      by (cases "by_sign pn (get_neg_rl prj a) (get_pos_rl prj a) (get_neg_rl prj b) (get_pos_rl prj b)")
    note s = by_sign_spec [OF assms(1-3) lr]
    have "sign_part t (rl_set a) (rl_set b) pn l r" using s(1,2,3,5,6) by (simp add: sign_part_def)
    with part s(4) show ?thesis unfolding lr by auto
  qed
  then have ok: "\<And>pn. rl_ok t (?part pn)" by blast
  show "rl_ok t (join4 prj ?part)" by (rule join4_spec(1) [OF assms(1) ok])
  show "f x y \<in> rl_set (join4 prj ?part)" if "x \<in> rl_set a" "y \<in> rl_set b" "P x y"
    unfolding join4_spec(2) [OF assms(1) ok] using p [of "sign_of x y"] that by blast
qed

section \<open>Multiplication\<close>

lemma binop_exact:
  assumes "calc_type t" "has_type t l" "has_type t r" "overflow_op op"
  shows "has_type t (sval_binop l op r)"
    "sval_int (sval_binop l op r) = wrap t (int_binop op (sval_int l) (sval_int r))"
    "sval_binop_overflows l op r \<longleftrightarrow>
       \<not> (type_lo t \<le> int_binop op (sval_int l) (sval_int r) \<and> int_binop op (sval_int l) (sval_int r) \<le> type_hi t)"
proof -
  have ty: "sv_type l = t" "sv_type r = t" "overflow_type t t = t" "int_type_ok t"
    using assms by (simp_all add: has_typeD calc_type_def)
  then have i: "int_type_ok (sv_type l)" "int_type_ok (sv_type r)" by simp_all
  have w: "wrap t (sval_int l) = sval_int l" "wrap t (sval_int r) = sval_int r"
    using has_typeD [OF assms(2)] has_typeD [OF assms(3)] by (simp_all add: wrap_id)
  show "has_type t (sval_binop l op r)" using sval_binop_ok [OF i] ty by (simp add: has_type_def)
  show "sval_int (sval_binop l op r) = wrap t (int_binop op (sval_int l) (sval_int r))"
    using sval_binop_arith [OF i assms(4)] ty by simp
  show "sval_binop_overflows l op r \<longleftrightarrow>
       \<not> (type_lo t \<le> int_binop op (sval_int l) (sval_int r) \<and> int_binop op (sval_int l) (sval_int r) \<le> type_hi t)"
    using sval_binop_overflows_iff [OF i assms(4) refl] ty w by auto
qed

lemma alloc_corners:
  fixes prj :: project_type
  assumes "calc_type t" "has_type t a" "has_type t b" "has_type t c" "has_type t d" "overflow_op op"
  defines "r \<equiv> (if sval_binop_overflows a op b \<or> sval_binop_overflows c op d then alloc_whole_rl prj t
                else alloc_rl prj (sval_binop a op b) (sval_binop c op d))"
  shows "rl_ok t r" "int_binop op (sval_int a) (sval_int b) \<le> v \<Longrightarrow> v \<le> int_binop op (sval_int c) (sval_int d) \<Longrightarrow>
    wrap t v \<in> rl_set r"
proof -
  note x = binop_exact [OF assms(1,2,3,6)] and y = binop_exact [OF assms(1,4,5,6)]
  have at: "arith_type t" by (rule calc_typeD [OF assms(1)])
  show "rl_ok t r" using alloc_whole_rl_spec [OF assms(1)] alloc_rl_spec(1) [OF assms(1) x(1) y(1)] by (simp add: r_def)
  show "wrap t v \<in> rl_set r" if v: "int_binop op (sval_int a) (sval_int b) \<le> v" "v \<le> int_binop op (sval_int c) (sval_int d)"
  proof (cases "sval_binop_overflows a op b \<or> sval_binop_overflows c op d")
    case True
    then show ?thesis using alloc_whole_rl_spec(2) [OF assms(1)] wrap_bounds [OF at] by (simp add: r_def)
  next
    case False
    then have b: "type_lo t \<le> int_binop op (sval_int a) (sval_int b)" "int_binop op (sval_int a) (sval_int b) \<le> type_hi t"
      "type_lo t \<le> int_binop op (sval_int c) (sval_int d)" "int_binop op (sval_int c) (sval_int d) \<le> type_hi t"
      using x(3) y(3) by auto
    then have "sval_int (sval_binop a op b) = int_binop op (sval_int a) (sval_int b)"
      "sval_int (sval_binop c op d) = int_binop op (sval_int c) (sval_int d)" "wrap t v = v"
      using x(2) y(2) v wrap_id [OF at] by simp_all
    then show ?thesis using False v alloc_rl_spec(2) [OF assms(1) x(1) y(1), of prj] by (auto simp: r_def span_def)
  qed
qed

lemma mult_between:
  fixes x y :: int
  assumes "0 \<le> a" "a \<le> x" "x \<le> b" "0 \<le> c" "c \<le> y" "y \<le> d"
  shows "a * c \<le> x * y" "x * y \<le> b * d"
  using assms by (auto intro: mult_mono)

lemma mult_rl_helper_spec:
  assumes "calc_type t" "rl_ok t l" "rl_ok t r"
    and sg: "\<And>x y. x \<in> rl_set l \<Longrightarrow> y \<in> rl_set r \<Longrightarrow> sign_of x y = pn"
  shows "rl_ok t (mult_rl_helper prj pn l r)
    \<and> (\<forall>x \<in> rl_set l. \<forall>y \<in> rl_set r. wrap t (x * y) \<in> rl_set (mult_rl_helper prj pn l r))"
proof (cases "l = [] \<or> r = []")
  case True
  then show ?thesis by (auto simp: mult_rl_helper_def)
next
  case False
  then have ne: "l \<noteq> []" "r \<noteq> []" by auto
  note lm = rl_min_ok [OF assms(2) ne(1)] rl_max_ok [OF assms(2) ne(1)]
    and rm = rl_min_ok [OF assms(3) ne(2)] rl_max_ok [OF assms(3) ne(2)]
  obtain a b c d where abcd: "mult_corners pn l r = (a, b, c, d)" by (cases "mult_corners pn l r")
  then have ty: "has_type t a" "has_type t b" "has_type t c" "has_type t d"
    using lm(1,4) rm(1,4) by (cases pn; auto simp: mult_corners_def)+
  have rt: "rl_type l = t" using rl_type_ok [OF assms(2)] ne by simp
  have m: "mult_rl_helper prj pn l r =
      (if sval_binop_overflows a (Ch CHR ''*'') b \<or> sval_binop_overflows c (Ch CHR ''*'') d then alloc_whole_rl prj t
       else alloc_rl prj (sval_binop a (Ch CHR ''*'') b) (sval_binop c (Ch CHR ''*'') d))"
    using ne abcd rt by (simp add: mult_rl_helper_def)
  have sgm: "sign_of (sval_int (rl_min l)) (sval_int (rl_min r)) = pn" "sign_of (sval_int (rl_max l)) (sval_int (rl_max r)) = pn"
    using sg lm(2,5) rm(2,5) by blast+
  have "sval_int a * sval_int b \<le> x * y \<and> x * y \<le> sval_int c * sval_int d" if "x \<in> rl_set l" "y \<in> rl_set r" for x y
  proof -
    have s: "sign_of x y = pn" "sval_int (rl_min l) \<le> x" "x \<le> sval_int (rl_max l)" "sval_int (rl_min r) \<le> y" "y \<le> sval_int (rl_max r)"
      using sg lm(3,6) rm(3,6) that by auto
    show ?thesis
    proof (cases pn)
      case POS_POS
      then show ?thesis using s sgm abcd mult_between [of "sval_int (rl_min l)" x "sval_int (rl_max l)" "sval_int (rl_min r)" y "sval_int (rl_max r)"]
        by (auto simp: mult_corners_def sign_of_def split: if_splits)
    next
      case POS_NEG
      then show ?thesis using s sgm abcd mult_between [of "sval_int (rl_min l)" x "sval_int (rl_max l)" "- sval_int (rl_max r)" "- y" "- sval_int (rl_min r)"]
        by (auto simp: mult_corners_def sign_of_def split: if_splits)
    next
      case NEG_POS
      then show ?thesis using s sgm abcd mult_between [of "- sval_int (rl_max l)" "- x" "- sval_int (rl_min l)" "sval_int (rl_min r)" y "sval_int (rl_max r)"]
        by (auto simp: mult_corners_def sign_of_def split: if_splits)
    next
      case NEG_NEG
      then show ?thesis using s sgm abcd mult_between [of "- sval_int (rl_max l)" "- x" "- sval_int (rl_min l)" "- sval_int (rl_max r)" "- y" "- sval_int (rl_min r)"]
        by (auto simp: mult_corners_def sign_of_def split: if_splits)
    qed
  qed
  then show ?thesis
    using alloc_corners [OF assms(1) ty, where op = "Ch CHR ''*''" and prj = prj] by (simp add: m overflow_op_def int_binop_def)
qed

lemma is_zero_rl_iff:
  assumes "rl_ok t a" "a \<noteq> []"
  shows "is_zero_rl a \<longleftrightarrow> rl_set a = {0}"
proof -
  note mn = rl_min_ok [OF assms] and mx = rl_max_ok [OF assms]
  have z: "sv_val s = 0 \<longleftrightarrow> sval_int s = 0" for s by (simp add: sval_int_def)
  have "is_zero_rl a \<longleftrightarrow> sval_int (rl_min a) = sval_int (rl_max a) \<and> sval_int (rl_min a) = 0"
    using assms(2) has_type_cmp [OF mn(1) mx(1)] by (simp add: is_zero_rl_def rl_to_sval_def z cmp_int_def)
  then show ?thesis using mn(2,3) mx(2,3) by (metis antisym singletonD singletonI subsetI subset_singletonD empty_iff)
qed

lemma rl_zero_const:
  assumes "calc_type t" "rl_ok t a" "a \<noteq> []" "is_zero_rl a"
  shows "rl_ok t (alloc_rl prj (rl_min a) (rl_min a))" "rl_set (alloc_rl prj (rl_min a) (rl_min a)) = {0}"
proof -
  have "rl_set a = {0}" using is_zero_rl_iff [OF assms(2,3)] assms(4) by simp
  then have "sval_int (rl_min a) = 0" using rl_min_ok(2) [OF assms(2,3)] by simp
  then show "rl_ok t (alloc_rl prj (rl_min a) (rl_min a))" "rl_set (alloc_rl prj (rl_min a) (rl_min a)) = {0}"
    using alloc_rl_spec [OF assms(1) rl_min_ok(1) [OF assms(2,3)] rl_min_ok(1) [OF assms(2,3)], of prj]
    by (auto simp: span_def)
qed

lemma is_whole_rl_iff:
  assumes "rl_ok t a" "a \<noteq> []"
  shows "is_whole_rl a \<longleftrightarrow> rl_set a = {type_lo t..type_hi t}"
proof -
  obtain d rl where a: "a = d # rl" using assms(2) by (cases a) auto
  have d: "range_ok t d" "\<forall>x \<in> rl_set rl. dhi d + 1 < x" "rl_ok t rl" using assms(1) by (auto simp: a rl_ok_Cons)
  have h: "has_type t (dr_min d)" "has_type t (dr_max d)" "dlo d \<le> dhi d" using d(1) by (auto simp: range_ok_iff)
  have r: "rset d = {dlo d..dhi d}" by (simp add: rset_def)
  note lo = has_typeD [OF h(1)] and hi = has_typeD [OF h(2)]
  have w: "is_whole_rl a \<longleftrightarrow> dlo d = type_lo t \<and> dhi d = type_hi t"
    using lo hi by (simp add: is_whole_rl_def a sval_is_min_iff sval_is_max_iff)
  show ?thesis
  proof
    assume "is_whole_rl a"
    then show "rl_set a = {type_lo t..type_hi t}"
      using w d(2) rl_set_bounds [OF d(3)] by (force simp: a r)
  next
    assume s: "rl_set a = {type_lo t..type_hi t}"
    have "type_lo t \<le> type_hi t" using lo(5) hi(6) h(3) by linarith
    then have "type_lo t \<in> rl_set a" using s by simp
    moreover have "type_lo t \<notin> rl_set rl" using d(2) hi(5) by force
    ultimately have "type_lo t \<in> rset d" by (simp add: a)
    moreover have "dhi d = type_hi t"
    proof (rule ccontr)
      assume "dhi d \<noteq> type_hi t"
      then have "dhi d + 1 \<in> rl_set a" using s lo(5,6) hi(5,6) by auto
      then show False using d(2) by (auto simp: a r)
    qed
    ultimately show "is_whole_rl a" using w lo(5) by (auto simp: r)
  qed
qed

lemma rl_handle_mult_spec:
  assumes "calc_type t" "rl_ok t a" "rl_ok t b" "a \<noteq> []" "b \<noteq> []" "\<not> is_whole_rl a" "\<not> is_whole_rl b"
  shows "rl_ok t (rl_handle_mult prj a b)"
    "x \<in> rl_set a \<Longrightarrow> y \<in> rl_set b \<Longrightarrow> wrap t (x * y) \<in> rl_set (rl_handle_mult prj a b)"
proof -
  have i: "int_type_ok t" "arith_type t" using calc_typeD [OF assms(1)] by auto
  note z = is_zero_rl_iff [OF assms(2,4)] is_zero_rl_iff [OF assms(3,5)]
    and za = rl_zero_const [OF assms(1,2,4), of prj] and zb = rl_zero_const [OF assms(1,3,5), of prj]
  define j where "j = join4 prj (\<lambda>pn.
      let (l, r) = by_sign pn (get_neg_rl prj a) (get_pos_rl prj a) (get_neg_rl prj b) (get_pos_rl prj b)
      in mult_rl_helper prj pn l r)"
  have hm: "rl_handle_mult prj a b = (if is_zero_rl a then alloc_rl prj (rl_min a) (rl_min a)
      else if is_zero_rl b then alloc_rl prj (rl_min b) (rl_min b) else j)"
    unfolding rl_handle_mult_def j_def using assms(6,7) by simp
  have part: "\<forall>pn l r. sign_part t (rl_set a) (rl_set b) pn l r \<longrightarrow> rl_ok t (mult_rl_helper prj pn l r) \<and>
      (\<forall>x \<in> rl_set l. \<forall>y \<in> rl_set r. True \<longrightarrow> wrap t (x * y) \<in> rl_set (mult_rl_helper prj pn l r))"
    using mult_rl_helper_spec [OF assms(1)] by (simp add: sign_part_def)
  have main: "rl_ok t j" "x \<in> rl_set a \<Longrightarrow> y \<in> rl_set b \<Longrightarrow> wrap t (x * y) \<in> rl_set j" for x y
    unfolding j_def by (rule split_covers [OF i(1) assms(2,3) part]; simp)+
  show "rl_ok t (rl_handle_mult prj a b)" unfolding hm using main(1) za(1) zb(1) by (simp split: if_split)
  show "wrap t (x * y) \<in> rl_set (rl_handle_mult prj a b)" if xy: "x \<in> rl_set a" "y \<in> rl_set b"
  proof -
    have "x = 0" if "is_zero_rl a" using that z(1) xy(1) by blast
    moreover have "y = 0" if "is_zero_rl b" using that z(2) xy(2) by blast
    moreover have "wrap t 0 = 0" by (rule wrap_0 [OF i(2)])
    ultimately have "wrap t (x * y) = 0" if "is_zero_rl a \<or> is_zero_rl b" using that by fastforce
    then show ?thesis unfolding hm using main(2) [OF xy] za(2) zb(2) by (simp split: if_split)
  qed
qed

section \<open>Division\<close>

lemma range_ok_int_zero: "range_ok (Some int_ctype) (alloc_range int_zero int_zero)"
  by (simp add: range_ok_iff has_type_def sval_ok_def int_zero_def mk_sval_def sval_int_def arith_type_def)

lemma filter_zero:
  assumes "int_type_ok t" "rl_ok t r"
  shows "rl_ok t (rl_filter prj r (alloc_rl prj int_zero int_zero))"
    "rl_set (rl_filter prj r (alloc_rl prj int_zero int_zero)) = rl_set r - {0}"
proof -
  have z: "alloc_rl prj int_zero int_zero = [alloc_range int_zero int_zero]"
    using alloc_rl_range [OF _ range_ok_int_zero, of prj] by simp
  have w: "wrap t (sval_int int_zero) = 0" "\<not> type_is_fp (sv_type int_zero)"
    using wrap_0 [OF int_type_ok_arith [OF assms(1)]] by (simp_all add: int_zero_def mk_sval_def sval_int_def)
  show "rl_ok t (rl_filter prj r (alloc_rl prj int_zero int_zero))"
    "rl_set (rl_filter prj r (alloc_rl prj int_zero int_zero)) = rl_set r - {0}"
    using remove_range_spec [OF assms w(2) w(2) refl refl, of prj] by (simp_all add: z rl_filter_def w(1))
qed

lemma div_between:
  fixes x y :: int
  assumes "0 \<le> a" "a \<le> x" "x \<le> b" "0 < c" "c \<le> y" "y \<le> d"
  shows "a div d \<le> x div y" "x div y \<le> b div c"
proof -
  have "a div d \<le> a div y" using assms by (intro zdiv_mono2) auto
  also have "\<dots> \<le> x div y" using assms by (intro zdiv_mono1) auto
  finally show "a div d \<le> x div y" .
  have "x div y \<le> b div y" using assms by (intro zdiv_mono1) auto
  also have "\<dots> \<le> b div c" using assms by (intro zdiv_mono2) auto
  finally show "x div y \<le> b div c" .
qed

lemma sdiv_sign:
  fixes x y :: int
  shows "0 \<le> x \<Longrightarrow> 0 < y \<Longrightarrow> x sdiv y = x div y" "0 \<le> x \<Longrightarrow> y < 0 \<Longrightarrow> x sdiv y = - (x div - y)"
    "x < 0 \<Longrightarrow> 0 < y \<Longrightarrow> x sdiv y = - (- x div y)" "x < 0 \<Longrightarrow> y < 0 \<Longrightarrow> x sdiv y = - x div - y"
  by (cases "x = 0"; simp add: signed_divide_int_def sgn_if)+

lemma calc_type_bits: "calc_type t \<Longrightarrow> type_bits t \<noteq> 1"
proof
  assume t: "calc_type t" "type_bits t = 1"
  then have "arith_type t" "\<not> is_ptr_type t" by (simp_all add: calc_type_def int_type_ok_def)
  then have "type_positive_bits t = 1" using t(2) by (auto simp: type_positive_bits_def arith_type_def)
  then have "overflow_type t t = Some int_ctype" by (simp add: overflow_type_def type_positive_bits_def)
  then show False using t by (auto simp: calc_type_def)
qed

lemma signed_bounds:
  assumes "calc_type t"
  shows "\<not> type_unsigned t \<Longrightarrow> type_lo t = - (type_hi t + 1)" "\<not> type_unsigned t \<Longrightarrow> wrap t (type_hi t + 1) = type_lo t"
proof -
  have a: "arith_type t" by (rule calc_typeD [OF assms])
  show "type_lo t = - (type_hi t + 1)" if "\<not> type_unsigned t" using that by (simp add: type_lo_def type_hi_def)
  show "wrap t (type_hi t + 1) = type_lo t" if "\<not> type_unsigned t"
    using a that calc_type_bits [OF assms] by (cases rule: arith_type_cases)
      (auto simp: wrap_def swrap_def type_lo_def type_hi_def type_width_def)
qed

lemma wrap_span:
  assumes t: "calc_type t" and m: "has_type t m" "has_type t M" "sval_int m = wrap t lo" "sval_int M = wrap t hi"
    and v: "lo \<le> v" "v \<le> hi" "type_lo t \<le> lo" "hi \<le> type_hi t \<or> hi = type_hi t + 1 \<and> 0 \<le> lo \<and> \<not> type_unsigned t"
  shows "wrap t v \<in> span t m M"
proof -
  have a: "arith_type t" by (rule calc_typeD [OF t])
  consider "hi \<le> type_hi t" | "hi = type_hi t + 1" "0 \<le> lo" "\<not> type_unsigned t" "lo \<le> type_hi t"
    | "hi = type_hi t + 1" "\<not> type_unsigned t" "v = hi" "lo = hi"
    using v by linarith
  then show ?thesis
  proof cases
    case 1
    then show ?thesis using m(3,4) v wrap_id [OF a] by (simp add: span_def)
  next
    case 2
    then have "sval_int m = lo" "sval_int M = type_lo t" using m(3,4) v wrap_id [OF a] signed_bounds [OF t] by auto
    moreover have "type_lo t < lo" using 2 signed_bounds(1) [OF t] type_hi_nonneg [OF a] by simp
    ultimately show ?thesis using wrap_bounds [OF a] by (simp add: span_def)
  next
    case 3
    then show ?thesis using m(3,4) by (simp add: span_def)
  qed
qed

lemma binop_divide:
  assumes "calc_type t" "has_type t l" "has_type t r" "sval_int r \<noteq> 0" "\<not> (sval_int l = LLONG_MIN \<and> sval_int r = -1)"
  shows "has_type t (sval_binop l (Ch CHR ''/'') r)"
    "sval_int (sval_binop l (Ch CHR ''/'') r) = wrap t (sval_int l sdiv sval_int r)"
proof -
  have ty: "sv_type l = t" "sv_type r = t" "overflow_type t t = t" "int_type_ok t"
    using assms by (simp_all add: has_typeD calc_type_def)
  then have i: "int_type_ok (sv_type l)" "int_type_ok (sv_type r)" by simp_all
  show "has_type t (sval_binop l (Ch CHR ''/'') r)" using sval_binop_ok [OF i] ty by (simp add: has_type_def)
  show "sval_int (sval_binop l (Ch CHR ''/'') r) = wrap t (sval_int l sdiv sval_int r)"
    using sval_binop_divide [OF i refl] ty has_typeD(5,6) [OF assms(2)] has_typeD(5,6) [OF assms(3)] assms(4,5) by simp
qed

text \<open>The bounds that \<^verbatim>\<open>divide_rl_helper\<close> computes, as integers.\<close>

lemma divide_corners:
  fixes x y :: int
  assumes sg: "\<And>x y. x \<in> {l1, l2} \<Longrightarrow> y \<in> {r1, r2} \<Longrightarrow> sign_of x y = pn" and "r1 \<noteq> 0" "r2 \<noteq> 0" "y \<noteq> 0"
    and x: "l1 \<le> x" "x \<le> l2" "r1 \<le> y" "y \<le> r2"
  defines "c \<equiv> (case pn of POS_POS \<Rightarrow> (l1, r2, l2, r1) | POS_NEG \<Rightarrow> (l2, r2, l1, r1)
                | NEG_POS \<Rightarrow> (l1, r1, l2, r2) | NEG_NEG \<Rightarrow> (l2, r1, l1, r2))"
  shows "(case c of (a, b, d, e) \<Rightarrow> a sdiv b \<le> x sdiv y \<and> x sdiv y \<le> d sdiv e
    \<and> (pn = POS_POS \<or> pn = NEG_NEG \<longrightarrow> 0 \<le> a sdiv b)
    \<and> (if pn = NEG_NEG then d sdiv e \<le> - l1 else min 0 (min l1 (- l2)) \<le> a sdiv b \<and> d sdiv e \<le> max 0 l2))"
proof -
  have s: "sign_of l1 r1 = pn" "sign_of l2 r2 = pn" using sg by auto
  have dv: "0 \<le> a div b \<and> a div b \<le> a" if "0 \<le> a" "0 < b" for a b :: int
    using that zdiv_mono2 [of a 1 b] by (simp add: pos_imp_zdiv_nonneg_iff)
  show ?thesis
  proof (cases pn)
    case POS_POS
    then have "0 \<le> l1" "0 < r1" using s assms(2) by (auto simp: sign_of_def split: if_splits)
    then show ?thesis using POS_POS x div_between [of l1 x l2 r1 y r2] dv [of l1 r2] dv [of l2 r1]
      by (auto simp: c_def sdiv_sign)
  next
    case POS_NEG
    then have "0 \<le> l1" "r2 < 0" using s by (auto simp: sign_of_def split: if_splits)
    then show ?thesis using POS_NEG x div_between [of l1 x l2 "- r2" "- y" "- r1"] dv [of l1 "- r1"] dv [of l2 "- r2"]
      by (auto simp: c_def sdiv_sign)
  next
    case NEG_POS
    then have "l2 < 0" "0 < r1" using s assms(2) by (auto simp: sign_of_def split: if_splits)
    then show ?thesis using NEG_POS x div_between [of "- l2" "- x" "- l1" r1 y r2] dv [of "- l1" r1] dv [of "- l2" r2]
      by (auto simp: c_def sdiv_sign)
  next
    case NEG_NEG
    then have "l2 < 0" "r2 < 0" using s by (auto simp: sign_of_def split: if_splits)
    then show ?thesis using NEG_NEG x div_between [of "- l2" "- x" "- l1" "- r2" "- y" "- r1"] dv [of "- l1" "- r2"] dv [of "- l2" "- r1"]
      by (auto simp: c_def sdiv_sign)
  qed
qed

lemma divide_rl_helper_spec:
  assumes t: "calc_type t" and sp: "sign_part t A B pn l r" and nt: "\<not> (LLONG_MIN \<in> A \<and> - 1 \<in> B)"
  shows "rl_ok t (divide_rl_helper prj pn l r)
    \<and> (\<forall>x \<in> rl_set l. \<forall>y \<in> rl_set r. y \<noteq> 0 \<longrightarrow> wrap t (x sdiv y) \<in> rl_set (divide_rl_helper prj pn l r))"
proof -
  have i: "int_type_ok t" "arith_type t" using calc_typeD [OF t] by auto
  have ok: "rl_ok t l" "rl_ok t r" and sub: "rl_set l \<subseteq> A" "rl_set r \<subseteq> B"
    and sg: "\<forall>x \<in> rl_set l. \<forall>y \<in> rl_set r. sign_of x y = pn"
    using sp by (auto simp: sign_part_def)
  define r' where "r' = (if pn = POS_POS \<or> pn = NEG_POS then rl_filter prj r (alloc_rl prj int_zero int_zero) else r)"
  have z: "0 \<notin> rl_set r" if "pn \<noteq> POS_POS \<and> pn \<noteq> NEG_POS" "l \<noteq> []"
    using that sg rl_min_ok(2) [OF ok(1)] by (force simp: sign_of_def split: if_splits)
  show ?thesis
  proof (cases "l = [] \<or> r' = []")
    case True
    have "\<forall>y \<in> rl_set r. y = 0" if "r' = []"
      using that filter_zero [OF i(1) ok(2), of prj] by (auto simp: r'_def split: if_splits)
    with True show ?thesis by (auto simp: divide_rl_helper_def Let_def r'_def [symmetric])
  next
    case False
    then have ne: "l \<noteq> []" "r' \<noteq> []" by auto
    have r': "rl_ok t r'" "rl_set r' = rl_set r - {0}"
      using filter_zero [OF i(1) ok(2), of prj] ok(2) z ne(1) by (auto simp: r'_def)
    note lm = rl_min_ok [OF ok(1) ne(1)] rl_max_ok [OF ok(1) ne(1)]
      and rm = rl_min_ok [OF r'(1) ne(2)] rl_max_ok [OF r'(1) ne(2)]
    let ?l1 = "sval_int (rl_min l)" and ?l2 = "sval_int (rl_max l)" and ?r1 = "sval_int (rl_min r')" and ?r2 = "sval_int (rl_max r')"
    obtain a b c d where abcd: "(case pn of
         POS_POS \<Rightarrow> (rl_min l, rl_max r', rl_max l, rl_min r') | POS_NEG \<Rightarrow> (rl_max l, rl_max r', rl_min l, rl_min r')
       | NEG_POS \<Rightarrow> (rl_min l, rl_min r', rl_max l, rl_max r') | NEG_NEG \<Rightarrow> (rl_max l, rl_min r', rl_min l, rl_max r')) = (a, b, c, d)"
      by (cases pn) auto
    have dv: "divide_rl_helper prj pn l r = alloc_rl prj (sval_binop a (Ch CHR ''/'') b) (sval_binop c (Ch CHR ''/'') d)"
      using ne abcd by (simp add: divide_rl_helper_def r'_def [symmetric] Let_def)
    have ab: "has_type t a" "has_type t b" "has_type t c" "has_type t d" "sval_int a \<in> rl_set l" "sval_int c \<in> rl_set l"
      "sval_int b \<in> rl_set r'" "sval_int d \<in> rl_set r'"
      using abcd lm rm by (cases pn; auto)+
    have nz: "sval_int b \<noteq> 0" "sval_int d \<noteq> 0" using ab(7,8) r'(2) by auto
    have no: "\<not> (sval_int a = LLONG_MIN \<and> sval_int b = - 1)" "\<not> (sval_int c = LLONG_MIN \<and> sval_int d = - 1)"
      using nt sub ab(5-8) r'(2) by auto
    note m = binop_divide [OF t ab(1,2) nz(1) no(1)] and M = binop_divide [OF t ab(3,4) nz(2) no(2)]
    have sgc: "sign_of x y = pn" if "x \<in> {?l1, ?l2}" "y \<in> {?r1, ?r2}" for x y
      using that sg lm(2,5) rm(2,5) r'(2) by auto
    have nz': "?r1 \<noteq> 0" "?r2 \<noteq> 0" using rm(2,5) r'(2) by auto
    have "wrap t (x sdiv y) \<in> span t (sval_binop a (Ch CHR ''/'') b) (sval_binop c (Ch CHR ''/'') d)"
      if xy: "x \<in> rl_set l" "y \<in> rl_set r" "y \<noteq> 0" for x y
    proof -
      have y': "y \<in> rl_set r'" using xy r'(2) by simp
      note q = divide_corners [OF sgc nz' xy(3) lm(3) [OF xy(1)] lm(6) [OF xy(1)] rm(3) [OF y'] rm(6) [OF y']]
      have q': "sval_int a sdiv sval_int b \<le> x sdiv y" "x sdiv y \<le> sval_int c sdiv sval_int d"
        "pn = POS_POS \<or> pn = NEG_NEG \<longrightarrow> 0 \<le> sval_int a sdiv sval_int b"
        "if pn = NEG_NEG then sval_int c sdiv sval_int d \<le> - ?l1
         else min 0 (min ?l1 (- ?l2)) \<le> sval_int a sdiv sval_int b \<and> sval_int c sdiv sval_int d \<le> max 0 ?l2"
        using q abcd by (cases pn; auto)+
      have bl: "type_lo t \<le> ?l1" "?l2 \<le> type_hi t" using has_typeD [OF lm(1)] has_typeD [OF lm(4)] by auto
      have un: "\<not> type_unsigned t" if "pn \<noteq> POS_POS"
      proof
        assume "type_unsigned t"
        then have "0 \<le> ?l1" "0 \<le> ?r1" using bl(1) has_typeD(5) [OF rm(1)] by (auto simp: type_lo_def)
        then show False using sgc [of ?l1 ?r1] that by (simp add: sign_of_def)
      qed
      have lo: "type_lo t \<le> sval_int a sdiv sval_int b"
        using q'(3,4) bl un signed_bounds(1) [OF t] type_lo_nonpos [of t]
        by (cases "pn = POS_POS \<or> pn = NEG_NEG") auto
      have hi: "sval_int c sdiv sval_int d \<le> type_hi t
        \<or> sval_int c sdiv sval_int d = type_hi t + 1 \<and> 0 \<le> sval_int a sdiv sval_int b \<and> \<not> type_unsigned t"
        using q'(3,4) bl un signed_bounds(1) [OF t] type_hi_nonneg [OF i(2)] by (cases "pn = NEG_NEG") auto
      show ?thesis by (rule wrap_span [OF t m(1) M(1) m(2) M(2) q'(1,2) lo hi])
    qed
    then show ?thesis using alloc_rl_spec [OF t m(1) M(1), of prj] by (simp add: dv)
  qed
qed

lemma rl_handle_divide_spec:
  assumes "calc_type t" "rl_ok t a" "rl_ok t b" "a \<noteq> []" "b \<noteq> []" "\<not> is_whole_rl a" "\<not> is_whole_rl b"
    "\<not> (LLONG_MIN \<in> rl_set a \<and> - 1 \<in> rl_set b)"
  shows "rl_ok t (rl_handle_divide prj a b)"
    "x \<in> rl_set a \<Longrightarrow> y \<in> rl_set b \<Longrightarrow> y \<noteq> 0 \<Longrightarrow> wrap t (x sdiv y) \<in> rl_set (rl_handle_divide prj a b)"
proof -
  have i: "int_type_ok t" "arith_type t" using calc_typeD [OF assms(1)] by auto
  note z = is_zero_rl_iff [OF assms(2,4)] and za = rl_zero_const [OF assms(1,2,4), of prj]
  define j where "j = join4 prj (\<lambda>pn.
      let (l, r) = by_sign pn (get_neg_rl prj a) (get_pos_rl prj a) (get_neg_rl prj b) (get_pos_rl prj b)
      in divide_rl_helper prj pn l r)"
  have hd: "rl_handle_divide prj a b = (if is_zero_rl a then alloc_rl prj (rl_min a) (rl_min a) else j)"
    unfolding rl_handle_divide_def j_def using assms(6,7) by simp
  have part: "\<forall>pn l r. sign_part t (rl_set a) (rl_set b) pn l r \<longrightarrow> rl_ok t (divide_rl_helper prj pn l r) \<and>
      (\<forall>x \<in> rl_set l. \<forall>y \<in> rl_set r. y \<noteq> 0 \<longrightarrow> wrap t (x sdiv y) \<in> rl_set (divide_rl_helper prj pn l r))"
    using divide_rl_helper_spec [OF assms(1) _ assms(8)] by blast
  have main: "rl_ok t j" "x \<in> rl_set a \<Longrightarrow> y \<in> rl_set b \<Longrightarrow> y \<noteq> 0 \<Longrightarrow> wrap t (x sdiv y) \<in> rl_set j" for x y
    unfolding j_def by (rule split_covers [OF i(1) assms(2,3) part]; simp)+
  show "rl_ok t (rl_handle_divide prj a b)" unfolding hd using main(1) za(1) by (simp split: if_split)
  show "wrap t (x sdiv y) \<in> rl_set (rl_handle_divide prj a b)" if xy: "x \<in> rl_set a" "y \<in> rl_set b" "y \<noteq> 0"
  proof -
    have "x = 0" if "is_zero_rl a" using that z xy(1) by blast
    then have "wrap t (x sdiv y) = 0" if "is_zero_rl a" using that wrap_0 [OF i(2)] by (simp add: signed_divide_int_def)
    then show ?thesis unfolding hd using main(2) [OF xy] za(2) by (simp split: if_split)
  qed
qed

section \<open>Addition and subtraction\<close>

lemma calc_type_not_ptr: "calc_type t \<Longrightarrow> \<not> type_is_ptr t"
  by (simp add: calc_type_def int_type_ok_def)

lemma rl_handle_add_spec:
  assumes "calc_type t" "rl_ok t a" "rl_ok t b" "a \<noteq> []" "b \<noteq> []"
    and fits: "\<forall>x \<in> rl_set a. \<forall>y \<in> rl_set b. type_lo t \<le> x + y \<and> x + y \<le> type_hi t"
  shows "rl_ok t (rl_handle_add prj a b) \<and> (\<forall>x \<in> rl_set a. \<forall>y \<in> rl_set b. x + y \<in> rl_set (rl_handle_add prj a b))"
proof -
  have at: "arith_type t" by (rule calc_typeD [OF assms(1)])
  note z = is_zero_rl_iff [OF assms(2,4)] is_zero_rl_iff [OF assms(3,5)]
  note am = rl_min_ok [OF assms(2,4)] rl_max_ok [OF assms(2,4)]
    and bm = rl_min_ok [OF assms(3,5)] rl_max_ok [OF assms(3,5)]
  have op: "overflow_op (Ch CHR ''+'')" "int_binop (Ch CHR ''+'') = (+)" by (auto simp: overflow_op_def int_binop_def fun_eq_iff)
  note lo = binop_exact [OF assms(1) am(1) bm(1) op(1)] and hi = binop_exact [OF assms(1) am(4) bm(4) op(1)]
  have no: "\<not> sval_binop_overflows (rl_min a) (Ch CHR ''+'') (rl_min b)" "\<not> sval_binop_overflows (rl_max a) (Ch CHR ''+'') (rl_max b)"
    using lo(3) hi(3) fits am(2,5) bm(2,5) by (auto simp: op(2))
  let ?r = "alloc_rl prj (sval_binop (rl_min a) (Ch CHR ''+'') (rl_min b)) (sval_binop (rl_max a) (Ch CHR ''+'') (rl_max b))"
  have "rl_type a = t" "rl_type b = t" using rl_type_ok assms(2-5) by auto
  then have ha: "rl_handle_add prj a b = (if is_zero_rl a then b else if is_zero_rl b then a else ?r)"
    using no calc_type_not_ptr [OF assms(1)] by (simp add: rl_handle_add_def)
  have "x + y \<in> rl_set ?r" if "x \<in> rl_set a" "y \<in> rl_set b" for x y
    using that am(3,6) bm(3,6) alloc_rl_spec(2) [OF assms(1) lo(1) hi(1), of prj] lo(2) hi(2) fits am(2,5) bm(2,5)
    by (auto simp: span_def op(2) wrap_id [OF at] intro: add_mono)
  then show ?thesis
    unfolding ha using assms(2,3) alloc_rl_spec(1) [OF assms(1) lo(1) hi(1), of prj] z by (auto split: if_split)
qed

lemma sub_rl_helper_spec:
  assumes "calc_type t" "rl_ok t l" "rl_ok t r"
  shows "rl_ok t (sub_rl_helper prj l r UNKNOWN_COMPARISON)
    \<and> (\<forall>x \<in> rl_set l. \<forall>y \<in> rl_set r. wrap t (x - y) \<in> rl_set (sub_rl_helper prj l r UNKNOWN_COMPARISON))"
proof (cases "l = [] \<or> r = []")
  case True
  then show ?thesis by (auto simp: sub_rl_helper_def)
next
  case False
  then have ne: "l \<noteq> []" "r \<noteq> []" by auto
  note lm = rl_min_ok [OF assms(2) ne(1)] rl_max_ok [OF assms(2) ne(1)]
    and rm = rl_min_ok [OF assms(3) ne(2)] rl_max_ok [OF assms(3) ne(2)]
  have rt: "rl_type l = t" using rl_type_ok [OF assms(2)] ne by simp
  have m: "sub_rl_helper prj l r UNKNOWN_COMPARISON =
      (if sval_binop_overflows (rl_min l) (Ch CHR ''-'') (rl_max r) \<or> sval_binop_overflows (rl_max l) (Ch CHR ''-'') (rl_min r)
       then alloc_whole_rl prj t
       else alloc_rl prj (sval_binop (rl_min l) (Ch CHR ''-'') (rl_max r)) (sval_binop (rl_max l) (Ch CHR ''-'') (rl_min r)))"
    using ne rt by (simp add: sub_rl_helper_def special_gt_def)
  note c = alloc_corners [OF assms(1) lm(1) rm(4) lm(4) rm(1), where op = "Ch CHR ''-''" and prj = prj, folded m]
  have op: "overflow_op (Ch CHR ''-'')" by (simp add: overflow_op_def)
  have "wrap t (x - y) \<in> rl_set (sub_rl_helper prj l r UNKNOWN_COMPARISON)" if "x \<in> rl_set l" "y \<in> rl_set r" for x y
    using c(2) [OF op, of "x - y"] lm(3,6) [OF that(1)] rm(3,6) [OF that(2)] by (simp add: int_binop_def)
  then show ?thesis using c(1) [OF op] by blast
qed

lemma rl_handle_sub_spec:
  assumes "calc_type t" "rl_ok t a" "rl_ok t b" "a \<noteq> []" "b \<noteq> []" "\<not> is_whole_rl a" "\<not> is_whole_rl b"
    "type_hi t \<notin> rl_set a" "type_hi t \<notin> rl_set b"
    "type_unsigned t \<longrightarrow> (\<forall>x \<in> rl_set a. \<forall>y \<in> rl_set b. y \<le> x)"
  shows "rl_ok t (rl_handle_sub prj a b UNKNOWN_COMPARISON)"
    "x \<in> rl_set a \<Longrightarrow> y \<in> rl_set b \<Longrightarrow> wrap t (x - y) \<in> rl_set (rl_handle_sub prj a b UNKNOWN_COMPARISON)"
proof -
  have i: "int_type_ok t" "arith_type t" using calc_typeD [OF assms(1)] by auto
  note am = rl_min_ok [OF assms(2,4)] and bm = rl_max_ok [OF assms(3,5)]
  define j where "j = join4 prj (\<lambda>pn.
      let (l, r) = by_sign pn (get_neg_rl prj a) (get_pos_rl prj a) (get_neg_rl prj b) (get_pos_rl prj b)
      in sub_rl_helper prj l r UNKNOWN_COMPARISON)"
  have part: "\<forall>pn l r. sign_part t (rl_set a) (rl_set b) pn l r \<longrightarrow> rl_ok t (sub_rl_helper prj l r UNKNOWN_COMPARISON) \<and>
      (\<forall>x \<in> rl_set l. \<forall>y \<in> rl_set r. True \<longrightarrow> wrap t (x - y) \<in> rl_set (sub_rl_helper prj l r UNKNOWN_COMPARISON))"
    using sub_rl_helper_spec [OF assms(1)] by (simp add: sign_part_def)
  have main: "rl_ok t j" "x \<in> rl_set a \<Longrightarrow> y \<in> rl_set b \<Longrightarrow> wrap t (x - y) \<in> rl_set j" for x y
    unfolding j_def by (rule split_covers [OF i(1) assms(2,3) part]; simp)+
  have nmax: "\<not> (p \<noteq> [] \<and> sval_is_max (rl_max p))" if "p = get_pos_rl prj c" "rl_ok t c" "type_hi t \<notin> rl_set c" for p c
    using get_pos_rl_spec [OF i(1) that(2), of prj] rl_max_ok [of t p] that has_typeD [of t "rl_max p"]
    by (auto simp: sval_is_max_iff)
  have rt: "rl_type a = t" using rl_type_ok [OF assms(2)] assms(4) by simp
  have sub: "sub_signed prj t a b UNKNOWN_COMPARISON = j"
    using nmax [OF refl assms(2,8)] nmax [OF refl assms(3,9)] cast_rl_same [OF main(1), of prj]
    unfolding j_def Let_def by (auto simp: sub_signed_def special_gt_def special_strict_def Let_def)
  have "\<not> (type_unsigned t \<and> sval_cmp (rl_min a) (rl_max b) < 0)"
    using has_type_cmp [OF am(1) bm(1)] assms(10) am(2) bm(2) by (fastforce simp: not_less)
  then have hs: "rl_handle_sub prj a b UNKNOWN_COMPARISON = (if is_zero_rl b then a else j)"
    using assms(6,7) calc_type_not_ptr [OF assms(1)] by (auto simp: rl_handle_sub_def rt sub)
  show "rl_ok t (rl_handle_sub prj a b UNKNOWN_COMPARISON)" unfolding hs using main(1) assms(2) by (simp split: if_split)
  show "wrap t (x - y) \<in> rl_set (rl_handle_sub prj a b UNKNOWN_COMPARISON)" if xy: "x \<in> rl_set a" "y \<in> rl_set b"
  proof -
    have "y = 0" if "is_zero_rl b" using that is_zero_rl_iff [OF assms(3,5)] xy(2) by blast
    moreover have "wrap t x = x" using rl_set_bounds [OF assms(2) xy(1)] wrap_id [OF i(2)] by blast
    ultimately show ?thesis unfolding hs using main(2) [OF xy] xy(1) by (simp split: if_split)
  qed
qed

section \<open>rl_binop\<close>

text \<open>
  What \<^verbatim>\<open>rl_binop\<close> relies on: the handler \<open>h\<close> of an operator covers \<open>f t x y\<close> for the values of
  operands in its domain, and \<^verbatim>\<open>sval_binop\<close> computes \<open>f\<close> on known values; \<open>g\<close> excludes the pairs
  on which the operator is undefined.
\<close>

locale range_op =
  fixes opc :: opcode and h :: "range_list \<Rightarrow> range_list \<Rightarrow> range_list"
    and domn :: "ctype \<Rightarrow> int set \<Rightarrow> int set \<Rightarrow> bool"
    and g :: "int \<Rightarrow> int \<Rightarrow> bool" and f :: "ctype \<Rightarrow> int \<Rightarrow> int \<Rightarrow> int"
  assumes op_spec: "calc_type t \<Longrightarrow> rl_ok t a \<Longrightarrow> rl_ok t b \<Longrightarrow> a \<noteq> [] \<Longrightarrow> b \<noteq> [] \<Longrightarrow>
      domn t (rl_set a) (rl_set b) \<Longrightarrow>
      rl_ok t (h a b) \<and> (\<forall>x \<in> rl_set a. \<forall>y \<in> rl_set b. g x y \<longrightarrow> f t x y \<in> rl_set (h a b))"
    and op_known: "calc_type t \<Longrightarrow> has_type t l \<Longrightarrow> has_type t r \<Longrightarrow> domn t {sval_int l} {sval_int r} \<Longrightarrow>
      has_type t (sval_binop l opc r) \<and>
      (g (sval_int l) (sval_int r) \<longrightarrow> sval_int (sval_binop l opc r) = f t (sval_int l) (sval_int r))"
    and dom_mono: "domn t A B \<Longrightarrow> A' \<subseteq> A \<Longrightarrow> B' \<subseteq> B \<Longrightarrow> domn t A' B'"
    and not_shift: "opc \<noteq> SPECIAL_RIGHTSHIFT" "opc \<noteq> SPECIAL_LEFTSHIFT"
begin

lemma pair_covers:
  fixes prj :: project_type
  assumes "calc_type t" "range_ok t c" "range_ok t d" "domn t (rset c) (rset d)" "rl_ok t ret"
  defines "res \<equiv> rl_union prj ret (h (alloc_rl prj (dr_min c) (dr_max c)) (alloc_rl prj (dr_min d) (dr_max d)))"
  shows "rl_ok t res \<and> rl_set ret \<subseteq> rl_set res \<and> (\<forall>x \<in> rset c. \<forall>y \<in> rset d. g x y \<longrightarrow> f t x y \<in> rl_set res)"
proof -
  have ok: "rl_ok t [c]" "rl_ok t [d]" using assms(2,3) by (simp_all add: rl_ok_Cons)
  have e: "alloc_rl prj (dr_min c) (dr_max c) = [c]" "alloc_rl prj (dr_min d) (dr_max d) = [d]"
    using alloc_rl_range assms(1-3) by blast+
  have "rl_ok t (h [c] [d]) \<and> (\<forall>x \<in> rset c. \<forall>y \<in> rset d. g x y \<longrightarrow> f t x y \<in> rl_set (h [c] [d]))"
    using op_spec [OF assms(1) ok] assms(4) by simp
  then show ?thesis
    using rl_union_spec [OF calc_typeD(1) [OF assms(1)] assms(5), of "h [c] [d]" prj] by (auto simp: res_def e)
qed

lemma row_covers:
  fixes prj :: project_type
  assumes "calc_type t" "range_ok t c" "\<forall>d \<in> set b. range_ok t d \<and> domn t (rset c) (rset d)" "rl_ok t ret"
  defines "res \<equiv> foldl (\<lambda>ret dr. rl_union prj ret
      (h (alloc_rl prj (dr_min c) (dr_max c)) (alloc_rl prj (dr_min dr) (dr_max dr)))) ret b"
  shows "rl_ok t res \<and> rl_set ret \<subseteq> rl_set res \<and> (\<forall>x \<in> rset c. \<forall>y \<in> rl_set b. g x y \<longrightarrow> f t x y \<in> rl_set res)"
  using assms(3,4) unfolding res_def
proof (induction b arbitrary: ret)
  case (Cons d b)
  let ?ret = "rl_union prj ret (h (alloc_rl prj (dr_min c) (dr_max c)) (alloc_rl prj (dr_min d) (dr_max d)))"
  have p: "rl_ok t ?ret \<and> rl_set ret \<subseteq> rl_set ?ret \<and> (\<forall>x \<in> rset c. \<forall>y \<in> rset d. g x y \<longrightarrow> f t x y \<in> rl_set ?ret)"
    using pair_covers [OF assms(1,2)] Cons.prems by simp
  have "\<forall>d \<in> set b. range_ok t d \<and> domn t (rset c) (rset d)" using Cons.prems(1) by simp
  from Cons.IH [OF this, of ?ret] p show ?case by (simp add: ball_Un) blast
qed simp

lemma table_covers:
  fixes prj :: project_type
  assumes "calc_type t" "\<forall>c \<in> set a. range_ok t c" "\<forall>d \<in> set b. range_ok t d" "domn t (rl_set a) (rl_set b)" "rl_ok t ret"
  defines "res \<equiv> foldl (\<lambda>ret dl. foldl (\<lambda>ret dr. rl_union prj ret
      (h (alloc_rl prj (dr_min dl) (dr_max dl)) (alloc_rl prj (dr_min dr) (dr_max dr)))) ret b) ret a"
  shows "rl_ok t res \<and> rl_set ret \<subseteq> rl_set res \<and> (\<forall>x \<in> rl_set a. \<forall>y \<in> rl_set b. g x y \<longrightarrow> f t x y \<in> rl_set res)"
  using assms(2,4,5) unfolding res_def
proof (induction a arbitrary: ret)
  case (Cons c a)
  let ?ret = "foldl (\<lambda>ret dr. rl_union prj ret
      (h (alloc_rl prj (dr_min c) (dr_max c)) (alloc_rl prj (dr_min dr) (dr_max dr)))) ret b"
  have c: "range_ok t c" and d: "\<forall>d \<in> set b. range_ok t d \<and> domn t (rset c) (rset d)"
    using Cons.prems(1) assms(3) dom_mono [OF Cons.prems(2)] by (auto simp: rl_set_def)
  have p: "rl_ok t ?ret \<and> rl_set ret \<subseteq> rl_set ?ret \<and> (\<forall>x \<in> rset c. \<forall>y \<in> rl_set b. g x y \<longrightarrow> f t x y \<in> rl_set ?ret)"
    by (rule row_covers [OF assms(1) c d Cons.prems(3)])
  have "domn t (rl_set a) (rl_set b)" using dom_mono [OF Cons.prems(2)] by simp
  from Cons.IH [OF _ this, of ?ret] Cons.prems(1) p show ?case by (simp add: ball_Un) blast
qed simp

lemma binop_covers:
  assumes t: "calc_type t" and ok: "rl_ok t a" "rl_ok t b" and d: "domn t (rl_set a) (rl_set b)"
    and hl: "\<And>l r. helper l opc r = h l r" and x: "x \<in> rl_set a" and y: "y \<in> rl_set b" and gxy: "g x y"
  shows "rl_ok t (rl_binop_with helper prj a opc b) \<and> f t x y \<in> rl_set (rl_binop_with helper prj a opc b)"
proof -
  have ne: "a \<noteq> []" "b \<noteq> []" using x y by auto
  have i: "int_type_ok t" by (rule calc_typeD [OF t])
  have bt: "get_binop_type a b = t" using get_binop_type_ok(5) [OF i i ok ne refl] calc_typeD(3) [OF t] by simp
  have c: "cast_rl prj t a = a" "cast_rl prj t b = b" using cast_rl_same ok by blast+
  have rg: "\<forall>c \<in> set a. range_ok t c" "\<forall>c \<in> set b. range_ok t c" using rl_ok_range ok by blast+
  note am = rl_min_ok [OF ok(1) ne(1)] rl_max_ok [OF ok(1) ne(1)] and bm = rl_min_ok [OF ok(2) ne(2)] rl_max_ok [OF ok(2) ne(2)]
  show ?thesis
  proof (cases "rl_to_sval a \<noteq> None \<and> rl_to_sval b \<noteq> None")
    case True
    then have k: "rl_to_sval a = Some (rl_min a)" "rl_to_sval b = Some (rl_min b)"
      "sval_int (rl_min a) = sval_int (rl_max a)" "sval_int (rl_min b) = sval_int (rl_max b)"
      using has_type_cmp [OF am(1,4)] has_type_cmp [OF bm(1,4)] by (auto simp: rl_to_sval_def split: if_splits)
    then have xy: "x = sval_int (rl_min a)" "y = sval_int (rl_min b)"
      using am(3,6) [OF x] bm(3,6) [OF y] by auto
    have "domn t {sval_int (rl_min a)} {sval_int (rl_min b)}" using dom_mono [OF d] am(2) bm(2) by simp
    from op_known [OF t am(1) bm(1) this] have v: "has_type t (sval_binop (rl_min a) opc (rl_min b))"
      "sval_int (sval_binop (rl_min a) opc (rl_min b)) = f t x y" using gxy xy by auto
    show ?thesis using alloc_rl_spec [OF t v(1) v(1), of prj] v(2) ne k by (simp add: rl_binop_with_def span_def Let_def)
  next
    case False
    let ?tab = "foldl (\<lambda>ret dl. foldl (\<lambda>ret dr. rl_union prj ret
      (h (alloc_rl prj (dr_min dl) (dr_max dl)) (alloc_rl prj (dr_min dr) (dr_max dr)))) ret b) [] a"
    have "rl_binop_with helper prj a opc b = (if length a * length b > 6 then h a b else ?tab)"
      using False ne not_shift by (auto simp: rl_binop_with_def bt c hl split: option.split)
    then show ?thesis
      using op_spec [OF t ok ne d] table_covers [OF t rg d rl_ok_Nil, of prj] x y gxy by (simp split: if_split)
  qed
qed

end

text \<open>The domains: where the handlers give up or are known to be wrong.\<close>

definition not_whole :: "ctype \<Rightarrow> int set \<Rightarrow> int set \<Rightarrow> bool" where
  "not_whole t A B \<longleftrightarrow> \<not> {type_lo t..type_hi t} \<subseteq> A \<and> \<not> {type_lo t..type_hi t} \<subseteq> B"

definition divide_dom :: "ctype \<Rightarrow> int set \<Rightarrow> int set \<Rightarrow> bool" where
  "divide_dom t A B \<longleftrightarrow> not_whole t A B \<and> \<not> (LLONG_MIN \<in> A \<and> - 1 \<in> B)"

definition add_dom :: "ctype \<Rightarrow> int set \<Rightarrow> int set \<Rightarrow> bool" where
  "add_dom t A B \<longleftrightarrow> (\<forall>x \<in> A. \<forall>y \<in> B. type_lo t \<le> x + y \<and> x + y \<le> type_hi t)"

definition sub_dom :: "ctype \<Rightarrow> int set \<Rightarrow> int set \<Rightarrow> bool" where
  "sub_dom t A B \<longleftrightarrow> not_whole t A B \<and> type_hi t \<notin> A \<and> type_hi t \<notin> B
     \<and> (type_unsigned t \<longrightarrow> (\<forall>x \<in> A. \<forall>y \<in> B. y \<le> x))"

lemma not_wholeD:
  assumes "rl_ok t a" "rl_ok t b" "a \<noteq> []" "b \<noteq> []" "not_whole t (rl_set a) (rl_set b)"
  shows "\<not> is_whole_rl a" "\<not> is_whole_rl b"
  using assms is_whole_rl_iff [OF assms(1,3)] is_whole_rl_iff [OF assms(2,4)] by (auto simp: not_whole_def)

interpretation mu: range_op "Ch CHR ''*''" "rl_handle_mult prj" not_whole "\<lambda>_ _. True" "\<lambda>t x y. wrap t (x * y)" for prj
proof (unfold_locales, goal_cases)
  case (1 t a b)
  then show ?case using rl_handle_mult_spec [OF 1(1-5) not_wholeD [OF 1(2-6)], where prj = prj] by blast
next
  case (2 t l r)
  then show ?case using binop_exact [of t l r "Ch CHR ''*''"] by (simp add: overflow_op_def int_binop_def)
qed (auto simp: not_whole_def)

interpretation di: range_op "Ch CHR ''/''" "rl_handle_divide prj" divide_dom "\<lambda>_ y. y \<noteq> 0" "\<lambda>t x y. wrap t (x sdiv y)" for prj
proof (unfold_locales, goal_cases)
  case (1 t a b)
  then have "not_whole t (rl_set a) (rl_set b)" "\<not> (LLONG_MIN \<in> rl_set a \<and> - 1 \<in> rl_set b)" by (auto simp: divide_dom_def)
  then show ?case using rl_handle_divide_spec [OF 1(1-5) not_wholeD [OF 1(2-5)], where prj = prj] by blast
next
  case (2 t l r)
  then have ty: "sv_type l = t" "sv_type r = t" "overflow_type t t = t" "int_type_ok t"
    by (simp_all add: has_typeD calc_type_def)
  then have "has_type t (sval_binop l (Ch CHR ''/'') r)" using sval_binop_ok [of l r "Ch CHR ''/''"] by (simp add: has_type_def)
  then show ?case using binop_divide [OF 2(1-3)] 2(4) by (auto simp: divide_dom_def)
qed (auto simp: divide_dom_def not_whole_def)

interpretation ad: range_op "Ch CHR ''+''" "rl_handle_add prj" add_dom "\<lambda>_ _. True" "\<lambda>t x y. x + y" for prj
proof (unfold_locales, goal_cases)
  case (1 t a b)
  then show ?case using rl_handle_add_spec [OF 1(1-5), of prj] by (simp add: add_dom_def)
next
  case (2 t l r)
  then show ?case using binop_exact [of t l r "Ch CHR ''+''"] wrap_id [of t "sval_int l + sval_int r"]
    by (auto simp: overflow_op_def int_binop_def add_dom_def calc_typeD)
qed (auto simp: add_dom_def)

interpretation su: range_op "Ch CHR ''-''" "\<lambda>a b. rl_handle_sub prj a b UNKNOWN_COMPARISON" sub_dom "\<lambda>_ _. True"
    "\<lambda>t x y. wrap t (x - y)" for prj
proof (unfold_locales, goal_cases)
  case (1 t a b)
  then have d: "not_whole t (rl_set a) (rl_set b)" "type_hi t \<notin> rl_set a" "type_hi t \<notin> rl_set b"
    "type_unsigned t \<longrightarrow> (\<forall>x \<in> rl_set a. \<forall>y \<in> rl_set b. y \<le> x)" by (auto simp: sub_dom_def)
  show ?case using rl_handle_sub_spec [OF 1(1-5) not_wholeD [OF 1(2-5) d(1)] d(2-4), where prj = prj] by blast
next
  case (2 t l r)
  then show ?case using binop_exact [of t l r "Ch CHR ''-''"] by (simp add: overflow_op_def int_binop_def)
qed (auto simp: sub_dom_def not_whole_def)

lemma rl_binop_arith_covers:
  assumes "calc_type t" "rl_ok t a" "rl_ok t b" "x \<in> rl_set a" "y \<in> rl_set b"
  shows "not_whole t (rl_set a) (rl_set b) \<Longrightarrow> wrap t (x * y) \<in> rl_set (rl_binop prj a (Ch CHR ''*'') b)"
    "divide_dom t (rl_set a) (rl_set b) \<Longrightarrow> y \<noteq> 0 \<Longrightarrow> wrap t (x sdiv y) \<in> rl_set (rl_binop prj a (Ch CHR ''/'') b)"
    "add_dom t (rl_set a) (rl_set b) \<Longrightarrow> x + y \<in> rl_set (rl_binop prj a (Ch CHR ''+'') b)"
    "sub_dom t (rl_set a) (rl_set b) \<Longrightarrow> wrap t (x - y) \<in> rl_set (rl_binop prj a (Ch CHR ''-'') b)"
proof -
  have h: "rl_binop_helper prj l (Ch CHR ''*'') r = rl_handle_mult prj l r"
    "rl_binop_helper prj l (Ch CHR ''/'') r = rl_handle_divide prj l r"
    "rl_binop_helper prj l (Ch CHR ''+'') r = rl_handle_add prj l r"
    "rl_binop_helper prj l (Ch CHR ''-'') r = rl_handle_sub prj l r UNKNOWN_COMPARISON" for l r
    by (simp_all add: rl_binop_helper_def rl_binop_helper_basic_def)
  show "wrap t (x * y) \<in> rl_set (rl_binop prj a (Ch CHR ''*'') b)" if "not_whole t (rl_set a) (rl_set b)"
    using mu.binop_covers [where helper = "rl_binop_helper prj", OF assms(1-3) that h(1) assms(4,5)] by (simp add: rl_binop_def)
  show "wrap t (x sdiv y) \<in> rl_set (rl_binop prj a (Ch CHR ''/'') b)" if "divide_dom t (rl_set a) (rl_set b)" "y \<noteq> 0"
    using di.binop_covers [where helper = "rl_binop_helper prj", OF assms(1-3) that(1) h(2) assms(4,5) that(2)] by (simp add: rl_binop_def)
  show "x + y \<in> rl_set (rl_binop prj a (Ch CHR ''+'') b)" if "add_dom t (rl_set a) (rl_set b)"
    using ad.binop_covers [where helper = "rl_binop_helper prj", OF assms(1-3) that h(3) assms(4,5)] by (simp add: rl_binop_def)
  show "wrap t (x - y) \<in> rl_set (rl_binop prj a (Ch CHR ''-'') b)" if "sub_dom t (rl_set a) (rl_set b)"
    using su.binop_covers [where helper = "rl_binop_helper prj", OF assms(1-3) that h(4) assms(4,5)] by (simp add: rl_binop_def)
qed

end
