(* ===== verification/Comparison_Env.thy ===== *)
theory Comparison_Env
  imports Comparison
begin

text \<open>
  The comparison states of a path against the values of its variables: what an increment, a
  decrement or an assignment of one variable must do to the links that mention it.
\<close>

text \<open>The state of \<open>''a vs b''\<close> under an operator, and the values 1 and 2 of the two variables.\<close>

definition ab_state :: "opcode \<Rightarrow> compare_states" where
  "ab_state op = [''a vs b'' \<mapsto> Some \<lparr>left_expr = None, left_var = ''a'', left_vsl = [''a''], comparison = op,
     right_expr = None, right_var = ''b'', right_vsl = [''b'']\<rparr>]"

definition ab_env :: "string \<Rightarrow> int" where
  "ab_env v = (if v = ''a'' then 1 else 2)"

text \<open>\<open>cmp_sound\<close>: every stored comparison holds of the values.\<close>

definition cmp_sound :: "(string \<Rightarrow> int) \<Rightarrow> compare_states \<Rightarrow> bool" where
  "cmp_sound env st \<longleftrightarrow>
     (\<forall>link d. st link = Some (Some d) \<longrightarrow>
        cmp_holds (comparison d) (env (left_var d)) (env (right_var d)))"

text \<open>
  \<open>links_ok\<close>: the links of a variable are listed once, they are exactly the ones that mention
  it, each on one side only, and the name of a link begins with its left variable.
\<close>

definition link_ok :: "string \<Rightarrow> string list \<Rightarrow> string \<Rightarrow> compare_data \<Rightarrow> bool" where
  "link_ok nm links link d \<longleftrightarrow> cmp_code (comparison d)
     \<and> (if link \<in> set links
        then (if link_flipped nm link then left_var d \<noteq> nm \<and> right_var d = nm
              else left_var d = nm \<and> right_var d \<noteq> nm)
        else left_var d \<noteq> nm \<and> right_var d \<noteq> nm)"

definition links_ok :: "string \<Rightarrow> string list \<Rightarrow> compare_states \<Rightarrow> bool" where
  "links_ok nm links st \<longleftrightarrow> distinct links
     \<and> (\<forall>link d. st link = Some (Some d) \<longrightarrow> link_ok nm links link d)"

lemma cmp_soundI:
  assumes "\<And>link d. st link = Some (Some d) \<Longrightarrow> cmp_holds (comparison d) (env (left_var d)) (env (right_var d))"
  shows "cmp_sound env st"
  using assms by (simp add: cmp_sound_def)

lemma match_inc_None:
  "\<nexists>d. st link = Some (Some d) \<Longrightarrow> match_inc nm preserve links st link = st link"
proof (induction links arbitrary: st)
  case (Cons tmp links)
  then show ?case by (cases "link = tmp") (auto split: option.splits)
qed simp

lemma match_dec_None:
  "\<nexists>d. st link = Some (Some d) \<Longrightarrow> match_dec nm preserve links st link = st link"
proof (induction links arbitrary: st)
  case (Cons tmp links)
  then show ?case by (cases "link = tmp") (auto split: option.splits)
qed simp

text \<open>Both operations change only the operator of the listed links.\<close>

lemma match_inc_cases:
  assumes "distinct links" "match_inc nm preserve links st link = Some (Some d')"
  obtains d where "st link = Some (Some d)"
    "d' = (if link \<in> set links
           then d\<lparr>comparison := inc_op preserve (link_flipped nm link) (comparison d)\<rparr> else d)"
proof (cases "\<exists>d. st link = Some (Some d)")
  case True
  then obtain d where d: "st link = Some (Some d)" by blast
  show thesis
    using that [OF d] match_inc_link [of links link st d nm preserve] match_inc_other [of link links nm preserve st] assms(1) assms(2) d
    by (cases "link \<in> set links") auto
next
  case False
  then show thesis using match_inc_None [of st link] assms(2) by auto
qed

lemma match_dec_cases:
  assumes "distinct links" "match_dec nm preserve links st link = Some (Some d')"
  obtains d where "st link = Some (Some d)"
    "d' = (if link \<in> set links then d\<lparr>comparison := dec_op preserve (comparison d)\<rparr> else d)"
proof (cases "\<exists>d. st link = Some (Some d)")
  case True
  then obtain d where d: "st link = Some (Some d)" by blast
  show thesis
    using that [OF d] match_dec_link [of links link st d nm preserve] match_dec_other [of link links nm preserve st] assms(1) assms(2) d
    by (cases "link \<in> set links") auto
next
  case False
  then show thesis using match_dec_None [of st link] assms(2) by auto
qed

lemma match_inc_sound:
  assumes "cmp_sound env st" "links_ok nm links st"
  shows "cmp_sound (env(nm := env nm + 1)) (match_inc nm False links st)"
proof (rule cmp_soundI)
  fix link d' assume d': "match_inc nm False links st link = Some (Some d')"
  have dist: "distinct links" using assms(2) by (simp add: links_ok_def)
  obtain d where d: "st link = Some (Some d)"
    "d' = (if link \<in> set links
           then d\<lparr>comparison := inc_op False (link_flipped nm link) (comparison d)\<rparr> else d)"
    by (rule match_inc_cases [OF dist d'])
  have h: "cmp_holds (comparison d) (env (left_var d)) (env (right_var d))" "link_ok nm links link d"
    using assms d(1) by (auto simp: cmp_sound_def links_ok_def)
  show "cmp_holds (comparison d') ((env(nm := env nm + 1)) (left_var d')) ((env(nm := env nm + 1)) (right_var d'))"
    using h d(2) inc_op_left [OF _ h(1)] inc_op_right [OF _ h(1)]
    by (auto simp: link_ok_def split: if_splits)
qed

lemma match_dec_sound:
  assumes "cmp_sound env st" "links_ok nm links st" "0 < k"
    "\<forall>link \<in> set links. \<not> link_flipped nm link"
  shows "cmp_sound (env(nm := env nm - k)) (match_dec nm False links st)"
proof (rule cmp_soundI)
  fix link d' assume d': "match_dec nm False links st link = Some (Some d')"
  have dist: "distinct links" using assms(2) by (simp add: links_ok_def)
  obtain d where d: "st link = Some (Some d)"
    "d' = (if link \<in> set links then d\<lparr>comparison := dec_op False (comparison d)\<rparr> else d)"
    by (rule match_dec_cases [OF dist d'])
  have h: "cmp_holds (comparison d) (env (left_var d)) (env (right_var d))" "link_ok nm links link d"
    using assms d(1) by (auto simp: cmp_sound_def links_ok_def)
  show "cmp_holds (comparison d') ((env(nm := env nm - k)) (left_var d')) ((env(nm := env nm - k)) (right_var d'))"
    using h d(2) dec_op_left [OF _ h(1) assms(3)] assms(4) by (auto simp: link_ok_def split: if_splits)
qed

lemma reset_sm_other: "link \<notin> set links \<Longrightarrow> reset_sm links st link = st link"
  by (induction links st rule: reset_sm.induct) (auto split: option.splits)

lemma reset_sm_sound:
  assumes "cmp_sound env st" "links_ok nm links st"
  shows "cmp_sound (env(nm := v)) (reset_sm links st)"
proof (rule cmp_soundI)
  fix link d assume d: "reset_sm links st link = Some (Some d)"
  show "cmp_holds (comparison d) ((env(nm := v)) (left_var d)) ((env(nm := v)) (right_var d))"
  proof (cases "link \<in> set links")
    case True
    then have "comparison d = UNKNOWN_COMPARISON" using reset_sm_link [OF True, of st] d by simp
    then show ?thesis by (simp add: cmp_holds_def)
  next
    case False
    then have "st link = Some (Some d)" using d by (simp add: reset_sm_other)
    then show ?thesis using assms False by (auto simp: cmp_sound_def links_ok_def link_ok_def)
  qed
qed

end
