(* ===== verification/Parse_Tree.thy ===== *)
theory Parse_Tree
  imports Ranges
begin

text \<open>
  The syntax trees of \<^verbatim>\<open>src/expression.h\<close> and \<^verbatim>\<open>src/parse.h\<close>, as far as the walk of \<^verbatim>\<open>src/smatch_flow.c\<close> and
  \<^verbatim>\<open>src/smatch_conditions.c\<close> looks at them. A null pointer is \<open>None\<close>. Positions, types and parents are not
  part of the trees.
\<close>

section \<open>Trees\<close>

text \<open>
  \<open>EXPR_OTHER\<close> stands for the expressions without parts that are walked: strings, \<^verbatim>\<open>sizeof\<close>, floating point
  values and the like. \<open>EXPR_PART\<close> is an expression with one part and no effect of its own: a slice, an
  identifier, an index or a position of an initializer. The branch of a selection that is taken when
  the condition holds may be missing. A goto carries its address, by which it is told from other
  gotos to the same place, and the body of a switch is a block.
\<close>

datatype goto_target = Goto_break | Goto_continue | Goto_label string nat | Goto_computed

datatype expr =
    EXPR_VALUE sval
  | EXPR_SYMBOL string
  | EXPR_OTHER nat
  | EXPR_PREOP opcode expr
  | EXPR_POSTOP opcode expr
  | EXPR_LOGICAL opcode expr expr
  | EXPR_COMPARE opcode expr expr
  | EXPR_BINOP opcode expr expr
  | EXPR_COMMA expr expr
  | EXPR_ASSIGNMENT opcode expr expr
  | EXPR_DEREF expr
  | EXPR_PART expr
  | EXPR_CAST expr
  | EXPR_SELECT expr "expr option" expr
  | EXPR_CALL expr "expr list"
  | EXPR_INITIALIZER "expr list"
  | EXPR_STATEMENT stmt
and stmt =
    STMT_NONE
  | STMT_DECLARATION nat
  | STMT_EXPRESSION "expr option"
  | STMT_COMPOUND "stmt list"
  | STMT_IF expr "stmt option" "stmt option"
  | STMT_RETURN "expr option"
  | STMT_CASE "expr option" "expr option" stmt
  | STMT_SWITCH expr "stmt list"
  | STMT_ITERATOR nat (iter_pre_statement: "stmt option") (iter_pre_condition: "expr option") (iter_statement: stmt)
      (iter_post_statement: "stmt option") (iter_post_condition: "expr option")
  | STMT_LABEL string nat stmt
  | STMT_GOTO nat goto_target "expr option"
  | STMT_ASM expr "expr list" "expr list" "(string \<times> nat) list"
  | STMT_CONTEXT
  | STMT_RANGE expr expr expr

section \<open>Reading a tree\<close>

fun is_block :: "expr \<Rightarrow> bool" where
  "is_block (EXPR_STATEMENT (STMT_COMPOUND _)) = True"
| "is_block _ = False"

text \<open>\<^verbatim>\<open>strip_parens\<close>: parentheses only.\<close>

fun strip_parens :: "expr \<Rightarrow> expr" where
  "strip_parens (EXPR_PREOP c e) = (if c = Ch CHR ''('' \<and> \<not> is_block e then strip_parens e else EXPR_PREOP c e)"
| "strip_parens e = e"

definition sym_name_is :: "string \<Rightarrow> expr \<Rightarrow> bool" where
  "sym_name_is nm e = (case e of EXPR_SYMBOL s \<Rightarrow> s = nm | _ \<Rightarrow> False)"

text \<open>\<^verbatim>\<open>get_expression_statement\<close>: the block of \<^verbatim>\<open>({ ... })\<close>.\<close>

definition get_expression_statement :: "expr \<Rightarrow> stmt list option" where
  "get_expression_statement e =
     (case e of
        EXPR_PREOP c (EXPR_STATEMENT (STMT_COMPOUND ss)) \<Rightarrow> if c = Ch CHR ''('' then Some ss else None
      | _ \<Rightarrow> None)"

section \<open>Size\<close>

text \<open>
  A size for which the assignments that the walk makes up are smaller than the expressions they are
  made for.
\<close>

fun esize :: "expr \<Rightarrow> nat" and ssize :: "stmt \<Rightarrow> nat" where
  "esize (EXPR_VALUE v) = 0"
| "esize (EXPR_SYMBOL s) = 0"
| "esize (EXPR_OTHER n) = 0"
| "esize (EXPR_PREOP c e) = esize e + 1"
| "esize (EXPR_POSTOP c e) = esize e + 1"
| "esize (EXPR_LOGICAL c a b) = esize a + esize b + 1"
| "esize (EXPR_COMPARE c a b) = esize a + esize b + 1"
| "esize (EXPR_BINOP c a b) = esize a + esize b + 2"
| "esize (EXPR_COMMA a b) = esize a + esize b + 1"
| "esize (EXPR_ASSIGNMENT c a b) = esize a + esize b + 1"
| "esize (EXPR_DEREF e) = esize e + 1"
| "esize (EXPR_PART e) = esize e + 1"
| "esize (EXPR_CAST e) = esize e + 1"
| "esize (EXPR_SELECT a b c) = esize a + (case b of None \<Rightarrow> 0 | Some b \<Rightarrow> esize b) + esize c + 2"
| "esize (EXPR_CALL fn args) = esize fn + sum_list (map (\<lambda>e. esize e + 2) args) + 2"
| "esize (EXPR_INITIALIZER es) = sum_list (map (\<lambda>e. esize e + 1) es) + 1"
| "esize (EXPR_STATEMENT s) = ssize s + 1"
| "ssize STMT_NONE = 1"
| "ssize (STMT_DECLARATION n) = 1"
| "ssize (STMT_EXPRESSION e) = (case e of None \<Rightarrow> 0 | Some e \<Rightarrow> esize e) + 1"
| "ssize (STMT_COMPOUND ss) = sum_list (map (\<lambda>s. ssize s + 1) ss) + 1"
| "ssize (STMT_IF e s t) =
     esize e + (case s of None \<Rightarrow> 0 | Some s \<Rightarrow> ssize s) + (case t of None \<Rightarrow> 0 | Some t \<Rightarrow> ssize t) + 1"
| "ssize (STMT_RETURN e) = (case e of None \<Rightarrow> 0 | Some e \<Rightarrow> esize e) + 2"
| "ssize (STMT_CASE e t s) = ssize s + 1"
| "ssize (STMT_SWITCH e ss) = esize e + sum_list (map (\<lambda>s. ssize s + 1) ss) + 2"
| "ssize (STMT_ITERATOR d s e b t c) =
     (case s of None \<Rightarrow> 0 | Some s \<Rightarrow> ssize s) + (case e of None \<Rightarrow> 0 | Some e \<Rightarrow> esize e) + ssize b
     + (case t of None \<Rightarrow> 0 | Some t \<Rightarrow> ssize t) + (case c of None \<Rightarrow> 0 | Some c \<Rightarrow> esize c) + 1"
| "ssize (STMT_LABEL nm sy s) = ssize s + 1"
| "ssize (STMT_GOTO a t e) = (case e of None \<Rightarrow> 0 | Some e \<Rightarrow> esize e) + 1"
| "ssize (STMT_ASM e es cs ls) =
     esize e + sum_list (map (\<lambda>e. esize e + 1) es) + sum_list (map (\<lambda>e. esize e + 1) cs) + 1"
| "ssize STMT_CONTEXT = 1"
| "ssize (STMT_RANGE a b c) = esize a + esize b + esize c + 1"

lemma strip_parens_esize: "esize (strip_parens e) \<le> esize e"
  by (induction e rule: strip_parens.induct) auto

lemma in_list_esize: "e \<in> set es \<Longrightarrow> esize e + n \<le> sum_list (map (\<lambda>e. esize e + n) es)"
  by (rule member_le_sum_list) auto

end
