(* ===== verification/Tracker.thy ===== *)
theory Tracker
  imports Prelude "HOL-Library.List_Lexorder" "HOL-Library.Char_ord" "HOL-Library.Product_Lexorder"
begin

text \<open>
  The state records of \<^verbatim>\<open>src/smatch.h\<close> and the order on their keys, \<^verbatim>\<open>cmp_tracker\<close> of
  \<^verbatim>\<open>src/smatch_slist.c\<close>.
\<close>

section \<open>Records\<close>

text \<open>
  \<^verbatim>\<open>struct tracker\<close>: the key of a state. A symbol is its address, 0 is NULL; the owner is an
  \<^verbatim>\<open>unsigned short\<close>.
\<close>

record tracker =
  name :: string
  sym :: nat
  owner :: nat

text \<open>
  A pointer to a \<^verbatim>\<open>struct smatch_state\<close>: its address with the name it has; \<open>None\<close> is a state
  without a name.
\<close>

record smatch_state =
  st_addr :: nat
  st_name :: "string option"

text \<open>
  \<^verbatim>\<open>struct sm_state\<close> begins with the members of \<^verbatim>\<open>struct tracker\<close>. A pointer to an \<^verbatim>\<open>sm_state\<close> is
  the record together with its address \<open>sm_addr\<close>; two pointers are equal when the addresses
  are. \<open>sm_state0\<close> holds what the list of possible states needs to know of its elements; that
  list holds the state itself, so its elements are of the smaller record. The member \<^verbatim>\<open>pool\<close> is
  assigned after a state is shared, and is kept apart from the record, by address.
\<close>

record sm_state0 = tracker +
  sm_addr :: nat
  state :: smatch_state
  merged :: bool
  leaf :: bool

record sm_state = sm_state0 +
  line :: nat
  left :: "nat option"
  right :: "nat option"
  possible :: "sm_state0 list"

definition USHRT_MAX :: nat where
  "USHRT_MAX = 65535"

section \<open>The order of states\<close>

text \<open>The C standard fixes only the sign of the result of \<^verbatim>\<open>strcmp\<close>.\<close>

fun strcmp :: "string \<Rightarrow> string \<Rightarrow> int" where
  "strcmp [] [] = 0"
| "strcmp [] (_ # _) = -1"
| "strcmp (_ # _) [] = 1"
| "strcmp (a # as) (b # bs) =
     (if (of_char a :: nat) < of_char b then -1
      else if (of_char a :: nat) > of_char b then 1
      else strcmp as bs)"

definition cmp_tracker :: "('a tracker_scheme) option \<Rightarrow> ('b tracker_scheme) option \<Rightarrow> int" where
  "cmp_tracker a b =
     (case (a, b) of
        (None, None) \<Rightarrow> 0
      | (_, None) \<Rightarrow> -1
      | (None, _) \<Rightarrow> 1
      | (Some a, Some b) \<Rightarrow>
          if owner a < owner b then -1
          else if owner a > owner b then 1
          else
            (let ret = strcmp (name a) (name b)
             in if ret < 0 then -1
                else if ret > 0 then 1
                else if sym b = 0 \<and> sym a \<noteq> 0 then -1
                else if sym a = 0 \<and> sym b \<noteq> 0 then 1
                else if sym a < sym b then -1
                else if sym a > sym b then 1
                else 0))"

text \<open>The key of a state, ordered the way \<^verbatim>\<open>cmp_tracker\<close> orders: by owner, name, symbol, NULL last.\<close>

datatype tkey = TKey (key_owner: nat) (key_name: string) (key_sym: nat)

definition tkey_rank :: "tkey \<Rightarrow> nat \<times> string \<times> bool \<times> nat" where
  "tkey_rank k = (key_owner k, key_name k, key_sym k = 0, key_sym k)"

lemma tkey_rank_inj: "tkey_rank a = tkey_rank b \<longleftrightarrow> a = b"
  by (cases a; cases b) (auto simp: tkey_rank_def)

instantiation tkey :: linorder
begin

definition less_eq_tkey :: "tkey \<Rightarrow> tkey \<Rightarrow> bool" where
  "less_eq_tkey a b \<longleftrightarrow> tkey_rank a \<le> tkey_rank b"

definition less_tkey :: "tkey \<Rightarrow> tkey \<Rightarrow> bool" where
  "less_tkey a b \<longleftrightarrow> tkey_rank a < tkey_rank b"

instance
  by standard
    (auto simp: less_eq_tkey_def less_tkey_def less_le_not_le simp flip: tkey_rank_inj)

end

definition key :: "'a tracker_scheme \<Rightarrow> tkey" where
  "key s = TKey (owner s) (name s) (sym s)"

definition cmp3 :: "'k::linorder \<Rightarrow> 'k \<Rightarrow> int" where
  "cmp3 a b = (if a < b then -1 else if a = b then 0 else 1)"

lemma cmp3_simps [simp]:
  "cmp3 a b < 0 \<longleftrightarrow> a < b" "cmp3 a b = 0 \<longleftrightarrow> a = b" "cmp3 a b > 0 \<longleftrightarrow> a > b"
  "cmp3 a b = -1 \<longleftrightarrow> a < b" "cmp3 a b = 1 \<longleftrightarrow> b < a" "cmp3 a b \<ge> 0 \<longleftrightarrow> b \<le> a"
  by (auto simp: cmp3_def)

lemma strcmp_cmp3: "strcmp a b = cmp3 a b"
proof (induction a b rule: strcmp.induct)
  case (4 a as b bs)
  then show ?case by (auto simp: cmp3_def less_char_def)
qed (simp_all add: cmp3_def)

lemma cmp_tracker_key: "cmp_tracker (Some a) (Some b) = cmp3 (key a) (key b)"
  by (auto simp: cmp_tracker_def key_def Let_def strcmp_cmp3 cmp3_def less_tkey_def tkey_rank_def)

lemma cmp_tracker_NULL:
  "cmp_tracker (None :: 'a tracker_scheme option) (None :: 'b tracker_scheme option) = 0"
  "cmp_tracker (Some a) (None :: 'b tracker_scheme option) = -1"
  "cmp_tracker (None :: 'a tracker_scheme option) (Some b) = 1"
  by (simp_all add: cmp_tracker_def)

end
