(* ===== verification/Avl.thy ===== *)
theory Avl
  imports Tracker "HOL-Library.Monad_Syntax"
begin

text \<open>
  The balanced trees of \<^verbatim>\<open>src/avl.c\<close> that hold the states of a path: nodes with a stored balance,
  lookup, insertion, removal, rebalancing, the self check and the iterator.
\<close>

section \<open>Nodes\<close>

datatype 'a node = NULL | AvlNode (sm: 'a) (lr0: "'a node") (lr1: "'a node") (balance: int)

text \<open>
  A side is \<open>False\<close> for 0 and \<open>True\<close> for 1: \<open>bal\<close> and \<open>side\<close> are the macros of the same name, \<open>lr\<close>
  reads \<^verbatim>\<open>node->lr[side]\<close>, and \<open>mk\<close> builds a node from its child on a side and the opposite
  child.
\<close>

definition bal :: "bool \<Rightarrow> int" where
  "bal s = (if s then 1 else -1)"

definition side :: "int \<Rightarrow> bool" where
  "side b = (b = 1)"

fun lr :: "bool \<Rightarrow> 'a node \<Rightarrow> 'a node" where
  "lr s NULL = NULL"
| "lr s (AvlNode x l r b) = (if s then r else l)"

definition mk :: "bool \<Rightarrow> 'a \<Rightarrow> 'a node \<Rightarrow> 'a node \<Rightarrow> int \<Rightarrow> 'a node" where
  "mk s x same opp b = (if s then AvlNode x opp same b else AvlNode x same opp b)"

definition mkNode :: "'a \<Rightarrow> 'a node" where
  "mkNode x = AvlNode x NULL NULL 0"

section \<open>Rebalancing\<close>

text \<open>A NULL dereference is \<open>None\<close>, here and below.\<close>

definition balance_p :: "'a node \<Rightarrow> bool \<Rightarrow> 'a node option" where
  "balance_p node s =
     (case (node, lr s node) of
        (AvlNode x _ _ b, AvlNode cx cl cr cb) \<Rightarrow>
          if cb \<noteq> - bal s then
            Some (mk s cx (lr s (AvlNode cx cl cr cb))
                    (mk s x (lr (\<not> s) (AvlNode cx cl cr cb)) (lr (\<not> s) node) (- (cb - bal s)))
                    (cb - bal s))
          else
            (case lr (\<not> s) (AvlNode cx cl cr cb) of
               NULL \<Rightarrow> None
             | AvlNode gx gl gr gb \<Rightarrow>
                 Some (mk s gx
                   (mk s cx (lr s (AvlNode cx cl cr cb)) (lr s (AvlNode gx gl gr gb))
                      (if gb = bal s then 0 else if gb = - bal s then bal s else 0))
                   (mk s x (lr (\<not> s) (AvlNode gx gl gr gb)) (lr (\<not> s) node)
                      (if gb = bal s then - bal s else 0))
                   0))
      | _ \<Rightarrow> None)"

text \<open>The result of \<^verbatim>\<open>sway\<close> is the balance of the new root.\<close>

fun sway :: "'a node \<Rightarrow> int \<Rightarrow> 'a node option" where
  "sway NULL w = None"
| "sway (AvlNode x l r b) w =
     (if b \<noteq> w then Some (AvlNode x l r (b + w)) else balance_p (AvlNode x l r b) (side w))"

section \<open>Operations on a subtree\<close>

fun lookup :: "('a tracker_scheme) node \<Rightarrow> 'b tracker_scheme \<Rightarrow> ('a tracker_scheme) node" where
  "lookup NULL s = NULL"
| "lookup (AvlNode x l r b) s =
     (let cmp = cmp_tracker (Some s) (Some x)
      in if cmp < 0 then lookup l s
         else if cmp > 0 then lookup r s
         else AvlNode x l r b)"

text \<open>
  \<^verbatim>\<open>insert_sm\<close> returns the new subtree, the new \<^verbatim>\<open>avl->count\<close> and whether the subtree grew.
\<close>

fun insert_sm ::
  "nat \<Rightarrow> ('a tracker_scheme) node \<Rightarrow> 'a tracker_scheme \<Rightarrow>
     (('a tracker_scheme) node \<times> nat \<times> bool) option" where
  "insert_sm count NULL s = Some (mkNode s, count + 1, True)"
| "insert_sm count (AvlNode x l r b) s =
     (let cmp = cmp_tracker (Some s) (Some x)
      in if cmp = 0 then Some (AvlNode s l r b, count, False)
         else
           do {
             (child, count', grew) \<leftarrow> insert_sm count (if side cmp then r else l) s;
             let node = (if side cmp then AvlNode x l child b else AvlNode x child r b);
             if \<not> grew then Some (node, count', False)
             else do {
               node' \<leftarrow> sway node cmp;
               Some (node', count', balance node' \<noteq> 0)
             }
           })"

fun removeExtremum :: "'a node \<Rightarrow> bool \<Rightarrow> ('a node \<times> 'a \<times> bool) option" where
  "removeExtremum NULL s = None"
| "removeExtremum (AvlNode x l r b) s =
     (if (if s then r else l) = NULL then Some (if s then l else r, x, True)
      else
        do {
          (child, ret, shrunk) \<leftarrow> removeExtremum (if s then r else l) s;
          let node = (if s then AvlNode x l child b else AvlNode x child r b);
          if \<not> shrunk then Some (node, ret, False)
          else do {
            node' \<leftarrow> sway node (- bal s);
            Some (node', ret, balance node' = 0)
          }
        })"

text \<open>
  \<^verbatim>\<open>remove_sm\<close> returns the new subtree, the new count, the removed state and whether the
  subtree shrank. In C the replacement takes over the two subtrees after \<^verbatim>\<open>removeExtremum\<close> has
  updated one of them.
\<close>

fun remove_sm ::
  "nat \<Rightarrow> ('a tracker_scheme) node \<Rightarrow> 'b tracker_scheme \<Rightarrow>
     (('a tracker_scheme) node \<times> nat \<times> ('a tracker_scheme) option \<times> bool) option" where
  "remove_sm count NULL s = Some (NULL, count, None, False)"
| "remove_sm count (AvlNode x l r b) s =
     (let cmp = cmp_tracker (Some s) (Some x)
      in if cmp = 0 then
           (if l \<noteq> NULL \<and> r \<noteq> NULL then
              (let sd = \<not> b \<le> 0
               in do {
                 (child, replacement, shrunk) \<leftarrow> removeExtremum (if sd then r else l) (\<not> sd);
                 let l' = (if sd then l else child);
                 let r' = (if sd then child else r);
                 if \<not> shrunk then Some (AvlNode replacement l' r' b, count - 1, Some x, False)
                 else Some (AvlNode replacement l' r' (b - bal sd), count - 1, Some x, b - bal sd = 0)
               })
            else if l \<noteq> NULL then Some (l, count - 1, Some x, True)
            else Some (r, count - 1, Some x, True))
         else
           do {
             (child, count', ret, shrunk) \<leftarrow> remove_sm count (if side cmp then r else l) s;
             let node = (if side cmp then AvlNode x l child b else AvlNode x child r b);
             if \<not> shrunk then Some (node, count', ret, False)
             else do {
               node' \<leftarrow> sway node (- cmp);
               Some (node', count', ret, balance node' = 0)
             }
           })"

section \<open>The self check\<close>

text \<open>The out parameter \<^verbatim>\<open>*height\<close> is the \<open>Some\<close> value, \<^verbatim>\<open>false\<close> is \<open>None\<close>.\<close>

fun checkBalances :: "'a node \<Rightarrow> int option" where
  "checkBalances NULL = Some 0"
| "checkBalances (AvlNode x l r b) =
     do {
       h0 \<leftarrow> checkBalances l;
       h1 \<leftarrow> checkBalances r;
       if b \<noteq> h1 - h0 \<or> b < -1 \<or> b > 1 then None
       else Some ((if h0 > h1 then h0 else h1) + 1)
     }"

fun countNode :: "'a node \<Rightarrow> nat" where
  "countNode NULL = 0"
| "countNode (AvlNode x l r b) = 1 + countNode l + countNode r"

section \<open>Traversal\<close>

text \<open>
  \<^verbatim>\<open>AvlIter\<close>: \<open>iter_node\<close> is the current node, NULL at the end, and the stack holds the nodes still
  to be visited, its top first. The C array has 100 entries.
\<close>

record 'a AvlIter =
  iter_node :: "'a node"
  iter_stack :: "'a node list"
  direction :: bool

text \<open>The inner loop \<^verbatim>\<open>while (node->lr[dir] != NULL)\<close>.\<close>

fun iter_descend :: "bool \<Rightarrow> 'a node list \<Rightarrow> 'a node \<Rightarrow> 'a node \<times> 'a node list" where
  "iter_descend dir stack NULL = (NULL, stack)"
| "iter_descend dir stack (AvlNode x l r b) =
     (if (if dir then r else l) \<noteq> NULL
      then iter_descend dir (AvlNode x l r b # stack) (if dir then r else l)
      else (AvlNode x l r b, stack))"

definition avl_iter_begin :: "'a node \<Rightarrow> bool \<Rightarrow> 'a AvlIter" where
  "avl_iter_begin rt dir =
     (if rt = NULL then \<lparr>iter_node = NULL, iter_stack = [], direction = dir\<rparr>
      else
        (let (node, stack) = iter_descend dir [] rt
         in \<lparr>iter_node = node, iter_stack = stack, direction = dir\<rparr>))"

definition avl_iter_next :: "'a AvlIter \<Rightarrow> 'a AvlIter" where
  "avl_iter_next iter =
     (if iter_node iter = NULL then iter
      else
        (let node = lr (\<not> direction iter) (iter_node iter)
         in if node \<noteq> NULL then
              (let (node', stack) = iter_descend (direction iter) (iter_stack iter) node
               in iter\<lparr>iter_node := node', iter_stack := stack\<rparr>)
            else
              (case iter_stack iter of
                 [] \<Rightarrow> iter\<lparr>iter_node := NULL\<rparr>
               | node # stack \<Rightarrow> iter\<lparr>iter_node := node, iter_stack := stack\<rparr>)))"

text \<open>
  The loop \<^verbatim>\<open>avl_traverse\<close> over an iterator, as the list of the states it visits; the fuel is a
  bound on the number of steps.
\<close>

fun avl_traverse :: "nat \<Rightarrow> 'a AvlIter \<Rightarrow> 'a list" where
  "avl_traverse 0 iter = []"
| "avl_traverse (Suc n) iter =
     (case iter_node iter of
        NULL \<Rightarrow> []
      | AvlNode x l r b \<Rightarrow> x # avl_traverse n (avl_iter_next iter))"

definition avl_foreach :: "'a node \<Rightarrow> 'a list" where
  "avl_foreach rt = avl_traverse (countNode rt) (avl_iter_begin rt False)"

definition avl_foreach_reverse :: "'a node \<Rightarrow> 'a list" where
  "avl_foreach_reverse rt = avl_traverse (countNode rt) (avl_iter_begin rt True)"

text \<open>\<^verbatim>\<open>checkOrder\<close> walks the tree and compares each state with the last one.\<close>

fun check_order_loop :: "('a tracker_scheme) option \<Rightarrow> ('a tracker_scheme) list \<Rightarrow> bool" where
  "check_order_loop last_sm [] = True"
| "check_order_loop last_sm (x # xs) =
     (if last_sm \<noteq> None \<and> cmp_tracker last_sm (Some x) \<ge> 0 then False
      else check_order_loop (Some x) xs)"

definition checkOrder :: "('a tracker_scheme) node \<Rightarrow> bool" where
  "checkOrder rt = check_order_loop None (avl_foreach rt)"

end
