(* ===== verification/Stree.thy ===== *)
theory Stree
  imports Avl
begin

text \<open>
  The \<^verbatim>\<open>struct stree\<close> of \<^verbatim>\<open>src/avl.h\<close>: state trees with reference counts, shared between paths and
  copied when a shared one is about to be changed. The trees live in an explicit store, so that
  sharing is visible.
\<close>

section \<open>Store\<close>

record stree =
  st_root :: "sm_state node"
  base_stree :: "nat option"
  has_states :: "nat \<Rightarrow> bool"
  count :: nat
  stree_id :: int
  references :: nat
  stree_line :: nat

text \<open>
  A \<^verbatim>\<open>struct stree *\<close> is an address or \<open>None\<close> for NULL. \<open>None\<close> as the result of an operation stands for
  a failed assertion or an access to a tree that has been freed.
\<close>

record store =
  trees :: "nat \<rightharpoonup> stree"
  next_addr :: nat
  unfree_stree :: int

definition new_stree :: stree where
  "new_stree = \<lparr>st_root = NULL, base_stree = None, has_states = (\<lambda>_. False), count = 0,
     stree_id = 0, references = 1, stree_line = 0\<rparr>"

text \<open>Writing the record that a pointer refers to.\<close>

definition set_tree :: "store \<Rightarrow> nat \<Rightarrow> stree \<Rightarrow> store" where
  "set_tree st a t = st\<lparr>trees := (trees st)(a \<mapsto> t)\<rparr>"

definition avl_new :: "store \<Rightarrow> nat \<times> store" where
  "avl_new st =
     (next_addr st,
      st\<lparr>trees := (trees st)(next_addr st \<mapsto> new_stree), next_addr := next_addr st + 1,
         unfree_stree := unfree_stree st + 1\<rparr>)"

definition free_stree :: "store \<Rightarrow> nat option \<Rightarrow> store option" where
  "free_stree st p =
     (case p of
        None \<Rightarrow> Some st
      | Some a \<Rightarrow>
          do {
            t \<leftarrow> trees st a;
            if \<not> references t > 0 then None
            else if references t - 1 \<noteq> 0 then
              Some (set_tree st a (t\<lparr>references := references t - 1\<rparr>))
            else Some (st\<lparr>trees := (trees st)(a := None), unfree_stree := unfree_stree st - 1\<rparr>)
          })"

definition avl_lookup :: "store \<Rightarrow> nat option \<Rightarrow> 'a tracker_scheme \<Rightarrow> sm_state option option" where
  "avl_lookup st p s =
     (case p of
        None \<Rightarrow> Some None
      | Some a \<Rightarrow>
          do {
            t \<leftarrow> trees st a;
            if owner s \<noteq> USHRT_MAX \<and> \<not> has_states t (owner s) then Some None
            else Some (case lookup (st_root t) s of NULL \<Rightarrow> None | AvlNode x l r b \<Rightarrow> Some x)
          })"

definition stree_count :: "store \<Rightarrow> nat option \<Rightarrow> nat option" where
  "stree_count st p = (case p of None \<Rightarrow> Some 0 | Some a \<Rightarrow> map_option count (trees st a))"

text \<open>The end of \<^verbatim>\<open>avl_insert\<close>, once the tree is known to have one reference.\<close>

definition insert_here :: "store \<Rightarrow> nat \<Rightarrow> sm_state \<Rightarrow> store option" where
  "insert_here st a s =
     do {
       t \<leftarrow> trees st a;
       (r, c, grew) \<leftarrow> insert_sm (count t) (st_root t) s;
       Some (set_tree st a
         (t\<lparr>st_root := r, count := c, stree_line := line s,
            has_states := (if owner s \<noteq> USHRT_MAX then (has_states t)(owner s := True)
                           else has_states t)\<rparr>))
     }"

fun insert_all_here :: "store \<Rightarrow> nat \<Rightarrow> sm_state list \<Rightarrow> store option" where
  "insert_all_here st a [] = Some st"
| "insert_all_here st a (s # ss) = do { st \<leftarrow> insert_here st a s; insert_all_here st a ss }"

text \<open>
  \<^verbatim>\<open>clone_stree_real\<close> inserts into a tree it has just made, which nothing else refers to, so
  its calls of \<^verbatim>\<open>avl_insert\<close> find a reference count of one.
\<close>

definition clone_stree_real :: "store \<Rightarrow> nat \<Rightarrow> (nat \<times> store) option" where
  "clone_stree_real st orig =
     do {
       t \<leftarrow> trees st orig;
       let (new, st) = avl_new st;
       st \<leftarrow> insert_all_here st new (avl_foreach (st_root t));
       n \<leftarrow> trees st new;
       Some (new, set_tree st new (n\<lparr>base_stree := base_stree t\<rparr>))
     }"

text \<open>
  The step that \<^verbatim>\<open>avl_insert\<close> and \<^verbatim>\<open>avl_remove\<close> begin with: a shared tree is left to its other
  holders and a copy is made.
\<close>

definition unshare :: "store \<Rightarrow> nat \<Rightarrow> (nat \<times> store) option" where
  "unshare st a =
     do {
       t \<leftarrow> trees st a;
       if references t > 1 then
         clone_stree_real (set_tree st a (t\<lparr>references := references t - 1\<rparr>)) a
       else Some (a, st)
     }"

definition avl_insert :: "store \<Rightarrow> nat option \<Rightarrow> sm_state \<Rightarrow> (nat option \<times> store \<times> bool) option" where
  "avl_insert st p s =
     (let (a, st) = (case p of None \<Rightarrow> avl_new st | Some a \<Rightarrow> (a, st))
      in do {
        (a, st) \<leftarrow> unshare st a;
        t \<leftarrow> trees st a;
        st \<leftarrow> insert_here st a s;
        t' \<leftarrow> trees st a;
        Some (Some a, st, count t' \<noteq> count t)
      })"

definition avl_remove ::
  "store \<Rightarrow> nat option \<Rightarrow> 'a tracker_scheme \<Rightarrow> (nat option \<times> store \<times> bool) option" where
  "avl_remove st p s =
     (case p of
        None \<Rightarrow> Some (None, st, False)
      | Some a \<Rightarrow>
          do {
            (a, st) \<leftarrow> unshare st a;
            t \<leftarrow> trees st a;
            (r, c, ret, shrunk) \<leftarrow> remove_sm (count t) (st_root t) s;
            let st = set_tree st a (t\<lparr>st_root := r, count := c\<rparr>);
            if c = 0 then do { st \<leftarrow> free_stree st (Some a); Some (None, st, ret \<noteq> None) }
            else Some (Some a, st, ret \<noteq> None)
          })"

definition clone_stree :: "store \<Rightarrow> nat option \<Rightarrow> (nat option \<times> store) option" where
  "clone_stree st orig =
     (case orig of
        None \<Rightarrow> Some (None, st)
      | Some a \<Rightarrow>
          do {
            t \<leftarrow> trees st a;
            Some (Some a, set_tree st a (t\<lparr>references := references t + 1\<rparr>))
          })"

definition set_stree_id :: "store \<Rightarrow> nat \<Rightarrow> int \<Rightarrow> (nat \<times> store) option" where
  "set_stree_id st a i =
     do {
       t \<leftarrow> trees st a;
       (a, st) \<leftarrow> (if stree_id t \<noteq> 0 then clone_stree_real st a else Some (a, st));
       t \<leftarrow> trees st a;
       Some (a, set_tree st a (t\<lparr>stree_id := i\<rparr>))
     }"

definition get_stree_id :: "store \<Rightarrow> nat option \<Rightarrow> int option" where
  "get_stree_id st p = (case p of None \<Rightarrow> Some (-1) | Some a \<Rightarrow> map_option stree_id (trees st a))"

definition avl_check_invariants :: "stree \<Rightarrow> bool" where
  "avl_check_invariants t =
     (checkBalances (st_root t) \<noteq> None \<and> checkOrder (st_root t) \<and> countNode (st_root t) = count t)"

section \<open>What the store means\<close>

text \<open>The map that a pointer denotes, from keys to states.\<close>

definition view :: "store \<Rightarrow> nat option \<Rightarrow> tkey \<Rightarrow> sm_state option" where
  "view st p k =
     (case p of
        None \<Rightarrow> None
      | Some a \<Rightarrow>
          (case trees st a of None \<Rightarrow> None | Some t \<Rightarrow> find (\<lambda>x. key x = k) (avl_foreach (st_root t))))"

end
