(* ===== verification/Avl_Facts.thy ===== *)
theory Avl_Facts
  imports Avl
begin

text \<open>
  Correctness of the trees of \<^verbatim>\<open>src/avl.c\<close>: the stored balances are the height differences, the
  states stay in key order, and lookup, insertion and removal are those of a finite map.
\<close>

section \<open>Balance\<close>

fun height :: "'a node \<Rightarrow> int" where
  "height NULL = 0"
| "height (AvlNode x l r b) = 1 + max (height l) (height r)"

fun avl :: "'a node \<Rightarrow> bool" where
  "avl NULL = True"
| "avl (AvlNode x l r b) = (avl l \<and> avl r \<and> b = height r - height l \<and> - 1 \<le> b \<and> b \<le> 1)"

fun inorder :: "'a node \<Rightarrow> 'a list" where
  "inorder NULL = []"
| "inorder (AvlNode x l r b) = inorder l @ x # inorder r"

lemma height_nonneg [simp]: "0 \<le> height t"
  by (induction t) auto

lemma height_not_neg [simp]: "height t \<noteq> - 1"
  using height_nonneg [of t] by linarith

lemma height_0_iff [simp]: "height t = 0 \<longleftrightarrow> t = NULL"
proof (cases t)
  case (AvlNode x l r b)
  have "0 < 1 + max (height l) (height r)"
    using height_nonneg [of l] height_nonneg [of r] by linarith
  then show ?thesis by (simp add: AvlNode)
qed simp

lemma height_le_0_iff [simp]: "height t \<le> 0 \<longleftrightarrow> t = NULL"
  using height_nonneg [of t] height_0_iff [of t] by linarith

text \<open>\<^verbatim>\<open>checkBalances\<close> decides the balance invariant and computes the height.\<close>

lemma checkBalances_iff: "checkBalances t = (if avl t then Some (height t) else None)"
  by (induction t) (auto simp: max_def)

lemma avl_height_pos: "t \<noteq> NULL \<Longrightarrow> 0 < height t"
  using height_nonneg [of t] height_0_iff [of t] by linarith

text \<open>
  Rebalancing: \<open>b\<close> is the balance before one side changed its height by one, so that the heights
  now differ by \<open>b + w\<close>. The order is kept, the invariant restored, and the new balance tells
  whether a rotation lowered the tree.
\<close>

lemma balance_p_spec:
  assumes "avl l" "avl r" "height r - height l = 2 * bal s"
  shows "\<exists>t'. balance_p (AvlNode x l r b) s = Some t' \<and> avl t' \<and> t' \<noteq> NULL
    \<and> inorder t' = inorder l @ x # inorder r
    \<and> height t' = (if balance t' = 0 then max (height l) (height r) else 1 + max (height l) (height r))
    \<and> (balance t' \<noteq> 0 \<longleftrightarrow> balance (if s then r else l) = 0)"
proof (cases s)
  case True
  then obtain cx cl cr cb where r: "r = AvlNode cx cl cr cb"
    using assms(3) height_nonneg [of l] by (cases r) (auto simp: bal_def)
  show ?thesis
  proof (cases "cb = -1")
    case True
    then obtain gx gl gr gb where cl: "cl = AvlNode gx gl gr gb"
      using assms(2) height_nonneg [of cr] by (cases cl) (auto simp: r)
    show ?thesis
      using \<open>s\<close> assms True by (auto simp: balance_p_def bal_def mk_def r cl max_def split: if_splits)
  next
    case False
    then show ?thesis
      using \<open>s\<close> assms by (auto simp: balance_p_def bal_def mk_def r max_def split: if_splits)
  qed
next
  case False
  then obtain cx cl cr cb where l: "l = AvlNode cx cl cr cb"
    using assms(3) height_nonneg [of r] by (cases l) (auto simp: bal_def)
  show ?thesis
  proof (cases "cb = 1")
    case True
    then obtain gx gl gr gb where cr: "cr = AvlNode gx gl gr gb"
      using assms(1) height_nonneg [of cl] by (cases cr) (auto simp: l)
    show ?thesis
      using \<open>\<not> s\<close> assms True by (auto simp: balance_p_def bal_def mk_def l cr max_def split: if_splits)
  next
    case False
    then show ?thesis
      using \<open>\<not> s\<close> assms by (auto simp: balance_p_def bal_def mk_def l max_def split: if_splits)
  qed
qed

lemma sway_spec:
  assumes "avl l" "avl r" "- 1 \<le> b" "b \<le> 1" "w = 1 \<or> w = - 1" "b + w = height r - height l"
  shows "\<exists>t'. sway (AvlNode x l r b) w = Some t' \<and> avl t' \<and> t' \<noteq> NULL
    \<and> inorder t' = inorder l @ x # inorder r
    \<and> height t' = (if b = w \<and> balance t' = 0 then max (height l) (height r)
                   else 1 + max (height l) (height r))
    \<and> (if b = w then balance t' \<noteq> 0 \<longleftrightarrow> balance (if side w then r else l) = 0
       else balance t' = b + w)"
proof (cases "b = w")
  case True
  then have "height r - height l = 2 * bal (side w)" using assms by (auto simp: bal_def side_def)
  from balance_p_spec [OF assms(1,2) this, of x b] show ?thesis using True by auto
next
  case False
  then show ?thesis using assms by (auto simp: max_def)
qed

section \<open>Sorted lists of states\<close>

text \<open>The list of states of a tree as a finite map: insertion, removal and lookup by key.\<close>

abbreviation keys :: "('a tracker_scheme) list \<Rightarrow> tkey list" where
  "keys xs \<equiv> map key xs"

abbreviation sorted_sms :: "('a tracker_scheme) list \<Rightarrow> bool" where
  "sorted_sms xs \<equiv> sorted_wrt (<) (keys xs)"

fun ins_sm :: "'a tracker_scheme \<Rightarrow> ('a tracker_scheme) list \<Rightarrow> ('a tracker_scheme) list" where
  "ins_sm s [] = [s]"
| "ins_sm s (x # xs) =
     (if key s < key x then s # x # xs else if key s = key x then s # xs else x # ins_sm s xs)"

definition del_key :: "tkey \<Rightarrow> ('a tracker_scheme) list \<Rightarrow> ('a tracker_scheme) list" where
  "del_key k xs = filter (\<lambda>x. key x \<noteq> k) xs"

definition find_key :: "tkey \<Rightarrow> ('a tracker_scheme) list \<Rightarrow> 'a tracker_scheme option" where
  "find_key k xs = find (\<lambda>x. key x = k) xs"

lemma ins_sm_append_left:
  "sorted_sms (xs @ y # ys) \<Longrightarrow> key s < key y \<Longrightarrow> ins_sm s (xs @ y # ys) = ins_sm s xs @ y # ys"
  by (induction xs) auto

lemma ins_sm_append_right:
  "sorted_sms (xs @ y # ys) \<Longrightarrow> key y < key s \<Longrightarrow> ins_sm s (xs @ y # ys) = xs @ y # ins_sm s ys"
  by (induction xs) (auto dest: less_trans simp: sorted_wrt_append)

lemma ins_sm_append_eq:
  "sorted_sms (xs @ y # ys) \<Longrightarrow> key s = key y \<Longrightarrow> ins_sm s (xs @ y # ys) = xs @ s # ys"
  by (induction xs) (auto simp: sorted_wrt_append)

lemma set_ins_sm: "set (keys (ins_sm s xs)) = insert (key s) (set (keys xs))"
  by (induction xs) auto

lemma sorted_ins_sm: "sorted_sms xs \<Longrightarrow> sorted_sms (ins_sm s xs)"
proof (induction xs)
  case (Cons x xs)
  then show ?case
    using set_ins_sm [of s xs] by (auto simp: image_iff simp del: set_map)
qed simp

lemma find_ins_sm:
  "sorted_sms xs \<Longrightarrow> find_key k (ins_sm s xs) = (if k = key s then Some s else find_key k xs)"
  by (induction xs) (auto simp: find_key_def)

lemma length_ins_sm:
  "sorted_sms xs \<Longrightarrow> length (ins_sm s xs) = (if key s \<in> set (keys xs) then length xs else length xs + 1)"
  by (induction xs) (auto dest: less_imp_not_eq2 less_asym)

lemma find_key_None: "find_key k xs = None \<longleftrightarrow> k \<notin> set (keys xs)"
  by (auto simp: find_key_def find_None_iff)

lemma find_key_append:
  "find_key k (xs @ ys) = (case find_key k xs of None \<Rightarrow> find_key k ys | Some x \<Rightarrow> Some x)"
  by (induction xs) (auto simp: find_key_def)

lemma find_del_key: "find_key k (del_key j xs) = (if k = j then None else find_key k xs)"
  by (induction xs) (auto simp: find_key_def del_key_def)

lemma sorted_del_key: "sorted_sms xs \<Longrightarrow> sorted_sms (del_key k xs)"
  by (induction xs) (auto simp: del_key_def)

lemma del_key_id: "k \<notin> set (keys xs) \<Longrightarrow> del_key k xs = xs"
  by (induction xs) (auto simp: del_key_def)

lemma del_key_append [simp]: "del_key k (xs @ ys) = del_key k xs @ del_key k ys"
  "del_key k [] = []" "del_key k (x # xs) = (if key x = k then del_key k xs else x # del_key k xs)"
  by (simp_all add: del_key_def)

text \<open>A sorted list is determined by what is found in it.\<close>

lemma sorted_parts:
  assumes "sorted_sms (xs @ y # ys)"
  shows "sorted_sms xs" "sorted_sms ys" "\<forall>x \<in> set xs. key x < key y" "\<forall>z \<in> set ys. key y < key z"
  using assms by (auto simp: sorted_wrt_append)

section \<open>Insertion\<close>

text \<open>What an operation on a child leaves to be done at the node.\<close>

lemma sway_grown:
  assumes "avl l" "avl r" "avl c" "- 1 \<le> b" "b \<le> 1" "b = height r - height l"
    "height c = height (if s then r else l) + 1" "(if s then r else l) = NULL \<or> balance c \<noteq> 0"
    and n: "n = (if s then AvlNode x l c b else AvlNode x c r b)"
  shows "\<exists>t'. sway n (bal s) = Some t' \<and> avl t' \<and> t' \<noteq> NULL \<and> inorder t' = inorder n
    \<and> height t' = 1 + max (height l) (height r) + (if balance t' \<noteq> 0 then 1 else 0)"
proof (cases s)
  case True
  have nz: "b = 1 \<longrightarrow> balance c \<noteq> 0" using assms(6,8) True by auto
  obtain t' where t': "sway (AvlNode x l c b) 1 = Some t'" "avl t'" "t' \<noteq> NULL"
    "inorder t' = inorder l @ x # inorder c"
    and h: "height t' = (if b = 1 \<and> balance t' = 0 then max (height l) (height c)
                        else 1 + max (height l) (height c))"
    and bb: "if b = 1 then balance t' \<noteq> 0 \<longleftrightarrow> balance c = 0 else balance t' = b + 1"
    using sway_spec [OF assms(1,3,4,5), of 1 x] assms(6,7) True by (auto simp: side_def)
  have "height t' = 1 + max (height l) (height r) + (if balance t' \<noteq> 0 then 1 else 0)"
    using h bb nz assms(4-7) True by (auto simp: max_def split: if_splits)
  then show ?thesis using t' n True by (simp add: bal_def)
next
  case False
  have nz: "b = - 1 \<longrightarrow> balance c \<noteq> 0" using assms(6,8) False by auto
  obtain t' where t': "sway (AvlNode x c r b) (- 1) = Some t'" "avl t'" "t' \<noteq> NULL"
    "inorder t' = inorder c @ x # inorder r"
    and h: "height t' = (if b = - 1 \<and> balance t' = 0 then max (height c) (height r)
                        else 1 + max (height c) (height r))"
    and bb: "if b = - 1 then balance t' \<noteq> 0 \<longleftrightarrow> balance c = 0 else balance t' = b - 1"
    using sway_spec [OF assms(3,2,4,5), of "- 1" x] assms(6,7) False by (auto simp: side_def)
  have "height t' = 1 + max (height l) (height r) + (if balance t' \<noteq> 0 then 1 else 0)"
    using h bb nz assms(4-7) False by (auto simp: max_def split: if_splits)
  then show ?thesis using t' n False by (simp add: bal_def)
qed

lemma sway_shrunk:
  assumes "avl l" "avl r" "avl c" "- 1 \<le> b" "b \<le> 1" "b = height r - height l"
    "height c = height (if s then r else l) - 1"
    and n: "n = (if s then AvlNode x l c b else AvlNode x c r b)"
  shows "\<exists>t'. sway n (- bal s) = Some t' \<and> avl t' \<and> t' \<noteq> NULL \<and> inorder t' = inorder n
    \<and> height t' = 1 + max (height l) (height r) - (if balance t' = 0 then 1 else 0)"
proof (cases s)
  case True
  obtain t' where t': "sway (AvlNode x l c b) (- 1) = Some t'" "avl t'" "t' \<noteq> NULL"
    "inorder t' = inorder l @ x # inorder c"
    and h: "height t' = (if b = - 1 \<and> balance t' = 0 then max (height l) (height c)
                        else 1 + max (height l) (height c))"
    and bb: "b \<noteq> - 1 \<longrightarrow> balance t' = b - 1"
    using sway_spec [OF assms(1,3,4,5), of "- 1" x] assms(6,7) True by (auto simp: side_def)
  have "height t' = 1 + max (height l) (height r) - (if balance t' = 0 then 1 else 0)"
    using h bb assms(4-7) True by (auto simp: max_def split: if_splits)
  then show ?thesis using t' n True by (simp add: bal_def)
next
  case False
  obtain t' where t': "sway (AvlNode x c r b) 1 = Some t'" "avl t'" "t' \<noteq> NULL"
    "inorder t' = inorder c @ x # inorder r"
    and h: "height t' = (if b = 1 \<and> balance t' = 0 then max (height c) (height r)
                        else 1 + max (height c) (height r))"
    and bb: "b \<noteq> 1 \<longrightarrow> balance t' = b + 1"
    using sway_spec [OF assms(3,2,4,5), of 1 x] assms(6,7) False by (auto simp: side_def)
  have "height t' = 1 + max (height l) (height r) - (if balance t' = 0 then 1 else 0)"
    using h bb assms(4-7) False by (auto simp: max_def split: if_splits)
  then show ?thesis using t' n False by (simp add: bal_def)
qed

lemma insert_sm_spec:
  assumes "avl t" "sorted_sms (inorder t)"
  shows "\<exists>t' c' g. insert_sm c t s = Some (t', c', g) \<and> avl t' \<and> t' \<noteq> NULL
    \<and> inorder t' = ins_sm s (inorder t)
    \<and> height t' = height t + (if g then 1 else 0) \<and> (g \<longrightarrow> t = NULL \<or> balance t' \<noteq> 0)
    \<and> c' = (if key s \<in> set (keys (inorder t)) then c else c + 1)"
  using assms
proof (induction c t s rule: insert_sm.induct)
  case (1 c s)
  then show ?case by (auto simp: mkNode_def)
next
  case (2 c x l r b s)
  have parts: "avl l" "avl r" "- 1 \<le> b" "b \<le> 1" "b = height r - height l" using 2 by auto
  have srt: "sorted_sms (inorder l @ x # inorder r)" using 2 by simp
  note so = sorted_parts [OF srt]
  let ?cmp = "cmp_tracker (Some s) (Some x)"
  show ?case
  proof (cases "key s = key x")
    case True
    then have "insert_sm c (AvlNode x l r b) s = Some (AvlNode s l r b, c, False)"
      by (simp add: cmp_tracker_key)
    moreover have "ins_sm s (inorder l @ x # inorder r) = inorder l @ s # inorder r"
      using ins_sm_append_eq [OF srt True] .
    moreover have "key s \<in> set (keys (inorder (AvlNode x l r b)))" using True by simp
    ultimately show ?thesis
      using parts by (simp del: insert_sm.simps) (rule exI [of _ False], simp)
  next
    case neq: False
    define sd where "sd = (key x < key s)"
    have cmp: "?cmp = bal sd" "?cmp \<noteq> 0" "side ?cmp = sd"
      using neq by (auto simp: cmp_tracker_key sd_def bal_def side_def cmp3_def)
    obtain ch c' g where ch: "insert_sm c (if sd then r else l) s = Some (ch, c', g)" "avl ch"
      "inorder ch = ins_sm s (inorder (if sd then r else l))"
      "height ch = height (if sd then r else l) + (if g then 1 else 0)"
      "g \<longrightarrow> (if sd then r else l) = NULL \<or> balance ch \<noteq> 0"
      "c' = (if key s \<in> set (keys (inorder (if sd then r else l))) then c else c + 1)"
      using "2.IH" [OF refl cmp(2)] cmp(3) parts so by (auto split: if_splits)
    let ?n = "if sd then AvlNode x l ch b else AvlNode x ch r b"
    have ino: "inorder ?n = ins_sm s (inorder l @ x # inorder r)"
      using neq ch(3) ins_sm_append_left [OF srt] ins_sm_append_right [OF srt]
      by (auto simp: sd_def not_less_iff_gr_or_eq)
    have cnt: "c' = (if key s \<in> set (keys (inorder l @ x # inorder r)) then c else c + 1)"
      using neq ch(6) so by (auto simp: sd_def not_less_iff_gr_or_eq dest: less_asym)
    have step: "insert_sm c (AvlNode x l r b) s =
      (if \<not> g then Some (?n, c', False)
       else do { node' \<leftarrow> sway ?n (bal sd); Some (node', c', balance node' \<noteq> 0) })"
      using cmp ch(1) by (simp add: Let_def)
    show ?thesis
    proof (cases g)
      case False
      then show ?thesis
        using step ino cnt ch(2,4) parts by (cases sd) auto
    next
      case True
      obtain t' where "sway ?n (bal sd) = Some t'" "avl t'" "t' \<noteq> NULL" "inorder t' = inorder ?n"
        "height t' = 1 + max (height l) (height r) + (if balance t' \<noteq> 0 then 1 else 0)"
        using sway_grown [OF parts(1,2) ch(2) parts(3-5), of sd ?n x] ch(4,5) True by auto
      then show ?thesis using True step ino cnt by auto
    qed
  qed
qed

section \<open>Lookup\<close>

definition found :: "'a node \<Rightarrow> 'a option" where
  "found n = (case n of NULL \<Rightarrow> None | AvlNode x l r b \<Rightarrow> Some x)"

lemma find_key_sorted:
  assumes "sorted_sms (xs @ y # ys)"
  shows "find_key k (xs @ y # ys) =
    (if k < key y then find_key k xs else if k = key y then Some y else find_key k ys)"
proof -
  note so = sorted_parts [OF assms]
  have "k < key y \<Longrightarrow> find_key k ys = None" "key y \<le> k \<Longrightarrow> find_key k xs = None"
    using so(3,4) by (auto simp: find_key_None)
  moreover have "find_key k (y # ys) = (if k = key y then Some y else find_key k ys)"
    by (simp add: find_key_def)
  ultimately show ?thesis
    by (auto simp: find_key_append not_less split: option.split)
qed

lemma lookup_spec: "sorted_sms (inorder t) \<Longrightarrow> found (lookup t s) = find_key (key s) (inorder t)"
proof (induction t)
  case NULL
  then show ?case by (simp add: found_def find_key_def)
next
  case (AvlNode x l r b)
  then have srt: "sorted_sms (inorder l @ x # inorder r)" by simp
  show ?case
    using AvlNode.IH sorted_parts [OF srt] find_key_sorted [OF srt, of "key s"]
    by (auto simp: Let_def cmp_tracker_key found_def [of "AvlNode x l r b"] not_less_iff_gr_or_eq)
qed

section \<open>Removal\<close>

lemma removeExtremum_spec:
  assumes "avl t" "t \<noteq> NULL"
  shows "\<exists>t' x g. removeExtremum t s = Some (t', x, g) \<and> avl t'
    \<and> inorder t = (if s then inorder t' @ [x] else x # inorder t')
    \<and> height t' = height t - (if g then 1 else 0)"
  using assms
proof (induction t s rule: removeExtremum.induct)
  case (2 x l r b s)
  have parts: "avl l" "avl r" "- 1 \<le> b" "b \<le> 1" "b = height r - height l" using 2 by auto
  show ?case
  proof (cases "(if s then r else l) = NULL")
    case True
    then show ?thesis
      using parts height_nonneg [of l] height_nonneg [of r]
      by (cases s) (auto simp: max_def intro!: exI [of _ True])
  next
    case False
    obtain ch y g where ch: "removeExtremum (if s then r else l) s = Some (ch, y, g)" "avl ch"
      "inorder (if s then r else l) = (if s then inorder ch @ [y] else y # inorder ch)"
      "height ch = height (if s then r else l) - (if g then 1 else 0)"
      using "2.IH" [OF False _ False] parts by (cases s) auto
    let ?n = "if s then AvlNode x l ch b else AvlNode x ch r b"
    have ino: "inorder (AvlNode x l r b) = (if s then inorder ?n @ [y] else y # inorder ?n)"
      using ch(3) by (cases s) auto
    have step: "removeExtremum (AvlNode x l r b) s =
      (if \<not> g then Some (?n, y, False)
       else do { node' \<leftarrow> sway ?n (- bal s); Some (node', y, balance node' = 0) })"
      using False ch(1) by (simp add: Let_def)
    show ?thesis
    proof (cases g)
      case False
      then have "avl ?n" "height ?n = height (AvlNode x l r b)"
        using ch(2,4) parts by (cases s; simp)+
      then show ?thesis using step False ino by (simp del: removeExtremum.simps) blast
    next
      case True
      obtain t' where t': "sway ?n (- bal s) = Some t'" "avl t'" "inorder t' = inorder ?n"
        "height t' = 1 + max (height l) (height r) - (if balance t' = 0 then 1 else 0)"
        using sway_shrunk [OF parts(1,2) ch(2) parts(3-5), of s ?n x] ch(4) True by auto
      then have "removeExtremum (AvlNode x l r b) s = Some (t', y, balance t' = 0)"
        using step True by simp
      then show ?thesis using t' ino by (simp del: removeExtremum.simps)
    qed
  qed
qed simp

lemma length_del_key:
  "sorted_sms xs \<Longrightarrow> length (del_key k xs) = (if k \<in> set (keys xs) then length xs - 1 else length xs)"
proof (induction xs)
  case (Cons x xs)
  have "key x \<notin> set (keys xs)" using Cons.prems by auto
  moreover have "k \<in> set (keys xs) \<Longrightarrow> 0 < length xs" by (cases xs) auto
  ultimately show ?case using Cons del_key_id [of "key x" xs] by auto
qed simp

lemma del_key_sorted:
  assumes "sorted_sms (xs @ y # ys)"
  shows "del_key k (xs @ y # ys) =
    (if k < key y then del_key k xs @ y # ys else if k = key y then xs @ ys else xs @ y # del_key k ys)"
proof -
  note so = sorted_parts [OF assms]
  have "k \<le> key y \<Longrightarrow> del_key k ys = ys" "key y \<le> k \<Longrightarrow> del_key k xs = xs"
    using so(3,4) by (intro del_key_id, fastforce)+
  then show ?thesis by auto
qed

lemma remove_root:
  assumes parts: "avl l" "avl r" "- 1 \<le> b" "b \<le> 1" "b = height r - height l" "key s = key x"
  shows "\<exists>t' g. remove_sm c (AvlNode x l r b) s = Some (t', c - 1, Some x, g) \<and> avl t'
    \<and> inorder t' = inorder l @ inorder r
    \<and> height t' = 1 + max (height l) (height r) - (if g then 1 else 0)"
proof (cases "l \<noteq> NULL \<and> r \<noteq> NULL")
  case True
  let ?sd = "\<not> b \<le> 0"
  have "avl (if ?sd then r else l)" "(if ?sd then r else l) \<noteq> NULL" using parts True by auto
  from removeExtremum_spec [OF this, of "\<not> ?sd"]
  obtain ch y g where ch: "removeExtremum (if ?sd then r else l) (\<not> ?sd) = Some (ch, y, g)" "avl ch"
    "inorder (if ?sd then r else l) = (if \<not> ?sd then inorder ch @ [y] else y # inorder ch)"
    "height ch = height (if ?sd then r else l) - (if g then 1 else 0)"
    by blast
  let ?b = "if g then b - bal ?sd else b"
  let ?t = "AvlNode y (if ?sd then l else ch) (if ?sd then ch else r) ?b"
  have "remove_sm c (AvlNode x l r b) s = Some (?t, c - 1, Some x, g \<and> ?b = 0)"
    using True parts(6) ch(1) by (simp add: cmp_tracker_key Let_def)
  moreover have "avl ?t" "height ?t = 1 + max (height l) (height r) - (if g \<and> ?b = 0 then 1 else 0)"
    using parts ch(2,4) by (auto simp: bal_def max_def split: if_splits)
  moreover have "inorder ?t = inorder l @ inorder r" using ch(3) by (auto split: if_splits)
  ultimately show ?thesis by blast
next
  case False
  then show ?thesis
    using parts by (auto simp: cmp_tracker_key Let_def max_def intro!: exI [of _ True])
qed

lemma remove_sm_spec:
  assumes "avl t" "sorted_sms (inorder t)"
  shows "\<exists>t' g. remove_sm c t s =
      Some (t', if key s \<in> set (keys (inorder t)) then c - 1 else c, find_key (key s) (inorder t), g)
    \<and> avl t' \<and> inorder t' = del_key (key s) (inorder t)
    \<and> height t' = height t - (if g then 1 else 0)"
  using assms
proof (induction c t s rule: remove_sm.induct)
  case (1 c s)
  then show ?case by (auto simp: find_key_def intro!: exI [of _ False])
next
  case (2 c x l r b s)
  have parts: "avl l" "avl r" "- 1 \<le> b" "b \<le> 1" "b = height r - height l" using 2 by auto
  have srt: "sorted_sms (inorder l @ x # inorder r)" using 2 by simp
  note so = sorted_parts [OF srt]
  note del = del_key_sorted [OF srt, of "key s"] and fnd = find_key_sorted [OF srt, of "key s"]
  show ?case
  proof (cases "key s = key x")
    case True
    then show ?thesis
      using remove_root [OF parts True, of c] del fnd by (simp del: remove_sm.simps)
  next
    case neq: False
    define sd where "sd = (key x < key s)"
    have cmp: "cmp_tracker (Some s) (Some x) = bal sd" "cmp_tracker (Some s) (Some x) \<noteq> 0"
      "side (cmp_tracker (Some s) (Some x)) = sd"
      using neq by (auto simp: cmp_tracker_key sd_def bal_def side_def cmp3_def)
    let ?c = "if sd then r else l"
    let ?k = "if key s \<in> set (keys (inorder l @ x # inorder r)) then c - 1 else c"
    have in_c: "key s \<in> set (keys (inorder ?c)) \<longleftrightarrow> key s \<in> set (keys (inorder l @ x # inorder r))"
      using neq so by (auto simp: sd_def not_less_iff_gr_or_eq dest: less_asym)
    have found_c: "find_key (key s) (inorder ?c) = find_key (key s) (inorder l @ x # inorder r)"
      using neq fnd by (auto simp: sd_def not_less_iff_gr_or_eq)
    obtain ch g where ch: "remove_sm c ?c s =
        Some (ch, ?k, find_key (key s) (inorder l @ x # inorder r), g)" "avl ch"
      "inorder ch = del_key (key s) (inorder ?c)" "height ch = height ?c - (if g then 1 else 0)"
      using "2.IH" [OF refl cmp(2)] cmp(3) parts so in_c found_c by (auto split: if_splits)
    let ?n = "if sd then AvlNode x l ch b else AvlNode x ch r b"
    let ?f = "find_key (key s) (inorder l @ x # inorder r)"
    have ino: "inorder ?n = del_key (key s) (inorder l @ x # inorder r)"
      using neq ch(3) del by (auto simp: sd_def not_less_iff_gr_or_eq)
    have step: "remove_sm c (AvlNode x l r b) s =
      (if \<not> g then Some (?n, ?k, ?f, False)
       else do { node' \<leftarrow> sway ?n (- bal sd); Some (node', ?k, ?f, balance node' = 0) })"
      using cmp ch(1) by (simp add: Let_def)
    show ?thesis
    proof (cases g)
      case False
      then have "avl ?n" "height ?n = height (AvlNode x l r b)"
        using ch(2,4) parts by (cases sd; simp)+
      then show ?thesis using step False ino by (simp del: remove_sm.simps) blast
    next
      case True
      obtain t' where t': "sway ?n (- bal sd) = Some t'" "avl t'" "inorder t' = inorder ?n"
        "height t' = 1 + max (height l) (height r) - (if balance t' = 0 then 1 else 0)"
        using sway_shrunk [OF parts(1,2) ch(2) parts(3-5), of sd ?n x] ch(4) True by auto
      then have "remove_sm c (AvlNode x l r b) s = Some (t', ?k, ?f, balance t' = 0)"
        using step True by simp
      then show ?thesis using t' ino by (simp del: remove_sm.simps)
    qed
  qed
qed

section \<open>Traversal\<close>

text \<open>The states still to be visited from a node on the iterator's path.\<close>

fun todo :: "bool \<Rightarrow> 'a node \<Rightarrow> 'a list" where
  "todo dir NULL = []"
| "todo dir (AvlNode x l r b) = x # (if dir then rev (inorder l) else inorder r)"

definition iter_list :: "'a AvlIter \<Rightarrow> 'a list" where
  "iter_list it =
     todo (direction it) (iter_node it) @ concat (map (todo (direction it)) (iter_stack it))"

definition in_order :: "bool \<Rightarrow> 'a node \<Rightarrow> 'a list" where
  "in_order dir t = (if dir then rev (inorder t) else inorder t)"

lemma iter_descend_list:
  "t \<noteq> NULL \<Longrightarrow> iter_descend dir stack t = (n, st) \<Longrightarrow>
    n \<noteq> NULL \<and> todo dir n @ concat (map (todo dir) st) = in_order dir t @ concat (map (todo dir) stack)"
  by (induction dir stack t rule: iter_descend.induct) (auto simp: in_order_def split: if_splits)

text \<open>The end of the walk is reached with an empty stack.\<close>

definition iter_ok :: "'a AvlIter \<Rightarrow> bool" where
  "iter_ok it \<longleftrightarrow> (iter_node it = NULL \<longrightarrow> iter_stack it = [])
     \<and> (\<forall>n \<in> set (iter_stack it). n \<noteq> NULL)"

lemma iter_descend_stack:
  "iter_descend dir stack t = (n, st) \<Longrightarrow> (\<forall>m \<in> set stack. m \<noteq> NULL) \<Longrightarrow> \<forall>m \<in> set st. m \<noteq> NULL"
  by (induction dir stack t rule: iter_descend.induct) (auto split: if_splits)

lemma avl_iter_begin_spec:
  "iter_ok (avl_iter_begin rt dir)" "iter_list (avl_iter_begin rt dir) = in_order dir rt"
proof -
  obtain n st where d: "iter_descend dir [] rt = (n, st)" by fastforce
  have eq: "avl_iter_begin rt dir = (if rt = NULL then \<lparr>iter_node = NULL, iter_stack = [], direction = dir\<rparr>
      else \<lparr>iter_node = n, iter_stack = st, direction = dir\<rparr>)"
    by (simp add: avl_iter_begin_def d)
  show "iter_ok (avl_iter_begin rt dir)" "iter_list (avl_iter_begin rt dir) = in_order dir rt"
    using iter_descend_list [OF _ d] iter_descend_stack [OF d] unfolding eq
    by (cases "rt = NULL"; simp add: iter_ok_def iter_list_def in_order_def)+
qed

lemma avl_iter_next_spec:
  assumes "iter_ok it" "iter_node it = AvlNode x l r b"
  shows "iter_ok (avl_iter_next it)" "iter_list it = x # iter_list (avl_iter_next it)"
proof -
  let ?c = "if direction it then l else r"
  obtain n st where d: "iter_descend (direction it) (iter_stack it) ?c = (n, st)" by fastforce
  have "iter_ok (avl_iter_next it) \<and> iter_list it = x # iter_list (avl_iter_next it)"
  proof (cases "?c = NULL")
    case True
    then show ?thesis
      using assms by (cases "iter_stack it")
        (auto simp: avl_iter_next_def iter_ok_def iter_list_def split: if_splits)
  next
    case False
    then show ?thesis
      using assms iter_descend_list [OF False d] iter_descend_stack [OF d] d
      by (auto simp: avl_iter_next_def iter_ok_def iter_list_def in_order_def Let_def split: if_splits)
  qed
  then show "iter_ok (avl_iter_next it)" "iter_list it = x # iter_list (avl_iter_next it)" by auto
qed

lemma avl_traverse_spec:
  "iter_ok it \<Longrightarrow> length (iter_list it) \<le> n \<Longrightarrow> avl_traverse n it = iter_list it"
proof (induction n arbitrary: it)
  case 0
  then show ?case by simp
next
  case (Suc n)
  show ?case
  proof (cases "iter_node it")
    case NULL
    then show ?thesis using Suc.prems by (simp add: iter_ok_def iter_list_def)
  next
    case (AvlNode x l r b)
    then show ?thesis
      using avl_iter_next_spec [OF Suc.prems(1) AvlNode] Suc.IH [of "avl_iter_next it"] Suc.prems(2)
      by simp
  qed
qed

lemma countNode_inorder: "countNode t = length (inorder t)"
  by (induction t) auto

lemma avl_foreach_inorder: "avl_foreach t = inorder t" "avl_foreach_reverse t = rev (inorder t)"
  using avl_traverse_spec [OF avl_iter_begin_spec(1), of t _ "countNode t"]
  by (simp_all add: avl_foreach_def avl_foreach_reverse_def avl_iter_begin_spec(2) in_order_def
      countNode_inorder)

lemma check_order_loop_iff:
  "check_order_loop last_sm xs \<longleftrightarrow>
    sorted_sms xs \<and> (\<forall>l. last_sm = Some l \<longrightarrow> (\<forall>x \<in> set xs. key l < key x))"
proof (induction xs arbitrary: last_sm)
  case (Cons x xs)
  then show ?case
    by (cases last_sm) (auto simp: cmp_tracker_key not_le not_less dest: less_trans)
qed simp

lemma checkOrder_iff: "checkOrder t \<longleftrightarrow> sorted_sms (inorder t)"
  by (simp add: checkOrder_def check_order_loop_iff avl_foreach_inorder)

section \<open>The iterator's stack\<close>

text \<open>
  The stack of the iterator is an array of 100 nodes. Its depth is bounded by the height of the
  tree, and a balanced tree of height 100 has more nodes than a \<^verbatim>\<open>size_t\<close> can count.
\<close>

definition path_ok :: "int \<Rightarrow> 'a AvlIter \<Rightarrow> bool" where
  "path_ok h it \<longleftrightarrow> (\<forall>i < length (iter_stack it). height (rev (iter_stack it) ! i) \<le> h - int i)
     \<and> height (iter_node it) \<le> h - int (length (iter_stack it))"

primrec fib2 :: "nat \<Rightarrow> nat \<times> nat" where
  "fib2 0 = (0, 1)"
| "fib2 (Suc n) = (let (a, b) = fib2 n in (b, a + b))"

definition fib :: "nat \<Rightarrow> nat" where
  "fib n = fst (fib2 n)"

lemma snd_fib2: "snd (fib2 n) = fib (Suc n)"
  by (cases "fib2 n") (simp add: fib_def)

lemma fib_rec: "fib (Suc (Suc n)) = fib n + fib (Suc n)"
  using snd_fib2 [of n] by (simp add: fib_def split: prod.split)

lemma fib_mono_Suc: "fib n \<le> fib (Suc n)"
  by (cases n) (simp_all add: fib_rec, simp add: fib_def)

lemma fib_mono: "m \<le> n \<Longrightarrow> fib m \<le> fib n"
  using fib_mono_Suc by (rule lift_Suc_mono_le)

lemma fib_add_10: "89 * fib n \<le> fib (n + 10)"
  using fib_mono_Suc [of n] by (simp add: fib_rec eval_nat_numeral)

lemma fib_grows: "89 ^ k * fib n \<le> fib (n + 10 * k)"
proof (induction k)
  case (Suc k)
  have "89 ^ Suc k * fib n \<le> 89 * fib (n + 10 * k)" using Suc by simp
  also have "\<dots> \<le> fib (n + 10 * k + 10)" by (rule fib_add_10)
  finally show ?case by (simp add: algebra_simps)
qed simp

lemma avl_min_size: "avl t \<Longrightarrow> fib (nat (height t) + 2) \<le> countNode t + 1"
proof (induction t)
  case NULL
  then show ?case by (simp add: fib_def numeral_2_eq_2)
next
  case (AvlNode x l r b)
  define p q where "p = nat (height l)" and "q = nat (height r)"
  have "height l = int p" "height r = int q" by (simp_all add: p_def q_def)
  then have pq: "p \<le> q + 1" "q \<le> p + 1" and h: "nat (height (AvlNode x l r b)) = Suc (max p q)"
    using AvlNode.prems by auto
  have "fib (Suc (max p q) + 2) = fib (max p q + 1) + fib (max p q + 2)"
    using fib_rec [of "max p q + 1"] by simp
  also have "\<dots> \<le> fib (p + 2) + fib (q + 2)"
  proof (cases "p \<le> q")
    case True
    then show ?thesis using pq fib_mono [of "q + 1" "p + 2"] by (simp add: max_def)
  next
    case False
    then show ?thesis using pq fib_mono [of "p + 1" "q + 2"] by (simp add: max_def)
  qed
  also have "\<dots> \<le> countNode (AvlNode x l r b) + 1"
    using AvlNode by (simp add: p_def q_def)
  finally show ?case unfolding h .
qed

lemma avl_height_bound: "avl t \<Longrightarrow> countNode t < 2 ^ 64 \<Longrightarrow> height t < 100"
proof (rule ccontr)
  assume t: "avl t" "countNode t < 2 ^ 64" and "\<not> height t < 100"
  then have "102 \<le> nat (height t) + 2" by simp
  then have "fib 102 \<le> countNode t + 1" using avl_min_size [OF t(1)] fib_mono order_trans by blast
  moreover have "89 ^ 10 * fib 2 \<le> fib 102" using fib_grows [of 10 2] by simp
  moreover have "fib 2 = 1" by (simp add: fib_def numeral_2_eq_2)
  ultimately show False using t(2) by simp
qed

lemma path_ok_descend:
  assumes "iter_descend dir stack t = (n, st)" "height t \<le> h - int (length stack)"
    "\<forall>i < length stack. height (rev stack ! i) \<le> h - int i"
  shows "(\<forall>i < length st. height (rev st ! i) \<le> h - int i) \<and> height n \<le> h - int (length st)"
  using assms
proof (induction dir stack t rule: iter_descend.induct)
  case (2 dir stack x l r b)
  have "\<forall>i < Suc (length stack). height ((rev stack @ [AvlNode x l r b]) ! i) \<le> h - int i"
    using "2.prems" by (auto simp: nth_append less_Suc_eq)
  then show ?case using 2 by (auto split: if_splits simp: max_def)
qed simp

lemma path_ok_next:
  assumes "path_ok h it"
  shows "path_ok h (avl_iter_next it)"
proof (cases "iter_node it")
  case NULL
  then show ?thesis using assms by (simp add: avl_iter_next_def)
next
  case (AvlNode x l r b)
  let ?c = "if direction it then l else r"
  obtain n st where d: "iter_descend (direction it) (iter_stack it) ?c = (n, st)" by fastforce
  show ?thesis
  proof (cases "?c = NULL")
    case False
    have "height ?c \<le> h - int (length (iter_stack it))"
      using assms AvlNode by (auto simp: path_ok_def max_def split: if_splits)
    from path_ok_descend [OF d this] show ?thesis
      using assms False AvlNode d by (auto simp: path_ok_def avl_iter_next_def split: if_splits)
  next
    case True
    have "0 \<le> h" if "iter_stack it = []"
      by (rule order_trans [OF height_nonneg [of "iter_node it"]])
        (use assms that in \<open>simp add: path_ok_def\<close>)
    then show ?thesis
      using assms AvlNode True by (cases "iter_stack it")
        (auto simp: path_ok_def avl_iter_next_def nth_append split: if_splits)
  qed
qed

lemma path_ok_begin: "path_ok (height rt) (avl_iter_begin rt dir)"
proof -
  obtain n st where d: "iter_descend dir [] rt = (n, st)" by fastforce
  then show ?thesis
    using path_ok_descend [OF d, of "height rt"] by (auto simp: avl_iter_begin_def path_ok_def)
qed

lemma iter_stack_bound:
  assumes "avl rt" "countNode rt < 2 ^ 64"
  shows "length (iter_stack ((avl_iter_next ^^ n) (avl_iter_begin rt dir))) < 100"
proof -
  have "path_ok (height rt) ((avl_iter_next ^^ n) (avl_iter_begin rt dir))"
    by (induction n) (simp_all add: path_ok_begin path_ok_next)
  then have "int (length (iter_stack ((avl_iter_next ^^ n) (avl_iter_begin rt dir)))) \<le> height rt"
    using height_nonneg [of "iter_node ((avl_iter_next ^^ n) (avl_iter_begin rt dir))"]
    unfolding path_ok_def by linarith
  then show ?thesis using avl_height_bound [OF assms] by simp
qed

end
