(* ===== verification/Stree_Facts.thy ===== *)
theory Stree_Facts
  imports Stree Avl_Facts
begin

text \<open>
  The store of state trees: every operation keeps the trees well-formed, changes the map its
  pointer denotes as a finite map would, and leaves the trees of every other holder alone.
\<close>

section \<open>Well-formed stores\<close>

definition tree_ok :: "stree \<Rightarrow> bool" where
  "tree_ok t \<longleftrightarrow> avl (st_root t) \<and> sorted_sms (inorder (st_root t)) \<and> count t = countNode (st_root t)
     \<and> (\<forall>s \<in> set (inorder (st_root t)). owner s \<noteq> USHRT_MAX \<longrightarrow> has_states t (owner s))
     \<and> references t > 0"

definition store_ok :: "store \<Rightarrow> bool" where
  "store_ok st \<longleftrightarrow> (\<forall>a t. trees st a = Some t \<longrightarrow> a < next_addr st \<and> tree_ok t)"

definition valid :: "store \<Rightarrow> nat option \<Rightarrow> bool" where
  "valid st p \<longleftrightarrow> (\<forall>a. p = Some a \<longrightarrow> trees st a \<noteq> None)"

definition shared :: "store \<Rightarrow> nat \<Rightarrow> bool" where
  "shared st a \<longleftrightarrow> (\<exists>t. trees st a = Some t \<and> references t > 1)"

lemma tree_ok_check: "tree_ok t \<Longrightarrow> avl_check_invariants t"
  by (simp add: tree_ok_def avl_check_invariants_def checkBalances_iff checkOrder_iff)

lemma view_NULL [simp]: "view st None = (\<lambda>k. None)"
  by (simp add: view_def fun_eq_iff)

lemma view_Some: "trees st a = Some t \<Longrightarrow> view st (Some a) k = find_key k (inorder (st_root t))"
  by (simp add: view_def avl_foreach_inorder find_key_def)

lemma view_cong: "trees st a = trees st' a \<Longrightarrow> view st (Some a) = view st' (Some a)"
  by (simp add: view_def fun_eq_iff)

lemma store_okD: "store_ok st \<Longrightarrow> trees st a = Some t \<Longrightarrow> a < next_addr st \<and> tree_ok t"
  by (simp add: store_ok_def)

lemma set_tree_simps [simp]:
  "trees (set_tree st a t) b = (if b = a then Some t else trees st b)"
  "next_addr (set_tree st a t) = next_addr st" "unfree_stree (set_tree st a t) = unfree_stree st"
  "set_tree (set_tree st a t) a t' = set_tree st a t'"
  by (simp_all add: set_tree_def)

lemma set_tree_same: "trees st a = Some t \<Longrightarrow> set_tree st a t = st"
  by (cases st) (auto simp: set_tree_def fun_eq_iff)

lemma store_ok_upd: "store_ok st \<Longrightarrow> a < next_addr st \<Longrightarrow> tree_ok t \<Longrightarrow> store_ok (set_tree st a t)"
  by (simp add: store_ok_def)

lemma avl_new_spec:
  assumes "store_ok st" "avl_new st = (a, st')"
  shows "store_ok st'" "trees st' a = Some new_stree" "trees st a = None"
    "\<forall>b. b \<noteq> a \<longrightarrow> trees st' b = trees st b" "next_addr st' = next_addr st + 1"
proof -
  show none: "trees st a = None"
    using assms store_okD [OF assms(1), of a] by (cases "trees st a") (auto simp: avl_new_def)
  have "tree_ok new_stree" by (simp add: tree_ok_def new_stree_def)
  then show "store_ok st'" "trees st' a = Some new_stree"
    "\<forall>b. b \<noteq> a \<longrightarrow> trees st' b = trees st b" "next_addr st' = next_addr st + 1"
    using assms by (auto simp: avl_new_def store_ok_def less_Suc_eq split: if_splits)
qed

section \<open>Insertion and copying\<close>

lemma set_keys_find: "k \<in> set (keys xs) \<longleftrightarrow> find_key k xs \<noteq> None"
  by (simp add: find_key_None)

lemma insert_here_spec:
  assumes "trees st a = Some t" "tree_ok t"
  shows "\<exists>t'. insert_here st a s = Some (set_tree st a t') \<and> tree_ok t'
    \<and> inorder (st_root t') = ins_sm s (inorder (st_root t)) \<and> references t' = references t
    \<and> (count t' \<noteq> count t \<longleftrightarrow> key s \<notin> set (keys (inorder (st_root t))))"
proof -
  have ok: "avl (st_root t)" "sorted_sms (inorder (st_root t))" "count t = countNode (st_root t)"
    using assms(2) by (auto simp: tree_ok_def)
  obtain r c g where r: "insert_sm (count t) (st_root t) s = Some (r, c, g)" "avl r"
    "inorder r = ins_sm s (inorder (st_root t))"
    "c = (if key s \<in> set (keys (inorder (st_root t))) then count t else count t + 1)"
    using insert_sm_spec [OF ok(1,2), of "count t" s] by blast
  let ?t = "t\<lparr>st_root := r, count := c, stree_line := line s,
      has_states := (if owner s \<noteq> USHRT_MAX then (has_states t)(owner s := True) else has_states t)\<rparr>"
  have "set (ins_sm s xs) \<subseteq> insert s (set xs)" for xs by (induction xs) auto
  then have "tree_ok ?t"
    using assms(2) r(2-4) ok sorted_ins_sm [OF ok(2), of s] length_ins_sm [OF ok(2), of s]
    by (auto simp: tree_ok_def countNode_inorder)
  then show ?thesis using assms(1) r by (auto simp: insert_here_def)
qed

lemma insert_all_here_spec:
  assumes "trees st a = Some t" "tree_ok t"
  shows "\<exists>t'. insert_all_here st a ss = Some (set_tree st a t') \<and> tree_ok t'
    \<and> inorder (st_root t') = fold ins_sm ss (inorder (st_root t)) \<and> references t' = references t"
  using assms
proof (induction ss arbitrary: st t)
  case Nil
  then show ?case by (intro exI [of _ t]) (simp add: set_tree_same)
next
  case (Cons s ss)
  obtain t1 where t1: "insert_here st a s = Some (set_tree st a t1)" "tree_ok t1"
    "inorder (st_root t1) = ins_sm s (inorder (st_root t))" "references t1 = references t"
    using insert_here_spec [OF Cons.prems] by blast
  then show ?case
    using Cons.IH [of "set_tree st a t1" t1] by auto
qed

lemma ins_sm_last: "\<forall>x \<in> set xs. key x < key s \<Longrightarrow> ins_sm s xs = xs @ [s]"
  by (induction xs) (auto dest: less_asym)

lemma fold_ins_sorted:
  "sorted_sms (xs @ ys) \<Longrightarrow> fold ins_sm ys xs = xs @ ys"
proof (induction ys arbitrary: xs)
  case (Cons y ys)
  have "ins_sm y xs = xs @ [y]" using Cons.prems by (intro ins_sm_last) (auto simp: sorted_wrt_append)
  then show ?case using Cons by simp
qed simp

lemma clone_stree_real_spec:
  assumes "store_ok st" "trees st a = Some t"
  shows "\<exists>t' st'. clone_stree_real st a = Some (next_addr st, st') \<and> store_ok st'
    \<and> trees st' = (trees st)(next_addr st \<mapsto> t') \<and> trees st (next_addr st) = None
    \<and> inorder (st_root t') = inorder (st_root t) \<and> references t' = 1"
proof -
  obtain n st1 where n: "avl_new st = (n, st1)" by fastforce
  then have addr: "n = next_addr st" by (simp add: avl_new_def)
  note new = avl_new_spec [OF assms(1) n]
  have fresh: "tree_ok new_stree" "inorder (st_root new_stree) = []" "references new_stree = 1"
    by (simp_all add: tree_ok_def new_stree_def)
  have "tree_ok t" using store_okD [OF assms] by simp
  then have "fold ins_sm (avl_foreach (st_root t)) [] = inorder (st_root t)"
    using fold_ins_sorted [of "[]" "inorder (st_root t)"] by (simp add: tree_ok_def avl_foreach_inorder)
  then obtain t' where t': "insert_all_here st1 n (avl_foreach (st_root t)) = Some (set_tree st1 n t')"
    "tree_ok t'" "inorder (st_root t') = inorder (st_root t)" "references t' = 1"
    using insert_all_here_spec [OF new(2) fresh(1), of "avl_foreach (st_root t)"] fresh by auto
  let ?t = "t'\<lparr>base_stree := base_stree t\<rparr>"
  have "clone_stree_real st a = Some (n, set_tree st1 n ?t)"
    using assms(2) n t'(1) by (simp add: clone_stree_real_def)
  moreover have "tree_ok ?t" using t'(2) by (simp add: tree_ok_def)
  then have "store_ok (set_tree st1 n ?t)"
    using new(1,2) store_okD [OF new(1,2)] by (intro store_ok_upd) auto
  moreover have "trees (set_tree st1 n ?t) = (trees st)(n \<mapsto> ?t)" using new(4) by (auto simp: fun_eq_iff)
  ultimately show ?thesis
    using t'(3,4) new(3) addr by (intro exI [of _ ?t] exI [of _ "set_tree st1 n ?t"]) simp
qed

text \<open>
  After \<^verbatim>\<open>unshare\<close> the pointer has a tree of its own with the same content; a shared tree stays
  as it was for its other holders, up to the reference count.
\<close>

lemma unshare_spec:
  assumes "store_ok st" "trees st a = Some t"
  shows "\<exists>a' st' t'. unshare st a = Some (a', st') \<and> store_ok st' \<and> trees st' a' = Some t'
    \<and> references t' = 1 \<and> inorder (st_root t') = inorder (st_root t)
    \<and> (\<forall>b. b \<noteq> a' \<longrightarrow> view st' (Some b) = view st (Some b) \<and> (trees st' b = None \<longleftrightarrow> trees st b = None))
    \<and> (shared st a \<longrightarrow> trees st a' = None) \<and> (\<not> shared st a \<longrightarrow> a' = a)"
proof (cases "references t > 1")
  case True
  let ?t = "t\<lparr>references := references t - 1\<rparr>"
  let ?s = "set_tree st a ?t"
  have a: "a < next_addr st" "tree_ok t" using store_okD [OF assms] by auto
  then have "store_ok ?s" using assms(1) True by (intro store_ok_upd) (auto simp: tree_ok_def)
  then obtain t' st' where c: "clone_stree_real ?s a = Some (next_addr st, st')" "store_ok st'"
    "trees st' = (trees ?s)(next_addr st \<mapsto> t')" "trees ?s (next_addr st) = None"
    "inorder (st_root t') = inorder (st_root t)" "references t' = 1"
    using clone_stree_real_spec [of ?s a ?t] by auto
  have "view st' (Some b) = view st (Some b)" if "b \<noteq> next_addr st" for b
    using that c(3) assms(2) by (auto simp: view_def fun_eq_iff)
  moreover have "trees st (next_addr st) = None" using c(4) by (auto split: if_splits)
  moreover have "unshare st a = Some (next_addr st, st')"
    using assms(2) True c(1) by (simp add: unshare_def)
  ultimately show ?thesis
    using c True assms(2) by (intro exI [of _ "next_addr st"] exI [of _ st'] exI [of _ t'])
      (auto simp: shared_def)
next
  case False
  have "references t = 1" using False store_okD [OF assms] by (auto simp: tree_ok_def)
  then show ?thesis using assms by (auto simp: unshare_def shared_def)
qed

section \<open>The operations as those of a map\<close>

lemma avl_lookup_view:
  assumes "store_ok st" "valid st p"
  shows "avl_lookup st p s = Some (view st p (key s))"
proof (cases p)
  case None
  then show ?thesis by (simp add: avl_lookup_def)
next
  case (Some a)
  then obtain t where t: "trees st a = Some t" using assms(2) by (auto simp: valid_def)
  then have ok: "tree_ok t" using store_okD [OF assms(1)] by blast
  have "view st p (key s) = None" if "owner s \<noteq> USHRT_MAX" "\<not> has_states t (owner s)"
  proof -
    have "key s \<notin> set (keys (inorder (st_root t)))"
      using ok that by (auto simp: tree_ok_def key_def)
    then show ?thesis by (simp add: Some view_Some [OF t] find_key_None)
  qed
  moreover have "found (lookup (st_root t) s) = view st p (key s)"
    using ok by (simp add: Some view_Some [OF t] lookup_spec tree_ok_def)
  ultimately show ?thesis
    by (auto simp: avl_lookup_def Some t found_def)
qed

text \<open>
  The contract of a store of shared maps: insertion through a pointer updates the map of that
  pointer and of no other one, and leaves it with a map of its own.
\<close>

locale shared_maps =
  fixes ok :: "'s \<Rightarrow> bool" and live :: "'s \<Rightarrow> 'p \<Rightarrow> bool" and shr :: "'s \<Rightarrow> 'p \<Rightarrow> bool"
    and val :: "'s \<Rightarrow> 'p option \<Rightarrow> 'k \<Rightarrow> 'v option" and vkey :: "'v \<Rightarrow> 'k"
    and ins :: "'s \<Rightarrow> 'p option \<Rightarrow> 'v \<Rightarrow> ('p option \<times> 's \<times> bool) option"
  assumes ins_spec: "ok st \<Longrightarrow> (\<forall>a. p = Some a \<longrightarrow> live st a) \<Longrightarrow>
    \<exists>a st' new. ins st p v = Some (Some a, st', new) \<and> ok st' \<and> live st' a
      \<and> val st' (Some a) = (val st p)(vkey v \<mapsto> v) \<and> (new \<longleftrightarrow> val st p (vkey v) = None)
      \<and> (\<forall>c. live st c \<longrightarrow> (p = Some c \<longrightarrow> shr st c) \<longrightarrow>
           a \<noteq> c \<and> live st' c \<and> val st' (Some c) = val st (Some c))"

text \<open>Inserting the states of a list one after the other.\<close>

fun insert_each ::
  "('s \<Rightarrow> 'p option \<Rightarrow> 'v \<Rightarrow> ('p option \<times> 's \<times> bool) option) \<Rightarrow> 's \<Rightarrow> 'p option \<Rightarrow> 'v list \<Rightarrow>
     ('p option \<times> 's) option" where
  "insert_each ins st p [] = Some (p, st)"
| "insert_each ins st p (v # vs) =
     do { (p, st, new) \<leftarrow> ins st p v; insert_each ins st p vs }"

context shared_maps
begin

lemma insert_each_spec:
  assumes "ok st" "\<forall>a. p = Some a \<longrightarrow> live st a"
  shows "\<exists>p' st'. insert_each ins st p vs = Some (p', st') \<and> ok st' \<and> (\<forall>a. p' = Some a \<longrightarrow> live st' a)
    \<and> val st' p' = fold (\<lambda>v m. m(vkey v \<mapsto> v)) vs (val st p) \<and> (vs \<noteq> [] \<longrightarrow> p' \<noteq> None)
    \<and> (\<forall>c. live st c \<longrightarrow> (p = Some c \<longrightarrow> shr st c \<and> vs \<noteq> []) \<longrightarrow>
         p' \<noteq> Some c \<and> live st' c \<and> val st' (Some c) = val st (Some c))"
  using assms
proof (induction vs arbitrary: p st)
  case (Cons v vs)
  obtain a st1 new where a: "ins st p v = Some (Some a, st1, new)" "ok st1" "live st1 a"
    "val st1 (Some a) = (val st p)(vkey v \<mapsto> v)"
    and frame: "\<forall>c. live st c \<longrightarrow> (p = Some c \<longrightarrow> shr st c) \<longrightarrow>
      a \<noteq> c \<and> live st1 c \<and> val st1 (Some c) = val st (Some c)"
    using ins_spec [OF Cons.prems] by blast
  have pre: "\<forall>b. Some a = Some b \<longrightarrow> live st1 b" using a(3) by simp
  obtain p' st' where s: "insert_each ins st1 (Some a) vs = Some (p', st')" "ok st'"
    "\<forall>a. p' = Some a \<longrightarrow> live st' a" "vs \<noteq> [] \<longrightarrow> p' \<noteq> None"
    "val st' p' = fold (\<lambda>v m. m(vkey v \<mapsto> v)) vs (val st1 (Some a))"
    and frame': "\<forall>c. live st1 c \<longrightarrow> (Some a = Some c \<longrightarrow> shr st1 c \<and> vs \<noteq> []) \<longrightarrow>
      p' \<noteq> Some c \<and> live st' c \<and> val st' (Some c) = val st1 (Some c)"
    using Cons.IH [OF a(2) pre] by blast
  have "p' \<noteq> None" using s(1,4) by (cases vs) auto
  moreover have "p' \<noteq> Some c \<and> live st' c \<and> val st' (Some c) = val st (Some c)"
    if "live st c" "p = Some c \<longrightarrow> shr st c" for c
    using frame frame' that by auto
  moreover have "insert_each ins st p (v # vs) = Some (p', st')" using a(1) s(1) by simp
  moreover have "val st' p' = fold (\<lambda>v m. m(vkey v \<mapsto> v)) (v # vs) (val st p)"
    unfolding s(5) a(4) by (simp only: fold_simps)
  ultimately show ?case using s(2,3) by blast
qed auto

end

lemma avl_insert_spec:
  assumes "store_ok st" "valid st p"
  shows "\<exists>a st' new. avl_insert st p s = Some (Some a, st', new) \<and> store_ok st' \<and> trees st' a \<noteq> None
    \<and> view st' (Some a) = (view st p)(key s \<mapsto> s) \<and> (new \<longleftrightarrow> view st p (key s) = None)
    \<and> (\<forall>c. trees st c \<noteq> None \<longrightarrow> (p = Some c \<longrightarrow> shared st c) \<longrightarrow>
         a \<noteq> c \<and> trees st' c \<noteq> None \<and> view st' (Some c) = view st (Some c))"
proof -
  obtain a0 st0 where start: "(case p of None \<Rightarrow> avl_new st | Some a \<Rightarrow> (a, st)) = (a0, st0)" by fastforce
  have "\<exists>t0. trees st0 a0 = Some t0 \<and> store_ok st0 \<and> find_key k (inorder (st_root t0)) = view st p k
      \<and> (\<forall>c. trees st c \<noteq> None \<longrightarrow> (p = Some c \<longrightarrow> shared st c) \<longrightarrow>
           trees st0 c = trees st c \<and> (a0 = c \<longrightarrow> shared st0 c))" for k
  proof (cases p)
    case None
    note new = avl_new_spec [OF assms(1) start [unfolded None option.case]]
    have "a0 \<noteq> c" if "trees st c \<noteq> None" for c using new(3) that by auto
    then have "trees st0 c = trees st c" "a0 \<noteq> c" if "trees st c \<noteq> None" for c
      using new(4) that by metis+
    then show ?thesis
      using None new(1,2) by (intro exI [of _ new_stree]) (simp add: new_stree_def find_key_def)
  next
    case (Some a)
    then show ?thesis using start assms by (auto simp: valid_def view_Some)
  qed
  then obtain t0 where t0: "trees st0 a0 = Some t0" "store_ok st0"
    "\<And>k. find_key k (inorder (st_root t0)) = view st p k"
    and fr0: "\<And>c. trees st c \<noteq> None \<Longrightarrow> (p = Some c \<longrightarrow> shared st c) \<Longrightarrow>
      trees st0 c = trees st c \<and> (a0 = c \<longrightarrow> shared st0 c)"
    by (metis option.inject)
  obtain a st1 t1 where u: "unshare st0 a0 = Some (a, st1)" "store_ok st1" "trees st1 a = Some t1"
    "inorder (st_root t1) = inorder (st_root t0)"
    and fr1: "\<And>b. b \<noteq> a \<Longrightarrow> view st1 (Some b) = view st0 (Some b) \<and> (trees st1 b = None \<longleftrightarrow> trees st0 b = None)"
    and own: "shared st0 a0 \<longrightarrow> trees st0 a = None" "\<not> shared st0 a0 \<longrightarrow> a = a0"
    using unshare_spec [OF t0(2,1)] by blast
  have ok1: "tree_ok t1" "a < next_addr st1" using store_okD [OF u(2,3)] by auto
  obtain t' where t': "insert_here st1 a s = Some (set_tree st1 a t')" "tree_ok t'"
    "inorder (st_root t') = ins_sm s (inorder (st_root t1))"
    "count t' \<noteq> count t1 \<longleftrightarrow> key s \<notin> set (keys (inorder (st_root t1)))"
    using insert_here_spec [OF u(3) ok1(1)] by blast
  let ?st = "set_tree st1 a t'"
  have "sorted_sms (inorder (st_root t1))" using ok1(1) by (simp add: tree_ok_def)
  then have "view ?st (Some a) = (view st p)(key s \<mapsto> s)"
    using t'(3) t0(3) u(4) by (auto simp: fun_eq_iff view_Some [of ?st a t'] find_ins_sm)
  moreover have "avl_insert st p s = Some (Some a, ?st, count t' \<noteq> count t1)"
    using start u(1,3) t'(1) by (simp add: avl_insert_def)
  moreover have "count t' \<noteq> count t1 \<longleftrightarrow> view st p (key s) = None"
    using t'(4) unfolding u(4) find_key_None [symmetric] t0(3) .
  moreover have "a \<noteq> c \<and> trees ?st c \<noteq> None \<and> view ?st (Some c) = view st (Some c)"
    if c: "trees st c \<noteq> None" "p = Some c \<longrightarrow> shared st c" for c
  proof -
    have "a \<noteq> c" using fr0 [OF c] own c(1) t0(1) by metis
    then show ?thesis
      using fr0 [OF c] fr1 [of c] c(1) view_cong [of ?st c st1] view_cong [of st0 c st] by auto
  qed
  ultimately show ?thesis
    using store_ok_upd [OF u(2) ok1(2) t'(2)]
    by (intro exI [of _ a] exI [of _ ?st] exI [of _ "count t' \<noteq> count t1"]) auto
qed

interpretation sm: shared_maps store_ok "\<lambda>st a. trees st a \<noteq> None" shared view key avl_insert
  using avl_insert_spec unfolding valid_def by unfold_locales blast

section \<open>Removal, sharing and freeing\<close>

lemma free_stree_spec:
  assumes "store_ok st" "trees st a = Some t"
  shows "\<exists>st'. free_stree st (Some a) = Some st' \<and> store_ok st'
    \<and> (\<forall>c. c \<noteq> a \<longrightarrow> trees st' c = trees st c)
    \<and> (if shared st a then view st' (Some a) = view st (Some a) \<and> trees st' a \<noteq> None
        \<and> unfree_stree st' = unfree_stree st
       else trees st' a = None \<and> unfree_stree st' = unfree_stree st - 1)"
proof (cases "references t > 1")
  case True
  let ?t = "t\<lparr>references := references t - 1\<rparr>"
  have "a < next_addr st" "tree_ok ?t" using store_okD [OF assms] True by (auto simp: tree_ok_def)
  then have "store_ok (set_tree st a ?t)" using assms(1) by (intro store_ok_upd)
  moreover have "view (set_tree st a ?t) (Some a) = view st (Some a)"
    using assms(2) by (simp add: view_def fun_eq_iff)
  ultimately show ?thesis
    using True assms(2) by (auto simp: free_stree_def shared_def)
next
  case False
  then have "references t = 1" using store_okD [OF assms] by (auto simp: tree_ok_def)
  then show ?thesis using assms by (auto simp: free_stree_def shared_def store_ok_def)
qed

lemma clone_stree_spec:
  assumes "store_ok st" "valid st p"
  shows "\<exists>st'. clone_stree st p = Some (p, st') \<and> store_ok st' \<and> (\<forall>q. view st' q = view st q)
    \<and> (\<forall>a. p = Some a \<longrightarrow> shared st' a) \<and> (\<forall>q. valid st' q \<longleftrightarrow> valid st q)"
proof (cases p)
  case None
  then show ?thesis using assms by (simp add: clone_stree_def)
next
  case (Some a)
  then obtain t where t: "trees st a = Some t" using assms(2) by (auto simp: valid_def)
  let ?t = "t\<lparr>references := references t + 1\<rparr>"
  have ok: "a < next_addr st" "tree_ok ?t" "references t > 0"
    using store_okD [OF assms(1) t] by (auto simp: tree_ok_def)
  have "view (set_tree st a ?t) q = view st q" for q
    using t by (cases q) (auto simp: view_def fun_eq_iff)
  then show ?thesis
    using t ok store_ok_upd [OF assms(1) ok(1,2)] by (auto simp: clone_stree_def Some shared_def valid_def)
qed

lemma remove_here_ok:
  assumes "tree_ok t" "remove_sm (count t) (st_root t) s = Some (r, c, ret, g)"
  shows "tree_ok (t\<lparr>st_root := r, count := c\<rparr>)" "inorder r = del_key (key s) (inorder (st_root t))"
    "ret = find_key (key s) (inorder (st_root t))"
proof -
  have ok: "avl (st_root t)" "sorted_sms (inorder (st_root t))" "count t = length (inorder (st_root t))"
    using assms(1) by (auto simp: tree_ok_def countNode_inorder)
  have r: "avl r" "inorder r = del_key (key s) (inorder (st_root t))"
    "ret = find_key (key s) (inorder (st_root t))"
    "c = (if key s \<in> set (keys (inorder (st_root t))) then count t - 1 else count t)"
    using remove_sm_spec [OF ok(1,2), of "count t" s] assms(2) by auto
  then show "inorder r = del_key (key s) (inorder (st_root t))"
    "ret = find_key (key s) (inorder (st_root t))" by auto
  show "tree_ok (t\<lparr>st_root := r, count := c\<rparr>)"
    using assms(1) r sorted_del_key [OF ok(2)] length_del_key [OF ok(2), of "key s"] ok(3)
    by (auto simp: tree_ok_def countNode_inorder) (auto simp: del_key_def)
qed

lemma avl_remove_spec:
  assumes "store_ok st" "valid st p"
  shows "\<exists>p' st' gone. avl_remove st p s = Some (p', st', gone) \<and> store_ok st' \<and> valid st' p'
    \<and> view st' p' = (view st p)(key s := None) \<and> (gone \<longleftrightarrow> view st p (key s) \<noteq> None)
    \<and> (\<forall>c. trees st c \<noteq> None \<longrightarrow> (p = Some c \<longrightarrow> shared st c) \<longrightarrow>
         p' \<noteq> Some c \<and> trees st' c \<noteq> None \<and> view st' (Some c) = view st (Some c))"
proof (cases p)
  case None
  then show ?thesis using assms by (auto simp: avl_remove_def valid_def)
next
  case (Some a0)
  then obtain t0 where t0: "trees st a0 = Some t0" using assms(2) by (auto simp: valid_def)
  obtain a st1 t1 where u: "unshare st a0 = Some (a, st1)" "store_ok st1" "trees st1 a = Some t1"
    "references t1 = 1" "inorder (st_root t1) = inorder (st_root t0)"
    and fr1: "\<And>b. b \<noteq> a \<Longrightarrow> view st1 (Some b) = view st (Some b) \<and> (trees st1 b = None \<longleftrightarrow> trees st b = None)"
    and own: "shared st a0 \<longrightarrow> trees st a = None" "\<not> shared st a0 \<longrightarrow> a = a0"
    using unshare_spec [OF assms(1) t0] by blast
  have ok1: "tree_ok t1" "a < next_addr st1" using store_okD [OF u(2,3)] by auto
  then obtain r c ret g where r: "remove_sm (count t1) (st_root t1) s = Some (r, c, ret, g)"
    using remove_sm_spec [of "st_root t1" "count t1" s] by (auto simp: tree_ok_def)
  let ?t = "t1\<lparr>st_root := r, count := c\<rparr>" let ?st = "set_tree st1 a ?t"
  note rm = remove_here_ok [OF ok1(1) r]
  have st_ok: "store_ok ?st" using store_ok_upd [OF u(2) ok1(2) rm(1)] .
  have vw: "view ?st (Some a) = (view st p)(key s := None)"
    using rm(2) u(5) by (auto simp: fun_eq_iff view_Some [of ?st a ?t] Some view_Some [OF t0] find_del_key)
  have gone: "ret \<noteq> None \<longleftrightarrow> view st p (key s) \<noteq> None" by (simp add: rm(3) u(5) Some view_Some [OF t0])
  have fr: "a \<noteq> b \<and> trees ?st b \<noteq> None \<and> view ?st (Some b) = view st (Some b)"
    if b: "trees st b \<noteq> None" "p = Some b \<longrightarrow> shared st b" for b
  proof -
    have "a \<noteq> b" using own b Some by auto
    then show ?thesis using fr1 [of b] b(1) view_cong [of ?st b st1] by auto
  qed
  show ?thesis
  proof (cases "c = 0")
    case False
    then have "avl_remove st p s = Some (Some a, ?st, ret \<noteq> None)"
      using Some u(1,3) r by (simp add: avl_remove_def)
    then show ?thesis using st_ok vw gone fr by (auto simp: valid_def)
  next
    case True
    have "\<not> shared ?st a" using u(4) by (simp add: shared_def)
    then obtain st2 where f: "free_stree ?st (Some a) = Some st2" "store_ok st2"
      "\<forall>c. c \<noteq> a \<longrightarrow> trees st2 c = trees ?st c"
      using free_stree_spec [OF st_ok, of a ?t] by auto
    have "countNode r = 0" using rm(1) True by (simp add: tree_ok_def)
    then have "inorder r = []" by (simp add: countNode_inorder)
    then have "view st2 None = (view st p)(key s := None)"
      using vw by (auto simp: fun_eq_iff view_Some [of ?st a ?t] find_key_def)
    moreover have "avl_remove st p s = Some (None, st2, ret \<noteq> None)"
      using Some u(1,3) r True f(1) by (simp add: avl_remove_def)
    moreover have "trees st2 b \<noteq> None \<and> view st2 (Some b) = view st (Some b)"
      if "trees st b \<noteq> None" "p = Some b \<longrightarrow> shared st b" for b
      using fr [OF that] f(3) view_cong [of st2 b ?st] by auto
    ultimately show ?thesis using f(2) gone by (auto simp: valid_def)
  qed
qed

end
