(* ===== verification/Slist.thy ===== *)
theory Slist
  imports Stree_Facts
begin

text \<open>
  State lists of \<^verbatim>\<open>src/smatch_slist.c\<close>: the possible values of a state, the merge of two states where
  paths join, the accessors of a state tree, stacks of trees, and the loops that walk two trees
  in step.
\<close>

section \<open>Allocation\<close>

text \<open>The counters behind \<^verbatim>\<open>alloc_sm_state\<close>; \<open>lineno\<close> is the value of \<^verbatim>\<open>get_lineno()\<close>.\<close>

record sm_heap =
  next_sm :: nat
  sm_state_counter :: nat
  lineno :: nat

abbreviation base :: "sm_state \<Rightarrow> sm_state0" where
  "base s \<equiv> sm_state0.truncate s"

text \<open>A new state is its own only possible value.\<close>

definition alloc_sm_state ::
  "sm_heap \<Rightarrow> nat \<Rightarrow> string \<Rightarrow> nat \<Rightarrow> smatch_state \<Rightarrow> sm_state \<times> sm_heap" where
  "alloc_sm_state h ow nm sy st =
     (let b = \<lparr>name = nm, sym = sy, owner = ow, sm_addr = next_sm h, state = st, merged = False,
               leaf = False\<rparr>
      in (sm_state0.extend b
            \<lparr>line = lineno h, left = None, right = None, possible = [b]\<rparr>,
          h\<lparr>next_sm := next_sm h + 1, sm_state_counter := sm_state_counter h + 1\<rparr>))"

text \<open>\<^verbatim>\<open>alloc_state_no_name\<close> differs in sharing the name's storage, which is not visible here.\<close>

definition alloc_state_no_name ::
  "sm_heap \<Rightarrow> nat \<Rightarrow> string \<Rightarrow> nat \<Rightarrow> smatch_state \<Rightarrow> sm_state \<times> sm_heap" where
  "alloc_state_no_name = alloc_sm_state"

section \<open>Possible values\<close>

text \<open>
  What the comparison reads from the configuration: the owners whose states are allocated
  dynamically (\<^verbatim>\<open>has_dynamic_states\<close>) and the owner id \<^verbatim>\<open>SMATCH_EXTRA\<close>.
\<close>

record config =
  num_checks :: nat
  dynamic_states :: "nat \<Rightarrow> bool"
  SMATCH_EXTRA :: nat

definition has_dynamic_states :: "config \<Rightarrow> nat \<Rightarrow> bool" where
  "has_dynamic_states cf ow = (if ow \<ge> num_checks cf then False else dynamic_states cf ow)"

definition cmp_possible_sm :: "config \<Rightarrow> sm_state0 \<Rightarrow> sm_state0 \<Rightarrow> bool \<Rightarrow> int" where
  "cmp_possible_sm cf a b preserve =
     (if sm_addr a = sm_addr b then 0
      else if \<not> has_dynamic_states cf (owner a) then
        (if st_addr (state a) > st_addr (state b) then -1
         else if st_addr (state a) < st_addr (state b) then 1
         else 0)
      else
        (let extra = owner a = SMATCH_EXTRA cf; ret = cmp_tracker (Some a) (Some b)
         in if extra \<and> ret \<noteq> 0 then ret
            else if extra \<and> preserve \<and> merged a \<and> \<not> merged b then -1
            else if extra \<and> preserve \<and> \<not> merged a then 1
            else
              (case (st_name (state a), st_name (state b)) of
                 (Some m, Some n) \<Rightarrow> strcmp m n
               | _ \<Rightarrow> 0)))"

definition too_many_possible :: "sm_state0 list \<Rightarrow> bool" where
  "too_many_possible poss = (length poss \<ge> 100)"

fun add_possible_loop :: "config \<Rightarrow> bool \<Rightarrow> sm_state0 list \<Rightarrow> sm_state0 \<Rightarrow> sm_state0 list" where
  "add_possible_loop cf preserve [] new = [new]"
| "add_possible_loop cf preserve (tmp # poss) new =
     (let cmp = cmp_possible_sm cf tmp new preserve
      in if cmp < 0 then tmp # add_possible_loop cf preserve poss new
         else if cmp = 0 then tmp # poss
         else new # tmp # poss)"

definition add_possible_sm :: "config \<Rightarrow> sm_state \<Rightarrow> sm_state0 \<Rightarrow> sm_state" where
  "add_possible_sm cf to new =
     to\<lparr>possible := add_possible_loop cf (\<not> too_many_possible (possible to)) (possible to) new\<rparr>"

definition copy_possibles :: "config \<Rightarrow> sm_state \<Rightarrow> sm_state \<Rightarrow> sm_state \<Rightarrow> sm_state" where
  "copy_possibles cf to one two =
     (let (large, small) = (if length (possible two) > length (possible one)
                            then (two, one) else (one, two));
          to = to\<lparr>possible := possible large\<rparr>;
          to = add_possible_sm cf to (base to)
      in fold (\<lambda>tmp to. add_possible_sm cf to tmp) (possible small) to)"

definition clone_sm :: "sm_heap \<Rightarrow> sm_state \<Rightarrow> sm_state \<times> sm_heap" where
  "clone_sm h s =
     (let (ret, h) = alloc_state_no_name h (owner s) (name s) (sym s) (state s)
      in (ret\<lparr>merged := merged s, line := line s, possible := possible s, left := left s,
              right := right s\<rparr>, h))"

definition is_merged :: "sm_state \<Rightarrow> bool" where
  "is_merged s = merged s"

definition is_leaf :: "sm_state \<Rightarrow> bool" where
  "is_leaf s = (if \<not> merged s then True else if leaf s then True else False)"

definition slist_has_state :: "sm_state0 list \<Rightarrow> smatch_state \<Rightarrow> bool" where
  "slist_has_state slist st = list_ex (\<lambda>tmp. st_addr (state tmp) = st_addr st) slist"

section \<open>Merging two states\<close>

text \<open>
  The merge functions that checkers register with \<^verbatim>\<open>src/smatch_hooks.c\<close>, in order of registration,
  with their owners. A state pointer is \<open>None\<close> for NULL; \<^verbatim>\<open>undefined\<close> and \<^verbatim>\<open>merged\<close> are the two global
  states.
\<close>

type_synonym merge_fns =
  "(nat \<times> (smatch_state option \<Rightarrow> smatch_state option \<Rightarrow> smatch_state option)) list"

definition undefined_state :: smatch_state where
  "undefined_state = \<lparr>st_addr = 1, st_name = Some ''undefined''\<rparr>"

definition merged_state :: smatch_state where
  "merged_state = \<lparr>st_addr = 2, st_name = Some ''merged''\<rparr>"

definition has_merge_function :: "merge_fns \<Rightarrow> nat \<Rightarrow> bool" where
  "has_merge_function merge_funcs client_id = list_ex (\<lambda>(ow, f). ow = client_id) merge_funcs"

text \<open>NULL states are passed first, the rest by name; a state that is merged this way has a name.\<close>

definition client_merge_function ::
  "merge_fns \<Rightarrow> nat \<Rightarrow> smatch_state option \<Rightarrow> smatch_state option \<Rightarrow> smatch_state option" where
  "client_merge_function merge_funcs ow s1 s2 =
     (let swap = (case (s1, s2) of
                    (_, None) \<Rightarrow> True
                  | (None, Some _) \<Rightarrow> False
                  | (Some a, Some b) \<Rightarrow>
                      (case (st_name b, st_name a) of
                         (Some n2, Some n1) \<Rightarrow> strcmp n2 n1 < 0
                       | _ \<Rightarrow> False));
          (s1, s2) = (if swap then (s2, s1) else (s1, s2))
      in case find (\<lambda>(o', f). o' = ow) merge_funcs of
           Some (o', f) \<Rightarrow> f s1 s2
         | None \<Rightarrow> Some undefined_state)"

definition merge_states ::
  "merge_fns \<Rightarrow> nat \<Rightarrow> smatch_state option \<Rightarrow> smatch_state option \<Rightarrow> smatch_state option" where
  "merge_states merge_funcs ow state1 state2 =
     (if map_option st_addr state1 = map_option st_addr state2 then state1
      else if has_merge_function merge_funcs ow then client_merge_function merge_funcs ow state1 state2
      else if state1 = None \<or> state2 = None then Some undefined_state
      else Some merged_state)"

text \<open>
  \<^verbatim>\<open>merge_sm_states\<close>; \<open>oom\<close> is the answer of \<^verbatim>\<open>out_of_memory()\<close>. The states of an \<^verbatim>\<open>sm_state\<close> in a tree are
  not NULL; a merge function that returned NULL would make the later accesses fail, which is
  \<open>None\<close> here.
\<close>

definition merge_sm_states ::
  "config \<Rightarrow> merge_fns \<Rightarrow> bool \<Rightarrow> sm_heap \<Rightarrow> sm_state \<Rightarrow> sm_state \<Rightarrow> (sm_state \<times> sm_heap) option" where
  "merge_sm_states cf merge_funcs oom h one two =
     (if sm_addr one = sm_addr two then Some (one, h)
      else if oom then Some (one, h)
      else
        do {
          s \<leftarrow> merge_states merge_funcs (owner one) (Some (state one)) (Some (state two));
          let (result, h) = alloc_state_no_name h (owner one) (name one) (sym one) s;
          let result = result\<lparr>merged := True, left := Some (sm_addr one), right := Some (sm_addr two)\<rparr>;
          let result = copy_possibles cf result one two;
          let result = (if st_addr (state result) = st_addr (state one)
                        then result\<lparr>line := line one\<rparr> else result);
          let result = (if st_addr (state result) = st_addr (state two)
                        then result\<lparr>line := line two\<rparr> else result);
          Some (result, h)
        })"

section \<open>Accessors of a tree\<close>

definition get_sm_state_stree ::
  "store \<Rightarrow> nat option \<Rightarrow> nat \<Rightarrow> string option \<Rightarrow> nat \<Rightarrow> sm_state option option" where
  "get_sm_state_stree st p ow nm sy =
     (case nm of
        None \<Rightarrow> Some None
      | Some nm \<Rightarrow> avl_lookup st p \<lparr>name = nm, sym = sy, owner = ow\<rparr>)"

definition get_state_stree ::
  "store \<Rightarrow> nat option \<Rightarrow> nat \<Rightarrow> string option \<Rightarrow> nat \<Rightarrow> smatch_state option option" where
  "get_state_stree st p ow nm sy = map_option (map_option state) (get_sm_state_stree st p ow nm sy)"

definition overwrite_sm_state_stree ::
  "store \<Rightarrow> nat option \<Rightarrow> sm_state \<Rightarrow> (nat option \<times> store) option" where
  "overwrite_sm_state_stree st p new = map_option (\<lambda>(p, st, _). (p, st)) (avl_insert st p new)"

definition set_state_stree ::
  "sm_heap \<Rightarrow> store \<Rightarrow> nat option \<Rightarrow> nat \<Rightarrow> string \<Rightarrow> nat \<Rightarrow> smatch_state \<Rightarrow>
     (nat option \<times> sm_state \<times> sm_heap \<times> store) option" where
  "set_state_stree h st p ow nm sy s =
     (let (new, h) = alloc_sm_state h ow nm sy s
      in map_option (\<lambda>(p, st, _). (p, new, h, st)) (avl_insert st p new))"

definition delete_state_stree ::
  "store \<Rightarrow> nat option \<Rightarrow> nat \<Rightarrow> string \<Rightarrow> nat \<Rightarrow> (nat option \<times> store) option" where
  "delete_state_stree st p ow nm sy =
     map_option (\<lambda>(p, st, _). (p, st)) (avl_remove st p \<lparr>name = nm, sym = sy, owner = ow\<rparr>)"

section \<open>Stacks of trees\<close>

text \<open>A stack is a pointer list of trees with its top at the end.\<close>

type_synonym stree_stack = "nat option list"

definition push_stree :: "stree_stack \<Rightarrow> nat option \<Rightarrow> stree_stack" where
  "push_stree stack p = stack @ [p]"

definition top_stree :: "stree_stack \<Rightarrow> nat option" where
  "top_stree stack = (if stack = [] then None else last stack)"

definition pop_stree :: "stree_stack \<Rightarrow> nat option \<times> stree_stack" where
  "pop_stree stack = (top_stree stack, butlast stack)"

definition overwrite_sm_state_stree_stack ::
  "store \<Rightarrow> stree_stack \<Rightarrow> sm_state \<Rightarrow> (stree_stack \<times> store) option" where
  "overwrite_sm_state_stree_stack st stack s =
     (let (p, stack) = pop_stree stack
      in do { (p, st) \<leftarrow> overwrite_sm_state_stree st p s; Some (push_stree stack p, st) })"

definition delete_state_stree_stack ::
  "store \<Rightarrow> stree_stack \<Rightarrow> nat \<Rightarrow> string \<Rightarrow> nat \<Rightarrow> (stree_stack \<times> store) option" where
  "delete_state_stree_stack st stack ow nm sy =
     (let (p, stack) = pop_stree stack
      in do { (p, st) \<leftarrow> delete_state_stree st p ow nm sy; Some (push_stree stack p, st) })"

definition set_state_stree_stack ::
  "sm_heap \<Rightarrow> store \<Rightarrow> stree_stack \<Rightarrow> nat \<Rightarrow> string \<Rightarrow> nat \<Rightarrow> smatch_state \<Rightarrow>
     (stree_stack \<times> sm_state \<times> sm_heap \<times> store) option" where
  "set_state_stree_stack h st stack ow nm sy s =
     (let (p, stack) = pop_stree stack
      in do {
        (p, sm, h, st) \<leftarrow> set_state_stree h st p ow nm sy s;
        Some (push_stree stack p, sm, h, st)
      })"

definition get_sm_state_stree_stack ::
  "store \<Rightarrow> stree_stack \<Rightarrow> nat \<Rightarrow> string option \<Rightarrow> nat \<Rightarrow> sm_state option option" where
  "get_sm_state_stree_stack st stack ow nm sy =
     (let (p, stack) = pop_stree stack in get_sm_state_stree st p ow nm sy)"

definition get_state_stree_stack ::
  "store \<Rightarrow> stree_stack \<Rightarrow> nat \<Rightarrow> string option \<Rightarrow> nat \<Rightarrow> smatch_state option option" where
  "get_state_stree_stack st stack ow nm sy =
     map_option (map_option state) (get_sm_state_stree_stack st stack ow nm sy)"

fun free_stack_and_strees :: "store \<Rightarrow> stree_stack \<Rightarrow> store option" where
  "free_stack_and_strees st [] = Some st"
| "free_stack_and_strees st (p # stack) =
     do { st \<leftarrow> free_stree st p; free_stack_and_strees st stack }"

section \<open>Loops over trees\<close>

text \<open>The states that \<^verbatim>\<open>FOR_EACH_SM\<close> visits.\<close>

definition states_of :: "store \<Rightarrow> nat option \<Rightarrow> sm_state list option" where
  "states_of st p =
     (case p of None \<Rightarrow> Some [] | Some a \<Rightarrow> map_option (avl_foreach \<circ> st_root) (trees st a))"

definition overwrite_stree :: "store \<Rightarrow> nat option \<Rightarrow> nat option \<Rightarrow> (nat option \<times> store) option" where
  "overwrite_stree st from to = do { sms \<leftarrow> states_of st from; insert_each avl_insert st to sms }"

text \<open>\<^verbatim>\<open>and_stree_stack\<close>: the top tree is popped and written over the one below it.\<close>

fun overwrite_top :: "store \<Rightarrow> stree_stack \<Rightarrow> sm_state list \<Rightarrow> (stree_stack \<times> store) option" where
  "overwrite_top st stack [] = Some (stack, st)"
| "overwrite_top st stack (tmp # sms) =
     do {
       (stack, st) \<leftarrow> overwrite_sm_state_stree_stack st stack tmp;
       overwrite_top st stack sms
     }"

definition and_stree_stack :: "store \<Rightarrow> stree_stack \<Rightarrow> (stree_stack \<times> store) option" where
  "and_stree_stack st stack =
     (let (right_stree, stack) = pop_stree stack
      in do {
        sms \<leftarrow> states_of st right_stree;
        (stack, st) \<leftarrow> overwrite_top st stack sms;
        st \<leftarrow> free_stree st right_stree;
        Some (stack, st)
      })"

text \<open>
  The walk of \<^verbatim>\<open>filter_stree\<close> over two trees in step: the states to keep, in order. NULL states
  compare greater than all others, so an exhausted side lets the other one run out.
\<close>

function filter_walk :: "sm_state list \<Rightarrow> sm_state list \<Rightarrow> sm_state list" where
  "filter_walk ones twos =
     (let one = (case ones of [] \<Rightarrow> None | x # _ \<Rightarrow> Some x);
          two = (case twos of [] \<Rightarrow> None | x # _ \<Rightarrow> Some x)
      in if ones = [] \<and> twos = [] then []
         else if cmp_tracker one two < 0 then hd ones # filter_walk (tl ones) twos
         else if cmp_tracker one two = 0 then
           (if sm_addr (hd ones) \<noteq> sm_addr (hd twos)
            then hd ones # filter_walk (tl ones) (tl twos)
            else filter_walk (tl ones) (tl twos))
         else filter_walk ones (tl twos))"
  by pat_completeness auto
termination
  by (relation "measure (\<lambda>(ones, twos). length ones + length twos)")
    (auto simp: cmp_tracker_def split: list.splits)

definition filter_stree :: "store \<Rightarrow> nat option \<Rightarrow> nat option \<Rightarrow> (nat option \<times> store) option" where
  "filter_stree st p filt =
     do {
       ones \<leftarrow> states_of st p;
       twos \<leftarrow> states_of st filt;
       (results, st) \<leftarrow> insert_each avl_insert st None (filter_walk ones twos);
       st \<leftarrow> free_stree st p;
       Some (results, st)
     }"

end
