(* ===== verification/Slist_Facts.thy ===== *)
theory Slist_Facts
  imports Slist
begin

text \<open>
  State lists: the list of possible states is a set without duplicates, a merge joins the
  possible states of both paths, and the operations on trees and on stacks of trees are those
  of finite maps.
\<close>

section \<open>Possible values\<close>

abbreviation saddr :: "sm_state0 \<Rightarrow> nat" where
  "saddr s \<equiv> st_addr (state s)"

text \<open>
  The lists of an owner with static states are kept in decreasing order of the state's address.
  \<open>agree\<close>: entries for the same \<^verbatim>\<open>sm_state\<close> have the same state.
\<close>

definition poss_ok :: "config \<Rightarrow> sm_state0 list \<Rightarrow> bool" where
  "poss_ok cf xs \<longleftrightarrow> sorted_wrt (\<lambda>a b. saddr a > saddr b) xs
     \<and> (\<forall>x \<in> set xs. \<not> has_dynamic_states cf (owner x))"

definition agree :: "sm_state0 list \<Rightarrow> sm_state0 \<Rightarrow> bool" where
  "agree xs new \<longleftrightarrow> (\<forall>x \<in> set xs. sm_addr x = sm_addr new \<longrightarrow> saddr x = saddr new)"

lemma cmp_possible_static:
  assumes "\<not> has_dynamic_states cf (owner a)" "sm_addr a = sm_addr b \<longrightarrow> saddr a = saddr b"
  shows "cmp_possible_sm cf a b preserve = cmp3 (saddr b) (saddr a)"
  using assms by (auto simp: cmp_possible_sm_def cmp3_def)

lemma add_possible_loop_spec:
  assumes "poss_ok cf xs" "\<not> has_dynamic_states cf (owner new)" "agree xs new"
  shows "poss_ok cf (add_possible_loop cf preserve xs new)"
    "saddr ` set (add_possible_loop cf preserve xs new) = insert (saddr new) (saddr ` set xs)"
    "set (add_possible_loop cf preserve xs new) \<subseteq> insert new (set xs)"
proof -
  have "poss_ok cf (add_possible_loop cf preserve xs new)
    \<and> saddr ` set (add_possible_loop cf preserve xs new) = insert (saddr new) (saddr ` set xs)
    \<and> set (add_possible_loop cf preserve xs new) \<subseteq> insert new (set xs)"
    using assms
  proof (induction xs)
    case (Cons x xs)
    then have x: "cmp_possible_sm cf x new preserve = cmp3 (saddr new) (saddr x)"
      by (intro cmp_possible_static) (auto simp: poss_ok_def agree_def)
    have IH: "poss_ok cf (add_possible_loop cf preserve xs new)
      \<and> saddr ` set (add_possible_loop cf preserve xs new) = insert (saddr new) (saddr ` set xs)
      \<and> set (add_possible_loop cf preserve xs new) \<subseteq> insert new (set xs)"
      using Cons by (auto simp: poss_ok_def agree_def)
    consider "saddr new < saddr x" | "saddr new = saddr x" | "saddr x < saddr new" by linarith
    then show ?case
    proof cases
      case 1
      then show ?thesis
        using x IH Cons.prems by (fastforce simp: poss_ok_def Let_def image_iff)
    next
      case 2
      then show ?thesis using x Cons.prems by auto
    next
      case 3
      then show ?thesis using x Cons.prems by (auto simp: poss_ok_def Let_def)
    qed
  qed (auto simp: poss_ok_def)
  then show "poss_ok cf (add_possible_loop cf preserve xs new)"
    "saddr ` set (add_possible_loop cf preserve xs new) = insert (saddr new) (saddr ` set xs)"
    "set (add_possible_loop cf preserve xs new) \<subseteq> insert new (set xs)" by auto
qed

lemma fold_add_possible:
  assumes "poss_ok cf (possible to)" "\<forall>x \<in> set xs. \<not> has_dynamic_states cf (owner x)"
    "\<forall>x \<in> set (possible to) \<union> set xs. \<forall>y \<in> set xs. sm_addr x = sm_addr y \<longrightarrow> saddr x = saddr y"
  shows "poss_ok cf (possible (fold (\<lambda>tmp to. add_possible_sm cf to tmp) xs to))
    \<and> saddr ` set (possible (fold (\<lambda>tmp to. add_possible_sm cf to tmp) xs to))
      = saddr ` set (possible to) \<union> saddr ` set xs"
  using assms
proof (induction xs arbitrary: to)
  case (Cons x xs)
  let ?to = "add_possible_sm cf to x"
  have ok: "\<not> has_dynamic_states cf (owner x)" "agree (possible to) x"
    using Cons.prems by (auto simp: agree_def)
  note add = add_possible_loop_spec [OF Cons.prems(1) ok]
  have "possible ?to = add_possible_loop cf (\<not> too_many_possible (possible to)) (possible to) x"
    by (simp add: add_possible_sm_def)
  then have to: "poss_ok cf (possible ?to)"
    "saddr ` set (possible ?to) = insert (saddr x) (saddr ` set (possible to))"
    "set (possible ?to) \<subseteq> insert x (set (possible to))"
    using add by (simp_all only:)
  have ag: "\<forall>z \<in> set (possible ?to) \<union> set xs. \<forall>y \<in> set xs. sm_addr z = sm_addr y \<longrightarrow> saddr z = saddr y"
  proof (intro ballI)
    fix z y assume "z \<in> set (possible ?to) \<union> set xs" "y \<in> set xs"
    then have "z \<in> set (possible to) \<union> set (x # xs)" "y \<in> set (x # xs)" using to(3) by auto
    then show "sm_addr z = sm_addr y \<longrightarrow> saddr z = saddr y" using Cons.prems(3) by blast
  qed
  have st: "\<forall>x \<in> set xs. \<not> has_dynamic_states cf (owner x)" using Cons.prems(2) by simp
  from Cons.IH [OF to(1) st ag] show ?case by (simp add: to(2))
qed simp

section \<open>Trees as maps\<close>

lemma fold_upd_find:
  assumes "sorted_sms xs"
  shows "fold (\<lambda>v m. m(key v \<mapsto> v)) xs m = m ++ (\<lambda>k. find_key k xs)"
  using assms
proof (induction xs arbitrary: m)
  case Nil
  then show ?case by (simp add: find_key_def fun_eq_iff map_add_def)
next
  case (Cons x xs)
  have "key x \<notin> set (keys xs)" using Cons.prems by auto
  then have "find_key (key x) xs = None" by (simp add: find_key_None)
  then show ?case
    using Cons by (auto simp: fun_eq_iff map_add_def find_key_def split: option.split)
qed

lemma states_of_spec:
  assumes "store_ok st" "valid st p"
  shows "\<exists>xs. states_of st p = Some xs \<and> sorted_sms xs \<and> (\<forall>k. find_key k xs = view st p k)"
proof (cases p)
  case None
  then show ?thesis by (simp add: states_of_def find_key_def)
next
  case (Some a)
  then obtain t where t: "trees st a = Some t" using assms(2) by (auto simp: valid_def)
  then show ?thesis
    using store_okD [OF assms(1) t]
    by (auto simp: states_of_def Some avl_foreach_inorder view_Some tree_ok_def)
qed

lemma overwrite_stree_spec:
  assumes "store_ok st" "valid st from" "valid st to"
  shows "\<exists>p st'. overwrite_stree st from to = Some (p, st') \<and> store_ok st' \<and> valid st' p
    \<and> view st' p = view st to ++ view st from
    \<and> (\<forall>c. trees st c \<noteq> None \<longrightarrow> to \<noteq> Some c \<longrightarrow> trees st' c \<noteq> None \<and> view st' (Some c) = view st (Some c))"
proof -
  obtain xs where xs: "states_of st from = Some xs" "sorted_sms xs" "\<forall>k. find_key k xs = view st from k"
    using states_of_spec [OF assms(1,2)] by blast
  have live: "\<forall>a. to = Some a \<longrightarrow> trees st a \<noteq> None" using assms(3) by (simp add: valid_def)
  from sm.insert_each_spec [OF assms(1) live, of xs]
  obtain p st' where p: "insert_each avl_insert st to xs = Some (p, st')" "store_ok st'"
    "\<forall>a. p = Some a \<longrightarrow> trees st' a \<noteq> None"
    "view st' p = fold (\<lambda>v m. m(key v \<mapsto> v)) xs (view st to)"
    and fr: "\<forall>c. trees st c \<noteq> None \<longrightarrow> (to = Some c \<longrightarrow> shared st c \<and> xs \<noteq> []) \<longrightarrow>
      p \<noteq> Some c \<and> trees st' c \<noteq> None \<and> view st' (Some c) = view st (Some c)"
    by blast
  have "view st' p = view st to ++ view st from"
    using p(4) fold_upd_find [OF xs(2)] xs(3) by simp
  moreover have "overwrite_stree st from to = Some (p, st')" using xs(1) p(1) by (simp add: overwrite_stree_def)
  ultimately show ?thesis using p(2,3) fr unfolding valid_def by blast
qed

section \<open>Filtering\<close>

declare filter_walk.simps [simp del]

lemma filter_walk_simps [simp]:
  "filter_walk [] [] = []"
  "filter_walk (x # xs) [] = x # filter_walk xs []"
  "filter_walk [] (y # ys) = filter_walk [] ys"
  "filter_walk (x # xs) (y # ys) =
     (if key x < key y then x # filter_walk xs (y # ys)
      else if key x = key y then
        (if sm_addr x \<noteq> sm_addr y then x # filter_walk xs ys else filter_walk xs ys)
      else filter_walk (x # xs) ys)"
  by (subst filter_walk.simps, simp add: cmp_tracker_NULL cmp_tracker_key)+

text \<open>A state is dropped when the filter holds the very same state.\<close>

definition same_in :: "sm_state list \<Rightarrow> sm_state \<Rightarrow> bool" where
  "same_in ys x \<longleftrightarrow> (\<exists>y \<in> set ys. key y = key x \<and> sm_addr y = sm_addr x)"

lemma filter_walk_spec:
  "sorted_sms xs \<Longrightarrow> sorted_sms ys \<Longrightarrow> filter_walk xs ys = filter (\<lambda>x. \<not> same_in ys x) xs"
proof (induction "length xs + length ys" arbitrary: xs ys rule: less_induct)
  case less
  show ?case
  proof (cases xs)
    case Nil
    have "filter_walk [] zs = []" for zs by (induction zs) simp_all
    then show ?thesis by (simp add: Nil)
  next
    case x: (Cons x xs')
    show ?thesis
    proof (cases ys)
      case Nil
      have "filter_walk zs [] = zs" for zs by (induction zs) simp_all
      then show ?thesis by (simp add: Nil same_in_def)
    next
      case y: (Cons y ys')
      have srt: "sorted_sms xs'" "sorted_sms ys'" "\<forall>z \<in> set xs'. key x < key z" "\<forall>z \<in> set ys'. key y < key z"
        using less.prems by (auto simp: x y)
      consider "key x < key y" | "key x = key y" | "key y < key x" by fastforce
      then show ?thesis
      proof cases
        case 1
        then have "\<not> same_in ys x" using srt(4) by (auto simp: same_in_def y dest: less_asym)
        then show ?thesis using 1 less.hyps [of xs' ys] less.prems srt by (simp add: x y)
      next
        case 2
        then have "same_in ys z \<longleftrightarrow> same_in ys' z" if "z \<in> set xs'" for z
          using that srt(3) by (auto simp: same_in_def y)
        moreover have "same_in ys x \<longleftrightarrow> sm_addr x = sm_addr y"
          using 2 srt(4) by (auto simp: same_in_def y)
        ultimately show ?thesis
          using 2 less.hyps [of xs' ys'] srt by (auto simp: x y cong: filter_cong)
      next
        case 3
        then have "same_in ys z \<longleftrightarrow> same_in ys' z" if "z \<in> set xs" for z
          using that srt(3) by (auto simp: same_in_def x y dest: less_asym)
        then show ?thesis
          using 3 less.hyps [of xs ys'] less.prems srt by (auto simp: x y cong: filter_cong)
      qed
    qed
  qed
qed

end
