(* ===== verification/Slist_Merge.thy ===== *)
theory Slist_Merge
  imports Slist_Facts
begin

text \<open>
  Laws of the operations on state trees and on stacks of trees, and of the merge of two
  states.
\<close>

section \<open>Filtering a tree\<close>

lemma find_key_Some_iff:
  "sorted_sms xs \<Longrightarrow> find_key k xs = Some x \<longleftrightarrow> x \<in> set xs \<and> key x = k"
  by (induction xs) (auto simp: find_key_def)

lemma sorted_sms_filter: "sorted_sms xs \<Longrightarrow> sorted_sms (filter P xs)"
  by (induction xs) auto

lemma find_key_filter_gen:
  assumes "sorted_sms xs"
  shows "find_key k (filter P xs) =
    (case find_key k xs of None \<Rightarrow> None | Some x \<Rightarrow> if P x then Some x else None)"
  using assms
proof (induction xs)
  case (Cons a xs)
  have "find_key (key a) xs = None" using Cons.prems by (auto simp: find_key_None)
  then show ?case using Cons by (auto simp: find_key_def)
qed (simp add: find_key_def)

lemma free_stree_keeps:
  assumes "store_ok st" "valid st p" "q \<noteq> p" "valid st q"
  shows "\<exists>st'. free_stree st p = Some st' \<and> store_ok st' \<and> valid st' q \<and> view st' q = view st q"
proof (cases p)
  case None
  then show ?thesis using assms by (simp add: free_stree_def)
next
  case (Some a)
  then obtain t where "trees st a = Some t" using assms(2) by (auto simp: valid_def)
  from free_stree_spec [OF assms(1) this] obtain st' where st': "free_stree st (Some a) = Some st'"
    "store_ok st'" "\<forall>c. c \<noteq> a \<longrightarrow> trees st' c = trees st c" by blast
  have "valid st' q \<and> view st' q = view st q"
  proof (cases q)
    case (Some b)
    then have "trees st' b = trees st b" using st'(3) assms(3) \<open>p = Some a\<close> by auto
    then show ?thesis using Some assms(4) view_cong [of st' b st] by (simp add: valid_def)
  qed (simp add: valid_def)
  then show ?thesis using st' Some by blast
qed

text \<open>What \<^verbatim>\<open>filter_stree\<close> leaves of one entry.\<close>

definition unless_same :: "sm_state option \<Rightarrow> sm_state option \<Rightarrow> sm_state option" where
  "unless_same one two =
     (case (one, two) of (Some x, Some y) \<Rightarrow> if sm_addr x = sm_addr y then None else Some x | _ \<Rightarrow> one)"

lemma find_key_filter:
  assumes "sorted_sms xs" "sorted_sms ys"
  shows "find_key k (filter (\<lambda>x. \<not> same_in ys x) xs) = unless_same (find_key k xs) (find_key k ys)"
proof -
  have y: "find_key (key x) ys = Some y \<longleftrightarrow> y \<in> set ys \<and> key y = key x" for x y
    using assms(2) by (rule find_key_Some_iff)
  have "same_in ys x \<longleftrightarrow> (\<exists>y. find_key (key x) ys = Some y \<and> sm_addr x = sm_addr y)" for x
    by (auto simp: same_in_def y)
  note same = this
  show ?thesis
  proof (cases "find_key k xs")
    case None
    then show ?thesis by (simp add: find_key_filter_gen [OF assms(1)] unless_same_def)
  next
    case (Some x)
    then have "key x = k" using find_key_Some_iff [OF assms(1), of k x] by simp
    then show ?thesis
      by (auto simp: find_key_filter_gen [OF assms(1)] Some same unless_same_def split: option.split)
  qed
qed

lemma insert_each_fresh:
  assumes "store_ok st" "sorted_sms xs"
  shows "\<exists>p st'. insert_each avl_insert st None xs = Some (p, st') \<and> store_ok st' \<and> valid st' p
    \<and> view st' p = (\<lambda>k. find_key k xs)
    \<and> (\<forall>q. q \<noteq> None \<longrightarrow> valid st q \<longrightarrow> q \<noteq> p \<and> valid st' q \<and> view st' q = view st q)"
proof -
  from sm.insert_each_spec [OF assms(1), of None xs]
  obtain p st' where p: "insert_each avl_insert st None xs = Some (p, st')" "store_ok st'"
    "\<forall>a. p = Some a \<longrightarrow> trees st' a \<noteq> None"
    "view st' p = fold (\<lambda>v m. m(key v \<mapsto> v)) xs (view st None)"
    and fr: "\<forall>c. trees st c \<noteq> None \<longrightarrow> p \<noteq> Some c \<and> trees st' c \<noteq> None \<and> view st' (Some c) = view st (Some c)"
    by auto
  have "view st' p = (\<lambda>k. find_key k xs)"
    using p(4) fold_upd_find [OF assms(2), of "\<lambda>k. None"] by (simp add: map_add_def)
  moreover have "q \<noteq> p \<and> valid st' q \<and> view st' q = view st q" if "q \<noteq> None" "valid st q" for q
    using that fr by (cases q) (auto simp: valid_def)
  ultimately show ?thesis using p(1-3) unfolding valid_def by blast
qed

lemma filter_stree_spec:
  assumes "store_ok st" "valid st p" "valid st filt"
  shows "\<exists>q st'. filter_stree st p filt = Some (q, st') \<and> store_ok st' \<and> valid st' q
    \<and> view st' q = (\<lambda>k. unless_same (view st p k) (view st filt k))"
proof -
  obtain xs where xs: "states_of st p = Some xs" "sorted_sms xs" "\<forall>k. find_key k xs = view st p k"
    using states_of_spec [OF assms(1,2)] by blast
  obtain ys where ys: "states_of st filt = Some ys" "sorted_sms ys" "\<forall>k. find_key k ys = view st filt k"
    using states_of_spec [OF assms(1,3)] by blast
  let ?zs = "filter (\<lambda>x. \<not> same_in ys x) xs"
  have zs: "filter_walk xs ys = ?zs" "sorted_sms ?zs"
    using filter_walk_spec [OF xs(2) ys(2)] xs(2) sorted_sms_filter by simp_all
  from insert_each_fresh [OF assms(1) zs(2)]
  obtain q st1 where q: "insert_each avl_insert st None ?zs = Some (q, st1)" "store_ok st1" "valid st1 q"
    "view st1 q = (\<lambda>k. find_key k ?zs)"
    "\<forall>r. r \<noteq> None \<longrightarrow> valid st r \<longrightarrow> r \<noteq> q \<and> valid st1 r \<and> view st1 r = view st r"
    by blast
  have "\<exists>st'. free_stree st1 p = Some st' \<and> store_ok st' \<and> valid st' q \<and> view st' q = view st1 q"
  proof (cases p)
    case None
    then show ?thesis using q by (simp add: free_stree_def)
  next
    case (Some a)
    then show ?thesis using free_stree_keeps [OF q(2) _ _ q(3), of p] q(5) assms(2) by force
  qed
  moreover have "find_key k ?zs = unless_same (view st p k) (view st filt k)" for k
    using find_key_filter [OF xs(2) ys(2), of k] xs(3) ys(3) by simp
  ultimately show ?thesis
    using xs(1) ys(1) zs(1) q(1,4) by (auto simp: filter_stree_def)
qed

section \<open>Reading back what was written\<close>

lemma alloc_sm_state_key:
  "alloc_sm_state h ow nm sy s = (new, h') \<Longrightarrow>
    key new = TKey ow nm sy \<and> state new = s \<and> possible new = [base new] \<and> sm_addr new = next_sm h
    \<and> next_sm h' = next_sm h + 1"
  by (auto simp: alloc_sm_state_def key_def Let_def sm_state0.defs sm_state.defs)

lemma set_state_stree_spec:
  assumes "store_ok st" "valid st p"
  shows "\<exists>a new h' st'. set_state_stree h st p ow nm sy s = Some (Some a, new, h', st') \<and> store_ok st'
    \<and> valid st' (Some a) \<and> key new = TKey ow nm sy \<and> state new = s
    \<and> view st' (Some a) = (view st p)(TKey ow nm sy \<mapsto> new)
    \<and> (\<forall>c. trees st c \<noteq> None \<longrightarrow> (p = Some c \<longrightarrow> shared st c) \<longrightarrow>
         a \<noteq> c \<and> trees st' c \<noteq> None \<and> view st' (Some c) = view st (Some c))"
proof -
  obtain new h' where n: "alloc_sm_state h ow nm sy s = (new, h')" by (cases "alloc_sm_state h ow nm sy s")
  note k = alloc_sm_state_key [OF n]
  show ?thesis
    using avl_insert_spec [OF assms, of new] k unfolding set_state_stree_def n valid_def by fastforce
qed

lemma get_state_stree_view:
  assumes "store_ok st" "valid st p"
  shows "get_state_stree st p ow (Some nm) sy = Some (map_option state (view st p (TKey ow nm sy)))"
  using avl_lookup_view [OF assms, of "\<lparr>name = nm, sym = sy, owner = ow\<rparr>"]
  by (simp add: get_state_stree_def get_sm_state_stree_def key_def)

lemma delete_state_stree_spec:
  assumes "store_ok st" "valid st p"
  shows "\<exists>q st'. delete_state_stree st p ow nm sy = Some (q, st') \<and> store_ok st' \<and> valid st' q
    \<and> view st' q = (view st p)(TKey ow nm sy := None)
    \<and> (\<forall>c. trees st c \<noteq> None \<longrightarrow> (p = Some c \<longrightarrow> shared st c) \<longrightarrow>
         q \<noteq> Some c \<and> trees st' c \<noteq> None \<and> view st' (Some c) = view st (Some c))"
  using avl_remove_spec [OF assms, of "\<lparr>name = nm, sym = sy, owner = ow\<rparr>"]
  unfolding delete_state_stree_def by (fastforce simp: key_def)

section \<open>Stacks\<close>

lemma stack_top [simp]:
  "pop_stree (stack @ [p]) = (p, stack)" "top_stree (stack @ [p]) = p" "push_stree stack p = stack @ [p]"
  by (simp_all add: pop_stree_def top_stree_def push_stree_def)

lemma overwrite_top_insert_each:
  "overwrite_top st (stack @ [p]) sms =
     map_option (\<lambda>(p, st). (stack @ [p], st)) (insert_each avl_insert st p sms)"
  by (induction sms arbitrary: st p)
    (auto simp: overwrite_sm_state_stree_stack_def overwrite_sm_state_stree_def split: bind_splits)

lemma and_stree_stack_spec:
  assumes "store_ok st" "valid st l" "valid st r" "l \<noteq> r"
  shows "\<exists>p st'. and_stree_stack st (stack @ [l, r]) = Some (stack @ [p], st') \<and> store_ok st' \<and> valid st' p
    \<and> view st' p = view st l ++ view st r"
proof -
  obtain xs where xs: "states_of st r = Some xs" "sorted_sms xs" "\<forall>k. find_key k xs = view st r k"
    using states_of_spec [OF assms(1,3)] by blast
  have live: "\<forall>a. l = Some a \<longrightarrow> trees st a \<noteq> None" using assms(2) by (simp add: valid_def)
  from sm.insert_each_spec [OF assms(1) live, of xs]
  obtain p st1 where p: "insert_each avl_insert st l xs = Some (p, st1)" "store_ok st1"
    "\<forall>a. p = Some a \<longrightarrow> trees st1 a \<noteq> None" "view st1 p = fold (\<lambda>v m. m(key v \<mapsto> v)) xs (view st l)"
    and fr: "\<forall>c. trees st c \<noteq> None \<longrightarrow> (l = Some c \<longrightarrow> shared st c \<and> xs \<noteq> []) \<longrightarrow>
      p \<noteq> Some c \<and> trees st1 c \<noteq> None \<and> view st1 (Some c) = view st (Some c)"
    by blast
  have v: "view st1 p = view st l ++ view st r" using p(4) fold_upd_find [OF xs(2)] xs(3) by simp
  have "\<exists>st'. free_stree st1 r = Some st' \<and> store_ok st' \<and> valid st' p \<and> view st' p = view st1 p"
  proof (cases r)
    case None
    then show ?thesis using p(2,3) by (simp add: free_stree_def valid_def)
  next
    case (Some c)
    then have "p \<noteq> r" "valid st1 r" using fr assms(3,4) by (auto simp: valid_def)
    then show ?thesis using free_stree_keeps [OF p(2), of r p] p(3) by (simp add: valid_def)
  qed
  moreover have "pop_stree (stack @ [l, r]) = (r, stack @ [l])" by (simp add: pop_stree_def top_stree_def butlast_append)
  ultimately show ?thesis
    using xs(1) p(1) v by (auto simp: and_stree_stack_def overwrite_top_insert_each)
qed

lemma stack_set_get:
  assumes "store_ok st" "valid st p"
  shows "\<exists>q new h' st'. set_state_stree_stack h st (stack @ [p]) ow nm sy s = Some (stack @ [q], new, h', st')
    \<and> store_ok st' \<and> valid st' q
    \<and> get_state_stree_stack st' (stack @ [q]) ow (Some nm) sy = Some (Some s)
    \<and> (\<forall>ow' nm' sy'. (ow', nm', sy') \<noteq> (ow, nm, sy) \<longrightarrow>
         get_state_stree_stack st' (stack @ [q]) ow' (Some nm') sy' = get_state_stree st p ow' (Some nm') sy')"
proof -
  from set_state_stree_spec [OF assms, of h ow nm sy s]
  obtain a new h' st' where s: "set_state_stree h st p ow nm sy s = Some (Some a, new, h', st')" "store_ok st'"
    "valid st' (Some a)" "state new = s" "view st' (Some a) = (view st p)(TKey ow nm sy \<mapsto> new)"
    by blast
  have get: "get_state_stree_stack st' (stack @ [Some a]) o' (Some n) y = get_state_stree st' (Some a) o' (Some n) y" for o' n y
    by (simp add: get_state_stree_stack_def get_sm_state_stree_stack_def get_state_stree_def)
  show ?thesis
    using s by (auto simp: set_state_stree_stack_def get get_state_stree_view [OF s(2,3)]
      get_state_stree_view [OF assms])
qed

section \<open>Merging\<close>

lemma add_possible_sm_fields: "add_possible_sm cf to new = to\<lparr>possible := possible (add_possible_sm cf to new)\<rparr>"
  by (simp add: add_possible_sm_def)

lemma fold_add_possible_fields:
  "\<exists>ps. fold (\<lambda>tmp to. add_possible_sm cf to tmp) xs to = to\<lparr>possible := ps\<rparr>"
proof (induction xs arbitrary: to)
  case Nil
  then show ?case by (intro exI [of _ "possible to"]) simp
next
  case (Cons x xs)
  from Cons.IH [of "add_possible_sm cf to x"] obtain ps where
    "fold (\<lambda>tmp to. add_possible_sm cf to tmp) xs (add_possible_sm cf to x) = (add_possible_sm cf to x)\<lparr>possible := ps\<rparr>"
    by blast
  then show ?case by (auto simp: add_possible_sm_def)
qed

lemma base_possible [simp]: "base (to\<lparr>possible := ps\<rparr>) = base to"
  by (simp add: sm_state0.truncate_def)

lemma copy_possibles_spec:
  assumes "poss_ok cf (possible one)" "poss_ok cf (possible two)" "\<not> has_dynamic_states cf (owner to)"
    and ag: "\<forall>x \<in> insert (base to) (set (possible one) \<union> set (possible two)).
      \<forall>y \<in> insert (base to) (set (possible one) \<union> set (possible two)). sm_addr x = sm_addr y \<longrightarrow> saddr x = saddr y"
  shows "\<exists>ps. copy_possibles cf to one two = to\<lparr>possible := ps\<rparr> \<and> poss_ok cf ps
    \<and> saddr ` set ps = insert (st_addr (state to)) (saddr ` set (possible one) \<union> saddr ` set (possible two))"
proof -
  define large small where "large = (if length (possible two) > length (possible one) then two else one)"
    and "small = (if length (possible two) > length (possible one) then one else two)"
  have ls: "poss_ok cf (possible large)" "poss_ok cf (possible small)"
    "set (possible large) \<union> set (possible small) = set (possible one) \<union> set (possible two)"
    using assms(1,2) by (auto simp: large_def small_def)
  let ?xs = "base to # possible small" and ?to = "to\<lparr>possible := possible large\<rparr>"
  have cp: "copy_possibles cf to one two = fold (\<lambda>tmp to. add_possible_sm cf to tmp) ?xs ?to"
    by (simp add: copy_possibles_def large_def small_def)
  have dyn: "\<forall>x \<in> set ?xs. \<not> has_dynamic_states cf (owner x)"
    using ls(2) assms(3) by (auto simp: poss_ok_def sm_state0.truncate_def)
  have ag': "\<forall>x \<in> set (possible ?to) \<union> set ?xs. \<forall>y \<in> set ?xs. sm_addr x = sm_addr y \<longrightarrow> saddr x = saddr y"
  proof (intro ballI)
    fix x y assume "x \<in> set (possible ?to) \<union> set ?xs" "y \<in> set ?xs"
    then have "x \<in> insert (base to) (set (possible one) \<union> set (possible two))"
      "y \<in> insert (base to) (set (possible one) \<union> set (possible two))"
      using ls(3) by auto
    then show "sm_addr x = sm_addr y \<longrightarrow> saddr x = saddr y" using ag by blast
  qed
  obtain ps where ps: "fold (\<lambda>tmp to. add_possible_sm cf to tmp) ?xs ?to = ?to\<lparr>possible := ps\<rparr>"
    using fold_add_possible_fields by blast
  have "poss_ok cf (possible ?to)" using ls(1) by simp
  from fold_add_possible [OF this dyn ag'] have "poss_ok cf ps"
    "saddr ` set ps = saddr ` set (possible large) \<union> saddr ` set ?xs"
    unfolding ps by simp_all
  moreover have "saddr ` set (possible large) \<union> saddr ` set ?xs =
    insert (st_addr (state to)) (saddr ` set (possible one) \<union> saddr ` set (possible two))"
    using ls(3) by (simp add: sm_state0.truncate_def flip: image_Un)
  ultimately show ?thesis using cp ps by auto
qed

text \<open>
  The states of the two paths that meet: they are about the same variable, belong to an owner with
  static states, their possible values are in order, and all of them were allocated before.
\<close>

definition mergeable :: "config \<Rightarrow> sm_heap \<Rightarrow> sm_state \<Rightarrow> sm_state \<Rightarrow> bool" where
  "mergeable cf h one two \<longleftrightarrow> key one = key two \<and> \<not> has_dynamic_states cf (owner one)
     \<and> poss_ok cf (possible one) \<and> poss_ok cf (possible two)
     \<and> (\<forall>x \<in> set (possible one) \<union> set (possible two). sm_addr x < next_sm h)
     \<and> (\<forall>x \<in> set (possible one) \<union> set (possible two). \<forall>y \<in> set (possible one) \<union> set (possible two).
          sm_addr x = sm_addr y \<longrightarrow> saddr x = saddr y)"

lemma merge_sm_states_spec:
  assumes "mergeable cf h one two" "sm_addr one \<noteq> sm_addr two"
    and s: "merge_states fns (owner one) (Some (state one)) (Some (state two)) = Some s"
  shows "\<exists>r h'. merge_sm_states cf fns False h one two = Some (r, h')
    \<and> key r = key one \<and> state r = s \<and> merged r \<and> sm_addr r = next_sm h
    \<and> left r = Some (sm_addr one) \<and> right r = Some (sm_addr two)
    \<and> poss_ok cf (possible r)
    \<and> saddr ` set (possible r) =
        insert (st_addr s) (saddr ` set (possible one) \<union> saddr ` set (possible two))"
proof -
  obtain n h' where n: "alloc_state_no_name h (owner one) (name one) (sym one) s = (n, h')"
    by (cases "alloc_state_no_name h (owner one) (name one) (sym one) s")
  then have nf: "key n = key one" "state n = s" "sm_addr n = next_sm h" "owner n = owner one"
    using alloc_sm_state_key [of h "owner one" "name one" "sym one" s n h']
    by (auto simp: alloc_state_no_name_def key_def)
  let ?to = "n\<lparr>merged := True, left := Some (sm_addr one), right := Some (sm_addr two)\<rparr>"
  have b: "sm_addr (base ?to) = next_sm h" "saddr (base ?to) = st_addr s"
    using nf by (simp_all add: sm_state0.truncate_def)
  have fresh: "sm_addr x \<noteq> sm_addr (base ?to)" if "x \<in> set (possible one) \<union> set (possible two)" for x
  proof -
    have "sm_addr x < next_sm h" using assms(1) that unfolding mergeable_def by blast
    then show ?thesis by (simp add: b(1))
  qed
  have ag: "\<forall>x \<in> insert (base ?to) (set (possible one) \<union> set (possible two)).
      \<forall>y \<in> insert (base ?to) (set (possible one) \<union> set (possible two)). sm_addr x = sm_addr y \<longrightarrow> saddr x = saddr y"
    using assms(1) fresh unfolding mergeable_def by (metis insert_iff)
  have "\<not> has_dynamic_states cf (owner ?to)" "poss_ok cf (possible one)" "poss_ok cf (possible two)"
    using assms(1) nf(4) by (auto simp: mergeable_def)
  from copy_possibles_spec [OF this(2,3,1) ag] obtain ps where ps:
    "copy_possibles cf ?to one two = ?to\<lparr>possible := ps\<rparr>" "poss_ok cf ps"
    "saddr ` set ps = insert (st_addr (state ?to)) (saddr ` set (possible one) \<union> saddr ` set (possible two))"
    by blast
  have sto: "state ?to = s" using nf(2) by simp
  let ?x = "?to\<lparr>possible := ps\<rparr>"
  define x1 where "x1 = (if st_addr (state ?x) = st_addr (state one) then ?x\<lparr>line := line one\<rparr> else ?x)"
  define r where "r = (if st_addr (state x1) = st_addr (state two) then x1\<lparr>line := line two\<rparr> else x1)"
  have m: "merge_sm_states cf fns False h one two = Some (r, h')"
    using assms(2) s n ps(1) by (simp add: merge_sm_states_def r_def x1_def Let_def)
  have "r = ?x\<lparr>line := line r\<rparr>" by (simp add: r_def x1_def)
  then obtain l where r: "r = ?to\<lparr>possible := ps, line := l\<rparr>" by blast
  have "key r = key one" using r nf(1) by (simp add: key_def)
  then show ?thesis using m r nf(2,3) ps(2,3) sto by auto
qed

text \<open>Without a merge function of the owner the joined state is \<^verbatim>\<open>merged\<close>, unless both sides agree.\<close>

lemma merge_states_default:
  assumes "\<not> has_merge_function fns ow"
  shows "merge_states fns ow (Some a) (Some b) = Some (if st_addr a = st_addr b then a else merged_state)"
  using assms by (simp add: merge_states_def)

text \<open>A client's merge function does not depend on which path comes first, as far as names tell.\<close>

lemma client_merge_commute:
  assumes "st_name a = Some m" "st_name b = Some n" "m \<noteq> n"
  shows "client_merge_function fns ow (Some a) (Some b) = client_merge_function fns ow (Some b) (Some a)"
  using assms by (auto simp: client_merge_function_def strcmp_cmp3 dest: less_asym)

end
