(* ===== verification/States.thy ===== *)
theory States
  imports Ranges Slist_Merge
begin

text \<open>
  The analysis state of \<^verbatim>\<open>src/smatch_states.c\<close>: the current states of the path, the stacks of trees
  for the branches that are open, and the operations that read and write a state. The merge of
  trees is in the theory \<^verbatim>\<open>Stree_Merge\<close>, the control flow in the theory \<^verbatim>\<open>Flow_States\<close>.
\<close>

section \<open>Data\<close>

text \<open>
  The static variables of the file. The type of the trees is a parameter: the program has pointers
  there, its specification has the finite maps they stand for. The backup list holds pointers of
  several types. \<open>all_pools\<close> is the list of \<^verbatim>\<open>src/smatch_slist.c\<close> that keeps the pools alive.
\<close>

datatype 'p named_stree = Named_stree (ns_name: string) (ns_sym: nat) (ns_stree: 'p)

datatype 'p saved =
    Saved_stree 'p
  | Saved_stack "'p list"
  | Saved_cases "range_list list"
  | Saved_gotos "'p named_stree list"

record 'p stacks =
  cur_stree :: 'p
  true_stack :: "'p list"
  false_stack :: "'p list"
  pre_cond_stack :: "'p list"
  cond_true_stack :: "'p list"
  cond_false_stack :: "'p list"
  fake_cur_stree_stack :: "'p list"
  break_stack :: "'p list"
  fake_break_stack :: "'p list"
  switch_stack :: "'p list"
  default_stack :: "'p list"
  continue_stack :: "'p list"
  goto_stack :: "'p named_stree list"
  backup :: "'p saved list"
  all_pools :: "'p list"

text \<open>
  The machine adds what is not a tree: the overlay that reads consult first, which holds no reference
  of its own, the counters, the allocator of states, the store of trees, the pools of states by
  address, and the messages of \<^verbatim>\<open>sm_perror\<close>.
\<close>

record machine = "nat option stacks" +
  fast_overlay :: "nat option"
  fast_math_only :: int
  remaining_cases :: "range_list list"
  read_only :: int
  in_goto_merge :: int
  in_unmatched_hook :: int
  fake_state_cnt :: int
  stree_id_counter :: int
  sms :: sm_heap
  strees :: store
  pool :: "nat \<Rightarrow> nat option"
  perrors :: "string list"

text \<open>
  What the checkers register. A hook that may set states is given by the calls of \<^verbatim>\<open>set_state\<close> it makes
  when it is called in a given state of the analysis. \<open>oom\<close> is the answer of \<^verbatim>\<open>out_of_memory()\<close>, which
  reads the memory use of the process.
\<close>

type_synonym set_call = "nat \<times> string \<times> nat \<times> smatch_state"

record env =
  cf :: config
  merge_funcs :: merge_fns
  unmatched_state_funcs :: "(nat \<times> (machine \<Rightarrow> sm_state \<Rightarrow> smatch_state)) list"
  pre_merge_hooks :: "nat \<Rightarrow> (machine \<Rightarrow> sm_state \<Rightarrow> sm_state \<Rightarrow> set_call list) option"
  get_state_hooks :: "(machine \<Rightarrow> nat \<Rightarrow> string option \<Rightarrow> nat \<Rightarrow> set_call list) list"
  oom :: "machine \<Rightarrow> bool"
  keep_out_of_scope :: "nat \<Rightarrow> bool"

definition true_state :: smatch_state where
  "true_state = \<lparr>st_addr = 3, st_name = Some ''true''\<rparr>"

definition sm_perror :: "string \<Rightarrow> machine \<Rightarrow> machine" where
  "sm_perror msg m = m\<lparr>perrors := perrors m @ [msg]\<rparr>"

text \<open>The operations on trees, on the store of the machine.\<close>

definition free_tree :: "nat option \<Rightarrow> machine \<Rightarrow> machine option" where
  "free_tree p m = map_option (\<lambda>st. m\<lparr>strees := st\<rparr>) (free_stree (strees m) p)"

text \<open>\<^verbatim>\<open>free_stree(&cur_stree)\<close> leaves NULL in the variable.\<close>

definition free_cur_stree :: "machine \<Rightarrow> machine option" where
  "free_cur_stree m = map_option (\<lambda>m. m\<lparr>cur_stree := None\<rparr>) (free_tree (cur_stree m) m)"

definition clone_tree :: "nat option \<Rightarrow> machine \<Rightarrow> (nat option \<times> machine) option" where
  "clone_tree p m = map_option (\<lambda>(q, st). (q, m\<lparr>strees := st\<rparr>)) (clone_stree (strees m) p)"

definition insert_tree :: "nat option \<Rightarrow> sm_state \<Rightarrow> machine \<Rightarrow> (nat option \<times> machine) option" where
  "insert_tree p x m =
     map_option (\<lambda>(q, st). (q, m\<lparr>strees := st\<rparr>)) (overwrite_sm_state_stree (strees m) p x)"

fun insert_all_tree :: "nat option \<Rightarrow> sm_state list \<Rightarrow> machine \<Rightarrow> (nat option \<times> machine) option" where
  "insert_all_tree p [] m = Some (p, m)"
| "insert_all_tree p (x # slist) m =
     do { (p, m) \<leftarrow> insert_tree p x m; insert_all_tree p slist m }"

definition overwrite_tree :: "nat option \<Rightarrow> nat option \<Rightarrow> machine \<Rightarrow> (nat option \<times> machine) option" where
  "overwrite_tree from to m =
     map_option (\<lambda>(q, st). (q, m\<lparr>strees := st\<rparr>)) (overwrite_stree (strees m) from to)"

definition filter_tree :: "nat option \<Rightarrow> nat option \<Rightarrow> machine \<Rightarrow> (nat option \<times> machine) option" where
  "filter_tree p filt m =
     map_option (\<lambda>(q, st). (q, m\<lparr>strees := st\<rparr>)) (filter_stree (strees m) p filt)"

definition delete_tree ::
  "nat option \<Rightarrow> nat \<Rightarrow> string \<Rightarrow> nat \<Rightarrow> machine \<Rightarrow> (nat option \<times> machine) option" where
  "delete_tree p ow nm sy m =
     map_option (\<lambda>(q, st). (q, m\<lparr>strees := st\<rparr>)) (delete_state_stree (strees m) p ow nm sy)"

section \<open>Reading\<close>

definition is_unreachable :: "machine \<Rightarrow> bool" where
  "is_unreachable m = (cur_stree m = None)"

definition is_reachable :: "machine \<Rightarrow> bool" where
  "is_reachable m = (cur_stree m \<noteq> None)"

definition path_is_null :: "machine \<Rightarrow> bool" where
  "path_is_null m = (if cur_stree m \<noteq> None then False else True)"

definition has_states_of :: "store \<Rightarrow> nat option \<Rightarrow> int \<Rightarrow> bool option" where
  "has_states_of st p ow =
     (if ow < 0 \<or> ow > int USHRT_MAX then Some False
      else case p of
        None \<Rightarrow> Some False
      | Some a \<Rightarrow>
          if ow = int USHRT_MAX then Some True
          else map_option (\<lambda>t. has_states t (nat ow)) (trees st a))"

definition get_sm_state :: "nat \<Rightarrow> string option \<Rightarrow> nat \<Rightarrow> machine \<Rightarrow> sm_state option option" where
  "get_sm_state ow nm sy m =
     do {
       ret \<leftarrow> get_sm_state_stree (strees m) (fast_overlay m) ow nm sy;
       if ret \<noteq> None then Some ret else get_sm_state_stree (strees m) (cur_stree m) ow nm sy
     }"

definition raw_get_state :: "nat \<Rightarrow> string option \<Rightarrow> nat \<Rightarrow> machine \<Rightarrow> smatch_state option option" where
  "raw_get_state ow nm sy m = map_option (map_option state) (get_sm_state ow nm sy m)"

definition has_possible_state ::
  "nat \<Rightarrow> string option \<Rightarrow> nat \<Rightarrow> smatch_state \<Rightarrow> machine \<Rightarrow> bool option" where
  "has_possible_state ow nm sy s m =
     map_option (\<lambda>x. case x of None \<Rightarrow> False | Some x \<Rightarrow> slist_has_state (possible x) s)
       (get_sm_state ow nm sy m)"

definition get_possible_states ::
  "nat \<Rightarrow> string option \<Rightarrow> nat \<Rightarrow> machine \<Rightarrow> sm_state0 list option" where
  "get_possible_states ow nm sy m =
     map_option (\<lambda>x. case x of None \<Rightarrow> [] | Some x \<Rightarrow> possible x)
       (get_sm_state_stree (strees m) (cur_stree m) ow nm sy)"

section \<open>Writing\<close>

text \<open>
  \<^verbatim>\<open>set_state\<close>: the owner -1 of the path itself is \<^verbatim>\<open>USHRT_MAX\<close> as an unsigned short. Nothing in the
  program registers a tracker hook.
\<close>

definition set_state ::
  "nat \<Rightarrow> string option \<Rightarrow> nat \<Rightarrow> smatch_state option \<Rightarrow> machine \<Rightarrow> (sm_state option \<times> machine) option" where
  "set_state ow nm sy s m =
     (case (nm, s) of
        (Some nm, Some s) \<Rightarrow>
          (let m = (if read_only m \<noteq> 0 then sm_perror ''cur_stree is read only.'' m else m)
           in if ow \<noteq> USHRT_MAX \<and> is_unreachable m then Some (None, m)
              else do {
                m \<leftarrow> (if fake_cur_stree_stack m \<noteq> []
                     then do {
                       (stack, x, h, st) \<leftarrow>
                         set_state_stree_stack (sms m) (strees m) (fake_cur_stree_stack m) ow nm sy s;
                       Some (m\<lparr>fake_cur_stree_stack := stack, sms := h, strees := st\<rparr>)
                     }
                     else Some m);
                (p, ret, h, st) \<leftarrow> set_state_stree (sms m) (strees m) (cur_stree m) ow nm sy s;
                Some (Some ret, m\<lparr>cur_stree := p, sms := h, strees := st\<rparr>)
              })
      | _ \<Rightarrow> Some (None, m))"

fun run_sets :: "set_call list \<Rightarrow> machine \<Rightarrow> machine option" where
  "run_sets [] m = Some m"
| "run_sets ((ow, nm, sy, s) # calls) m =
     do { (x, m) \<leftarrow> set_state ow (Some nm) sy (Some s) m; run_sets calls m }"

text \<open>The hooks of \<^verbatim>\<open>get_state\<close>: a hook that reads a state itself does not call the hooks again.\<close>

fun call_get_state_hooks ::
  "(machine \<Rightarrow> nat \<Rightarrow> string option \<Rightarrow> nat \<Rightarrow> set_call list) list \<Rightarrow> nat \<Rightarrow> string option \<Rightarrow> nat \<Rightarrow>
     machine \<Rightarrow> machine option" where
  "call_get_state_hooks [] ow nm sy m = Some m"
| "call_get_state_hooks (fn # fns) ow nm sy m =
     do { m \<leftarrow> run_sets (fn m ow nm sy) m; call_get_state_hooks fns ow nm sy m }"

definition get_state ::
  "env \<Rightarrow> nat \<Rightarrow> string option \<Rightarrow> nat \<Rightarrow> machine \<Rightarrow> (smatch_state option \<times> machine) option" where
  "get_state E ow nm sy m =
     do {
       m \<leftarrow> call_get_state_hooks (get_state_hooks E) ow nm sy m;
       s \<leftarrow> raw_get_state ow nm sy m;
       Some (s, m)
     }"

definition set_sm :: "sm_state \<Rightarrow> machine \<Rightarrow> machine option" where
  "set_sm x m =
     (let m = (if read_only m \<noteq> 0 then sm_perror ''cur_stree is read only.'' m else m)
      in if is_unreachable m then Some m
         else do {
           m \<leftarrow> (if fake_cur_stree_stack m \<noteq> []
                then do {
                  (stack, st) \<leftarrow> overwrite_sm_state_stree_stack (strees m) (fake_cur_stree_stack m) x;
                  Some (m\<lparr>fake_cur_stree_stack := stack, strees := st\<rparr>)
                }
                else Some m);
           (p, m) \<leftarrow> insert_tree (cur_stree m) x m;
           Some (m\<lparr>cur_stree := p\<rparr>)
         })"

definition set_sm_cur_stree :: "sm_state \<Rightarrow> machine \<Rightarrow> machine option" where
  "set_sm_cur_stree x m =
     (let m = (if read_only m \<noteq> 0 then sm_perror ''cur_stree is read only.'' m else m)
      in if is_unreachable m then Some m
         else do { (p, m) \<leftarrow> insert_tree (cur_stree m) x m; Some (m\<lparr>cur_stree := p\<rparr>) })"

definition set_true_false_states ::
  "nat \<Rightarrow> string option \<Rightarrow> nat \<Rightarrow> smatch_state option \<Rightarrow> smatch_state option \<Rightarrow> machine \<Rightarrow> machine option" where
  "set_true_false_states ow nm sy true_s false_s m =
     (let m = (if read_only m \<noteq> 0 then sm_perror ''cur_stree is read only.'' m else m)
      in case nm of
           None \<Rightarrow> Some m
         | Some nm \<Rightarrow>
             if true_s = None \<and> false_s = None then Some m
             else if is_unreachable m then Some m
             else if cond_false_stack m = [] \<or> cond_true_stack m = []
             then Some (sm_perror ''missing true/false stacks'' m)
             else do {
               m \<leftarrow> (case true_s of
                      None \<Rightarrow> Some m
                    | Some s \<Rightarrow>
                        do {
                          (stack, x, h, st) \<leftarrow>
                            set_state_stree_stack (sms m) (strees m) (cond_true_stack m) ow nm sy s;
                          Some (m\<lparr>cond_true_stack := stack, sms := h, strees := st\<rparr>)
                        });
               (case false_s of
                  None \<Rightarrow> Some m
                | Some s \<Rightarrow>
                    do {
                      (stack, x, h, st) \<leftarrow>
                        set_state_stree_stack (sms m) (strees m) (cond_false_stack m) ow nm sy s;
                      Some (m\<lparr>cond_false_stack := stack, sms := h, strees := st\<rparr>)
                    })
             })"

definition set_true_false_sm ::
  "sm_state option \<Rightarrow> sm_state option \<Rightarrow> machine \<Rightarrow> machine option" where
  "set_true_false_sm true_sm false_sm m =
     (if true_sm = None \<and> false_sm = None then Some m
      else if is_unreachable m then Some m
      else if cond_false_stack m = [] \<or> cond_true_stack m = []
      then Some (sm_perror ''missing true/false stacks'' m)
      else do {
        m \<leftarrow> (case true_sm of
               None \<Rightarrow> Some m
             | Some x \<Rightarrow>
                 do {
                   (stack, st) \<leftarrow> overwrite_sm_state_stree_stack (strees m) (cond_true_stack m) x;
                   Some (m\<lparr>cond_true_stack := stack, strees := st\<rparr>)
                 });
        (case false_sm of
           None \<Rightarrow> Some m
         | Some x \<Rightarrow>
             do {
               (stack, st) \<leftarrow> overwrite_sm_state_stree_stack (strees m) (cond_false_stack m) x;
               Some (m\<lparr>cond_false_stack := stack, strees := st\<rparr>)
             })
      })"

section \<open>Scratch states\<close>

definition save_pre_cond_states :: "machine \<Rightarrow> machine option" where
  "save_pre_cond_states m =
     do {
       (p, m) \<leftarrow> clone_tree (cur_stree m) m;
       Some (m\<lparr>pre_cond_stack := push_stree (pre_cond_stack m) p\<rparr>)
     }"

definition use_pre_cond_states :: "machine \<Rightarrow> machine option" where
  "use_pre_cond_states m =
     do {
       m \<leftarrow> free_cur_stree m;
       let (p, stack) = pop_stree (pre_cond_stack m);
       Some (m\<lparr>cur_stree := p, pre_cond_stack := stack\<rparr>)
     }"

definition discard_pre_cond_states :: "machine \<Rightarrow> machine option" where
  "discard_pre_cond_states m =
     (let (p, stack) = pop_stree (pre_cond_stack m)
      in free_tree p (m\<lparr>pre_cond_stack := stack\<rparr>))"

definition swap_cur_stree :: "nat option \<Rightarrow> machine \<Rightarrow> nat option \<times> machine" where
  "swap_cur_stree p m = (cur_stree m, m\<lparr>cur_stree := p\<rparr>)"

definition push_fake_cur_stree :: "machine \<Rightarrow> machine option" where
  "push_fake_cur_stree m =
     save_pre_cond_states (m\<lparr>fake_cur_stree_stack := push_stree (fake_cur_stree_stack m) None\<rparr>)"

definition pop_fake_cur_stree :: "machine \<Rightarrow> (nat option \<times> machine) option" where
  "pop_fake_cur_stree m =
     (let m = (if fake_cur_stree_stack m = [] then sm_perror ''popping too many fake cur strees.'' m else m)
      in do {
        m \<leftarrow> use_pre_cond_states m;
        let (p, stack) = pop_stree (fake_cur_stree_stack m);
        Some (p, m\<lparr>fake_cur_stree_stack := stack\<rparr>)
      })"

definition free_fake_cur_stree :: "machine \<Rightarrow> machine option" where
  "free_fake_cur_stree m = do { (p, m) \<leftarrow> pop_fake_cur_stree m; free_tree p m }"

definition set_fake_cur_stree_fast :: "nat option \<Rightarrow> machine \<Rightarrow> machine" where
  "set_fake_cur_stree_fast p m =
     (if fast_overlay m \<noteq> None then sm_perror ''cannot nest fast overlay'' m
      else m\<lparr>fast_overlay := p, fast_math_only := fast_math_only m + 1\<rparr>)"

definition pop_fake_cur_stree_fast :: "machine \<Rightarrow> machine" where
  "pop_fake_cur_stree_fast m = m\<lparr>fast_overlay := None, fast_math_only := fast_math_only m - 1\<rparr>"

definition set_cur_stree_readonly :: "machine \<Rightarrow> machine" where
  "set_cur_stree_readonly m = m\<lparr>read_only := read_only m + 1\<rparr>"

definition set_cur_stree_writable :: "machine \<Rightarrow> machine" where
  "set_cur_stree_writable m = m\<lparr>read_only := read_only m - 1\<rparr>"

definition nullify_path :: "machine \<Rightarrow> machine option" where
  "nullify_path m =
     do {
       m \<leftarrow> (if fake_cur_stree_stack m \<noteq> []
            then do { m \<leftarrow> free_fake_cur_stree m; push_fake_cur_stree m }
            else Some m);
       free_cur_stree m
     }"

definition unnullify_path :: "machine \<Rightarrow> machine option" where
  "unnullify_path m =
     (if cur_stree m = None
      then map_option snd (set_state USHRT_MAX (Some ''unnull_path'') 0 (Some true_state) m)
      else Some m)"

end
