(* ===== verification/Stree_Merge.thy ===== *)
theory Stree_Merge
  imports States
begin

text \<open>
  The merge of two state trees where paths join, from \<^verbatim>\<open>src/smatch_slist.c\<close>: states that only one branch
  has are matched by a state of the other branch, the checkers' hooks are called, and the trees
  are merged state by state. The copies of both sides are kept as pools, in which the origin of a
  merged state can be looked up.
\<close>

section \<open>Matching\<close>

text \<open>\<^verbatim>\<open>__client_unmatched_state_function\<close> of \<^verbatim>\<open>src/smatch_hooks.c\<close>.\<close>

definition client_unmatched_state_function :: "env \<Rightarrow> machine \<Rightarrow> sm_state \<Rightarrow> smatch_state" where
  "client_unmatched_state_function E m x =
     (case find (\<lambda>(ow, fn). ow = owner x) (unmatched_state_funcs E) of
        Some (ow, fn) \<Rightarrow> fn m x
      | None \<Rightarrow> undefined_state)"

text \<open>The state that is made up for \<open>x\<close> on the branch of the tree \<open>p\<close>, on which reads are based meanwhile.\<close>

definition unmatched_sm :: "env \<Rightarrow> nat option \<Rightarrow> sm_state \<Rightarrow> machine \<Rightarrow> (sm_state \<times> machine) option" where
  "unmatched_sm E p x m =
     (let m = set_fake_cur_stree_fast p m;
          m = m\<lparr>in_unmatched_hook := in_unmatched_hook m + 1\<rparr>;
          tmp_state = client_unmatched_state_function E m x;
          m = m\<lparr>in_unmatched_hook := in_unmatched_hook m - 1\<rparr>;
          m = pop_fake_cur_stree_fast m;
          (new, h) = alloc_state_no_name (sms m) (owner x) (name x) (sym x) tmp_state
      in do {
        a \<leftarrow> p;
        t \<leftarrow> trees (strees m) a;
        Some (new\<lparr>line := stree_line t\<rparr>, m\<lparr>sms := h\<rparr>)
      })"

text \<open>The walk over both trees in step: the states to add to the first and to the second tree.\<close>

function match_walk ::
  "env \<Rightarrow> nat option \<Rightarrow> nat option \<Rightarrow> sm_state list \<Rightarrow> sm_state list \<Rightarrow> machine \<Rightarrow>
     (sm_state list \<times> sm_state list \<times> machine) option" where
  "match_walk E p q ones twos m =
     (let one = (case ones of [] \<Rightarrow> None | x # _ \<Rightarrow> Some x);
          two = (case twos of [] \<Rightarrow> None | x # _ \<Rightarrow> Some x)
      in if ones = [] \<and> twos = [] then Some ([], [], m)
         else if cmp_tracker one two < 0 then
           do {
             (new, m) \<leftarrow> unmatched_sm E q (hd ones) m;
             (add_to_one, add_to_two, m) \<leftarrow> match_walk E p q (tl ones) twos m;
             Some (add_to_one, new # add_to_two, m)
           }
         else if cmp_tracker one two = 0 then match_walk E p q (tl ones) (tl twos) m
         else
           do {
             (new, m) \<leftarrow> unmatched_sm E p (hd twos) m;
             (add_to_one, add_to_two, m) \<leftarrow> match_walk E p q ones (tl twos) m;
             Some (new # add_to_one, add_to_two, m)
           })"
  by pat_completeness auto
termination
  by (relation "measure (\<lambda>(E, p, q, ones, twos, m). length ones + length twos)")
    (auto simp: cmp_tracker_def split: list.splits)

declare match_walk.simps [simp del]

definition match_states_stree ::
  "env \<Rightarrow> nat option \<Rightarrow> nat option \<Rightarrow> machine \<Rightarrow> (nat option \<times> nat option \<times> machine) option" where
  "match_states_stree E one two m =
     do {
       let m = set_cur_stree_readonly m;
       ones \<leftarrow> states_of (strees m) one;
       twos \<leftarrow> states_of (strees m) two;
       (add_to_one, add_to_two, m) \<leftarrow> match_walk E one two ones twos m;
       let m = set_cur_stree_writable m;
       (one, m) \<leftarrow> insert_all_tree one add_to_one m;
       (two, m) \<leftarrow> insert_all_tree two add_to_two m;
       Some (one, two, m)
     }"

section \<open>Hooks before a merge\<close>

text \<open>\<^verbatim>\<open>call_pre_merge_hook\<close> of \<^verbatim>\<open>src/smatch_hooks.c\<close> reads the owner of its first argument.\<close>

definition call_pre_merge_hook ::
  "env \<Rightarrow> sm_state option \<Rightarrow> sm_state \<Rightarrow> machine \<Rightarrow> machine option" where
  "call_pre_merge_hook E cur other m =
     do {
       cur \<leftarrow> cur;
       if owner cur \<ge> num_checks (cf E) then Some m
       else case pre_merge_hooks E (owner cur) of
              None \<Rightarrow> Some m
            | Some hook \<Rightarrow> run_sets (hook m cur other) m
     }"

fun pre_merge_loop :: "env \<Rightarrow> sm_state list \<Rightarrow> machine \<Rightarrow> machine option" where
  "pre_merge_loop E [] m = Some m"
| "pre_merge_loop E (x # slist) m =
     do {
       cur \<leftarrow> get_sm_state (owner x) (Some (name x)) (sym x) m;
       m \<leftarrow> (if map_option sm_addr cur = Some (sm_addr x) then Some m
            else call_pre_merge_hook E cur x m);
       pre_merge_loop E slist m
     }"

text \<open>One half of \<^verbatim>\<open>call_pre_merge_hooks\<close>: the hooks for the tree \<open>one\<close>, given the states of \<open>two\<close>.\<close>

definition pre_merge_side ::
  "env \<Rightarrow> nat option \<Rightarrow> nat option \<Rightarrow> machine \<Rightarrow> (nat option \<times> machine) option" where
  "pre_merge_side E one two m =
     do {
       let m = set_fake_cur_stree_fast one m;
       m \<leftarrow> push_fake_cur_stree m;
       slist \<leftarrow> states_of (strees m) two;
       m \<leftarrow> pre_merge_loop E slist m;
       (new, m) \<leftarrow> pop_fake_cur_stree m;
       (one, m) \<leftarrow> overwrite_tree new one m;
       m \<leftarrow> free_tree new m;
       Some (one, pop_fake_cur_stree_fast m)
     }"

definition call_pre_merge_hooks ::
  "env \<Rightarrow> nat option \<Rightarrow> nat option \<Rightarrow> machine \<Rightarrow> (nat option \<times> nat option \<times> machine) option" where
  "call_pre_merge_hooks E one two m =
     do {
       let m = m\<lparr>in_unmatched_hook := in_unmatched_hook m + 1\<rparr>;
       (one, m) \<leftarrow> pre_merge_side E one two m;
       (two, m) \<leftarrow> pre_merge_side E two one m;
       Some (one, two, m\<lparr>in_unmatched_hook := in_unmatched_hook m - 1\<rparr>)
     }"

section \<open>Pools\<close>

text \<open>The copies that \<^verbatim>\<open>clone_pool_havers_stree\<close> makes, in order.\<close>

fun clone_pool_havers :: "sm_state list \<Rightarrow> machine \<Rightarrow> sm_state list \<times> machine" where
  "clone_pool_havers [] m = ([], m)"
| "clone_pool_havers (x # slist) m =
     (if pool m (sm_addr x) \<noteq> None then
        (let (tmp, h) = clone_sm (sms m) x;
             (rest, m) = clone_pool_havers slist (m\<lparr>sms := h\<rparr>)
         in (tmp # rest, m))
      else clone_pool_havers slist m)"

definition clone_pool_havers_stree :: "nat option \<Rightarrow> machine \<Rightarrow> (nat option \<times> machine) option" where
  "clone_pool_havers_stree p m =
     do {
       slist \<leftarrow> states_of (strees m) p;
       let (copies, m) = clone_pool_havers slist m;
       insert_all_tree p copies m
     }"

text \<open>A new id for the tree behind a pointer, and for the base tree of a tree.\<close>

definition new_stree_id :: "nat \<Rightarrow> machine \<Rightarrow> (nat \<times> machine) option" where
  "new_stree_id a m =
     (let i = stree_id_counter m + 1
      in map_option (\<lambda>(a, st). (a, m\<lparr>strees := st, stree_id_counter := i\<rparr>)) (set_stree_id (strees m) a i))"

definition new_base_id :: "nat \<Rightarrow> machine \<Rightarrow> machine option" where
  "new_base_id a m =
     do {
       t \<leftarrow> trees (strees m) a;
       case base_stree t of
         None \<Rightarrow> Some m
       | Some b \<Rightarrow>
           do {
             (b', m) \<leftarrow> new_stree_id b m;
             t \<leftarrow> trees (strees m) a;
             Some (m\<lparr>strees := set_tree (strees m) a (t\<lparr>base_stree := Some b'\<rparr>)\<rparr>)
           }
     }"

text \<open>What is recorded as the pool of a state that comes from the tree \<open>a\<close>.\<close>

definition pool_ptr :: "nat \<Rightarrow> machine \<Rightarrow> nat option" where
  "pool_ptr a m =
     map_option (\<lambda>t. case base_stree t of None \<Rightarrow> a | Some b \<Rightarrow> b) (trees (strees m) a)"

definition set_pool :: "nat \<Rightarrow> sm_state \<Rightarrow> machine \<Rightarrow> machine option" where
  "set_pool a x m = map_option (\<lambda>q. m\<lparr>pool := (pool m)(sm_addr x := Some q)\<rparr>) (pool_ptr a m)"

section \<open>Merging\<close>

fun merge_walk ::
  "env \<Rightarrow> bool \<Rightarrow> nat \<Rightarrow> nat \<Rightarrow> nat option \<Rightarrow> sm_state list \<Rightarrow> sm_state list \<Rightarrow> machine \<Rightarrow>
     (nat option \<times> machine) option" where
  "merge_walk E add_pool p q results (one # ones) (two # twos) m =
     (if sm_addr one = sm_addr two then
        do {
          (results, m) \<leftarrow> insert_tree results one m;
          merge_walk E add_pool p q results ones twos m
        }
      else
        do {
          m \<leftarrow> (if add_pool then do { m \<leftarrow> set_pool p one m; set_pool q two m } else Some m);
          (res, h) \<leftarrow> merge_sm_states (cf E) (merge_funcs E) False (sms m) one two;
          let res = add_possible_sm (cf E) res (base one);
          let res = add_possible_sm (cf E) res (base two);
          (results, m) \<leftarrow> insert_tree results res (m\<lparr>sms := h\<rparr>);
          merge_walk E add_pool p q results ones twos m
        })"
| "merge_walk E add_pool p q results _ _ m = Some (results, m)"

text \<open>
  \<^verbatim>\<open>__merge_stree\<close>. The memory limit is asked once for the whole merge; the merges of single states
  inside it give the same answer.
\<close>

definition give_ids :: "nat \<Rightarrow> nat \<Rightarrow> machine \<Rightarrow> (nat \<times> nat \<times> machine) option" where
  "give_ids a b m =
     do {
       (a, m) \<leftarrow> new_stree_id a m;
       (b, m) \<leftarrow> new_stree_id b m;
       m \<leftarrow> new_base_id a m;
       m \<leftarrow> new_base_id b m;
       Some (a, b, m)
     }"

definition add_pools :: "nat option \<Rightarrow> nat option \<Rightarrow> machine \<Rightarrow> (nat \<times> nat \<times> machine) option" where
  "add_pools one two m =
     do {
       (one, m) \<leftarrow> clone_pool_havers_stree one m;
       (two, m) \<leftarrow> clone_pool_havers_stree two m;
       a \<leftarrow> one;
       b \<leftarrow> two;
       give_ids a b m
     }"

text \<open>The general case: both trees are there and they differ.\<close>

definition join_strees ::
  "env \<Rightarrow> bool \<Rightarrow> nat option \<Rightarrow> nat option \<Rightarrow> machine \<Rightarrow> (nat option \<times> machine) option" where
  "join_strees E add_pool to p m =
     do {
       (implied_one, m) \<leftarrow> clone_tree to m;
       (implied_two, m) \<leftarrow> clone_tree p m;
       (implied_one, implied_two, m) \<leftarrow> match_states_stree E implied_one implied_two m;
       (implied_one, implied_two, m) \<leftarrow> call_pre_merge_hooks E implied_one implied_two m;
       (a, b, m) \<leftarrow>
         (if add_pool then add_pools implied_one implied_two m
          else do { a \<leftarrow> implied_one; b \<leftarrow> implied_two; Some (a, b, m) });
       let m = m\<lparr>all_pools := push_stree (push_stree (all_pools m) (Some a)) (Some b)\<rparr>;
       ones \<leftarrow> states_of (strees m) (Some a);
       twos \<leftarrow> states_of (strees m) (Some b);
       merge_walk E add_pool a b None ones twos m
     }"

text \<open>
  The variable whose address is passed as \<^verbatim>\<open>to\<close> is read again when the old tree is freed: a hook may
  have changed it when it is \<^verbatim>\<open>cur_stree\<close>. The result is what the variable holds afterwards.
\<close>

definition merge_stree_pools ::
  "env \<Rightarrow> bool \<Rightarrow> (machine \<Rightarrow> nat option) \<Rightarrow> nat option \<Rightarrow> machine \<Rightarrow> (nat option \<times> machine) option" where
  "merge_stree_pools E add_pool to p m =
     (if oom E m then Some (to m, m)
      else if p = None then Some (to m, m)
      else if to m = p then Some (to m, m)
      else if to m = None then clone_tree p m
      else
        do {
          (results, m) \<leftarrow> join_strees E add_pool (to m) p m;
          m \<leftarrow> free_tree (to m) m;
          Some (results, m)
        })"

definition merge_stree ::
  "env \<Rightarrow> (machine \<Rightarrow> nat option) \<Rightarrow> nat option \<Rightarrow> machine \<Rightarrow> (nat option \<times> machine) option" where
  "merge_stree E = merge_stree_pools E True"

definition merge_stree_no_pools ::
  "env \<Rightarrow> (machine \<Rightarrow> nat option) \<Rightarrow> nat option \<Rightarrow> machine \<Rightarrow> (nat option \<times> machine) option" where
  "merge_stree_no_pools E = merge_stree_pools E False"

text \<open>
  \<^verbatim>\<open>merge_fake_stree\<close>: the trees hold only what was set; a state that one branch did not set is taken
  from the current states.
\<close>

function fake_walk ::
  "sm_state list \<Rightarrow> sm_state list \<Rightarrow> machine \<Rightarrow> (sm_state list \<times> sm_state list) option" where
  "fake_walk ones twos m =
     (let one = (case ones of [] \<Rightarrow> None | x # _ \<Rightarrow> Some x);
          two = (case twos of [] \<Rightarrow> None | x # _ \<Rightarrow> Some x);
          cur = (\<lambda>x. get_sm_state (owner x) (Some (name x)) (sym x) m);
          add = (\<lambda>x slist. case x of None \<Rightarrow> slist | Some x \<Rightarrow> x # slist)
      in if ones = [] \<and> twos = [] then Some ([], [])
         else if cmp_tracker one two < 0 then
           do {
             x \<leftarrow> cur (hd ones);
             (add_to_one, add_to_two) \<leftarrow> fake_walk (tl ones) twos m;
             Some (add_to_one, add x add_to_two)
           }
         else if cmp_tracker one two = 0 then fake_walk (tl ones) (tl twos) m
         else
           do {
             x \<leftarrow> cur (hd twos);
             (add_to_one, add_to_two) \<leftarrow> fake_walk ones (tl twos) m;
             Some (add x add_to_one, add_to_two)
           })"
  by pat_completeness auto
termination
  by (relation "measure (\<lambda>(ones, twos, m). length ones + length twos)")
    (auto simp: cmp_tracker_def split: list.splits)

definition set_base_stree :: "nat \<Rightarrow> machine \<Rightarrow> machine option" where
  "set_base_stree a m =
     do {
       (p, m) \<leftarrow> clone_tree (cur_stree m) m;
       t \<leftarrow> trees (strees m) a;
       let m = m\<lparr>strees := set_tree (strees m) a (t\<lparr>base_stree := p\<rparr>)\<rparr>;
       (p, m) \<leftarrow> insert_all_tree p (avl_foreach (st_root t)) m;
       t \<leftarrow> trees (strees m) a;
       Some (m\<lparr>strees := set_tree (strees m) a (t\<lparr>base_stree := p\<rparr>)\<rparr>)
     }"

definition merge_fake_stree :: "env \<Rightarrow> nat option \<Rightarrow> nat option \<Rightarrow> machine \<Rightarrow> (nat option \<times> machine) option" where
  "merge_fake_stree E to p m =
     (if p = None then Some (to, m)
      else if to = p then Some (to, m)
      else if to = None then clone_tree p m
      else
        do {
          ones \<leftarrow> states_of (strees m) to;
          twos \<leftarrow> states_of (strees m) p;
          (add_to_one, add_to_two) \<leftarrow> fake_walk ones twos m;
          (one, m) \<leftarrow> insert_all_tree to add_to_one m;
          (two, m) \<leftarrow> insert_all_tree p add_to_two m;
          a \<leftarrow> one;
          m \<leftarrow> set_base_stree a m;
          b \<leftarrow> two;
          m \<leftarrow> set_base_stree b m;
          merge_stree_pools E True (\<lambda>m. one) two m
        })"

section \<open>Conditions\<close>

text \<open>
  \<^verbatim>\<open>or_stree_stack\<close> and \<^verbatim>\<open>and_stree_stack\<close> are called on the stack of the states of the true branch or
  of the false branch of a condition; the branch is a truth value here.
\<close>

definition cond_stack :: "bool \<Rightarrow> ('p, 'z) stacks_scheme \<Rightarrow> 'p list" where
  "cond_stack branch m = (if branch then cond_true_stack m else cond_false_stack m)"

definition set_cond_stack :: "bool \<Rightarrow> 'p list \<Rightarrow> ('p, 'z) stacks_scheme \<Rightarrow> ('p, 'z) stacks_scheme" where
  "set_cond_stack branch stack m =
     (if branch then m\<lparr>cond_true_stack := stack\<rparr> else m\<lparr>cond_false_stack := stack\<rparr>)"

definition pop_cond_stack :: "bool \<Rightarrow> machine \<Rightarrow> nat option \<times> machine" where
  "pop_cond_stack branch m =
     (let (p, stack) = pop_stree (cond_stack branch m) in (p, set_cond_stack branch stack m))"

definition push_cond_stack :: "bool \<Rightarrow> nat option \<Rightarrow> machine \<Rightarrow> machine" where
  "push_cond_stack branch p m = set_cond_stack branch (push_stree (cond_stack branch m) p) m"

definition or_cond_stack :: "env \<Rightarrow> bool \<Rightarrow> machine \<Rightarrow> machine option" where
  "or_cond_stack E branch m =
     do {
       let (new, m) = pop_cond_stack branch m;
       let (old, m) = pop_cond_stack branch m;
       let (pre_stree, stack) = pop_stree (pre_cond_stack m);
       let m = m\<lparr>pre_cond_stack := stack\<rparr>;
       (p, m) \<leftarrow> clone_tree pre_stree m;
       let m = m\<lparr>pre_cond_stack := push_stree (pre_cond_stack m) p\<rparr>;
       (res, m) \<leftarrow> clone_tree pre_stree m;
       (res, m) \<leftarrow> overwrite_tree old res m;
       (tmp_stree, m) \<leftarrow> clone_tree (cur_stree m) m;
       (tmp_stree, m) \<leftarrow> overwrite_tree new tmp_stree m;
       (res, m) \<leftarrow> merge_stree E (\<lambda>m. res) tmp_stree m;
       (res, m) \<leftarrow> filter_tree res pre_stree m;
       let m = push_cond_stack branch res m;
       m \<leftarrow> free_tree tmp_stree m;
       m \<leftarrow> free_tree pre_stree m;
       m \<leftarrow> free_tree new m;
       free_tree old m
     }"

definition and_cond_stack :: "bool \<Rightarrow> machine \<Rightarrow> machine option" where
  "and_cond_stack branch m =
     map_option (\<lambda>(stack, st). (set_cond_stack branch stack m)\<lparr>strees := st\<rparr>)
       (and_stree_stack (strees m) (cond_stack branch m))"

text \<open>The place of a label's tree on the stack of gotos.\<close>

definition get_named_stree :: "'p named_stree list \<Rightarrow> string \<Rightarrow> nat \<Rightarrow> nat option" where
  "get_named_stree stack nm sy =
     (let i = length (takeWhile (\<lambda>tmp. \<not> (ns_sym tmp = sy \<and> strcmp (ns_name tmp) nm = 0)) stack)
      in if i < length stack then Some i else None)"

end
