(* ===== verification/Flow_States.thy ===== *)
theory Flow_States
  imports Stree_Merge
begin

text \<open>
  The operations of \<^verbatim>\<open>src/smatch_states.c\<close> that follow the control flow: conditions, branches, loops,
  switches and gotos, the saving of the whole analysis state around an inlined function, and the
  end of a function.
\<close>

section \<open>Conditions\<close>

definition push_cond_stacks :: "machine \<Rightarrow> machine option" where
  "push_cond_stacks m =
     push_fake_cur_stree
       (m\<lparr>cond_true_stack := push_stree (cond_true_stack m) None,
          cond_false_stack := push_stree (cond_false_stack m) None\<rparr>)"

fun fold_in_loop :: "sm_state list \<Rightarrow> machine \<Rightarrow> machine option" where
  "fold_in_loop [] m = Some m"
| "fold_in_loop (x # slist) m =
     do { m \<leftarrow> set_sm x m; m \<leftarrow> set_true_false_sm (Some x) (Some x) m; fold_in_loop slist m }"

definition fold_in_set_states :: "machine \<Rightarrow> machine option" where
  "fold_in_set_states m =
     do {
       (new_states, m) \<leftarrow> pop_fake_cur_stree m;
       slist \<leftarrow> states_of (strees m) new_states;
       m \<leftarrow> fold_in_loop slist m;
       free_tree new_states m
     }"

definition free_set_states :: "machine \<Rightarrow> machine option" where
  "free_set_states m = do { (new_states, m) \<leftarrow> pop_fake_cur_stree m; free_tree new_states m }"

definition copy_cond_states :: "bool \<Rightarrow> machine \<Rightarrow> (nat option \<times> machine) option" where
  "copy_cond_states branch m =
     do {
       let (ret, m) = pop_cond_stack branch m;
       (p, m) \<leftarrow> clone_tree ret m;
       Some (ret, push_cond_stack branch p m)
     }"

definition copy_cond_true_states :: "machine \<Rightarrow> (nat option \<times> machine) option" where
  "copy_cond_true_states = copy_cond_states True"

definition copy_cond_false_states :: "machine \<Rightarrow> (nat option \<times> machine) option" where
  "copy_cond_false_states = copy_cond_states False"

definition pop_cond_true_stack :: "machine \<Rightarrow> nat option \<times> machine" where
  "pop_cond_true_stack = pop_cond_stack True"

definition pop_cond_false_stack :: "machine \<Rightarrow> nat option \<times> machine" where
  "pop_cond_false_stack = pop_cond_stack False"

definition use_cond_stack :: "bool \<Rightarrow> machine \<Rightarrow> machine option" where
  "use_cond_stack branch m =
     do {
       m \<leftarrow> free_cur_stree m;
       let (cur, stack) = pop_stree (pre_cond_stack m);
       let m = m\<lparr>pre_cond_stack := stack\<rparr>;
       (p, m) \<leftarrow> clone_tree cur m;
       let m = m\<lparr>pre_cond_stack := push_stree (pre_cond_stack m) p\<rparr>;
       let (p, m) = pop_cond_stack branch m;
       (cur, m) \<leftarrow> overwrite_tree p cur m;
       Some (push_cond_stack branch p (m\<lparr>cur_stree := cur\<rparr>))
     }"

definition use_cond_true_states :: "machine \<Rightarrow> machine option" where
  "use_cond_true_states = use_cond_stack True"

definition use_cond_false_states :: "machine \<Rightarrow> machine option" where
  "use_cond_false_states = use_cond_stack False"

definition negate_cond_stacks :: "machine \<Rightarrow> machine" where
  "negate_cond_stacks m =
     (let (old_false, m) = pop_cond_stack False m;
          (old_true, m) = pop_cond_stack True m;
          m = push_cond_stack False old_true m
      in push_cond_stack True old_false m)"

definition and_cond_states :: "env \<Rightarrow> machine \<Rightarrow> machine option" where
  "and_cond_states E m = do { m \<leftarrow> and_cond_stack True m; or_cond_stack E False m }"

definition or_cond_states :: "env \<Rightarrow> machine \<Rightarrow> machine option" where
  "or_cond_states E m = do { m \<leftarrow> or_cond_stack E True m; and_cond_stack False m }"

definition get_true_states :: "machine \<Rightarrow> (nat option \<times> machine) option" where
  "get_true_states m = clone_tree (top_stree (cond_true_stack m)) m"

definition get_false_states :: "machine \<Rightarrow> (nat option \<times> machine) option" where
  "get_false_states m = clone_tree (top_stree (cond_false_stack m)) m"

definition use_cond_states :: "machine \<Rightarrow> machine option" where
  "use_cond_states m =
     do {
       let (pre, stack) = pop_stree (pre_cond_stack m);
       let m = m\<lparr>pre_cond_stack := stack\<rparr>;
       (pre_clone, m) \<leftarrow> clone_tree pre m;
       let (true_states, m) = pop_cond_stack True m;
       (pre, m) \<leftarrow> overwrite_tree true_states pre m;
       m \<leftarrow> free_tree true_states m;
       m \<leftarrow> free_cur_stree m;
       let m = m\<lparr>cur_stree := pre\<rparr>;
       let (false_states, m) = pop_cond_stack False m;
       (pre_clone, m) \<leftarrow> overwrite_tree false_states pre_clone m;
       m \<leftarrow> free_tree false_states m;
       Some (m\<lparr>false_stack := push_stree (false_stack m) pre_clone\<rparr>)
     }"

section \<open>Branches\<close>

definition push_true_states :: "machine \<Rightarrow> machine option" where
  "push_true_states m =
     do { (p, m) \<leftarrow> clone_tree (cur_stree m) m; Some (m\<lparr>true_stack := push_stree (true_stack m) p\<rparr>) }"

definition use_false_states :: "machine \<Rightarrow> machine option" where
  "use_false_states m =
     do {
       m \<leftarrow> free_cur_stree m;
       let (p, stack) = pop_stree (false_stack m);
       Some (m\<lparr>cur_stree := p, false_stack := stack\<rparr>)
     }"

definition discard_false_states :: "machine \<Rightarrow> machine option" where
  "discard_false_states m =
     (let (p, stack) = pop_stree (false_stack m) in free_tree p (m\<lparr>false_stack := stack\<rparr>))"

text \<open>\<^verbatim>\<open>merge_stree(&cur_stree, stree)\<close>, the step by which all paths join.\<close>

definition merge_into_cur :: "env \<Rightarrow> nat option \<Rightarrow> machine \<Rightarrow> machine option" where
  "merge_into_cur E p m =
     do { (q, m) \<leftarrow> merge_stree E cur_stree p m; Some (m\<lparr>cur_stree := q\<rparr>) }"

definition merge_false_states :: "env \<Rightarrow> machine \<Rightarrow> machine option" where
  "merge_false_states E m =
     do {
       let (p, stack) = pop_stree (false_stack m);
       m \<leftarrow> merge_into_cur E p (m\<lparr>false_stack := stack\<rparr>);
       free_tree p m
     }"

text \<open>The current versions of the states of a tree, where they still exist.\<close>

fun current_versions :: "sm_state list \<Rightarrow> machine \<Rightarrow> sm_state list option" where
  "current_versions [] m = Some []"
| "current_versions (x # slist) m =
     do {
       new \<leftarrow> get_sm_state (owner x) (Some (name x)) (sym x) m;
       rest \<leftarrow> current_versions slist m;
       Some (case new of None \<Rightarrow> rest | Some y \<Rightarrow> y # rest)
     }"

definition update_stree_with_merged :: "nat option \<Rightarrow> machine \<Rightarrow> (nat option \<times> machine) option" where
  "update_stree_with_merged p m =
     do {
       slist \<leftarrow> states_of (strees m) p;
       slist \<leftarrow> current_versions slist m;
       insert_all_tree p slist m
     }"

definition update_fake_stree_with_merged :: "machine \<Rightarrow> machine option" where
  "update_fake_stree_with_merged m =
     (if fake_cur_stree_stack m = [] then Some m
      else do {
        let (p, stack) = pop_stree (fake_cur_stree_stack m);
        (p, m) \<leftarrow> update_stree_with_merged p (m\<lparr>fake_cur_stree_stack := stack\<rparr>);
        Some (m\<lparr>fake_cur_stree_stack := push_stree (fake_cur_stree_stack m) p\<rparr>)
      })"

definition merge_true_states :: "env \<Rightarrow> machine \<Rightarrow> machine option" where
  "merge_true_states E m =
     do {
       let (p, stack) = pop_stree (true_stack m);
       m \<leftarrow> merge_into_cur E p (m\<lparr>true_stack := stack\<rparr>);
       m \<leftarrow> update_fake_stree_with_merged m;
       free_tree p m
     }"

fun merge_into_cur_loop :: "env \<Rightarrow> sm_state list \<Rightarrow> machine \<Rightarrow> machine option" where
  "merge_into_cur_loop E [] m = Some m"
| "merge_into_cur_loop E (x # slist) m =
     do {
       orig \<leftarrow> get_sm_state (owner x) (Some (name x)) (sym x) m;
       (merged, h) \<leftarrow> (case orig of
                        Some y \<Rightarrow> merge_sm_states (cf E) (merge_funcs E) (oom E m) (sms m) y x
                      | None \<Rightarrow> Some (x, sms m));
       m \<leftarrow> set_sm merged (m\<lparr>sms := h\<rparr>);
       merge_into_cur_loop E slist m
     }"

definition merge_stree_into_cur :: "env \<Rightarrow> nat option \<Rightarrow> machine \<Rightarrow> machine option" where
  "merge_stree_into_cur E p m =
     do { slist \<leftarrow> states_of (strees m) p; merge_into_cur_loop E slist m }"

section \<open>Loops\<close>

text \<open>\<^verbatim>\<open>stree = pop; if (!stree) clone_stree(from) else merge_stree(&stree, from)\<close>.\<close>

definition clone_or_merge :: "env \<Rightarrow> nat option \<Rightarrow> nat option \<Rightarrow> machine \<Rightarrow> (nat option \<times> machine) option" where
  "clone_or_merge E p from m = (if p = None then clone_tree from m else merge_stree E (\<lambda>m. p) from m)"

definition push_continues :: "machine \<Rightarrow> machine" where
  "push_continues m = m\<lparr>continue_stack := push_stree (continue_stack m) None\<rparr>"

definition discard_continues :: "machine \<Rightarrow> machine option" where
  "discard_continues m =
     (let (p, stack) = pop_stree (continue_stack m) in free_tree p (m\<lparr>continue_stack := stack\<rparr>))"

definition process_continues :: "env \<Rightarrow> machine \<Rightarrow> machine option" where
  "process_continues E m =
     do {
       let (p, stack) = pop_stree (continue_stack m);
       let m = m\<lparr>continue_stack := stack\<rparr>;
       (p, m) \<leftarrow> clone_or_merge E p (cur_stree m) m;
       Some (m\<lparr>continue_stack := push_stree (continue_stack m) p\<rparr>)
     }"

definition merge_continues :: "env \<Rightarrow> machine \<Rightarrow> machine option" where
  "merge_continues E m =
     do {
       let (p, stack) = pop_stree (continue_stack m);
       m \<leftarrow> merge_into_cur E p (m\<lparr>continue_stack := stack\<rparr>);
       free_tree p m
     }"

definition push_breaks :: "machine \<Rightarrow> machine" where
  "push_breaks m =
     (let m = m\<lparr>break_stack := push_stree (break_stack m) None\<rparr>
      in if fake_cur_stree_stack m \<noteq> []
         then m\<lparr>fake_break_stack := push_stree (fake_break_stack m) None\<rparr> else m)"

definition process_breaks :: "env \<Rightarrow> machine \<Rightarrow> machine option" where
  "process_breaks E m =
     do {
       let (p, stack) = pop_stree (break_stack m);
       let m = m\<lparr>break_stack := stack\<rparr>;
       (p, m) \<leftarrow> clone_or_merge E p (cur_stree m) m;
       let m = m\<lparr>break_stack := push_stree (break_stack m) p\<rparr>;
       if fake_cur_stree_stack m = [] then Some m
       else do {
         let (p, stack) = pop_stree (fake_break_stack m);
         let m = m\<lparr>fake_break_stack := stack\<rparr>;
         (p, m) \<leftarrow> clone_or_merge E p (top_stree (fake_cur_stree_stack m)) m;
         Some (m\<lparr>fake_break_stack := push_stree (fake_break_stack m) p\<rparr>)
       }
     }"

definition has_breaks :: "machine \<Rightarrow> bool" where
  "has_breaks m = (fst (pop_stree (break_stack m)) \<noteq> None)"

text \<open>The end of \<^verbatim>\<open>__merge_breaks\<close> and \<^verbatim>\<open>__use_breaks\<close>: the tree is written over the top fake tree.\<close>

definition overwrite_fake_top :: "nat option \<Rightarrow> machine \<Rightarrow> machine option" where
  "overwrite_fake_top p m =
     do {
       slist \<leftarrow> states_of (strees m) p;
       (stack, st) \<leftarrow> overwrite_top (strees m) (fake_cur_stree_stack m) slist;
       free_tree p (m\<lparr>fake_cur_stree_stack := stack, strees := st\<rparr>)
     }"

definition merge_breaks :: "env \<Rightarrow> machine \<Rightarrow> machine option" where
  "merge_breaks E m =
     do {
       let (p, stack) = pop_stree (break_stack m);
       m \<leftarrow> merge_into_cur E p (m\<lparr>break_stack := stack\<rparr>);
       m \<leftarrow> free_tree p m;
       if fake_cur_stree_stack m = [] then Some m
       else do {
         let (p, stack) = pop_stree (fake_break_stack m);
         (p, m) \<leftarrow> update_stree_with_merged p (m\<lparr>fake_break_stack := stack\<rparr>);
         overwrite_fake_top p m
       }
     }"

definition use_breaks :: "machine \<Rightarrow> machine option" where
  "use_breaks m =
     do {
       m \<leftarrow> free_cur_stree m;
       let (p, stack) = pop_stree (break_stack m);
       let m = m\<lparr>cur_stree := p, break_stack := stack\<rparr>;
       if fake_cur_stree_stack m = [] then Some m
       else do {
         let (p, stack) = pop_stree (fake_break_stack m);
         overwrite_fake_top p (m\<lparr>fake_break_stack := stack\<rparr>)
       }
     }"

section \<open>Switches\<close>

text \<open>The stacks of range lists of \<^verbatim>\<open>src/smatch_ranges.c\<close>.\<close>

definition push_rl :: "range_list list \<Rightarrow> range_list \<Rightarrow> range_list list" where
  "push_rl rl_stack rl = rl_stack @ [rl]"

definition top_rl :: "range_list list \<Rightarrow> range_list" where
  "top_rl rl_stack = (if rl_stack = [] then [] else last rl_stack)"

definition pop_rl :: "range_list list \<Rightarrow> range_list \<times> range_list list" where
  "pop_rl rl_stack = (top_rl rl_stack, butlast rl_stack)"

definition filter_top_rl :: "project_type \<Rightarrow> range_list list \<Rightarrow> range_list \<Rightarrow> range_list list" where
  "filter_top_rl prj rl_stack filt =
     (let (rl, rl_stack) = pop_rl rl_stack in push_rl rl_stack (rl_filter prj rl filt))"

text \<open>\<open>rl\<close> is what \<^verbatim>\<open>get_absolute_rl\<close> finds for the switch expression.\<close>

definition save_switch_states :: "range_list \<Rightarrow> machine \<Rightarrow> machine option" where
  "save_switch_states rl m =
     do {
       let m = m\<lparr>remaining_cases := push_rl (remaining_cases m) rl\<rparr>;
       (p, m) \<leftarrow> clone_tree (cur_stree m) m;
       Some (m\<lparr>switch_stack := push_stree (switch_stack m) p\<rparr>)
     }"

definition have_remaining_cases :: "machine \<Rightarrow> bool" where
  "have_remaining_cases m = (top_rl (remaining_cases m) \<noteq> [])"

text \<open>
  \<open>implied\<close> stands for \<^verbatim>\<open>__implied_case_stree\<close> of \<^verbatim>\<open>src/smatch_implied.c\<close>: from the states before the switch
  it makes the tree of the states in which the case is taken, and it may change both the states
  that remain and the remaining cases.
\<close>

definition merge_switches ::
  "env \<Rightarrow> (nat option \<Rightarrow> machine \<Rightarrow> (nat option \<times> nat option \<times> machine) option) \<Rightarrow> machine \<Rightarrow> machine option" where
  "merge_switches E implied m =
     do {
       let (p, stack) = pop_stree (switch_stack m);
       if p = None then Some (m\<lparr>switch_stack := push_stree stack p\<rparr>)
       else do {
         (implied_stree, p, m) \<leftarrow> implied p (m\<lparr>switch_stack := stack\<rparr>);
         m \<leftarrow> merge_into_cur E implied_stree m;
         m \<leftarrow> free_tree implied_stree m;
         Some (m\<lparr>switch_stack := push_stree (switch_stack m) p\<rparr>)
       }
     }"

definition discard_switches :: "machine \<Rightarrow> machine option" where
  "discard_switches m =
     (let m = m\<lparr>remaining_cases := snd (pop_rl (remaining_cases m))\<rparr>;
          (p, stack) = pop_stree (switch_stack m)
      in free_tree p (m\<lparr>switch_stack := stack\<rparr>))"

definition push_default :: "machine \<Rightarrow> machine" where
  "push_default m = m\<lparr>default_stack := push_stree (default_stack m) None\<rparr>"

definition set_default :: "machine \<Rightarrow> machine option" where
  "set_default m =
     do {
       (stack, x, h, st) \<leftarrow>
         set_state_stree_stack (sms m) (strees m) (default_stack m) 0 ''has_default'' 0 true_state;
       Some (m\<lparr>default_stack := stack, sms := h, strees := st\<rparr>)
     }"

definition has_default_case :: "machine \<Rightarrow> bool" where
  "has_default_case m = (top_stree (default_stack m) \<noteq> None)"

definition pop_default :: "machine \<Rightarrow> (int \<times> machine) option" where
  "pop_default m =
     (let (p, stack) = pop_stree (default_stack m);
          m = m\<lparr>default_stack := stack\<rparr>
      in if p \<noteq> None then do { m \<leftarrow> free_tree p m; Some (1, m) } else Some (0, m))"

section \<open>Gotos\<close>

definition in_goto :: "machine \<Rightarrow> bool" where
  "in_goto m = (in_goto_merge m \<noteq> 0)"

definition goto_merge :: "nat \<Rightarrow> int \<Rightarrow> machine \<Rightarrow> machine" where
  "goto_merge sy d m = (if sy \<noteq> 0 then m\<lparr>in_goto_merge := in_goto_merge m + d\<rparr> else m)"

definition save_gotos :: "env \<Rightarrow> string \<Rightarrow> nat \<Rightarrow> machine \<Rightarrow> machine option" where
  "save_gotos E nm sy m =
     (case get_named_stree (goto_stack m) nm sy of
        Some i \<Rightarrow>
          do {
            let m = goto_merge sy 1 m;
            (p, m) \<leftarrow> merge_stree E (\<lambda>m. ns_stree (goto_stack m ! i)) (cur_stree m) m;
            let m = m\<lparr>goto_stack := (goto_stack m)[i := map_named_stree (\<lambda>_. p) (goto_stack m ! i)]\<rparr>;
            Some (goto_merge sy (-1) m)
          }
      | None \<Rightarrow>
          do {
            (clone, m) \<leftarrow> clone_tree (cur_stree m) m;
            Some (m\<lparr>goto_stack := goto_stack m @ [Named_stree nm sy clone]\<rparr>)
          })"

definition merge_gotos :: "env \<Rightarrow> string \<Rightarrow> nat \<Rightarrow> machine \<Rightarrow> machine option" where
  "merge_gotos E nm sy m =
     (case get_named_stree (goto_stack m) nm sy of
        Some i \<Rightarrow>
          do {
            let m = goto_merge sy 1 m;
            m \<leftarrow> merge_into_cur E (ns_stree (goto_stack m ! i)) m;
            Some (goto_merge sy (-1) m)
          }
      | None \<Rightarrow> Some m)"

section \<open>Deleting states\<close>

definition delete_stack :: "stree_stack \<Rightarrow> nat \<Rightarrow> string \<Rightarrow> nat \<Rightarrow> machine \<Rightarrow> (stree_stack \<times> machine) option" where
  "delete_stack stack ow nm sy m =
     map_option (\<lambda>(stack, st). (stack, m\<lparr>strees := st\<rparr>))
       (delete_state_stree_stack (strees m) stack ow nm sy)"

definition delete_state :: "nat \<Rightarrow> string \<Rightarrow> nat \<Rightarrow> machine \<Rightarrow> machine option" where
  "delete_state ow nm sy m =
     do {
       (p, m) \<leftarrow> delete_tree (cur_stree m) ow nm sy m;
       let m = m\<lparr>cur_stree := p\<rparr>;
       if cond_true_stack m = [] then Some m
       else do {
         (stack, m) \<leftarrow> delete_stack (pre_cond_stack m) ow nm sy m;
         let m = m\<lparr>pre_cond_stack := stack\<rparr>;
         (stack, m) \<leftarrow> delete_stack (cond_true_stack m) ow nm sy m;
         let m = m\<lparr>cond_true_stack := stack\<rparr>;
         (stack, m) \<leftarrow> delete_stack (cond_false_stack m) ow nm sy m;
         Some (m\<lparr>cond_false_stack := stack\<rparr>)
       }
     }"

fun delete_each :: "nat option \<Rightarrow> sm_state list \<Rightarrow> machine \<Rightarrow> (nat option \<times> machine) option" where
  "delete_each p [] m = Some (p, m)"
| "delete_each p (x # slist) m =
     do { (p, m) \<leftarrow> delete_tree p (owner x) (name x) (sym x) m; delete_each p slist m }"

definition delete_all_states_stree_sym ::
  "env \<Rightarrow> nat \<Rightarrow> nat option \<Rightarrow> machine \<Rightarrow> (nat option \<times> machine) option" where
  "delete_all_states_stree_sym E sy p m =
     do {
       slist \<leftarrow> states_of (strees m) p;
       delete_each p (filter (\<lambda>x. sym x = sy \<and> \<not> keep_out_of_scope E (owner x)) slist) m
     }"

definition delete_all_states_stree_stack_sym ::
  "env \<Rightarrow> nat \<Rightarrow> stree_stack \<Rightarrow> machine \<Rightarrow> (stree_stack \<times> machine) option" where
  "delete_all_states_stree_stack_sym E sy stack m =
     (if stack = [] then Some (stack, m)
      else do {
        let (p, stack) = pop_stree stack;
        (p, m) \<leftarrow> delete_all_states_stree_sym E sy p m;
        Some (push_stree stack p, m)
      })"

text \<open>The stacks that \<^verbatim>\<open>__delete_all_states_sym\<close> goes through; the first one comes twice.\<close>

definition delete_all_states_sym :: "env \<Rightarrow> nat \<Rightarrow> machine \<Rightarrow> machine option" where
  "delete_all_states_sym E sy m =
     do {
       let del = delete_all_states_stree_stack_sym E sy;
       (p, m) \<leftarrow> delete_all_states_stree_sym E sy (cur_stree m) m;
       let m = m\<lparr>cur_stree := p\<rparr>;
       (stack, m) \<leftarrow> del (true_stack m) m; let m = m\<lparr>true_stack := stack\<rparr>;
       (stack, m) \<leftarrow> del (true_stack m) m; let m = m\<lparr>true_stack := stack\<rparr>;
       (stack, m) \<leftarrow> del (false_stack m) m; let m = m\<lparr>false_stack := stack\<rparr>;
       (stack, m) \<leftarrow> del (pre_cond_stack m) m; let m = m\<lparr>pre_cond_stack := stack\<rparr>;
       (stack, m) \<leftarrow> del (cond_true_stack m) m; let m = m\<lparr>cond_true_stack := stack\<rparr>;
       (stack, m) \<leftarrow> del (cond_false_stack m) m; let m = m\<lparr>cond_false_stack := stack\<rparr>;
       (stack, m) \<leftarrow> del (fake_cur_stree_stack m) m; let m = m\<lparr>fake_cur_stree_stack := stack\<rparr>;
       (stack, m) \<leftarrow> del (break_stack m) m; let m = m\<lparr>break_stack := stack\<rparr>;
       (stack, m) \<leftarrow> del (fake_break_stack m) m; let m = m\<lparr>fake_break_stack := stack\<rparr>;
       (stack, m) \<leftarrow> del (switch_stack m) m; let m = m\<lparr>switch_stack := stack\<rparr>;
       (stack, m) \<leftarrow> del (continue_stack m) m; Some (m\<lparr>continue_stack := stack\<rparr>)
     }"

definition get_all_states_from_stree :: "nat \<Rightarrow> nat option \<Rightarrow> machine \<Rightarrow> (nat option \<times> machine) option" where
  "get_all_states_from_stree ow source m =
     do {
       slist \<leftarrow> states_of (strees m) source;
       insert_all_tree None (filter (\<lambda>x. owner x = ow) slist) m
     }"

definition get_all_states_stree :: "nat \<Rightarrow> machine \<Rightarrow> (nat option \<times> machine) option" where
  "get_all_states_stree ow m = get_all_states_from_stree ow (cur_stree m) m"

text \<open>
  \<open>call\<close> is the address of the call expression as \<^verbatim>\<open>%p\<close> prints it; \<^verbatim>\<open>strncmp\<close> with the length of the
  prefix tests for the prefix.
\<close>

definition discard_fake_states :: "string option \<Rightarrow> machine \<Rightarrow> machine option" where
  "discard_fake_states call m =
     (if fake_state_cnt m = 0 then Some m
      else do {
        let pre = (case call of Some c \<Rightarrow> ''__fake_param_'' @ c @ ''_'' | None \<Rightarrow> ''__fake_param_'');
        slist \<leftarrow> states_of (strees m) (cur_stree m);
        (new, m) \<leftarrow> insert_all_tree None (filter (\<lambda>x. take (length pre) (name x) \<noteq> pre) slist) m;
        m \<leftarrow> free_cur_stree m;
        Some (m\<lparr>cur_stree := new, fake_state_cnt := 0\<rparr>)
      })"

section \<open>Saving and restoring\<close>

definition save_all_states :: "machine \<Rightarrow> machine" where
  "save_all_states m =
     m\<lparr>backup := backup m
         @ [Saved_stree (cur_stree m),
            Saved_stack (true_stack m), Saved_stack (false_stack m), Saved_stack (pre_cond_stack m),
            Saved_stack (cond_true_stack m), Saved_stack (cond_false_stack m),
            Saved_stack (fake_cur_stree_stack m),
            Saved_stack (break_stack m), Saved_stack (fake_break_stack m),
            Saved_stack (switch_stack m), Saved_cases (remaining_cases m),
            Saved_stack (default_stack m), Saved_stack (continue_stack m),
            Saved_gotos (goto_stack m)],
       cur_stree := None,
       true_stack := [], false_stack := [], pre_cond_stack := [],
       cond_true_stack := [], cond_false_stack := [], fake_cur_stree_stack := [],
       break_stack := [], fake_break_stack := [],
       switch_stack := [], remaining_cases := [], default_stack := [], continue_stack := [],
       goto_stack := []\<rparr>"

text \<open>
  The pops from the backup list, each with the type its caller expects. An empty list gives NULL;
  an entry of another type would be misread, which is \<open>None\<close>.
\<close>

definition pop_backup_stack :: "machine \<Rightarrow> (stree_stack \<times> machine) option" where
  "pop_backup_stack m =
     (if backup m = [] then Some ([], m)
      else case last (backup m) of
        Saved_stack s \<Rightarrow> Some (s, m\<lparr>backup := butlast (backup m)\<rparr>)
      | _ \<Rightarrow> None)"

definition pop_backup_stree :: "machine \<Rightarrow> (nat option \<times> machine) option" where
  "pop_backup_stree m =
     (if backup m = [] then Some (None, m)
      else case last (backup m) of
        Saved_stree p \<Rightarrow> Some (p, m\<lparr>backup := butlast (backup m)\<rparr>)
      | _ \<Rightarrow> None)"

definition pop_backup_cases :: "machine \<Rightarrow> (range_list list \<times> machine) option" where
  "pop_backup_cases m =
     (if backup m = [] then Some ([], m)
      else case last (backup m) of
        Saved_cases c \<Rightarrow> Some (c, m\<lparr>backup := butlast (backup m)\<rparr>)
      | _ \<Rightarrow> None)"

definition pop_backup_gotos :: "machine \<Rightarrow> (nat option named_stree list \<times> machine) option" where
  "pop_backup_gotos m =
     (if backup m = [] then Some ([], m)
      else case last (backup m) of
        Saved_gotos g \<Rightarrow> Some (g, m\<lparr>backup := butlast (backup m)\<rparr>)
      | _ \<Rightarrow> None)"

definition restore_all_states :: "machine \<Rightarrow> machine option" where
  "restore_all_states m =
     do {
       (g, m) \<leftarrow> pop_backup_gotos m; let m = m\<lparr>goto_stack := g\<rparr>;
       (s, m) \<leftarrow> pop_backup_stack m; let m = m\<lparr>continue_stack := s\<rparr>;
       (s, m) \<leftarrow> pop_backup_stack m; let m = m\<lparr>default_stack := s\<rparr>;
       (c, m) \<leftarrow> pop_backup_cases m; let m = m\<lparr>remaining_cases := c\<rparr>;
       (s, m) \<leftarrow> pop_backup_stack m; let m = m\<lparr>switch_stack := s\<rparr>;
       (s, m) \<leftarrow> pop_backup_stack m; let m = m\<lparr>fake_break_stack := s\<rparr>;
       (s, m) \<leftarrow> pop_backup_stack m; let m = m\<lparr>break_stack := s\<rparr>;
       (s, m) \<leftarrow> pop_backup_stack m; let m = m\<lparr>fake_cur_stree_stack := s\<rparr>;
       (s, m) \<leftarrow> pop_backup_stack m; let m = m\<lparr>cond_false_stack := s\<rparr>;
       (s, m) \<leftarrow> pop_backup_stack m; let m = m\<lparr>cond_true_stack := s\<rparr>;
       (s, m) \<leftarrow> pop_backup_stack m; let m = m\<lparr>pre_cond_stack := s\<rparr>;
       (s, m) \<leftarrow> pop_backup_stack m; let m = m\<lparr>false_stack := s\<rparr>;
       (s, m) \<leftarrow> pop_backup_stack m; let m = m\<lparr>true_stack := s\<rparr>;
       (p, m) \<leftarrow> pop_backup_stree m; Some (m\<lparr>cur_stree := p\<rparr>)
     }"

section \<open>The end of a function\<close>

definition free_stack :: "stree_stack \<Rightarrow> machine \<Rightarrow> machine option" where
  "free_stack stack m = map_option (\<lambda>st. m\<lparr>strees := st\<rparr>) (free_stack_and_strees (strees m) stack)"

text \<open>A stack that is not empty at the end of a function is reported and freed.\<close>

definition check_stree_stack_free :: "string \<Rightarrow> stree_stack \<Rightarrow> machine \<Rightarrow> machine option" where
  "check_stree_stack_free nm stack m =
     (if stack \<noteq> [] then free_stack stack (sm_perror (''stack not empty '' @ nm) m) else Some m)"

definition free_goto_stack :: "machine \<Rightarrow> machine option" where
  "free_goto_stack m =
     do { m \<leftarrow> free_stack (map ns_stree (goto_stack m)) m; Some (m\<lparr>goto_stack := []\<rparr>) }"

text \<open>
  \<^verbatim>\<open>free_every_single_sm_state\<close> releases all states and the pools. Addresses are not given out
  again here.
\<close>

definition free_every_single_sm_state :: "machine \<Rightarrow> machine option" where
  "free_every_single_sm_state m =
     do {
       m \<leftarrow> free_stack (all_pools m) m;
       Some (m\<lparr>all_pools := [], pool := (\<lambda>_. None), sms := (sms m)\<lparr>sm_state_counter := 0\<rparr>\<rparr>)
     }"

definition clear_all_states :: "machine \<Rightarrow> machine option" where
  "clear_all_states m =
     do {
       m \<leftarrow> nullify_path m;
       m \<leftarrow> check_stree_stack_free ''&true_stack'' (true_stack m) m; let m = m\<lparr>true_stack := []\<rparr>;
       m \<leftarrow> check_stree_stack_free ''&false_stack'' (false_stack m) m; let m = m\<lparr>false_stack := []\<rparr>;
       m \<leftarrow> check_stree_stack_free ''&pre_cond_stack'' (pre_cond_stack m) m; let m = m\<lparr>pre_cond_stack := []\<rparr>;
       m \<leftarrow> check_stree_stack_free ''&cond_true_stack'' (cond_true_stack m) m; let m = m\<lparr>cond_true_stack := []\<rparr>;
       m \<leftarrow> check_stree_stack_free ''&cond_false_stack'' (cond_false_stack m) m; let m = m\<lparr>cond_false_stack := []\<rparr>;
       m \<leftarrow> check_stree_stack_free ''&break_stack'' (break_stack m) m; let m = m\<lparr>break_stack := []\<rparr>;
       m \<leftarrow> check_stree_stack_free ''&fake_break_stack'' (fake_break_stack m) m; let m = m\<lparr>fake_break_stack := []\<rparr>;
       m \<leftarrow> check_stree_stack_free ''&switch_stack'' (switch_stack m) m; let m = m\<lparr>switch_stack := []\<rparr>;
       m \<leftarrow> check_stree_stack_free ''&continue_stack'' (continue_stack m) m; let m = m\<lparr>continue_stack := []\<rparr>;
       m \<leftarrow> check_stree_stack_free ''&fake_cur_stree_stack'' (fake_cur_stree_stack m) m;
       let m = m\<lparr>fake_cur_stree_stack := []\<rparr>;
       m \<leftarrow> free_goto_stack m;
       free_every_single_sm_state m
     }"

end
