(* ===== verification/State_Ops.thy ===== *)
theory State_Ops
  imports Flow_States
begin

text \<open>
  The interface of \<^verbatim>\<open>src/smatch_states.c\<close> as a datatype of operations, and the state at the start of the
  program.
\<close>

text \<open>The operations that the flow engine and the checkers call.\<close>

datatype op =
    Set_state nat string nat smatch_state
  | Set_true_false_states nat "string option" nat "smatch_state option" "smatch_state option"
  | Delete_state nat string nat | Delete_all_states_sym nat | Discard_fake_states "string option"
  | Nullify_path | Unnullify_path
  | Save_pre_cond_states | Use_pre_cond_states | Discard_pre_cond_states
  | Push_fake_cur_stree | Free_fake_cur_stree
  | Push_cond_stacks | Fold_in_set_states | Free_set_states
  | Use_cond_true_states | Use_cond_false_states | Use_cond_states
  | Negate_cond_stacks | And_cond_states | Or_cond_states
  | Push_true_states | Use_false_states | Discard_false_states | Merge_false_states | Merge_true_states
  | Push_continues | Discard_continues | Process_continues | Merge_continues
  | Push_breaks | Process_breaks | Merge_breaks | Use_breaks
  | Save_switch_states range_list | Discard_switches | Push_default | Set_default | Pop_default
  | Save_gotos string nat | Merge_gotos string nat | Clear_all_states

fun run_op :: "env \<Rightarrow> op \<Rightarrow> machine \<Rightarrow> machine option" where
  "run_op E (Set_state ow nm sy s) m = map_option snd (set_state ow (Some nm) sy (Some s) m)"
| "run_op E (Set_true_false_states ow nm sy t f) m = set_true_false_states ow nm sy t f m"
| "run_op E (Delete_state ow nm sy) m = delete_state ow nm sy m"
| "run_op E (Delete_all_states_sym sy) m = delete_all_states_sym E sy m"
| "run_op E (Discard_fake_states call) m = discard_fake_states call m"
| "run_op E Nullify_path m = nullify_path m"
| "run_op E Unnullify_path m = unnullify_path m"
| "run_op E Save_pre_cond_states m = save_pre_cond_states m"
| "run_op E Use_pre_cond_states m = use_pre_cond_states m"
| "run_op E Discard_pre_cond_states m = discard_pre_cond_states m"
| "run_op E Push_fake_cur_stree m = push_fake_cur_stree m"
| "run_op E Free_fake_cur_stree m = free_fake_cur_stree m"
| "run_op E Push_cond_stacks m = push_cond_stacks m"
| "run_op E Fold_in_set_states m = fold_in_set_states m"
| "run_op E Free_set_states m = free_set_states m"
| "run_op E Use_cond_true_states m = use_cond_true_states m"
| "run_op E Use_cond_false_states m = use_cond_false_states m"
| "run_op E Use_cond_states m = use_cond_states m"
| "run_op E Negate_cond_stacks m = Some (negate_cond_stacks m)"
| "run_op E And_cond_states m = and_cond_states E m"
| "run_op E Or_cond_states m = or_cond_states E m"
| "run_op E Push_true_states m = push_true_states m"
| "run_op E Use_false_states m = use_false_states m"
| "run_op E Discard_false_states m = discard_false_states m"
| "run_op E Merge_false_states m = merge_false_states E m"
| "run_op E Merge_true_states m = merge_true_states E m"
| "run_op E Push_continues m = Some (push_continues m)"
| "run_op E Discard_continues m = discard_continues m"
| "run_op E Process_continues m = process_continues E m"
| "run_op E Merge_continues m = merge_continues E m"
| "run_op E Push_breaks m = Some (push_breaks m)"
| "run_op E Process_breaks m = process_breaks E m"
| "run_op E Merge_breaks m = merge_breaks E m"
| "run_op E Use_breaks m = use_breaks m"
| "run_op E (Save_switch_states rl) m = save_switch_states rl m"
| "run_op E Discard_switches m = discard_switches m"
| "run_op E Push_default m = Some (push_default m)"
| "run_op E Set_default m = set_default m"
| "run_op E Pop_default m = map_option snd (pop_default m)"
| "run_op E (Save_gotos nm sy) m = save_gotos E nm sy m"
| "run_op E (Merge_gotos nm sy) m = merge_gotos E nm sy m"
| "run_op E Clear_all_states m = clear_all_states m"

fun run_ops :: "env \<Rightarrow> op list \<Rightarrow> machine \<Rightarrow> machine option" where
  "run_ops E [] m = Some m"
| "run_ops E (x # xs) m = do { m \<leftarrow> run_op E x m; run_ops E xs m }"

text \<open>The state at the start of the program.\<close>

definition init_machine :: "nat \<Rightarrow> machine" where
  "init_machine l =
     \<lparr>cur_stree = None, true_stack = [], false_stack = [], pre_cond_stack = [], cond_true_stack = [],
      cond_false_stack = [], fake_cur_stree_stack = [], break_stack = [], fake_break_stack = [],
      switch_stack = [], default_stack = [], continue_stack = [], goto_stack = [], backup = [], all_pools = [],
      fast_overlay = None, fast_math_only = 0, remaining_cases = [], read_only = 0, in_goto_merge = 0,
      in_unmatched_hook = 0, fake_state_cnt = 0, stree_id_counter = 0,
      sms = \<lparr>next_sm = 0, sm_state_counter = 0, lineno = l\<rparr>,
      strees = \<lparr>trees = Map.empty, next_addr = 0, unfree_stree = 0\<rparr>, pool = (\<lambda>_. None), perrors = []\<rparr>"

end
