(* ===== verification/Conditions.thy ===== *)
theory Conditions
  imports Parse_Tree State_Ops
begin

text \<open>
  The conditions of \<^verbatim>\<open>src/smatch_conditions.c\<close>: how the parts of a condition are walked and how the states
  of its two outcomes are put together. Each function takes the walks over the parts of the
  expression as arguments; the theory \<^verbatim>\<open>Flow\<close> ties them together.
\<close>

section \<open>The state of the walk\<close>

text \<open>
  The static variables of \<^verbatim>\<open>src/smatch_flow.c\<close> and \<^verbatim>\<open>src/smatch_conditions.c\<close> that the walk uses, around
  the state of the analysis.
\<close>

record flow =
  mach :: machine
  post_op_stack :: "expr list"
  switch_expr_stack :: "expr list"
  loop_num :: nat
  loop_count :: "32 word"
  bail_on_rest_of_function :: bool
  last_goto_statement_handled :: bool
  confidence_implied :: int
  inside_condition :: int
  in_pre_condition :: int
  expr_stmt_count :: int
  indent_cnt :: int

text \<open>
  The points at which the walk calls the checkers (\<^verbatim>\<open>__pass_to_client\<close>) or code that is not modelled: the
  initializers of a declaration, the functions that are called at the end of a scope, an inlined
  function, an assignment of a condition, the made up assignments to the members of a structure, and
  what \<^verbatim>\<open>src/smatch_extra.c\<close> does at a loop.
\<close>

datatype hook =
    EXPR_HOOK | EXPR_HOOK_AFTER | STMT_HOOK | STMT_HOOK_AFTER | SYM_HOOK | STRING_HOOK | DEREF_HOOK | OP_HOOK | LOGIC_HOOK
  | BINOP_HOOK | CAST_HOOK | SELECT_HOOK | CONDITION_HOOK | WHOLE_CONDITION_HOOK | RAW_ASSIGNMENT_HOOK | ASSIGNMENT_HOOK
  | ASSIGNMENT_HOOK_AFTER | CALL_ASSIGNMENT_HOOK | MACRO_ASSIGNMENT_HOOK | FUNCTION_CALL_HOOK_BEFORE | FUNCTION_CALL_HOOK
  | CALL_HOOK_AFTER_INLINE | PRELOOP_HOOK | POSTLOOP_HOOK | AFTER_LOOP_NO_BREAKS | ASM_HOOK | RETURN_HOOK
  | FUNC_DEF_HOOK | AFTER_DEF_HOOK | END_FUNC_HOOK | AFTER_FUNC_HOOK

datatype client_call =
    Pass_expr hook "expr option"
  | Pass_stmt hook stmt
  | Pass_case range_list
  | Pass_func hook
  | Split_declaration nat
  | Call_scope_hooks
  | Call_all_scope_hooks
  | Parse_inline expr
  | Handle_condition_assigns expr expr
  | Fake_struct_member_assignments expr
  | Extra_handle_canonical_loops stmt
  | Extra_pre_loop_hook_after stmt

text \<open>
  The rest of the program, as the walk sees it: the operations on the state that are made at such a
  point, and the answers about expressions in a given state. A made up assignment for a call or an
  argument is left out, is there already, or is made.
\<close>

datatype fake_choice = Fake_none | Fake_plain | Fake_assign

record world =
  the_env :: env
  option_project :: project_type
  pass_to_client :: "client_call \<Rightarrow> flow \<Rightarrow> op list"
  get_value :: "expr \<Rightarrow> flow \<Rightarrow> sval option"
  get_type :: "expr \<Rightarrow> ctype"
  is_array :: "expr \<Rightarrow> bool"
  plain_cast :: "expr \<Rightarrow> bool"
  known_condition_true :: "expr option \<Rightarrow> flow \<Rightarrow> bool"
  known_condition_false :: "expr option \<Rightarrow> flow \<Rightarrow> bool"
  implied_condition_true :: "expr option \<Rightarrow> flow \<Rightarrow> bool"
  implied_condition_false :: "expr option \<Rightarrow> flow \<Rightarrow> bool"
  once_through_hooks :: "stmt \<Rightarrow> flow \<Rightarrow> bool"
  canonical_states :: "stmt \<Rightarrow> flow \<Rightarrow> set_call list"
  get_absolute_rl :: "expr \<Rightarrow> flow \<Rightarrow> range_list"
  separate_and_filter :: "expr \<Rightarrow> range_list \<Rightarrow> nat option \<Rightarrow> machine \<Rightarrow> (nat option \<times> machine) option"
  case_sets :: "expr \<Rightarrow> range_list \<Rightarrow> machine \<Rightarrow> set_call list"
  skip_expr :: "expr \<Rightarrow> flow \<Rightarrow> bool"
  give_up :: "flow \<Rightarrow> bool"
  is_skipped_function :: bool
  fake_call :: "expr \<Rightarrow> flow \<Rightarrow> fake_choice"
  fake_arg :: "expr option \<Rightarrow> expr \<Rightarrow> flow \<Rightarrow> fake_choice"
  expr_ptr :: "expr \<Rightarrow> string"
  inlinable :: "expr \<Rightarrow> flow \<Rightarrow> bool"
  is_noreturn_func :: "expr \<Rightarrow> bool"
  has_parent :: "expr \<Rightarrow> flow \<Rightarrow> bool"
  get_address :: "expr \<Rightarrow> flow \<Rightarrow> bool"
  returns_void :: bool
  func_stmts :: "stmt list"

type_synonym walk = "flow \<Rightarrow> flow option"
type_synonym cond_walk = "bool option \<Rightarrow> flow \<Rightarrow> (bool option \<times> flow) option"

definition on :: "(machine \<Rightarrow> machine option) \<Rightarrow> walk" where
  "on f w = map_option (\<lambda>m. w\<lparr>mach := m\<rparr>) (f (mach w))"

definition visit :: "world \<Rightarrow> client_call \<Rightarrow> walk" where
  "visit W v f = on (run_ops (the_env W) (pass_to_client W v f)) f"

definition pass_expr :: "world \<Rightarrow> hook \<Rightarrow> expr \<Rightarrow> walk" where
  "pass_expr W h e = visit W (Pass_expr h (Some e))"

fun pass_post_ops :: "world \<Rightarrow> expr list \<Rightarrow> walk" where
  "pass_post_ops W [] f = Some f"
| "pass_post_ops W (e # es) f = do { f \<leftarrow> pass_expr W OP_HOOK e f; pass_post_ops W es f }"

definition process_post_op_stack :: "world \<Rightarrow> walk" where
  "process_post_op_stack W f =
     do { f \<leftarrow> pass_post_ops W (post_op_stack f) f; Some (f\<lparr>post_op_stack := []\<rparr>) }"

definition expr_is_zero :: "world \<Rightarrow> expr \<Rightarrow> flow \<Rightarrow> bool" where
  "expr_is_zero W e f = (case get_value W e f of Some v \<Rightarrow> sv_val v = 0 | None \<Rightarrow> False)"

section \<open>Stripping expressions\<close>

text \<open>\<^verbatim>\<open>handle__builtin_choose_expr\<close>: the argument that is chosen.\<close>

definition chosen_arg :: "world \<Rightarrow> expr \<Rightarrow> expr list \<Rightarrow> flow \<Rightarrow> expr option" where
  "chosen_arg W fn args f =
     (if sym_name_is ''__builtin_choose_expr'' fn then
        (case args of
           c # e1 # e2 # _ \<Rightarrow> map_option (\<lambda>v. if sv_val v \<noteq> 0 then e1 else e2) (get_value W c f)
         | _ \<Rightarrow> None)
      else None)"

definition first_arg_builtin :: "expr \<Rightarrow> bool" where
  "first_arg_builtin fn =
     (sym_name_is ''__builtin_expect'' fn \<or> sym_name_is ''__builtin_bswap16'' fn
      \<or> sym_name_is ''__builtin_bswap32'' fn \<or> sym_name_is ''__builtin_bswap64'' fn)"

text \<open>The side of an addition of zero that is kept; a wider zero is not dropped.\<close>

definition strip_plus_zero :: "world \<Rightarrow> flow \<Rightarrow> nat \<Rightarrow> opcode \<Rightarrow> expr \<Rightarrow> expr \<Rightarrow> expr option" where
  "strip_plus_zero W f nest c l r =
     (let lt = get_type W l; rt = get_type W r
      in if 4 < nest \<or> c \<noteq> Ch CHR ''+'' \<or> \<not> is_array W l \<or> lt = None \<or> rt = None then None
         else if expr_is_zero W l f then
           (if 31 < type_positive_bits lt \<and> type_positive_bits rt < type_positive_bits lt then None else Some r)
         else if expr_is_zero W r f then
           (if 31 < type_positive_bits rt \<and> type_positive_bits lt < type_positive_bits rt then None else Some l)
         else None)"

text \<open>Nested parentheses are passed in a loop.\<close>

fun inner_parens :: "opcode \<Rightarrow> expr \<Rightarrow> expr" where
  "inner_parens c (EXPR_PREOP d u) =
     (if c = Ch CHR ''('' \<and> d = Ch CHR ''('' then inner_parens d u else EXPR_PREOP d u)"
| "inner_parens c u = u"

lemma inner_parens_size: "esize (inner_parens c u) \<le> esize u"
  by (induction c u rule: inner_parens.induct) auto

lemma chosen_arg_size: "chosen_arg W fn args f = Some a \<Longrightarrow> esize a < esize (EXPR_CALL fn args)"
  by (auto simp: chosen_arg_def split: if_splits list.splits)

lemma strip_plus_zero_size: "strip_plus_zero W f k c l r = Some e \<Longrightarrow> esize e < esize l + esize r + 2"
  by (auto simp: strip_plus_zero_def Let_def split: if_splits)

text \<open>
  \<^verbatim>\<open>strip_expr_helper\<close> of \<^verbatim>\<open>src/smatch_helper.c\<close>. Its result comes with the counter \<^verbatim>\<open>nest\<close>. Without \<open>cast\<close>, a cast is
  passed only when it does not change the type. The size that is asked for in \<open>*&x\<close> is always smaller
  (\<open>strip_size\<close>). The built-in functions that stand for their first argument have one here. The cache of
  the last results and \<^verbatim>\<open>_Generic\<close> are not modelled.
\<close>

function strip_expr_helper :: "world \<Rightarrow> flow \<Rightarrow> bool \<Rightarrow> nat \<Rightarrow> expr \<Rightarrow> expr \<times> nat" where
  "strip_expr_helper W f cast nest e =
     (let nest = nest + 1
      in case e of
           EXPR_CAST u \<Rightarrow> if \<not> cast \<and> \<not> plain_cast W e then (e, nest) else strip_expr_helper W f cast nest u
         | EXPR_PREOP c u \<Rightarrow>
             (let u = inner_parens c u
              in if c = Ch CHR ''('' \<and> is_block u then (EXPR_PREOP c u, nest)
                 else
                   (case strip_expr_helper W f cast nest u of
                      (v, nest) \<Rightarrow>
                        (case v of
                           EXPR_PREOP d x \<Rightarrow>
                             if c = Ch CHR ''*'' \<and> d = Ch CHR ''&'' then
                               (if is_sym SYM_ARRAY (get_type W x) \<or> \<not> esize x < esize e then (EXPR_PREOP c u, nest)
                                else strip_expr_helper W f cast nest x)
                             else if c = Ch CHR ''('' then (v, nest) else (EXPR_PREOP c u, nest)
                         | _ \<Rightarrow> if c = Ch CHR ''('' then (v, nest) else (EXPR_PREOP c u, nest))))
         | EXPR_SELECT a t d \<Rightarrow>
             if known_condition_true W (Some a) f then strip_expr_helper W f cast nest (case t of Some t \<Rightarrow> t | None \<Rightarrow> a)
             else if known_condition_false W (Some a) f then strip_expr_helper W f cast nest d
             else (e, nest)
         | EXPR_CALL fn args \<Rightarrow>
             if first_arg_builtin fn then
               (case args of [] \<Rightarrow> (e, nest) | a # _ \<Rightarrow> strip_expr_helper W f cast nest a)
             else
               (case chosen_arg W fn args f of None \<Rightarrow> (e, nest) | Some a \<Rightarrow> (fst (strip_expr_helper W f True 0 a), nest))
         | EXPR_BINOP c l r \<Rightarrow>
             (case strip_plus_zero W f nest c l r of None \<Rightarrow> (e, nest) | Some x \<Rightarrow> strip_expr_helper W f cast nest x)
         | _ \<Rightarrow> (e, nest))"
  by pat_completeness auto
termination
  by (relation "measure (\<lambda>(W, f, cast, nest, e). esize e)")
    (auto dest: chosen_arg_size strip_plus_zero_size simp: le_imp_less_Suc inner_parens_size split: option.splits)

declare strip_expr_helper.simps [simp del]

definition strip_expr :: "world \<Rightarrow> flow \<Rightarrow> expr \<Rightarrow> expr" where
  "strip_expr W f e = fst (strip_expr_helper W f True 0 e)"

definition strip_no_cast :: "world \<Rightarrow> flow \<Rightarrow> expr \<Rightarrow> expr" where
  "strip_no_cast W f e = fst (strip_expr_helper W f False 0 e)"

lemma strip_helper_size: "esize (fst (strip_expr_helper W f cast k e)) \<le> esize e"
proof (induction W f cast k e rule: strip_expr_helper.induct)
  case (1 W f cast k e)
  show ?case
  proof (cases e)
    case (EXPR_PREOP c u)
    define v where "v = inner_parens c u"
    have v: "esize v \<le> esize u" by (simp add: v_def inner_parens_size)
    show ?thesis
    proof (cases "c = Ch CHR ''('' \<and> is_block v")
      case False
      have IH: "esize (fst (strip_expr_helper W f cast (k + 1) v)) \<le> esize v"
        using 1(1) [OF refl EXPR_PREOP refl] False by (simp add: v_def)
      obtain w i where w: "strip_expr_helper W f cast (k + 1) v = (w, i)" by force
      have wu: "esize w \<le> esize u" using IH w v by simp
      have deref: "esize (fst (strip_expr_helper W f cast i x)) \<le> esize x"
        if "w = EXPR_PREOP (Ch CHR ''&'') x" "c = Ch CHR ''*''" "\<not> is_sym SYM_ARRAY (get_type W x)" "esize x < esize e" for x
        using 1(2) [OF refl EXPR_PREOP refl] that w False by (simp add: v_def)
      show ?thesis
      proof (cases "\<exists>x. w = EXPR_PREOP (Ch CHR ''&'') x \<and> c = Ch CHR ''*''")
        case True
        then obtain x where x: "w = EXPR_PREOP (Ch CHR ''&'') x" "c = Ch CHR ''*''" by blast
        then show ?thesis
          using deref [OF x] wu v w EXPR_PREOP by (auto simp: strip_expr_helper.simps [of _ _ _ _ "EXPR_PREOP _ u"] v_def)
      qed (use wu v w False EXPR_PREOP in
             \<open>auto simp: strip_expr_helper.simps [of _ _ _ _ "EXPR_PREOP _ u"] v_def Let_def split: expr.splits\<close>)
    next
      case True
      then show ?thesis using v EXPR_PREOP by (subst strip_expr_helper.simps) (auto simp: v_def Let_def)
    qed
  next
    case (EXPR_CAST u)
    show ?thesis using 1(4) [OF refl EXPR_CAST] by (subst strip_expr_helper.simps) (auto simp: EXPR_CAST)
  next
    case (EXPR_SELECT a t d)
    show ?thesis using 1(5,6) [OF refl EXPR_SELECT]
      by (subst strip_expr_helper.simps) (auto simp: EXPR_SELECT split: option.splits)
  next
    case (EXPR_CALL fn args)
    have "esize a \<le> esize e \<and> esize (fst (strip_expr_helper W f True 0 a)) \<le> esize a"
      if "chosen_arg W fn args f = Some a" "\<not> first_arg_builtin fn" for a
      using chosen_arg_size [OF that(1)] 1(8) [OF refl EXPR_CALL that(2,1)] EXPR_CALL by simp
    then show ?thesis using 1(7) [OF refl EXPR_CALL]
      by (subst strip_expr_helper.simps) (fastforce simp: EXPR_CALL split: option.splits list.splits)
  next
    case (EXPR_BINOP c l r)
    have "esize x \<le> esize e \<and> esize (fst (strip_expr_helper W f cast (k + 1) x)) \<le> esize x"
      if "strip_plus_zero W f (k + 1) c l r = Some x" for x
      using strip_plus_zero_size [OF that] 1(3) [OF refl EXPR_BINOP that] EXPR_BINOP by simp
    then show ?thesis by (subst strip_expr_helper.simps) (fastforce simp: EXPR_BINOP split: option.splits)
  qed (subst strip_expr_helper.simps, simp)+
qed

lemma strip_size: "esize (strip_expr W f e) \<le> esize e" "esize (strip_no_cast W f e) \<le> esize e"
  by (simp_all add: strip_expr_def strip_no_cast_def strip_helper_size)

text \<open>\<^verbatim>\<open>strip_expr_cast\<close>: the expression without casts, and whether there was one that changes the type.\<close>

function strip_expr_cast :: "world \<Rightarrow> flow \<Rightarrow> expr \<Rightarrow> expr \<times> bool" where
  "strip_expr_cast W f e =
     (case strip_no_cast W f e of EXPR_CAST u \<Rightarrow> (fst (strip_expr_cast W f u), True) | r \<Rightarrow> (r, False))"
  by pat_completeness auto
termination
proof (relation "measure (\<lambda>(W, f, e). esize e)")
  show "((W, f, u), W, f, e) \<in> measure (\<lambda>(W, f, e). esize e)" if "strip_no_cast W f e = EXPR_CAST u" for W f e u
    using strip_size(2) [of W f e] that by simp
qed simp

declare strip_expr_cast.simps [simp del]

lemma strip_cast_size: "esize (fst (strip_expr_cast W f e)) \<le> esize e"
proof (induction W f e rule: strip_expr_cast.induct)
  case (1 W f e)
  then show ?case using strip_size(2) [of W f e] by (cases "strip_no_cast W f e") (auto simp: strip_expr_cast.simps [of _ _ e])
qed

section \<open>Parts of conditions\<close>

text \<open>The C variable \<^verbatim>\<open>known_tf\<close> is -1 when nothing is known, which is \<open>None\<close> here.\<close>

definition negate_tf :: "bool option \<Rightarrow> bool option" where
  "negate_tf known_tf = map_option Not known_tf"

definition handle_negation :: "cond_walk \<Rightarrow> cond_walk" where
  "handle_negation sub known_tf f =
     do {
       (known_tf, f) \<leftarrow> sub known_tf f;
       f \<leftarrow> on (\<lambda>m. Some (negate_cond_stacks m)) f;
       Some (negate_tf known_tf, f)
     }"

text \<open>An expression that is missing.\<close>

definition null_condition :: cond_walk where
  "null_condition known_tf f = do { f \<leftarrow> on fold_in_set_states f; Some (known_tf, f) }"

definition handle_logical :: "world \<Rightarrow> bool \<Rightarrow> cond_walk \<Rightarrow> cond_walk \<Rightarrow> cond_walk" where
  "handle_logical W is_and split_l split_r known_tf f =
     do {
       (left_tf, f) \<leftarrow> split_l None f;
       f \<leftarrow> (if is_and then on use_cond_true_states f else on use_cond_false_states f);
       f \<leftarrow> on push_cond_stacks f;
       f \<leftarrow> on save_pre_cond_states f;
       (right_tf, f) \<leftarrow> split_r None f;
       f \<leftarrow> on discard_pre_cond_states f;
       f \<leftarrow> (if is_and then on (and_cond_states (the_env W)) f else on (or_cond_states (the_env W)) f);
       f \<leftarrow> on use_cond_true_states f;
       Some (if is_and then
               (if left_tf = Some False \<or> right_tf = Some False then Some False
                else if left_tf = Some True \<and> right_tf = Some True then Some True else known_tf)
             else
               (if left_tf = Some False \<and> right_tf = Some False then Some False
                else if left_tf = Some True \<or> right_tf = Some True then Some True else known_tf), f)
     }"

text \<open>The two trees of a selection are combined from the condition, what was set, and the branch.\<close>

definition combine_strees ::
  "nat option \<Rightarrow> nat option \<Rightarrow> nat option \<Rightarrow> machine \<Rightarrow> (nat option \<times> machine) option" where
  "combine_strees orig fake new m =
     do {
       (ret, m) \<leftarrow> overwrite_tree orig None m;
       (ret, m) \<leftarrow> overwrite_tree fake ret m;
       (ret, m) \<leftarrow> overwrite_tree new ret m;
       m \<leftarrow> free_tree new m;
       Some (ret, m)
     }"

text \<open>One branch of a selection, walked in the states of one outcome of its condition.\<close>

definition select_branch ::
  "world \<Rightarrow> bool \<Rightarrow> nat option \<Rightarrow> bool \<Rightarrow> cond_walk \<Rightarrow> flow \<Rightarrow>
     (bool option \<times> nat option \<times> nat option \<times> nat option \<times> flow) option" where
  "select_branch W branch a post_ops sub f =
     do {
       f \<leftarrow> on (use_cond_stack branch) f;
       f \<leftarrow> on push_cond_stacks f;
       f \<leftarrow> on push_fake_cur_stree f;
       (tf, f) \<leftarrow> sub None f;
       f \<leftarrow> (if post_ops then process_post_op_stack W f else Some f);
       (fake, m) \<leftarrow> pop_fake_cur_stree (mach f);
       let (p, m) = pop_cond_true_stack m;
       (b_T, m) \<leftarrow> combine_strees a fake p m;
       let (p, m) = pop_cond_false_stack m;
       (b_F, m) \<leftarrow> combine_strees a fake p m;
       Some (tf, fake, b_T, b_F, f\<lparr>mach := m\<rparr>)
     }"

text \<open>
  When the outcome of a branch is known in advance, the two trees are replaced. If both outcomes
  are known, the second wins.
\<close>

definition select_known ::
  "bool \<Rightarrow> nat option \<Rightarrow> nat option \<Rightarrow> nat option \<times> nat option \<Rightarrow> machine \<Rightarrow> ((nat option \<times> nat option) \<times> machine) option" where
  "select_known outcome a fake pair m =
     do {
       m \<leftarrow> free_tree (fst pair) m;
       m \<leftarrow> free_tree (snd pair) m;
       (p, m) \<leftarrow> clone_tree a m;
       (p, m) \<leftarrow> overwrite_tree fake p m;
       Some (if outcome then (p, None) else (None, p), m)
     }"

definition select_implied ::
  "world \<Rightarrow> expr option \<Rightarrow> nat option \<Rightarrow> nat option \<Rightarrow> nat option \<times> nat option \<Rightarrow> flow \<Rightarrow>
     ((nat option \<times> nat option) \<times> flow) option" where
  "select_implied W e a fake pair f =
     do {
       (pair, m) \<leftarrow> (if implied_condition_true W e f then select_known True a fake pair (mach f) else Some (pair, mach f));
       let f = f\<lparr>mach := m\<rparr>;
       (pair, m) \<leftarrow> (if implied_condition_false W e f then select_known False a fake pair (mach f) else Some (pair, mach f));
       Some (pair, f\<lparr>mach := m\<rparr>)
     }"

fun set_cond_sms :: "bool \<Rightarrow> sm_state list \<Rightarrow> machine \<Rightarrow> machine option" where
  "set_cond_sms branch [] m = Some m"
| "set_cond_sms branch (x # xs) m =
     do {
       m \<leftarrow> (if branch then set_true_false_sm (Some x) None m else set_true_false_sm None (Some x) m);
       set_cond_sms branch xs m
     }"

definition handle_select ::
  "world \<Rightarrow> expr option \<Rightarrow> expr \<Rightarrow> cond_walk \<Rightarrow> cond_walk \<Rightarrow> cond_walk \<Rightarrow> cond_walk" where
  "handle_select W cond_true cond_false split_cond split_true split_false known_tf f =
     do {
       f \<leftarrow> on save_pre_cond_states f;
       (cond_tf, f) \<leftarrow> split_cond None f;
       (a_T, m) \<leftarrow> copy_cond_true_states (mach f);
       (a_F, m) \<leftarrow> copy_cond_false_states m;
       (true_tf, a_T_b_fake, a_T_b_T, a_T_b_F, f) \<leftarrow> select_branch W True a_T True split_true (f\<lparr>mach := m\<rparr>);
       (false_tf, a_F_c_fake, a_F_c_T, a_F_c_F, f) \<leftarrow> select_branch W False a_F False split_false f;
       f \<leftarrow> on use_pre_cond_states f;
       ((a_T_b_T, a_T_b_F), f) \<leftarrow> select_implied W cond_true a_T a_T_b_fake (a_T_b_T, a_T_b_F) f;
       ((a_F_c_T, a_F_c_F), f) \<leftarrow> select_implied W (Some cond_false) a_F a_F_c_fake (a_F_c_T, a_F_c_F) f;
       (a_T_b_T, m) \<leftarrow> merge_stree (the_env W) (\<lambda>m. a_T_b_T) a_F_c_T (mach f);
       (a_T_b_F, m) \<leftarrow> merge_stree (the_env W) (\<lambda>m. a_T_b_F) a_F_c_F m;
       let (tmp, m) = pop_cond_true_stack m;
       m \<leftarrow> free_tree tmp m;
       let (tmp, m) = pop_cond_false_stack m;
       m \<leftarrow> free_tree tmp m;
       m \<leftarrow> push_cond_stacks m;
       slist \<leftarrow> states_of (strees m) a_T_b_T;
       m \<leftarrow> set_cond_sms True slist m;
       slist \<leftarrow> states_of (strees m) a_T_b_F;
       m \<leftarrow> set_cond_sms False slist m;
       m \<leftarrow> free_set_states m;
       m \<leftarrow> free_tree a_T_b_fake m;
       m \<leftarrow> free_tree a_F_c_fake m;
       m \<leftarrow> free_tree a_F_c_T m;
       m \<leftarrow> free_tree a_F_c_F m;
       m \<leftarrow> free_tree a_T_b_T m;
       m \<leftarrow> free_tree a_T_b_F m;
       m \<leftarrow> free_tree a_T m;
       m \<leftarrow> free_tree a_F m;
       let known_tf = (if cond_tf = Some True \<and> true_tf = Some True then Some True else known_tf);
       Some (if cond_tf = Some False \<and> false_tf = Some False then Some False else known_tf, f\<lparr>mach := m\<rparr>)
     }"

definition handle_comma :: "walk \<Rightarrow> cond_walk \<Rightarrow> cond_walk" where
  "handle_comma split_l split_r known_tf f = do { f \<leftarrow> split_l f; split_r known_tf f }"

definition make_op_unsigned :: "opcode \<Rightarrow> opcode" where
  "make_op_unsigned c =
     (if c = Ch CHR ''<'' then SPECIAL_UNSIGNED_LT
      else if c = SPECIAL_LTE then SPECIAL_UNSIGNED_LTE
      else if c = Ch CHR ''>'' then SPECIAL_UNSIGNED_GT
      else if c = SPECIAL_GTE then SPECIAL_UNSIGNED_GTE
      else c)"

definition do_condition :: "world \<Rightarrow> expr \<Rightarrow> walk" where
  "do_condition W e f =
     do {
       f \<leftarrow> on fold_in_set_states f;
       f \<leftarrow> on push_fake_cur_stree f;
       f \<leftarrow> pass_expr W CONDITION_HOOK e f;
       on fold_in_set_states f
     }"

text \<open>What is known about the outcome of a condition that has no parts.\<close>

definition leaf_tf :: "world \<Rightarrow> expr \<Rightarrow> bool option \<Rightarrow> flow \<Rightarrow> bool option" where
  "leaf_tf W e known_tf f =
     (if confidence_implied f \<noteq> 0 then
        (if implied_condition_false W (Some e) f then Some False
         else if implied_condition_true W (Some e) f then Some True else known_tf)
      else if known_condition_true W (Some e) f then Some True
      else if known_condition_false W (Some e) f then Some False
      else known_tf)"

definition simple_condition :: "world \<Rightarrow> expr \<Rightarrow> walk \<Rightarrow> walk \<Rightarrow> cond_walk" where
  "simple_condition W e before after known_tf f =
     do {
       f \<leftarrow> before f;
       f \<leftarrow> do_condition W e f;
       f \<leftarrow> after f;
       f \<leftarrow> (if known_tf \<noteq> None then on (\<lambda>m. Some (sm_perror ''overwriting known tf.'' m)) f else Some f);
       let known_tf = leaf_tf W e known_tf f;
       f \<leftarrow> on push_fake_cur_stree f;
       f \<leftarrow> process_post_op_stack W f;
       f \<leftarrow> on fold_in_set_states f;
       Some (known_tf, f)
     }"

text \<open>
  A comparison. A side that is a postfix operation is walked after the condition. A comparison with
  zero is the other side or its negation. (For a zero on the right the source tests the left side
  before it walks the right one.)
\<close>

definition is_postop :: "expr \<Rightarrow> bool" where
  "is_postop e = (case e of EXPR_POSTOP _ _ \<Rightarrow> True | _ \<Rightarrow> False)"

definition is_value :: "expr \<Rightarrow> bool" where
  "is_value e = (case e of EXPR_VALUE _ \<Rightarrow> True | _ \<Rightarrow> False)"

definition simple_compare :: "world \<Rightarrow> opcode \<Rightarrow> expr \<Rightarrow> expr \<Rightarrow> walk \<Rightarrow> walk \<Rightarrow> cond_walk" where
  "simple_compare W c l r split_l split_r =
     simple_condition W (EXPR_COMPARE c l r)
       (\<lambda>f. do { f \<leftarrow> (if is_postop l then Some f else split_l f); if is_postop r then Some f else split_r f })
       (\<lambda>f. do { f \<leftarrow> (if is_postop l then split_l f else Some f); if is_postop r then split_r f else Some f })"

definition handle_compare ::
  "world \<Rightarrow> opcode \<Rightarrow> expr \<Rightarrow> expr \<Rightarrow> walk \<Rightarrow> walk \<Rightarrow> cond_walk \<Rightarrow> cond_walk \<Rightarrow> cond_walk" where
  "handle_compare W c l r split_l split_r cond_l cond_r known_tf f =
     (let c = (if type_unsigned (get_type W (EXPR_COMPARE c l r)) then make_op_unsigned c else c)
      in if expr_is_zero W l f then
           do {
             f \<leftarrow> (if is_value (strip_expr W f l) then Some f else split_l f);
             if c = SPECIAL_NOTEQUAL then cond_r known_tf f
             else if c = SPECIAL_EQUAL then handle_negation cond_r known_tf f
             else simple_compare W c l r split_l split_r known_tf f
           }
         else if expr_is_zero W r f then
           do {
             f \<leftarrow> (if is_value (strip_expr W f l) then Some f else split_r f);
             if c = SPECIAL_NOTEQUAL then cond_l known_tf f
             else if c = SPECIAL_EQUAL then handle_negation cond_l known_tf f
             else simple_compare W c l r split_l split_r known_tf f
           }
         else simple_compare W c l r split_l split_r known_tf f)"

text \<open>A block in a condition: the statements before the last, and the last as the condition.\<close>

definition handle_expr_statement_conditions :: "world \<Rightarrow> walk \<Rightarrow> walk \<Rightarrow> cond_walk \<Rightarrow> cond_walk" where
  "handle_expr_statement_conditions W init label last_cond known_tf f =
     do {
       f \<leftarrow> init (f\<lparr>expr_stmt_count := expr_stmt_count f + 1\<rparr>);
       f \<leftarrow> label f;
       (known_tf, f) \<leftarrow> last_cond known_tf f;
       f \<leftarrow> visit W Call_scope_hooks f;
       Some (known_tf, f\<lparr>expr_stmt_count := expr_stmt_count f - 1\<rparr>)
     }"

section \<open>Whole conditions\<close>

definition split_whole_condition_tf :: "world \<Rightarrow> expr option \<Rightarrow> cond_walk \<Rightarrow> flow \<Rightarrow> (bool option \<times> flow) option" where
  "split_whole_condition_tf W e sub f =
     do {
       f \<leftarrow> on save_pre_cond_states (f\<lparr>inside_condition := inside_condition f + 1\<rparr>);
       f \<leftarrow> on push_cond_stacks f;
       (known_tf, f) \<leftarrow> sub None f;
       f \<leftarrow> on use_cond_states f;
       f \<leftarrow> visit W (Pass_expr WHOLE_CONDITION_HOOK e) f;
       Some (known_tf, f\<lparr>inside_condition := inside_condition f - 1\<rparr>)
     }"

definition split_whole_condition :: "world \<Rightarrow> expr option \<Rightarrow> cond_walk \<Rightarrow> walk" where
  "split_whole_condition W e sub f = map_option snd (split_whole_condition_tf W e sub f)"

definition handle_logic :: "world \<Rightarrow> expr \<Rightarrow> cond_walk \<Rightarrow> walk" where
  "handle_logic W e sub f =
     do {
       f \<leftarrow> on save_pre_cond_states (f\<lparr>inside_condition := inside_condition f + 1\<rparr>);
       f \<leftarrow> on push_cond_stacks f;
       (known_tf, f) \<leftarrow> sub None f;
       f \<leftarrow> on use_cond_states f;
       f \<leftarrow> visit W (Pass_expr WHOLE_CONDITION_HOOK (Some e)) f;
       f \<leftarrow> on (merge_false_states (the_env W)) f;
       Some (f\<lparr>inside_condition := inside_condition f - 1\<rparr>)
     }"

definition is_condition :: "world \<Rightarrow> expr \<Rightarrow> flow \<Rightarrow> bool" where
  "is_condition W e f =
     (let e = strip_expr W f e
      in get_value W e f = None \<and>
         (case e of
            EXPR_LOGICAL _ _ _ \<Rightarrow> True
          | EXPR_COMPARE _ _ _ \<Rightarrow> True
          | EXPR_PREOP c _ \<Rightarrow> c = Ch CHR ''!''
          | _ \<Rightarrow> False))"

section \<open>Assignments of selections\<close>

fun set_sms :: "sm_state list \<Rightarrow> machine \<Rightarrow> machine option" where
  "set_sms [] m = Some m"
| "set_sms (x # xs) m = do { m \<leftarrow> set_sm x m; set_sms xs m }"

text \<open>
  \<^verbatim>\<open>x = c ? a : b\<close>. The walk over the condition is given, with the walks over the assignments that are made
  up for the two branches; without a first branch the first walk follows the condition at once.
\<close>

definition handle_select_assigns ::
  "world \<Rightarrow> expr \<Rightarrow> expr \<Rightarrow> bool \<Rightarrow> walk \<Rightarrow> walk \<Rightarrow> walk \<Rightarrow> walk" where
  "handle_select_assigns W e conditional has_true split_cond assign_true assign_false f =
     do {
       f \<leftarrow> pass_expr W SELECT_HOOK e f;
       let is_true = implied_condition_true W (Some conditional) f;
       let is_false = implied_condition_false W (Some conditional) f;
       f \<leftarrow> on save_pre_cond_states f;
       f \<leftarrow> split_cond f;
       f \<leftarrow> (if has_true then Some f else do { f \<leftarrow> assign_true f; process_post_op_stack W f });
       f \<leftarrow> (if \<not> is_false \<and> has_true then do { f \<leftarrow> assign_true f; process_post_op_stack W f } else Some f);
       (final_states, m) \<leftarrow> (if is_false then Some (None, mach f) else clone_tree (cur_stree (mach f)) (mach f));
       let f = f\<lparr>mach := m\<rparr>;
       f \<leftarrow> (if is_true then on discard_false_states f
            else do { f \<leftarrow> on use_false_states f; f \<leftarrow> assign_false f; process_post_op_stack W f });
       (final_states, m) \<leftarrow> merge_stree (the_env W) (\<lambda>m. final_states) (cur_stree (mach f)) (mach f);
       m \<leftarrow> use_pre_cond_states m;
       slist \<leftarrow> states_of (strees m) final_states;
       m \<leftarrow> set_sms slist m;
       m \<leftarrow> free_tree final_states m;
       Some (f\<lparr>mach := m\<rparr>)
     }"

end
