(* ===== verification/Decimal.thy ===== *)
theory Decimal
  imports Sval
begin

text \<open>
  The text of numbers: what \<^verbatim>\<open>snprintf\<close> writes for \<^verbatim>\<open>%llu\<close> and \<^verbatim>\<open>%lld\<close>, and what \<^verbatim>\<open>strtoll\<close> and \<^verbatim>\<open>strtoull\<close> of the C
  library read. A pointer into a text is the rest of the text from there on.
\<close>

section \<open>Printing\<close>

fun digits :: "nat \<Rightarrow> string" where
  "digits n = (if n < 10 then [char_of (48 + n)] else digits (n div 10) @ [char_of (48 + n mod 10)])"

declare digits.simps [simp del]

definition print_llu :: "u64 \<Rightarrow> string" where
  "print_llu v = digits (unat v)"

definition print_lld :: "u64 \<Rightarrow> string" where
  "print_lld v = (if sint v < 0 then CHR ''-'' # digits (nat (- sint v)) else digits (nat (sint v)))"

section \<open>Reading\<close>

definition digit_val :: "char \<Rightarrow> nat option" where
  "digit_val c =
     (let n = of_char c :: nat
      in if 48 \<le> n \<and> n \<le> 57 then Some (n - 48)
         else if 97 \<le> n \<and> n \<le> 122 then Some (n - 87)
         else if 65 \<le> n \<and> n \<le> 90 then Some (n - 55)
         else None)"

definition is_digit :: "nat \<Rightarrow> char \<Rightarrow> bool" where
  "is_digit b c = (case digit_val c of None \<Rightarrow> False | Some d \<Rightarrow> d < b)"

fun scan :: "nat \<Rightarrow> nat \<Rightarrow> string \<Rightarrow> nat \<times> string" where
  "scan b acc [] = (acc, [])"
| "scan b acc (c # cs) = (if is_digit b c then scan b (acc * b + the (digit_val c)) cs else (acc, c # cs))"

definition is_space :: "char \<Rightarrow> bool" where
  "is_space c = (let n = of_char c :: nat in n = 32 \<or> 9 \<le> n \<and> n \<le> 13)"

text \<open>The base of a number, where the base 0 stands for the conventions of C.\<close>

definition strto_base :: "nat \<Rightarrow> string \<Rightarrow> nat \<times> string" where
  "strto_base base s =
     (if base \<noteq> 0 then (base, s)
      else case s of
             c # x # h # r \<Rightarrow>
               if c = CHR ''0'' \<and> (x = CHR ''x'' \<or> x = CHR ''X'') \<and> is_digit 16 h then (16, h # r)
               else if c = CHR ''0'' then (8, s) else (10, s)
           | c # r \<Rightarrow> if c = CHR ''0'' then (8, s) else (10, s)
           | [] \<Rightarrow> (10, s))"

text \<open>The sign, the magnitude and the rest; nothing is read where there is no digit.\<close>

definition strto :: "nat \<Rightarrow> string \<Rightarrow> bool \<times> nat \<times> string" where
  "strto base s =
     (let s1 = dropWhile is_space s;
          (neg, s2) = (case s1 of
                         c # r \<Rightarrow> if c = CHR ''-'' then (True, r) else if c = CHR ''+'' then (False, r) else (False, s1)
                       | [] \<Rightarrow> (False, s1));
          (b, s3) = strto_base base s2
      in case s3 of
           c # _ \<Rightarrow> if is_digit b c then (let (v, r) = scan b 0 s3 in (neg, v, r)) else (False, 0, s)
         | [] \<Rightarrow> (False, 0, s))"

text \<open>Numbers out of range give the nearest bound.\<close>

definition strtoll :: "nat \<Rightarrow> string \<Rightarrow> u64 \<times> string" where
  "strtoll base s =
     (let (neg, v, r) = strto base s
      in (word_of_int (max LLONG_MIN (min LLONG_MAX (if neg then - int v else int v))), r))"

definition strtoull :: "nat \<Rightarrow> string \<Rightarrow> u64 \<times> string" where
  "strtoull base s =
     (let (neg, v, r) = strto base s
      in (if int v > ULLONG_MAX then - 1 else if neg then - of_nat v else of_nat v, r))"

section \<open>Reading back\<close>

lemma scan_length: "length (snd (scan b acc s)) \<le> length s"
  by (induction b acc s rule: scan.induct) auto

lemma strto_base_length: "length (snd (strto_base base s)) \<le> length s"
  by (auto simp: strto_base_def split: list.splits)

lemma strto_length: "length (snd (snd (strto base s))) \<le> length s"
proof -
  define s1 where "s1 = dropWhile is_space s"
  obtain neg s2 where s2: "(case s1 of
      c # r \<Rightarrow> if c = CHR ''-'' then (True, r) else if c = CHR ''+'' then (False, r) else (False, s1) | [] \<Rightarrow> (False, s1)) = (neg, s2)"
    by force
  have "length s2 \<le> length s1" using s2 by (cases s1) (auto split: if_splits)
  then have "length s2 \<le> length s" using length_dropWhile_le [of is_space s] by (simp add: s1_def)
  moreover obtain b s3 where s3: "strto_base base s2 = (b, s3)" by force
  then have "length s3 \<le> length s2" using strto_base_length [of base s2] by simp
  moreover have "strto base s = (case s3 of
      c # _ \<Rightarrow> if is_digit b c then (let (v, r) = scan b 0 s3 in (neg, v, r)) else (False, 0, s) | [] \<Rightarrow> (False, 0, s))"
    unfolding strto_def Let_def s1_def [symmetric] s2 prod.case s3 ..
  ultimately show ?thesis using scan_length [of b 0 s3] by (cases s3) (auto simp: Let_def split: prod.splits)
qed

lemma strtoll_length: "length (snd (strtoll base s)) \<le> length s" "length (snd (strtoull base s)) \<le> length s"
  using strto_length [of base s] by (auto simp: strtoll_def strtoull_def split: prod.splits)

lemma digit_char: "d < 10 \<Longrightarrow> digit_val (char_of (48 + d)) = Some d"
  by (simp add: digit_val_def Let_def)

lemma digits_chars: "c \<in> set (digits n) \<Longrightarrow> \<exists>d :: nat. d < 10 \<and> c = char_of (48 + d)"
proof (induction n rule: digits.induct)
  case (1 n)
  show ?case
  proof (cases "n < 10")
    case True
    then show ?thesis using 1(2) by (intro exI [of _ n]) (simp add: digits.simps [of n])
  next
    case False
    then consider "c \<in> set (digits (n div 10))" | "c = char_of (48 + n mod 10)" using 1(2) by (auto simp: digits.simps [of n])
    then show ?thesis
    proof cases
      case 1
      with False "1.IH" show ?thesis by blast
    next
      case 2
      then show ?thesis by (intro exI [of _ "n mod 10"]) simp
    qed
  qed
qed

lemma char_zero: "char_of (48 :: nat) = CHR ''0''"
  by code_simp

lemma digit_val_simps [simp]:
  "digit_val CHR ''0'' = Some 0" "digit_val CHR ''-'' = None" "digit_val CHR ''+'' = None" "digit_val CHR ''('' = None"
  "digit_val CHR '')'' = None" "digit_val CHR '','' = None" "digit_val CHR ''['' = None"
  by code_simp+

lemma digits_nonempty [simp]: "digits n \<noteq> []"
  by (subst digits.simps) simp

text \<open>What may follow a number: nothing that could belong to it.\<close>

definition stops :: "string \<Rightarrow> bool" where
  "stops r \<longleftrightarrow> (case r of [] \<Rightarrow> True | c # _ \<Rightarrow> digit_val c = None)"

lemma scan_all:
  "\<forall>c \<in> set ds. is_digit b c \<Longrightarrow> scan b acc (ds @ r) = scan b (foldl (\<lambda>a c. a * b + the (digit_val c)) acc ds) r"
  by (induction ds arbitrary: acc) auto

lemma value_of_digits: "foldl (\<lambda>a c. a * 10 + the (digit_val c)) acc (digits n) = acc * 10 ^ length (digits n) + n"
proof (induction n arbitrary: acc rule: digits.induct)
  case (1 n)
  show ?case
  proof (cases "n < 10")
    case True
    then show ?thesis by (simp add: digits.simps [of n] digit_char)
  next
    case False
    have "10 * (acc * 10 ^ length (digits (n div 10)) + n div 10) + n mod 10 = acc * (10 * 10 ^ length (digits (n div 10))) + n"
      by (simp add: algebra_simps)
    then show ?thesis using False 1 by (simp add: digits.simps [of n] digit_char algebra_simps)
  qed
qed

lemma scan_digits: "stops r \<Longrightarrow> scan 10 0 (digits n @ r) = (n, r)"
proof -
  assume "stops r"
  then have "scan 10 k r = (k, r)" for k by (cases r) (auto simp: stops_def is_digit_def)
  moreover have "\<forall>c \<in> set (digits n). is_digit 10 c" by (auto dest!: digits_chars simp: is_digit_def digit_char)
  ultimately show ?thesis by (simp add: scan_all value_of_digits)
qed

text \<open>A printed number has no leading zero, so it is read to the base ten.\<close>

lemma hd_digits: "0 < n \<Longrightarrow> \<exists>d :: nat. 0 < d \<and> d < 10 \<and> hd (digits n) = char_of (48 + d)"
proof (induction n rule: digits.induct)
  case (1 n)
  show ?case
  proof (cases "n < 10")
    case True
    then show ?thesis using 1(2) by (auto simp: digits.simps [of n])
  next
    case False
    then show ?thesis using 1(1) by (simp add: digits.simps [of n])
  qed
qed

lemma strto_base_digits: "stops r \<Longrightarrow> strto_base 0 (digits n @ r) = (if n = 0 then 8 else 10, digits n @ r)"
proof (cases "n = 0")
  case True
  assume "stops r"
  then show ?thesis using True
    by (auto simp: digits.simps [of 0] char_zero strto_base_def stops_def digit_val_def split: list.splits)
next
  case False
  assume "stops r"
  obtain d :: nat and ds where "digits n = char_of (48 + d) # ds" "0 < d" "d < 10"
    using hd_digits [of n] False by (metis digits_nonempty gr0I list.collapse)
  moreover have "char_of (48 + d) \<noteq> CHR ''0''" if "0 < d" "d < 10" for d :: nat
    using that digit_char [of d] digit_val_simps(1) by force
  ultimately show ?thesis using False by (auto simp: strto_base_def split: list.splits)
qed

lemma strto_digits:
  assumes "stops r"
  shows "strto 0 (digits n @ r) = (False, n, r)" "strto 0 (CHR ''-'' # digits n @ r) = (True, n, r)"
proof -
  obtain d :: nat and ds where ds: "digits n = char_of (48 + d) # ds" "d < 10"
    by (metis digits_chars digits_nonempty list.collapse list.set_sel(1))
  let ?c = "char_of (48 + d) :: char"
  have v: "digit_val ?c = Some d" by (rule digit_char [OF ds(2)])
  have c: "\<not> is_space ?c" using v by (auto simp: digit_val_def is_space_def Let_def split: if_splits)
  have signs: "?c \<noteq> CHR ''-''" "?c \<noteq> CHR ''+''" by (rule notI, use v in simp)+
  have b: "strto_base 0 (?c # ds @ r) = (if n = 0 then 8 else 10, ?c # ds @ r)"
    using strto_base_digits [OF assms, of n] ds(1) by simp
  have s: "scan (if n = 0 then 8 else 10) 0 (?c # ds @ r) = (n, r)" "is_digit (if n = 0 then 8 else 10) ?c"
  proof -
    have "scan 8 0 (digits 0 @ r) = (0, r)" using assms
      by (cases r) (auto simp: digits.simps [of 0] is_digit_def digit_val_def stops_def)
    moreover have "d = 0" if "n = 0" using ds(1) v that by (simp add: digits.simps [of 0] digit_val_def)
    ultimately show "scan (if n = 0 then 8 else 10) 0 (?c # ds @ r) = (n, r)" "is_digit (if n = 0 then 8 else 10) ?c"
      using scan_digits [OF assms, of n] ds v by (auto simp: is_digit_def)
  qed
  show "strto 0 (digits n @ r) = (False, n, r)"
    using c signs b s by (simp add: strto_def ds(1) Let_def del: scan.simps split: prod.splits)
  have "\<not> is_space CHR ''-''" by (simp add: is_space_def)
  then show "strto 0 (CHR ''-'' # digits n @ r) = (True, n, r)"
    using c signs b s by (simp add: strto_def ds(1) Let_def del: scan.simps split: prod.splits)
qed

lemma strtoll_print: "stops r \<Longrightarrow> strtoll 0 (print_lld v @ r) = (v, r)"
proof -
  assume r: "stops r"
  have "LLONG_MIN \<le> sint v" "sint v \<le> LLONG_MAX" using sint_range_size [of v] by (simp_all add: LLONG_MIN_def LLONG_MAX_def word_size)
  then show ?thesis by (auto simp: print_lld_def strtoll_def strto_digits [OF r])
qed

lemma strtoull_print: "stops r \<Longrightarrow> strtoull 0 (print_llu v @ r) = (v, r)"
proof -
  assume r: "stops r"
  have "int (unat v) \<le> ULLONG_MAX" using uint64_bounds [of v] by (simp add: ULLONG_MAX_def)
  then show ?thesis by (simp add: print_llu_def strtoull_def strto_digits [OF r])
qed

end
