(* ===== verification/Flow.thy ===== *)
theory Flow
  imports Conditions Decimal
begin

text \<open>
  The walk of \<^verbatim>\<open>src/smatch_flow.c\<close> over the statements and expressions of a function. As for conditions, a
  function for one kind of node takes the walks over its parts; the mutually recursive functions at
  the end put them together, by the shape of the tree.
\<close>

unbundle bit_operations_syntax

section \<open>Statements\<close>

definition path_null :: "flow \<Rightarrow> bool" where
  "path_null f = path_is_null (mach f)"

definition split_label_stmt :: "world \<Rightarrow> string \<Rightarrow> nat \<Rightarrow> walk" where
  "split_label_stmt W nm sy f =
     on (merge_gotos (the_env W) nm sy) (f\<lparr>loop_count := loop_count f OR 0x0800000\<rparr>)"

text \<open>The statement of an unknown value is made up when a function is given up.\<close>

definition fake_a_return :: "world \<Rightarrow> walk" where
  "fake_a_return W f =
     do {
       f \<leftarrow> on nullify_path f;
       f \<leftarrow> on unnullify_path f;
       f \<leftarrow> visit W (Pass_expr RETURN_HOOK (if returns_void W then None else Some (EXPR_OTHER 0))) f;
       on nullify_path f
     }"

definition free_parsed_call_stuff :: "bool \<Rightarrow> walk" where
  "free_parsed_call_stuff free_fake_states f =
     (if free_fake_states then on (discard_fake_states None) f else Some f)"

text \<open>The frame of \<^verbatim>\<open>__split_stmt\<close> around one kind of statement.\<close>

definition enter_stmt :: "world \<Rightarrow> stmt \<Rightarrow> bool \<Rightarrow> walk \<Rightarrow> walk" where
  "enter_stmt W s skip_after inner f =
     (if bail_on_rest_of_function f \<or> is_skipped_function W then Some f
      else if give_up W f then fake_a_return W (f\<lparr>bail_on_rest_of_function := True\<rparr>)
      else do {
        let f = f\<lparr>indent_cnt := indent_cnt f + 1\<rparr>;
        f \<leftarrow> free_parsed_call_stuff (indent_cnt f = 1) f;
        f \<leftarrow> visit W (Pass_stmt STMT_HOOK s) f;
        f \<leftarrow> inner f;
        f \<leftarrow> (if skip_after then Some f else visit W (Pass_stmt STMT_HOOK_AFTER s) f);
        let f = f\<lparr>indent_cnt := indent_cnt f - 1\<rparr>;
        f \<leftarrow> free_parsed_call_stuff (indent_cnt f = 1) f;
        process_post_op_stack W f
      })"

definition split_if_statement :: "(flow \<Rightarrow> (bool option \<times> flow) option) \<Rightarrow> world \<Rightarrow> walk \<Rightarrow> walk \<Rightarrow> walk" where
  "split_if_statement split_cond W if_true if_false f =
     do {
       (known_tf, f) \<leftarrow> split_cond f;
       if known_tf = Some True then do { f \<leftarrow> if_true f; on discard_false_states f }
       else if known_tf = Some False then do { f \<leftarrow> on use_false_states f; if_false f }
       else do {
         f \<leftarrow> if_true f;
         f \<leftarrow> on push_true_states f;
         f \<leftarrow> on use_false_states f;
         f \<leftarrow> if_false f;
         on (merge_true_states (the_env W)) f
       }
     }"

section \<open>Loops\<close>

definition get_loop_name :: "nat \<Rightarrow> string" where
  "get_loop_name num = ''-loop'' @ digits num"

definition is_forever_loop :: "world \<Rightarrow> stmt \<Rightarrow> flow \<Rightarrow> bool" where
  "is_forever_loop W s f =
     (case (case iter_pre_condition s of Some e \<Rightarrow> Some (strip_expr W f e) | None \<Rightarrow> iter_post_condition s) of
        None \<Rightarrow> True
      | Some e \<Rightarrow> (case get_value W e f of Some v \<Rightarrow> sv_val v \<noteq> 0 | None \<Rightarrow> False))"

text \<open>A loop that the kernel's \<^verbatim>\<open>scoped_guard()\<close> makes: it ends by a jump to a label near its end.\<close>

definition get_scoped_guard_label :: "stmt \<Rightarrow> string option" where
  "get_scoped_guard_label s =
     (case s of
        STMT_IF _ (Some (STMT_COMPOUND ss)) _ \<Rightarrow>
          (case dropWhile (\<lambda>s. case s of STMT_LABEL _ _ _ \<Rightarrow> False | _ \<Rightarrow> True) (take 3 (rev ss)) of
             STMT_LABEL nm _ _ # _ \<Rightarrow> Some nm
           | _ \<Rightarrow> None)
      | _ \<Rightarrow> None)"

definition is_scoped_guard_goto :: "world \<Rightarrow> stmt \<Rightarrow> stmt option \<Rightarrow> flow \<Rightarrow> bool" where
  "is_scoped_guard_goto W body post f =
     (option_project W = PROJ_KERNEL \<and>
      (case (get_scoped_guard_label body, post) of
         (Some label, Some (STMT_EXPRESSION (Some e))) \<Rightarrow>
           (case get_expression_statement (strip_expr W f e) of
              Some (STMT_GOTO _ (Goto_label nm _) _ # _) \<Rightarrow> nm = label
            | _ \<Rightarrow> False)
       | _ \<Rightarrow> False))"

definition handle_pre_loop ::
  "world \<Rightarrow> stmt \<Rightarrow> nat \<Rightarrow> walk \<Rightarrow> (flow \<Rightarrow> (bool option \<times> flow) option) \<Rightarrow> walk \<Rightarrow> walk \<Rightarrow> walk" where
  "handle_pre_loop W s syms pre_statement split_cond body post_statement f =
     do {
       let E = the_env W;
       let loop_name = get_loop_name (loop_num f);
       let f = f\<lparr>loop_num := loop_num f + 1\<rparr>;
       f \<leftarrow> visit W (Split_declaration syms) f;
       f \<leftarrow> (if iter_pre_statement s = None then Some f else pre_statement f);
       let f = f\<lparr>loop_count := loop_count f + 1\<rparr>;
       f \<leftarrow> on (\<lambda>m. Some (push_breaks (push_continues m))) f;
       f \<leftarrow> on (merge_gotos E loop_name 0) f;
       f \<leftarrow> visit W (Pass_stmt PRELOOP_HOOK s) f;
       f \<leftarrow> visit W (Extra_handle_canonical_loops s) f;
       let sets = canonical_states W s f;
       (tf, f) \<leftarrow> split_cond (f\<lparr>in_pre_condition := in_pre_condition f + 1, confidence_implied := confidence_implied f + 1\<rparr>);
       let f = f\<lparr>confidence_implied := confidence_implied f - 1\<rparr>;
       let once_through = (iter_pre_condition s = None \<or> tf = Some True \<or> once_through_hooks W s f);
       let f = f\<lparr>in_pre_condition := in_pre_condition f - 1\<rparr>;
       f \<leftarrow> on (run_sets sets) f;
       f \<leftarrow> body f;
       f \<leftarrow> (if is_scoped_guard_goto W (iter_statement s) (iter_post_statement s) f then
              do {
                f \<leftarrow> on (merge_continues E) f;
                f \<leftarrow> on (save_gotos E loop_name 0) f;
                f \<leftarrow> (if once_through then on discard_false_states f else on (merge_false_states E) f);
                f \<leftarrow> visit W (Pass_stmt AFTER_LOOP_NO_BREAKS s) f;
                on (merge_breaks E) f
              }
            else if is_forever_loop W s f then
              do {
                f \<leftarrow> on (merge_continues E) f;
                f \<leftarrow> on (save_gotos E loop_name 0) f;
                f \<leftarrow> on push_fake_cur_stree f;
                f \<leftarrow> post_statement f;
                (p, m) \<leftarrow> pop_fake_cur_stree (mach f);
                f \<leftarrow> on discard_false_states (f\<lparr>mach := m\<rparr>);
                f \<leftarrow> visit W (Pass_stmt AFTER_LOOP_NO_BREAKS s) f;
                f \<leftarrow> on use_breaks f;
                f \<leftarrow> (if path_null f then Some f else on (merge_stree_into_cur E p) f);
                on (free_tree p) f
              }
            else
              do {
                f \<leftarrow> on (merge_continues E) f;
                f \<leftarrow> post_statement f;
                f \<leftarrow> on (save_gotos E loop_name 0) f;
                (tf, f) \<leftarrow> split_cond (f\<lparr>in_pre_condition := in_pre_condition f + 1\<rparr>);
                let f = f\<lparr>in_pre_condition := in_pre_condition f - 1\<rparr>;
                f \<leftarrow> on nullify_path f;
                f \<leftarrow> on (merge_false_states E) f;
                f \<leftarrow> (if once_through then on discard_false_states f else on (merge_false_states E) f);
                f \<leftarrow> visit W (Extra_pre_loop_hook_after s) f;
                f \<leftarrow> visit W (Pass_stmt AFTER_LOOP_NO_BREAKS s) f;
                on (merge_breaks E) f
              });
       visit W Call_scope_hooks (f\<lparr>loop_count := loop_count f - 1\<rparr>)
     }"

definition handle_post_loop ::
  "world \<Rightarrow> stmt \<Rightarrow> (flow \<Rightarrow> (bool option \<times> flow) option) \<Rightarrow> walk \<Rightarrow> walk" where
  "handle_post_loop W s split_cond body f =
     do {
       let E = the_env W;
       let loop_name = get_loop_name (loop_num f);
       f \<leftarrow> visit W (Pass_stmt POSTLOOP_HOOK s) (f\<lparr>loop_num := loop_num f + 1, loop_count := loop_count f + 1\<rparr>);
       f \<leftarrow> on (\<lambda>m. Some (push_breaks (push_continues m))) f;
       f \<leftarrow> on (merge_gotos E loop_name 0) f;
       f \<leftarrow> body f;
       f \<leftarrow> on (merge_continues E) f;
       f \<leftarrow> (if (case iter_post_condition s of Some e \<Rightarrow> expr_is_zero W e f | None \<Rightarrow> False) then Some f
            else on (save_gotos E loop_name 0) f);
       f \<leftarrow> (if is_forever_loop W s f then
              do {
                f \<leftarrow> visit W (Pass_stmt AFTER_LOOP_NO_BREAKS s) f;
                on use_breaks f
              }
            else
              do {
                (tf, f) \<leftarrow> split_cond f;
                f \<leftarrow> on use_false_states f;
                f \<leftarrow> visit W (Pass_stmt AFTER_LOOP_NO_BREAKS s) f;
                on (merge_breaks E) f
              });
       Some (f\<lparr>loop_count := loop_count f - 1\<rparr>)
     }"

section \<open>Switches\<close>

text \<open>
  \<^verbatim>\<open>__implied_case_stree\<close> of \<^verbatim>\<open>src/smatch_implied.c\<close>: \<open>separate_and_filter\<close> makes the tree of the states that
  the value implies, and \<open>case_sets\<close> are the states that are set for the case.
\<close>

definition implied_case_stree ::
  "world \<Rightarrow> expr \<Rightarrow> range_list \<Rightarrow> nat option \<Rightarrow> machine \<Rightarrow> (nat option \<times> nat option \<times> machine) option" where
  "implied_case_stree W e rl raw_stree m =
     do {
       (ret, m) \<leftarrow> clone_tree raw_stree m;
       let (rl, m) = (if rl \<noteq> []
                      then (rl, m\<lparr>remaining_cases := filter_top_rl (option_project W) (remaining_cases m) rl\<rparr>)
                      else (top_rl (remaining_cases m), m));
       (true_states, m) \<leftarrow> separate_and_filter W e rl raw_stree m;
       m \<leftarrow> push_fake_cur_stree m;
       m \<leftarrow> unnullify_path m;
       m \<leftarrow> run_sets (case_sets W e rl m) m;
       (extra_states, m) \<leftarrow> pop_fake_cur_stree m;
       (true_states, m) \<leftarrow> overwrite_tree extra_states true_states m;
       (ret, m) \<leftarrow> overwrite_tree true_states ret m;
       m \<leftarrow> free_tree extra_states m;
       m \<leftarrow> free_tree true_states m;
       Some (ret, raw_stree, m)
     }"

definition top_switch :: "flow \<Rightarrow> expr option" where
  "top_switch f = (if switch_expr_stack f = [] then None else Some (last (switch_expr_stack f)))"

definition merge_case :: "world \<Rightarrow> range_list \<Rightarrow> walk" where
  "merge_case W rl f =
     do { e \<leftarrow> top_switch f; on (merge_switches (the_env W) (implied_case_stree W e rl)) f }"

definition get_case_rl :: "world \<Rightarrow> expr \<Rightarrow> expr option \<Rightarrow> expr option \<Rightarrow> flow \<Rightarrow> range_list" where
  "get_case_rl W switch_expr ce ct f =
     (let val = (\<lambda>e. Option.bind e (\<lambda>e. get_value W e f));
          t = get_type W switch_expr
      in case (val ct, val ce) of
           (Some stop, Some start) \<Rightarrow> add_range (option_project W) [] (sval_cast t start) (sval_cast t stop)
         | (None, Some start) \<Rightarrow> add_range (option_project W) [] (sval_cast t start) (sval_cast t start)
         | _ \<Rightarrow> [])"

text \<open>The labels before a statement: the values of all of them, and the label next to the statement.\<close>

fun case_chain :: "world \<Rightarrow> expr \<Rightarrow> range_list \<Rightarrow> stmt \<Rightarrow> flow \<Rightarrow> (range_list \<times> flow) option" where
  "case_chain W sw rl (STMT_CASE e t (STMT_CASE e' t' s)) f =
     (let tmp = get_case_rl W sw e' t' f
      in if tmp = [] then case_chain W sw rl (STMT_CASE e' t' s) f
         else do {
           f \<leftarrow> (if e = None then on set_default f else Some f);
           case_chain W sw (rl_union (option_project W) rl tmp) (STMT_CASE e' t' s) f
         })"
| "case_chain W sw rl s f = Some (rl, f)"

fun last_label :: "stmt \<Rightarrow> expr option \<times> stmt" where
  "last_label (STMT_CASE e t (STMT_CASE e' t' s)) = last_label (STMT_CASE e' t' s)"
| "last_label (STMT_CASE e t s) = (e, s)"
| "last_label s = (None, s)"

definition split_case :: "world \<Rightarrow> stmt \<Rightarrow> walk \<Rightarrow> walk" where
  "split_case W s body f =
     do {
       sw \<leftarrow> top_switch f;
       let rl = (case s of STMT_CASE e t _ \<Rightarrow> get_case_rl W sw e t f | _ \<Rightarrow> []);
       (rl, f) \<leftarrow> case_chain W sw rl s f;
       f \<leftarrow> merge_case W rl f;
       f \<leftarrow> (if fst (last_label s) = None then on set_default f else Some f);
       body f
     }"

definition begin_switch :: "world \<Rightarrow> expr \<Rightarrow> walk" where
  "begin_switch W e f =
     do {
       let f = f\<lparr>switch_expr_stack := switch_expr_stack f @ [e]\<rparr>;
       f \<leftarrow> on (save_switch_states (get_absolute_rl W e f)) f;
       f \<leftarrow> on nullify_path f;
       on (\<lambda>m. Some (push_breaks (push_default m))) f
     }"

definition end_switch :: "world \<Rightarrow> walk" where
  "end_switch W f =
     do {
       f \<leftarrow> on discard_switches f;
       f \<leftarrow> on (merge_breaks (the_env W)) f;
       Some (f\<lparr>switch_expr_stack := butlast (switch_expr_stack f)\<rparr>)
     }"

text \<open>The end of a switch: when no default was seen, the remaining values pass it.\<close>

definition close_default :: "world \<Rightarrow> bool \<Rightarrow> walk \<Rightarrow> walk" where
  "close_default W known empty_stmt f =
     do {
       (seen, m) \<leftarrow> pop_default (mach f);
       let f = f\<lparr>mach := m\<rparr>;
       if seen \<noteq> 0 then Some f
       else if known then merge_case W [] f
       else if have_remaining_cases m then do { f \<leftarrow> merge_case W [] f; empty_stmt f }
       else Some f
     }"

definition split_switch :: "world \<Rightarrow> expr \<Rightarrow> walk \<Rightarrow> walk \<Rightarrow> walk \<Rightarrow> walk" where
  "split_switch W e split_e body empty_stmt f =
     do {
       f \<leftarrow> split_e f;
       f \<leftarrow> begin_switch W e f;
       f \<leftarrow> body f;
       f \<leftarrow> close_default W False empty_stmt f;
       end_switch W f
     }"

definition split_known_switch :: "world \<Rightarrow> expr \<Rightarrow> walk \<Rightarrow> walk \<Rightarrow> walk" where
  "split_known_switch W e split_e cases f =
     do {
       f \<leftarrow> split_e f;
       f \<leftarrow> begin_switch W e f;
       f \<leftarrow> cases f;
       f \<leftarrow> visit W Call_scope_hooks f;
       f \<leftarrow> close_default W True Some f;
       end_switch W f
     }"

text \<open>One statement of a switch over a known value; \<open>rest\<close> is the walk over the statements after it.\<close>

definition is_case_val :: "world \<Rightarrow> stmt \<Rightarrow> sval \<Rightarrow> flow \<Rightarrow> (bool \<times> flow) option" where
  "is_case_val W s v f =
     (case s of
        STMT_CASE None _ _ \<Rightarrow> do { f \<leftarrow> on set_default f; Some (True, f) }
      | STMT_CASE (Some e) _ _ \<Rightarrow>
          Some (case get_value W e f of Some v' \<Rightarrow> sv_val v' = sv_val v | None \<Rightarrow> False, f)
      | _ \<Rightarrow> Some (False, f))"

fun case_body :: "stmt \<Rightarrow> stmt" where
  "case_body (STMT_CASE e t s) = s"
| "case_body s = s"

definition known_case :: "world \<Rightarrow> stmt \<Rightarrow> sval \<Rightarrow> walk \<Rightarrow> walk \<Rightarrow> walk \<Rightarrow> walk" where
  "known_case W s v split_body split_s rest f =
     do {
       (hit, f) \<leftarrow> is_case_val W s v f;
       if \<not> hit \<and> path_null f then rest f
       else do {
         f \<leftarrow> (if hit then
                do {
                  let rl = alloc_rl (option_project W) v v;
                  f \<leftarrow> merge_case W rl f;
                  f \<leftarrow> visit W (Pass_case rl) f;
                  split_body f
                }
              else split_s f);
         if path_null f then on set_default f else rest f
       }
     }"

end
