(* ===== verification/Flow_Walk.thy ===== *)
theory Flow_Walk
  imports Flow
begin

text \<open>
  The expressions of \<^verbatim>\<open>src/smatch_flow.c\<close>, the recursion over the trees, and the analysis of a function.
\<close>

section \<open>Expressions\<close>

text \<open>The frame of \<^verbatim>\<open>__split_expr\<close> around one kind of expression.\<close>

definition enter_expr :: "world \<Rightarrow> expr \<Rightarrow> walk \<Rightarrow> walk" where
  "enter_expr W e inner f =
     (if skip_expr W e f then Some f
      else do { f \<leftarrow> pass_expr W EXPR_HOOK e f; f \<leftarrow> inner f; pass_expr W EXPR_HOOK_AFTER e f })"

definition split_preop :: "world \<Rightarrow> opcode \<Rightarrow> expr \<Rightarrow> walk \<Rightarrow> walk" where
  "split_preop W c u split_u f =
     do {
       f \<leftarrow> split_u f;
       f \<leftarrow> (if c = Ch CHR ''*'' \<and> \<not> get_address W (EXPR_PREOP c u) f then pass_expr W DEREF_HOOK (EXPR_PREOP c u) f
            else Some f);
       pass_expr W OP_HOOK (EXPR_PREOP c u) f
     }"

definition add_postop :: "expr \<Rightarrow> walk" where
  "add_postop e f = Some (f\<lparr>post_op_stack := post_op_stack f @ [e]\<rparr>)"

definition split_select ::
  "world \<Rightarrow> expr \<Rightarrow> expr \<Rightarrow> walk \<Rightarrow> walk \<Rightarrow> walk \<Rightarrow> walk" where
  "split_select W e conditional split_cond split_true split_false f =
     (if known_condition_true W (Some conditional) f then split_true f
      else if known_condition_false W (Some conditional) f then split_false f
      else do {
        f \<leftarrow> pass_expr W SELECT_HOOK e f;
        f \<leftarrow> split_cond f;
        f \<leftarrow> split_true f;
        f \<leftarrow> on push_true_states f;
        f \<leftarrow> on use_false_states f;
        f \<leftarrow> split_false f;
        on (merge_true_states (the_env W)) f
      })"

text \<open>A made up variable counts among the states that are dropped at the end of a statement.\<close>

definition count_fake :: "bool \<Rightarrow> walk" where
  "count_fake new f = (if new then on (\<lambda>m. Some (m\<lparr>fake_state_cnt := fake_state_cnt m + 1\<rparr>)) f else Some f)"

definition split_call :: "world \<Rightarrow> expr \<Rightarrow> expr \<Rightarrow> walk \<Rightarrow> walk \<Rightarrow> walk \<Rightarrow> walk" where
  "split_call W e fn split_fn split_args overflow f =
     do {
       f \<leftarrow> split_fn f;
       f \<leftarrow> split_args f;
       f \<leftarrow> process_post_op_stack W f;
       f \<leftarrow> pass_expr W FUNCTION_CALL_HOOK_BEFORE e f;
       f \<leftarrow> pass_expr W FUNCTION_CALL_HOOK e f;
       f \<leftarrow> (if inlinable W fn f then visit W (Parse_inline e) f else Some f);
       f \<leftarrow> pass_expr W CALL_HOOK_AFTER_INLINE e f;
       f \<leftarrow> (if is_noreturn_func W fn then on nullify_path f else Some f);
       f \<leftarrow> (if \<not> has_parent W e f \<and> indent_cnt f = 1 then on (discard_fake_states (Some (expr_ptr W e))) f else Some f);
       overflow f
     }"

text \<open>\<^verbatim>\<open>handle_builtin_overflow_func\<close>: the assignment that the built-in function makes.\<close>

definition overflow_assign :: "expr \<Rightarrow> expr list \<Rightarrow> (expr \<times> expr) option" where
  "overflow_assign fn args =
     (let c = (if sym_name_is ''__builtin_add_overflow'' fn then Some (Ch CHR ''+'')
               else if sym_name_is ''__builtin_sub_overflow'' fn then Some (Ch CHR ''-'')
               else if sym_name_is ''__builtin_mul_overflow'' fn then Some (Ch CHR ''*'') else None)
      in case (c, args) of
           (Some c, a # b # res # _) \<Rightarrow> Some (EXPR_PREOP (Ch CHR ''*'') res, EXPR_BINOP c a b)
         | _ \<Rightarrow> None)"

section \<open>Assignments\<close>

definition eq_op :: opcode where
  "eq_op = Ch CHR ''=''"

definition after_assign :: "world \<Rightarrow> expr \<Rightarrow> walk \<Rightarrow> walk" where
  "after_assign W e split_left f =
     do {
       f \<leftarrow> pass_expr W MACRO_ASSIGNMENT_HOOK e f;
       f \<leftarrow> pass_expr W ASSIGNMENT_HOOK_AFTER e f;
       split_left f
     }"

definition plain_assign :: "world \<Rightarrow> opcode \<Rightarrow> expr \<Rightarrow> expr \<Rightarrow> walk \<Rightarrow> walk \<Rightarrow> walk" where
  "plain_assign W c e r split_right split_left f =
     do {
       f \<leftarrow> split_right f;
       f \<leftarrow> pass_expr W ASSIGNMENT_HOOK e f;
       f \<leftarrow> visit W (Fake_struct_member_assignments e) f;
       f \<leftarrow> (case strip_expr W f r of
              EXPR_CALL _ _ \<Rightarrow> if c = eq_op then pass_expr W CALL_ASSIGNMENT_HOOK e f else Some f
            | _ \<Rightarrow> Some f);
       after_assign W e split_left f
     }"

text \<open>The statement of \<^verbatim>\<open>x = ({ ... })\<close>, with or without the parentheses; an empty block is passed over.\<close>

definition assigned_stmt :: "world \<Rightarrow> flow \<Rightarrow> expr \<Rightarrow> stmt option" where
  "assigned_stmt W f r =
     (case fst (strip_expr_cast W f r) of
        EXPR_STATEMENT s \<Rightarrow> if s = STMT_COMPOUND [] then None else Some s
      | EXPR_PREOP c (EXPR_STATEMENT s) \<Rightarrow>
          if c = Ch CHR ''('' \<and> s \<noteq> STMT_COMPOUND [] then Some s else None
      | _ \<Rightarrow> None)"

definition handle_block_assigns :: "world \<Rightarrow> stmt \<Rightarrow> walk \<Rightarrow> walk \<Rightarrow> walk \<Rightarrow> walk" where
  "handle_block_assigns W s init label assign f =
     do {
       f \<leftarrow> init (f\<lparr>expr_stmt_count := expr_stmt_count f + 1\<rparr>);
       f \<leftarrow> label f;
       f \<leftarrow> assign f;
       f \<leftarrow> visit W (Pass_stmt STMT_HOOK_AFTER s) f;
       f \<leftarrow> visit W Call_scope_hooks f;
       Some (f\<lparr>expr_stmt_count := expr_stmt_count f - 1\<rparr>)
     }"

definition in_expr_stmt :: "walk \<Rightarrow> walk" where
  "in_expr_stmt inner f =
     do {
       f \<leftarrow> inner (f\<lparr>expr_stmt_count := expr_stmt_count f + 1\<rparr>);
       Some (f\<lparr>expr_stmt_count := expr_stmt_count f - 1\<rparr>)
     }"

text \<open>\<^verbatim>\<open>*p++ = x\<close>: the pointer that is written through.\<close>

definition postop_target :: "world \<Rightarrow> flow \<Rightarrow> expr \<Rightarrow> expr option" where
  "postop_target W f l =
     (case strip_expr W f l of
        EXPR_PREOP c u \<Rightarrow>
          if c = Ch CHR ''*'' then (case strip_expr W f u of EXPR_POSTOP _ p \<Rightarrow> Some (strip_expr W f p) | _ \<Rightarrow> None) else None
      | _ \<Rightarrow> None)"

text \<open>\<^verbatim>\<open>add_casts\<close>: the innermost cast of the right side is put around the made up assignment.\<close>

definition with_casts :: "world \<Rightarrow> bool \<Rightarrow> expr \<Rightarrow> walk \<Rightarrow> walk" where
  "with_casts W cast assign inner =
     (if cast then
        enter_expr W (EXPR_CAST assign) (\<lambda>f. do { f \<leftarrow> pass_expr W CAST_HOOK (EXPR_CAST assign) f; inner f })
      else inner)"

text \<open>The parts of the right sides that are treated specially.\<close>

definition select_parts :: "world \<Rightarrow> flow \<Rightarrow> opcode \<Rightarrow> expr \<Rightarrow> (expr \<times> expr option \<times> expr) option" where
  "select_parts W f c r =
     (case strip_expr W f r of EXPR_SELECT a b d \<Rightarrow> if c = eq_op then Some (a, b, d) else None | _ \<Rightarrow> None)"

definition comma_parts :: "world \<Rightarrow> flow \<Rightarrow> expr \<Rightarrow> (expr \<times> expr) option" where
  "comma_parts W f r = (case strip_expr W f r of EXPR_COMMA a b \<Rightarrow> Some (a, b) | _ \<Rightarrow> None)"

definition chosen_right :: "world \<Rightarrow> expr \<Rightarrow> flow \<Rightarrow> expr option" where
  "chosen_right W r f = (case strip_parens r of EXPR_CALL fn args \<Rightarrow> chosen_arg W fn args f | _ \<Rightarrow> None)"

definition is_binop :: "expr \<Rightarrow> bool" where
  "is_binop e = (case e of EXPR_BINOP _ _ _ \<Rightarrow> True | _ \<Rightarrow> False)"

definition fake_symbol :: "world \<Rightarrow> string \<Rightarrow> expr \<Rightarrow> expr" where
  "fake_symbol W prefix e = EXPR_SYMBOL (prefix @ expr_ptr W e)"

section \<open>Gotos\<close>

definition get_last_stmt :: "world \<Rightarrow> stmt option" where
  "get_last_stmt W =
     (if func_stmts W = [] then None
      else Some (case last (func_stmts W) of STMT_LABEL _ _ s \<Rightarrow> s | s \<Rightarrow> s))"

definition is_last_goto :: "world \<Rightarrow> nat \<Rightarrow> bool" where
  "is_last_goto W a = (case get_last_stmt W of Some (STMT_GOTO b _ _) \<Rightarrow> a = b | _ \<Rightarrow> False)"

definition from_label :: "string \<Rightarrow> stmt list \<Rightarrow> stmt list" where
  "from_label nm ss = dropWhile (\<lambda>s. case s of STMT_LABEL nm' _ _ \<Rightarrow> nm' \<noteq> nm | _ \<Rightarrow> True) ss"

definition jump :: "world \<Rightarrow> goto_target \<Rightarrow> walk" where
  "jump W target f =
     (case target of
        Goto_break \<Rightarrow> on (process_breaks (the_env W)) f
      | Goto_continue \<Rightarrow> on (process_continues (the_env W)) f
      | Goto_label nm sy \<Rightarrow> on (save_gotos (the_env W) nm sy) f
      | Goto_computed \<Rightarrow> Some f)"

text \<open>\<open>again\<close> is the walk over the statements from the label on.\<close>

definition handle_backward_goto_at_end :: "world \<Rightarrow> nat \<Rightarrow> goto_target \<Rightarrow> (string \<Rightarrow> walk) \<Rightarrow> walk" where
  "handle_backward_goto_at_end W a target again f =
     (if \<not> is_last_goto W a \<or> last_goto_statement_handled f then Some f
      else
        (let f = f\<lparr>last_goto_statement_handled := True\<rparr>
         in case target of Goto_label nm _ \<Rightarrow> again nm f | _ \<Rightarrow> Some f))"

fun save_asm_gotos :: "world \<Rightarrow> (string \<times> nat) list \<Rightarrow> walk" where
  "save_asm_gotos W [] f = Some f"
| "save_asm_gotos W ((nm, sy) # ls) f = do { f \<leftarrow> on (save_gotos (the_env W) nm sy) f; save_asm_gotos W ls f }"

section \<open>Blocks\<close>

text \<open>The last statement of a block as a condition: an expression, possibly behind a label.\<close>

fun last_expr :: "stmt \<Rightarrow> expr option option" where
  "last_expr (STMT_EXPRESSION e) = Some e"
| "last_expr (STMT_LABEL nm sy (STMT_EXPRESSION e)) = Some e"
| "last_expr s = None"

definition split_last_label :: "world \<Rightarrow> stmt \<Rightarrow> walk" where
  "split_last_label W s f = (case s of STMT_LABEL nm sy _ \<Rightarrow> split_label_stmt W nm sy f | _ \<Rightarrow> Some f)"

definition after_label :: "stmt \<Rightarrow> stmt" where
  "after_label s = (case s of STMT_LABEL _ _ s \<Rightarrow> s | s \<Rightarrow> s)"

definition split_compound :: "world \<Rightarrow> stmt list \<Rightarrow> walk \<Rightarrow> walk" where
  "split_compound W ss split_all f =
     do { f \<leftarrow> split_all f; if ss = func_stmts W then Some f else visit W Call_scope_hooks f }"

lemma ssize_block:
  "ss \<noteq> [] \<Longrightarrow> sum_list (map (\<lambda>s. ssize s + 1) ss) = sum_list (map (\<lambda>s. ssize s + 1) (butlast ss)) + ssize (last ss) + 1"
  by (induction ss rule: rev_induct) auto

lemma last_expr_size: "last_expr s = Some (Some e) \<Longrightarrow> esize e < ssize s"
  by (induction s rule: last_expr.induct) auto

lemma after_label_size: "ssize (after_label s) \<le> ssize s"
  by (cases s) (auto simp: after_label_def)

lemma case_body_size: "ssize (case_body s) \<le> ssize s"
  by (cases s) auto

lemma last_label_size: "ssize (snd (last_label s)) \<le> ssize s"
  by (induction s rule: last_label.induct) auto

lemma overflow_assign_size: "overflow_assign fn args = Some (l, r) \<Longrightarrow> esize l + esize r < esize (EXPR_CALL fn args)"
  by (auto simp: overflow_assign_def Let_def split: if_splits list.splits option.splits)

lemma chosen_right_size: "chosen_right W r f = Some a \<Longrightarrow> esize a < esize r"
  using strip_parens_esize [of r] by (auto simp: chosen_right_def split: expr.splits dest!: chosen_arg_size)

lemma select_parts_size:
  "select_parts W f c r = Some (a, b, d) \<Longrightarrow> esize a + (case b of None \<Rightarrow> 0 | Some b \<Rightarrow> esize b) + esize d + 2 \<le> esize r"
  using strip_size(1) [of W f r] by (auto simp: select_parts_def split: expr.splits if_splits)

lemma comma_parts_size: "comma_parts W f r = Some (a, b) \<Longrightarrow> esize a + esize b < esize r"
  using strip_size(1) [of W f r] by (auto simp: comma_parts_def split: expr.splits)

lemma assigned_stmt_size: "assigned_stmt W f r = Some s \<Longrightarrow> ssize s < esize r"
  using strip_cast_size [of W f r] by (auto simp: assigned_stmt_def split: expr.splits if_splits)

lemma postop_target_size:
  assumes "postop_target W f l = Some p"
  shows "esize p + 2 \<le> esize l"
proof -
  obtain u c q where "strip_expr W f l = EXPR_PREOP (Ch CHR ''*'') u" "strip_expr W f u = EXPR_POSTOP c q" "p = strip_expr W f q"
    using assms by (auto simp: postop_target_def split: expr.splits if_splits)
  then show ?thesis using strip_size(1) [of W f l] strip_size(1) [of W f u] strip_size(1) [of W f q] by simp
qed

definition wrap_rank :: "bool \<Rightarrow> expr \<Rightarrow> nat" where
  "wrap_rank b e =
     (if \<not> b then 6 else case e of EXPR_LOGICAL _ _ _ \<Rightarrow> 4 | EXPR_COMPARE _ _ _ \<Rightarrow> 4 | _ \<Rightarrow> 0)"

lemma wrap_rank_less: "wrap_rank True e < 5"
  by (auto simp: wrap_rank_def split: expr.splits)

lemma wrap_rank_simps [simp]:
  "wrap_rank False e = 6" "wrap_rank b (EXPR_LOGICAL c l r) = (if b then 4 else 6)" "wrap_rank b (EXPR_COMPARE c l r) = (if b then 4 else 6)"
  "wrap_rank True (EXPR_VALUE v) = 0" "wrap_rank True (EXPR_SYMBOL s) = 0" "wrap_rank True (EXPR_OTHER i) = 0"
  "wrap_rank True (EXPR_PREOP c e) = 0" "wrap_rank True (EXPR_POSTOP c e) = 0" "wrap_rank True (EXPR_BINOP c l r) = 0"
  "wrap_rank True (EXPR_ASSIGNMENT c l r) = 0" "wrap_rank True (EXPR_DEREF e) = 0" "wrap_rank True (EXPR_PART e) = 0" "wrap_rank True (EXPR_CAST e) = 0"
  "wrap_rank True (EXPR_CALL fn args) = 0" "wrap_rank True (EXPR_INITIALIZER es) = 0" "wrap_rank True (EXPR_STATEMENT st) = 0"
  by (simp_all add: wrap_rank_def)

lemmas walk_sizes = chosen_arg_size overflow_assign_size chosen_right_size select_parts_size comma_parts_size
  assigned_stmt_size postop_target_size last_expr_size

lemma block_bounds:
  "ss \<noteq> [] \<Longrightarrow> sum_list (map (\<lambda>s. Suc (ssize s)) (butlast ss)) + ssize (last ss) < sum_list (map (\<lambda>s. Suc (ssize s)) ss)
    \<and> ssize (after_label (last ss)) \<le> ssize (last ss)"
  using ssize_block [of ss] after_label_size [of "last ss"] by simp

lemma label_bounds [simp]:
  "ssize (snd (last_label (STMT_CASE e t s))) < Suc (ssize s)" "ssize (case_body s) < Suc (ssize s + k)"
  using last_label_size [of s] case_body_size [of s] by (cases s; simp)+

lemma strip_lex [simp]:
  "esize (strip_expr W f e) < esize e \<or> esize (strip_expr W f e) = esize e"
  "esize (strip_expr W f r) < esize l + esize r \<or> esize (strip_expr W f r) = esize l + esize r"
  "esize x < k \<Longrightarrow> esize (strip_no_cast W f x) < k"
  using strip_size(1) [of W f e] strip_size(1) [of W f r] strip_size(2) [of W f x] by linarith+

section \<open>The recursion\<close>

text \<open>
  The last argument but one of \<open>split_expr\<close> tells whether the expression is the side of an assignment,
  possibly in parentheses or behind a cast, for then no assignment is made up for a call. The number
  bounds how often the statements of the function may be walked again for a goto at its end; the code
  does it at most once. \<open>split_stripped\<close> is the part of \<^verbatim>\<open>split_conditions\<close> after its first step.
\<close>

function split_conditions :: "world \<Rightarrow> nat \<Rightarrow> expr \<Rightarrow> cond_walk"
  and split_stripped :: "world \<Rightarrow> nat \<Rightarrow> expr \<Rightarrow> cond_walk"
  and split_expr :: "world \<Rightarrow> nat \<Rightarrow> bool \<Rightarrow> expr \<Rightarrow> walk"
  and split_expr_list :: "world \<Rightarrow> nat \<Rightarrow> bool \<Rightarrow> expr list \<Rightarrow> walk"
  and split_args :: "world \<Rightarrow> nat \<Rightarrow> expr \<Rightarrow> nat \<Rightarrow> expr list \<Rightarrow> walk"
  and parse_assignment :: "world \<Rightarrow> nat \<Rightarrow> expr \<Rightarrow> opcode \<Rightarrow> expr \<Rightarrow> walk"
  and split_stmt :: "world \<Rightarrow> nat \<Rightarrow> stmt \<Rightarrow> walk"
  and split_stmts :: "world \<Rightarrow> nat \<Rightarrow> stmt list \<Rightarrow> walk"
  and known_cases :: "world \<Rightarrow> nat \<Rightarrow> sval \<Rightarrow> stmt list \<Rightarrow> walk" where
  "split_conditions W n e = (\<lambda>known_tf f. split_stripped W n (strip_expr W f e) known_tf f)"

| "split_stripped W n (EXPR_VALUE v) = simple_condition W (EXPR_VALUE v) (split_expr W n True (EXPR_VALUE v)) Some"
| "split_stripped W n (EXPR_SYMBOL s) = simple_condition W (EXPR_SYMBOL s) (split_expr W n True (EXPR_SYMBOL s)) Some"
| "split_stripped W n (EXPR_OTHER i) = simple_condition W (EXPR_OTHER i) (split_expr W n True (EXPR_OTHER i)) Some"
| "split_stripped W n (EXPR_PREOP c u) =
     (if c = Ch CHR ''!'' then handle_negation (split_conditions W n u)
      else if c = Ch CHR ''('' then
        (case u of
           EXPR_STATEMENT (STMT_COMPOUND ss) \<Rightarrow>
             (if ss = [] then (\<lambda>known_tf f. None)
              else case last_expr (last ss) of
                     Some e \<Rightarrow>
                       handle_expr_statement_conditions W (split_stmts W n (butlast ss)) (split_last_label W (last ss))
                         (case e of None \<Rightarrow> null_condition | Some e \<Rightarrow> split_conditions W n e)
                   | None \<Rightarrow> (\<lambda>known_tf f. do { f \<leftarrow> split_stmts W n ss f; null_condition known_tf f }))
         | _ \<Rightarrow> simple_condition W (EXPR_PREOP c u) (split_expr W n True (EXPR_PREOP c u)) Some)
      else simple_condition W (EXPR_PREOP c u) (split_expr W n True (EXPR_PREOP c u)) Some)"
| "split_stripped W n (EXPR_POSTOP c u) =
     simple_condition W (EXPR_POSTOP c u) Some (split_expr W n True (EXPR_POSTOP c u))"
| "split_stripped W n (EXPR_LOGICAL c l r) =
     (\<lambda>known_tf f. do {
        f \<leftarrow> pass_expr W LOGIC_HOOK (EXPR_LOGICAL c l r) f;
        handle_logical W (c = SPECIAL_LOGICAL_AND) (split_conditions W n l) (split_conditions W n r) known_tf f
      })"
| "split_stripped W n (EXPR_COMPARE c l r) =
     handle_compare W c l r (split_expr W n False l) (split_expr W n False r) (split_conditions W n l) (split_conditions W n r)"
| "split_stripped W n (EXPR_BINOP c l r) =
     (if c = Ch CHR ''|'' then handle_logical W False (split_conditions W n l) (split_conditions W n r)
      else if c = Ch CHR ''-'' \<and> \<not> is_binop (strip_parens l) \<and> \<not> is_binop (strip_parens r) then
        handle_compare W SPECIAL_NOTEQUAL l r (split_expr W n False l) (split_expr W n False r)
          (split_conditions W n l) (split_conditions W n r)
      else simple_condition W (EXPR_BINOP c l r) (split_expr W n True (EXPR_BINOP c l r)) Some)"
| "split_stripped W n (EXPR_COMMA l r) = handle_comma (split_expr W n False l) (split_conditions W n r)"
| "split_stripped W n (EXPR_ASSIGNMENT c l r) =
     simple_condition W (EXPR_ASSIGNMENT c l r) (split_expr W n True (EXPR_ASSIGNMENT c l r)) Some"
| "split_stripped W n (EXPR_DEREF u) = simple_condition W (EXPR_DEREF u) (split_expr W n True (EXPR_DEREF u)) Some"
| "split_stripped W n (EXPR_PART u) = simple_condition W (EXPR_PART u) (split_expr W n True (EXPR_PART u)) Some"
| "split_stripped W n (EXPR_CAST u) = simple_condition W (EXPR_CAST u) (split_expr W n True (EXPR_CAST u)) Some"
| "split_stripped W n (EXPR_SELECT a b d) =
     handle_select W b d (split_conditions W n a)
       (case b of None \<Rightarrow> null_condition | Some b \<Rightarrow> split_conditions W n b) (split_conditions W n d)"
| "split_stripped W n (EXPR_CALL fn args) =
     (if sym_name_is ''__builtin_expect'' fn then
        (case args of [] \<Rightarrow> null_condition | a # _ \<Rightarrow> split_conditions W n a)
      else simple_condition W (EXPR_CALL fn args) (split_expr W n True (EXPR_CALL fn args)) Some)"
| "split_stripped W n (EXPR_INITIALIZER es) =
     simple_condition W (EXPR_INITIALIZER es) (split_expr W n True (EXPR_INITIALIZER es)) Some"
| "split_stripped W n (EXPR_STATEMENT s) =
     (case s of
        STMT_COMPOUND ss \<Rightarrow>
          (if ss = [] then simple_condition W (EXPR_STATEMENT s) (split_expr W n True (EXPR_STATEMENT s)) Some
           else case last_expr (last ss) of
                  Some e \<Rightarrow>
                    handle_expr_statement_conditions W (split_stmts W n (butlast ss)) (split_last_label W (last ss))
                      (case e of None \<Rightarrow> null_condition | Some e \<Rightarrow> split_conditions W n e)
                | None \<Rightarrow> simple_condition W (EXPR_STATEMENT s) (split_expr W n True (EXPR_STATEMENT s)) Some)
      | _ \<Rightarrow> simple_condition W (EXPR_STATEMENT s) (split_expr W n True (EXPR_STATEMENT s)) Some)"

| "split_expr W n b (EXPR_VALUE v) = enter_expr W (EXPR_VALUE v) Some"
| "split_expr W n b (EXPR_SYMBOL s) = enter_expr W (EXPR_SYMBOL s) (pass_expr W SYM_HOOK (EXPR_SYMBOL s))"
| "split_expr W n b (EXPR_OTHER i) = enter_expr W (EXPR_OTHER i) Some"
| "split_expr W n b (EXPR_PREOP c u) =
     enter_expr W (EXPR_PREOP c u) (split_preop W c u (split_expr W n (b \<and> c = Ch CHR ''('') u))"
| "split_expr W n b (EXPR_POSTOP c u) =
     enter_expr W (EXPR_POSTOP c u) (\<lambda>f. do { f \<leftarrow> split_expr W n False u f; add_postop (EXPR_POSTOP c u) f })"
| "split_expr W n b (EXPR_LOGICAL c l r) =
     enter_expr W (EXPR_LOGICAL c l r)
       (\<lambda>f. do {
          f \<leftarrow> pass_expr W LOGIC_HOOK (EXPR_LOGICAL c l r) f;
          handle_logic W (EXPR_LOGICAL c l r) (split_conditions W n (EXPR_LOGICAL c l r)) f
        })"
| "split_expr W n b (EXPR_COMPARE c l r) =
     enter_expr W (EXPR_COMPARE c l r)
       (\<lambda>f. do {
          f \<leftarrow> pass_expr W LOGIC_HOOK (EXPR_COMPARE c l r) f;
          handle_logic W (EXPR_COMPARE c l r) (split_conditions W n (EXPR_COMPARE c l r)) f
        })"
| "split_expr W n b (EXPR_BINOP c l r) =
     enter_expr W (EXPR_BINOP c l r)
       (\<lambda>f. do {
          f \<leftarrow> pass_expr W BINOP_HOOK (EXPR_BINOP c l r) f;
          f \<leftarrow> split_expr W n False l f;
          split_expr W n False r f
        })"
| "split_expr W n b (EXPR_COMMA l r) =
     enter_expr W (EXPR_COMMA l r)
       (\<lambda>f. do {
          f \<leftarrow> split_expr W n False l f;
          f \<leftarrow> process_post_op_stack W f;
          split_expr W n False r f
        })"
| "split_expr W n b (EXPR_ASSIGNMENT c l r) = enter_expr W (EXPR_ASSIGNMENT c l r) (parse_assignment W n l c r)"
| "split_expr W n b (EXPR_DEREF u) =
     enter_expr W (EXPR_DEREF u) (\<lambda>f. do { f \<leftarrow> split_expr W n False u f; pass_expr W DEREF_HOOK (EXPR_DEREF u) f })"
| "split_expr W n b (EXPR_PART u) = enter_expr W (EXPR_PART u) (split_expr W n False u)"
| "split_expr W n b (EXPR_CAST u) =
     enter_expr W (EXPR_CAST u) (\<lambda>f. do { f \<leftarrow> pass_expr W CAST_HOOK (EXPR_CAST u) f; split_expr W n b u f })"
| "split_expr W n b (EXPR_SELECT a t d) =
     enter_expr W (EXPR_SELECT a t d)
       (split_select W (EXPR_SELECT a t d) a (split_whole_condition W (Some a) (split_conditions W n a))
          (case t of None \<Rightarrow> Some | Some t \<Rightarrow> split_expr W n False t) (split_expr W n False d))"
| "split_expr W n b (EXPR_CALL fn args) =
     enter_expr W (EXPR_CALL fn args)
       (\<lambda>f. let e = EXPR_CALL fn args; l = fake_symbol W ''__fake_assign_'' e in
          if \<not> b \<and> fake_call W e f \<noteq> Fake_none then
            do {
              f \<leftarrow> count_fake (fake_call W e f = Fake_assign) f;
              enter_expr W (EXPR_ASSIGNMENT eq_op l e) (parse_assignment W n l eq_op e) f
            }
          else if sym_name_is ''__builtin_constant_p'' fn then Some f
          else case chosen_arg W fn args f of
                 Some a \<Rightarrow> split_expr W n False a f
               | None \<Rightarrow>
                   split_call W e fn (split_expr W n False fn) (split_args W n e 0 args)
                     (case overflow_assign fn args of
                        None \<Rightarrow> Some
                      | Some (l, r) \<Rightarrow> enter_expr W (EXPR_ASSIGNMENT eq_op l r) (parse_assignment W n l eq_op r)) f)"
| "split_expr W n b (EXPR_INITIALIZER es) = enter_expr W (EXPR_INITIALIZER es) (split_expr_list W n True es)"
| "split_expr W n b (EXPR_STATEMENT s) = enter_expr W (EXPR_STATEMENT s) (in_expr_stmt (split_stmt W n s))"

| "split_expr_list W n post_ops [] = Some"
| "split_expr_list W n post_ops (e # es) =
     (\<lambda>f. do {
        f \<leftarrow> split_expr W n False e f;
        f \<leftarrow> (if post_ops then process_post_op_stack W f else Some f);
        split_expr_list W n post_ops es f
      })"

| "split_args W n call i [] = Some"
| "split_args W n call i (a # as) =
     (\<lambda>f. do {
        f \<leftarrow> (case fake_arg W (Some call) a f of
               Fake_none \<Rightarrow> Some f
             | Fake_plain \<Rightarrow> split_expr W n False a f
             | Fake_assign \<Rightarrow>
                 (let l = EXPR_SYMBOL (''__fake_param_'' @ expr_ptr W call @ ''_'' @ digits i)
                  in do {
                    f \<leftarrow> count_fake True f;
                    enter_expr W (EXPR_ASSIGNMENT eq_op l a) (parse_assignment W n l eq_op a) f
                  }));
        f \<leftarrow> process_post_op_stack W f;
        split_args W n call (i + 1) as f
      })"

| "parse_assignment W n l c r =
     (\<lambda>f. let e = EXPR_ASSIGNMENT c l r in do {
        f \<leftarrow> pass_expr W RAW_ASSIGNMENT_HOOK e f;
        if c = eq_op \<and> is_condition W r f then
          do { f \<leftarrow> visit W (Handle_condition_assigns l r) f; after_assign W e (split_expr W n True l) f }
        else
          case select_parts W f c r of
            Some (a, t, d) \<Rightarrow>
              do {
                f \<leftarrow> handle_select_assigns W (strip_expr W f r) a (t \<noteq> None)
                       (case t of
                          Some _ \<Rightarrow> split_whole_condition W (Some a) (split_conditions W n a)
                        | None \<Rightarrow>
                            (let fake = EXPR_ASSIGNMENT eq_op (fake_symbol W ''fake_cond_'' e) a
                             in (\<lambda>f. do {
                                   f \<leftarrow> count_fake True f;
                                   split_whole_condition W (Some fake) (split_conditions W n fake) f
                                 })))
                       (case t of
                          Some t \<Rightarrow> enter_expr W (EXPR_ASSIGNMENT c l t) (parse_assignment W n l c t)
                        | None \<Rightarrow>
                            (let v = fake_symbol W ''fake_cond_'' e
                             in enter_expr W (EXPR_ASSIGNMENT c l v) (parse_assignment W n l c v)))
                       (enter_expr W (EXPR_ASSIGNMENT c l d) (parse_assignment W n l c d)) f;
                after_assign W e Some f
              }
          | None \<Rightarrow>
              (case assigned_stmt W f r of
                 Some s \<Rightarrow>
                   (case s of
                      STMT_COMPOUND ss \<Rightarrow>
                        (if ss = [] then Some f
                         else
                           (let x = EXPR_STATEMENT (after_label (last ss))
                            in handle_block_assigns W s (split_stmts W n (butlast ss)) (split_last_label W (last ss))
                                 (with_casts W (snd (strip_expr_cast W f r)) (EXPR_ASSIGNMENT c l x)
                                    (enter_expr W (EXPR_ASSIGNMENT c l x) (parse_assignment W n l c x))) f))
                    | STMT_EXPRESSION x \<Rightarrow>
                        in_expr_stmt
                          (case x of
                             None \<Rightarrow> Some
                           | Some x \<Rightarrow>
                               (let x = strip_no_cast W f x
                                in with_casts W (snd (strip_expr_cast W f r)) (EXPR_ASSIGNMENT c l x)
                                     (enter_expr W (EXPR_ASSIGNMENT c l x) (parse_assignment W n l c x)))) f
                    | _ \<Rightarrow> in_expr_stmt (split_stmt W n s) f)
               | None \<Rightarrow>
                   (case comma_parts W f r of
                      Some (x, y) \<Rightarrow>
                        do {
                          f \<leftarrow> split_expr W n False x f;
                          f \<leftarrow> process_post_op_stack W f;
                          f \<leftarrow> enter_expr W (EXPR_ASSIGNMENT eq_op l y) (parse_assignment W n l eq_op y) f;
                          after_assign W e Some f
                        }
                    | None \<Rightarrow>
                        (case chosen_right W r f of
                           Some y \<Rightarrow>
                             do {
                               f \<leftarrow> enter_expr W (EXPR_ASSIGNMENT eq_op l y) (parse_assignment W n l eq_op y) f;
                               after_assign W e Some f
                             }
                         | None \<Rightarrow>
                             (case postop_target W f l of
                                Some p \<Rightarrow>
                                  (let q = EXPR_PREOP (Ch CHR ''*'') p
                                   in do {
                                     f \<leftarrow> enter_expr W (EXPR_ASSIGNMENT eq_op q r) (parse_assignment W n q eq_op r) f;
                                     split_expr W n True l f
                                   })
                              | None \<Rightarrow> plain_assign W c e r (split_expr W n True r) (split_expr W n True l) f))))
      })"

| "split_stmt W n STMT_NONE = enter_stmt W STMT_NONE False Some"
| "split_stmt W n (STMT_DECLARATION d) = enter_stmt W (STMT_DECLARATION d) False (visit W (Split_declaration d))"
| "split_stmt W n (STMT_EXPRESSION e) =
     enter_stmt W (STMT_EXPRESSION e) False (case e of None \<Rightarrow> Some | Some e \<Rightarrow> split_expr W n False e)"
| "split_stmt W n (STMT_COMPOUND ss) = enter_stmt W (STMT_COMPOUND ss) False (split_compound W ss (split_stmts W n ss))"
| "split_stmt W n (STMT_IF e s t) =
     enter_stmt W (STMT_IF e s t) False
       (split_if_statement (split_whole_condition_tf W (Some e) (split_conditions W n e)) W
          (case s of None \<Rightarrow> process_post_op_stack W | Some s \<Rightarrow> split_stmt W n s)
          (case t of None \<Rightarrow> process_post_op_stack W | Some t \<Rightarrow> split_stmt W n t))"
| "split_stmt W n (STMT_RETURN e) =
     enter_stmt W (STMT_RETURN e) False
       (\<lambda>f. do {
          f \<leftarrow> (case e of
                 None \<Rightarrow> Some f
               | Some e \<Rightarrow>
                   (case fake_arg W None e f of
                      Fake_none \<Rightarrow> Some f
                    | Fake_plain \<Rightarrow> split_expr W n False e f
                    | Fake_assign \<Rightarrow>
                        (let l = fake_symbol W ''__fake_return_'' e
                         in do {
                           f \<leftarrow> count_fake True f;
                           enter_expr W (EXPR_ASSIGNMENT eq_op l e) (parse_assignment W n l eq_op e) f
                         })));
          f \<leftarrow> process_post_op_stack W f;
          f \<leftarrow> visit W Call_all_scope_hooks f;
          f \<leftarrow> visit W (Pass_expr RETURN_HOOK e) f;
          on nullify_path f
        })"
| "split_stmt W n (STMT_CASE e t s) =
     enter_stmt W (STMT_CASE e t s) False
       (split_case W (STMT_CASE e t s) (split_stmt W n (snd (last_label (STMT_CASE e t s)))))"
| "split_stmt W n (STMT_SWITCH e ss) =
     enter_stmt W (STMT_SWITCH e ss) False
       (\<lambda>f. case get_value W e f of
              Some v \<Rightarrow> split_known_switch W e (split_expr W n False e) (known_cases W n (sval_cast (get_type W e) v) ss) f
            | None \<Rightarrow>
                split_switch W e (split_expr W n False e) (split_stmt W n (STMT_COMPOUND ss)) (split_stmt W n STMT_NONE) f)"
| "split_stmt W n (STMT_ITERATOR d s e body t c) =
     enter_stmt W (STMT_ITERATOR d s e body t c) False
       (if e = None \<and> c \<noteq> None then
          handle_post_loop W (STMT_ITERATOR d s e body t c)
            (split_whole_condition_tf W c (case c of None \<Rightarrow> null_condition | Some c \<Rightarrow> split_conditions W n c))
            (split_stmt W n body)
        else
          handle_pre_loop W (STMT_ITERATOR d s e body t c) d
            (case s of None \<Rightarrow> process_post_op_stack W | Some s \<Rightarrow> split_stmt W n s)
            (split_whole_condition_tf W e (case e of None \<Rightarrow> null_condition | Some e \<Rightarrow> split_conditions W n e))
            (split_stmt W n body)
            (case t of None \<Rightarrow> process_post_op_stack W | Some t \<Rightarrow> split_stmt W n t))"
| "split_stmt W n (STMT_LABEL nm sy s) =
     enter_stmt W (STMT_LABEL nm sy s) True
       (\<lambda>f. do {
          f \<leftarrow> split_label_stmt W nm sy f;
          f \<leftarrow> visit W (Pass_stmt STMT_HOOK_AFTER (STMT_LABEL nm sy s)) f;
          split_stmt W n s f
        })"
| "split_stmt W n (STMT_GOTO a target e) =
     enter_stmt W (STMT_GOTO a target e) False
       (\<lambda>f. do {
          f \<leftarrow> (case e of None \<Rightarrow> Some f | Some e \<Rightarrow> split_expr W n False e f);
          f \<leftarrow> jump W target f;
          f \<leftarrow> handle_backward_goto_at_end W a target
                 (\<lambda>nm. case n of 0 \<Rightarrow> (\<lambda>_. None) | Suc k \<Rightarrow> split_stmts W k (from_label nm (func_stmts W))) f;
          on nullify_path f
        })"
| "split_stmt W n (STMT_ASM e es cs ls) =
     enter_stmt W (STMT_ASM e es cs ls) False
       (\<lambda>f. do {
          f \<leftarrow> save_asm_gotos W ls f;
          f \<leftarrow> visit W (Pass_stmt ASM_HOOK (STMT_ASM e es cs ls)) f;
          f \<leftarrow> split_expr W n False e f;
          f \<leftarrow> split_expr_list W n False es f;
          split_expr_list W n True cs f
        })"
| "split_stmt W n STMT_CONTEXT = enter_stmt W STMT_CONTEXT False Some"
| "split_stmt W n (STMT_RANGE a b c) =
     enter_stmt W (STMT_RANGE a b c) False
       (\<lambda>f. do {
          f \<leftarrow> split_expr W n False a f;
          f \<leftarrow> split_expr W n False b f;
          split_expr W n False c f
        })"

| "split_stmts W n [] = Some"
| "split_stmts W n (s # ss) = (\<lambda>f. do { f \<leftarrow> split_stmt W n s f; split_stmts W n ss f })"

| "known_cases W n v [] = Some"
| "known_cases W n v (s # ss) =
     known_case W s v (split_stmt W n (case_body s)) (split_stmt W n s) (known_cases W n v ss)"
  by pat_completeness auto

termination
  by (relation "measures
    [case_sum
       (case_sum (case_sum (\<lambda>(W, n, e). n) (\<lambda>(W, n, e). n)) (case_sum (\<lambda>(W, n, b, e). n) (\<lambda>(W, n, p, es). n)))
       (case_sum (case_sum (\<lambda>(W, n, c, i, es). n) (\<lambda>(W, n, l, c, r). n))
         (case_sum (\<lambda>(W, n, s). n) (case_sum (\<lambda>(W, n, ss). n) (\<lambda>(W, n, v, ss). n)))),
     case_sum
       (case_sum (case_sum (\<lambda>(W, n, e). esize e) (\<lambda>(W, n, e). esize e))
         (case_sum (\<lambda>(W, n, b, e). esize e) (\<lambda>(W, n, p, es). sum_list (map (\<lambda>e. esize e + 1) es))))
       (case_sum (case_sum (\<lambda>(W, n, c, i, es). sum_list (map (\<lambda>e. esize e + 2) es)) (\<lambda>(W, n, l, c, r). esize l + esize r))
         (case_sum (\<lambda>(W, n, s). ssize s)
           (case_sum (\<lambda>(W, n, ss). sum_list (map (\<lambda>s. ssize s + 1) ss)) (\<lambda>(W, n, v, ss). sum_list (map (\<lambda>s. ssize s + 1) ss))))),
     case_sum
       (case_sum (case_sum (\<lambda>_. 3) (\<lambda>_. 2)) (case_sum (\<lambda>(W, n, b, e). wrap_rank b e) (\<lambda>_. 0)))
       (case_sum (case_sum (\<lambda>_. 0) (\<lambda>_. 5)) (\<lambda>_. 0))]")
    (simp_all add: fake_symbol_def Let_def,
     (auto dest!: walk_sizes block_bounds simp: wrap_rank_less)+)

section \<open>Functions\<close>

definition start_function_definition :: "world \<Rightarrow> walk" where
  "start_function_definition W f =
     do { f \<leftarrow> visit W (Pass_func FUNC_DEF_HOOK) f; visit W (Pass_func AFTER_DEF_HOOK) f }"

text \<open>The body of the function; it has no second body for inlining.\<close>

definition parse_fn_statements :: "world \<Rightarrow> walk" where
  "parse_fn_statements W f =
     do { f \<leftarrow> split_stmt W 1 (STMT_COMPOUND (func_stmts W)) f; process_post_op_stack W f }"

text \<open>The passes over the body, up to the last hooks; then the states are freed.\<close>

definition walk_function :: "world \<Rightarrow> bool \<Rightarrow> walk" where
  "walk_function W two_passes f =
     do {
       let f = f\<lparr>loop_count := 0, last_goto_statement_handled := False\<rparr>;
       f \<leftarrow> on (\<lambda>m. Some (m\<lparr>stree_id_counter := 0\<rparr>)) f;
       f \<leftarrow> (if two_passes then
              do {
                f \<leftarrow> on unnullify_path f;
                f \<leftarrow> start_function_definition W (f\<lparr>loop_num := 0\<rparr>);
                f \<leftarrow> parse_fn_statements W f;
                f \<leftarrow> visit W Call_scope_hooks f;
                on nullify_path f
              }
            else Some f);
       f \<leftarrow> on unnullify_path f;
       f \<leftarrow> start_function_definition W (f\<lparr>loop_num := 0\<rparr>);
       f \<leftarrow> parse_fn_statements W f;
       f \<leftarrow> (if \<not> path_null f \<and> returns_void W \<and> \<not> bail_on_rest_of_function f then
              do {
                f \<leftarrow> visit W Call_all_scope_hooks f;
                f \<leftarrow> visit W (Pass_expr RETURN_HOOK None) f;
                on nullify_path f
              }
            else Some f);
       f \<leftarrow> visit W (Pass_func END_FUNC_HOOK) f;
       visit W (Pass_func AFTER_FUNC_HOOK) f
     }"

definition split_function :: "world \<Rightarrow> bool \<Rightarrow> walk" where
  "split_function W two_passes f =
     do {
       f \<leftarrow> walk_function W two_passes f;
       f \<leftarrow> on clear_all_states f;
       Some (f\<lparr>switch_expr_stack := [], bail_on_rest_of_function := False\<rparr>)
     }"

end
