(* ===== verification/Holders.thy ===== *)
theory Holders
  imports Slist_Merge "HOL-Library.Multiset"
begin

text \<open>
  Ownership of state trees. The program counts references by hand; here the pointers that are held
  at some moment form a multiset, and the reference count of a tree is at least the number of its
  holders. An operation on one of the pointers then leaves the trees of all other holders alone.
\<close>

section \<open>Reference counts\<close>

definition refs :: "store \<Rightarrow> nat \<Rightarrow> nat" where
  "refs st c = (case trees st c of None \<Rightarrow> 0 | Some t \<Rightarrow> references t)"

text \<open>The trees that another tree has as its base; the reference for that is never dropped.\<close>

definition bases :: "store \<Rightarrow> nat set" where
  "bases st = {b. \<exists>a t. trees st a = Some t \<and> base_stree t = Some b}"

definition held :: "store \<Rightarrow> nat option multiset \<Rightarrow> bool" where
  "held st H \<longleftrightarrow> store_ok st
     \<and> (\<forall>c. multiset.count H (Some c) + of_bool (c \<in> bases st) \<le> refs st c)
     \<and> (\<forall>c. Some c \<in># H \<longrightarrow> view st (Some c) \<noteq> Map.empty)"

text \<open>
  How counts change when the holder of \<open>p\<close> comes to hold \<open>p'\<close> instead.
\<close>

definition shift :: "store \<Rightarrow> nat option \<Rightarrow> store \<Rightarrow> nat option \<Rightarrow> bool" where
  "shift st p st' p' \<longleftrightarrow> bases st' \<subseteq> bases st
     \<and> (\<forall>c. refs st c + of_bool (p' = Some c) \<le> refs st' c + of_bool (p = Some c))"

lemma shift_refl [simp]: "shift st p st p"
  by (simp add: shift_def)

lemma shift_trans: "shift st p st1 p1 \<Longrightarrow> shift st1 p1 st2 p2 \<Longrightarrow> shift st p st2 p2"
proof -
  assume 1: "shift st p st1 p1" and 2: "shift st1 p1 st2 p2"
  have "refs st c + of_bool (p2 = Some c) \<le> refs st2 c + of_bool (p = Some c)" for c
  proof -
    have "refs st c + of_bool (p1 = Some c) \<le> refs st1 c + of_bool (p = Some c)"
      "refs st1 c + of_bool (p2 = Some c) \<le> refs st2 c + of_bool (p1 = Some c)"
      using 1 2 by (simp_all add: shift_def)
    then show ?thesis by linarith
  qed
  then show ?thesis using 1 2 by (auto simp: shift_def)
qed

lemma held_ok: "held st H \<Longrightarrow> store_ok st"
  by (simp add: held_def)

lemma held_refs: "held st H \<Longrightarrow> multiset.count H (Some c) \<le> refs st c"
  unfolding held_def by (metis add_leD1)

lemma refs_pos: "refs st c > 0 \<Longrightarrow> trees st c \<noteq> None"
  by (auto simp: refs_def split: option.splits)

lemma held_live: "held st H \<Longrightarrow> Some c \<in># H \<Longrightarrow> trees st c \<noteq> None"
  using held_refs [of st H c] refs_pos [of st c] by (simp add: count_greater_zero_iff [symmetric] del: count_greater_zero_iff)

lemma held_valid [intro]: "held st H \<Longrightarrow> p \<in># H \<Longrightarrow> valid st p"
  using held_live by (auto simp: valid_def)

lemma held_base_live: "held st H \<Longrightarrow> b \<in> bases st \<Longrightarrow> trees st b \<noteq> None"
proof -
  assume "held st H" "b \<in> bases st"
  then have "multiset.count H (Some b) + 1 \<le> refs st b" unfolding held_def by (metis of_bool_eq(2))
  then show ?thesis by (intro refs_pos) simp
qed

lemma held_shared:
  assumes "held st (add_mset (Some c) H)" "Some c \<in># H"
  shows "shared st c"
proof -
  have "multiset.count (add_mset (Some c) H) (Some c) \<ge> 2"
    using assms(2) by (simp add: Suc_le_eq)
  then have "refs st c > 1" using held_refs [OF assms(1), of c] by linarith
  then show ?thesis by (auto simp: refs_def shared_def split: option.splits)
qed

lemma held_subset: "held st H \<Longrightarrow> K \<subseteq># H \<Longrightarrow> held st K"
  unfolding held_def by (meson add_le_mono1 le_trans mset_subset_eqD mset_subset_eq_count)

lemma held_drop: "held st (add_mset p H) \<Longrightarrow> held st H"
  by (erule held_subset) simp

lemma held_NULL [simp]: "held st (add_mset None H) \<longleftrightarrow> held st H"
  by (simp add: held_def)

lemma view_nonempty: "held st H \<Longrightarrow> Some c \<in># H \<Longrightarrow> view st (Some c) \<noteq> Map.empty"
  by (simp add: held_def)

text \<open>The tree of a pointer that is held is NULL exactly if its map is empty.\<close>

lemma held_null_iff: "held st H \<Longrightarrow> p \<in># H \<Longrightarrow> p = None \<longleftrightarrow> view st p = Map.empty"
  by (cases p) (auto simp: view_nonempty)

text \<open>A step that moves a holder from one pointer to another.\<close>

definition moved :: "store \<Rightarrow> nat option \<Rightarrow> store \<Rightarrow> nat option \<Rightarrow> bool" where
  "moved st p st' p' \<longleftrightarrow> store_ok st' \<and> shift st p st' p'
     \<and> (\<forall>c. trees st c \<noteq> None \<longrightarrow> (p = Some c \<longrightarrow> shared st c) \<longrightarrow>
          p' \<noteq> Some c \<and> view st' (Some c) = view st (Some c))"

lemma held_moved:
  assumes "held st (add_mset p H)" "moved st p st' p'" "p' = None \<or> view st' p' \<noteq> Map.empty"
  shows "held st' (add_mset p' H)" "\<And>q. q \<in># H \<Longrightarrow> view st' q = view st q"
proof -
  have fr: "view st' (Some c) = view st (Some c)" if "Some c \<in># H" for c
  proof -
    have "trees st c \<noteq> None" using held_live [OF assms(1)] that by simp
    moreover have "p = Some c \<longrightarrow> shared st c" using held_shared [of st c H] assms(1) that by auto
    ultimately show ?thesis using assms(2) by (simp add: moved_def)
  qed
  then show "view st' q = view st q" if "q \<in># H" for q using that by (cases q) auto
  have "multiset.count (add_mset p' H) (Some c) + of_bool (c \<in> bases st') \<le> refs st' c" for c
  proof -
    have old: "multiset.count H (Some c) + of_bool (p = Some c) + of_bool (c \<in> bases st) \<le> refs st c"
      using assms(1) by (auto simp: held_def dest: spec [of _ c])
    have new: "refs st c + of_bool (p' = Some c) \<le> refs st' c + of_bool (p = Some c)"
      "bases st' \<subseteq> bases st"
      using assms(2) by (auto simp: moved_def shift_def)
    then have "(of_bool (c \<in> bases st') :: nat) \<le> of_bool (c \<in> bases st)" by auto
    with old new(1) have "multiset.count H (Some c) + of_bool (p' = Some c) + of_bool (c \<in> bases st') \<le> refs st' c"
      by linarith
    then show ?thesis by (auto split: if_splits)
  qed
  moreover have "store_ok st'" using assms(2) by (simp add: moved_def)
  moreover have "view st' (Some c) \<noteq> Map.empty" if "Some c \<in># add_mset p' H" for c
    using that assms(3) fr view_nonempty [OF assms(1), of c] by auto
  ultimately show "held st' (add_mset p' H)" by (simp add: held_def)
qed

section \<open>The counts under the operations on trees\<close>

lemma refs_set_tree [simp]: "refs (set_tree st a t) c = (if c = a then references t else refs st c)"
  by (simp add: refs_def)

lemma bases_set_tree:
  "trees st a = Some t \<Longrightarrow> base_stree t' = base_stree t \<Longrightarrow> bases (set_tree st a t') = bases st"
proof -
  assume t: "trees st a = Some t" "base_stree t' = base_stree t"
  have "(\<exists>t. trees (set_tree st a t') c = Some t \<and> base_stree t = Some b)
    \<longleftrightarrow> (\<exists>t. trees st c = Some t \<and> base_stree t = Some b)" for b c
    using t by simp
  then show ?thesis unfolding bases_def by presburger
qed

lemma avl_new_shift: "store_ok st \<Longrightarrow> avl_new st = (a, st') \<Longrightarrow> shift st None st' (Some a)"
proof -
  assume a: "store_ok st" "avl_new st = (a, st')"
  note new = avl_new_spec [OF a]
  have base: "base_stree new_stree = None" "references new_stree = 1" by (simp_all add: new_stree_def)
  have "trees st' c = (if c = a then Some new_stree else trees st c)" for c using new(2,4) by simp
  then have "bases st' \<subseteq> bases st" "refs st' c = (if c = a then 1 else refs st c)" for c
    using base by (auto simp: bases_def refs_def split: if_splits)
  then show ?thesis using new(3) by (simp add: shift_def refs_def)
qed

lemma insert_here_refs:
  assumes "insert_here st a s = Some st'"
  shows "refs st' = refs st" "bases st' = bases st"
proof -
  obtain t r c g where t: "trees st a = Some t" "insert_sm (Stree.count t) (st_root t) s = Some (r, c, g)"
    and st': "st' = set_tree st a (t\<lparr>st_root := r, count := c, stree_line := line s,
      has_states := (if owner s \<noteq> USHRT_MAX then (has_states t)(owner s := True) else has_states t)\<rparr>)"
    using assms by (auto simp: insert_here_def split: bind_splits)
  show "refs st' = refs st" unfolding st' using t(1) by (auto simp: refs_def fun_eq_iff)
  show "bases st' = bases st" unfolding st' by (rule bases_set_tree [OF t(1)]) simp
qed

lemma insert_all_here_refs:
  "insert_all_here st a ss = Some st' \<Longrightarrow> refs st' = refs st \<and> bases st' = bases st"
proof (induction ss arbitrary: st)
  case (Cons s ss)
  then obtain st1 where "insert_here st a s = Some st1" "insert_all_here st1 a ss = Some st'"
    by (auto split: bind_splits)
  then show ?case using Cons.IH insert_here_refs by simp
qed simp

lemma clone_stree_real_shift:
  assumes "store_ok st" "clone_stree_real st a = Some (a', st')"
  shows "shift st None st' (Some a')"
proof -
  obtain t where t: "trees st a = Some t" using assms(2) by (auto simp: clone_stree_real_def split: bind_splits)
  obtain st1 where new: "avl_new st = (a', st1)"
    using assms(2) t by (auto simp: clone_stree_real_def avl_new_def split: bind_splits)
  obtain st2 n where ins: "insert_all_here st1 a' (avl_foreach (st_root t)) = Some st2" "trees st2 a' = Some n"
    and st': "st' = set_tree st2 a' (n\<lparr>base_stree := base_stree t\<rparr>)"
    using assms(2) t new by (auto simp: clone_stree_real_def split: bind_splits)
  have 1: "refs st2 = refs st1" "bases st2 = bases st1" using insert_all_here_refs [OF ins(1)] by auto
  have "bases st' \<subseteq> bases st2 \<union> bases st"
    using t ins(2) by (auto simp: st' bases_def split: if_splits)
  moreover have "bases st1 \<subseteq> bases st" using avl_new_shift [OF assms(1) new] by (simp add: shift_def)
  moreover have "refs st' = refs st2" using ins(2) by (auto simp: st' fun_eq_iff refs_def)
  ultimately show ?thesis using avl_new_shift [OF assms(1) new] 1 by (auto simp: shift_def)
qed

lemma unshare_shift:
  assumes "store_ok st" "unshare st a = Some (a', st')"
  shows "shift st (Some a) st' (Some a')"
proof -
  obtain t where t: "trees st a = Some t" using assms(2) by (auto simp: unshare_def split: bind_splits)
  show ?thesis
  proof (cases "references t > 1")
    case True
    let ?st = "set_tree st a (t\<lparr>references := references t - 1\<rparr>)"
    have ok: "store_ok ?st"
      using assms(1) store_okD [OF assms(1) t] True by (intro store_ok_upd) (auto simp: tree_ok_def)
    have c: "clone_stree_real ?st a = Some (a', st')" using assms(2) t True by (simp add: unshare_def)
    have "shift st (Some a) ?st None"
      using t True bases_set_tree [OF t] by (auto simp: shift_def refs_def)
    then show ?thesis using clone_stree_real_shift [OF ok c] by (rule shift_trans)
  next
    case False
    then show ?thesis using assms(2) t by (auto simp: unshare_def)
  qed
qed

lemma free_stree_shift:
  assumes "free_stree st p = Some st'"
  shows "shift st p st' None"
proof (cases p)
  case None
  then show ?thesis using assms by (simp add: free_stree_def)
next
  case (Some a)
  then obtain t where t: "trees st a = Some t" "references t > 0"
    using assms by (auto simp: free_stree_def split: bind_splits if_splits)
  show ?thesis
  proof (cases "references t - 1 = 0")
    case True
    then have "st' = st\<lparr>trees := (trees st)(a := None), unfree_stree := unfree_stree st - 1\<rparr>"
      using assms t Some by (simp add: free_stree_def)
    then show ?thesis using t True Some by (auto simp: shift_def refs_def bases_def split: if_splits)
  next
    case False
    then have "st' = set_tree st a (t\<lparr>references := references t - 1\<rparr>)"
      using assms t Some by (simp add: free_stree_def)
    then show ?thesis using t Some bases_set_tree [OF t(1)] by (auto simp: shift_def refs_def)
  qed
qed

lemma avl_insert_shift:
  assumes "store_ok st" "valid st p" "avl_insert st p s = Some (p', st', new)"
  shows "shift st p st' p'"
proof -
  obtain a0 st0 where start: "(case p of None \<Rightarrow> avl_new st | Some a \<Rightarrow> (a, st)) = (a0, st0)" by fastforce
  have 0: "store_ok st0" "shift st p st0 (Some a0)"
    using start assms(1) avl_new_shift avl_new_spec(1) by (auto split: option.splits)
  obtain a st1 where u: "unshare st0 a0 = Some (a, st1)" and ins: "insert_here st1 a s = Some st'" "p' = Some a"
    using assms(3) start by (auto simp: avl_insert_def split: bind_splits)
  have "shift st1 (Some a) st' (Some a)" using insert_here_refs [OF ins(1)] by (simp add: shift_def)
  then show ?thesis using shift_trans 0 unshare_shift [OF 0(1) u] ins(2) by blast
qed

lemma avl_remove_shift:
  assumes "store_ok st" "avl_remove st p s = Some (p', st', gone)"
  shows "shift st p st' p'"
proof (cases p)
  case None
  then show ?thesis using assms(2) by (simp add: avl_remove_def)
next
  case (Some a0)
  obtain a st1 t r c ret g where u: "unshare st a0 = Some (a, st1)" "trees st1 a = Some t"
    "remove_sm (Stree.count t) (st_root t) s = Some (r, c, ret, g)"
    using assms(2) Some by (auto simp: avl_remove_def split: bind_splits)
  let ?st = "set_tree st1 a (t\<lparr>st_root := r, count := c\<rparr>)"
  have "shift st1 (Some a) ?st (Some a)" using u(2) bases_set_tree [OF u(2)] by (simp add: shift_def refs_def)
  then have 1: "shift st p ?st (Some a)" using unshare_shift [OF assms(1) u(1)] shift_trans Some by blast
  show ?thesis
  proof (cases "c = 0")
    case True
    then have "free_stree ?st (Some a) = Some st'" "p' = None"
      using assms(2) Some u by (auto simp: avl_remove_def split: bind_splits)
    then show ?thesis using 1 free_stree_shift shift_trans by blast
  next
    case False
    then show ?thesis using 1 assms(2) Some u by (auto simp: avl_remove_def)
  qed
qed

section \<open>The contract of the store for the holders of trees\<close>

lemma view_empty_iff: "trees st a = Some t \<Longrightarrow> view st (Some a) = Map.empty \<longleftrightarrow> inorder (st_root t) = []"
  by (cases "inorder (st_root t)") (auto simp: fun_eq_iff view_Some find_key_def find_None_iff)

lemma insert_moved:
  assumes "store_ok st" "valid st p"
  shows "\<exists>a st'. overwrite_sm_state_stree st p v = Some (Some a, st') \<and> moved st p st' (Some a)
    \<and> view st' (Some a) = (view st p)(key v \<mapsto> v)"
proof -
  obtain a st' new where i: "avl_insert st p v = Some (Some a, st', new)" "store_ok st'"
    "view st' (Some a) = (view st p)(key v \<mapsto> v)"
    "\<forall>c. trees st c \<noteq> None \<longrightarrow> (p = Some c \<longrightarrow> shared st c) \<longrightarrow>
       a \<noteq> c \<and> trees st' c \<noteq> None \<and> view st' (Some c) = view st (Some c)"
    using avl_insert_spec [OF assms, of v] by blast
  have "moved st p st' (Some a)"
    using i avl_insert_shift [OF assms i(1)] unfolding moved_def by (metis option.inject)
  then show ?thesis using i(1,3) by (simp add: overwrite_sm_state_stree_def)
qed

lemma insert_held:
  assumes "held st (add_mset p H)"
  shows "\<exists>q st'. overwrite_sm_state_stree st p v = Some (q, st') \<and> held st' (add_mset q H)
    \<and> view st' q = (view st p)(key v \<mapsto> v) \<and> (\<forall>r \<in># H. view st' r = view st r)"
proof -
  have "store_ok st" "valid st p" using assms held_ok held_valid by auto
  from insert_moved [OF this, of v] obtain a st' where i:
    "overwrite_sm_state_stree st p v = Some (Some a, st')" "moved st p st' (Some a)"
    "view st' (Some a) = (view st p)(key v \<mapsto> v)" by blast
  have "view st' (Some a) \<noteq> Map.empty" unfolding i(3) by simp
  with held_moved [OF assms i(2)] show ?thesis using i(1,3) by blast
qed

lemma remove_nonempty:
  assumes "store_ok st" "valid st p" "avl_remove st p s = Some (Some a, st', gone)"
  shows "view st' (Some a) \<noteq> Map.empty"
proof -
  obtain a0 where p: "p = Some a0" using assms(3) by (cases p) (auto simp: avl_remove_def)
  then obtain t0 where t0: "trees st a0 = Some t0" using assms(2) by (auto simp: valid_def)
  obtain st1 t r c ret g where u: "unshare st a0 = Some (a, st1)" "trees st1 a = Some t"
    "remove_sm (Stree.count t) (st_root t) s = Some (r, c, ret, g)" "c \<noteq> 0"
    "st' = set_tree st1 a (t\<lparr>st_root := r, count := c\<rparr>)"
    using assms(3) p by (auto simp: avl_remove_def Let_def split: bind_splits if_splits)
  have "store_ok st1" using unshare_spec [OF assms(1) t0] u(1) by auto
  then have "tree_ok t" using store_okD u(2) by blast
  then have "tree_ok (t\<lparr>st_root := r, count := c\<rparr>)" using remove_here_ok(1) u(3) by blast
  then have "inorder r \<noteq> []" using u(4) by (auto simp: tree_ok_def countNode_inorder)
  then show ?thesis using view_empty_iff [of st' a "t\<lparr>st_root := r, count := c\<rparr>"] u(5) by simp
qed

lemma delete_held:
  assumes "held st (add_mset p H)"
  shows "\<exists>q st'. delete_state_stree st p ow nm sy = Some (q, st') \<and> held st' (add_mset q H)
    \<and> view st' q = (view st p)(TKey ow nm sy := None) \<and> (\<forall>r \<in># H. view st' r = view st r)"
proof -
  let ?k = "\<lparr>name = nm, sym = sy, owner = ow\<rparr>"
  have ok: "store_ok st" "valid st p" using assms held_ok held_valid by auto
  from avl_remove_spec [OF ok, of ?k] obtain q st' gone where r: "avl_remove st p ?k = Some (q, st', gone)"
    "store_ok st'" "view st' q = (view st p)(TKey ow nm sy := None)"
    "\<forall>c. trees st c \<noteq> None \<longrightarrow> (p = Some c \<longrightarrow> shared st c) \<longrightarrow>
       q \<noteq> Some c \<and> trees st' c \<noteq> None \<and> view st' (Some c) = view st (Some c)"
    by (auto simp: key_def)
  have "moved st p st' q" using r avl_remove_shift [OF ok(1) r(1)] unfolding moved_def by blast
  moreover have "q = None \<or> view st' q \<noteq> Map.empty" using remove_nonempty [OF ok] r(1) by (cases q) auto
  ultimately have "held st' (add_mset q H)" "\<And>r. r \<in># H \<Longrightarrow> view st' r = view st r"
    using held_moved [OF assms] by blast+
  then show ?thesis using r(1,3) by (auto simp: delete_state_stree_def)
qed

lemma free_held:
  assumes "held st (add_mset p H)"
  shows "\<exists>st'. free_stree st p = Some st' \<and> held st' H \<and> (\<forall>r \<in># H. view st' r = view st r)"
proof (cases p)
  case None
  then show ?thesis using assms by (simp add: free_stree_def)
next
  case (Some a)
  then obtain t where t: "trees st a = Some t" using held_live [OF assms] by auto
  have ok: "store_ok st" using assms by (rule held_ok)
  from free_stree_spec [OF ok t] obtain st' where f: "free_stree st p = Some st'" "store_ok st'"
    "\<forall>c. c \<noteq> a \<longrightarrow> trees st' c = trees st c" "shared st a \<longrightarrow> view st' (Some a) = view st (Some a)"
    unfolding Some by auto
  have "view st' (Some c) = view st (Some c)" if "p = Some c \<longrightarrow> shared st c" for c
    using that f(3,4) view_cong [of st' c st] Some by (cases "c = a") auto
  then have "moved st p st' None" using free_stree_shift [OF f(1)] f(2) by (simp add: moved_def)
  then show ?thesis using f(1) held_moved [OF assms, of st' None] by auto
qed

lemma clone_held:
  assumes "held st H" "p \<in># H"
  shows "\<exists>st'. clone_stree st p = Some (p, st') \<and> held st' (add_mset p H) \<and> (\<forall>r. view st' r = view st r)"
proof (cases p)
  case None
  then show ?thesis using assms by (simp add: clone_stree_def)
next
  case (Some a)
  then obtain t where t: "trees st a = Some t" using held_live assms by blast
  have "store_ok st" "valid st p" using assms held_ok by auto
  from clone_stree_spec [OF this] obtain st' where c: "clone_stree st p = Some (p, st')" "store_ok st'"
    "\<forall>q. view st' q = view st q" by blast
  then have st': "st' = set_tree st a (t\<lparr>references := references t + 1\<rparr>)" using t Some by (simp add: clone_stree_def)
  have "bases st' = bases st" unfolding st' by (rule bases_set_tree [OF t]) simp
  moreover have "refs st' c = refs st c + of_bool (c = a)" for c using t by (simp add: st' refs_def)
  ultimately have "held st' (add_mset p H)"
    using assms c(2,3) unfolding held_def by (auto simp: Some)
  then show ?thesis using c by blast
qed

lemma elems_held:
  assumes "held st H" "p \<in># H"
  shows "\<exists>xs. states_of st p = Some xs \<and> sorted_sms xs \<and> (\<lambda>k. find_key k xs) = view st p"
  using states_of_spec [of st p] assms held_ok held_valid by (auto simp: fun_eq_iff)

text \<open>
  The contract: the pointers that are held denote finite maps, and each operation changes the map
  of its own pointer only.
\<close>

locale owned_maps =
  fixes own :: "'s \<Rightarrow> 'p option multiset \<Rightarrow> bool" and val :: "'s \<Rightarrow> 'p option \<Rightarrow> 'k \<Rightarrow> 'v option"
    and vkey :: "'v \<Rightarrow> 'k" and ins :: "'s \<Rightarrow> 'p option \<Rightarrow> 'v \<Rightarrow> ('p option \<times> 's) option"
    and free :: "'s \<Rightarrow> 'p option \<Rightarrow> 's option" and clone :: "'s \<Rightarrow> 'p option \<Rightarrow> ('p option \<times> 's) option"
  assumes val_NULL: "val st None = Map.empty"
    and own_NULL: "own st (add_mset None H) \<longleftrightarrow> own st H"
    and ins_own: "own st (add_mset p H) \<Longrightarrow> \<exists>q st'. ins st p v = Some (q, st') \<and> own st' (add_mset q H)
      \<and> val st' q = (val st p)(vkey v \<mapsto> v) \<and> (\<forall>r \<in># H. val st' r = val st r)"
    and free_own: "own st (add_mset p H) \<Longrightarrow>
      \<exists>st'. free st p = Some st' \<and> own st' H \<and> (\<forall>r \<in># H. val st' r = val st r)"
    and clone_own: "own st H \<Longrightarrow> p \<in># H \<Longrightarrow>
      \<exists>st'. clone st p = Some (p, st') \<and> own st' (add_mset p H) \<and> (\<forall>r \<in># H. val st' r = val st r)"

text \<open>Inserting a list of values, and freeing a list of pointers, one after the other.\<close>

fun ins_each :: "('s \<Rightarrow> 'p option \<Rightarrow> 'v \<Rightarrow> ('p option \<times> 's) option) \<Rightarrow> 's \<Rightarrow> 'p option \<Rightarrow> 'v list \<Rightarrow>
    ('p option \<times> 's) option" where
  "ins_each ins st p [] = Some (p, st)"
| "ins_each ins st p (v # vs) = do { (p, st) \<leftarrow> ins st p v; ins_each ins st p vs }"

fun free_each :: "('s \<Rightarrow> 'p option \<Rightarrow> 's option) \<Rightarrow> 's \<Rightarrow> 'p option list \<Rightarrow> 's option" where
  "free_each free st [] = Some st"
| "free_each free st (p # ps) = do { st \<leftarrow> free st p; free_each free st ps }"

context owned_maps
begin

lemma ins_each_own:
  assumes "own st (add_mset p H)"
  shows "\<exists>q st'. ins_each ins st p vs = Some (q, st') \<and> own st' (add_mset q H)
    \<and> val st' q = fold (\<lambda>v m. m(vkey v \<mapsto> v)) vs (val st p) \<and> (\<forall>r \<in># H. val st' r = val st r)"
  using assms
proof (induction vs arbitrary: st p)
  case (Cons v vs)
  obtain q st1 where q: "ins st p v = Some (q, st1)" "own st1 (add_mset q H)"
    "val st1 q = (val st p)(vkey v \<mapsto> v)" "\<forall>r \<in># H. val st1 r = val st r"
    using ins_own [OF Cons.prems] by blast
  from Cons.IH [OF q(2)] show ?case using q by (auto simp: fold_Cons)
qed simp

lemma free_each_own:
  assumes "own st (mset ps + H)"
  shows "\<exists>st'. free_each free st ps = Some st' \<and> own st' H \<and> (\<forall>r \<in># H. val st' r = val st r)"
  using assms
proof (induction ps arbitrary: st)
  case (Cons p ps)
  then have "own st (add_mset p (mset ps + H))" by simp
  from free_own [OF this] obtain st1 where "free st p = Some st1" "own st1 (mset ps + H)"
    "\<forall>r \<in># mset ps + H. val st1 r = val st r" by blast
  then show ?case using Cons.IH [of st1] by auto
qed simp

end

interpretation ow: owned_maps held view key overwrite_sm_state_stree free_stree clone_stree
proof unfold_locales
  fix st H p assume "held st H" "p \<in># H"
  then show "\<exists>st'. clone_stree st p = Some (p, st') \<and> held st' (add_mset p H) \<and> (\<forall>r \<in># H. view st' r = view st r)"
    using clone_held by blast
qed (simp_all add: insert_held free_held)

section \<open>Operations on whole trees\<close>

lemma insert_each_ins_each: "insert_each avl_insert st p vs = ins_each overwrite_sm_state_stree st p vs"
  by (induction vs arbitrary: st p) (auto simp: overwrite_sm_state_stree_def split: bind_splits)

lemma free_stack_free_each: "free_stack_and_strees st ps = free_each free_stree st ps"
  by (induction ps arbitrary: st) (auto split: bind_splits)

lemma overwrite_held:
  assumes "held st (add_mset p H)" "from \<in># add_mset p H"
  shows "\<exists>q st'. overwrite_stree st from p = Some (q, st') \<and> held st' (add_mset q H)
    \<and> view st' q = view st p ++ view st from \<and> (\<forall>r \<in># H. view st' r = view st r)"
proof -
  obtain xs where xs: "states_of st from = Some xs" "sorted_sms xs" "(\<lambda>k. find_key k xs) = view st from"
    using elems_held [OF assms] by blast
  show ?thesis
    using ow.ins_each_own [OF assms(1), of xs] xs fold_upd_find [OF xs(2), of "view st p"]
    by (auto simp: overwrite_stree_def insert_each_ins_each)
qed

lemma filter_held:
  assumes "held st (add_mset p H)" "filt \<in># add_mset p H"
  shows "\<exists>q st'. filter_stree st p filt = Some (q, st') \<and> held st' (add_mset q H)
    \<and> view st' q = (\<lambda>k. unless_same (view st p k) (view st filt k)) \<and> (\<forall>r \<in># H. view st' r = view st r)"
proof -
  obtain xs where xs: "states_of st p = Some xs" "sorted_sms xs" "(\<lambda>k. find_key k xs) = view st p"
    using elems_held [OF assms(1)] by auto
  obtain ys where ys: "states_of st filt = Some ys" "sorted_sms ys" "(\<lambda>k. find_key k ys) = view st filt"
    using elems_held [OF assms] by auto
  let ?zs = "filter_walk xs ys"
  have zs: "sorted_sms ?zs" "(\<lambda>k. find_key k ?zs) = (\<lambda>k. unless_same (view st p k) (view st filt k))"
    using filter_walk_spec [OF xs(2) ys(2)] sorted_sms_filter [OF xs(2)] find_key_filter [OF xs(2) ys(2)] xs(3) ys(3)
    by (auto simp: fun_eq_iff)
  have "held st (add_mset None (add_mset p H))" using assms(1) by simp
  from ow.ins_each_own [OF this, of ?zs] obtain q st1 where q:
    "ins_each overwrite_sm_state_stree st None ?zs = Some (q, st1)" "held st1 (add_mset p (add_mset q H))"
    "view st1 q = fold (\<lambda>v m. m(key v \<mapsto> v)) ?zs (view st None)" "\<forall>r \<in># add_mset p H. view st1 r = view st r"
    by (auto simp: add_mset_commute)
  have "view st1 q = (\<lambda>k. unless_same (view st p k) (view st filt k))"
    using q(3) fold_upd_find [OF zs(1), of "view st None"] zs(2) by (simp add: map_add_def)
  moreover obtain st' where "free_stree st1 p = Some st'" "held st' (add_mset q H)"
    "\<forall>r \<in># add_mset q H. view st' r = view st1 r"
    using free_held [OF q(2)] by blast
  ultimately show ?thesis
    using xs(1) ys(1) q(1,4) by (auto simp: filter_stree_def insert_each_ins_each)
qed

end
