(* ===== verification/States_Repr.thy ===== *)
theory States_Repr
  imports Flow_States Holders
begin

text \<open>
  The analysis state as a value: every pointer to a tree stands for the finite map of its states.
  \<open>repr\<close> relates a machine, together with the pointers an operation holds in local variables, to
  that value, and the laws below carry the relation through the steps that operations are made of.
\<close>

section \<open>Pointers and their maps\<close>

type_synonym smap = "tkey \<rightharpoonup> sm_state"

fun saved_ptrs :: "'p saved \<Rightarrow> 'p list" where
  "saved_ptrs (Saved_stree p) = [p]"
| "saved_ptrs (Saved_stack s) = s"
| "saved_ptrs (Saved_cases c) = []"
| "saved_ptrs (Saved_gotos g) = map ns_stree g"

definition holders :: "('p, 'z) stacks_scheme \<Rightarrow> 'p multiset" where
  "holders m = add_mset (cur_stree m)
     (mset (true_stack m) + mset (false_stack m) + mset (pre_cond_stack m) + mset (cond_true_stack m)
      + mset (cond_false_stack m) + mset (fake_cur_stree_stack m) + mset (break_stack m)
      + mset (fake_break_stack m) + mset (switch_stack m) + mset (default_stack m) + mset (continue_stack m)
      + mset (map ns_stree (goto_stack m)) + mset (concat (map saved_ptrs (backup m))) + mset (all_pools m))"

definition map_stacks :: "('p \<Rightarrow> 'q) \<Rightarrow> ('p, 'z) stacks_scheme \<Rightarrow> 'q stacks" where
  "map_stacks f m =
     \<lparr>cur_stree = f (cur_stree m), true_stack = map f (true_stack m), false_stack = map f (false_stack m),
      pre_cond_stack = map f (pre_cond_stack m), cond_true_stack = map f (cond_true_stack m),
      cond_false_stack = map f (cond_false_stack m), fake_cur_stree_stack = map f (fake_cur_stree_stack m),
      break_stack = map f (break_stack m), fake_break_stack = map f (fake_break_stack m),
      switch_stack = map f (switch_stack m), default_stack = map f (default_stack m),
      continue_stack = map f (continue_stack m), goto_stack = map (map_named_stree f) (goto_stack m),
      backup = map (map_saved f) (backup m), all_pools = map f (all_pools m)\<rparr>"

definition stacks_of :: "machine \<Rightarrow> smap stacks" where
  "stacks_of m = map_stacks (view (strees m)) m"

text \<open>What is not a tree.\<close>

record control =
  c_overlay :: "nat option"
  c_fast_math :: int
  c_cases :: "range_list list"
  c_read_only :: int
  c_goto :: int
  c_unmatched :: int
  c_fake_cnt :: int
  c_perrors :: "string list"

definition control_of :: "machine \<Rightarrow> control" where
  "control_of m =
     \<lparr>c_overlay = fast_overlay m, c_fast_math = fast_math_only m, c_cases = remaining_cases m,
      c_read_only = read_only m, c_goto = in_goto_merge m, c_unmatched = in_unmatched_hook m,
      c_fake_cnt = fake_state_cnt m, c_perrors = perrors m\<rparr>"

definition repr :: "machine \<Rightarrow> nat option list \<Rightarrow> smap stacks \<Rightarrow> smap list \<Rightarrow> bool" where
  "repr m ps S vs \<longleftrightarrow> held (strees m) (holders m + mset ps) \<and> stacks_of m = S \<and> map (view (strees m)) ps = vs"

lemma map_named: "map_named_stree f x = Named_stree (ns_name x) (ns_sym x) (f (ns_stree x))"
  by (cases x) simp

lemma map_stacks_cong:
  assumes "\<And>p. p \<in># holders m \<Longrightarrow> f p = g p"
  shows "map_stacks f m = map_stacks g m"
proof -
  have g: "map (map_named_stree f) (goto_stack m) = map (map_named_stree g) (goto_stack m)"
    using assms by (auto simp: holders_def map_named)
  have "map_saved f x = map_saved g x" if "x \<in> set (backup m)" for x
  proof -
    have "f p = g p" if "p \<in> set (saved_ptrs x)" for p
      using assms that \<open>x \<in> set (backup m)\<close> by (auto simp: holders_def)
    then show ?thesis by (cases x) (auto simp: map_named)
  qed
  then show ?thesis using g assms by (auto simp: map_stacks_def holders_def)
qed

text \<open>A step that changes only the store keeps the stacks and the maps of all other locals.\<close>

lemma repr_store:
  assumes "repr m ps S vs" "held st' (holders m + mset ps')"
    "\<And>p. p \<in># holders m \<Longrightarrow> view st' p = view (strees m) p"
  shows "repr (m\<lparr>strees := st'\<rparr>) ps' S (map (view st') ps')"
proof -
  have "holders (m\<lparr>strees := st'\<rparr>) = holders m" by (simp add: holders_def)
  moreover have "map_stacks (view st') (m\<lparr>strees := st'\<rparr>) = map_stacks (view st') m" by (simp add: map_stacks_def)
  moreover have "map_stacks (view st') m = map_stacks (view (strees m)) m"
    using assms(3) by (intro map_stacks_cong)
  ultimately show ?thesis using assms by (simp add: repr_def stacks_of_def)
qed

lemma repr_perm:
  assumes "mset (zip ps vs) = mset (zip ps' vs')" "length ps = length vs" "length ps' = length vs'"
  shows "repr m ps S vs \<longleftrightarrow> repr m ps' S vs'"
proof -
  have m: "mset ps = mset ps'" using arg_cong [OF assms(1), of "image_mset fst"] assms(2,3)
    by (simp flip: mset_map)
  have "map (view (strees m)) ps = vs \<longleftrightarrow> (\<forall>(p, v) \<in> set (zip ps vs). view (strees m) p = v)" if "length ps = length vs" for ps vs
    using that by (induction ps vs rule: list_induct2) auto
  moreover have "set (zip ps vs) = set (zip ps' vs')" using assms(1) by (metis set_mset_mset)
  ultimately show ?thesis using assms(2,3) m by (simp add: repr_def)
qed

lemma repr_swap: "repr m (p # q # ps) S (v # w # vs) \<Longrightarrow> length ps = length vs \<Longrightarrow> repr m (q # p # ps) S (w # v # vs)"
  by (subst repr_perm [of _ _ "p # q # ps" "v # w # vs"]) auto

lemma repr_len: "repr m ps S vs \<Longrightarrow> length ps = length vs"
  by (auto simp: repr_def)

lemma repr_view: "repr m ps S vs \<Longrightarrow> map (view (strees m)) ps = vs"
  by (simp add: repr_def)

lemma repr_cur: "repr m ps S vs \<Longrightarrow> cur_stree S = view (strees m) (cur_stree m)"
  by (auto simp: repr_def stacks_of_def map_stacks_def)


section \<open>Steps on the store\<close>

text \<open>The pointers in hand: those of the machine and the locals.\<close>

abbreviation hand :: "machine \<Rightarrow> nat option list \<Rightarrow> nat option multiset" where
  "hand m ps \<equiv> holders m + mset ps"

lemma clone_step:
  assumes "repr m ps S vs" "p \<in># hand m ps"
  shows "\<exists>st'. clone_tree p m = Some (p, m\<lparr>strees := st'\<rparr>)
    \<and> repr (m\<lparr>strees := st'\<rparr>) (p # ps) S (view (strees m) p # vs)"
proof -
  have h: "held (strees m) (hand m ps)" using assms(1) by (simp add: repr_def)
  from clone_held [OF h assms(2)] obtain st' where c: "clone_stree (strees m) p = Some (p, st')"
    "held st' (hand m (p # ps))" "\<forall>r. view st' r = view (strees m) r" by auto
  have "map (view st') (p # ps) = view (strees m) p # vs" using c(3) repr_view [OF assms(1)] by auto
  with repr_store [OF assms(1) c(2)] c(1,3) show ?thesis
    by (intro exI [of _ st']) (simp add: clone_tree_def)
qed

lemma free_step:
  assumes "repr m (p # ps) S (v # vs)"
  shows "\<exists>st'. free_tree p m = Some (m\<lparr>strees := st'\<rparr>) \<and> repr (m\<lparr>strees := st'\<rparr>) ps S vs"
proof -
  have h: "held (strees m) (add_mset p (hand m ps))" using assms by (simp add: repr_def)
  from free_held [OF h] obtain st' where f: "free_stree (strees m) p = Some st'" "held st' (hand m ps)"
    "\<forall>r \<in># hand m ps. view st' r = view (strees m) r" by blast
  have "map (view st') ps = vs" using f(3) repr_view [OF assms] by auto
  with repr_store [OF assms f(2)] f show ?thesis
    by (intro exI [of _ st']) (simp add: free_tree_def)
qed

text \<open>A step that replaces the pointer in the first local.\<close>

lemma replace_step:
  assumes "repr m (p # ps) S (v # vs)" "held st' (add_mset q (hand m ps))"
    "\<forall>r \<in># hand m ps. view st' r = view (strees m) r" "view st' q = w"
  shows "repr (m\<lparr>strees := st'\<rparr>) (q # ps) S (w # vs)"
proof -
  have "map (view st') (q # ps) = w # vs" using assms(3,4) repr_view [OF assms(1)] by auto
  moreover have "held st' (hand m (q # ps))" using assms(2) by simp
  ultimately show ?thesis using repr_store [OF assms(1), of st' "q # ps"] assms(3) by simp
qed

lemma repr_held: "repr m (p # ps) S (v # vs) \<Longrightarrow> held (strees m) (add_mset p (hand m ps)) \<and> v = view (strees m) p"
  by (auto simp: repr_def)

lemma insert_step:
  assumes "repr m (p # ps) S (v # vs)"
  shows "\<exists>q st'. insert_tree p x m = Some (q, m\<lparr>strees := st'\<rparr>)
    \<and> repr (m\<lparr>strees := st'\<rparr>) (q # ps) S (v(key x \<mapsto> x) # vs)"
proof -
  note h = repr_held [OF assms]
  from insert_held [OF h [THEN conjunct1], of x] obtain q st' where
    i: "overwrite_sm_state_stree (strees m) p x = Some (q, st')"
      "held st' (add_mset q (hand m ps))" "view st' q = (view (strees m) p)(key x \<mapsto> x)"
      "\<forall>r \<in># hand m ps. view st' r = view (strees m) r" by blast
  from replace_step [OF assms i(2,4,3)] h i(1) show ?thesis
    by (intro exI [of _ q] exI [of _ st']) (simp add: insert_tree_def)
qed

lemma insert_all_step:
  assumes "repr m (p # ps) S (v # vs)"
  shows "\<exists>q st'. insert_all_tree p xs m = Some (q, m\<lparr>strees := st'\<rparr>)
    \<and> repr (m\<lparr>strees := st'\<rparr>) (q # ps) S (fold (\<lambda>x f. f(key x \<mapsto> x)) xs v # vs)"
  using assms
proof (induction xs arbitrary: m p v)
  case Nil
  then show ?case by (intro exI [of _ p] exI [of _ "strees m"]) simp
next
  case (Cons x xs)
  from insert_step [OF Cons.prems, of x] obtain q st1 where q: "insert_tree p x m = Some (q, m\<lparr>strees := st1\<rparr>)"
    "repr (m\<lparr>strees := st1\<rparr>) (q # ps) S (v(key x \<mapsto> x) # vs)" by blast
  from Cons.IH [OF q(2)] q(1) show ?case by fastforce
qed

lemma overwrite_step:
  assumes "repr m (p # ps) S (v # vs)" "from \<in># add_mset p (hand m ps)"
  shows "\<exists>q st'. overwrite_tree from p m = Some (q, m\<lparr>strees := st'\<rparr>)
    \<and> repr (m\<lparr>strees := st'\<rparr>) (q # ps) S ((v ++ view (strees m) from) # vs)"
proof -
  note h = repr_held [OF assms(1)]
  from overwrite_held [OF h [THEN conjunct1] assms(2)] obtain q st' where
    i: "overwrite_stree (strees m) from p = Some (q, st')"
      "held st' (add_mset q (hand m ps))" "view st' q = view (strees m) p ++ view (strees m) from"
      "\<forall>r \<in># hand m ps. view st' r = view (strees m) r" by blast
  from replace_step [OF assms(1) i(2,4,3)] h i(1) show ?thesis
    by (intro exI [of _ q] exI [of _ st']) (simp add: overwrite_tree_def)
qed

lemma filter_step:
  assumes "repr m (p # ps) S (v # vs)" "filt \<in># add_mset p (hand m ps)"
  shows "\<exists>q st'. filter_tree p filt m = Some (q, m\<lparr>strees := st'\<rparr>)
    \<and> repr (m\<lparr>strees := st'\<rparr>) (q # ps) S ((\<lambda>k. unless_same (v k) (view (strees m) filt k)) # vs)"
proof -
  note h = repr_held [OF assms(1)]
  from filter_held [OF h [THEN conjunct1] assms(2)] obtain q st' where
    i: "filter_stree (strees m) p filt = Some (q, st')" "held st' (add_mset q (hand m ps))"
      "view st' q = (\<lambda>k. unless_same (view (strees m) p k) (view (strees m) filt k))"
      "\<forall>r \<in># hand m ps. view st' r = view (strees m) r" by blast
  from replace_step [OF assms(1) i(2,4,3)] h i(1) show ?thesis
    by (intro exI [of _ q] exI [of _ st']) (simp add: filter_tree_def)
qed

lemma delete_step:
  assumes "repr m (p # ps) S (v # vs)"
  shows "\<exists>q st'. delete_tree p ow nm sy m = Some (q, m\<lparr>strees := st'\<rparr>)
    \<and> repr (m\<lparr>strees := st'\<rparr>) (q # ps) S (v(TKey ow nm sy := None) # vs)"
proof -
  note h = repr_held [OF assms]
  from delete_held [OF h [THEN conjunct1], of ow nm sy] obtain q st' where
    i: "delete_state_stree (strees m) p ow nm sy = Some (q, st')" "held st' (add_mset q (hand m ps))"
      "view st' q = (view (strees m) p)(TKey ow nm sy := None)"
      "\<forall>r \<in># hand m ps. view st' r = view (strees m) r" by blast
  from replace_step [OF assms i(2,4,3)] h i(1) show ?thesis
    by (intro exI [of _ q] exI [of _ st']) (simp add: delete_tree_def)
qed

section \<open>Moving pointers between variables\<close>

text \<open>The map of the top of a stack; an empty stack gives NULL, which stands for the empty map.\<close>

definition top_map :: "smap list \<Rightarrow> smap" where
  "top_map s = (if s = [] then Map.empty else last s)"

lemma view_top: "view st (top_stree s) = top_map (map (view st) s)"
  by (simp add: top_stree_def top_map_def last_map)

lemma top_map_snoc [simp]: "top_map (s @ [v]) = v"
  by (simp add: top_map_def)

lemma held_pop: "held st (mset s + H) \<longleftrightarrow> held st (add_mset (top_stree s) (mset (butlast s) + H))"
proof (cases "s = []")
  case False
  then have "mset s = add_mset (last s) (mset (butlast s))" by (cases s rule: rev_cases) auto
  then show ?thesis using False by (simp add: top_stree_def)
qed (simp add: top_stree_def)

text \<open>
  A stack of the machine, as the program pops and pushes it, and as the value sees it.
\<close>

locale stack_field =
  fixes get :: "machine \<Rightarrow> nat option list" and upd :: "nat option list \<Rightarrow> machine \<Rightarrow> machine"
    and aget :: "smap stacks \<Rightarrow> smap list" and aupd :: "smap list \<Rightarrow> smap stacks \<Rightarrow> smap stacks"
  assumes upd_get: "upd (get m) m = m"
    and get_upd: "get (upd s m) = s"
    and upd_upd: "upd s (upd s' m) = upd s m"
    and get_store: "get (m\<lparr>strees := st\<rparr>) = get m"
    and upd_store: "upd s (m\<lparr>strees := st\<rparr>) = (upd s m)\<lparr>strees := st\<rparr>"
    and aupd_aupd: "aupd t (aupd t' S) = aupd t S"
    and aget_aupd: "aget (aupd t S) = t"
    and holders_upd: "holders (upd s m) = mset s + holders (upd [] m)"
    and strees_upd: "strees (upd s m) = strees m"
    and value_upd: "stacks_of (upd s m) = aupd (map (view (strees m)) s) (stacks_of m)"
    and value_get: "aget (stacks_of m) = map (view (strees m)) (get m)"
    and rest_upd: "sms (upd s m) = sms m" "control_of (upd s m) = control_of m"
    and get_sms: "get (m\<lparr>sms := h\<rparr>) = get m"
    and upd_sms: "upd s (m\<lparr>sms := h\<rparr>) = (upd s m)\<lparr>sms := h\<rparr>"
begin

lemma hand_eq: "hand m ps = mset (get m) + hand (upd [] m) ps"
  using holders_upd [of "get m" m] upd_get [of m] by simp

lemma get_value: "repr m ps S vs \<Longrightarrow> aget S = map (view (strees m)) (get m)"
  using value_get by (auto simp: repr_def)

lemma get_hand: "repr m ps S vs \<Longrightarrow> p \<in> set (get m) \<Longrightarrow> p \<in># hand m ps"
  by (simp add: hand_eq [of m ps])

lemma pop:
  assumes "repr m ps S vs"
  shows "repr (upd (butlast (get m)) m) (top_stree (get m) # ps) (aupd (butlast (aget S)) S) (top_map (aget S) # vs)"
proof -
  have "held (strees m) (hand (upd (butlast (get m)) m) (top_stree (get m) # ps))"
    using assms by (simp add: repr_def hand_eq [of m ps] holders_upd [of "butlast (get m)"] add.assoc held_pop)
  then show ?thesis
    using assms get_value [OF assms] by (auto simp: repr_def strees_upd value_upd view_top map_butlast)
qed

lemma push:
  assumes "repr m (p # ps) S (v # vs)"
  shows "repr (upd (get m @ [p]) m) ps (aupd (aget S @ [v]) S) vs"
  using assms get_value [OF assms] hand_eq [of m ps]
  by (auto simp: repr_def strees_upd value_upd holders_upd [of "get m @ [p]"] add.assoc)

text \<open>Replacing the top: pop, a step on the popped pointer, push.\<close>

lemma push_popped:
  assumes "repr ((upd (butlast (get m)) m)\<lparr>strees := st\<rparr>) (q # ps) (aupd (butlast (aget S)) S) (v # vs)"
  shows "repr ((upd (butlast (get m) @ [q]) m)\<lparr>strees := st\<rparr>) ps (aupd (butlast (aget S) @ [v]) S) vs"
  using push [OF assms] by (simp add: get_store get_upd upd_store upd_upd aget_aupd aupd_aupd)

end

lemmas field_defs = holders_def stacks_of_def map_stacks_def control_of_def

interpretation true_st: stack_field true_stack "\<lambda>s m. m\<lparr>true_stack := s\<rparr>" true_stack "\<lambda>s S. S\<lparr>true_stack := s\<rparr>"
  by unfold_locales (auto simp: field_defs intro!: machine.equality)

interpretation false_st: stack_field false_stack "\<lambda>s m. m\<lparr>false_stack := s\<rparr>" false_stack "\<lambda>s S. S\<lparr>false_stack := s\<rparr>"
  by unfold_locales (auto simp: field_defs intro!: machine.equality)

interpretation pre_cond_st: stack_field pre_cond_stack "\<lambda>s m. m\<lparr>pre_cond_stack := s\<rparr>" pre_cond_stack
  "\<lambda>s S. S\<lparr>pre_cond_stack := s\<rparr>"
  by unfold_locales (auto simp: field_defs intro!: machine.equality)

interpretation cond_true_st: stack_field cond_true_stack "\<lambda>s m. m\<lparr>cond_true_stack := s\<rparr>" cond_true_stack
  "\<lambda>s S. S\<lparr>cond_true_stack := s\<rparr>"
  by unfold_locales (auto simp: field_defs intro!: machine.equality)

interpretation cond_false_st: stack_field cond_false_stack "\<lambda>s m. m\<lparr>cond_false_stack := s\<rparr>" cond_false_stack
  "\<lambda>s S. S\<lparr>cond_false_stack := s\<rparr>"
  by unfold_locales (auto simp: field_defs intro!: machine.equality)

interpretation cond_st: stack_field "cond_stack b" "set_cond_stack b" "cond_stack b" "set_cond_stack b"
  by unfold_locales (auto simp: field_defs cond_stack_def set_cond_stack_def intro!: machine.equality)

interpretation fake_st: stack_field fake_cur_stree_stack "\<lambda>s m. m\<lparr>fake_cur_stree_stack := s\<rparr>" fake_cur_stree_stack
  "\<lambda>s S. S\<lparr>fake_cur_stree_stack := s\<rparr>"
  by unfold_locales (auto simp: field_defs intro!: machine.equality)

interpretation break_st: stack_field break_stack "\<lambda>s m. m\<lparr>break_stack := s\<rparr>" break_stack "\<lambda>s S. S\<lparr>break_stack := s\<rparr>"
  by unfold_locales (auto simp: field_defs intro!: machine.equality)

interpretation fake_break_st: stack_field fake_break_stack "\<lambda>s m. m\<lparr>fake_break_stack := s\<rparr>" fake_break_stack
  "\<lambda>s S. S\<lparr>fake_break_stack := s\<rparr>"
  by unfold_locales (auto simp: field_defs intro!: machine.equality)

interpretation switch_st: stack_field switch_stack "\<lambda>s m. m\<lparr>switch_stack := s\<rparr>" switch_stack
  "\<lambda>s S. S\<lparr>switch_stack := s\<rparr>"
  by unfold_locales (auto simp: field_defs intro!: machine.equality)

interpretation default_st: stack_field default_stack "\<lambda>s m. m\<lparr>default_stack := s\<rparr>" default_stack
  "\<lambda>s S. S\<lparr>default_stack := s\<rparr>"
  by unfold_locales (auto simp: field_defs intro!: machine.equality)

interpretation continue_st: stack_field continue_stack "\<lambda>s m. m\<lparr>continue_stack := s\<rparr>" continue_stack
  "\<lambda>s S. S\<lparr>continue_stack := s\<rparr>"
  by unfold_locales (auto simp: field_defs intro!: machine.equality)

interpretation pools_st: stack_field all_pools "\<lambda>s m. m\<lparr>all_pools := s\<rparr>" all_pools "\<lambda>s S. S\<lparr>all_pools := s\<rparr>"
  by unfold_locales (auto simp: field_defs intro!: machine.equality)

text \<open>The current tree is a variable of its own.\<close>

lemma held_NULL2: "held st (add_mset p (add_mset None H)) \<longleftrightarrow> held st (add_mset p H)"
  by (subst add_mset_commute) simp

lemma take_cur:
  assumes "repr m ps S vs"
  shows "repr (m\<lparr>cur_stree := None\<rparr>) (cur_stree m # ps) (S\<lparr>cur_stree := Map.empty\<rparr>) (cur_stree S # vs)"
  using assms by (auto simp: repr_def field_defs held_NULL2)

lemma put_cur:
  assumes "repr m (p # ps) S (v # vs)" "cur_stree m = None"
  shows "repr (m\<lparr>cur_stree := p\<rparr>) ps (S\<lparr>cur_stree := v\<rparr>) vs"
  using assms by (auto simp: repr_def field_defs held_NULL2)

lemma null_cur: "repr m ps S vs \<Longrightarrow> cur_stree m = None \<longleftrightarrow> cur_stree S = Map.empty"
  using held_null_iff [of "strees m" "hand m ps" "cur_stree m"] repr_cur [of m ps S vs]
  by (auto simp: repr_def holders_def)

lemma cur_hand [simp]: "cur_stree m \<in># holders m"
  by (simp add: holders_def)

lemma repr_local: "repr m ps S vs \<Longrightarrow> p \<in> set ps \<Longrightarrow> p \<in># hand m ps"
  by simp

text \<open>Fields that hold no tree.\<close>

lemma repr_control:
  "stacks.truncate m' = stacks.truncate m \<Longrightarrow> strees m' = strees m \<Longrightarrow> repr m' ps S vs \<longleftrightarrow> repr m ps S vs"
  by (auto simp: repr_def field_defs stacks.truncate_def)

end
