(* ===== verification/States_Facts.thy ===== *)
theory States_Facts
  imports States_Repr
begin

text \<open>
  The operations of \<^verbatim>\<open>src/smatch_states.c\<close> on stacks of shared, reference-counted trees compute what
  the same operations on stacks of finite maps compute, and none of them fails.
\<close>

section \<open>A calculus of weakest preconditions\<close>

definition wp :: "'a option \<Rightarrow> ('a \<Rightarrow> bool) \<Rightarrow> bool" where
  "wp r Q \<longleftrightarrow> (\<exists>x. r = Some x \<and> Q x)"

lemma wp_simps [simp]:
  "wp (Some x) Q \<longleftrightarrow> Q x" "wp None Q \<longleftrightarrow> False" "wp (Option.bind r k) Q \<longleftrightarrow> wp r (\<lambda>x. wp (k x) Q)"
  "wp (map_option f r) Q \<longleftrightarrow> wp r (\<lambda>x. Q (f x))"
  by (auto simp: wp_def split: bind_splits)

lemma wp_mono: "wp r P \<Longrightarrow> (\<And>x. P x \<Longrightarrow> Q x) \<Longrightarrow> wp r Q"
  by (auto simp: wp_def)

lemma wp_clone:
  assumes "repr m ps S vs" "p \<in># hand m ps"
    "\<And>st. repr (m\<lparr>strees := st\<rparr>) (p # ps) S (view (strees m) p # vs) \<Longrightarrow> Q (p, m\<lparr>strees := st\<rparr>)"
  shows "wp (clone_tree p m) Q"
  using clone_step [OF assms(1,2)] assms(3) by (auto simp: wp_def)

lemma wp_free:
  assumes "repr m (p # ps) S (v # vs)" "\<And>st. repr (m\<lparr>strees := st\<rparr>) ps S vs \<Longrightarrow> Q (m\<lparr>strees := st\<rparr>)"
  shows "wp (free_tree p m) Q"
  using free_step [OF assms(1)] assms(2) by (auto simp: wp_def)

lemma wp_insert:
  assumes "repr m (p # ps) S (v # vs)"
    "\<And>q st. repr (m\<lparr>strees := st\<rparr>) (q # ps) S (v(key x \<mapsto> x) # vs) \<Longrightarrow> Q (q, m\<lparr>strees := st\<rparr>)"
  shows "wp (insert_tree p x m) Q"
  using insert_step [OF assms(1), of x] assms(2) by (auto simp: wp_def)

lemma wp_insert_all:
  assumes "repr m (p # ps) S (v # vs)"
    "\<And>q st. repr (m\<lparr>strees := st\<rparr>) (q # ps) S (fold (\<lambda>x f. f(key x \<mapsto> x)) xs v # vs) \<Longrightarrow>
      Q (q, m\<lparr>strees := st\<rparr>)"
  shows "wp (insert_all_tree p xs m) Q"
  using insert_all_step [OF assms(1), of xs] assms(2) by (auto simp: wp_def)

lemma wp_overwrite:
  assumes "repr m (p # ps) S (v # vs)" "from \<in># add_mset p (hand m ps)"
    "\<And>q st. repr (m\<lparr>strees := st\<rparr>) (q # ps) S ((v ++ view (strees m) from) # vs) \<Longrightarrow> Q (q, m\<lparr>strees := st\<rparr>)"
  shows "wp (overwrite_tree from p m) Q"
  using overwrite_step [OF assms(1,2)] assms(3) by (auto simp: wp_def)

lemma wp_filter:
  assumes "repr m (p # ps) S (v # vs)" "filt \<in># add_mset p (hand m ps)"
    "\<And>q st. repr (m\<lparr>strees := st\<rparr>) (q # ps) S ((\<lambda>k. unless_same (v k) (view (strees m) filt k)) # vs) \<Longrightarrow>
      Q (q, m\<lparr>strees := st\<rparr>)"
  shows "wp (filter_tree p filt m) Q"
  using filter_step [OF assms(1,2)] assms(3) by (auto simp: wp_def)

lemma wp_delete:
  assumes "repr m (p # ps) S (v # vs)"
    "\<And>q st. repr (m\<lparr>strees := st\<rparr>) (q # ps) S (v(TKey ow nm sy := None) # vs) \<Longrightarrow> Q (q, m\<lparr>strees := st\<rparr>)"
  shows "wp (delete_tree p ow nm sy m) Q"
  using delete_step [OF assms(1), of ow nm sy] assms(2) by (auto simp: wp_def)

text \<open>The states of a tree in order.\<close>

lemma wp_states:
  assumes "repr m ps S vs" "p \<in># hand m ps"
    "\<And>xs. sorted_sms xs \<Longrightarrow> (\<lambda>k. find_key k xs) = view (strees m) p \<Longrightarrow> Q xs"
  shows "wp (states_of (strees m) p) Q"
  using elems_held [of "strees m" "hand m ps" p] assms by (auto simp: wp_def repr_def)

section \<open>Operations as functions of the maps\<close>

text \<open>What is allocated besides the trees.\<close>

definition same_rest :: "machine \<Rightarrow> machine \<Rightarrow> bool" where
  "same_rest m m' \<longleftrightarrow> control_of m' = control_of m \<and> sms m' = sms m \<and> pool m' = pool m
     \<and> stree_id_counter m' = stree_id_counter m"

definition runs :: "(machine \<Rightarrow> machine option) \<Rightarrow> (smap stacks \<Rightarrow> smap stacks) \<Rightarrow> bool" where
  "runs op F \<longleftrightarrow>
     (\<forall>m ps S vs. repr m ps S vs \<longrightarrow> wp (op m) (\<lambda>m'. repr m' ps (F S) vs \<and> same_rest m m'))"

lemma runsI: "(\<And>m ps S vs. repr m ps S vs \<Longrightarrow> wp (op m) (\<lambda>m'. repr m' ps (F S) vs \<and> same_rest m m')) \<Longrightarrow> runs op F"
  by (simp add: runs_def)

lemma runsD: "runs op F \<Longrightarrow> repr m ps S vs \<Longrightarrow> wp (op m) (\<lambda>m'. repr m' ps (F S) vs \<and> same_rest m m')"
  by (simp add: runs_def)

lemma same_rest_trans: "same_rest m m1 \<Longrightarrow> same_rest m1 m2 \<Longrightarrow> same_rest m m2"
  by (simp add: same_rest_def)

lemma same_rest_refl [simp]: "same_rest m m"
  by (simp add: same_rest_def)

lemma runs_bind: "runs f F \<Longrightarrow> runs g G \<Longrightarrow> runs (\<lambda>m. Option.bind (f m) g) (\<lambda>S. G (F S))"
  unfolding runs_def by (fastforce elim!: wp_mono intro: same_rest_trans)

lemma wp_free_cur:
  assumes "repr m ps S vs"
    "\<And>st. repr (m\<lparr>strees := st, cur_stree := None\<rparr>) ps (S\<lparr>cur_stree := Map.empty\<rparr>) vs \<Longrightarrow>
      Q (m\<lparr>strees := st, cur_stree := None\<rparr>)"
  shows "wp (free_cur_stree m) Q"
proof -
  from free_step [OF take_cur [OF assms(1)]] obtain st where
    f: "free_tree (cur_stree m) (m\<lparr>cur_stree := None\<rparr>) = Some (m\<lparr>cur_stree := None, strees := st\<rparr>)"
    "repr (m\<lparr>cur_stree := None, strees := st\<rparr>) ps (S\<lparr>cur_stree := Map.empty\<rparr>) vs" by auto
  have eq: "m\<lparr>cur_stree := None, strees := st\<rparr> = m\<lparr>strees := st, cur_stree := None\<rparr>"
    by (rule machine.equality) simp_all
  have "free_stree (strees m) (cur_stree m) = Some st"
    using f(1) by (auto simp: free_tree_def dest!: arg_cong [of _ _ strees])
  then show ?thesis
    using assms(2) [of st] f(2) by (simp add: eq free_cur_stree_def free_tree_def)
qed

lemma put_cur':
  assumes "repr (m\<lparr>cur_stree := None\<rparr>) (p # ps) S (v # vs)"
  shows "repr (m\<lparr>cur_stree := p\<rparr>) ps (S\<lparr>cur_stree := v\<rparr>) vs"
  using put_cur [OF assms] by simp

text \<open>Unfolding what an operation does with its local variables.\<close>

lemmas op_simps = Let_def pop_stree_def push_stree_def pop_cond_stack_def push_cond_stack_def
  set_cond_stack_def cond_stack_def case_prod_beta same_rest_def control_of_def

text \<open>The last step of a proof: the stacks agree field by field.\<close>

declare stacks.truncate_def [simp]

lemma repr_done:
  "repr m ps S vs \<Longrightarrow> stacks.truncate m' = stacks.truncate m \<Longrightarrow> strees m' = strees m \<Longrightarrow> S' = S \<Longrightarrow> repr m' ps S' vs"
  using repr_control by blast

lemmas record_eqs = stacks.equality

text \<open>The forms of the steps that operations use most, on the current tree and on the first locals.\<close>

lemma wp_clone_cur:
  assumes "repr m ps S vs"
    "\<And>st. repr (m\<lparr>strees := st\<rparr>) (cur_stree m # ps) S (cur_stree S # vs) \<Longrightarrow> Q (cur_stree m, m\<lparr>strees := st\<rparr>)"
  shows "wp (clone_tree (cur_stree m) m) Q"
  by (rule wp_clone [OF assms(1)]) (use assms repr_cur [OF assms(1)] in auto)

lemma wp_clone_local:
  assumes "repr m (p # ps) S (v # vs)"
    "\<And>st. repr (m\<lparr>strees := st\<rparr>) (p # p # ps) S (v # v # vs) \<Longrightarrow> Q (p, m\<lparr>strees := st\<rparr>)"
  shows "wp (clone_tree p m) Q"
  by (rule wp_clone [OF assms(1)]) (use assms repr_view [OF assms(1)] in auto)

lemma wp_overwrite2:
  assumes "repr m (p # from # ps) S (v # w # vs)"
    "\<And>q st. repr (m\<lparr>strees := st\<rparr>) (q # from # ps) S ((v ++ w) # w # vs) \<Longrightarrow> Q (q, m\<lparr>strees := st\<rparr>)"
  shows "wp (overwrite_tree from p m) Q"
  by (rule wp_overwrite [OF assms(1)]) (use assms repr_view [OF assms(1)] in auto)

lemma swap2:
  "repr m (p # q # ps) S (v # w # vs) \<Longrightarrow> repr m (q # p # ps) S (w # v # vs)"
  by (rule repr_swap) (auto dest: repr_len)

lemma swap3:
  "repr m (p # q # r # ps) S (u # v # w # vs) \<Longrightarrow> repr m (q # r # p # ps) S (v # w # u # vs)"
  by (subst repr_perm [of _ _ "p # q # r # ps" "u # v # w # vs"]) (auto dest: repr_len)


section \<open>Conditions\<close>

text \<open>What each operation does to the stacks of maps.\<close>

lemma save_pre_cond_states_runs:
  "runs save_pre_cond_states (\<lambda>S. S\<lparr>pre_cond_stack := pre_cond_stack S @ [cur_stree S]\<rparr>)"
  apply (rule runsI, simp add: save_pre_cond_states_def op_simps)
  apply (erule wp_clone_cur)
  apply (drule pre_cond_st.push)
  apply simp
  done

lemma use_pre_cond_states_runs:
  "runs use_pre_cond_states (\<lambda>S. S\<lparr>cur_stree := top_map (pre_cond_stack S), pre_cond_stack := butlast (pre_cond_stack S)\<rparr>)"
  apply (rule runsI, simp add: use_pre_cond_states_def op_simps)
  apply (erule wp_free_cur)
  apply (drule pre_cond_st.pop)
  apply (drule put_cur, simp)
  apply (auto elim!: repr_done intro!: record_eqs)
  done

lemma discard_pre_cond_states_runs:
  "runs discard_pre_cond_states (\<lambda>S. S\<lparr>pre_cond_stack := butlast (pre_cond_stack S)\<rparr>)"
  apply (rule runsI, simp add: discard_pre_cond_states_def op_simps)
  apply (drule pre_cond_st.pop)
  apply (erule wp_free, simp)
  done

definition spec_push_fake :: "smap stacks \<Rightarrow> smap stacks" where
  "spec_push_fake S = S\<lparr>fake_cur_stree_stack := fake_cur_stree_stack S @ [Map.empty],
     pre_cond_stack := pre_cond_stack S @ [cur_stree S]\<rparr>"

lemma push_fake_cur_stree_runs: "runs push_fake_cur_stree spec_push_fake"
proof (rule runsI)
  fix m ps S vs assume "repr m ps S vs"
  then have "repr m (None # ps) S (Map.empty # vs)" by (simp add: repr_def)
  note r = fake_st.push [OF this]
  show "wp (push_fake_cur_stree m) (\<lambda>m'. repr m' ps (spec_push_fake S) vs \<and> same_rest m m')"
    using runsD [OF save_pre_cond_states_runs r]
    by (auto simp: push_fake_cur_stree_def spec_push_fake_def push_stree_def same_rest_def control_of_def elim: wp_mono)
qed

definition spec_pop_fake :: "smap stacks \<Rightarrow> smap stacks" where
  "spec_pop_fake S = S\<lparr>cur_stree := top_map (pre_cond_stack S), pre_cond_stack := butlast (pre_cond_stack S),
     fake_cur_stree_stack := butlast (fake_cur_stree_stack S)\<rparr>"

lemma pop_fake_cur_stree_wp:
  assumes "repr m ps S vs" "fake_cur_stree_stack S \<noteq> []"
  shows "wp (pop_fake_cur_stree m) (\<lambda>(p, m').
    repr m' (p # ps) (spec_pop_fake S) (top_map (fake_cur_stree_stack S) # vs) \<and> same_rest m m')"
proof -
  have ne: "fake_cur_stree_stack m \<noteq> []" using assms fake_st.get_value [OF assms(1)] by auto
  show ?thesis
    using runsD [OF use_pre_cond_states_runs assms(1)]
    apply (simp add: pop_fake_cur_stree_def ne Let_def pop_stree_def case_prod_beta)
    apply (erule wp_mono, clarsimp)
    apply (drule fake_st.pop)
    apply (auto simp: spec_pop_fake_def same_rest_def control_of_def elim!: repr_done intro!: record_eqs)
    done
qed

lemma free_fake_cur_stree_wp:
  assumes "repr m ps S vs" "fake_cur_stree_stack S \<noteq> []"
  shows "wp (free_fake_cur_stree m) (\<lambda>m'. repr m' ps (spec_pop_fake S) vs \<and> same_rest m m')"
  using pop_fake_cur_stree_wp [OF assms]
  apply (simp add: free_fake_cur_stree_def case_prod_beta)
  apply (erule wp_mono, clarsimp)
  apply (erule wp_free)
  apply (simp add: same_rest_def control_of_def)
  done

lemma push_cond_stacks_runs:
  "runs push_cond_stacks (\<lambda>S. spec_push_fake (S\<lparr>cond_true_stack := cond_true_stack S @ [Map.empty],
     cond_false_stack := cond_false_stack S @ [Map.empty]\<rparr>))"
proof (rule runsI)
  fix m ps S vs assume "repr m ps S vs"
  then have "repr m (None # None # ps) S (Map.empty # Map.empty # vs)" by (simp add: repr_def)
  note r = cond_false_st.push [OF cond_true_st.push [OF this]]
  show "wp (push_cond_stacks m) (\<lambda>m'. repr m' ps (spec_push_fake (S\<lparr>cond_true_stack := cond_true_stack S @ [Map.empty],
     cond_false_stack := cond_false_stack S @ [Map.empty]\<rparr>)) vs \<and> same_rest m m')"
    using runsD [OF push_fake_cur_stree_runs r]
    by (auto simp: push_cond_stacks_def push_stree_def same_rest_def control_of_def elim: wp_mono)
qed

definition spec_use_cond :: "smap stacks \<Rightarrow> smap stacks" where
  "spec_use_cond S = S\<lparr>cur_stree := top_map (pre_cond_stack S) ++ top_map (cond_true_stack S),
     pre_cond_stack := butlast (pre_cond_stack S), cond_true_stack := butlast (cond_true_stack S),
     cond_false_stack := butlast (cond_false_stack S),
     false_stack := false_stack S @ [top_map (pre_cond_stack S) ++ top_map (cond_false_stack S)]\<rparr>"

lemma use_cond_states_runs: "runs use_cond_states spec_use_cond"
  apply (rule runsI, simp add: use_cond_states_def spec_use_cond_def op_simps)
  apply (drule pre_cond_st.pop)
  apply (erule wp_clone_local, simp)
  apply (drule cond_true_st.pop, simp)
  apply (drule swap2, erule wp_overwrite2, simp)
  apply (drule swap2, erule wp_free, simp)
  apply (erule wp_free_cur, simp)
  apply (drule put_cur, simp)
  apply (drule cond_false_st.pop, simp)
  apply (drule swap2, erule wp_overwrite2, simp)
  apply (drule swap2, erule wp_free, simp)
  apply (drule false_st.push)
  apply (auto elim!: repr_done intro!: record_eqs)
  done

lemma copy_cond_states_wp:
  assumes "repr m ps S vs"
  shows "wp (copy_cond_states b m) (\<lambda>(p, m'). repr m' (p # ps)
    (set_cond_stack b (butlast (cond_stack b S) @ [top_map (cond_stack b S)]) S) (top_map (cond_stack b S) # vs)
    \<and> same_rest m m')"
  using cond_st.pop [OF assms, of b]
  apply (cases b; simp add: copy_cond_states_def op_simps)
   apply (erule wp_clone_local, drule cond_true_st.push, simp)
  apply (erule wp_clone_local, drule cond_false_st.push, simp)
  done

definition spec_use_branch :: "bool \<Rightarrow> smap stacks \<Rightarrow> smap stacks" where
  "spec_use_branch b S = S\<lparr>cur_stree := top_map (pre_cond_stack S) ++ top_map (cond_stack b S),
     pre_cond_stack := butlast (pre_cond_stack S) @ [top_map (pre_cond_stack S)],
     cond_true_stack := (if b then butlast (cond_true_stack S) @ [top_map (cond_true_stack S)] else cond_true_stack S),
     cond_false_stack := (if b then cond_false_stack S else butlast (cond_false_stack S) @ [top_map (cond_false_stack S)])\<rparr>"

lemma use_cond_stack_runs: "runs (use_cond_stack b) (spec_use_branch b)"
proof (cases b)
  case True
  then show ?thesis
    apply (simp, intro runsI, simp add: use_cond_stack_def spec_use_branch_def op_simps)
    apply (erule wp_free_cur, drule pre_cond_st.pop, simp)
    apply (erule wp_clone_local, drule pre_cond_st.push, simp)
    apply (drule cond_true_st.pop, drule swap2, simp)
    apply (erule wp_overwrite2, drule put_cur, simp)
    apply (drule cond_true_st.push)
    apply (auto elim!: repr_done intro!: record_eqs)
    done
next
  case False
  then show ?thesis
    apply (simp, intro runsI, simp add: use_cond_stack_def spec_use_branch_def op_simps)
    apply (erule wp_free_cur, drule pre_cond_st.pop, simp)
    apply (erule wp_clone_local, drule pre_cond_st.push, simp)
    apply (drule cond_false_st.pop, drule swap2, simp)
    apply (erule wp_overwrite2, drule put_cur, simp)
    apply (drule cond_false_st.push)
    apply (auto elim!: repr_done intro!: record_eqs)
    done
qed

lemma negate_cond_stacks_repr:
  assumes "repr m ps S vs"
  shows "repr (negate_cond_stacks m) ps (S\<lparr>
    cond_false_stack := butlast (cond_false_stack S) @ [top_map (cond_true_stack S)],
    cond_true_stack := butlast (cond_true_stack S) @ [top_map (cond_false_stack S)]\<rparr>) vs
    \<and> same_rest m (negate_cond_stacks m)"
  using cond_true_st.pop [OF cond_false_st.pop [OF assms]]
  apply (simp add: negate_cond_stacks_def op_simps)
  apply (drule cond_false_st.push, drule cond_true_st.push)
  apply (auto elim!: repr_done intro!: record_eqs)
  done

lemma and_stree_stack_eq:
  "and_stree_stack st (s @ [l, r]) =
     do { (p, st) \<leftarrow> overwrite_stree st r l; st \<leftarrow> free_stree st r; Some (s @ [p], st) }"
proof -
  have "pop_stree (s @ [l, r]) = (r, s @ [l])" by (simp add: pop_stree_def top_stree_def butlast_append)
  then show ?thesis
    by (auto simp: and_stree_stack_def overwrite_stree_def overwrite_top_insert_each split: bind_splits)
qed

section \<open>Branches and loops\<close>

lemma push_true_states_runs: "runs push_true_states (\<lambda>S. S\<lparr>true_stack := true_stack S @ [cur_stree S]\<rparr>)"
  apply (rule runsI, simp add: push_true_states_def op_simps)
  apply (erule wp_clone_cur, drule true_st.push, simp)
  done

lemma use_false_states_runs:
  "runs use_false_states (\<lambda>S. S\<lparr>cur_stree := top_map (false_stack S), false_stack := butlast (false_stack S)\<rparr>)"
  apply (rule runsI, simp add: use_false_states_def op_simps)
  apply (erule wp_free_cur, drule false_st.pop, drule put_cur, simp)
  apply (auto elim!: repr_done intro!: record_eqs)
  done

lemma discard_false_states_runs: "runs discard_false_states (\<lambda>S. S\<lparr>false_stack := butlast (false_stack S)\<rparr>)"
  apply (rule runsI, simp add: discard_false_states_def op_simps)
  apply (drule false_st.pop, erule wp_free, simp)
  done

lemma discard_continues_runs: "runs discard_continues (\<lambda>S. S\<lparr>continue_stack := butlast (continue_stack S)\<rparr>)"
  apply (rule runsI, simp add: discard_continues_def op_simps)
  apply (drule continue_st.pop, erule wp_free, simp)
  done

text \<open>After \<^verbatim>\<open>nullify_path\<close> the path is unreachable and what was set on it is forgotten.\<close>

definition spec_nullify :: "smap stacks \<Rightarrow> smap stacks" where
  "spec_nullify S = (let S = (if fake_cur_stree_stack S = [] then S else spec_push_fake (spec_pop_fake S))
     in S\<lparr>cur_stree := Map.empty\<rparr>)"

lemma nullify_path_runs: "runs nullify_path spec_nullify"
proof (rule runsI)
  fix m ps S vs assume r: "repr m ps S vs"
  show "wp (nullify_path m) (\<lambda>m'. repr m' ps (spec_nullify S) vs \<and> same_rest m m')"
  proof (cases "fake_cur_stree_stack S = []")
    case True
    then have "fake_cur_stree_stack m = []" using fake_st.get_value [OF r] by simp
    then show ?thesis
      using wp_free_cur [OF r, of "\<lambda>m'. repr m' ps (S\<lparr>cur_stree := Map.empty\<rparr>) vs \<and> same_rest m m'"] True
      by (simp add: nullify_path_def spec_nullify_def same_rest_def control_of_def)
  next
    case False
    then have "fake_cur_stree_stack m \<noteq> []" using fake_st.get_value [OF r] by auto
    moreover have "wp (push_fake_cur_stree m1) (\<lambda>m2. wp (free_cur_stree m2) (\<lambda>m'. repr m' ps (spec_nullify S) vs \<and> same_rest m m'))"
      if "repr m1 ps (spec_pop_fake S) vs" "same_rest m m1" for m1
      using runsD [OF push_fake_cur_stree_runs that(1)] that(2) False
      by (auto elim!: wp_mono wp_free_cur simp: spec_nullify_def same_rest_def control_of_def)
    ultimately show ?thesis
      using free_fake_cur_stree_wp [OF r False] by (auto simp: nullify_path_def elim!: wp_mono)
  qed
qed

section \<open>Writing to the top of a stack\<close>

definition map_top :: "(smap \<Rightarrow> smap) \<Rightarrow> smap list \<Rightarrow> smap list" where
  "map_top f s = butlast s @ [f (top_map s)]"

text \<open>The steps on the machine are steps on its store.\<close>

lemma strees_inject: "m\<lparr>strees := st\<rparr> = m\<lparr>strees := st'\<rparr> \<longleftrightarrow> st = st'"
  by (metis machine.select_convs(10) machine.surjective machine.update_convs(10))

lemma tree_store_eqs:
  "insert_tree p x m = Some (q, m\<lparr>strees := st\<rparr>) \<longleftrightarrow> overwrite_sm_state_stree (strees m) p x = Some (q, st)"
  "overwrite_tree r p m = Some (q, m\<lparr>strees := st\<rparr>) \<longleftrightarrow> overwrite_stree (strees m) r p = Some (q, st)"
  "delete_tree p ow nm sy m = Some (q, m\<lparr>strees := st\<rparr>) \<longleftrightarrow> delete_state_stree (strees m) p ow nm sy = Some (q, st)"
  "free_tree p m = Some (m\<lparr>strees := st\<rparr>) \<longleftrightarrow> free_stree (strees m) p = Some st"
  by (auto simp: insert_tree_def overwrite_tree_def delete_tree_def free_tree_def strees_inject)

lemmas tree_store_eqs' = tree_store_eqs [where m = "m\<lparr>strees := st0\<rparr>" for m st0, simplified]

context stack_field
begin

lemma overwrite_top_wp:
  assumes "repr m ps S vs"
    "\<And>stack st. repr ((upd stack m)\<lparr>strees := st\<rparr>) ps (aupd (map_top (\<lambda>f. f(key x \<mapsto> x)) (aget S)) S) vs \<Longrightarrow>
      Q (stack, st)"
  shows "wp (overwrite_sm_state_stree_stack (strees m) (get m) x) Q"
proof -
  from insert_step [OF pop [OF assms(1)], of x] obtain q st where
    i: "insert_tree (top_stree (get m)) x (upd (butlast (get m)) m) = Some (q, (upd (butlast (get m)) m)\<lparr>strees := st\<rparr>)"
    and r: "repr ((upd (butlast (get m)) m)\<lparr>strees := st\<rparr>) (q # ps) (aupd (butlast (aget S)) S)
      ((top_map (aget S))(key x \<mapsto> x) # vs)"
    by blast
  have "overwrite_sm_state_stree (strees m) (top_stree (get m)) x = Some (q, st)"
    using i by (simp add: tree_store_eqs strees_upd)
  then show ?thesis
    using assms(2) [where stack = "butlast (get m) @ [q]" and st = st] push_popped [OF r]
    by (simp add: overwrite_sm_state_stree_stack_def pop_stree_def push_stree_def map_top_def)
qed

lemma set_top_wp:
  assumes "repr m ps S vs" "alloc_sm_state (sms m) ow nm sy s = (new, h)"
    "\<And>stack st. repr ((upd stack m)\<lparr>strees := st\<rparr>) ps (aupd (map_top (\<lambda>f. f(TKey ow nm sy \<mapsto> new)) (aget S)) S) vs \<Longrightarrow>
      Q (stack, new, h, st)"
  shows "wp (set_state_stree_stack (sms m) (strees m) (get m) ow nm sy s) Q"
proof -
  have k: "key new = TKey ow nm sy" using alloc_sm_state_key [OF assms(2)] by simp
  have "wp (overwrite_sm_state_stree_stack (strees m) (get m) new) (\<lambda>(stack, st). Q (stack, new, h, st))"
    using overwrite_top_wp [OF assms(1), of new "\<lambda>(stack, st). Q (stack, new, h, st)"] assms(3) k by simp
  then show ?thesis
    by (auto simp: set_state_stree_stack_def set_state_stree_def overwrite_sm_state_stree_stack_def
      overwrite_sm_state_stree_def assms(2) pop_stree_def wp_def split: bind_splits)
qed

lemma delete_top_wp:
  assumes "repr m ps S vs"
    "\<And>stack st. repr ((upd stack m)\<lparr>strees := st\<rparr>) ps (aupd (map_top (\<lambda>f. f(TKey ow nm sy := None)) (aget S)) S) vs \<Longrightarrow>
      Q (stack, m\<lparr>strees := st\<rparr>)"
  shows "wp (delete_stack (get m) ow nm sy m) Q"
proof -
  from delete_step [OF pop [OF assms(1)], of ow nm sy] obtain q st where
    i: "delete_tree (top_stree (get m)) ow nm sy (upd (butlast (get m)) m) = Some (q, (upd (butlast (get m)) m)\<lparr>strees := st\<rparr>)"
    and r: "repr ((upd (butlast (get m)) m)\<lparr>strees := st\<rparr>) (q # ps) (aupd (butlast (aget S)) S)
      ((top_map (aget S))(TKey ow nm sy := None) # vs)"
    by blast
  have "delete_state_stree (strees m) (top_stree (get m)) ow nm sy = Some (q, st)"
    using i by (simp add: tree_store_eqs strees_upd)
  then show ?thesis
    using assms(2) [where stack = "butlast (get m) @ [q]" and st = st] push_popped [OF r]
    by (simp add: delete_stack_def delete_state_stree_stack_def pop_stree_def push_stree_def map_top_def)
qed

end

lemma two_on_stack: "length s \<ge> 2 \<Longrightarrow> \<exists>t l r. s = t @ [l, r]"
proof -
  assume l: "length s \<ge> 2"
  then obtain u r where s: "s = u @ [r]" by (cases s rule: rev_cases) auto
  with l obtain t x where "u = t @ [x]" by (cases u rule: rev_cases) auto
  with s show ?thesis by auto
qed

lemma and_cond_stack_wp:
  assumes "repr m ps S vs" "length (cond_stack b S) \<ge> 2"
  shows "wp (and_cond_stack b m) (\<lambda>m'. repr m' ps (set_cond_stack b
     (butlast (butlast (cond_stack b S)) @ [top_map (butlast (cond_stack b S)) ++ top_map (cond_stack b S)]) S) vs
     \<and> same_rest m m')"
proof -
  have "length (cond_stack b m) \<ge> 2" using assms cond_st.get_value [OF assms(1), of b] by simp
  then obtain t l r where s: "cond_stack b m = t @ [l, r]" using two_on_stack by blast
  let ?m = "set_cond_stack b t m" and ?S = "set_cond_stack b (butlast (butlast (cond_stack b S))) S"
  have "repr ?m (l # r # ps) ?S (top_map (butlast (cond_stack b S)) # top_map (cond_stack b S) # vs)"
    using cond_st.pop [OF cond_st.pop [OF assms(1), of b], of b] s
    by (simp add: cond_st.get_upd cond_st.upd_upd cond_st.aget_aupd cond_st.aupd_aupd top_stree_def butlast_append)
  from overwrite_step [OF this, of r] repr_view [OF this] obtain q st where
    o: "overwrite_stree (strees m) r l = Some (q, st)"
    "repr (?m\<lparr>strees := st\<rparr>) (q # r # ps) ?S
      ((top_map (butlast (cond_stack b S)) ++ top_map (cond_stack b S)) # top_map (cond_stack b S) # vs)"
    by (auto simp: tree_store_eqs cond_st.strees_upd)
  from free_step [OF swap2 [OF o(2)]] obtain st' where
    f: "free_stree st r = Some st'"
    "repr (?m\<lparr>strees := st'\<rparr>) (q # ps) ?S ((top_map (butlast (cond_stack b S)) ++ top_map (cond_stack b S)) # vs)"
    by (auto simp: tree_store_eqs')
  have "repr ((set_cond_stack b (t @ [q]) m)\<lparr>strees := st'\<rparr>) ps
    (set_cond_stack b (butlast (butlast (cond_stack b S)) @ [top_map (butlast (cond_stack b S)) ++ top_map (cond_stack b S)]) S) vs"
    using cond_st.push [OF f(2), of b]
    by (simp add: cond_st.get_store cond_st.get_upd cond_st.upd_store cond_st.upd_upd cond_st.aget_aupd cond_st.aupd_aupd)
  then show ?thesis
    using o(1) f(1) by (simp add: and_cond_stack_def s and_stree_stack_eq same_rest_def control_of_def set_cond_stack_def)
qed

end
