(* ===== verification/Flow_Facts.thy ===== *)
theory Flow_Facts
  imports States_Facts
begin

text \<open>
  Setting states, control flow without a merge, deletion, and saving and restoring the analysis
  state, as functions of the maps.
\<close>

section \<open>Setting a state\<close>

definition put_top :: "tkey \<Rightarrow> sm_state \<Rightarrow> smap list \<Rightarrow> smap list" where
  "put_top k x s = (if s = [] then [] else map_top (\<lambda>f. f(k \<mapsto> x)) s)"

definition spec_set :: "tkey \<Rightarrow> sm_state \<Rightarrow> sm_state \<Rightarrow> smap stacks \<Rightarrow> smap stacks" where
  "spec_set k x y S = S\<lparr>fake_cur_stree_stack := put_top k x (fake_cur_stree_stack S),
     cur_stree := (cur_stree S)(k \<mapsto> y)\<rparr>"

lemma wp_insert_cur:
  assumes "repr m ps S vs" "p = cur_stree m"
    "\<And>q st. repr (m\<lparr>strees := st, cur_stree := q\<rparr>) ps (S\<lparr>cur_stree := (cur_stree S)(key x \<mapsto> x)\<rparr>) vs \<Longrightarrow>
      Q (q, m\<lparr>strees := st\<rparr>)"
  shows "wp (insert_tree p x m) Q"
proof -
  from insert_step [OF take_cur [OF assms(1)], of x] obtain q st where
    "overwrite_sm_state_stree (strees m) (cur_stree m) x = Some (q, st)"
    and r: "repr (m\<lparr>cur_stree := None, strees := st\<rparr>) (q # ps) (S\<lparr>cur_stree := Map.empty\<rparr>) ((cur_stree S)(key x \<mapsto> x) # vs)"
    by (auto simp: tree_store_eqs)
  moreover have "m\<lparr>cur_stree := None, strees := st, cur_stree := q\<rparr> = m\<lparr>strees := st, cur_stree := q\<rparr>"
    by (rule machine.equality) simp_all
  ultimately show ?thesis
    using assms(2) assms(3) [where q = q and st = st] put_cur [OF r] by (simp add: insert_tree_def)
qed

lemma set_sm_wp:
  assumes "repr m ps S vs" "read_only m = 0"
  shows "wp (set_sm x m) (\<lambda>m'. repr m' ps (if cur_stree S = Map.empty then S else spec_set (key x) x x S) vs
    \<and> same_rest m m')"
proof (cases "cur_stree S = Map.empty")
  case True
  then show ?thesis using assms null_cur [OF assms(1)] by (simp add: set_sm_def is_unreachable_def)
next
  case False
  then have ne: "\<not> is_unreachable m" using null_cur [OF assms(1)] by (simp add: is_unreachable_def)
  show ?thesis
  proof (cases "fake_cur_stree_stack S = []")
    case True
    then have "fake_cur_stree_stack m = []" using fake_st.get_value [OF assms(1)] by simp
    then show ?thesis
      using assms(2) ne False True
      apply (simp add: set_sm_def case_prod_beta)
      apply (rule wp_insert_cur [OF assms(1)], simp)
      apply (auto simp: spec_set_def put_top_def same_rest_def control_of_def elim!: repr_done intro!: record_eqs)
      done
  next
    case f: False
    then have "fake_cur_stree_stack m \<noteq> []" using fake_st.get_value [OF assms(1)] by auto
    then show ?thesis
      using assms(2) ne False
      apply (simp add: set_sm_def case_prod_beta)
      apply (rule fake_st.overwrite_top_wp [OF assms(1)], simp)
      apply (erule wp_insert_cur, simp)
      apply (auto simp: spec_set_def put_top_def f same_rest_def control_of_def elim!: repr_done intro!: record_eqs)
      done
  qed
qed

text \<open>
  The two records a call of \<^verbatim>\<open>set_state\<close> makes, one for the scratch tree and one for the current tree.
\<close>

definition fresh_sm :: "tkey \<Rightarrow> smatch_state \<Rightarrow> sm_heap \<Rightarrow> sm_state \<Rightarrow> bool" where
  "fresh_sm k s h x \<longleftrightarrow> key x = k \<and> state x = s \<and> possible x = [base x] \<and> \<not> merged x \<and> sm_addr x \<ge> next_sm h"

lemma alloc_fresh:
  "alloc_sm_state h ow nm sy s = (x, h') \<Longrightarrow>
    fresh_sm (TKey ow nm sy) s h x \<and> next_sm h' = next_sm h + 1 \<and> sm_addr x < next_sm h'"
  using alloc_sm_state_key [of h ow nm sy s x h']
  by (auto simp: fresh_sm_def alloc_sm_state_def Let_def sm_state0.defs sm_state.defs)

lemma wp_set_cur:
  assumes "repr m ps S vs" "p = cur_stree m" "st0 = strees m" "alloc_sm_state h0 ow nm sy s = (new, h)"
    "\<And>q st. repr (m\<lparr>strees := st, cur_stree := q\<rparr>) ps (S\<lparr>cur_stree := (cur_stree S)(TKey ow nm sy \<mapsto> new)\<rparr>) vs \<Longrightarrow>
      Q (q, new, h, st)"
  shows "wp (set_state_stree h0 st0 p ow nm sy s) Q"
proof -
  have k: "key new = TKey ow nm sy" using alloc_fresh [OF assms(4)] by (simp add: fresh_sm_def)
  have "wp (insert_tree (cur_stree m) new m) (\<lambda>(q, m'). Q (q, new, h, strees m'))"
    using wp_insert_cur [OF assms(1) refl, of new "\<lambda>(q, m'). Q (q, new, h, strees m')"] assms(5) k by simp
  then show ?thesis
    by (auto simp: set_state_stree_def insert_tree_def overwrite_sm_state_stree_def assms(2-4) wp_def)
qed

lemma set_state_wp:
  assumes "repr m ps S vs" "read_only m = 0" "cur_stree S \<noteq> Map.empty \<or> ow = USHRT_MAX"
  shows "wp (set_state ow (Some nm) sy (Some s) m) (\<lambda>(r, m'). \<exists>x y. r = Some y
    \<and> repr m' ps (spec_set (TKey ow nm sy) x y S) vs \<and> control_of m' = control_of m \<and> pool m' = pool m
    \<and> stree_id_counter m' = stree_id_counter m \<and> next_sm (sms m) \<le> next_sm (sms m') \<and> sm_addr y < next_sm (sms m')
    \<and> sm_addr x < next_sm (sms m') \<and> lineno (sms m') = lineno (sms m)
    \<and> fresh_sm (TKey ow nm sy) s (sms m) x \<and> fresh_sm (TKey ow nm sy) s (sms m) y)"
proof -
  have go: "\<not> (ow \<noteq> USHRT_MAX \<and> is_unreachable m)"
    using assms(3) null_cur [OF assms(1)] by (auto simp: is_unreachable_def)
  obtain x h where x: "alloc_sm_state (sms m) ow nm sy s = (x, h)" by (cases "alloc_sm_state (sms m) ow nm sy s")
  obtain y h' where y: "alloc_sm_state h ow nm sy s = (y, h')" by (cases "alloc_sm_state h ow nm sy s")
  note fr = alloc_fresh [OF x] alloc_fresh [OF y]
  have ln: "lineno h' = lineno h" "lineno h = lineno (sms m)" using x y by (auto simp: alloc_sm_state_def Let_def)
  show ?thesis
  proof (cases "fake_cur_stree_stack S = []")
    case True
    then have "fake_cur_stree_stack m = []" using fake_st.get_value [OF assms(1)] by simp
    then show ?thesis
      using assms(2) go
      apply (simp add: set_state_def case_prod_beta)
      apply (rule wp_set_cur [OF assms(1) refl refl x], simp)
      apply (rule exI [of _ x])
      using fr ln True
      apply (auto simp: spec_set_def put_top_def control_of_def elim!: repr_done intro!: record_eqs)
      done
  next
    case f: False
    then have "fake_cur_stree_stack m \<noteq> []" using fake_st.get_value [OF assms(1)] by auto
    then show ?thesis
      using assms(2) go
      apply (simp add: set_state_def case_prod_beta)
      apply (rule fake_st.set_top_wp [OF assms(1) x], simp)
      apply (erule wp_set_cur, simp, simp, rule y)
      apply (simp, rule exI [of _ x])
      using fr ln
      apply (auto simp: spec_set_def put_top_def f control_of_def fresh_sm_def elim!: repr_done intro!: record_eqs)
      done
  qed
qed

section \<open>Reading a state\<close>

lemma lookup_repr:
  assumes "repr m ps S vs" "p = None \<or> p \<in># hand m ps"
  shows "get_sm_state_stree (strees m) p ow (Some nm) sy = Some (view (strees m) p (TKey ow nm sy))"
proof -
  have h: "held (strees m) (hand m ps)" using assms(1) by (simp add: repr_def)
  have "valid (strees m) p" using assms(2) held_valid [OF h] by (cases p) (auto simp: valid_def)
  with held_ok [OF h] show ?thesis
    using avl_lookup_view [of "strees m" p "\<lparr>name = nm, sym = sy, owner = ow\<rparr>"]
    by (simp add: get_sm_state_stree_def key_def)
qed

lemma get_sm_state_repr:
  assumes "repr m ps S vs" "fast_overlay m = None \<or> fast_overlay m \<in># hand m ps"
  shows "get_sm_state ow (Some nm) sy m
    = Some ((cur_stree S ++ view (strees m) (fast_overlay m)) (TKey ow nm sy))"
  using lookup_repr [OF assms, of ow nm sy] lookup_repr [OF assms(1), of "cur_stree m" ow nm sy] repr_cur [OF assms(1)]
  by (auto simp: get_sm_state_def map_add_def split: option.split)

section \<open>Breaks and default cases\<close>

lemma push_continues_repr:
  assumes "repr m ps S vs"
  shows "repr (push_continues m) ps (S\<lparr>continue_stack := continue_stack S @ [Map.empty]\<rparr>) vs"
proof -
  have "repr m (None # ps) S (Map.empty # vs)" using assms by (simp add: repr_def)
  from continue_st.push [OF this] show ?thesis by (simp add: push_continues_def push_stree_def)
qed

lemma push_breaks_repr:
  assumes "repr m ps S vs"
  shows "repr (push_breaks m) ps (S\<lparr>break_stack := break_stack S @ [Map.empty], fake_break_stack :=
    (if fake_cur_stree_stack S = [] then fake_break_stack S else fake_break_stack S @ [Map.empty])\<rparr>) vs"
proof -
  have "repr m (None # None # ps) S (Map.empty # Map.empty # vs)" using assms by (simp add: repr_def)
  note r = break_st.push [OF this]
  have e: "fake_cur_stree_stack m = [] \<longleftrightarrow> fake_cur_stree_stack S = []" using fake_st.get_value [OF assms] by simp
  show ?thesis
  proof (cases "fake_cur_stree_stack S = []")
    case True
    have "repr (m\<lparr>break_stack := break_stack m @ [None]\<rparr>) ps (S\<lparr>break_stack := break_stack S @ [Map.empty]\<rparr>) vs"
      using break_st.push [of m None ps S Map.empty vs] assms by (simp add: repr_def)
    with True e show ?thesis by (simp add: push_breaks_def push_stree_def Let_def)
  next
    case False
    with e fake_break_st.push [OF r] show ?thesis by (simp add: push_breaks_def push_stree_def Let_def)
  qed
qed

lemma set_default_wp:
  assumes "repr m ps S vs"
  shows "wp (set_default m) (\<lambda>m'. \<exists>x. repr m' ps (S\<lparr>default_stack :=
    map_top (\<lambda>f. f(TKey 0 ''has_default'' 0 \<mapsto> x)) (default_stack S)\<rparr>) vs \<and> control_of m' = control_of m)"
proof -
  obtain x h where x: "alloc_sm_state (sms m) 0 ''has_default'' 0 true_state = (x, h)"
    by (cases "alloc_sm_state (sms m) 0 ''has_default'' 0 true_state")
  show ?thesis
    apply (simp add: set_default_def case_prod_beta)
    apply (rule default_st.set_top_wp [OF assms x], simp)
    apply (rule conjI, rule exI [of _ x])
    apply (auto simp: control_of_def elim!: repr_done)
    done
qed

lemma pop_default_wp:
  assumes "repr m ps S vs"
  shows "wp (pop_default m) (\<lambda>(r, m'). repr m' ps (S\<lparr>default_stack := butlast (default_stack S)\<rparr>) vs
    \<and> (r = 1 \<longleftrightarrow> top_map (default_stack S) \<noteq> Map.empty) \<and> same_rest m m')"
proof -
  note r = default_st.pop [OF assms]
  have n: "top_stree (default_stack m) = None \<longleftrightarrow> top_map (default_stack S) = Map.empty"
    using held_null_iff [of "strees m" "hand m ps" "top_stree (default_stack m)"] assms default_st.get_value [OF assms]
    by (cases "default_stack m = []")
      (auto simp: repr_def view_top top_stree_def top_map_def last_map default_st.hand_eq [of m ps])
  show ?thesis
  proof (cases "top_stree (default_stack m)")
    case None
    then show ?thesis using r n by (auto simp: pop_default_def pop_stree_def same_rest_def control_of_def repr_def)
  next
    case (Some a)
    then show ?thesis using r n
      apply (simp add: pop_default_def pop_stree_def)
      apply (erule wp_free, simp add: same_rest_def control_of_def)
      done
  qed
qed

section \<open>Saving and restoring\<close>

lemma pop_backup:
  "backup m = xs @ [Saved_stack s] \<Longrightarrow> pop_backup_stack m = Some (s, m\<lparr>backup := xs\<rparr>)"
  "backup m = xs @ [Saved_stree p] \<Longrightarrow> pop_backup_stree m = Some (p, m\<lparr>backup := xs\<rparr>)"
  "backup m = xs @ [Saved_cases c] \<Longrightarrow> pop_backup_cases m = Some (c, m\<lparr>backup := xs\<rparr>)"
  "backup m = xs @ [Saved_gotos g] \<Longrightarrow> pop_backup_gotos m = Some (g, m\<lparr>backup := xs\<rparr>)"
  by (simp_all add: pop_backup_stack_def pop_backup_stree_def pop_backup_cases_def pop_backup_gotos_def)

text \<open>The part of the machine that is put aside.\<close>

definition saved_part :: "machine \<Rightarrow> machine \<Rightarrow> machine" where
  "saved_part m n = n\<lparr>cur_stree := cur_stree m, true_stack := true_stack m, false_stack := false_stack m,
     pre_cond_stack := pre_cond_stack m, cond_true_stack := cond_true_stack m, cond_false_stack := cond_false_stack m,
     fake_cur_stree_stack := fake_cur_stree_stack m, break_stack := break_stack m, fake_break_stack := fake_break_stack m,
     switch_stack := switch_stack m, remaining_cases := remaining_cases m, default_stack := default_stack m,
     continue_stack := continue_stack m, goto_stack := goto_stack m, backup := backup m\<rparr>"

lemma restore_saved:
  assumes "backup n = backup (save_all_states m)"
  shows "restore_all_states n = Some (saved_part m n)"
proof -
  have b: "backup n = (((((((((((((backup m @ [Saved_stree (cur_stree m)]) @ [Saved_stack (true_stack m)])
    @ [Saved_stack (false_stack m)]) @ [Saved_stack (pre_cond_stack m)]) @ [Saved_stack (cond_true_stack m)])
    @ [Saved_stack (cond_false_stack m)]) @ [Saved_stack (fake_cur_stree_stack m)]) @ [Saved_stack (break_stack m)])
    @ [Saved_stack (fake_break_stack m)]) @ [Saved_stack (switch_stack m)]) @ [Saved_cases (remaining_cases m)])
    @ [Saved_stack (default_stack m)]) @ [Saved_stack (continue_stack m)]) @ [Saved_gotos (goto_stack m)]"
    using assms by (simp add: save_all_states_def)
  show ?thesis
    unfolding restore_all_states_def
    apply (subst pop_backup(4) [OF b], simp)
    apply (simp add: pop_backup_stack_def pop_backup_stree_def pop_backup_cases_def butlast_append)
    apply (simp add: saved_part_def)
    done
qed

lemma save_all_states_holders: "holders (save_all_states m) = add_mset None (holders m)"
  by (simp add: holders_def save_all_states_def)

end
