(* ===== verification/Merge_Facts.thy ===== *)
theory Merge_Facts
  imports Flow_Facts
begin

text \<open>
  The merge of two state trees: it returns, keeps every other tree, and joins the states of the two
  paths key by key.
\<close>

section \<open>Matching\<close>

text \<open>A state made up for \<open>y\<close> on the path that has none.\<close>

definition made :: "env \<Rightarrow> sm_heap \<Rightarrow> sm_heap \<Rightarrow> sm_state \<Rightarrow> sm_state \<Rightarrow> bool" where
  "made E h h' y x \<longleftrightarrow> key x = key y \<and> (\<exists>m. state x = client_unmatched_state_function E m y)
     \<and> next_sm h \<le> sm_addr x \<and> sm_addr x < next_sm h'"

definition grown :: "sm_heap \<Rightarrow> sm_heap \<Rightarrow> bool" where
  "grown h h' \<longleftrightarrow> next_sm h \<le> next_sm h'"

lemma grown_refl [simp]: "grown h h"
  by (simp add: grown_def)

lemma grown_trans: "grown h h1 \<Longrightarrow> grown h1 h2 \<Longrightarrow> grown h h2"
  by (simp add: grown_def)

lemma made_mono: "made E h h' y x \<Longrightarrow> grown h0 h \<Longrightarrow> grown h' h1 \<Longrightarrow> made E h0 h1 y x"
  by (auto simp: made_def grown_def)

lemma unmatched_sm_spec:
  assumes "fast_overlay m = None" "trees (strees m) a = Some t"
  shows "\<exists>new h'. unmatched_sm E (Some a) x m = Some (new, m\<lparr>sms := h'\<rparr>) \<and> made E (sms m) h' x new
    \<and> grown (sms m) h'"
proof -
  let ?m = "m\<lparr>fast_overlay := Some a, fast_math_only := fast_math_only m + 1,
    in_unmatched_hook := in_unmatched_hook m + 1\<rparr>"
  let ?s = "client_unmatched_state_function E ?m x"
  obtain new h where n: "alloc_sm_state (sms m) (owner x) (name x) (sym x) ?s = (new, h)"
    by (cases "alloc_sm_state (sms m) (owner x) (name x) (sym x) ?s")
  have "unmatched_sm E (Some a) x m = Some (new\<lparr>line := stree_line t\<rparr>, m\<lparr>sms := h\<rparr>)"
    using assms n by (simp add: unmatched_sm_def set_fake_cur_stree_fast_def pop_fake_cur_stree_fast_def
      alloc_state_no_name_def Let_def)
  moreover have "made E (sms m) h x (new\<lparr>line := stree_line t\<rparr>)" "grown (sms m) h"
    using alloc_fresh [OF n] by (auto simp: made_def fresh_sm_def grown_def key_def)
  ultimately show ?thesis by blast
qed

lemma match_walk_simps [simp]:
  "match_walk E p q [] [] m = Some ([], [], m)"
  "match_walk E p q (x # xs) [] m = do {
     (new, m) \<leftarrow> unmatched_sm E q x m; (a, b, m) \<leftarrow> match_walk E p q xs [] m; Some (a, new # b, m) }"
  "match_walk E p q [] (y # ys) m = do {
     (new, m) \<leftarrow> unmatched_sm E p y m; (a, b, m) \<leftarrow> match_walk E p q [] ys m; Some (new # a, b, m) }"
  "match_walk E p q (x # xs) (y # ys) m =
     (if key x < key y then do {
        (new, m) \<leftarrow> unmatched_sm E q x m; (a, b, m) \<leftarrow> match_walk E p q xs (y # ys) m; Some (a, new # b, m) }
      else if key x = key y then match_walk E p q xs ys m
      else do {
        (new, m) \<leftarrow> unmatched_sm E p y m; (a, b, m) \<leftarrow> match_walk E p q (x # xs) ys m; Some (new # a, b, m) })"
  by (subst match_walk.simps, simp add: cmp_tracker_NULL cmp_tracker_key)+

definition only_in :: "sm_state list \<Rightarrow> sm_state list \<Rightarrow> sm_state list" where
  "only_in ys xs = filter (\<lambda>y. key y \<notin> set (keys xs)) ys"

lemma only_in_less:
  assumes "\<forall>y \<in> set ys. key x < key y"
  shows "only_in ys (x # xs) = only_in ys xs"
  using assms by (auto simp: only_in_def intro!: filter_cong dest: less_asym)

lemma match_walk_spec:
  assumes "sorted_sms xs" "sorted_sms ys" "fast_overlay m = None"
    "trees (strees m) a = Some t" "trees (strees m) b = Some u"
  shows "\<exists>as bs h'. match_walk E (Some a) (Some b) xs ys m = Some (as, bs, m\<lparr>sms := h'\<rparr>) \<and> grown (sms m) h'
    \<and> list_all2 (made E (sms m) h') (only_in ys xs) as \<and> list_all2 (made E (sms m) h') (only_in xs ys) bs"
  using assms
proof (induction "length xs + length ys" arbitrary: xs ys m rule: less_induct)
  case less
  note IH = less.hyps and fo = less.prems(3-5)
  have new: "\<exists>new h'. unmatched_sm E (Some c) x m = Some (new, m\<lparr>sms := h'\<rparr>) \<and> made E (sms m) h' x new \<and> grown (sms m) h'"
    if "c = a \<or> c = b" for c x using unmatched_sm_spec [OF fo(1)] fo(2,3) that by blast
  have one: ?case if x: "xs = x # xs'" and lt: "\<forall>y \<in> set ys. key x < key y"
    and w: "match_walk E (Some a) (Some b) xs ys m = do {
      (new, m) \<leftarrow> unmatched_sm E (Some b) x m; (a, b, m) \<leftarrow> match_walk E (Some a) (Some b) xs' ys m; Some (a, new # b, m) }"
    for x xs'
  proof -
    obtain n h1 where n: "unmatched_sm E (Some b) x m = Some (n, m\<lparr>sms := h1\<rparr>)" "made E (sms m) h1 x n" "grown (sms m) h1"
      using new by blast
    obtain as bs h' where r: "match_walk E (Some a) (Some b) xs' ys (m\<lparr>sms := h1\<rparr>) = Some (as, bs, m\<lparr>sms := h'\<rparr>)"
      "grown h1 h'" "list_all2 (made E h1 h') (only_in ys xs') as" "list_all2 (made E h1 h') (only_in xs' ys) bs"
      using IH [of xs' ys "m\<lparr>sms := h1\<rparr>"] less.prems x by auto
    have "key x \<notin> set (keys ys)" using lt by auto
    then have "only_in xs ys = x # only_in xs' ys" by (simp add: only_in_def x)
    moreover have "list_all2 (made E (sms m) h') (only_in xs' ys) bs" "list_all2 (made E (sms m) h') (only_in ys xs') as"
      by (rule list_all2_mono [OF r(4)], blast intro: made_mono n(3) grown_refl,
          rule list_all2_mono [OF r(3)], blast intro: made_mono n(3) grown_refl)
    moreover have "made E (sms m) h' x n" using made_mono [OF n(2) grown_refl r(2)] .
    moreover have "match_walk E (Some a) (Some b) xs ys m = Some (as, n # bs, m\<lparr>sms := h'\<rparr>)" using w n(1) r(1) by simp
    ultimately show ?thesis
      using only_in_less [OF lt, of xs'] x grown_trans [OF n(3) r(2)] by auto
  qed
  have two: ?case if y: "ys = y # ys'" and lt: "\<forall>x \<in> set xs. key y < key x"
    and w: "match_walk E (Some a) (Some b) xs ys m = do {
      (new, m) \<leftarrow> unmatched_sm E (Some a) y m; (a, b, m) \<leftarrow> match_walk E (Some a) (Some b) xs ys' m; Some (new # a, b, m) }"
    for y ys'
  proof -
    obtain n h1 where n: "unmatched_sm E (Some a) y m = Some (n, m\<lparr>sms := h1\<rparr>)" "made E (sms m) h1 y n" "grown (sms m) h1"
      using new by blast
    obtain as bs h' where r: "match_walk E (Some a) (Some b) xs ys' (m\<lparr>sms := h1\<rparr>) = Some (as, bs, m\<lparr>sms := h'\<rparr>)"
      "grown h1 h'" "list_all2 (made E h1 h') (only_in ys' xs) as" "list_all2 (made E h1 h') (only_in xs ys') bs"
      using IH [of xs ys' "m\<lparr>sms := h1\<rparr>"] less.prems y by auto
    have "key y \<notin> set (keys xs)" using lt by auto
    then have "only_in ys xs = y # only_in ys' xs" by (simp add: only_in_def y)
    moreover have "list_all2 (made E (sms m) h') (only_in xs ys') bs" "list_all2 (made E (sms m) h') (only_in ys' xs) as"
      by (rule list_all2_mono [OF r(4)], blast intro: made_mono n(3) grown_refl,
          rule list_all2_mono [OF r(3)], blast intro: made_mono n(3) grown_refl)
    moreover have "made E (sms m) h' y n" using made_mono [OF n(2) grown_refl r(2)] .
    moreover have "match_walk E (Some a) (Some b) xs ys m = Some (n # as, bs, m\<lparr>sms := h'\<rparr>)" using w n(1) r(1) by simp
    ultimately show ?thesis
      using only_in_less [OF lt, of ys'] y grown_trans [OF n(3) r(2)] by auto
  qed
  show ?case
  proof (cases xs)
    case Nil
    show ?thesis
    proof (cases ys)
      case Nil
      with \<open>xs = []\<close> show ?thesis by (intro exI [of _ "[]"] exI [of _ "sms m"]) (simp add: only_in_def)
    next
      case (Cons y ys')
      then show ?thesis using two [of y ys'] \<open>xs = []\<close> by simp
    qed
  next
    case x: (Cons x xs')
    show ?thesis
    proof (cases ys)
      case Nil
      then show ?thesis using one [of x xs'] x by simp
    next
      case y: (Cons y ys')
      have srt: "\<forall>z \<in> set xs'. key x < key z" "\<forall>z \<in> set ys'. key y < key z" "sorted_sms xs'" "sorted_sms ys'"
        using less.prems by (auto simp: x y)
      consider "key x < key y" | "key x = key y" | "key y < key x" by fastforce
      then show ?thesis
      proof cases
        case 1
        then have "\<forall>z \<in> set ys. key x < key z" using srt(2) y by (auto intro: less_trans)
        from one [OF x this] show ?thesis using 1 x y by simp
      next
        case 2
        have e: "only_in ys xs = only_in ys' xs'" "only_in xs ys = only_in xs' ys'"
          using 2 srt only_in_less [of ys' x xs'] only_in_less [of xs' y ys'] by (auto simp: x y only_in_def)
        have w: "match_walk E (Some a) (Some b) xs ys m = match_walk E (Some a) (Some b) xs' ys' m"
          using 2 by (simp add: x y)
        show ?thesis using IH [of xs' ys' m] srt fo unfolding e w by (simp add: x y)
      next
        case 3
        then have "\<forall>z \<in> set xs. key y < key z" using srt(1) x by (auto intro: less_trans)
        from two [OF y this] show ?thesis using 3 x y less_asym [OF 3] by auto
      qed
    qed
  qed
qed

text \<open>The map \<open>f'\<close> is \<open>f\<close> with a state for every key that only \<open>g\<close> has.\<close>

definition matched :: "env \<Rightarrow> sm_heap \<Rightarrow> sm_heap \<Rightarrow> smap \<Rightarrow> smap \<Rightarrow> smap \<Rightarrow> bool" where
  "matched E h h' f g f' \<longleftrightarrow> dom f' = dom f \<union> dom g
     \<and> (\<forall>k x. f k = Some x \<longrightarrow> f' k = Some x)
     \<and> (\<forall>k y. f k = None \<longrightarrow> g k = Some y \<longrightarrow> (\<exists>x. f' k = Some x \<and> made E h h' y x))"

lemma made_keys: "list_all2 (made E h h') ys xs \<Longrightarrow> keys xs = keys ys"
  by (induction rule: list_all2_induct) (auto simp: made_def)

lemma find_key_made:
  "list_all2 (made E h h') ys xs \<Longrightarrow> find_key k ys = Some y \<Longrightarrow> \<exists>x. find_key k xs = Some x \<and> made E h h' y x"
  by (induction rule: list_all2_induct) (auto simp: find_key_def made_def split: if_splits)

lemma matched_fold:
  assumes "sorted_sms xs" "sorted_sms ys" "list_all2 (made E h h') (only_in ys xs) as"
    "(\<lambda>k. find_key k xs) = f" "(\<lambda>k. find_key k ys) = g"
  shows "matched E h h' f g (fold (\<lambda>x f. f(key x \<mapsto> x)) as f)"
proof -
  have f: "\<And>k. f k = find_key k xs" and g: "\<And>k. g k = find_key k ys" using assms(4,5) by auto
  have srt: "sorted_sms (only_in ys xs)" using assms(2) by (simp add: only_in_def sorted_sms_filter)
  have "sorted_sms as" using srt made_keys [OF assms(3)] by simp
  note fd = fold_upd_find [OF this, of f]
  have o: "find_key k (only_in ys xs) = (if f k = None then g k else None)" for k
  proof (cases "find_key k ys")
    case None
    then show ?thesis by (simp add: only_in_def find_key_filter_gen [OF assms(2)] g)
  next
    case (Some y)
    then have "key y = k" using find_key_Some_iff [OF assms(2)] by blast
    moreover have "k \<notin> set (keys xs) \<longleftrightarrow> f k = None" by (simp only: find_key_None [symmetric] f)
    ultimately show ?thesis using Some by (simp only: only_in_def find_key_filter_gen [OF assms(2)] g option.case)
  qed
  have a: "find_key k as = None \<longleftrightarrow> find_key k (only_in ys xs) = None" for k
    using made_keys [OF assms(3)] by (simp add: find_key_None)
  have d: "find_key k as = None" if "f k \<noteq> None" for k using a [of k] o [of k] that by auto
  have "fold (\<lambda>x f. f(key x \<mapsto> x)) as f k = (case find_key k as of None \<Rightarrow> f k | Some x \<Rightarrow> Some x)" for k
    using fd by (simp add: map_add_def)
  note v = this
  show ?thesis
    unfolding matched_def
  proof (intro conjI allI impI)
    show "dom (fold (\<lambda>x f. f(key x \<mapsto> x)) as f) = dom f \<union> dom g"
    proof (rule set_eqI)
      fix k
      have "fold (\<lambda>x f. f(key x \<mapsto> x)) as f k \<noteq> None \<longleftrightarrow> f k \<noteq> None \<or> g k \<noteq> None"
        using v [of k] a [of k] o [of k] by (cases "find_key k as"; cases "f k") auto
      then show "k \<in> dom (fold (\<lambda>x f. f(key x \<mapsto> x)) as f) \<longleftrightarrow> k \<in> dom f \<union> dom g" by (simp add: dom_def)
    qed
    show "fold (\<lambda>x f. f(key x \<mapsto> x)) as f k = Some x" if "f k = Some x" for k x using v [of k] d [of k] that by simp
    show "\<exists>x. fold (\<lambda>x f. f(key x \<mapsto> x)) as f k = Some x \<and> made E h h' y x" if "f k = None" "g k = Some y" for k y
      using v [of k] o [of k] find_key_made [OF assms(3), of k y] that by auto
  qed
qed

lemma match_states_wp:
  assumes "repr m (p # q # ps) S (f # g # vs)" "f \<noteq> Map.empty" "g \<noteq> Map.empty" "fast_overlay m = None"
  shows "wp (match_states_stree E p q m) (\<lambda>(p', q', m'). \<exists>f' g'. repr m' (p' # q' # ps) S (f' # g' # vs)
    \<and> matched E (sms m) (sms m') f g f' \<and> matched E (sms m) (sms m') g f g' \<and> grown (sms m) (sms m')
    \<and> control_of m' = control_of m \<and> pool m' = pool m \<and> stree_id_counter m' = stree_id_counter m)"
proof -
  let ?m = "set_cur_stree_readonly m"
  have r: "repr ?m (p # q # ps) S (f # g # vs)"
    using assms(1) by (auto simp: set_cur_stree_readonly_def elim!: repr_done)
  have h: "held (strees m) (hand m (p # q # ps))" using assms(1) by (simp add: repr_def)
  have v: "view (strees m) p = f" "view (strees m) q = g" using repr_view [OF assms(1)] by auto
  then obtain a b where ab: "p = Some a" "q = Some b" using assms(2,3) by (cases p; cases q) auto
  obtain xs where xs: "states_of (strees m) p = Some xs" "sorted_sms xs" "(\<lambda>k. find_key k xs) = f"
    using elems_held [OF h, of p] v by auto
  obtain ys where ys: "states_of (strees m) q = Some ys" "sorted_sms ys" "(\<lambda>k. find_key k ys) = g"
    using elems_held [OF h, of q] v by auto
  obtain t u where tu: "trees (strees m) a = Some t" "trees (strees m) b = Some u"
    using held_live [OF h, of a] held_live [OF h, of b] ab by auto
  obtain as bs h' where w: "match_walk E p q xs ys ?m = Some (as, bs, ?m\<lparr>sms := h'\<rparr>)" "grown (sms m) h'"
    "list_all2 (made E (sms m) h') (only_in ys xs) as" "list_all2 (made E (sms m) h') (only_in xs ys) bs"
    using match_walk_spec [OF xs(2) ys(2), of ?m a t b u E] assms(4) tu ab by (auto simp: set_cur_stree_readonly_def)
  let ?n = "set_cur_stree_writable (?m\<lparr>sms := h'\<rparr>)"
  have n: "?n = m\<lparr>sms := h'\<rparr>" by (simp add: set_cur_stree_readonly_def set_cur_stree_writable_def)
  have "repr ?n (p # q # ps) S (f # g # vs)" using assms(1) unfolding n by (auto elim!: repr_done)
  then have "wp (insert_all_tree p as ?n) (\<lambda>(p', m1). wp (insert_all_tree q bs m1) (\<lambda>(q', m'). \<exists>f' g'. repr m' (p' # q' # ps) S (f' # g' # vs)
    \<and> matched E (sms m) (sms m') f g f' \<and> matched E (sms m) (sms m') g f g' \<and> grown (sms m) (sms m')
    \<and> control_of m' = control_of m \<and> pool m' = pool m \<and> stree_id_counter m' = stree_id_counter m))"
    unfolding n
    apply (rule wp_insert_all, simp)
    apply (rule wp_insert_all, erule swap2, simp)
    using matched_fold [OF xs(2) ys(2) w(3) xs(3) ys(3)] matched_fold [OF ys(2) xs(2) w(4) ys(3) xs(3)] w(2)
    apply (auto simp: control_of_def dest: swap2)
    done
  moreover have "strees ?m = strees m" by (simp add: set_cur_stree_readonly_def)
  ultimately show ?thesis
    using xs(1) ys(1) w(1) by (simp add: match_states_stree_def case_prod_unfold Let_def)
qed

section \<open>Hooks before a merge\<close>

text \<open>
  What the program relies on for the hooks that checkers register: a hook sets the state it is called
  for, if it sets any. Every \<^verbatim>\<open>pre_merge_hook\<close> of the checkers is of this form.
\<close>

definition hooks_local :: "env \<Rightarrow> bool" where
  "hooks_local E \<longleftrightarrow> (\<forall>ow hook m cur other o' n y s. pre_merge_hooks E ow = Some hook \<longrightarrow>
     (o', n, y, s) \<in> set (hook m cur other) \<longrightarrow> TKey o' n y = key cur)"

definition hooked :: "env \<Rightarrow> tkey \<Rightarrow> bool" where
  "hooked E k \<longleftrightarrow> pre_merge_hooks E (key_owner k) \<noteq> None"

text \<open>Addresses handed out since a given moment, and maps that hold older states only.\<close>

definition new_in :: "sm_heap \<Rightarrow> sm_heap \<Rightarrow> smap \<Rightarrow> bool" where
  "new_in h h' f \<longleftrightarrow> (\<forall>k x. f k = Some x \<longrightarrow> next_sm h \<le> sm_addr x \<and> sm_addr x < next_sm h')"

definition below :: "sm_heap \<Rightarrow> smap \<Rightarrow> bool" where
  "below h f \<longleftrightarrow> (\<forall>k x. f k = Some x \<longrightarrow> sm_addr x < next_sm h)"

definition keyed :: "smap \<Rightarrow> bool" where
  "keyed f \<longleftrightarrow> (\<forall>k x. f k = Some x \<longrightarrow> key x = k)"

lemma view_keyed: "keyed (view st p)"
  by (auto simp: keyed_def view_def find_Some_iff split: option.splits)

lemma repr_keyed: "repr m (p # ps) S (f # vs) \<Longrightarrow> keyed f"
  using repr_held [of m p ps S f vs] view_keyed by simp

lemma new_in_add:
  "new_in h h1 f \<Longrightarrow> new_in h1 h2 g \<Longrightarrow> grown h h1 \<Longrightarrow> grown h1 h2 \<Longrightarrow> new_in h h2 (f ++ g)"
  unfolding new_in_def grown_def map_add_def by (force split: option.splits)

text \<open>The stacks after some calls of \<^verbatim>\<open>set_state\<close> for the keys in \<open>K\<close>.\<close>

definition touched :: "tkey set \<Rightarrow> sm_heap \<Rightarrow> sm_heap \<Rightarrow> smap stacks \<Rightarrow> smap stacks \<Rightarrow> bool" where
  "touched K h h' S S' \<longleftrightarrow> (\<exists>N M. S' = S\<lparr>fake_cur_stree_stack := map_top (\<lambda>f. f ++ N) (fake_cur_stree_stack S),
       cur_stree := cur_stree S ++ M\<rparr>
     \<and> dom N \<subseteq> K \<and> new_in h h' N)"

lemma map_top_map_top: "map_top f (map_top g s) = map_top (\<lambda>x. f (g x)) s"
  by (simp add: map_top_def)

lemma map_top_same: "s \<noteq> [] \<Longrightarrow> map_top (\<lambda>f. f) s = s"
  by (simp add: map_top_def top_map_def)

lemma map_top_nonempty [simp]: "map_top f s \<noteq> []"
  by (simp add: map_top_def)

lemma touched_refl: "fake_cur_stree_stack S \<noteq> [] \<Longrightarrow> touched K h h S S"
  unfolding touched_def by (intro exI [of _ Map.empty]) (simp add: map_top_same new_in_def)

lemma touched_trans:
  assumes "touched K h h1 S S1" "touched K h1 h2 S1 S2" "grown h h1" "grown h1 h2"
  shows "touched K h h2 S S2"
proof -
  obtain N M where 1: "S1 = S\<lparr>fake_cur_stree_stack := map_top (\<lambda>f. f ++ N) (fake_cur_stree_stack S), cur_stree := cur_stree S ++ M\<rparr>"
    "dom N \<subseteq> K" "new_in h h1 N" using assms(1) unfolding touched_def by blast
  obtain N' M' where 2: "S2 = S1\<lparr>fake_cur_stree_stack := map_top (\<lambda>f. f ++ N') (fake_cur_stree_stack S1), cur_stree := cur_stree S1 ++ M'\<rparr>"
    "dom N' \<subseteq> K" "new_in h1 h2 N'" using assms(2) unfolding touched_def by blast
  have "S2 = S\<lparr>fake_cur_stree_stack := map_top (\<lambda>f. f ++ (N ++ N')) (fake_cur_stree_stack S), cur_stree := cur_stree S ++ (M ++ M')\<rparr>"
    by (simp add: 1(1) 2(1) map_top_map_top)
  then show ?thesis
    unfolding touched_def using 1 2 new_in_add [OF 1(3) 2(3) assms(3,4)] by (intro exI [of _ "N ++ N'"] exI [of _ "M ++ M'"]) auto
qed

lemma touched_fake: "touched K h h' S S' \<Longrightarrow> fake_cur_stree_stack S' \<noteq> []"
  by (auto simp: touched_def)

definition quiet :: "machine \<Rightarrow> machine \<Rightarrow> bool" where
  "quiet m m' \<longleftrightarrow> control_of m' = control_of m \<and> pool m' = pool m \<and> stree_id_counter m' = stree_id_counter m
     \<and> grown (sms m) (sms m')"

lemma quiet_trans: "quiet m m1 \<Longrightarrow> quiet m1 m2 \<Longrightarrow> quiet m m2"
  by (auto simp: quiet_def grown_def)

lemma quiet_refl [simp]: "quiet m m"
  by (simp add: quiet_def)

lemma quiet_read_only: "quiet m m' \<Longrightarrow> read_only m' = read_only m \<and> fast_overlay m' = fast_overlay m"
  by (simp add: quiet_def control_of_def)

lemma touched_step:
  "touched K (sms m) (sms m1) S S1 \<Longrightarrow> quiet m m1 \<Longrightarrow> touched K (sms m1) (sms m') S1 S' \<Longrightarrow> quiet m1 m' \<Longrightarrow>
    touched K (sms m) (sms m') S S' \<and> quiet m m'"
  using touched_trans quiet_trans by (auto simp: quiet_def)

lemma set_state_touched:
  assumes "repr m ps S vs" "read_only m = 0" "fake_cur_stree_stack S \<noteq> []" "TKey ow nm sy \<in> K"
  shows "wp (set_state ow (Some nm) sy (Some s) m)
    (\<lambda>(r, m'). \<exists>S'. repr m' ps S' vs \<and> touched K (sms m) (sms m') S S' \<and> quiet m m')"
proof (cases "cur_stree S \<noteq> Map.empty \<or> ow = USHRT_MAX")
  case True
  have "touched K (sms m) (sms m') S (spec_set (TKey ow nm sy) x y S)"
    if "fresh_sm (TKey ow nm sy) s (sms m) x" "sm_addr x < next_sm (sms m')" for m' x y
    unfolding touched_def spec_set_def put_top_def
    using assms(3,4) that by (intro exI [of _ "[TKey ow nm sy \<mapsto> x]"] exI [of _ "[TKey ow nm sy \<mapsto> y]"])
      (auto simp: new_in_def fresh_sm_def split: if_splits)
  then show ?thesis
    by (intro wp_mono [OF set_state_wp [OF assms(1,2) True, of nm sy s]]) (fastforce simp: quiet_def grown_def)
next
  case False
  then have "is_unreachable m" "ow \<noteq> USHRT_MAX" using null_cur [OF assms(1)] by (auto simp: is_unreachable_def)
  then have "set_state ow (Some nm) sy (Some s) m = Some (None, m)" using assms(2) by (simp add: set_state_def)
  then show ?thesis using assms(1) touched_refl [OF assms(3)] by auto
qed

lemma run_sets_touched:
  assumes "repr m ps S vs" "read_only m = 0" "fake_cur_stree_stack S \<noteq> []"
    "\<forall>(ow, nm, sy, s) \<in> set calls. TKey ow nm sy \<in> K"
  shows "wp (run_sets calls m) (\<lambda>m'. \<exists>S'. repr m' ps S' vs \<and> touched K (sms m) (sms m') S S' \<and> quiet m m')"
  using assms
proof (induction calls arbitrary: m S)
  case Nil
  then show ?case using touched_refl by auto
next
  case (Cons c calls)
  obtain ow nm sy s where c: "c = (ow, nm, sy, s)" by (cases c)
  have k: "TKey ow nm sy \<in> K" "\<forall>(ow, nm, sy, s) \<in> set calls. TKey ow nm sy \<in> K" using Cons.prems(4) by (auto simp: c)
  have "wp (run_sets calls m1) (\<lambda>m'. \<exists>S'. repr m' ps S' vs \<and> touched K (sms m) (sms m') S S' \<and> quiet m m')"
    if 1: "repr m1 ps S1 vs" "touched K (sms m) (sms m1) S S1" "quiet m m1" for m1 S1
  proof -
    have ro: "read_only m1 = 0" using quiet_read_only [OF 1(3)] Cons.prems(2) by simp
    show ?thesis
      by (rule wp_mono [OF Cons.IH [OF 1(1) ro touched_fake [OF 1(2)] k(2)]]) (use touched_step [OF 1(2,3)] in blast)
  qed
  then show ?case
    using set_state_touched [OF Cons.prems(1-3) k(1), of s]
    by (auto simp: c elim!: wp_mono)
qed

lemma pre_merge_loop_wp:
  assumes "repr m (p # ps) S (f # vs)" "read_only m = 0" "fake_cur_stree_stack S \<noteq> []" "fast_overlay m = p"
    "hooks_local E" "\<forall>x \<in> set slist. f (key x) \<noteq> None"
  shows "wp (pre_merge_loop E slist m) (\<lambda>m'. \<exists>S'. repr m' (p # ps) S' (f # vs)
    \<and> touched {k \<in> dom f. hooked E k} (sms m) (sms m') S S' \<and> quiet m m')"
  using assms
proof (induction slist arbitrary: m S)
  case Nil
  then show ?case using touched_refl by auto
next
  case (Cons x slist)
  let ?K = "{k \<in> dom f. hooked E k}"
  obtain c where c: "f (key x) = Some c" using Cons.prems(6) by auto
  have kc: "key c = key x" using repr_keyed [OF Cons.prems(1)] c by (simp add: keyed_def)
  have vf: "view (strees m) (fast_overlay m) = f" using repr_view [OF Cons.prems(1)] Cons.prems(4) by simp
  have get: "get_sm_state (owner x) (Some (name x)) (sym x) m = Some (Some c)"
    using get_sm_state_repr [OF Cons.prems(1), of "owner x" "name x" "sym x"] Cons.prems(4) vf c
    by (simp add: key_def map_add_def)
  have hook: "wp (call_pre_merge_hook E (Some c) x m) (\<lambda>m'. \<exists>S'. repr m' (p # ps) S' (f # vs)
    \<and> touched ?K (sms m) (sms m') S S' \<and> quiet m m')"
  proof (cases "owner c \<ge> num_checks (cf E) \<or> pre_merge_hooks E (owner c) = None")
    case True
    then have "call_pre_merge_hook E (Some c) x m = Some m" by (auto simp: call_pre_merge_hook_def)
    then show ?thesis using Cons.prems(1) touched_refl [OF Cons.prems(3)] by auto
  next
    case False
    then obtain h where h: "pre_merge_hooks E (owner c) = Some h" by auto
    have "key_owner (key x) = owner c" using kc by (metis key_def tkey.sel(1))
    then have "key x \<in> ?K" using c h by (auto simp: hooked_def)
    then have "\<forall>(ow, nm, sy, s) \<in> set (h m c x). TKey ow nm sy \<in> ?K"
      using Cons.prems(5) h kc unfolding hooks_local_def by fastforce
    from run_sets_touched [OF Cons.prems(1-3) this] show ?thesis using False h by (simp add: call_pre_merge_hook_def)
  qed
  have step: "wp (if sm_addr c = sm_addr x then Some m else call_pre_merge_hook E (Some c) x m)
    (\<lambda>m'. \<exists>S'. repr m' (p # ps) S' (f # vs) \<and> touched ?K (sms m) (sms m') S S' \<and> quiet m m')"
    using hook Cons.prems(1) touched_refl [OF Cons.prems(3)] by auto
  have rest: "wp (pre_merge_loop E slist m1) (\<lambda>m'. \<exists>S'. repr m' (p # ps) S' (f # vs)
    \<and> touched ?K (sms m) (sms m') S S' \<and> quiet m m')"
    if 1: "repr m1 (p # ps) S1 (f # vs)" "touched ?K (sms m) (sms m1) S S1" "quiet m m1" for m1 S1
  proof -
    have ro: "read_only m1 = 0" "fast_overlay m1 = p" using quiet_read_only [OF 1(3)] Cons.prems(2,4) by auto
    show ?thesis
      using Cons.prems(6) touched_step [OF 1(2,3)]
      by (intro wp_mono [OF Cons.IH [OF 1(1) ro(1) touched_fake [OF 1(2)] ro(2) Cons.prems(5)]]) (simp, blast)
  qed
  show ?case using step rest by (auto simp: get elim!: wp_mono)
qed

lemma quiet_store [simp]: "quiet m (m\<lparr>strees := st\<rparr>)"
  by (simp add: quiet_def control_of_def)

lemma same_rest_quiet: "same_rest m m' \<Longrightarrow> quiet m m'"
  by (simp add: same_rest_def quiet_def)

lemma quiet_unwrap:
  assumes "quiet (set_fake_cur_stree_fast p m) m'" "fast_overlay m = None"
  shows "quiet m (pop_fake_cur_stree_fast m')"
  using assms by (auto simp: quiet_def control_of_def set_fake_cur_stree_fast_def pop_fake_cur_stree_fast_def)

lemma pre_merge_side_wp:
  assumes "repr m (p # q # ps) S (f # g # vs)" "read_only m = 0" "fast_overlay m = None" "hooks_local E" "dom g \<subseteq> dom f"
  shows "wp (pre_merge_side E p q m) (\<lambda>(p', m'). \<exists>N. repr m' (p' # q # ps) S ((f ++ N) # g # vs)
    \<and> dom N \<subseteq> {k \<in> dom f. hooked E k} \<and> new_in (sms m) (sms m') N \<and> quiet m m')"
proof -
  let ?K = "{k \<in> dom f. hooked E k}"
  let ?m = "set_fake_cur_stree_fast p m"
  let ?P = "\<lambda>(p', m'). \<exists>N. repr m' (p' # q # ps) S ((f ++ N) # g # vs) \<and> dom N \<subseteq> ?K
    \<and> new_in (sms m) (sms m') N \<and> quiet m m'"
  have m: "read_only ?m = 0" "fast_overlay ?m = p" "sms ?m = sms m"
    using assms(2,3) by (auto simp: set_fake_cur_stree_fast_def)
  have r: "repr ?m (p # q # ps) S (f # g # vs)"
    using assms(1,3) by (auto simp: set_fake_cur_stree_fast_def elim!: repr_done)
  have finish: "wp (pop_fake_cur_stree m2) (\<lambda>(new, m3). wp (overwrite_tree new p m3) (\<lambda>(p', m4).
      wp (free_tree new m4) (\<lambda>m5. ?P (p', pop_fake_cur_stree_fast m5))))"
    if 2: "repr m2 (p # q # ps) S2 (f # g # vs)" "touched ?K (sms m) (sms m2) (spec_push_fake S) S2" "quiet ?m m2" for m2 S2
  proof -
    obtain N M where S2: "S2 = (spec_push_fake S)\<lparr>fake_cur_stree_stack :=
        map_top (\<lambda>f. f ++ N) (fake_cur_stree_stack (spec_push_fake S)), cur_stree := cur_stree (spec_push_fake S) ++ M\<rparr>"
      and N: "dom N \<subseteq> ?K" "new_in (sms m) (sms m2) N"
      using 2(2) unfolding touched_def by blast
    have S: "spec_pop_fake S2 = S" "top_map (fake_cur_stree_stack S2) = N"
      by (simp_all add: S2 spec_pop_fake_def spec_push_fake_def map_top_def)
    have "wp (overwrite_tree new p m3) (\<lambda>(p', m4). wp (free_tree new m4) (\<lambda>m5. ?P (p', pop_fake_cur_stree_fast m5)))"
      if 3: "repr m3 (new # p # q # ps) S (N # f # g # vs)" "same_rest m2 m3" for new m3
    proof -
      have q3: "quiet ?m m3" "sms m3 = sms m2" using 3(2) 2(3) same_rest_quiet quiet_trans by (auto simp: same_rest_def)
      have "quiet m (pop_fake_cur_stree_fast (m3\<lparr>strees := st\<rparr>))" for st
        using quiet_unwrap [OF quiet_trans [OF q3(1) quiet_store] assms(3)] .
      moreover have "repr (pop_fake_cur_stree_fast (m3\<lparr>strees := st\<rparr>)) (p' # q # ps) S ((f ++ N) # g # vs)"
        if "repr (m3\<lparr>strees := st\<rparr>) (p' # q # ps) S ((f ++ N) # g # vs)" for p' st
        using that by (auto simp: pop_fake_cur_stree_fast_def elim!: repr_done)
      moreover have "sms (pop_fake_cur_stree_fast (m3\<lparr>strees := st\<rparr>)) = sms m2" for st
        using q3(2) by (simp add: pop_fake_cur_stree_fast_def)
      ultimately show ?thesis
        apply (rule_tac wp_overwrite2 [OF swap2 [OF 3(1)]], simp)
        apply (rule wp_free, erule swap2, simp)
        apply (rule exI [of _ N])
        using N apply auto
        done
    qed
    moreover have "fake_cur_stree_stack S2 \<noteq> []" by (simp add: S2)
    ultimately show ?thesis
      using pop_fake_cur_stree_wp [OF 2(1)] by (auto simp: S elim!: wp_mono)
  qed
  have "wp (states_of (strees m1) q) (\<lambda>slist. wp (pre_merge_loop E slist m1) (\<lambda>m2. wp (pop_fake_cur_stree m2) (\<lambda>(new, m3).
      wp (overwrite_tree new p m3) (\<lambda>(p', m4). wp (free_tree new m4) (\<lambda>m5. ?P (p', pop_fake_cur_stree_fast m5))))))"
    if 1: "repr m1 (p # q # ps) (spec_push_fake S) (f # g # vs)" "same_rest ?m m1" for m1
  proof (rule wp_states [OF 1(1)])
    show "q \<in># hand m1 (p # q # ps)" by simp
  next
    fix xs assume xs: "sorted_sms xs" "(\<lambda>k. find_key k xs) = view (strees m1) q"
    have "view (strees m1) q = g" using repr_view [OF 1(1)] by simp
    then have "\<forall>x \<in> set xs. f (key x) \<noteq> None"
      using xs assms(5) find_key_Some_iff [OF xs(1)] by (metis domIff option.distinct(1) subsetD)
    moreover have "read_only m1 = 0" "fast_overlay m1 = p" "sms m1 = sms m"
      using m 1(2) by (auto simp: same_rest_def control_of_def)
    moreover have "fake_cur_stree_stack (spec_push_fake S) \<noteq> []" by (simp add: spec_push_fake_def)
    ultimately have "wp (pre_merge_loop E xs m1) (\<lambda>m'. \<exists>S'. repr m' (p # q # ps) S' (f # g # vs)
        \<and> touched ?K (sms m) (sms m') (spec_push_fake S) S' \<and> quiet m1 m')"
      using pre_merge_loop_wp [OF 1(1), of E xs] assms(4) by simp
    then show "wp (pre_merge_loop E xs m1) (\<lambda>m2. wp (pop_fake_cur_stree m2) (\<lambda>(new, m3).
      wp (overwrite_tree new p m3) (\<lambda>(p', m4). wp (free_tree new m4) (\<lambda>m5. ?P (p', pop_fake_cur_stree_fast m5)))))"
      by (rule wp_mono) (use finish quiet_trans [OF same_rest_quiet [OF 1(2)]] in blast)
  qed
  then have "wp (push_fake_cur_stree ?m) (\<lambda>m1. wp (states_of (strees m1) q) (\<lambda>slist. wp (pre_merge_loop E slist m1) (\<lambda>m2. wp (pop_fake_cur_stree m2) (\<lambda>(new, m3).
      wp (overwrite_tree new p m3) (\<lambda>(p', m4). wp (free_tree new m4) (\<lambda>m5. ?P (p', pop_fake_cur_stree_fast m5)))))))"
    by (intro wp_mono [OF runsD [OF push_fake_cur_stree_runs r]]) blast
  then show ?thesis by (simp add: pre_merge_side_def Let_def case_prod_unfold)
qed

section \<open>What the two sides hold\<close>

text \<open>Some states of a map were replaced by newer ones, for unhooked owners without a change of the state.\<close>

definition refreshed :: "env \<Rightarrow> sm_heap \<Rightarrow> sm_heap \<Rightarrow> smap \<Rightarrow> smap \<Rightarrow> bool" where
  "refreshed E h h' f f' \<longleftrightarrow> dom f' = dom f
     \<and> (\<forall>k x y. f k = Some x \<longrightarrow> f' k = Some y \<longrightarrow> y = x
          \<or> next_sm h \<le> sm_addr y \<and> sm_addr y < next_sm h' \<and> (hooked E k \<or> state y = state x))"

text \<open>
  The state that the path of \<open>f\<close> has for a key when it meets the path of \<open>g\<close>: its own, or what the
  checker's function for unmatched states returns.
\<close>

definition path_state :: "env \<Rightarrow> smap \<Rightarrow> smap \<Rightarrow> tkey \<Rightarrow> smatch_state \<Rightarrow> bool" where
  "path_state E f g k s \<longleftrightarrow>
     (case f k of
        Some x \<Rightarrow> s = state x
      | None \<Rightarrow> \<exists>y m. g k = Some y \<and> s = client_unmatched_state_function E m y)"

text \<open>An address stands for one state.\<close>

definition coherent :: "smap \<Rightarrow> smap \<Rightarrow> bool" where
  "coherent f g \<longleftrightarrow> (\<forall>k x y. f k = Some x \<longrightarrow> g k = Some y \<longrightarrow> sm_addr x = sm_addr y \<longrightarrow> state x = state y)"

text \<open>The states of a family of maps: they are older than a given moment, and an address stands for one state.\<close>

definition fam :: "sm_heap \<Rightarrow> smap set \<Rightarrow> bool" where
  "fam h F \<longleftrightarrow> (\<forall>f \<in> F. below h f) \<and> (\<forall>f \<in> F. \<forall>g \<in> F. coherent f g)"

lemma coherent_sym: "coherent f g \<Longrightarrow> coherent g f"
  unfolding coherent_def by metis

lemma coherent_refl [simp]: "coherent f f"
  by (simp add: coherent_def)

lemma fam_insert:
  "fam h (insert f F) \<longleftrightarrow> below h f \<and> (\<forall>g \<in> F. coherent f g) \<and> fam h F"
  using coherent_sym by (auto simp: fam_def)

lemma fam_mono: "fam h F \<Longrightarrow> G \<subseteq> F \<Longrightarrow> fam h G"
  unfolding fam_def by blast

lemma fam_grown: "fam h F \<Longrightarrow> grown h h' \<Longrightarrow> fam h' F"
  unfolding fam_def below_def grown_def by fastforce

text \<open>A map whose states are those of a map of the family, or newer than all of the family.\<close>

lemma coherent_newer:
  assumes "fam h F" "\<forall>k x. f' k = Some x \<longrightarrow> (\<exists>f \<in> F. f k = Some x) \<or> next_sm h \<le> sm_addr x" "g \<in> F"
  shows "coherent f' g"
  unfolding coherent_def
proof (intro allI impI)
  fix k x y assume k: "f' k = Some x" "g k = Some y" "sm_addr x = sm_addr y"
  have "sm_addr y < next_sm h" using assms(1,3) k(2) unfolding fam_def below_def by blast
  then obtain f where "f \<in> F" "f k = Some x" using assms(2) k by force
  then show "state x = state y" using assms(1,3) k unfolding fam_def coherent_def by blast
qed

lemma fam_newer:
  assumes "fam h F" "\<forall>k x. f' k = Some x \<longrightarrow> (\<exists>f \<in> F. f k = Some x) \<or> next_sm h \<le> sm_addr x \<and> sm_addr x < next_sm h'"
    "grown h h'"
  shows "fam h' (insert f' F)"
proof -
  have "below h' f'" using assms unfolding fam_def below_def grown_def by fastforce
  moreover have "\<forall>g \<in> F. coherent f' g" using coherent_newer [OF assms(1), of f'] assms(2) by blast
  ultimately show ?thesis using fam_grown [OF assms(1,3)] by (simp add: fam_insert)
qed

definition sides :: "env \<Rightarrow> smap set \<Rightarrow> smap \<Rightarrow> smap \<Rightarrow> sm_heap \<Rightarrow> smap \<Rightarrow> smap \<Rightarrow> bool" where
  "sides E F f0 g0 h f g \<longleftrightarrow> dom f = dom f0 \<union> dom g0 \<and> dom g = dom f0 \<union> dom g0
     \<and> fam h (insert f (insert g F))
     \<and> (\<forall>k x. \<not> hooked E k \<longrightarrow> f k = Some x \<longrightarrow> path_state E f0 g0 k (state x))
     \<and> (\<forall>k y. \<not> hooked E k \<longrightarrow> g k = Some y \<longrightarrow> path_state E g0 f0 k (state y))"

lemma sides_sym: "sides E F f0 g0 h f g \<Longrightarrow> sides E F g0 f0 h g f"
  unfolding sides_def by (simp add: Un_commute insert_commute)

lemma matched_cases:
  assumes "matched E h h' f g f'" "f' k = Some x"
  shows "f k = Some x \<or> (f k = None \<and> (\<exists>y. g k = Some y \<and> made E h h' y x))"
proof (cases "f k")
  case (Some z)
  then have "f' k = Some z" using assms(1) by (simp add: matched_def)
  then show ?thesis using Some assms(2) by simp
next
  case None
  have "k \<in> dom f \<union> dom g" using assms unfolding matched_def by blast
  then obtain y where y: "g k = Some y" using None by auto
  then obtain z where "f' k = Some z" "made E h h' y z" using assms(1) None unfolding matched_def by blast
  then show ?thesis using assms(2) None y by simp
qed

lemma refreshed_cases:
  assumes "refreshed E h h' f f'" "f' k = Some y"
  obtains x where "f k = Some x"
    "y = x \<or> next_sm h \<le> sm_addr y \<and> sm_addr y < next_sm h' \<and> (hooked E k \<or> state y = state x)"
proof -
  have "k \<in> dom f" using assms unfolding refreshed_def by blast
  then obtain x where "f k = Some x" by blast
  then show thesis using that assms by (simp add: refreshed_def)
qed

lemma sides_matched:
  assumes "matched E h h' f g f'" "matched E h h' g f g'" "fam h (insert f (insert g F))" "grown h h'"
  shows "sides E F f g h' f' g'"
proof -
  note f = matched_cases [OF assms(1)] and g = matched_cases [OF assms(2)]
  let ?F = "insert f (insert g F)"
  have nf: "(\<exists>f \<in> ?F. f k = Some x) \<or> next_sm h \<le> sm_addr x \<and> sm_addr x < next_sm h'" if "f' k = Some x" for k x
    using f [OF that] by (auto simp: made_def)
  have ng: "(\<exists>f \<in> ?F. f k = Some x) \<or> next_sm h \<le> sm_addr x \<and> sm_addr x < next_sm h'" if "g' k = Some x" for k x
    using g [OF that] by (auto simp: made_def)
  have b: "below h f" "below h g" "coherent f g" using assms(3) by (simp_all add: fam_insert)
  have "coherent f' g'"
    unfolding coherent_def
  proof (intro allI impI)
    fix k x y assume k: "f' k = Some x" "g' k = Some y" "sm_addr x = sm_addr y"
    from f [OF k(1)] g [OF k(2)] show "state x = state y"
      using b k(3) by (fastforce simp: coherent_def below_def made_def)
  qed
  moreover have "fam h' (insert f' ?F)" "fam h' (insert g' ?F)"
    using fam_newer [OF assms(3) _ assms(4), of f'] fam_newer [OF assms(3) _ assms(4), of g'] nf ng by blast+
  ultimately have "fam h' (insert f' (insert g' F))" by (simp add: fam_insert)
  moreover have "path_state E f g k (state x)" if "f' k = Some x" for k x
    using f [OF that] by (auto simp: path_state_def made_def)
  moreover have "path_state E g f k (state x)" if "g' k = Some x" for k x
    using g [OF that] by (auto simp: path_state_def made_def)
  ultimately show ?thesis using assms(1,2) by (auto simp: sides_def matched_def)
qed

lemma sides_refresh:
  assumes "sides E F f0 g0 h f g" "refreshed E h h' f f'" "grown h h'"
  shows "sides E F f0 g0 h' f' g"
proof -
  let ?F = "insert f (insert g F)"
  have b: "fam h ?F" using assms(1) by (auto simp: sides_def)
  have "(\<exists>f \<in> ?F. f k = Some y) \<or> next_sm h \<le> sm_addr y \<and> sm_addr y < next_sm h'" if "f' k = Some y" for k y
    by (rule refreshed_cases [OF assms(2) that]) auto
  from fam_newer [OF b _ assms(3), of f'] this have "fam h' (insert f' ?F)" by blast
  then have "fam h' (insert f' (insert g F))" by (rule fam_mono) blast
  moreover have "path_state E f0 g0 k (state y)" if "\<not> hooked E k" "f' k = Some y" for k y
    using that(1) assms(1) by (auto simp: sides_def intro: refreshed_cases [OF assms(2) that(2)])
  ultimately show ?thesis using assms(1,2) by (auto simp: sides_def refreshed_def)
qed

lemma refreshed_hooks:
  assumes "dom N \<subseteq> {k \<in> dom f. hooked E k}" "new_in h h' N"
  shows "refreshed E h h' f (f ++ N)"
  unfolding refreshed_def
proof (intro conjI allI impI)
  show "dom (f ++ N) = dom f" using assms(1) by auto
  fix k x y assume k: "f k = Some x" "(f ++ N) k = Some y"
  show "y = x \<or> next_sm h \<le> sm_addr y \<and> sm_addr y < next_sm h' \<and> (hooked E k \<or> state y = state x)"
  proof (cases "N k")
    case None
    then show ?thesis using k by (simp add: map_add_def)
  next
    case (Some z)
    then have "hooked E k" "z = y" using assms(1) k(2) by (auto simp: map_add_def)
    then show ?thesis using Some assms(2) by (auto simp: new_in_def)
  qed
qed

lemma call_pre_merge_hooks_wp:
  assumes "repr m (p # q # ps) S (f # g # vs)" "read_only m = 0" "fast_overlay m = None" "hooks_local E"
    "sides E F f0 g0 (sms m) f g"
  shows "wp (call_pre_merge_hooks E p q m) (\<lambda>(p', q', m'). \<exists>f' g'. repr m' (p' # q' # ps) S (f' # g' # vs)
    \<and> sides E F f0 g0 (sms m') f' g' \<and> quiet m m')"
proof -
  let ?m = "m\<lparr>in_unmatched_hook := in_unmatched_hook m + 1\<rparr>"
  have r: "repr ?m (p # q # ps) S (f # g # vs)" using assms(1) by (auto elim!: repr_done)
  have m: "read_only ?m = 0" "fast_overlay ?m = None" using assms(2,3) by simp_all
  have "dom g \<subseteq> dom f" using assms(5) by (simp add: sides_def)
  note first = pre_merge_side_wp [OF r m assms(4) this]
  have second: "wp (pre_merge_side E q p' m1) (\<lambda>(q', m2). \<exists>f' g'.
      repr (m2\<lparr>in_unmatched_hook := in_unmatched_hook m2 - 1\<rparr>) (p' # q' # ps) S (f' # g' # vs)
      \<and> sides E F f0 g0 (sms m2) f' g' \<and> quiet m (m2\<lparr>in_unmatched_hook := in_unmatched_hook m2 - 1\<rparr>))"
    if 1: "repr m1 (p' # q # ps) S (f' # g # vs)" "sides E F f0 g0 (sms m1) f' g" "quiet ?m m1" for p' m1 f'
  proof -
    have m1: "read_only m1 = 0" "fast_overlay m1 = None" using quiet_read_only [OF 1(3)] m by auto
    have "dom f' \<subseteq> dom g" using 1(2) by (simp add: sides_def)
    from pre_merge_side_wp [OF swap2 [OF 1(1)] m1 assms(4) this] show ?thesis
    proof (rule wp_mono)
      fix x assume "case x of (p'a, m') \<Rightarrow> \<exists>N. repr m' (p'a # p' # ps) S ((g ++ N) # f' # vs)
        \<and> dom N \<subseteq> {k \<in> dom g. hooked E k} \<and> new_in (sms m1) (sms m') N \<and> quiet m1 m'"
      then obtain q' m2 N where x: "x = (q', m2)" "repr m2 (q' # p' # ps) S ((g ++ N) # f' # vs)"
        "dom N \<subseteq> {k \<in> dom g. hooked E k}" "new_in (sms m1) (sms m2) N" "quiet m1 m2" by auto
      have "sides E F f0 g0 (sms m2) f' (g ++ N)"
        using sides_refresh [OF sides_sym [OF 1(2)] refreshed_hooks [OF x(3,4)]] x(5) by (auto simp: quiet_def intro: sides_sym)
      moreover have "repr (m2\<lparr>in_unmatched_hook := in_unmatched_hook m2 - 1\<rparr>) (p' # q' # ps) S (f' # (g ++ N) # vs)"
        using swap2 [OF x(2)] by (auto elim!: repr_done)
      moreover have "quiet m (m2\<lparr>in_unmatched_hook := in_unmatched_hook m2 - 1\<rparr>)"
        using quiet_trans [OF 1(3) x(5)] by (simp add: quiet_def control_of_def)
      ultimately show "case x of (q', m2) \<Rightarrow> \<exists>f' g'.
        repr (m2\<lparr>in_unmatched_hook := in_unmatched_hook m2 - 1\<rparr>) (p' # q' # ps) S (f' # g' # vs)
        \<and> sides E F f0 g0 (sms m2) f' g' \<and> quiet m (m2\<lparr>in_unmatched_hook := in_unmatched_hook m2 - 1\<rparr>)"
        using x(1) by auto
    qed
  qed
  have "wp (pre_merge_side E p q ?m) (\<lambda>(p', m1). wp (pre_merge_side E q p' m1) (\<lambda>(q', m2). \<exists>f' g'.
      repr (m2\<lparr>in_unmatched_hook := in_unmatched_hook m2 - 1\<rparr>) (p' # q' # ps) S (f' # g' # vs)
      \<and> sides E F f0 g0 (sms m2) f' g' \<and> quiet m (m2\<lparr>in_unmatched_hook := in_unmatched_hook m2 - 1\<rparr>)))"
  proof (rule wp_mono [OF first], clarify)
    fix p' m1 N assume 1: "repr m1 (p' # q # ps) S ((f ++ N) # g # vs)" "dom N \<subseteq> {k \<in> dom f. hooked E k}"
      "new_in (sms ?m) (sms m1) N" "quiet ?m m1"
    have "sides E F f0 g0 (sms m1) (f ++ N) g"
      using sides_refresh [OF assms(5) refreshed_hooks [OF 1(2)], of "sms m1"] 1(3,4) by (simp add: quiet_def)
    from second [OF 1(1) this 1(4)] show "wp (pre_merge_side E q p' m1) (\<lambda>(q', m2). \<exists>f' g'.
      repr (m2\<lparr>in_unmatched_hook := in_unmatched_hook m2 - 1\<rparr>) (p' # q' # ps) S (f' # g' # vs)
      \<and> sides E F f0 g0 (sms m2) f' g' \<and> quiet m (m2\<lparr>in_unmatched_hook := in_unmatched_hook m2 - 1\<rparr>))" .
  qed
  then show ?thesis by (simp add: call_pre_merge_hooks_def case_prod_unfold)
qed

end
