(* ===== verification/Merge_Join.thy ===== *)
theory Merge_Join
  imports Merge_Facts
begin

text \<open>
  The pools of a merge, and the merge itself: the joined tree has a state for every key of the two
  paths, which is what the checker's merge function makes of the states of both.
\<close>

section \<open>Copies of states that have a pool\<close>

definition copied :: "sm_heap \<Rightarrow> sm_heap \<Rightarrow> sm_state \<Rightarrow> sm_state \<Rightarrow> bool" where
  "copied h h' x c \<longleftrightarrow> key c = key x \<and> state c = state x \<and> next_sm h \<le> sm_addr c \<and> sm_addr c < next_sm h'"

lemma clone_sm_copied:
  assumes "clone_sm h x = (c, h')"
  shows "copied h h' x c" "grown h h'"
proof -
  obtain n where n: "alloc_sm_state h (owner x) (name x) (sym x) (state x) = (n, h')"
    and c: "c = n\<lparr>merged := merged x, line := line x, possible := possible x, left := left x, right := right x\<rparr>"
    using assms by (auto simp: clone_sm_def alloc_state_no_name_def Let_def split: prod.splits)
  show "copied h h' x c" "grown h h'"
    using alloc_fresh [OF n] by (auto simp: c copied_def fresh_sm_def grown_def key_def)
qed

lemma clone_pool_havers_spec:
  "\<exists>cs h'. clone_pool_havers slist m = (cs, m\<lparr>sms := h'\<rparr>) \<and> grown (sms m) h'
    \<and> list_all2 (copied (sms m) h') (filter (\<lambda>x. pool m (sm_addr x) \<noteq> None) slist) cs"
proof (induction slist arbitrary: m)
  case Nil
  then show ?case by (intro exI [of _ "[]"] exI [of _ "sms m"]) simp
next
  case (Cons x slist)
  show ?case
  proof (cases "pool m (sm_addr x)")
    case None
    then show ?thesis using Cons.IH [of m] by simp
  next
    case (Some b)
    obtain c h1 where c: "clone_sm (sms m) x = (c, h1)" by (cases "clone_sm (sms m) x")
    note cc = clone_sm_copied [OF c]
    obtain cs h' where r: "clone_pool_havers slist (m\<lparr>sms := h1\<rparr>) = (cs, m\<lparr>sms := h'\<rparr>)" "grown h1 h'"
      "list_all2 (copied h1 h') (filter (\<lambda>x. pool m (sm_addr x) \<noteq> None) slist) cs"
      using Cons.IH [of "m\<lparr>sms := h1\<rparr>"] by auto
    have "copied (sms m) h' x c" using cc(1) r(2) by (auto simp: copied_def grown_def)
    moreover have "list_all2 (copied (sms m) h') (filter (\<lambda>x. pool m (sm_addr x) \<noteq> None) slist) cs"
      using r(3) by (rule list_all2_mono) (use cc(2) in \<open>auto simp: copied_def grown_def\<close>)
    ultimately show ?thesis using Some c r(1) grown_trans [OF cc(2) r(2)] by auto
  qed
qed

lemma copied_find:
  "list_all2 (copied h h') xs cs \<Longrightarrow> find_key k cs = Some c \<Longrightarrow> \<exists>x. find_key k xs = Some x \<and> copied h h' x c"
  by (induction rule: list_all2_induct) (auto simp: find_key_def copied_def split: if_splits)

lemma clone_pool_havers_stree_wp:
  assumes "repr m (p # ps) S (f # vs)"
  shows "wp (clone_pool_havers_stree p m) (\<lambda>(p', m'). \<exists>f'. repr m' (p' # ps) S (f' # vs)
    \<and> refreshed E (sms m) (sms m') f f' \<and> quiet m m')"
proof -
  have h: "held (strees m) (hand m (p # ps))" and vf: "view (strees m) p = f"
    using assms repr_view [OF assms] by (auto simp: repr_def)
  obtain xs where xs: "states_of (strees m) p = Some xs" "sorted_sms xs" "(\<lambda>k. find_key k xs) = f"
    using elems_held [OF h, of p] vf by auto
  let ?ys = "filter (\<lambda>x. pool m (sm_addr x) \<noteq> None) xs"
  obtain cs h' where c: "clone_pool_havers xs m = (cs, m\<lparr>sms := h'\<rparr>)" "grown (sms m) h'"
    "list_all2 (copied (sms m) h') ?ys cs" using clone_pool_havers_spec by blast
  have "keys cs = keys ?ys" using c(3) by (induction rule: list_all2_induct) (auto simp: copied_def)
  then have "sorted_sms cs" using sorted_sms_filter [OF xs(2)] by simp
  note fd = fold_upd_find [OF this, of f]
  have old: "\<exists>x. f k = Some x \<and> copied (sms m) h' x y" if fk: "find_key k cs = Some y" for k y
  proof -
    obtain x where x: "find_key k ?ys = Some x" "copied (sms m) h' x y" using copied_find [OF c(3) fk] by blast
    then have "find_key k xs = Some x" using find_key_filter_gen [OF xs(2)] by (auto split: option.splits if_splits)
    then show ?thesis using x(2) xs(3) by auto
  qed
  have "refreshed E (sms m) h' f (f ++ (\<lambda>k. find_key k cs))"
    unfolding refreshed_def
  proof (intro conjI allI impI)
    have "dom (\<lambda>k. find_key k cs) \<subseteq> dom f" using old by (auto simp: dom_def dest: sym)
    then show "dom (f ++ (\<lambda>k. find_key k cs)) = dom f" by auto
    fix k x y assume k: "f k = Some x" "(f ++ (\<lambda>k. find_key k cs)) k = Some y"
    show "y = x \<or> next_sm (sms m) \<le> sm_addr y \<and> sm_addr y < next_sm h' \<and> (hooked E k \<or> state y = state x)"
      using k old [of k y] by (auto simp: map_add_def copied_def split: option.splits)
  qed
  moreover have "repr (m\<lparr>sms := h'\<rparr>) (p # ps) S (f # vs)" using assms by (auto elim!: repr_done)
  ultimately have "wp (insert_all_tree p cs (m\<lparr>sms := h'\<rparr>)) (\<lambda>(p', m'). \<exists>f'. repr m' (p' # ps) S (f' # vs)
    \<and> refreshed E (sms m) (sms m') f f' \<and> quiet m m')"
    using fd c(2) by (intro wp_insert_all) (auto simp: quiet_def control_of_def)
  then show ?thesis using xs(1) c(1) by (simp add: clone_pool_havers_stree_def)
qed

section \<open>Ids\<close>

text \<open>Changing what is not part of the tree.\<close>

definition same_tree :: "stree \<Rightarrow> stree \<Rightarrow> bool" where
  "same_tree t t' \<longleftrightarrow> st_root t' = st_root t \<and> Stree.count t' = Stree.count t \<and> has_states t' = has_states t
     \<and> references t' = references t"

lemma set_same_tree:
  assumes "store_ok st" "trees st a = Some t" "same_tree t t'"
  shows "store_ok (set_tree st a t')" "view (set_tree st a t') p = view st p" "refs (set_tree st a t') = refs st"
proof -
  have "tree_ok t'" using store_okD [OF assms(1,2)] assms(3) by (simp add: tree_ok_def same_tree_def)
  then show "store_ok (set_tree st a t')" using store_okD [OF assms(1,2)] assms(1) by (intro store_ok_upd) auto
  show "view (set_tree st a t') p = view st p"
    using assms(2,3) by (cases p) (auto simp: view_def fun_eq_iff same_tree_def)
  show "refs (set_tree st a t') = refs st" using assms(2,3) by (auto simp: fun_eq_iff refs_def same_tree_def)
qed

lemma held_same_tree:
  assumes "held st H" "trees st a = Some t" "same_tree t t'" "base_stree t' = base_stree t"
  shows "held (set_tree st a t') H"
  using assms set_same_tree [OF held_ok [OF assms(1)] assms(2,3)] bases_set_tree [OF assms(2,4)]
  by (simp add: held_def)

lemma clone_real_held:
  assumes "held st H" "trees st a = Some t"
  shows "\<exists>a' st'. clone_stree_real st a = Some (a', st') \<and> store_ok st' \<and> moved st None st' (Some a')
    \<and> view st' (Some a') = view st (Some a) \<and> trees st a' = None \<and> trees st' a' \<noteq> None"
proof -
  have ok: "store_ok st" using assms(1) by (rule held_ok)
  obtain t' st' where c: "clone_stree_real st a = Some (next_addr st, st')" "store_ok st'"
    "trees st' = (trees st)(next_addr st \<mapsto> t')" "trees st (next_addr st) = None"
    "inorder (st_root t') = inorder (st_root t)" using clone_stree_real_spec [OF ok assms(2)] by blast
  have ne: "c \<noteq> next_addr st" if "trees st c \<noteq> None" for c using that c(4) by auto
  have "view st' (Some c) = view st (Some c)" if "trees st c \<noteq> None" for c
    using c(3) ne [OF that] by (intro view_cong) simp
  then have "moved st None st' (Some (next_addr st))"
    using clone_stree_real_shift [OF ok c(1)] c(2) ne by (auto simp: moved_def)
  moreover have "view st' (Some (next_addr st)) = view st (Some a)"
    using c(3,5) view_Some [of st' "next_addr st" t'] view_Some [OF assms(2)] by (auto simp: fun_eq_iff)
  ultimately show ?thesis using c by auto
qed

lemma set_id_held:
  assumes "held st (add_mset (Some a) H)"
  shows "\<exists>a' st'. set_stree_id st a i = Some (a', st') \<and> held st' (add_mset (Some a') H)
    \<and> view st' (Some a') = view st (Some a) \<and> (\<forall>r \<in># H. view st' r = view st r)"
proof -
  obtain t where t: "trees st a = Some t" using held_live [OF assms, of a] by auto
  have "\<exists>a' st'. (if stree_id t \<noteq> 0 then clone_stree_real st a else Some (a, st)) = Some (a', st')
    \<and> held st' (add_mset (Some a') H) \<and> view st' (Some a') = view st (Some a) \<and> (\<forall>r \<in># H. view st' r = view st r)"
  proof (cases "stree_id t = 0")
    case True
    then show ?thesis using assms by auto
  next
    case False
    obtain a' st' where c: "clone_stree_real st a = Some (a', st')" "moved st None st' (Some a')"
      "view st' (Some a') = view st (Some a)" using clone_real_held [OF assms t] by blast
    have "held st (add_mset None (add_mset (Some a) H))" using assms by simp
    moreover have "view st' (Some a') \<noteq> Map.empty" using c(3) view_nonempty [OF assms, of a] by simp
    ultimately have "held st' (add_mset (Some a') (add_mset (Some a) H))"
      "\<And>q. q \<in># add_mset (Some a) H \<Longrightarrow> view st' q = view st q"
      using held_moved [OF _ c(2)] by blast+
    then have "held st' (add_mset (Some a') H)" "\<forall>r \<in># H. view st' r = view st r"
      using held_subset [of st' "add_mset (Some a') (add_mset (Some a) H)" "add_mset (Some a') H"] by auto
    then show ?thesis using False c by auto
  qed
  then obtain a' st1 where 1: "(if stree_id t \<noteq> 0 then clone_stree_real st a else Some (a, st)) = Some (a', st1)"
    "held st1 (add_mset (Some a') H)" "view st1 (Some a') = view st (Some a)" "\<forall>r \<in># H. view st1 r = view st r" by blast
  obtain t1 where t1: "trees st1 a' = Some t1" using held_live [OF 1(2), of a'] by auto
  have s: "same_tree t1 (t1\<lparr>stree_id := i\<rparr>)" by (simp add: same_tree_def)
  have "held (set_tree st1 a' (t1\<lparr>stree_id := i\<rparr>)) (add_mset (Some a') H)"
    using held_same_tree [OF 1(2) t1 s] by simp
  moreover have "set_stree_id st a i = Some (a', set_tree st1 a' (t1\<lparr>stree_id := i\<rparr>))"
    using t t1 1(1) by (simp add: set_stree_id_def)
  ultimately show ?thesis using 1(3,4) set_same_tree(2) [OF held_ok [OF 1(2)] t1 s] by auto
qed

lemma new_stree_id_wp:
  assumes "repr m (Some a # ps) S (f # vs)"
  shows "wp (new_stree_id a m) (\<lambda>(a', m'). repr m' (Some a' # ps) S (f # vs)
    \<and> control_of m' = control_of m \<and> pool m' = pool m \<and> sms m' = sms m)"
proof -
  note h = repr_held [OF assms]
  from set_id_held [OF h [THEN conjunct1], of "stree_id_counter m + 1"] obtain a' st' where
    i: "set_stree_id (strees m) a (stree_id_counter m + 1) = Some (a', st')" "held st' (add_mset (Some a') (hand m ps))"
      "view st' (Some a') = view (strees m) (Some a)" "\<forall>r \<in># hand m ps. view st' r = view (strees m) r" by blast
  have "repr (m\<lparr>strees := st'\<rparr>) (Some a' # ps) S (f # vs)" using replace_step [OF assms i(2,4,3)] h by simp
  then have "repr (m\<lparr>strees := st', stree_id_counter := stree_id_counter m + 1\<rparr>) (Some a' # ps) S (f # vs)"
    by (auto elim!: repr_done)
  then show ?thesis using i(1) by (simp add: new_stree_id_def control_of_def)
qed

lemma base_id_held:
  assumes "held st H" "trees st a = Some t" "base_stree t = Some b"
  shows "\<exists>b' st2 t2. set_stree_id st b i = Some (b', st2) \<and> trees st2 a = Some t2
    \<and> held (set_tree st2 a (t2\<lparr>base_stree := Some b'\<rparr>)) H
    \<and> (\<forall>r \<in># H. view (set_tree st2 a (t2\<lparr>base_stree := Some b'\<rparr>)) r = view st r)"
proof -
  have ok: "store_ok st" using assms(1) by (rule held_ok)
  have "b \<in> bases st" using assms(2,3) by (auto simp: bases_def)
  then obtain u where u: "trees st b = Some u" using held_base_live [OF assms(1)] by blast
  show ?thesis
  proof (cases "stree_id u = 0")
    case True
    let ?u = "u\<lparr>stree_id := i\<rparr>" let ?st = "set_tree st b ?u"
    have s: "same_tree u ?u" by (simp add: same_tree_def)
    obtain t2 where t2: "trees ?st a = Some t2" "base_stree t2 = Some b" using assms(2,3) u by (cases "a = b") auto
    then have "set_tree ?st a (t2\<lparr>base_stree := Some b\<rparr>) = ?st" by (simp add: set_tree_same)
    moreover have "set_stree_id st b i = Some (b, ?st)" using u True by (simp add: set_stree_id_def)
    ultimately show ?thesis
      using t2 held_same_tree [OF assms(1) u s] set_same_tree(2) [OF ok u s]
      by (intro exI [of _ b] exI [of _ ?st] exI [of _ t2]) simp
  next
    case False
    obtain b' st1 where c: "clone_stree_real st b = Some (b', st1)" "store_ok st1" "moved st None st1 (Some b')"
      "trees st b' = None" "trees st1 b' \<noteq> None" using clone_real_held [OF assms(1) u] by blast
    then obtain u1 where u1: "trees st1 b' = Some u1" by blast
    let ?u = "u1\<lparr>stree_id := i\<rparr>" let ?st2 = "set_tree st1 b' ?u"
    have s: "same_tree u1 ?u" by (simp add: same_tree_def)
    note 2 = set_same_tree [OF c(2) u1 s]
    have fr: "view st1 (Some c) = view st (Some c)" "trees st c \<noteq> None \<longrightarrow> c \<noteq> b'" if "trees st c \<noteq> None" for c
      using c(3) that by (auto simp: moved_def)
    have ab: "a \<noteq> b'" using assms(2) c(4) by auto
    obtain t' st' where "clone_stree_real st b = Some (next_addr st, st')" "trees st' = (trees st)(next_addr st \<mapsto> t')"
      using clone_stree_real_spec [OF ok u] by blast
    then have t2: "trees ?st2 a = Some t" using c(1) ab assms(2) by auto
    let ?t = "t\<lparr>base_stree := Some b'\<rparr>" let ?st3 = "set_tree ?st2 a ?t"
    have s3: "same_tree t ?t" by (simp add: same_tree_def)
    note 3 = set_same_tree [OF 2(1) t2 s3]
    have v: "view ?st3 r = view st r" if "r \<in># H" for r
      using fr held_live [OF assms(1)] that by (cases r) (auto simp: 2(2) 3(2))
    have "bases ?st3 \<subseteq> insert b' (bases ?st2)" by (auto simp: bases_def split: if_splits)
    also have "bases ?st2 = bases st1" by (rule bases_set_tree [OF u1]) simp
    also have "bases st1 \<subseteq> bases st" using c(3) by (simp add: moved_def shift_def)
    finally have bs: "bases ?st3 \<subseteq> insert b' (bases st)" by blast
    have "multiset.count H (Some x) + of_bool (x \<in> bases ?st3) \<le> refs ?st3 x" for x
    proof -
      have "multiset.count H (Some x) + of_bool (x \<in> bases st) \<le> refs st x" using assms(1) by (simp add: held_def)
      moreover have "refs st x + of_bool (x = b') \<le> refs st1 x"
        using c(3) by (auto simp: moved_def shift_def dest: spec [of _ x])
      moreover have "(of_bool (x \<in> bases ?st3) :: nat) \<le> of_bool (x \<in> bases st) + of_bool (x = b')"
        using bs by auto
      ultimately show ?thesis by (simp add: 2(3) 3(3))
    qed
    then have "held ?st3 H" using 3(1) v view_nonempty [OF assms(1)] by (simp add: held_def)
    moreover have "set_stree_id st b i = Some (b', ?st2)" using u u1 c(1) False by (simp add: set_stree_id_def)
    ultimately show ?thesis using t2 v by blast
  qed
qed

lemma new_base_id_wp:
  assumes "repr m (Some a # ps) S (f # vs)"
  shows "wp (new_base_id a m) (\<lambda>m'. repr m' (Some a # ps) S (f # vs)
    \<and> control_of m' = control_of m \<and> pool m' = pool m \<and> sms m' = sms m)"
proof -
  let ?H = "add_mset (Some a) (hand m ps)"
  have h: "held (strees m) ?H" using repr_held [OF assms] by simp
  obtain t where t: "trees (strees m) a = Some t" using held_live [OF h, of a] by auto
  show ?thesis
  proof (cases "base_stree t")
    case None
    then show ?thesis using assms t by (simp add: new_base_id_def)
  next
    case (Some b)
    let ?i = "stree_id_counter m + 1"
    have "\<exists>b' st2 t2. set_stree_id (strees m) b ?i = Some (b', st2) \<and> trees st2 a = Some t2
      \<and> held (set_tree st2 a (t2\<lparr>base_stree := Some b'\<rparr>)) ?H
      \<and> (\<forall>r \<in># ?H. view (set_tree st2 a (t2\<lparr>base_stree := Some b'\<rparr>)) r = view (strees m) r)"
      using base_id_held [OF h t Some] by blast
    then obtain b' st2 t2 where i: "set_stree_id (strees m) b ?i = Some (b', st2)" "trees st2 a = Some t2"
      "held (set_tree st2 a (t2\<lparr>base_stree := Some b'\<rparr>)) ?H"
      "\<forall>r \<in># ?H. view (set_tree st2 a (t2\<lparr>base_stree := Some b'\<rparr>)) r = view (strees m) r" by blast
    let ?st = "set_tree st2 a (t2\<lparr>base_stree := Some b'\<rparr>)"
    have "repr (m\<lparr>strees := ?st\<rparr>) (Some a # ps) S (f # vs)"
      using replace_step [OF assms i(3)] i(4) repr_held [OF assms] by simp
    then have "repr (m\<lparr>strees := ?st, stree_id_counter := ?i\<rparr>) (Some a # ps) S (f # vs)"
      by (auto elim!: repr_done)
    moreover have "m\<lparr>strees := ?st, stree_id_counter := ?i\<rparr> = m\<lparr>strees := st2, stree_id_counter := ?i, strees := ?st\<rparr>"
      by (rule machine.equality) simp_all
    ultimately show ?thesis using t Some i(1,2) by (simp add: new_base_id_def new_stree_id_def control_of_def)
  qed
qed

end
