(* ===== verification/Merge_Paths.thy ===== *)
theory Merge_Paths
  imports Merge_Join
begin

text \<open>
  The merge of two state trees as a whole: the joined tree has a state for every key of the two
  paths, which is what the checker's merge function makes of the states of both.
\<close>

section \<open>The two sides before the walk\<close>

text \<open>A step of a merge: the flags are unchanged, states are only added.\<close>

definition steady :: "machine \<Rightarrow> machine \<Rightarrow> bool" where
  "steady m m' \<longleftrightarrow> control_of m' = control_of m \<and> grown (sms m) (sms m')"

lemma steady_refl [simp]: "steady m m"
  by (simp add: steady_def)

lemma steady_trans: "steady m m1 \<Longrightarrow> steady m1 m2 \<Longrightarrow> steady m m2"
  by (auto simp: steady_def intro: grown_trans)

lemma steady_store [simp]: "steady m (m\<lparr>strees := st\<rparr>)"
  by (simp add: steady_def control_of_def)

lemma quiet_steady: "quiet m m' \<Longrightarrow> steady m m'"
  by (simp add: steady_def quiet_def)

lemma steady_flags: "steady m m' \<Longrightarrow> read_only m' = read_only m \<and> fast_overlay m' = fast_overlay m"
  by (simp add: steady_def control_of_def)

lemma give_ids_wp:
  assumes "repr m (Some a # Some b # ps) S (f # g # vs)"
  shows "wp (give_ids a b m) (\<lambda>(a', b', m'). repr m' (Some a' # Some b' # ps) S (f # g # vs)
    \<and> sms m' = sms m \<and> steady m m')"
proof -
  have 4: "wp (new_base_id b2 m3) (\<lambda>m'. repr m' (Some a1 # Some b2 # ps) S (f # g # vs) \<and> sms m' = sms m \<and> steady m m')"
    if "repr m3 (Some a1 # Some b2 # ps) S (f # g # vs)" "sms m3 = sms m" "control_of m3 = control_of m" for a1 b2 m3
    by (rule wp_mono [OF new_base_id_wp [OF swap2 [OF that(1)]]]) (use that swap2 in \<open>auto simp: steady_def\<close>)
  have 3: "wp (new_base_id a1 m2) (\<lambda>m3. wp (new_base_id b2 m3) (\<lambda>m'. repr m' (Some a1 # Some b2 # ps) S (f # g # vs) \<and> sms m' = sms m \<and> steady m m'))"
    if "repr m2 (Some b2 # Some a1 # ps) S (g # f # vs)" "sms m2 = sms m" "control_of m2 = control_of m" for a1 b2 m2
    by (rule wp_mono [OF new_base_id_wp [OF swap2 [OF that(1)]]]) (use that 4 in auto)
  have 2: "wp (new_stree_id b m1) (\<lambda>(b2, m2). wp (new_base_id a1 m2) (\<lambda>m3. wp (new_base_id b2 m3) (\<lambda>m'. repr m' (Some a1 # Some b2 # ps) S (f # g # vs) \<and> sms m' = sms m \<and> steady m m')))"
    if "repr m1 (Some a1 # Some b # ps) S (f # g # vs)" "sms m1 = sms m" "control_of m1 = control_of m" for a1 m1
    by (rule wp_mono [OF new_stree_id_wp [OF swap2 [OF that(1)]]]) (use that 3 in auto)
  have "wp (new_stree_id a m) (\<lambda>(a1, m1). wp (new_stree_id b m1) (\<lambda>(b2, m2). wp (new_base_id a1 m2) (\<lambda>m3. wp (new_base_id b2 m3) (\<lambda>m'. repr m' (Some a1 # Some b2 # ps) S (f # g # vs) \<and> sms m' = sms m \<and> steady m m'))))"
    by (rule wp_mono [OF new_stree_id_wp [OF assms]]) (use 2 in auto)
  then show ?thesis by (simp add: give_ids_def case_prod_unfold)
qed

lemma repr_nonnull:
  assumes "repr m (p # ps) S (f # vs)" "f \<noteq> Map.empty"
  obtains a where "p = Some a"
  using assms repr_view [OF assms(1)] by (cases p) auto

lemma sides_nonempty:
  assumes "sides E F f0 g0 h f g" "f0 \<noteq> Map.empty"
  shows "f \<noteq> Map.empty" "g \<noteq> Map.empty"
proof -
  have "dom f0 \<noteq> {}" using assms(2) by simp
  then have "dom f \<noteq> {}" "dom g \<noteq> {}" using assms(1) by (auto simp: sides_def)
  then show "f \<noteq> Map.empty" "g \<noteq> Map.empty" by auto
qed

lemma add_pools_wp:
  assumes "repr m (p # q # ps) S (f # g # vs)" "sides E F f0 g0 (sms m) f g" "f0 \<noteq> Map.empty"
  shows "wp (add_pools p q m) (\<lambda>(a, b, m'). \<exists>f' g'. repr m' (Some a # Some b # ps) S (f' # g' # vs)
    \<and> sides E F f0 g0 (sms m') f' g' \<and> steady m m')"
proof -
  let ?Q = "\<lambda>(a, b, m'). \<exists>f' g'. repr m' (Some a # Some b # ps) S (f' # g' # vs)
    \<and> sides E F f0 g0 (sms m') f' g' \<and> steady m m'"
  have 2: "wp (clone_pool_havers_stree q m1) (\<lambda>(q', m2). wp p' (\<lambda>a. wp q' (\<lambda>b. wp (give_ids a b m2) ?Q)))"
    if 1: "repr m1 (p' # q # ps) S (f' # g # vs)" "refreshed E (sms m) (sms m1) f f'" "quiet m m1" for p' m1 f'
  proof -
    have s1: "sides E F f0 g0 (sms m1) f' g" using sides_refresh [OF assms(2) 1(2)] 1(3) by (simp add: quiet_def)
    have "wp p' (\<lambda>a. wp q' (\<lambda>b. wp (give_ids a b m2) ?Q))"
      if 2: "repr m2 (q' # p' # ps) S (g' # f' # vs)" "refreshed E (sms m1) (sms m2) g g'" "quiet m1 m2" for q' m2 g'
    proof -
      have s2: "sides E F f0 g0 (sms m2) f' g'"
        using sides_refresh [OF sides_sym [OF s1] 2(2)] 2(3) by (auto simp: quiet_def intro: sides_sym)
      note ne = sides_nonempty [OF s2 assms(3)]
      obtain a b where "p' = Some a" "q' = Some b"
        using repr_nonnull [OF 2(1) ne(2)] repr_nonnull [OF swap2 [OF 2(1)] ne(1)] by metis
      moreover have "wp (give_ids a b m2) ?Q" if "p' = Some a" "q' = Some b" for a b
        by (rule wp_mono [OF give_ids_wp [OF swap2 [OF 2(1) [unfolded that]]]])
          (use s2 steady_trans [OF quiet_steady [OF quiet_trans [OF 1(3) 2(3)]]] in fastforce)
      ultimately show ?thesis by simp
    qed
    then show ?thesis
      by (intro wp_mono [OF clone_pool_havers_stree_wp [OF swap2 [OF 1(1)], where E = E]]) blast
  qed
  have "wp (clone_pool_havers_stree p m) (\<lambda>(p', m1). wp (clone_pool_havers_stree q m1) (\<lambda>(q', m2). wp p' (\<lambda>a. wp q' (\<lambda>b. wp (give_ids a b m2) ?Q))))"
    by (rule wp_mono [OF clone_pool_havers_stree_wp [OF assms(1), where E = E]]) (use 2 in blast)
  then show ?thesis by (simp add: add_pools_def case_prod_unfold)
qed

section \<open>The walk\<close>

text \<open>What the program relies on for merge functions: they return a state for two states.\<close>

definition merge_total :: "env \<Rightarrow> bool" where
  "merge_total E \<longleftrightarrow> (\<forall>ow a b. merge_states (merge_funcs E) ow (Some a) (Some b) \<noteq> None)"

definition joins :: "env \<Rightarrow> sm_heap \<Rightarrow> sm_heap \<Rightarrow> sm_state \<times> sm_state \<Rightarrow> sm_state \<Rightarrow> bool" where
  "joins E h0 h xy z \<longleftrightarrow> key z = key (fst xy) \<and> sm_addr z < next_sm h \<and> (z = fst xy \<or> next_sm h0 \<le> sm_addr z)
     \<and> merge_states (merge_funcs E) (owner (fst xy)) (Some (state (fst xy))) (Some (state (snd xy))) = Some (state z)"

lemma joins_mono: "joins E h0 h xy z \<Longrightarrow> grown h h' \<Longrightarrow> joins E h0 h' xy z"
  by (auto simp: joins_def grown_def)

lemma add_possible_sm_same [simp]:
  "key (add_possible_sm c x y) = key x" "sm_addr (add_possible_sm c x y) = sm_addr x"
  "state (add_possible_sm c x y) = state x"
  by (simp_all add: add_possible_sm_def key_def)

lemma fold_possible_same:
  "key (fold (\<lambda>tmp to. add_possible_sm c to tmp) xs x) = key x
    \<and> sm_addr (fold (\<lambda>tmp to. add_possible_sm c to tmp) xs x) = sm_addr x
    \<and> state (fold (\<lambda>tmp to. add_possible_sm c to tmp) xs x) = state x"
  by (induction xs arbitrary: x) auto

lemma copy_possibles_same [simp]:
  "key (copy_possibles c x one two) = key x" "sm_addr (copy_possibles c x one two) = sm_addr x"
  "state (copy_possibles c x one two) = state x"
  by (simp_all add: copy_possibles_def Let_def fold_possible_same case_prod_unfold) (simp_all add: key_def)

lemma merge_sm_states_total:
  assumes "merge_total E" "sm_addr x \<noteq> sm_addr y"
  shows "\<exists>z h'. merge_sm_states (cf E) (merge_funcs E) False h x y = Some (z, h') \<and> joins E h h' (x, y) z
    \<and> next_sm h \<le> sm_addr z \<and> grown h h'"
proof -
  obtain s where s: "merge_states (merge_funcs E) (owner x) (Some (state x)) (Some (state y)) = Some s"
    using assms(1) unfolding merge_total_def by blast
  obtain n h' where n: "alloc_sm_state h (owner x) (name x) (sym x) s = (n, h')"
    by (cases "alloc_sm_state h (owner x) (name x) (sym x) s")
  have "key n = key x \<and> state n = s \<and> sm_addr n < next_sm h' \<and> next_sm h \<le> sm_addr n \<and> grown h h'"
    using alloc_fresh [OF n] by (auto simp: fresh_sm_def grown_def key_def)
  moreover have "key (z\<lparr>line := l\<rparr>) = key z" "key (z\<lparr>merged := b, left := p, right := q\<rparr>) = key z"
    for z :: sm_state and l b p q by (simp_all add: key_def)
  ultimately show ?thesis
    using s n assms(2) by (auto simp: merge_sm_states_def alloc_state_no_name_def joins_def Let_def)
qed

lemma set_pool_wp:
  assumes "repr m ps S vs" "Some a \<in># hand m ps"
    "\<And>q. repr (m\<lparr>pool := (pool m)(sm_addr x := Some q)\<rparr>) ps S vs \<Longrightarrow> Q (m\<lparr>pool := (pool m)(sm_addr x := Some q)\<rparr>)"
  shows "wp (set_pool a x m) Q"
proof -
  have "trees (strees m) a \<noteq> None" using assms(1,2) held_live [of "strees m" "hand m ps" a] by (simp add: repr_def)
  then obtain t where "trees (strees m) a = Some t" by blast
  moreover have "repr (m\<lparr>pool := (pool m)(sm_addr x := Some q)\<rparr>) ps S vs" for q
    using assms(1) by (auto elim!: repr_done)
  ultimately show ?thesis using assms(3) by (simp add: set_pool_def pool_ptr_def split: option.split)
qed

lemma holders_rest [simp]:
  "holders (m\<lparr>strees := st\<rparr>) = holders m" "holders (m\<lparr>pool := pl\<rparr>) = holders m" "holders (m\<lparr>sms := h\<rparr>) = holders m"
  by (simp_all add: holders_def)

lemma merge_one_wp:
  assumes "repr m (r # ps) S (v # vs)" "Some a \<in># holders m" "Some b \<in># holders m" "merge_total E"
    "sm_addr x \<noteq> sm_addr y"
  shows "wp (if add_pool then do { m \<leftarrow> set_pool a x m; set_pool b y m } else Some m) (\<lambda>m1.
    wp (merge_sm_states (cf E) (merge_funcs E) False (sms m1) x y) (\<lambda>(z, h).
    wp (insert_tree r (add_possible_sm (cf E) (add_possible_sm (cf E) z (base x)) (base y)) (m1\<lparr>sms := h\<rparr>)) (\<lambda>(r', m').
      holders m' = holders m \<and> (\<exists>z. repr m' (r' # ps) S (v(key x \<mapsto> z) # vs) \<and> joins E (sms m) (sms m') (x, y) z \<and> steady m m'))))"
proof -
  let ?Q = "\<lambda>(r', m'). holders m' = holders m \<and> (\<exists>z. repr m' (r' # ps) S (v(key x \<mapsto> z) # vs) \<and> joins E (sms m) (sms m') (x, y) z \<and> steady m m')"
  have rest: "wp (merge_sm_states (cf E) (merge_funcs E) False (sms m1) x y) (\<lambda>(z, h).
      wp (insert_tree r (add_possible_sm (cf E) (add_possible_sm (cf E) z (base x)) (base y)) (m1\<lparr>sms := h\<rparr>)) ?Q)"
    if m1: "repr m1 (r # ps) S (v # vs)" "holders m1 = holders m" "sms m1 = sms m" "control_of m1 = control_of m" for m1
  proof -
    obtain z h where z: "merge_sm_states (cf E) (merge_funcs E) False (sms m) x y = Some (z, h)" "joins E (sms m) h (x, y) z"
      "grown (sms m) h" "next_sm (sms m) \<le> sm_addr z" using merge_sm_states_total [OF assms(4,5)] by blast
    let ?z = "add_possible_sm (cf E) (add_possible_sm (cf E) z (base x)) (base y)"
    have "repr (m1\<lparr>sms := h\<rparr>) (r # ps) S (v # vs)" using m1(1) by (auto elim!: repr_done)
    moreover have "joins E (sms m) h (x, y) ?z" "key ?z = key x" using z(2,4) by (simp_all add: joins_def)
    ultimately have "wp (insert_tree r ?z (m1\<lparr>sms := h\<rparr>)) ?Q"
      using z(3) m1(2,4) by (intro wp_insert) (auto simp: steady_def control_of_def)
    then show ?thesis using z(1) m1(3) by simp
  qed
  show ?thesis
  proof (cases add_pool)
    case False
    then show ?thesis using rest [OF assms(1)] by simp
  next
    case True
    have "wp (set_pool a x m) (\<lambda>m1. wp (set_pool b y m1) (\<lambda>m1. wp (merge_sm_states (cf E) (merge_funcs E) False (sms m1) x y) (\<lambda>(z, h).
      wp (insert_tree r (add_possible_sm (cf E) (add_possible_sm (cf E) z (base x)) (base y)) (m1\<lparr>sms := h\<rparr>)) ?Q)))"
      by (rule set_pool_wp [OF assms(1)], use assms(2) in simp, rule set_pool_wp, assumption, use assms(3) in simp,
          rule rest) (simp_all add: control_of_def)
    then show ?thesis using True by simp
  qed
qed

lemma merge_walk_wp:
  assumes "list_all2 (\<lambda>x y. key x = key y \<and> (sm_addr x = sm_addr y \<longrightarrow> state x = state y) \<and> sm_addr x < next_sm (sms m)) xs ys"
    "repr m (r # ps) S (v # vs)" "Some a \<in># holders m" "Some b \<in># holders m" "merge_total E" "grown h0 (sms m)"
  shows "wp (merge_walk E add_pool a b r xs ys m) (\<lambda>(r', m'). \<exists>zs.
    repr m' (r' # ps) S (fold (\<lambda>z f. f(key z \<mapsto> z)) zs v # vs)
    \<and> list_all2 (joins E h0 (sms m')) (zip xs ys) zs \<and> steady m m')"
  using assms
proof (induction xs ys arbitrary: m r v rule: list_induct2')
  case (4 x xs y ys)
  let ?R = "\<lambda>m x y. key x = key y \<and> (sm_addr x = sm_addr y \<longrightarrow> state x = state y) \<and> sm_addr x < next_sm (sms m)"
  let ?Q = "\<lambda>(r', m'). \<exists>zs. repr m' (r' # ps) S (fold (\<lambda>z f. f(key z \<mapsto> z)) zs v # vs)
    \<and> list_all2 (joins E h0 (sms m')) (zip (x # xs) (y # ys)) zs \<and> steady m m'"
  have xy: "?R m x y" "list_all2 (?R m) xs ys" using "4.prems"(1) by auto
  have step: "wp (merge_walk E add_pool a b r1 xs ys m1) ?Q"
    if 1: "repr m1 (r1 # ps) S (v(key x \<mapsto> z) # vs)" "joins E h0 (sms m1) (x, y) z" "steady m m1" "holders m1 = holders m"
    for r1 m1 z
  proof -
    have "list_all2 (?R m1) xs ys" using xy(2)
      by (rule list_all2_mono) (use 1(3) in \<open>auto simp: steady_def grown_def\<close>)
    moreover have "Some a \<in># holders m1" "Some b \<in># holders m1" using 1(4) "4.prems"(3,4) by simp_all
    moreover have "grown h0 (sms m1)" using "4.prems"(6) 1(3) by (auto simp: steady_def intro: grown_trans)
    ultimately have "wp (merge_walk E add_pool a b r1 xs ys m1) (\<lambda>(r', m'). \<exists>zs.
      repr m' (r' # ps) S (fold (\<lambda>z f. f(key z \<mapsto> z)) zs (v(key x \<mapsto> z)) # vs)
      \<and> list_all2 (joins E h0 (sms m')) (zip xs ys) zs \<and> steady m1 m')" using "4.IH" [OF _ 1(1)] "4.prems"(5) by blast
    then show ?thesis
    proof (rule wp_mono, clarify)
      fix r' m' zs assume 2: "repr m' (r' # ps) S (fold (\<lambda>z f. f(key z \<mapsto> z)) zs (v(key x \<mapsto> z)) # vs)"
        "list_all2 (joins E h0 (sms m')) (zip xs ys) zs" "steady m1 m'"
      have "joins E h0 (sms m') (x, y) z" using joins_mono [OF 1(2)] 2(3) by (simp add: steady_def)
      then show "\<exists>zs. repr m' (r' # ps) S (fold (\<lambda>z f. f(key z \<mapsto> z)) zs v # vs)
        \<and> list_all2 (joins E h0 (sms m')) (zip (x # xs) (y # ys)) zs \<and> steady m m'"
        using 1(2) 2 steady_trans [OF 1(3) 2(3)] by (intro exI [of _ "z # zs"]) (simp add: joins_def)
    qed
  qed
  show ?case
  proof (cases "sm_addr x = sm_addr y")
    case True
    have "joins E h0 (sms m) (x, y) x" using xy(1) True by (simp add: joins_def merge_states_def)
    then have "wp (insert_tree r x m) (\<lambda>(r1, m1). wp (merge_walk E add_pool a b r1 xs ys m1) ?Q)"
      by (intro wp_insert [OF "4.prems"(2)]) (simp only: prod.case, rule step, assumption, simp_all)
    then show ?thesis using True by (simp add: case_prod_unfold del: fun_upd_apply)
  next
    case False
    have "wp (if add_pool then do { m \<leftarrow> set_pool a x m; set_pool b y m } else Some m) (\<lambda>m1.
      wp (merge_sm_states (cf E) (merge_funcs E) False (sms m1) x y) (\<lambda>(z, h).
      wp (insert_tree r (add_possible_sm (cf E) (add_possible_sm (cf E) z (base x)) (base y)) (m1\<lparr>sms := h\<rparr>)) (\<lambda>(r1, m1).
        wp (merge_walk E add_pool a b r1 xs ys m1) ?Q)))"
      apply (rule wp_mono [OF merge_one_wp [OF "4.prems"(2-5) False]], erule wp_mono)
      apply (clarify, erule wp_mono, clarify, rule step, assumption)
      using "4.prems"(6) apply (auto simp: joins_def grown_def)
      done
    then show ?thesis using False by (simp add: case_prod_unfold Let_def del: fun_upd_apply)
  qed
qed auto

section \<open>Joining two paths\<close>

definition joined :: "env \<Rightarrow> smap \<Rightarrow> smap \<Rightarrow> smap \<Rightarrow> bool" where
  "joined E f g r \<longleftrightarrow> dom r = dom f \<union> dom g
     \<and> (\<forall>k z. \<not> hooked E k \<longrightarrow> r k = Some z \<longrightarrow>
          (\<exists>a b. path_state E f g k a \<and> path_state E g f k b
            \<and> merge_states (merge_funcs E) (key_owner k) (Some a) (Some b) = Some (state z)))"

lemma sorted_same_keys:
  assumes "sorted_sms xs" "sorted_sms ys" "set (keys xs) = set (keys ys)"
  shows "keys xs = keys ys"
  using assms by (intro strict_sorted_equal) simp_all

lemma joins_find:
  assumes "list_all2 (joins E h0 h) (zip xs ys) zs" "keys xs = keys ys" "sorted_sms xs" "find_key k zs = Some z"
  shows "\<exists>x y. find_key k xs = Some x \<and> find_key k ys = Some y \<and> joins E h0 h (x, y) z"
proof -
  have "length xs = length ys" using assms(2) by (metis length_map)
  then show ?thesis
    using assms
  proof (induction xs ys arbitrary: zs rule: list_induct2)
    case (Cons x xs y ys)
    then obtain w ws where "zs = w # ws" "joins E h0 h (x, y) w" "list_all2 (joins E h0 h) (zip xs ys) ws"
      by (auto simp: list_all2_Cons1)
    then show ?case using Cons by (auto simp: find_key_def joins_def split: if_splits)
  qed (simp add: find_key_def)
qed

lemma find_key_dom: "(\<lambda>k. find_key k xs) = f \<Longrightarrow> set (keys xs) = dom f"
  by (rule set_eqI) (metis domIff find_key_None)

lemma sides_lists:
  assumes "sides E F f0 g0 h f g" "sorted_sms xs" "(\<lambda>k. find_key k xs) = f" "sorted_sms ys" "(\<lambda>k. find_key k ys) = g"
  shows "keys xs = keys ys"
    "list_all2 (\<lambda>x y. key x = key y \<and> (sm_addr x = sm_addr y \<longrightarrow> state x = state y) \<and> sm_addr x < next_sm h) xs ys"
proof -
  show k: "keys xs = keys ys"
    using assms find_key_dom [OF assms(3)] find_key_dom [OF assms(5)] by (intro sorted_same_keys) (simp_all add: sides_def)
  have len: "length xs = length ys" using k by (metis length_map)
  show "list_all2 (\<lambda>x y. key x = key y \<and> (sm_addr x = sm_addr y \<longrightarrow> state x = state y) \<and> sm_addr x < next_sm h) xs ys"
  proof (rule list_all2_all_nthI [OF len])
    fix i assume i: "i < length xs"
    have ki: "key (xs ! i) = key (ys ! i)" using k i len by (metis nth_map)
    have "f (key (xs ! i)) = Some (xs ! i)" "g (key (xs ! i)) = Some (ys ! i)"
      using find_key_Some_iff [OF assms(2)] find_key_Some_iff [OF assms(4)] i len ki assms(3,5) by (metis nth_mem)+
    then show "key (xs ! i) = key (ys ! i) \<and> (sm_addr (xs ! i) = sm_addr (ys ! i) \<longrightarrow> state (xs ! i) = state (ys ! i))
        \<and> sm_addr (xs ! i) < next_sm h"
      using assms(1) ki unfolding sides_def fam_def coherent_def below_def by blast
  qed
qed

lemma joined_walk:
  assumes "sides E F f0 g0 h f g" "sorted_sms xs" "(\<lambda>k. find_key k xs) = f" "sorted_sms ys" "(\<lambda>k. find_key k ys) = g"
    "list_all2 (joins E h h') (zip xs ys) zs" "grown h h'"
  shows "joined E f0 g0 (fold (\<lambda>z f. f(key z \<mapsto> z)) zs Map.empty)" "fam h' (insert (fold (\<lambda>z f. f(key z \<mapsto> z)) zs Map.empty) (insert f (insert g F)))"
proof -
  note k = sides_lists(1) [OF assms(1-5)]
  have kz: "keys zs = keys xs"
  proof -
    have "length xs = length ys" using k by (metis length_map)
    then show ?thesis using assms(6)
      by (induction xs ys arbitrary: zs rule: list_induct2) (auto simp: list_all2_Cons1 joins_def)
  qed
  then have "sorted_sms zs" using assms(2) by simp
  note r = fold_upd_find [OF this, of Map.empty]
  have rz: "fold (\<lambda>z f. f(key z \<mapsto> z)) zs Map.empty = (\<lambda>k. find_key k zs)" using r by simp
  have z: "\<exists>x y. f k = Some x \<and> g k = Some y \<and> joins E h h' (x, y) z \<and> key x = k" if "find_key k zs = Some z" for k z
    using joins_find [OF assms(6) k assms(2) that] assms(3,5) find_key_Some_iff [OF assms(2)] by auto
  have "fam h (insert f (insert g F))" using assms(1) by (simp add: sides_def)
  then show "fam h' (insert (fold (\<lambda>z f. f(key z \<mapsto> z)) zs Map.empty) (insert f (insert g F)))"
    unfolding rz by (rule fam_newer [OF _ _ assms(7)]) (use z in \<open>auto simp: joins_def\<close>)
  have "dom (\<lambda>k. find_key k zs) = dom f" using find_key_dom [of zs] find_key_dom [OF assms(3)] kz by metis
  moreover have "\<exists>a b. path_state E f0 g0 k a \<and> path_state E g0 f0 k b
      \<and> merge_states (merge_funcs E) (key_owner k) (Some a) (Some b) = Some (state z)"
    if nh: "\<not> hooked E k" and kz: "find_key k zs = Some z" for k z
  proof -
    obtain x y where xy: "f k = Some x" "g k = Some y" "joins E h h' (x, y) z" "key x = k" using z [OF kz] by blast
    have "owner x = key_owner k" using xy(4) by (auto simp: key_def)
    then show ?thesis using xy(1-3) assms(1) nh unfolding sides_def joins_def
      by (intro exI [of _ "state x"] exI [of _ "state y"]) auto
  qed
  ultimately show "joined E f0 g0 (fold (\<lambda>z f. f(key z \<mapsto> z)) zs Map.empty)"
    unfolding rz joined_def using assms(1) by (simp add: sides_def)
qed

lemma repr_null: "repr m ps S vs \<Longrightarrow> repr m (None # ps) S (Map.empty # vs)"
  by (simp add: repr_def)

text \<open>The walk over the pools.\<close>

text \<open>The walk over the pools.\<close>

lemma walk_sides:
  assumes "repr m (Some a # Some b # ps) S (f # g # vs)" "sides E F f0 g0 (sms m) f g" "merge_total E"
  shows "wp (states_of (strees m) (Some a)) (\<lambda>ones. wp (states_of (strees m) (Some b)) (\<lambda>twos.
    wp (merge_walk E add_pool a b None ones twos
         (m\<lparr>all_pools := push_stree (push_stree (all_pools m) (Some a)) (Some b)\<rparr>)) (\<lambda>(r', m'). \<exists>r P.
      repr m' (r' # ps) (S\<lparr>all_pools := all_pools S @ P\<rparr>) (r # vs)
      \<and> joined E f0 g0 r \<and> fam (sms m') (insert r (set P \<union> F)) \<and> steady m m')))"
proof -
  let ?m = "m\<lparr>all_pools := push_stree (push_stree (all_pools m) (Some a)) (Some b)\<rparr>"
  let ?S = "S\<lparr>all_pools := all_pools S @ [f, g]\<rparr>"
  have "repr ?m ps ?S vs"
    using pools_st.push [OF pools_st.push [OF assms(1)]] by (simp add: push_stree_def)
  note r = repr_null [OF this]
  have ab: "Some a \<in># holders ?m" "Some b \<in># holders ?m" by (simp_all add: holders_def push_stree_def)
  have h: "held (strees m) (hand m (Some a # Some b # ps))" and
    v: "view (strees m) (Some a) = f" "view (strees m) (Some b) = g" using assms(1) by (auto simp: repr_def)
  obtain xs where xs: "states_of (strees m) (Some a) = Some xs" "sorted_sms xs" "(\<lambda>k. find_key k xs) = f"
    using elems_held [OF h, of "Some a"] v by auto
  obtain ys where ys: "states_of (strees m) (Some b) = Some ys" "sorted_sms ys" "(\<lambda>k. find_key k ys) = g"
    using elems_held [OF h, of "Some b"] v by auto
  have l: "list_all2 (\<lambda>x y. key x = key y \<and> (sm_addr x = sm_addr y \<longrightarrow> state x = state y) \<and> sm_addr x < next_sm (sms ?m)) xs ys"
    using sides_lists(2) [OF assms(2) xs(2,3) ys(2,3)] by simp
  have g0: "grown (sms m) (sms ?m)" by simp
  have "wp (merge_walk E add_pool a b None xs ys ?m) (\<lambda>(r', m'). \<exists>r P.
      repr m' (r' # ps) (S\<lparr>all_pools := all_pools S @ P\<rparr>) (r # vs) \<and> joined E f0 g0 r
      \<and> fam (sms m') (insert r (set P \<union> F)) \<and> steady m m')"
  proof (rule wp_mono [OF merge_walk_wp [OF l r ab assms(3) g0]], clarify)
    fix r' m' zs assume w: "repr m' (r' # ps) ?S (fold (\<lambda>z f. f(key z \<mapsto> z)) zs Map.empty # vs)"
      "list_all2 (joins E (sms m) (sms m')) (zip xs ys) zs" "steady ?m m'"
    let ?r = "fold (\<lambda>z f. f(key z \<mapsto> z)) zs Map.empty"
    have s: "steady m m'" using w(3) by (simp add: steady_def control_of_def)
    then have "joined E f0 g0 ?r" "fam (sms m') (insert ?r (insert f (insert g F)))"
      using joined_walk [OF assms(2) xs(2,3) ys(2,3) w(2)] by (simp_all add: steady_def)
    then show "\<exists>r P. repr m' (r' # ps) (S\<lparr>all_pools := all_pools S @ P\<rparr>) (r # vs) \<and> joined E f0 g0 r
        \<and> fam (sms m') (insert r (set P \<union> F)) \<and> steady m m'"
      using w(1) s by (intro exI [of _ ?r] exI [of _ "[f, g]"]) simp
  qed
  then show ?thesis using xs(1) ys(1) by simp
qed

section \<open>The merge\<close>

text \<open>What the merge relies on: the flags of the machine, and the hooks and functions of the checkers.\<close>

definition merge_ready :: "env \<Rightarrow> machine \<Rightarrow> bool" where
  "merge_ready E m \<longleftrightarrow> read_only m = 0 \<and> fast_overlay m = None \<and> hooks_local E \<and> merge_total E"

lemma join_locals:
  assumes "repr m (p # q # ps) S (f # g # vs)" "merge_ready E m" "fam (sms m) F" "f \<in> F" "g \<in> F"
    "f \<noteq> Map.empty" "g \<noteq> Map.empty" "steady m0 m"
  shows "wp (match_states_stree E p q m) (\<lambda>(p, q, m). wp (call_pre_merge_hooks E p q m) (\<lambda>(p, q, m).
    wp (if add_pool then add_pools p q m else do { a \<leftarrow> p; b \<leftarrow> q; Some (a, b, m) }) (\<lambda>(a, b, m).
    wp (states_of (strees m) (Some a)) (\<lambda>ones. wp (states_of (strees m) (Some b)) (\<lambda>twos.
    wp (merge_walk E add_pool a b None ones twos
         (m\<lparr>all_pools := push_stree (push_stree (all_pools m) (Some a)) (Some b)\<rparr>)) (\<lambda>(r', m'). \<exists>r P.
      repr m' (r' # ps) (S\<lparr>all_pools := all_pools S @ P\<rparr>) (r # vs) \<and> joined E f g r
      \<and> fam (sms m') (insert r (set P \<union> F)) \<and> steady m0 m'))))))"
proof -
  let ?Q = "\<lambda>(r', m'). \<exists>r P. repr m' (r' # ps) (S\<lparr>all_pools := all_pools S @ P\<rparr>) (r # vs) \<and> joined E f g r
    \<and> fam (sms m') (insert r (set P \<union> F)) \<and> steady m0 m'"
  let ?W = "\<lambda>(a, b, m). wp (states_of (strees m) (Some a)) (\<lambda>ones. wp (states_of (strees m) (Some b)) (\<lambda>twos.
    wp (merge_walk E add_pool a b None ones twos
         (m\<lparr>all_pools := push_stree (push_stree (all_pools m) (Some a)) (Some b)\<rparr>)) ?Q))"
  have tot: "merge_total E" "hooks_local E" "read_only m = 0" "fast_overlay m = None"
    using assms(2) by (simp_all add: merge_ready_def)
  have W: "?W (a, b, m3)" if "repr m3 (Some a # Some b # ps) S (f' # g' # vs)" "sides E F f g (sms m3) f' g'" "steady m0 m3" for a b m3 f' g'
    using walk_sides [OF that(1,2) tot(1)] steady_trans [OF that(3)] by (fastforce elim!: wp_mono)
  have P: "wp (if add_pool then add_pools p' q' m2 else do { a \<leftarrow> p'; b \<leftarrow> q'; Some (a, b, m2) }) ?W"
    if 2: "repr m2 (p' # q' # ps) S (f' # g' # vs)" "sides E F f g (sms m2) f' g'" "steady m0 m2" for p' q' m2 f' g'
  proof (cases add_pool)
    case True
    have "wp (add_pools p' q' m2) ?W"
      by (rule wp_mono [OF add_pools_wp [OF 2(1,2) assms(6)]]) (use W steady_trans [OF 2(3)] in blast)
    then show ?thesis using True by simp
  next
    case False
    note ne = sides_nonempty [OF 2(2) assms(6)]
    obtain a b where "p' = Some a" "q' = Some b"
      using repr_nonnull [OF 2(1) ne(1)] repr_nonnull [OF swap2 [OF 2(1)] ne(2)] by metis
    then show ?thesis using False W [of m2 a b f' g'] 2 by simp
  qed
  have H: "wp (call_pre_merge_hooks E p' q' m1) (\<lambda>(p, q, m).
      wp (if add_pool then add_pools p q m else do { a \<leftarrow> p; b \<leftarrow> q; Some (a, b, m) }) ?W)"
    if 1: "repr m1 (p' # q' # ps) S (f' # g' # vs)" "sides E F f g (sms m1) f' g'" "steady m m1" for p' q' m1 f' g'
  proof -
    have c: "read_only m1 = 0" "fast_overlay m1 = None" using steady_flags [OF 1(3)] tot(3,4) by simp_all
    show ?thesis
      by (rule wp_mono [OF call_pre_merge_hooks_wp [OF 1(1) c tot(2) 1(2)]])
        (use P steady_trans [OF that(3)] steady_trans [OF assms(8)] quiet_steady in blast)
  qed
  have F: "insert f (insert g F) = F" using assms(4,5) by blast
  show ?thesis
  proof (rule wp_mono [OF match_states_wp [OF assms(1,6,7) tot(4), of E]], clarify)
    fix p' q' m1 f' g' assume 1: "repr m1 (p' # q' # ps) S (f' # g' # vs)" "matched E (sms m) (sms m1) f g f'"
      "matched E (sms m) (sms m1) g f g'" "grown (sms m) (sms m1)" "control_of m1 = control_of m"
    have "sides E F f g (sms m1) f' g'" "steady m m1"
      using sides_matched [OF 1(2,3) _ 1(4), of F] assms(3) 1(4,5) by (simp_all add: F steady_def)
    from H [OF 1(1) this] show "wp (call_pre_merge_hooks E p' q' m1) (\<lambda>(p, q, m).
      wp (if add_pool then add_pools p q m else do { a \<leftarrow> p; b \<leftarrow> q; Some (a, b, m) }) ?W)" .
  qed
qed

lemma join_strees_wp:
  assumes "repr m ps S vs" "p \<in># hand m ps" "q \<in># hand m ps" "merge_ready E m" "fam (sms m) F"
    "view (strees m) p \<in> F" "view (strees m) q \<in> F" "view (strees m) p \<noteq> Map.empty" "view (strees m) q \<noteq> Map.empty"
  shows "wp (join_strees E add_pool p q m) (\<lambda>(r', m'). \<exists>r P. repr m' (r' # ps) (S\<lparr>all_pools := all_pools S @ P\<rparr>) (r # vs)
    \<and> joined E (view (strees m) p) (view (strees m) q) r \<and> fam (sms m') (insert r (set P \<union> F)) \<and> steady m m')"
proof -
  let ?f = "view (strees m) p" and ?g = "view (strees m) q"
  obtain st1 where 1: "clone_tree p m = Some (p, m\<lparr>strees := st1\<rparr>)"
    "repr (m\<lparr>strees := st1\<rparr>) (p # ps) S (?f # vs)" using clone_step [OF assms(1,2)] by blast
  have "view st1 q = ?g" using 1(2) assms(1,3) clone_held [of "strees m" "hand m ps" p] 1(1) assms(2)
    by (auto simp: clone_tree_def repr_def dest!: arg_cong [of _ _ strees])
  then obtain st2 where 2: "clone_tree q (m\<lparr>strees := st1\<rparr>) = Some (q, m\<lparr>strees := st2\<rparr>)"
    "repr (m\<lparr>strees := st2\<rparr>) (q # p # ps) S (?g # ?f # vs)" using clone_step [OF 1(2), of q] assms(3) by auto
  have "merge_ready E (m\<lparr>strees := st2\<rparr>)" using assms(4) by (simp add: merge_ready_def)
  from join_locals [OF swap2 [OF 2(2)] this _ assms(6-9), of m add_pool] assms(5) show ?thesis
    by (simp add: join_strees_def 1(1) 2(1) case_prod_unfold)
qed

text \<open>What the variable holds afterwards, where a path may also not exist.\<close>

definition merges :: "env \<Rightarrow> smap \<Rightarrow> smap \<Rightarrow> smap \<Rightarrow> bool" where
  "merges E f g w \<longleftrightarrow> (if g = Map.empty then w = f else if f = Map.empty then w = g else joined E f g w)"

lemma joined_same: "joined E f f f"
  by (auto simp: joined_def path_state_def merge_states_def)

text \<open>The three cases of a merge: nothing to do, a copy, and a join.\<close>

lemma merge_cases:
  assumes "repr m ps S vs" "p \<in># hand m ps" "q \<in># hand m ps" "view (strees m) p = f" "view (strees m) q = g"
  obtains (same) "q = None \<or> p = q" "merges E f g f" | (copy) "q \<noteq> None" "p = None" "p \<noteq> q" "merges E f g g"
    | (join) "q \<noteq> None" "p \<noteq> None" "p \<noteq> q" "f \<noteq> Map.empty" "g \<noteq> Map.empty" "\<And>r. joined E f g r \<Longrightarrow> merges E f g r"
proof -
  have h: "held (strees m) (hand m ps)" using assms(1) by (simp add: repr_def)
  have np: "p = None \<longleftrightarrow> f = Map.empty" using held_null_iff [OF h assms(2)] assms(4) by simp
  have nq: "q = None \<longleftrightarrow> g = Map.empty" using held_null_iff [OF h assms(3)] assms(5) by simp
  consider "q = None \<or> p = q" | "q \<noteq> None" "p \<noteq> q" "p = None" | "q \<noteq> None" "p \<noteq> q" "p \<noteq> None" by blast
  then show thesis
  proof cases
    case 1
    then show thesis using same nq assms(4,5) by (auto simp: merges_def joined_same)
  next
    case 2
    then show thesis using copy np nq by (auto simp: merges_def)
  next
    case 3
    then show thesis using join np nq by (auto simp: merges_def)
  qed
qed

lemma merge_local_wp:
  assumes "repr m (p # ps) S (f # vs)" "q \<in># hand m (p # ps)" "view (strees m) q = g" "merge_ready E m" "\<not> oom E m"
    "fam (sms m) F" "f \<in> F" "g \<in> F"
  shows "wp (merge_stree_pools E add_pool (\<lambda>m. p) q m) (\<lambda>(r', m'). \<exists>r P.
    repr m' (r' # ps) (S\<lparr>all_pools := all_pools S @ P\<rparr>) (r # vs)
    \<and> merges E f g r \<and> fam (sms m') (insert r (set P \<union> F)) \<and> steady m m')"
proof -
  have vp: "view (strees m) p = f" and p: "p \<in># hand m (p # ps)" using assms(1) by (auto simp: repr_def)
  show ?thesis
  proof (cases rule: merge_cases [OF assms(1) p assms(2) vp assms(3), of E, case_names same copy join])
    case same
    then have "merge_stree_pools E add_pool (\<lambda>m. p) q m = Some (p, m)" using assms(5) by (auto simp: merge_stree_pools_def)
    moreover have "repr m (p # ps) (S\<lparr>all_pools := all_pools S @ []\<rparr>) (f # vs)" using assms(1) by simp
    moreover have "fam (sms m) (insert f (set [] \<union> F))" using assms(6,7) by (simp add: insert_absorb)
    ultimately show ?thesis using same(2) steady_refl unfolding wp_def by blast
  next
    case copy
    then have e: "merge_stree_pools E add_pool (\<lambda>m. p) q m = clone_tree q m" using assms(5) by (auto simp: merge_stree_pools_def)
    have "repr m ps S vs" "q \<in># hand m ps" using assms(1,2) copy by (auto simp: repr_def)
    moreover have "fam (sms m) (insert g (set [] \<union> F))" using assms(6,8) by (simp add: insert_absorb)
    ultimately have "wp (clone_tree q m) (\<lambda>(r', m'). repr m' (r' # ps) (S\<lparr>all_pools := all_pools S @ []\<rparr>) (g # vs)
        \<and> merges E f g g \<and> fam (sms m') (insert g (set [] \<union> F)) \<and> steady m m')"
      by (intro wp_clone) (use assms(3) copy in auto)
    then show ?thesis unfolding e by (rule wp_mono) blast
  next
    case join
    have "wp (join_strees E add_pool p q m) (\<lambda>(r', m'). \<exists>r P. repr m' (r' # p # ps) (S\<lparr>all_pools := all_pools S @ P\<rparr>) (r # f # vs)
        \<and> joined E f g r \<and> fam (sms m') (insert r (set P \<union> F)) \<and> steady m m')"
      using join_strees_wp [OF assms(1) p assms(2,4,6), of add_pool] assms(3,7,8) vp join by simp
    then have "wp (join_strees E add_pool p q m) (\<lambda>(r', m1). wp (free_tree p m1) (\<lambda>m'. \<exists>r P.
        repr m' (r' # ps) (S\<lparr>all_pools := all_pools S @ P\<rparr>) (r # vs) \<and> merges E f g r
        \<and> fam (sms m') (insert r (set P \<union> F)) \<and> steady m m'))"
    proof (rule wp_mono, clarify)
      fix r' m1 r P assume 1: "repr m1 (r' # p # ps) (S\<lparr>all_pools := all_pools S @ P\<rparr>) (r # f # vs)" "joined E f g r"
        "fam (sms m1) (insert r (set P \<union> F))" "steady m m1"
      show "wp (free_tree p m1) (\<lambda>m'. \<exists>r P. repr m' (r' # ps) (S\<lparr>all_pools := all_pools S @ P\<rparr>) (r # vs)
          \<and> merges E f g r \<and> fam (sms m') (insert r (set P \<union> F)) \<and> steady m m')"
        using join(6) [OF 1(2)] 1(3) steady_trans [OF 1(4) steady_store] by (intro wp_free [OF swap2 [OF 1(1)]]) auto
    qed
    then show ?thesis using join(1-3) assms(5) by (auto simp: merge_stree_pools_def case_prod_unfold)
  qed
qed

lemma wp_free_old_cur:
  assumes "repr m (q # ps) S (w # vs)"
    "\<And>st. repr (m\<lparr>strees := st, cur_stree := q\<rparr>) ps (S\<lparr>cur_stree := w\<rparr>) vs \<Longrightarrow> Q (m\<lparr>strees := st\<rparr>)"
  shows "wp (free_tree (cur_stree m) m) Q"
proof -
  from free_step [OF take_cur [OF assms(1)]] obtain st where
    f: "free_tree (cur_stree m) (m\<lparr>cur_stree := None\<rparr>) = Some (m\<lparr>cur_stree := None, strees := st\<rparr>)"
    "repr (m\<lparr>cur_stree := None, strees := st\<rparr>) (q # ps) (S\<lparr>cur_stree := Map.empty\<rparr>) (w # vs)" by auto
  have eq: "m\<lparr>cur_stree := None, strees := st, cur_stree := q\<rparr> = m\<lparr>strees := st, cur_stree := q\<rparr>"
    by (rule machine.equality) simp_all
  have "free_stree (strees m) (cur_stree m) = Some st"
    using f(1) by (auto simp: free_tree_def dest!: arg_cong [of _ _ strees])
  moreover have "repr (m\<lparr>strees := st, cur_stree := q\<rparr>) ps (S\<lparr>cur_stree := w\<rparr>) vs"
    using put_cur [OF f(2)] eq by simp
  ultimately show ?thesis using assms(2) by (simp add: free_tree_def)
qed

lemma merge_into_cur_wp:
  assumes "repr m ps S vs" "q \<in># hand m ps" "view (strees m) q = g" "merge_ready E m" "\<not> oom E m"
    "fam (sms m) F" "cur_stree S \<in> F" "g \<in> F"
  shows "wp (merge_into_cur E q m) (\<lambda>m'. \<exists>r P. repr m' ps (S\<lparr>all_pools := all_pools S @ P, cur_stree := r\<rparr>) vs
    \<and> merges E (cur_stree S) g r \<and> fam (sms m') (insert r (set P \<union> F)) \<and> steady m m')"
proof -
  let ?p = "cur_stree m" and ?f = "cur_stree S"
  have vp: "view (strees m) ?p = ?f" and p: "?p \<in># hand m ps" using repr_cur [OF assms(1)] by simp_all
  have steady_cur: "steady m (m1\<lparr>strees := st, cur_stree := p\<rparr>)" if "steady m m1" for m1 st p
    using that by (simp add: steady_def control_of_def)
  note defs = merge_into_cur_def merge_stree_def merge_stree_pools_def
  show ?thesis
  proof (cases rule: merge_cases [OF assms(1) p assms(2) vp assms(3), of E, case_names same copy join])
    case same
    then have "merge_into_cur E q m = Some m" using assms(5) by (auto simp: defs)
    moreover have "repr m ps (S\<lparr>all_pools := all_pools S @ [], cur_stree := ?f\<rparr>) vs" using assms(1) by simp
    moreover have "fam (sms m) (insert ?f (set [] \<union> F))" using assms(6,7) by (simp add: insert_absorb)
    ultimately show ?thesis using same(2) steady_refl unfolding wp_def by blast
  next
    case copy
    then have e: "merge_into_cur E q m = do { (q, m) \<leftarrow> clone_tree q m; Some (m\<lparr>cur_stree := q\<rparr>) }"
      using assms(5) by (auto simp: defs)
    have "fam (sms m) (insert g (set [] \<union> F))" using assms(6,8) by (simp add: insert_absorb)
    then have "wp (clone_tree q m) (\<lambda>(q, m'). repr (m'\<lparr>cur_stree := q\<rparr>) ps (S\<lparr>all_pools := all_pools S @ [], cur_stree := g\<rparr>) vs
        \<and> merges E ?f g g \<and> fam (sms m') (insert g (set [] \<union> F)) \<and> steady m (m'\<lparr>cur_stree := q\<rparr>))"
      apply (intro wp_clone [OF assms(1,2)])
      apply (drule put_cur)
      using copy assms(3) apply (auto simp: steady_def control_of_def)
      done
    then have "wp (clone_tree q m) (\<lambda>(q, m'). \<exists>r P. repr (m'\<lparr>cur_stree := q\<rparr>) ps (S\<lparr>all_pools := all_pools S @ P, cur_stree := r\<rparr>) vs
        \<and> merges E ?f g r \<and> fam (sms m') (insert r (set P \<union> F)) \<and> steady m (m'\<lparr>cur_stree := q\<rparr>))"
      by (rule wp_mono) blast
    then show ?thesis unfolding e by (simp add: case_prod_unfold)
  next
    case join
    have "wp (join_strees E True ?p q m) (\<lambda>(r', m'). \<exists>r P. repr m' (r' # ps) (S\<lparr>all_pools := all_pools S @ P\<rparr>) (r # vs)
        \<and> joined E ?f g r \<and> fam (sms m') (insert r (set P \<union> F)) \<and> steady m m')"
      using join_strees_wp [OF assms(1) p assms(2,4,6), of True] assms(3,7,8) vp join by simp
    then have "wp (join_strees E True ?p q m) (\<lambda>(r', m1). wp (free_tree (cur_stree m1) m1) (\<lambda>m'. \<exists>r P.
        repr (m'\<lparr>cur_stree := r'\<rparr>) ps (S\<lparr>all_pools := all_pools S @ P, cur_stree := r\<rparr>) vs
        \<and> merges E ?f g r \<and> fam (sms m') (insert r (set P \<union> F)) \<and> steady m (m'\<lparr>cur_stree := r'\<rparr>)))"
    proof (rule wp_mono, clarify)
      fix r' m1 r P assume 1: "repr m1 (r' # ps) (S\<lparr>all_pools := all_pools S @ P\<rparr>) (r # vs)" "joined E ?f g r"
        "fam (sms m1) (insert r (set P \<union> F))" "steady m m1"
      show "wp (free_tree (cur_stree m1) m1) (\<lambda>m'. \<exists>r P.
        repr (m'\<lparr>cur_stree := r'\<rparr>) ps (S\<lparr>all_pools := all_pools S @ P, cur_stree := r\<rparr>) vs
        \<and> merges E ?f g r \<and> fam (sms m') (insert r (set P \<union> F)) \<and> steady m (m'\<lparr>cur_stree := r'\<rparr>))"
        using join(6) [OF 1(2)] 1(3) steady_cur [OF 1(4)] by (intro wp_free_old_cur [OF 1(1)]) auto
    qed
    then show ?thesis using join(1-3) assms(5) by (auto simp: defs case_prod_unfold)
  qed
qed

end
