(* ===== verification/State_Safety.thy ===== *)
theory State_Safety
  imports Merge_Paths
begin

text \<open>
  No operation of the analysis state fails, whatever was done before: every pointer on the stacks
  stays live and counted, every copy a hook or a checker holds keeps its states, and states with one
  address stay one state.
\<close>

section \<open>Well-formed analysis states\<close>

definition good :: "machine \<Rightarrow> nat option list \<Rightarrow> bool" where
  "good m ps \<longleftrightarrow> held (strees m) (hand m ps) \<and> fam (sms m) (view (strees m) ` set_mset (hand m ps))
     \<and> read_only m = 0 \<and> fast_overlay m = None"

lemma good_repr:
  "good m ps \<longleftrightarrow> repr m ps (stacks_of m) (map (view (strees m)) ps)
     \<and> fam (sms m) (view (strees m) ` set_mset (hand m ps)) \<and> read_only m = 0 \<and> fast_overlay m = None"
  by (simp add: good_def repr_def)

text \<open>Maps made of the states of a family.\<close>

definition picks :: "smap set \<Rightarrow> smap set \<Rightarrow> bool" where
  "picks F G \<longleftrightarrow> (\<forall>g \<in> G. \<forall>k x. g k = Some x \<longrightarrow> (\<exists>f \<in> F. f k = Some x))"

lemma fam_picks:
  assumes "fam h F" "picks F G"
  shows "fam h G"
  unfolding fam_def
proof (intro conjI ballI)
  fix f assume f: "f \<in> G"
  show "below h f" using assms f unfolding fam_def picks_def below_def by blast
  fix g assume g: "g \<in> G"
  show "coherent f g"
    unfolding coherent_def
  proof (intro allI impI)
    fix k x y assume "f k = Some x" "g k = Some y" "sm_addr x = sm_addr y"
    moreover from this obtain f' g' where "f' \<in> F" "f' k = Some x" "g' \<in> F" "g' k = Some y"
      using assms(2) f g unfolding picks_def by meson
    ultimately show "state x = state y" using assms(1) unfolding fam_def coherent_def by blast
  qed
qed

lemma picks_refl [simp]: "picks F F"
  by (auto simp: picks_def)

lemma picks_mono: "G \<subseteq> insert Map.empty F \<Longrightarrow> picks F G"
  by (auto simp: picks_def)

lemma picks_insert: "picks F (insert g G) \<longleftrightarrow> (\<forall>k x. g k = Some x \<longrightarrow> (\<exists>f \<in> F. f k = Some x)) \<and> picks F G"
  by (auto simp: picks_def)

text \<open>The maps of a machine and of its value.\<close>

lemma mset_saved: "mset (saved_ptrs (map_saved f x)) = image_mset f (mset (saved_ptrs x))"
  by (cases x) (auto simp: map_named image_mset.compositionality comp_def)

lemma holders_map: "holders (map_stacks f m) = image_mset f (holders m)"
proof -
  have "mset (concat (map saved_ptrs (map (map_saved f) xs))) = image_mset f (mset (concat (map saved_ptrs xs)))" for xs
    by (induction xs) (auto simp: mset_saved)
  then show ?thesis
    by (simp add: holders_def map_stacks_def map_named image_mset.compositionality comp_def)
qed

lemma good_values:
  assumes "repr m ps S vs"
  shows "view (strees m) ` set_mset (hand m ps) = set_mset (holders S) \<union> set vs"
  using assms holders_map [of "view (strees m)" m] by (auto simp: repr_def stacks_of_def)

lemma goodI:
  assumes "repr m ps S vs" "fam (sms m) (set_mset (holders S) \<union> set vs)" "read_only m = 0" "fast_overlay m = None"
  shows "good m ps"
  using assms good_values [OF assms(1)] by (simp add: good_def repr_def)

lemma goodD:
  assumes "good m ps"
  shows "\<exists>S vs. repr m ps S vs \<and> fam (sms m) (set_mset (holders S) \<union> set vs) \<and> read_only m = 0 \<and> fast_overlay m = None"
  using assms good_values by (metis good_repr)

section \<open>Steps\<close>

text \<open>A step on the store that leaves maps made of the old states.\<close>

lemma good_store:
  assumes "good m ps" "repr (m\<lparr>strees := st\<rparr>) ps' S vs'" "S = stacks_of m"
    "picks (view (strees m) ` set_mset (hand m ps)) (set vs')"
  shows "good (m\<lparr>strees := st\<rparr>) ps'"
proof (rule goodI [OF assms(2)])
  let ?F = "view (strees m) ` set_mset (hand m ps)"
  have "set_mset (holders S) \<subseteq> ?F" using holders_map [of "view (strees m)" m] assms(3) by (auto simp: stacks_of_def)
  then have "picks ?F (set_mset (holders S) \<union> set vs')" using assms(4) unfolding picks_def by blast
  then show "fam (sms (m\<lparr>strees := st\<rparr>)) (set_mset (holders S) \<union> set vs')"
    using fam_picks [of "sms m" ?F] assms(1) by (simp add: good_def)
qed (use assms(1) in \<open>simp_all add: good_def\<close>)

lemma good_hand: "good m ps \<Longrightarrow> repr m ps (stacks_of m) (map (view (strees m)) ps)"
  by (simp add: good_repr)

lemma good_clone:
  assumes "good m ps" "p \<in># hand m ps" "\<And>st. good (m\<lparr>strees := st\<rparr>) (p # ps) \<Longrightarrow> Q (p, m\<lparr>strees := st\<rparr>)"
  shows "wp (clone_tree p m) Q"
proof (rule wp_clone [OF good_hand [OF assms(1)] assms(2)])
  fix st assume r: "repr (m\<lparr>strees := st\<rparr>) (p # ps) (stacks_of m) (view (strees m) p # map (view (strees m)) ps)"
  show "Q (p, m\<lparr>strees := st\<rparr>)"
    by (rule assms(3) [OF good_store [OF assms(1) r refl]]) (use assms(2) in \<open>auto intro!: picks_mono\<close>)
qed

lemma good_free:
  assumes "good m (p # ps)" "\<And>st. good (m\<lparr>strees := st\<rparr>) ps \<Longrightarrow> Q (m\<lparr>strees := st\<rparr>)"
  shows "wp (free_tree p m) Q"
proof (rule wp_free)
  show "repr m (p # ps) (stacks_of m) (view (strees m) p # map (view (strees m)) ps)" using good_hand [OF assms(1)] by simp
  fix st assume r: "repr (m\<lparr>strees := st\<rparr>) ps (stacks_of m) (map (view (strees m)) ps)"
  show "Q (m\<lparr>strees := st\<rparr>)"
    by (rule assms(2) [OF good_store [OF assms(1) r refl]]) (auto intro!: picks_mono)
qed

lemma good_overwrite:
  assumes "good m (p # ps)" "from \<in># hand m (p # ps)" "\<And>q st. good (m\<lparr>strees := st\<rparr>) (q # ps) \<Longrightarrow> Q (q, m\<lparr>strees := st\<rparr>)"
  shows "wp (overwrite_tree from p m) Q"
proof (rule wp_overwrite)
  show "repr m (p # ps) (stacks_of m) (view (strees m) p # map (view (strees m)) ps)" using good_hand [OF assms(1)] by simp
  show "from \<in># add_mset p (hand m ps)" using assms(2) by simp
  fix q st assume r: "repr (m\<lparr>strees := st\<rparr>) (q # ps) (stacks_of m) ((view (strees m) p ++ view (strees m) from) # map (view (strees m)) ps)"
  show "Q (q, m\<lparr>strees := st\<rparr>)"
    by (rule assms(3) [OF good_store [OF assms(1) r refl]]) (use assms(2) in \<open>auto simp: picks_insert map_add_Some_iff intro!: picks_mono\<close>)
qed

lemma good_filter:
  assumes "good m (p # ps)" "filt \<in># hand m (p # ps)" "\<And>q st. good (m\<lparr>strees := st\<rparr>) (q # ps) \<Longrightarrow> Q (q, m\<lparr>strees := st\<rparr>)"
  shows "wp (filter_tree p filt m) Q"
proof (rule wp_filter)
  show "repr m (p # ps) (stacks_of m) (view (strees m) p # map (view (strees m)) ps)" using good_hand [OF assms(1)] by simp
  show "filt \<in># add_mset p (hand m ps)" using assms(2) by simp
  fix q st assume r: "repr (m\<lparr>strees := st\<rparr>) (q # ps) (stacks_of m)
    ((\<lambda>k. unless_same (view (strees m) p k) (view (strees m) filt k)) # map (view (strees m)) ps)"
  show "Q (q, m\<lparr>strees := st\<rparr>)"
    by (rule assms(3) [OF good_store [OF assms(1) r refl]]) (auto simp: picks_insert unless_same_def split: option.splits if_splits intro!: picks_mono)
qed

lemma good_delete:
  assumes "good m (p # ps)" "\<And>q st. good (m\<lparr>strees := st\<rparr>) (q # ps) \<Longrightarrow> Q (q, m\<lparr>strees := st\<rparr>)"
  shows "wp (delete_tree p ow nm sy m) Q"
proof (rule wp_delete)
  show "repr m (p # ps) (stacks_of m) (view (strees m) p # map (view (strees m)) ps)" using good_hand [OF assms(1)] by simp
  fix q st assume r: "repr (m\<lparr>strees := st\<rparr>) (q # ps) (stacks_of m) ((view (strees m) p)(TKey ow nm sy := None) # map (view (strees m)) ps)"
  show "Q (q, m\<lparr>strees := st\<rparr>)"
    by (rule assms(2) [OF good_store [OF assms(1) r refl]]) (auto simp: picks_insert split: if_splits intro!: picks_mono)
qed

text \<open>States that some tree in hand has.\<close>

definition known :: "machine \<Rightarrow> nat option list \<Rightarrow> sm_state \<Rightarrow> bool" where
  "known m ps x \<longleftrightarrow> (\<exists>f \<in> view (strees m) ` set_mset (hand m ps). f (key x) = Some x)"

lemma knownI: "p \<in># hand m ps \<Longrightarrow> view (strees m) p (key x) = Some x \<Longrightarrow> known m ps x"
  by (auto simp: known_def)

lemma known_Cons: "known m ps x \<Longrightarrow> known m (p # ps) x"
  by (auto simp: known_def)

lemma fold_upd_from:
  "fold (\<lambda>x f. f(key x \<mapsto> x)) xs v k = Some y \<Longrightarrow> v k = Some y \<or> y \<in> set xs \<and> key y = k"
  by (induction xs arbitrary: v) (fastforce split: if_splits)+

lemma good_insert_all:
  assumes "good m (p # ps)" "\<forall>x \<in> set xs. known m (p # ps) x"
    "\<And>q st. good (m\<lparr>strees := st\<rparr>) (q # ps) \<Longrightarrow> Q (q, m\<lparr>strees := st\<rparr>)"
  shows "wp (insert_all_tree p xs m) Q"
proof (rule wp_insert_all)
  show "repr m (p # ps) (stacks_of m) (view (strees m) p # map (view (strees m)) ps)" using good_hand [OF assms(1)] by simp
  fix q st assume r: "repr (m\<lparr>strees := st\<rparr>) (q # ps) (stacks_of m)
    (fold (\<lambda>x f. f(key x \<mapsto> x)) xs (view (strees m) p) # map (view (strees m)) ps)"
  let ?F = "view (strees m) ` set_mset (hand m (p # ps))"
  have "\<exists>f \<in> ?F. f k = Some y" if "fold (\<lambda>x f. f(key x \<mapsto> x)) xs (view (strees m) p) k = Some y" for k y
    using fold_upd_from [OF that] assms(2) by (auto simp: known_def)
  then have "picks ?F (set (fold (\<lambda>x f. f(key x \<mapsto> x)) xs (view (strees m) p) # map (view (strees m)) ps))"
    by (auto simp: picks_insert intro!: picks_mono)
  from assms(3) [OF good_store [OF assms(1) r refl this]] show "Q (q, m\<lparr>strees := st\<rparr>)" .
qed

lemma good_insert:
  assumes "good m (p # ps)" "known m (p # ps) x" "\<And>q st. good (m\<lparr>strees := st\<rparr>) (q # ps) \<Longrightarrow> Q (q, m\<lparr>strees := st\<rparr>)"
  shows "wp (insert_tree p x m) Q"
  using good_insert_all [OF assms(1), of "[x]" Q] assms(2,3) by (simp add: case_prod_unfold)

lemma good_states:
  assumes "good m ps" "p \<in># hand m ps"
    "\<And>xs. sorted_sms xs \<Longrightarrow> \<forall>x \<in> set xs. view (strees m) p (key x) = Some x \<Longrightarrow> Q xs"
  shows "wp (states_of (strees m) p) Q"
proof (rule wp_states [OF good_hand [OF assms(1)] assms(2)])
  fix xs assume xs: "sorted_sms xs" "(\<lambda>k. find_key k xs) = view (strees m) p"
  have "view (strees m) p (key x) = Some x" if "x \<in> set xs" for x
    using find_key_Some_iff [OF xs(1), of "key x" x] that xs(2) by (metis (full_types))
  then show "Q xs" using assms(3) xs(1) by blast
qed

section \<open>Moving pointers\<close>

lemma good_drop: "good m (p # ps) \<Longrightarrow> good m ps"
  by (auto simp: good_def intro: held_drop elim!: fam_mono)

lemma good_null: "good m ps \<Longrightarrow> good m (None # ps)"
  by (auto simp: good_def fam_insert below_def coherent_def)

lemma good_perm: "good m ps \<Longrightarrow> mset ps = mset ps' \<Longrightarrow> good m ps'"
  by (auto simp: good_def simp flip: set_mset_mset)

lemma good_swap2: "good m (p # q # ps) \<Longrightarrow> good m (q # p # ps)"
  by (erule good_perm) simp

lemma good_last: "good m (p # q # r # ps) \<Longrightarrow> good m (r # p # q # ps)"
  by (erule good_perm) simp

text \<open>Fields that hold no tree, and flags.\<close>

lemma good_done:
  "good m ps \<Longrightarrow> stacks.truncate m' = stacks.truncate m \<Longrightarrow> strees m' = strees m \<Longrightarrow> sms m' = sms m \<Longrightarrow>
    read_only m' = read_only m \<Longrightarrow> fast_overlay m' = fast_overlay m \<Longrightarrow> good m' ps"
  by (auto simp: good_def holders_def stacks.truncate_def)

lemma good_flags: "good m ps \<Longrightarrow> control_of m' = control_of m \<Longrightarrow> read_only m' = 0 \<and> fast_overlay m' = None"
  by (simp add: good_def control_of_def)

context stack_field
begin

lemma good_pop:
  assumes "good m ps"
  shows "good (upd (butlast (get m)) m) (top_stree (get m) # ps)"
proof (rule goodI [OF pop [OF good_hand [OF assms]]])
  let ?F = "view (strees m) ` set_mset (hand m ps)"
  have r: "repr (upd (butlast (get m)) m) (top_stree (get m) # ps) (aupd (butlast (aget (stacks_of m))) (stacks_of m))
    (top_map (aget (stacks_of m)) # map (view (strees m)) ps)" using pop [OF good_hand [OF assms]] .
  have "set (butlast (get m)) \<subseteq> set (get m)" by (auto dest: in_set_butlastD)
  then have "set_mset (hand (upd (butlast (get m)) m) (top_stree (get m) # ps)) \<subseteq> insert None (set_mset (hand m ps))"
    by (auto simp: hand_eq [of m ps] holders_upd [of "butlast (get m)"] top_stree_def)
  then have "view (strees m) ` set_mset (hand (upd (butlast (get m)) m) (top_stree (get m) # ps)) \<subseteq> insert Map.empty ?F"
    by (auto simp del: set_mset_union)
  then have "fam (sms m) (view (strees m) ` set_mset (hand (upd (butlast (get m)) m) (top_stree (get m) # ps)))"
    using assms fam_picks picks_mono unfolding good_def by blast
  then show "fam (sms (upd (butlast (get m)) m)) (set_mset (holders (aupd (butlast (aget (stacks_of m))) (stacks_of m)))
      \<union> set (top_map (aget (stacks_of m)) # map (view (strees m)) ps))"
    using good_values [OF r] by (simp add: rest_upd strees_upd)
qed (use good_flags [OF assms rest_upd(2)] in auto)

lemma good_push:
  assumes "good m (p # ps)"
  shows "good (upd (get m @ [p]) m) ps"
proof -
  have "hand (upd (get m @ [p]) m) ps = hand m (p # ps)"
    by (simp add: hand_eq [of m ps] holders_upd [of "get m @ [p]"])
  then show ?thesis
    using assms good_flags [OF assms rest_upd(2)] by (simp add: good_def rest_upd strees_upd)
qed

end

lemma good_same_hand:
  assumes "good m ps" "hand m' ps' = hand m ps" "strees m' = strees m" "sms m' = sms m" "control_of m' = control_of m"
  shows "good m' ps'"
  using assms(1) good_flags [OF assms(1,5)] unfolding good_def assms(2-4) by simp

lemma good_take_cur: "good m ps \<Longrightarrow> good (m\<lparr>cur_stree := None\<rparr>) (cur_stree m # ps)"
  by (rule good_same_hand [OF good_null]) (simp_all add: holders_def add_mset_commute control_of_def)

lemma good_put_cur: "good m (p # ps) \<Longrightarrow> cur_stree m = None \<Longrightarrow> good (m\<lparr>cur_stree := p\<rparr>) ps"
  by (rule good_drop [of _ None], erule good_same_hand) (simp_all add: holders_def add_mset_commute control_of_def)

lemma good_free_cur:
  assumes "good m ps" "\<And>st. good (m\<lparr>strees := st, cur_stree := None\<rparr>) ps \<Longrightarrow> Q (m\<lparr>strees := st, cur_stree := None\<rparr>)"
  shows "wp (free_cur_stree m) Q"
proof -
  have "wp (free_tree (cur_stree m) (m\<lparr>cur_stree := None\<rparr>)) (\<lambda>m'. \<exists>st. m' = m\<lparr>cur_stree := None, strees := st\<rparr> \<and> good m' ps)"
    by (rule good_free [OF good_take_cur [OF assms(1)]]) auto
  then obtain st where st: "free_stree (strees m) (cur_stree m) = Some st" "good (m\<lparr>cur_stree := None, strees := st\<rparr>) ps"
    by (auto simp: wp_def free_tree_def dest!: arg_cong [of _ _ strees])
  have "m\<lparr>cur_stree := None, strees := st\<rparr> = m\<lparr>strees := st, cur_stree := None\<rparr>" by (rule machine.equality) simp_all
  from st(1) assms(2) [OF st(2) [unfolded this]] show ?thesis by (simp add: free_cur_stree_def free_tree_def)
qed

section \<open>Merging\<close>

text \<open>What the program relies on for the functions that checkers register.\<close>

definition env_ok :: "env \<Rightarrow> bool" where
  "env_ok E \<longleftrightarrow> hooks_local E \<and> merge_total E"

lemma good_ready: "good m ps \<Longrightarrow> env_ok E \<Longrightarrow> merge_ready E m"
  by (simp add: good_def env_ok_def merge_ready_def)

lemma good_merged:
  assumes "good m ps" "steady m m'" "repr m' ps' S' vs'"
    "fam (sms m') (insert r (set P \<union> view (strees m) ` set_mset (hand m ps)))"
    "set_mset (holders S') \<union> set vs' \<subseteq> insert r (set P \<union> view (strees m) ` set_mset (hand m ps))"
  shows "good m' ps'"
  by (rule goodI [OF assms(3)]) (use assms(1,2,4,5) fam_mono steady_flags [OF assms(2)] in \<open>auto simp: good_def\<close>)

lemma holders_pools: "holders (S\<lparr>all_pools := all_pools S @ P\<rparr>) = holders S + mset P"
  by (simp add: holders_def)

lemma holders_cur: "set_mset (holders (S\<lparr>cur_stree := r\<rparr>)) \<subseteq> insert r (set_mset (holders S))"
  by (auto simp: holders_def)

lemma holders_value: "set_mset (holders (stacks_of m)) = view (strees m) ` set_mset (holders m)"
  by (simp add: stacks_of_def holders_map)

lemma good_merge:
  assumes "good m (p # ps)" "q \<in># hand m (p # ps)" "env_ok E" "\<And>r m'. good m' (r # ps) \<Longrightarrow> Q (r, m')"
  shows "wp (merge_stree_pools E add_pool (\<lambda>m. p) q m) Q"
proof (cases "oom E m")
  case True
  then show ?thesis using assms(1,4) by (simp add: merge_stree_pools_def)
next
  case False
  let ?F = "view (strees m) ` set_mset (hand m (p # ps))"
  have r: "repr m (p # ps) (stacks_of m) (view (strees m) p # map (view (strees m)) ps)" using good_hand [OF assms(1)] by simp
  have "fam (sms m) ?F" "view (strees m) p \<in> ?F" "view (strees m) q \<in> ?F" using assms(1,2) by (auto simp: good_def)
  note w = merge_local_wp [OF r assms(2) refl good_ready [OF assms(1,3)] False this, of add_pool]
  show ?thesis
  proof (rule wp_mono [OF w])
    fix z assume "case z of (r', m') \<Rightarrow> \<exists>r P. repr m' (r' # ps) (stacks_of m\<lparr>all_pools := all_pools (stacks_of m) @ P\<rparr>)
        (r # map (view (strees m)) ps) \<and> merges E (view (strees m) p) (view (strees m) q) r
        \<and> fam (sms m') (insert r (set P \<union> ?F)) \<and> steady m m'"
    then obtain r' m' r P where z: "z = (r', m')" "steady m m'"
      "repr m' (r' # ps) (stacks_of m\<lparr>all_pools := all_pools (stacks_of m) @ P\<rparr>) (r # map (view (strees m)) ps)"
      "fam (sms m') (insert r (set P \<union> ?F))" by blast
    have "good m' (r' # ps)"
      by (rule good_merged [OF assms(1) z(2-4)]) (auto simp: holders_pools holders_value)
    then show "Q z" using assms(4) z(1) by blast
  qed
qed

lemma good_merge_cur:
  assumes "good m ps" "q \<in># hand m ps" "env_ok E"
  shows "wp (merge_into_cur E q m) (\<lambda>m'. good m' ps)"
proof (cases "oom E m")
  case True
  then show ?thesis using assms(1) by (simp add: merge_into_cur_def merge_stree_def merge_stree_pools_def)
next
  case False
  let ?F = "view (strees m) ` set_mset (hand m ps)"
  note r = good_hand [OF assms(1)]
  have "fam (sms m) ?F" "cur_stree (stacks_of m) \<in> ?F" "view (strees m) q \<in> ?F"
    using assms(1,2) repr_cur [OF r] by (auto simp: good_def)
  note w = merge_into_cur_wp [OF r assms(2) refl good_ready [OF assms(1,3)] False this]
  show ?thesis
  proof (rule wp_mono [OF w])
    fix m' assume "\<exists>r P. repr m' ps (stacks_of m\<lparr>all_pools := all_pools (stacks_of m) @ P, cur_stree := r\<rparr>)
        (map (view (strees m)) ps) \<and> merges E (cur_stree (stacks_of m)) (view (strees m) q) r
        \<and> fam (sms m') (insert r (set P \<union> ?F)) \<and> steady m m'"
    then obtain r P where z: "steady m m'"
      "repr m' ps (stacks_of m\<lparr>all_pools := all_pools (stacks_of m) @ P, cur_stree := r\<rparr>) (map (view (strees m)) ps)"
      "fam (sms m') (insert r (set P \<union> ?F))" by blast
    show "good m' ps"
      by (rule good_merged [OF assms(1) z])
        (use holders_cur [where S = "stacks_of m\<lparr>all_pools := all_pools (stacks_of m) @ P\<rparr>" and r = r] in \<open>auto simp: holders_pools holders_value\<close>)
  qed
qed

section \<open>Operations\<close>

definition keeps :: "(machine \<Rightarrow> machine option) \<Rightarrow> bool" where
  "keeps op \<longleftrightarrow> (\<forall>m ps. good m ps \<longrightarrow> wp (op m) (\<lambda>m'. good m' ps))"

lemma keepsI: "(\<And>m ps. good m ps \<Longrightarrow> wp (op m) (\<lambda>m'. good m' ps)) \<Longrightarrow> keeps op"
  by (simp add: keeps_def)

lemma keepsD: "keeps op \<Longrightarrow> good m ps \<Longrightarrow> wp (op m) (\<lambda>m'. good m' ps)"
  by (simp add: keeps_def)

lemma keeps_bind: "keeps f \<Longrightarrow> keeps g \<Longrightarrow> keeps (\<lambda>m. Option.bind (f m) g)"
  unfolding keeps_def by (fastforce elim!: wp_mono)

text \<open>An operation that is described as a function on maps.\<close>

lemma runs_good:
  assumes "good m ps" "repr m' ps S' (map (view (strees m)) ps)" "same_rest m m'"
    "picks (set_mset (holders (stacks_of m))) (set_mset (holders S'))"
  shows "good m' ps"
proof (rule goodI [OF assms(2)])
  have "picks (view (strees m) ` set_mset (hand m ps)) (set_mset (holders S') \<union> set (map (view (strees m)) ps))"
    using assms(4) by (fastforce simp: picks_def holders_value)
  from fam_picks [OF _ this] show "fam (sms m') (set_mset (holders S') \<union> set (map (view (strees m)) ps))"
    using assms(1,3) by (simp add: good_def same_rest_def)
qed (use assms(1,3) in \<open>simp_all add: good_def same_rest_def control_of_def\<close>)

lemma runs_keeps:
  assumes "runs op F" "\<And>S. picks (set_mset (holders S)) (set_mset (holders (F S)))"
  shows "keeps op"
proof (rule keepsI)
  fix m ps assume g: "good m ps"
  from runsD [OF assms(1) good_hand [OF g]] show "wp (op m) (\<lambda>m'. good m' ps)"
    by (rule wp_mono) (use runs_good [OF g _ _ assms(2)] in blast)
qed

lemma in_butlast: "f \<in> set (butlast s) \<Longrightarrow> f \<in> set s"
  by (rule in_set_butlastD)

lemma top_map_Some: "top_map s k = Some x \<Longrightarrow> \<exists>f \<in> set s. f k = Some x"
  by (auto simp: top_map_def split: if_splits)

lemma picks_Un [simp]: "picks F (A \<union> B) \<longleftrightarrow> picks F A \<and> picks F B"
  by (auto simp: picks_def)

lemma holders_set:
  "set_mset (holders S) = insert (cur_stree S) (set (true_stack S) \<union> set (false_stack S) \<union> set (pre_cond_stack S)
     \<union> set (cond_true_stack S) \<union> set (cond_false_stack S) \<union> set (fake_cur_stree_stack S) \<union> set (break_stack S)
     \<union> set (fake_break_stack S) \<union> set (switch_stack S) \<union> set (default_stack S) \<union> set (continue_stack S)
     \<union> set (map ns_stree (goto_stack S)) \<union> set (concat (map saved_ptrs (backup S))) \<union> set (all_pools S))"
  by (auto simp: holders_def)

lemmas picks_simps = holders_set picks_insert map_add_Some_iff

end
