(* ===== verification/Safe_Operations.thy ===== *)
theory Safe_Operations
  imports State_Safety
begin

text \<open>
  Every operation of \<^verbatim>\<open>src/smatch_states.c\<close> on a well-formed analysis state returns, and leaves a
  well-formed analysis state.
\<close>

section \<open>Conditions and branches\<close>

lemma save_pre_cond_states_keeps: "keeps save_pre_cond_states"
  by (rule runs_keeps [OF save_pre_cond_states_runs]) (auto simp: picks_simps intro: picks_mono)

lemma use_pre_cond_states_keeps: "keeps use_pre_cond_states"
  by (rule runs_keeps [OF use_pre_cond_states_runs]) (auto simp: picks_simps intro: picks_mono dest!: top_map_Some in_butlast)

lemma discard_pre_cond_states_keeps: "keeps discard_pre_cond_states"
  by (rule runs_keeps [OF discard_pre_cond_states_runs]) (auto simp: picks_simps intro: picks_mono dest!: in_butlast)

lemma push_fake_cur_stree_keeps: "keeps push_fake_cur_stree"
  by (rule runs_keeps [OF push_fake_cur_stree_runs]) (auto simp: picks_simps spec_push_fake_def intro: picks_mono)

lemma push_cond_stacks_keeps: "keeps push_cond_stacks"
  by (rule runs_keeps [OF push_cond_stacks_runs]) (auto simp: picks_simps spec_push_fake_def intro: picks_mono)

lemma use_cond_states_keeps: "keeps use_cond_states"
  by (rule runs_keeps [OF use_cond_states_runs])
    (auto simp: picks_simps spec_use_cond_def intro: picks_mono dest!: top_map_Some in_butlast)

lemma use_cond_stack_keeps: "keeps (use_cond_stack b)"
  by (rule runs_keeps [OF use_cond_stack_runs])
    (auto simp: picks_simps spec_use_branch_def cond_stack_def intro: picks_mono dest!: top_map_Some in_butlast)

lemma push_true_states_keeps: "keeps push_true_states"
  by (rule runs_keeps [OF push_true_states_runs]) (auto simp: picks_simps intro: picks_mono)

lemma use_false_states_keeps: "keeps use_false_states"
  by (rule runs_keeps [OF use_false_states_runs]) (auto simp: picks_simps intro: picks_mono dest!: top_map_Some in_butlast)

lemma discard_false_states_keeps: "keeps discard_false_states"
  by (rule runs_keeps [OF discard_false_states_runs]) (auto simp: picks_simps intro: picks_mono dest!: in_butlast)

lemma discard_continues_keeps: "keeps discard_continues"
  by (rule runs_keeps [OF discard_continues_runs]) (auto simp: picks_simps intro: picks_mono dest!: in_butlast)

lemma nullify_path_keeps: "keeps nullify_path"
  by (rule runs_keeps [OF nullify_path_runs])
    (auto simp: picks_simps spec_nullify_def Let_def spec_push_fake_def spec_pop_fake_def intro: picks_mono dest!: top_map_Some in_butlast)

lemma pop_fake_good:
  assumes "good m ps"
  shows "wp (pop_fake_cur_stree m) (\<lambda>(p, m'). good m' (p # ps))"
proof -
  have "wp (use_pre_cond_states n) (\<lambda>m'. good (m'\<lparr>fake_cur_stree_stack := butlast (fake_cur_stree_stack m')\<rparr>)
      (top_stree (fake_cur_stree_stack m') # ps))" if "good n ps" for n
    by (rule wp_mono [OF keepsD [OF use_pre_cond_states_keeps that]], erule fake_st.good_pop)
  moreover have "good (sm_perror msg m) ps" for msg using assms by (auto simp: sm_perror_def elim!: good_done)
  ultimately show ?thesis using assms by (simp add: pop_fake_cur_stree_def Let_def pop_stree_def)
qed

lemma free_fake_cur_stree_keeps: "keeps free_fake_cur_stree"
proof (rule keepsI)
  fix m ps assume "good m ps"
  from pop_fake_good [OF this] show "wp (free_fake_cur_stree m) (\<lambda>m'. good m' ps)"
    by (auto simp: free_fake_cur_stree_def elim!: wp_mono good_free)
qed

lemma free_set_states_keeps: "keeps free_set_states"
proof (rule keepsI)
  fix m ps assume "good m ps"
  from pop_fake_good [OF this] show "wp (free_set_states m) (\<lambda>m'. good m' ps)"
    by (auto simp: free_set_states_def elim!: wp_mono good_free)
qed

lemma negate_cond_stacks_keeps: "keeps (\<lambda>m. Some (negate_cond_stacks m))"
proof (rule keepsI)
  fix m ps assume g: "good m ps"
  have "good (negate_cond_stacks m) ps"
    using negate_cond_stacks_repr [OF good_hand [OF g]]
    by (intro runs_good [OF g]) (auto simp: picks_simps intro: picks_mono dest!: top_map_Some in_butlast)
  then show "wp (Some (negate_cond_stacks m)) (\<lambda>m'. good m' ps)" by simp
qed

section \<open>Joins\<close>

context stack_field
begin

lemma good_merge_top:
  assumes "good m ps" "env_ok E"
  shows "wp (merge_into_cur E (top_stree (get m)) (upd (butlast (get m)) m)) (\<lambda>m'. good m' (top_stree (get m) # ps))"
  by (rule good_merge_cur [OF good_pop [OF assms(1)] _ assms(2)]) simp

end

lemma merge_false_states_keeps: "env_ok E \<Longrightarrow> keeps (merge_false_states E)"
  by (rule keepsI, drule (1) false_st.good_merge_top [rotated])
    (auto simp: merge_false_states_def pop_stree_def elim!: wp_mono good_free)

lemma merge_continues_keeps: "env_ok E \<Longrightarrow> keeps (merge_continues E)"
  by (rule keepsI, drule (1) continue_st.good_merge_top [rotated])
    (auto simp: merge_continues_def pop_stree_def elim!: wp_mono good_free)

lemma clone_or_merge_good:
  assumes "good m (p # ps)" "q \<in># hand m (p # ps)" "env_ok E" "\<And>r m'. good m' (r # ps) \<Longrightarrow> Q (r, m')"
  shows "wp (clone_or_merge E p q m) Q"
proof (cases "p = None")
  case True
  have "wp (clone_tree q m) Q"
    by (rule good_clone [OF assms(1,2)], rule assms(4), drule good_swap2, erule good_drop)
  then show ?thesis using True by (simp add: clone_or_merge_def)
next
  case False
  then show ?thesis using good_merge [OF assms(1-3), where Q = Q] assms(4) by (auto simp: clone_or_merge_def merge_stree_def)
qed

lemma process_continues_keeps:
  assumes "env_ok E"
  shows "keeps (process_continues E)"
proof (rule keepsI)
  fix m ps assume g: "good m ps"
  note p = continue_st.good_pop [OF g]
  have "wp (clone_or_merge E (top_stree (continue_stack m)) (cur_stree m) (m\<lparr>continue_stack := butlast (continue_stack m)\<rparr>))
      (\<lambda>(p, m). good (m\<lparr>continue_stack := push_stree (continue_stack m) p\<rparr>) ps)"
    using cur_hand [of "m\<lparr>continue_stack := butlast (continue_stack m)\<rparr>"]
    by (intro clone_or_merge_good [OF p _ assms]) (auto intro: continue_st.good_push)
  then show "wp (process_continues E m) (\<lambda>m'. good m' ps)"
    by (simp add: process_continues_def pop_stree_def case_prod_unfold)
qed

lemma get_sm_state_good:
  assumes "good m ps"
  shows "get_sm_state ow (Some nm) sy m = Some (view (strees m) (cur_stree m) (TKey ow nm sy))"
  using get_sm_state_repr [OF good_hand [OF assms], of ow nm sy] assms repr_cur [OF good_hand [OF assms]]
  by (simp add: good_def)

lemma view_key: "view st p k = Some x \<Longrightarrow> key x = k"
  using view_keyed [of st p] by (auto simp: keyed_def)

lemma current_versions_good:
  assumes "good m ps" "\<And>ys. \<forall>y \<in> set ys. known m ps y \<Longrightarrow> Q ys"
  shows "wp (current_versions xs m) Q"
  using assms(2)
proof (induction xs arbitrary: Q)
  case (Cons x xs)
  let ?y = "view (strees m) (cur_stree m) (TKey (owner x) (name x) (sym x))"
  have "known m ps y" if "?y = Some y" for y
    using that view_key [OF that] by (intro knownI [of "cur_stree m"]) simp_all
  then have "wp (current_versions xs m) (\<lambda>ys. Q (case ?y of None \<Rightarrow> ys | Some y \<Rightarrow> y # ys))"
    by (intro Cons.IH Cons.prems) (auto split: option.splits)
  then show ?case using get_sm_state_good [OF assms(1)] by simp
qed simp

lemma update_stree_with_merged_good:
  assumes "good m (p # ps)" "\<And>q m'. good m' (q # ps) \<Longrightarrow> Q (q, m')"
  shows "wp (update_stree_with_merged p m) Q"
proof -
  have "wp (states_of (strees m) p) (\<lambda>xs. wp (current_versions xs m) (\<lambda>ys. wp (insert_all_tree p ys m) Q))"
    by (rule good_states [OF assms(1)], simp, rule current_versions_good [OF assms(1)],
        rule good_insert_all [OF assms(1)]) (simp_all add: assms(2))
  then show ?thesis by (simp add: update_stree_with_merged_def)
qed

lemma update_fake_stree_keeps: "keeps update_fake_stree_with_merged"
proof (rule keepsI)
  fix m ps assume g: "good m ps"
  have "wp (update_stree_with_merged (top_stree (fake_cur_stree_stack m)) (m\<lparr>fake_cur_stree_stack := butlast (fake_cur_stree_stack m)\<rparr>))
      (\<lambda>(p, m). good (m\<lparr>fake_cur_stree_stack := fake_cur_stree_stack m @ [p]\<rparr>) ps)"
    by (rule update_stree_with_merged_good [OF fake_st.good_pop [OF g]]) (auto intro: fake_st.good_push)
  then show "wp (update_fake_stree_with_merged m) (\<lambda>m'. good m' ps)"
    using g by (simp add: update_fake_stree_with_merged_def pop_stree_def case_prod_unfold)
qed

lemma merge_true_states_keeps:
  assumes "env_ok E"
  shows "keeps (merge_true_states E)"
proof (rule keepsI)
  fix m ps assume g: "good m ps"
  let ?p = "top_stree (true_stack m)"
  have "wp (update_fake_stree_with_merged m1) (\<lambda>m2. wp (free_tree ?p m2) (\<lambda>m'. good m' ps))"
    if "good m1 (?p # ps)" for m1
    by (rule wp_mono [OF keepsD [OF update_fake_stree_keeps that]]) (auto elim: good_free)
  then have "wp (merge_into_cur E ?p (m\<lparr>true_stack := butlast (true_stack m)\<rparr>)) (\<lambda>m1. wp (update_fake_stree_with_merged m1)
      (\<lambda>m2. wp (free_tree ?p m2) (\<lambda>m'. good m' ps)))"
    by (rule wp_mono [OF true_st.good_merge_top [OF g assms]])
  then show "wp (merge_true_states E m) (\<lambda>m'. good m' ps)" by (simp add: merge_true_states_def pop_stree_def)
qed

section \<open>Loops\<close>

lemma push_continues_keeps: "keeps (\<lambda>m. Some (push_continues m))"
  by (rule keepsI, drule good_null, drule continue_st.good_push) (simp add: push_continues_def)

lemma push_breaks_keeps: "keeps (\<lambda>m. Some (push_breaks m))"
proof (rule keepsI)
  fix m ps assume "good m ps"
  then have b: "good (m\<lparr>break_stack := break_stack m @ [None]\<rparr>) ps" using break_st.good_push [OF good_null] by simp
  have "good (m\<lparr>break_stack := break_stack m @ [None], fake_break_stack := fake_break_stack m @ [None]\<rparr>) ps"
    using fake_break_st.good_push [OF good_null [OF b]] by simp
  then show "wp (Some (push_breaks m)) (\<lambda>m'. good m' ps)" using b by (simp add: push_breaks_def Let_def)
qed

lemma process_breaks_keeps:
  assumes "env_ok E"
  shows "keeps (process_breaks E)"
proof (rule keepsI)
  fix m ps assume g: "good m ps"
  have fake: "wp (clone_or_merge E (top_stree (fake_break_stack n)) (top_stree (fake_cur_stree_stack n))
      (n\<lparr>fake_break_stack := butlast (fake_break_stack n)\<rparr>)) (\<lambda>(p, m). good (m\<lparr>fake_break_stack := fake_break_stack m @ [p]\<rparr>) ps)"
    if n: "good n ps" "fake_cur_stree_stack n \<noteq> []" for n
  proof (rule clone_or_merge_good [OF fake_break_st.good_pop [OF n(1)] _ assms])
    show "top_stree (fake_cur_stree_stack n) \<in># hand (n\<lparr>fake_break_stack := butlast (fake_break_stack n)\<rparr>) (top_stree (fake_break_stack n) # ps)"
      using n(2) by (simp add: holders_def top_stree_def)
  qed (auto intro: fake_break_st.good_push)
  let ?Q = "\<lambda>m. if fake_cur_stree_stack m = [] then good m ps
    else wp (clone_or_merge E (top_stree (fake_break_stack m)) (top_stree (fake_cur_stree_stack m))
      (m\<lparr>fake_break_stack := butlast (fake_break_stack m)\<rparr>)) (\<lambda>(p, m). good (m\<lparr>fake_break_stack := fake_break_stack m @ [p]\<rparr>) ps)"
  have Q: "?Q n" if "good n ps" for n using fake that by simp
  have "wp (clone_or_merge E (top_stree (break_stack m)) (cur_stree m) (m\<lparr>break_stack := butlast (break_stack m)\<rparr>))
      (\<lambda>(p, m). ?Q (m\<lparr>break_stack := break_stack m @ [p]\<rparr>))"
    using cur_hand [of "m\<lparr>break_stack := butlast (break_stack m)\<rparr>"]
    by (intro clone_or_merge_good [OF break_st.good_pop [OF g] _ assms]) (simp, simp only: prod.case, rule Q, erule break_st.good_push)
  then show "wp (process_breaks E m) (\<lambda>m'. good m' ps)"
    by (auto simp: process_breaks_def pop_stree_def Let_def case_prod_unfold elim!: wp_mono split: if_splits)
qed

text \<open>Writing states over the top of a stack.\<close>

lemma insert_all_insert_each:
  "insert_all_tree p xs m = map_option (\<lambda>(p, st). (p, m\<lparr>strees := st\<rparr>)) (insert_each avl_insert (strees m) p xs)"
proof (induction xs arbitrary: p m)
  case (Cons x xs)
  then show ?case
    by (cases "avl_insert (strees m) p x") (auto simp: insert_tree_def overwrite_sm_state_stree_def)
qed simp

lemma overwrite_top_each:
  "overwrite_top st stack xs = (if stack = [] \<and> xs = [] then Some ([], st)
     else map_option (\<lambda>(p, st). (butlast stack @ [p], st)) (insert_each avl_insert st (top_stree stack) xs))"
proof (cases stack rule: rev_cases)
  case Nil
  have "overwrite_top st [] xs = overwrite_top st ([] @ [None]) xs" if "xs \<noteq> []"
    using that by (cases xs) (simp_all add: overwrite_sm_state_stree_stack_def pop_stree_def top_stree_def)
  then show ?thesis
    using Nil overwrite_top_insert_each [of st "[]" None xs] by (simp add: top_stree_def del: append_Nil)
next
  case (snoc t p)
  then show ?thesis using overwrite_top_insert_each by simp
qed

context stack_field
begin

lemma known_pop: "known m ps x \<Longrightarrow> known (upd (butlast (get m)) m) (top_stree (get m) # ps) x"
proof -
  assume "known m ps x"
  moreover have "set (get m) \<subseteq> insert (top_stree (get m)) (set (butlast (get m)))"
    by (cases "get m" rule: rev_cases) auto
  then have "set_mset (hand m ps) \<subseteq> set_mset (hand (upd (butlast (get m)) m) (top_stree (get m) # ps))"
    by (auto simp: hand_eq [of m ps] holders_upd [of "butlast (get m)"])
  ultimately show ?thesis unfolding known_def strees_upd by blast
qed

lemma good_push_popped:
  assumes "good ((upd (butlast (get m)) m)\<lparr>strees := st\<rparr>) (q # ps)"
  shows "good ((upd (butlast (get m) @ [q]) m)\<lparr>strees := st\<rparr>) ps"
  using good_push [OF assms] by (simp add: get_store get_upd upd_store upd_upd)

lemma good_overwrite_tops:
  assumes "good m ps" "\<forall>x \<in> set xs. known m ps x" "\<And>stack st. good ((upd stack m)\<lparr>strees := st\<rparr>) ps \<Longrightarrow> Q (stack, st)"
  shows "wp (overwrite_top (strees m) (get m) xs) Q"
proof (cases "get m = [] \<and> xs = []")
  case True
  then have "good ((upd [] m)\<lparr>strees := strees m\<rparr>) ps" using assms(1) upd_get [of m] by simp
  then show ?thesis using True assms(3) by simp
next
  case False
  let ?m = "upd (butlast (get m)) m"
  have "wp (insert_all_tree (top_stree (get m)) xs ?m) (\<lambda>(q, m'). Q (butlast (get m) @ [q], strees m'))"
    by (rule good_insert_all [OF good_pop [OF assms(1)]])
      (use assms(2) known_pop in \<open>auto intro!: assms(3) good_push_popped\<close>)
  then show ?thesis
    using False by (auto simp: overwrite_top_each insert_all_insert_each strees_upd case_prod_unfold)
qed

lemma good_overwrite_top:
  assumes "good m ps" "known m ps x" "\<And>stack st. good ((upd stack m)\<lparr>strees := st\<rparr>) ps \<Longrightarrow> Q (stack, st)"
  shows "wp (overwrite_sm_state_stree_stack (strees m) (get m) x) Q"
  using good_overwrite_tops [OF assms(1), of "[x]" Q] assms(2,3) by (simp add: case_prod_unfold)

lemma good_delete_top:
  assumes "good m ps" "\<And>stack st. good ((upd stack m)\<lparr>strees := st\<rparr>) ps \<Longrightarrow> Q (stack, m\<lparr>strees := st\<rparr>)"
  shows "wp (delete_stack (get m) ow nm sy m) Q"
proof -
  let ?m = "upd (butlast (get m)) m"
  have "wp (delete_tree (top_stree (get m)) ow nm sy ?m) (\<lambda>(q, m'). Q (butlast (get m) @ [q], m\<lparr>strees := strees m'\<rparr>))"
    by (rule good_delete [OF good_pop [OF assms(1)]]) (auto intro!: assms(2) good_push_popped)
  then show ?thesis
    by (simp add: delete_tree_def delete_stack_def delete_state_stree_stack_def pop_stree_def strees_upd case_prod_unfold)
qed

end

section \<open>New states\<close>

lemma fam_fresh:
  assumes "fam h F" "grown h h'"
    "\<forall>g \<in> G. \<forall>l z. g l = Some z \<longrightarrow> (\<exists>f \<in> F. f l = Some z)
       \<or> next_sm h \<le> sm_addr z \<and> sm_addr z < next_sm h' \<and> state z = s"
  shows "fam h' G"
  unfolding fam_def
proof (intro conjI ballI)
  fix f assume f: "f \<in> G"
  show "below h' f" using assms f unfolding fam_def below_def grown_def by fastforce
  fix g assume g: "g \<in> G"
  show "coherent f g"
    unfolding coherent_def
  proof (intro allI impI)
    fix k x y assume k: "f k = Some x" "g k = Some y" "sm_addr x = sm_addr y"
    have old: "sm_addr z < next_sm h" if "f \<in> F" "f k = Some z" for f z
      using assms(1) that unfolding fam_def below_def by blast
    have x: "(\<exists>f \<in> F. f k = Some x) \<or> next_sm h \<le> sm_addr x \<and> state x = s" using assms(3) f k(1) by blast
    have y: "(\<exists>f \<in> F. f k = Some y) \<or> next_sm h \<le> sm_addr y \<and> state y = s" using assms(3) g k(2) by blast
    show "state x = state y"
    proof (cases "next_sm h \<le> sm_addr x")
      case True
      then show ?thesis using x y k(3) old by (metis not_less)
    next
      case False
      then obtain f1 g1 where "f1 \<in> F" "f1 k = Some x" "g1 \<in> F" "g1 k = Some y" using x y k(3) by auto
      then show ?thesis using assms(1) k(3) unfolding fam_def coherent_def by blast
    qed
  qed
qed

lemma good_insert_new:
  assumes "good m (p # ps)" "alloc_sm_state (sms m) ow nm sy s = (x, h)"
    "\<And>q st. good (m\<lparr>sms := h, strees := st\<rparr>) (q # ps) \<Longrightarrow> Q (q, m\<lparr>strees := st\<rparr>)"
  shows "wp (insert_tree p x m) Q"
proof (rule wp_insert)
  show "repr m (p # ps) (stacks_of m) (view (strees m) p # map (view (strees m)) ps)" using good_hand [OF assms(1)] by simp
  fix q st assume r: "repr (m\<lparr>strees := st\<rparr>) (q # ps) (stacks_of m) ((view (strees m) p)(key x \<mapsto> x) # map (view (strees m)) ps)"
  note x = alloc_fresh [OF assms(2)]
  have "repr (m\<lparr>sms := h, strees := st\<rparr>) (q # ps) (stacks_of m) ((view (strees m) p)(key x \<mapsto> x) # map (view (strees m)) ps)"
    using r by (auto elim!: repr_done)
  then show "Q (q, m\<lparr>strees := st\<rparr>)"
  proof (intro assms(3), elim goodI)
    show "fam (sms (m\<lparr>sms := h, strees := st\<rparr>)) (set_mset (holders (stacks_of m)) \<union> set ((view (strees m) p)(key x \<mapsto> x) # map (view (strees m)) ps))"
      by (rule fam_fresh [where F = "view (strees m) ` set_mset (hand m (p # ps))" and h = "sms m" and s = s])
        (use assms(1) x in \<open>auto simp: good_def holders_value fresh_sm_def grown_def\<close>)
  qed (use assms(1) in \<open>simp_all add: good_def\<close>)
qed

context stack_field
begin

lemma good_set_top:
  assumes "good m ps" "\<And>stack x h st. good ((upd stack m)\<lparr>sms := h, strees := st\<rparr>) ps \<Longrightarrow> Q (stack, x, h, st)"
  shows "wp (set_state_stree_stack (sms m) (strees m) (get m) ow nm sy s) Q"
proof -
  let ?m = "upd (butlast (get m)) m"
  obtain x h where x: "alloc_sm_state (sms m) ow nm sy s = (x, h)" by (cases "alloc_sm_state (sms m) ow nm sy s")
  have "wp (insert_tree (top_stree (get m)) x ?m) (\<lambda>(q, m'). Q (butlast (get m) @ [q], x, h, strees m'))"
  proof (rule good_insert_new [OF good_pop [OF assms(1)]])
    show "alloc_sm_state (sms ?m) ow nm sy s = (x, h)" using x by (simp add: rest_upd)
    fix q st assume "good (?m\<lparr>sms := h, strees := st\<rparr>) (q # ps)"
    then have "good ((upd (butlast (get m) @ [q]) m)\<lparr>sms := h, strees := st\<rparr>) ps"
      using good_push [of "?m\<lparr>sms := h, strees := st\<rparr>" q ps]
      by (simp add: get_store get_upd upd_store upd_upd get_sms upd_sms)
    then show "case (q, ?m\<lparr>strees := st\<rparr>) of (q, m') \<Rightarrow> Q (butlast (get m) @ [q], x, h, strees m')"
      using assms(2) by simp
  qed
  then show ?thesis
    by (simp add: set_state_stree_stack_def set_state_stree_def pop_stree_def x insert_tree_def overwrite_sm_state_stree_def strees_upd case_prod_unfold)
qed

end

lemma set_state_good:
  assumes "good m ps"
  shows "wp (set_state ow (Some nm) sy (Some s) m) (\<lambda>(r, m'). good m' ps)"
proof (cases "cur_stree (stacks_of m) \<noteq> Map.empty \<or> ow = USHRT_MAX")
  case True
  have ro: "read_only m = 0" using assms by (simp add: good_def)
  let ?F = "view (strees m) ` set_mset (hand m ps)"
  have "fam (sms m') (set_mset (holders (spec_set (TKey ow nm sy) x y (stacks_of m))) \<union> set (map (view (strees m)) ps))"
    if "grown (sms m) (sms m')" "sm_addr x < next_sm (sms m')" "sm_addr y < next_sm (sms m')"
      "fresh_sm (TKey ow nm sy) s (sms m) x" "fresh_sm (TKey ow nm sy) s (sms m) y" for m' x y
  proof (rule fam_fresh [where F = ?F and h = "sms m" and s = s])
    have F: "set_mset (holders (stacks_of m)) \<subseteq> ?F" by (auto simp: holders_value)
    have "g l = Some z \<Longrightarrow> (\<exists>f \<in> set_mset (holders (stacks_of m)). f l = Some z) \<or> z = x \<or> z = y"
      if "g \<in># holders (spec_set (TKey ow nm sy) x y (stacks_of m))" for g l z
      using that by (auto simp: holders_set spec_set_def put_top_def map_top_def split: if_splits dest!: top_map_Some in_butlast)
    then show "\<forall>g \<in> set_mset (holders (spec_set (TKey ow nm sy) x y (stacks_of m))) \<union> set (map (view (strees m)) ps).
        \<forall>l z. g l = Some z \<longrightarrow> (\<exists>f \<in> ?F. f l = Some z)
          \<or> next_sm (sms m) \<le> sm_addr z \<and> sm_addr z < next_sm (sms m') \<and> state z = s"
      using F that by (fastforce simp: fresh_sm_def)
  qed (use assms that in \<open>simp_all add: good_def\<close>)
  then have "good m' ps" if "repr m' ps (spec_set (TKey ow nm sy) x y (stacks_of m)) (map (view (strees m)) ps)"
    "control_of m' = control_of m" "grown (sms m) (sms m')" "sm_addr x < next_sm (sms m')" "sm_addr y < next_sm (sms m')"
    "fresh_sm (TKey ow nm sy) s (sms m) x" "fresh_sm (TKey ow nm sy) s (sms m) y" for m' x y
    using good_flags [OF assms that(2)] that by (intro goodI [OF that(1)]) auto
  then show ?thesis
    by (intro wp_mono [OF set_state_wp [OF good_hand [OF assms] ro True, of nm sy s]]) (auto simp: grown_def)
next
  case False
  then have "is_unreachable m" "ow \<noteq> USHRT_MAX" using null_cur [OF good_hand [OF assms]] by (auto simp: is_unreachable_def)
  then have "set_state ow (Some nm) sy (Some s) m = Some (None, m)" using assms by (simp add: set_state_def good_def)
  then show ?thesis using assms by simp
qed

lemma set_state_keeps: "keeps (\<lambda>m. map_option snd (set_state ow (Some nm) sy (Some s) m))"
  by (rule keepsI, drule set_state_good [of _ _ ow nm sy s]) (simp add: case_prod_unfold)

lemma unnullify_path_keeps: "keeps unnullify_path"
  using keepsD [OF set_state_keeps] by (intro keepsI) (simp add: unnullify_path_def)

lemma set_true_false_states_keeps: "keeps (set_true_false_states ow nm sy t f)"
proof (rule keepsI)
  fix m ps assume g: "good m ps"
  have ro: "read_only m = 0" and err: "good (sm_perror msg m) ps" for msg
    using g by (simp add: good_def, auto simp: sm_perror_def intro: good_done [OF g])
  have f: "wp (case f of None \<Rightarrow> Some n | Some s \<Rightarrow> do {
      (stack, x, h, st) \<leftarrow> set_state_stree_stack (sms n) (strees n) (cond_false_stack n) ow nm sy s;
      Some (n\<lparr>cond_false_stack := stack, sms := h, strees := st\<rparr>) }) (\<lambda>m'. good m' ps)" if "good n ps" for n nm
    using cond_false_st.good_set_top [OF that, where Q = "\<lambda>(stack, x, h, st). good (n\<lparr>cond_false_stack := stack, sms := h, strees := st\<rparr>) ps"] that
    by (cases f) (simp_all add: case_prod_unfold)
  have t: "wp (case t of None \<Rightarrow> Some m | Some s \<Rightarrow> do {
      (stack, x, h, st) \<leftarrow> set_state_stree_stack (sms m) (strees m) (cond_true_stack m) ow nm sy s;
      Some (m\<lparr>cond_true_stack := stack, sms := h, strees := st\<rparr>) }) (\<lambda>m'. good m' ps)" for nm
    using cond_true_st.good_set_top [OF g, where Q = "\<lambda>(stack, x, h, st). good (m\<lparr>cond_true_stack := stack, sms := h, strees := st\<rparr>) ps"] g
    by (cases t) (simp_all add: case_prod_unfold)
  show "wp (set_true_false_states ow nm sy t f m) (\<lambda>m'. good m' ps)"
    using g err ro wp_mono [OF t f] by (simp add: set_true_false_states_def Let_def split: option.split)
qed

lemma good_insert_cur:
  assumes "good m ps" "known m ps x" "\<And>q st. good (m\<lparr>strees := st, cur_stree := q\<rparr>) ps \<Longrightarrow> Q (q, m\<lparr>strees := st\<rparr>)"
  shows "wp (insert_tree (cur_stree m) x m) Q"
proof -
  let ?m = "m\<lparr>cur_stree := None\<rparr>"
  have "set_mset (hand m ps) \<subseteq> set_mset (hand ?m (cur_stree m # ps))" by (auto simp: holders_def)
  then have k: "known ?m (cur_stree m # ps) x" using assms(2) by (auto simp: known_def simp del: set_mset_union)
  have eq: "?m\<lparr>strees := st, cur_stree := q\<rparr> = m\<lparr>strees := st, cur_stree := q\<rparr>" for st q by (rule machine.equality) simp_all
  have "wp (insert_tree (cur_stree m) x ?m) (\<lambda>(q, m'). Q (q, m\<lparr>strees := strees m'\<rparr>))"
  proof (rule good_insert [OF good_take_cur [OF assms(1)] k])
    fix q st assume "good (?m\<lparr>strees := st\<rparr>) (q # ps)"
    from good_put_cur [OF this] assms(3) [where q = q and st = st] show "case (q, ?m\<lparr>strees := st\<rparr>) of (q, m') \<Rightarrow> Q (q, m\<lparr>strees := strees m'\<rparr>)"
      by (simp add: eq)
  qed
  then show ?thesis by (simp add: insert_tree_def case_prod_unfold)
qed

section \<open>States of a tree in hand\<close>

text \<open>The maps of the locals are kept as well.\<close>

definition kept :: "machine \<Rightarrow> nat option list \<Rightarrow> smap list \<Rightarrow> bool" where
  "kept m ps vs \<longleftrightarrow> good m ps \<and> map (view (strees m)) ps = vs"

lemma kept_repr: "kept m ps vs \<Longrightarrow> repr m ps (stacks_of m) vs"
  using good_hand by (auto simp: kept_def)

lemma kept_step:
  assumes "kept m ps vs" "repr m' ps S' vs" "same_rest m m'" "picks (set_mset (holders (stacks_of m)) \<union> set vs) (set_mset (holders S'))"
  shows "kept m' ps vs"
proof -
  have g: "good m ps" and vs: "vs = map (view (strees m)) ps" using assms(1) by (auto simp: kept_def)
  have "picks (view (strees m) ` set_mset (hand m ps)) (set_mset (holders S') \<union> set vs)"
    using assms(4) by (fastforce simp: picks_def holders_value vs)
  moreover have "fam (sms m') (view (strees m) ` set_mset (hand m ps))" using g assms(3) by (simp add: good_def same_rest_def)
  ultimately have "fam (sms m') (set_mset (holders S') \<union> set vs)" using fam_picks by blast
  then have "good m' ps"
    using g assms(3) by (intro goodI [OF assms(2)]) (auto simp: good_def same_rest_def control_of_def)
  then show ?thesis using assms(2) by (simp add: kept_def repr_def)
qed

lemma kept_set_sm:
  assumes "kept m ps vs" "v \<in> set vs" "v (key x) = Some x"
  shows "wp (set_sm x m) (\<lambda>m'. kept m' ps vs)"
proof -
  have "read_only m = 0" using assms(1) by (simp add: kept_def good_def)
  note w = set_sm_wp [OF kept_repr [OF assms(1)] this, of x]
  have "picks (set_mset (holders S) \<union> set vs) (set_mset (holders (if cur_stree S = Map.empty then S else spec_set (key x) x x S)))" for S
    using assms(2,3) by (auto simp: picks_def holders_set spec_set_def put_top_def map_top_def split: if_splits dest!: top_map_Some in_butlast)
  then show ?thesis by (intro wp_mono [OF w]) (auto intro: kept_step [OF assms(1)])
qed

lemma kept_set_conds:
  assumes "kept m ps vs" "v \<in> set vs" "v (key x) = Some x"
  shows "wp (set_true_false_sm (Some x) (Some x) m) (\<lambda>m'. kept m' ps vs)"
proof -
  note r = kept_repr [OF assms(1)]
  have err: "kept (sm_perror msg m) ps vs" for msg
    using assms(1) by (auto simp: kept_def sm_perror_def elim: good_done)
  have p: "picks (set_mset (holders S) \<union> set vs) (set_mset (holders (S\<lparr>cond_true_stack := map_top (\<lambda>f. f(key x \<mapsto> x)) (cond_true_stack S),
      cond_false_stack := map_top (\<lambda>f. f(key x \<mapsto> x)) (cond_false_stack S)\<rparr>)))" for S
    using assms(2,3) by (auto simp: picks_def holders_set map_top_def split: if_splits dest!: top_map_Some in_butlast)
  have "wp (overwrite_sm_state_stree_stack (strees m) (cond_true_stack m) x) (\<lambda>(stack, st).
      wp (overwrite_sm_state_stree_stack st (cond_false_stack m) x) (\<lambda>(stack', st').
        kept (m\<lparr>cond_true_stack := stack, cond_false_stack := stack', strees := st'\<rparr>) ps vs))"
  proof (rule cond_true_st.overwrite_top_wp [OF r])
    fix stack st assume 1: "repr (m\<lparr>cond_true_stack := stack\<rparr>\<lparr>strees := st\<rparr>) ps
      (stacks_of m\<lparr>cond_true_stack := map_top (\<lambda>f. f(key x \<mapsto> x)) (cond_true_stack (stacks_of m))\<rparr>) vs"
    let ?m1 = "m\<lparr>cond_true_stack := stack\<rparr>\<lparr>strees := st\<rparr>"
    have "wp (overwrite_sm_state_stree_stack (strees ?m1) (cond_false_stack ?m1) x) (\<lambda>(stack', st').
        kept (m\<lparr>cond_true_stack := stack, cond_false_stack := stack', strees := st'\<rparr>) ps vs)"
    proof (rule cond_false_st.overwrite_top_wp [OF 1])
      fix stack' st' assume 2: "repr (?m1\<lparr>cond_false_stack := stack'\<rparr>\<lparr>strees := st'\<rparr>) ps
        (stacks_of m\<lparr>cond_true_stack := map_top (\<lambda>f. f(key x \<mapsto> x)) (cond_true_stack (stacks_of m)),
          cond_false_stack := map_top (\<lambda>f. f(key x \<mapsto> x)) (cond_false_stack (stacks_of m\<lparr>cond_true_stack :=
            map_top (\<lambda>f. f(key x \<mapsto> x)) (cond_true_stack (stacks_of m))\<rparr>))\<rparr>) vs"
      have eq: "?m1\<lparr>cond_false_stack := stack'\<rparr>\<lparr>strees := st'\<rparr> = m\<lparr>cond_true_stack := stack, cond_false_stack := stack', strees := st'\<rparr>"
        by (rule machine.equality) simp_all
      show "case (stack', st') of (stack', st') \<Rightarrow> kept (m\<lparr>cond_true_stack := stack, cond_false_stack := stack', strees := st'\<rparr>) ps vs"
        using kept_step [OF assms(1) 2] p [of "stacks_of m"] by (simp add: eq same_rest_def control_of_def)
    qed
    then show "case (stack, st) of (stack, st) \<Rightarrow> wp (overwrite_sm_state_stree_stack st (cond_false_stack m) x) (\<lambda>(stack', st').
        kept (m\<lparr>cond_true_stack := stack, cond_false_stack := stack', strees := st'\<rparr>) ps vs)" by simp
  qed
  then show ?thesis using assms(1) err by (simp add: set_true_false_sm_def case_prod_unfold)
qed

lemma fold_in_loop_kept:
  "kept m ps vs \<Longrightarrow> v \<in> set vs \<Longrightarrow> \<forall>x \<in> set xs. v (key x) = Some x \<Longrightarrow> wp (fold_in_loop xs m) (\<lambda>m'. kept m' ps vs)"
proof (induction xs arbitrary: m)
  case (Cons x xs)
  then have "wp (set_sm x m) (\<lambda>m1. wp (set_true_false_sm (Some x) (Some x) m1) (\<lambda>m2. wp (fold_in_loop xs m2) (\<lambda>m'. kept m' ps vs)))"
    by (intro wp_mono [OF kept_set_sm [OF Cons.prems(1,2)]] wp_mono [OF kept_set_conds [OF _ Cons.prems(2)]] Cons.IH) auto
  then show ?case by simp
qed simp

lemma fold_in_set_states_keeps: "keeps fold_in_set_states"
proof (rule keepsI)
  fix m ps assume g: "good m ps"
  have "wp (states_of (strees m1) p) (\<lambda>xs. wp (fold_in_loop xs m1) (\<lambda>m2. wp (free_tree p m2) (\<lambda>m'. good m' ps)))"
    if 1: "good m1 (p # ps)" for p m1
  proof (rule good_states [OF 1])
    fix xs assume xs: "\<forall>x \<in> set xs. view (strees m1) p (key x) = Some x"
    have "kept m1 (p # ps) (view (strees m1) p # map (view (strees m1)) ps)" using 1 by (simp add: kept_def)
    from fold_in_loop_kept [OF this _ xs] show "wp (fold_in_loop xs m1) (\<lambda>m2. wp (free_tree p m2) (\<lambda>m'. good m' ps))"
      by (auto simp: kept_def elim!: wp_mono good_free)
  qed simp
  then have "wp (pop_fake_cur_stree m) (\<lambda>(p, m1). wp (states_of (strees m1) p) (\<lambda>xs. wp (fold_in_loop xs m1)
      (\<lambda>m2. wp (free_tree p m2) (\<lambda>m'. good m' ps))))"
    by (intro wp_mono [OF pop_fake_good [OF g]]) auto
  then show "wp (fold_in_set_states m) (\<lambda>m'. good m' ps)" by (simp add: fold_in_set_states_def case_prod_unfold)
qed

section \<open>Breaks\<close>

lemma overwrite_fake_top_good:
  assumes "good m (p # ps)"
  shows "wp (overwrite_fake_top p m) (\<lambda>m'. good m' ps)"
proof -
  have "wp (overwrite_top (strees m) (fake_cur_stree_stack m) xs) (\<lambda>(stack, st).
      wp (free_tree p (m\<lparr>fake_cur_stree_stack := stack, strees := st\<rparr>)) (\<lambda>m'. good m' ps))"
    if "\<forall>x \<in> set xs. view (strees m) p (key x) = Some x" for xs
    by (rule fake_st.good_overwrite_tops [OF assms]) (use that knownI [of p m "p # ps"] in \<open>auto elim!: good_free\<close>)
  then have "wp (states_of (strees m) p) (\<lambda>xs. wp (overwrite_top (strees m) (fake_cur_stree_stack m) xs) (\<lambda>(stack, st).
      wp (free_tree p (m\<lparr>fake_cur_stree_stack := stack, strees := st\<rparr>)) (\<lambda>m'. good m' ps)))"
    by (intro good_states [OF assms]) simp_all
  then show ?thesis by (simp add: overwrite_fake_top_def case_prod_unfold)
qed

lemma merge_breaks_keeps:
  assumes "env_ok E"
  shows "keeps (merge_breaks E)"
proof (rule keepsI)
  fix m ps assume g: "good m ps"
  let ?Q = "\<lambda>m. (fake_cur_stree_stack m = [] \<longrightarrow> good m ps) \<and> (fake_cur_stree_stack m \<noteq> [] \<longrightarrow>
    wp (update_stree_with_merged (top_stree (fake_break_stack m)) (m\<lparr>fake_break_stack := butlast (fake_break_stack m)\<rparr>))
      (\<lambda>(p, m). wp (overwrite_fake_top p m) (\<lambda>m'. good m' ps)))"
  have Q: "?Q n" if "good n ps" for n
    using that update_stree_with_merged_good [OF fake_break_st.good_pop [OF that]] overwrite_fake_top_good by simp
  have "wp (merge_into_cur E (top_stree (break_stack m)) (m\<lparr>break_stack := butlast (break_stack m)\<rparr>))
      (\<lambda>m1. wp (free_tree (top_stree (break_stack m)) m1) ?Q)"
    by (rule wp_mono [OF break_st.good_merge_top [OF g assms]], erule good_free, rule Q)
  then show "wp (merge_breaks E m) (\<lambda>m'. good m' ps)"
    by (auto simp: merge_breaks_def pop_stree_def Let_def case_prod_unfold elim!: wp_mono)
qed

lemma use_breaks_keeps: "keeps use_breaks"
proof (rule keepsI)
  fix m ps assume g: "good m ps"
  have q: "wp (overwrite_fake_top (top_stree (fake_break_stack n)) (n\<lparr>fake_break_stack := butlast (fake_break_stack n)\<rparr>)) (\<lambda>m'. good m' ps)"
    if "good n ps" for n using overwrite_fake_top_good [OF fake_break_st.good_pop [OF that]] .
  have "good (n\<lparr>cur_stree := top_stree (break_stack n), break_stack := butlast (break_stack n)\<rparr>) ps"
    if n: "good n ps" "cur_stree n = None" for n
    using good_put_cur [OF break_st.good_pop [OF n(1)]] n(2) by (auto elim!: good_done)
  then have Q: "(if fake_cur_stree_stack n = [] then Some (n\<lparr>cur_stree := top_stree (break_stack n), break_stack := butlast (break_stack n)\<rparr>)
      else overwrite_fake_top (top_stree (fake_break_stack n)) (n\<lparr>cur_stree := top_stree (break_stack n),
        break_stack := butlast (break_stack n), fake_break_stack := butlast (fake_break_stack n)\<rparr>)) = r \<Longrightarrow> wp r (\<lambda>m'. good m' ps)"
    if "good n ps" "cur_stree n = None" for n r
    using that q [of "n\<lparr>cur_stree := top_stree (break_stack n), break_stack := butlast (break_stack n)\<rparr>"] by auto
  have "wp (free_cur_stree m) (\<lambda>n. good n ps \<and> cur_stree n = None)" by (rule good_free_cur [OF g]) simp
  then show "wp (use_breaks m) (\<lambda>m'. good m' ps)"
    unfolding use_breaks_def wp_simps by (rule wp_mono) (auto intro!: Q simp: pop_stree_def)
qed

section \<open>Switches\<close>

lemma save_switch_states_keeps: "keeps (save_switch_states rl)"
proof (rule keepsI)
  fix m ps assume g: "good m ps"
  let ?m = "m\<lparr>remaining_cases := push_rl (remaining_cases m) rl\<rparr>"
  have "good ?m ps" by (rule good_done [OF g]) simp_all
  then have "wp (clone_tree (cur_stree ?m) ?m) (\<lambda>(p, n). good (n\<lparr>switch_stack := switch_stack n @ [p]\<rparr>) ps)"
    by (rule good_clone) (use cur_hand [of ?m] in simp, drule switch_st.good_push, simp)
  then show "wp (save_switch_states rl m) (\<lambda>m'. good m' ps)" by (simp add: save_switch_states_def Let_def case_prod_unfold)
qed

lemma discard_switches_keeps: "keeps discard_switches"
proof (rule keepsI)
  fix m ps assume g: "good m ps"
  have "good (m\<lparr>remaining_cases := snd (pop_rl (remaining_cases m))\<rparr>) ps" by (rule good_done [OF g]) simp_all
  from good_free [OF switch_st.good_pop [OF this]] show "wp (discard_switches m) (\<lambda>m'. good m' ps)"
    by (simp add: discard_switches_def Let_def pop_stree_def)
qed

lemma push_default_keeps: "keeps (\<lambda>m. Some (push_default m))"
  by (rule keepsI, drule good_null, drule default_st.good_push) (simp add: push_default_def)

lemma set_default_keeps: "keeps set_default"
  by (rule keepsI, drule default_st.good_set_top [where Q = "\<lambda>(stack, x, h, st). good (n\<lparr>default_stack := stack, sms := h, strees := st\<rparr>) ps" for n ps])
    (auto simp: set_default_def case_prod_unfold)

lemma pop_default_keeps: "keeps (\<lambda>m. map_option snd (pop_default m))"
proof (rule keepsI)
  fix m ps assume g: "good m ps"
  note p = default_st.good_pop [OF g]
  have "wp (free_tree (top_stree (default_stack m)) (m\<lparr>default_stack := butlast (default_stack m)\<rparr>)) (\<lambda>m'. good m' ps)"
    by (rule good_free [OF p]) simp
  then show "wp (map_option snd (pop_default m)) (\<lambda>m'. good m' ps)"
    using good_drop [OF p] by (simp add: pop_default_def pop_stree_def Let_def)
qed

section \<open>Deleting states\<close>

lemma good_cur_op:
  assumes "good m ps" "\<And>q st. good (m\<lparr>strees := st, cur_stree := q\<rparr>) ps \<Longrightarrow> Q (q, m\<lparr>strees := st\<rparr>)"
  shows "wp (delete_tree (cur_stree m) ow nm sy m) Q"
proof -
  let ?m = "m\<lparr>cur_stree := None\<rparr>"
  have eq: "?m\<lparr>strees := st, cur_stree := q\<rparr> = m\<lparr>strees := st, cur_stree := q\<rparr>" for st q by (rule machine.equality) simp_all
  have "wp (delete_tree (cur_stree m) ow nm sy ?m) (\<lambda>(q, m'). Q (q, m\<lparr>strees := strees m'\<rparr>))"
  proof (rule good_delete [OF good_take_cur [OF assms(1)]])
    fix q st assume "good (?m\<lparr>strees := st\<rparr>) (q # ps)"
    from good_put_cur [OF this] assms(2) [where q = q and st = st] show "case (q, ?m\<lparr>strees := st\<rparr>) of (q, m') \<Rightarrow> Q (q, m\<lparr>strees := strees m'\<rparr>)"
      by (simp add: eq)
  qed
  then show ?thesis by (simp add: delete_tree_def case_prod_unfold)
qed

lemma delete_state_keeps: "keeps (delete_state ow nm sy)"
proof (rule keepsI)
  fix m ps assume g: "good m ps"
  have 3: "wp (delete_stack (cond_false_stack n) ow nm sy n) (\<lambda>(s, n). good (n\<lparr>cond_false_stack := s\<rparr>) ps)" if "good n ps" for n
    by (rule cond_false_st.good_delete_top [OF that]) (auto elim!: good_done)
  have 2: "wp (delete_stack (cond_true_stack n) ow nm sy n) (\<lambda>(s, n). good (n\<lparr>cond_true_stack := s\<rparr>) ps)" if "good n ps" for n
    by (rule cond_true_st.good_delete_top [OF that]) (auto elim!: good_done)
  have 1: "wp (delete_stack (pre_cond_stack n) ow nm sy n) (\<lambda>(s, n). good (n\<lparr>pre_cond_stack := s\<rparr>) ps)" if "good n ps" for n
    by (rule pre_cond_st.good_delete_top [OF that]) (auto elim!: good_done)
  have d: "wp (delete_tree (cur_stree m) ow nm sy m) (\<lambda>(q, n). good (n\<lparr>cur_stree := q\<rparr>) ps)"
    by (rule good_cur_op [OF g]) simp
  show "wp (delete_state ow nm sy m) (\<lambda>m'. good m' ps)"
    unfolding delete_state_def wp_simps Let_def case_prod_unfold
    apply (rule wp_mono [OF d])
    apply (simp add: case_prod_unfold)
    apply (intro impI)
    apply (drule 1, simp add: case_prod_unfold)
    apply (erule wp_mono, drule 2, simp add: case_prod_unfold)
    apply (erule wp_mono, drule 3, simp add: case_prod_unfold)
    done
qed

lemma delete_each_good:
  "good m (p # ps) \<Longrightarrow> wp (delete_each p xs m) (\<lambda>(q, m'). good m' (q # ps) \<and> (\<exists>st. m' = m\<lparr>strees := st\<rparr>))"
proof (induction xs arbitrary: p m)
  case Nil
  then show ?case by (auto intro: exI [of _ "strees m"])
next
  case (Cons x xs)
  have "wp (delete_tree p (owner x) (name x) (sym x) m) (\<lambda>(q, m1). wp (delete_each q xs m1)
      (\<lambda>(q, m'). good m' (q # ps) \<and> (\<exists>st. m' = m\<lparr>strees := st\<rparr>)))"
  proof (rule good_delete [OF Cons.prems])
    fix q st assume "good (m\<lparr>strees := st\<rparr>) (q # ps)"
    from Cons.IH [OF this] show "case (q, m\<lparr>strees := st\<rparr>) of (q, m1) \<Rightarrow> wp (delete_each q xs m1)
      (\<lambda>(q, m'). good m' (q # ps) \<and> (\<exists>st. m' = m\<lparr>strees := st\<rparr>))" by simp
  qed
  then show ?case by (simp add: case_prod_unfold)
qed

lemma delete_sym_good:
  assumes "good m (p # ps)" "\<And>q st. good (m\<lparr>strees := st\<rparr>) (q # ps) \<Longrightarrow> Q (q, m\<lparr>strees := st\<rparr>)"
  shows "wp (delete_all_states_stree_sym E sy p m) Q"
proof -
  have "wp (delete_each p xs m) Q" for xs
    by (rule wp_mono [OF delete_each_good [OF assms(1)]]) (use assms(2) in auto)
  then have "wp (states_of (strees m) p) (\<lambda>xs. wp (delete_each p (filter (\<lambda>x. sym x = sy \<and> \<not> keep_out_of_scope E (owner x)) xs) m) Q)"
    by (intro good_states [OF assms(1)]) simp_all
  then show ?thesis by (simp add: delete_all_states_stree_sym_def)
qed

lemma delete_each_store:
  "strees m1 = strees m \<Longrightarrow>
    delete_each p xs m = map_option (\<lambda>(q, m'). (q, m\<lparr>strees := strees m'\<rparr>)) (delete_each p xs m1)"
proof (induction xs arbitrary: p m m1)
  case (Cons x xs)
  have "delete_each q xs (m\<lparr>strees := st\<rparr>) =
      map_option (\<lambda>(q, m'). (q, m\<lparr>strees := strees m'\<rparr>)) (delete_each q xs (m1\<lparr>strees := st\<rparr>))" for q st
    using Cons.IH [of "m1\<lparr>strees := st\<rparr>" "m\<lparr>strees := st\<rparr>"] by simp
  then show ?case
    using Cons.prems by (cases "delete_state_stree (strees m) p (owner x) (name x) (sym x)") (auto simp: delete_tree_def)
qed simp

lemma delete_sym_store:
  assumes "strees m1 = strees m"
  shows "delete_all_states_stree_sym E sy p m =
    map_option (\<lambda>(q, m'). (q, m\<lparr>strees := strees m'\<rparr>)) (delete_all_states_stree_sym E sy p m1)"
proof (cases "states_of (strees m) p")
  case (Some xs)
  have "delete_each p (filter (\<lambda>x. sym x = sy \<and> \<not> keep_out_of_scope E (owner x)) xs) m =
    map_option (\<lambda>(q, m'). (q, m\<lparr>strees := strees m'\<rparr>))
      (delete_each p (filter (\<lambda>x. sym x = sy \<and> \<not> keep_out_of_scope E (owner x)) xs) m1)"
    by (rule delete_each_store [OF assms])
  then show ?thesis using Some assms by (simp add: delete_all_states_stree_sym_def)
qed (simp add: delete_all_states_stree_sym_def assms)

context stack_field
begin

lemma good_delete_sym_top:
  assumes "good m ps" "\<And>stack st. good ((upd stack m)\<lparr>strees := st\<rparr>) ps \<Longrightarrow> Q (stack, m\<lparr>strees := st\<rparr>)"
  shows "wp (delete_all_states_stree_stack_sym E sy (get m) m) Q"
proof (cases "get m = []")
  case True
  then have "good ((upd [] m)\<lparr>strees := strees m\<rparr>) ps" using assms(1) upd_get [of m] by simp
  from assms(2) [OF this] True show ?thesis by (simp add: delete_all_states_stree_stack_sym_def)
next
  case False
  let ?m = "upd (butlast (get m)) m"
  have "wp (delete_all_states_stree_sym E sy (top_stree (get m)) ?m) (\<lambda>(q, m'). Q (butlast (get m) @ [q], m\<lparr>strees := strees m'\<rparr>))"
    by (rule delete_sym_good [OF good_pop [OF assms(1)]]) (auto intro!: assms(2) good_push_popped)
  then show ?thesis
    using False delete_sym_store [of ?m m E sy "top_stree (get m)"] strees_upd [of "butlast (get m)" m]
    by (simp add: delete_all_states_stree_stack_sym_def pop_stree_def case_prod_unfold)
qed

end

lemma delete_all_states_sym_keeps: "keeps (delete_all_states_sym E sy)"
proof (rule keepsI)
  fix m ps assume g: "good m ps"
  let ?del = "delete_all_states_stree_stack_sym E sy"
  have eq: "m\<lparr>cur_stree := None\<rparr>\<lparr>strees := st, cur_stree := q\<rparr> = m\<lparr>strees := st, cur_stree := q\<rparr>" for st q
    by (rule machine.equality) simp_all
  have "wp (delete_all_states_stree_sym E sy (cur_stree m) (m\<lparr>cur_stree := None\<rparr>)) (\<lambda>(q, n). good (m\<lparr>strees := strees n, cur_stree := q\<rparr>) ps)"
    by (rule delete_sym_good [OF good_take_cur [OF g]], drule good_put_cur) (simp_all add: eq)
  then have 0: "wp (delete_all_states_stree_sym E sy (cur_stree m) m) (\<lambda>p. good (snd p\<lparr>cur_stree := fst p\<rparr>) ps)"
    using delete_sym_store [of "m\<lparr>cur_stree := None\<rparr>" m E sy "cur_stree m"] by (simp add: case_prod_unfold)
  have t: "wp (?del (true_stack n) n) (\<lambda>p. good (snd p\<lparr>true_stack := fst p\<rparr>) ps)" if "good n ps" for n
    by (rule true_st.good_delete_sym_top [OF that]) (auto elim!: good_done)
  have f: "wp (?del (false_stack n) n) (\<lambda>p. good (snd p\<lparr>false_stack := fst p\<rparr>) ps)" if "good n ps" for n
    by (rule false_st.good_delete_sym_top [OF that]) (auto elim!: good_done)
  have pc: "wp (?del (pre_cond_stack n) n) (\<lambda>p. good (snd p\<lparr>pre_cond_stack := fst p\<rparr>) ps)" if "good n ps" for n
    by (rule pre_cond_st.good_delete_sym_top [OF that]) (auto elim!: good_done)
  have ct: "wp (?del (cond_true_stack n) n) (\<lambda>p. good (snd p\<lparr>cond_true_stack := fst p\<rparr>) ps)" if "good n ps" for n
    by (rule cond_true_st.good_delete_sym_top [OF that]) (auto elim!: good_done)
  have cf: "wp (?del (cond_false_stack n) n) (\<lambda>p. good (snd p\<lparr>cond_false_stack := fst p\<rparr>) ps)" if "good n ps" for n
    by (rule cond_false_st.good_delete_sym_top [OF that]) (auto elim!: good_done)
  have fk: "wp (?del (fake_cur_stree_stack n) n) (\<lambda>p. good (snd p\<lparr>fake_cur_stree_stack := fst p\<rparr>) ps)" if "good n ps" for n
    by (rule fake_st.good_delete_sym_top [OF that]) (auto elim!: good_done)
  have b: "wp (?del (break_stack n) n) (\<lambda>p. good (snd p\<lparr>break_stack := fst p\<rparr>) ps)" if "good n ps" for n
    by (rule break_st.good_delete_sym_top [OF that]) (auto elim!: good_done)
  have fb: "wp (?del (fake_break_stack n) n) (\<lambda>p. good (snd p\<lparr>fake_break_stack := fst p\<rparr>) ps)" if "good n ps" for n
    by (rule fake_break_st.good_delete_sym_top [OF that]) (auto elim!: good_done)
  have sw: "wp (?del (switch_stack n) n) (\<lambda>p. good (snd p\<lparr>switch_stack := fst p\<rparr>) ps)" if "good n ps" for n
    by (rule switch_st.good_delete_sym_top [OF that]) (auto elim!: good_done)
  have c: "wp (?del (continue_stack n) n) (\<lambda>p. good (snd p\<lparr>continue_stack := fst p\<rparr>) ps)" if "good n ps" for n
    by (rule continue_st.good_delete_sym_top [OF that]) (auto elim!: good_done)
  show "wp (delete_all_states_sym E sy m) (\<lambda>m'. good m' ps)"
    unfolding delete_all_states_sym_def Let_def wp_simps case_prod_unfold
    by (rule wp_mono [OF 0], (erule wp_mono [OF t] wp_mono [OF f] wp_mono [OF pc] wp_mono [OF ct] wp_mono [OF cf] wp_mono [OF fk]
      wp_mono [OF b] wp_mono [OF fb] wp_mono [OF sw] wp_mono [OF c])+)
qed

end
