(* ===== verification/Safe_Runs.thy ===== *)
theory Safe_Runs
  imports Safe_Operations State_Ops
begin

text \<open>
  The operations that combine condition stacks, the gotos and the end of a function, and then all
  operations together: whatever sequence of operations the flow engine calls, none of them fails.
\<close>

section \<open>Combining conditions\<close>

lemma and_cond_stack_keeps: "keeps (and_cond_stack b)"
proof (rule keepsI)
  fix m ps assume g: "good m ps"
  let ?p = "top_stree (cond_stack b m)" and ?m = "set_cond_stack b (butlast (cond_stack b m)) m"
  note p = cond_st.good_pop [OF g, of b]
  have s: "strees ?m = strees m" "cond_stack b ?m = butlast (cond_stack b m)" by (simp_all add: set_cond_stack_def cond_stack_def)
  have "wp (overwrite_top (strees ?m) (cond_stack b ?m) xs) (\<lambda>(stack, st). wp (free_tree ?p ((set_cond_stack b stack m)\<lparr>strees := st\<rparr>))
      (\<lambda>m'. good m' ps))" if xs: "\<forall>x \<in> set xs. view (strees ?m) ?p (key x) = Some x" for xs
  proof (rule cond_st.good_overwrite_tops [OF p])
    show "\<forall>x \<in> set xs. known ?m (?p # ps) x" using xs knownI [of ?p ?m "?p # ps"] by simp
    fix stack st assume "good ((set_cond_stack b stack ?m)\<lparr>strees := st\<rparr>) (?p # ps)"
    moreover have "set_cond_stack b stack ?m = set_cond_stack b stack m" by (simp add: set_cond_stack_def)
    ultimately show "case (stack, st) of (stack, st) \<Rightarrow> wp (free_tree ?p ((set_cond_stack b stack m)\<lparr>strees := st\<rparr>)) (\<lambda>m'. good m' ps)"
      by (auto elim: good_free)
  qed
  then have "wp (states_of (strees m) ?p) (\<lambda>xs. wp (overwrite_top (strees m) (butlast (cond_stack b m)) xs) (\<lambda>(stack, st).
      wp (free_tree ?p ((set_cond_stack b stack m)\<lparr>strees := st\<rparr>)) (\<lambda>m'. good m' ps)))"
    using good_states [OF p, of ?p] s by simp
  then show "wp (and_cond_stack b m) (\<lambda>m'. good m' ps)"
    by (simp add: and_cond_stack_def and_stree_stack_def pop_stree_def free_tree_def case_prod_unfold)
qed

text \<open>The end of \<^verbatim>\<open>or_stree_stack\<close>, from the merge on.\<close>

lemma or_merge_good:
  assumes "env_ok E" "good m (res # tmp # pre # old # new # ps)"
  shows "wp (merge_stree E (\<lambda>m. res) tmp m) (\<lambda>(res, m). wp (filter_tree res pre m) (\<lambda>(res, m).
    wp (free_tree tmp (push_cond_stack b res m)) (\<lambda>m. wp (free_tree pre m) (\<lambda>m. wp (free_tree new m) (\<lambda>m.
    wp (free_tree old m) (\<lambda>m. good m ps))))))"
proof -
  have frees: "wp (free_tree tmp n) (\<lambda>n. wp (free_tree pre n) (\<lambda>n. wp (free_tree new n) (\<lambda>n. wp (free_tree old n) (\<lambda>n. good n ps))))"
    if "good n (tmp # pre # old # new # ps)" for n
    by (rule good_free [OF that], erule good_free, drule good_swap2, erule good_free, erule good_free)
  have push: "good (push_cond_stack b res n) (tmp # pre # old # new # ps)" if "good n (res # tmp # pre # old # new # ps)" for n res
    using cond_st.good_push [OF that, of b] by (simp add: push_cond_stack_def)
  show ?thesis
    unfolding merge_stree_def
    by (rule good_merge [OF assms(2) _ assms(1)], simp, simp only: prod.case, erule good_filter, simp, simp only: prod.case,
        drule push, erule frees)
qed

lemma or_cond_stack_keeps:
  assumes "env_ok E"
  shows "keeps (or_cond_stack E b)"
proof (rule keepsI)
  fix m ps assume g: "good m ps"
  let ?E = "\<lambda>tmp pre new old (res, m). wp (filter_tree res pre m) (\<lambda>(res, m).
    wp (free_tree tmp (push_cond_stack b res m)) (\<lambda>m. wp (free_tree pre m) (\<lambda>m. wp (free_tree new m) (\<lambda>m.
    wp (free_tree old m) (\<lambda>m. good m ps)))))"
  have both: "wp (clone_tree pre n) (\<lambda>(res, n). wp (overwrite_tree old res n) (\<lambda>(res, n). wp (clone_tree (cur_stree n) n) (\<lambda>(tmp, n).
      wp (overwrite_tree new tmp n) (\<lambda>(tmp, n). wp (merge_stree E (\<lambda>m. res) tmp n) (?E tmp pre new old)))))"
    if n: "good n (pre # old # new # ps)" for n pre old new
    by (rule good_clone [OF n], simp, simp only: prod.case, erule good_overwrite, simp, simp only: prod.case,
        erule good_clone, simp, simp only: prod.case, erule good_overwrite, simp, simp only: prod.case,
        rule or_merge_good [OF assms], erule good_swap2)
  let ?new = "top_stree (cond_stack b m)"
  define m1 where "m1 = set_cond_stack b (butlast (cond_stack b m)) m"
  let ?old = "top_stree (cond_stack b m1)"
  define m2 where "m2 = set_cond_stack b (butlast (cond_stack b m1)) m1"
  let ?pre = "top_stree (pre_cond_stack m2)"
  have "good m2 (?old # ?new # ps)"
    unfolding m2_def m1_def by (rule cond_st.good_pop, rule cond_st.good_pop, rule g)
  note p = pre_cond_st.good_pop [OF this]
  have "wp (clone_tree ?pre (m2\<lparr>pre_cond_stack := butlast (pre_cond_stack m2)\<rparr>)) (\<lambda>(p, n).
      good (n\<lparr>pre_cond_stack := push_stree (pre_cond_stack n) p\<rparr>) (?pre # ?old # ?new # ps))"
    by (rule good_clone [OF p], simp, simp only: prod.case push_stree_def, erule pre_cond_st.good_push)
  then have "wp (clone_tree ?pre (m2\<lparr>pre_cond_stack := butlast (pre_cond_stack m2)\<rparr>)) (\<lambda>(p, n).
      wp (clone_tree ?pre (n\<lparr>pre_cond_stack := push_stree (pre_cond_stack n) p\<rparr>)) (\<lambda>(res, n). wp (overwrite_tree ?old res n) (\<lambda>(res, n).
      wp (clone_tree (cur_stree n) n) (\<lambda>(tmp, n). wp (overwrite_tree ?new tmp n) (\<lambda>(tmp, n).
      wp (merge_stree E (\<lambda>m. res) tmp n) (?E tmp ?pre ?new ?old))))))"
    by (rule wp_mono) (use both in blast)
  then show "wp (or_cond_stack E b m) (\<lambda>m'. good m' ps)"
    by (simp add: or_cond_stack_def pop_cond_stack_def pop_stree_def case_prod_unfold Let_def flip: m1_def m2_def)
qed

lemma and_cond_states_keeps: "env_ok E \<Longrightarrow> keeps (and_cond_states E)"
  using keeps_bind [OF and_cond_stack_keeps or_cond_stack_keeps] by (simp add: and_cond_states_def [abs_def])

lemma or_cond_states_keeps: "env_ok E \<Longrightarrow> keeps (or_cond_states E)"
  using keeps_bind [OF or_cond_stack_keeps and_cond_stack_keeps] by (simp add: or_cond_states_def [abs_def])

section \<open>Gotos\<close>

abbreviation set_goto :: "nat \<Rightarrow> nat option \<Rightarrow> machine \<Rightarrow> machine" where
  "set_goto i p m \<equiv> m\<lparr>goto_stack := (goto_stack m)[i := map_named_stree (\<lambda>_. p) (goto_stack m ! i)]\<rparr>"

lemma hand_goto:
  assumes "i < length (goto_stack m)"
  shows "hand (set_goto i p m) (ns_stree (goto_stack m ! i) # ps) = hand m (p # ps)"
proof -
  let ?g = "goto_stack m ! i"
  have "mset (map ns_stree ((goto_stack m)[i := map_named_stree (\<lambda>_. p) ?g]))
      = add_mset p (mset (map ns_stree (goto_stack m)) - {#ns_stree ?g#})"
    using mset_update [of i "map ns_stree (goto_stack m)" p] assms by (simp add: map_update map_named del: mset_map)
  moreover have "ns_stree ?g \<in># mset (map ns_stree (goto_stack m))" using assms by simp
  ultimately have "add_mset (ns_stree ?g) (mset (map ns_stree ((goto_stack m)[i := map_named_stree (\<lambda>_. p) ?g])))
      = add_mset p (mset (map ns_stree (goto_stack m)))"
    using insert_DiffM [of "ns_stree ?g" "mset (map ns_stree (goto_stack m))"] by (simp add: add_mset_commute del: mset_map)
  then show ?thesis by (simp add: holders_def)
qed

lemma good_swap_goto:
  assumes "good m (p # ps)" "i < length (goto_stack m)"
  shows "good (set_goto i p m) (ns_stree (goto_stack m ! i) # ps)"
  by (rule good_same_hand [OF assms(1) hand_goto [OF assms(2)]]) (simp_all add: control_of_def)

lemma good_join:
  assumes "good m ps" "p \<in># hand m ps" "q \<in># hand m ps" "p \<noteq> None" "q \<noteq> None" "env_ok E"
  shows "wp (join_strees E add_pool p q m) (\<lambda>(r, m'). good m' (r # ps) \<and> length (goto_stack m') = length (goto_stack m))"
proof -
  let ?F = "view (strees m) ` set_mset (hand m ps)"
  have h: "held (strees m) (hand m ps)" and F: "fam (sms m) ?F" using assms(1) by (simp_all add: good_def)
  have "view (strees m) p \<noteq> Map.empty" "view (strees m) q \<noteq> Map.empty"
    using held_null_iff [OF h assms(2)] held_null_iff [OF h assms(3)] assms(4,5) by auto
  note w = join_strees_wp [OF good_hand [OF assms(1)] assms(2,3) good_ready [OF assms(1,6)] F _ _ this, of add_pool]
  have in_F: "view (strees m) p \<in> ?F" "view (strees m) q \<in> ?F" using assms(2,3) by simp_all
  show ?thesis
  proof (rule wp_mono [OF w [OF in_F]])
    fix z assume "case z of (r', m') \<Rightarrow> \<exists>r P. repr m' (r' # ps) (stacks_of m\<lparr>all_pools := all_pools (stacks_of m) @ P\<rparr>)
        (r # map (view (strees m)) ps) \<and> joined E (view (strees m) p) (view (strees m) q) r
        \<and> fam (sms m') (insert r (set P \<union> ?F)) \<and> steady m m'"
    then obtain r' m' r P where z: "z = (r', m')" "steady m m'"
      "repr m' (r' # ps) (stacks_of m\<lparr>all_pools := all_pools (stacks_of m) @ P\<rparr>) (r # map (view (strees m)) ps)"
      "fam (sms m') (insert r (set P \<union> ?F))" by blast
    have "good m' (r' # ps)"
      by (rule good_merged [OF assms(1) z(2-4)]) (auto simp: holders_pools holders_value)
    moreover have "goto_stack (stacks_of m') = goto_stack (stacks_of m)" using z(3) by (simp add: repr_def)
    then have "length (goto_stack m') = length (goto_stack m)"
      by (metis length_map map_stacks_def stacks.select_convs(13) stacks_of_def)
    ultimately show "case z of (r, m') \<Rightarrow> good m' (r # ps) \<and> length (goto_stack m') = length (goto_stack m)" using z(1) by simp
  qed
qed

lemma get_named_stree_bound: "get_named_stree s nm sy = Some i \<Longrightarrow> i < length s"
  by (auto simp: get_named_stree_def Let_def split: if_splits)

lemma goto_merge_good: "good m ps \<Longrightarrow> good (goto_merge sy d m) ps"
  by (auto simp: goto_merge_def intro: good_done)

lemma good_merge_goto:
  assumes "good m ps" "i < length (goto_stack m)" "env_ok E" "q \<in># hand m ps"
  shows "wp (merge_stree E (\<lambda>m. ns_stree (goto_stack m ! i)) q m) (\<lambda>(p, m'). good (set_goto i p m') ps)"
proof -
  let ?p = "ns_stree (goto_stack m ! i)"
  have p: "?p \<in># hand m ps" using assms(2) by (simp add: holders_def)
  have same: "set_goto i ?p m = m" by (simp add: map_named)
  consider "oom E m \<or> q = None \<or> ?p = q" | "\<not> oom E m" "q \<noteq> None" "?p = None" | "\<not> oom E m" "q \<noteq> None" "?p \<noteq> q" "?p \<noteq> None" by blast
  then show ?thesis
  proof cases
    case 1
    then have "merge_stree E (\<lambda>m. ns_stree (goto_stack m ! i)) q m = Some (?p, m)" by (auto simp: merge_stree_def merge_stree_pools_def)
    then show ?thesis using assms(1) same by simp
  next
    case 2
    have "wp (clone_tree q m) (\<lambda>(p, m'). good (set_goto i p m') ps)"
    proof (rule good_clone [OF assms(1,4)])
      fix st assume g: "good (m\<lparr>strees := st\<rparr>) (q # ps)"
      from good_drop [OF good_swap_goto [OF g, of i]] show "case (q, m\<lparr>strees := st\<rparr>) of (p, m') \<Rightarrow> good (set_goto i p m') ps"
        using assms(2) by simp
    qed
    then show ?thesis using 2 by (auto simp: merge_stree_def merge_stree_pools_def)
  next
    case 3
    have "wp (free_tree (ns_stree (goto_stack m1 ! i)) m1) (\<lambda>m'. good (set_goto i r m') ps)"
      if g: "good m1 (r # ps)" "length (goto_stack m1) = length (goto_stack m)" for r m1
    proof -
      have i: "i < length (goto_stack m1)" using g(2) assms(2) by simp
      have eq: "(set_goto i r m1)\<lparr>strees := st\<rparr> = set_goto i r (m1\<lparr>strees := st\<rparr>)" for st by (rule machine.equality) simp_all
      have "wp (free_tree (ns_stree (goto_stack m1 ! i)) (set_goto i r m1)) (\<lambda>m'. good (set_goto i r (m1\<lparr>strees := strees m'\<rparr>)) ps)"
        by (rule good_free [OF good_swap_goto [OF g(1) i]]) (simp add: eq)
      then show ?thesis by (simp add: free_tree_def)
    qed
    then have "wp (join_strees E True ?p q m) (\<lambda>(r, m1). wp (free_tree (ns_stree (goto_stack m1 ! i)) m1) (\<lambda>m'. good (set_goto i r m') ps))"
      by (intro wp_mono [OF good_join [OF assms(1) p assms(4) 3(4,2) assms(3)]]) blast
    then show ?thesis using 3 by (auto simp: merge_stree_def merge_stree_pools_def case_prod_unfold)
  qed
qed

lemma save_gotos_keeps:
  assumes "env_ok E"
  shows "keeps (save_gotos E nm sy)"
proof (rule keepsI)
  fix m ps assume g: "good m ps"
  show "wp (save_gotos E nm sy m) (\<lambda>m'. good m' ps)"
  proof (cases "get_named_stree (goto_stack m) nm sy")
    case None
    have "wp (clone_tree (cur_stree m) m) (\<lambda>(p, n). good (n\<lparr>goto_stack := goto_stack n @ [Named_stree nm sy p]\<rparr>) ps)"
      by (rule good_clone [OF g]) (auto simp: holders_def control_of_def elim!: good_same_hand)
    then show ?thesis using None by (simp add: save_gotos_def case_prod_unfold)
  next
    case (Some i)
    let ?m = "goto_merge sy 1 m"
    have i: "i < length (goto_stack ?m)" using get_named_stree_bound [OF Some] by (simp add: goto_merge_def)
    have "wp (merge_stree E (\<lambda>m. ns_stree (goto_stack m ! i)) (cur_stree ?m) ?m) (\<lambda>(p, m'). good (goto_merge sy (-1) (set_goto i p m')) ps)"
      by (rule wp_mono [OF good_merge_goto [OF goto_merge_good [OF g] i assms]]) (use cur_hand [of ?m] in \<open>auto intro: goto_merge_good\<close>)
    then show ?thesis using Some by (simp add: save_gotos_def case_prod_unfold Let_def)
  qed
qed

lemma merge_gotos_keeps:
  assumes "env_ok E"
  shows "keeps (merge_gotos E nm sy)"
proof (rule keepsI)
  fix m ps assume g: "good m ps"
  show "wp (merge_gotos E nm sy m) (\<lambda>m'. good m' ps)"
  proof (cases "get_named_stree (goto_stack m) nm sy")
    case None
    then show ?thesis using g by (simp add: merge_gotos_def)
  next
    case (Some i)
    let ?m = "goto_merge sy 1 m"
    have "i < length (goto_stack ?m)" using get_named_stree_bound [OF Some] by (simp add: goto_merge_def)
    then have "ns_stree (goto_stack ?m ! i) \<in># hand ?m ps" by (simp add: holders_def)
    from good_merge_cur [OF goto_merge_good [OF g] this assms]
    show ?thesis using Some by (auto simp: merge_gotos_def Let_def intro: goto_merge_good elim!: wp_mono)
  qed
qed

section \<open>The end of a function\<close>

lemma discard_fake_states_keeps: "keeps (discard_fake_states call)"
proof (rule keepsI)
  fix m ps assume g: "good m ps"
  let ?keep = "\<lambda>pre. filter (\<lambda>x. take (length pre) (name x) \<noteq> pre)"
  have cur: "wp (free_cur_stree n) (\<lambda>n. good (n\<lparr>cur_stree := p, fake_state_cnt := 0\<rparr>) ps)" if "good n (p # ps)" for p n
    by (rule good_free_cur [OF that], drule good_put_cur) (auto elim!: good_done)
  have ins: "wp (insert_all_tree None (?keep pre xs) m) (\<lambda>(p, n). wp (free_cur_stree n) (\<lambda>n. good (n\<lparr>cur_stree := p, fake_state_cnt := 0\<rparr>) ps))"
    if "\<forall>x \<in> set xs. view (strees m) (cur_stree m) (key x) = Some x" for xs pre
  proof (rule good_insert_all [OF good_null [OF g]])
    show "\<forall>x \<in> set (?keep pre xs). known m (None # ps) x" using that by (auto intro!: knownI [of "cur_stree m"])
  qed (use cur in simp)
  have "wp (states_of (strees m) (cur_stree m)) (\<lambda>xs. wp (insert_all_tree None (?keep pre xs) m) (\<lambda>(p, n).
      wp (free_cur_stree n) (\<lambda>n. good (n\<lparr>cur_stree := p, fake_state_cnt := 0\<rparr>) ps)))" for pre
    by (rule good_states [OF g]) (use ins in auto)
  then show "wp (discard_fake_states call m) (\<lambda>m'. good m' ps)"
    using g by (simp add: discard_fake_states_def case_prod_unfold Let_def)
qed

lemma good_free_list:
  "good m (qs @ ps) \<Longrightarrow> wp (free_stack qs m) (\<lambda>m'. good m' ps \<and> (\<exists>st. m' = m\<lparr>strees := st\<rparr>))"
proof (induction qs arbitrary: m)
  case Nil
  then show ?case by (auto simp: free_stack_def intro: exI [of _ "strees m"])
next
  case (Cons q qs)
  have "wp (free_tree q m) (\<lambda>m1. wp (free_stack qs m1) (\<lambda>m'. good m' ps \<and> (\<exists>st. m' = m\<lparr>strees := st\<rparr>)))"
  proof (rule good_free)
    show "good m (q # (qs @ ps))" using Cons.prems by simp
    fix st assume "good (m\<lparr>strees := st\<rparr>) (qs @ ps)"
    from Cons.IH [OF this] show "wp (free_stack qs (m\<lparr>strees := st\<rparr>)) (\<lambda>m'. good m' ps \<and> (\<exists>st. m' = m\<lparr>strees := st\<rparr>))" by simp
  qed
  then show ?case by (simp add: free_tree_def free_stack_def)
qed

context stack_field
begin

lemma good_clear_stack:
  assumes "good m ps"
  shows "wp (free_stack (get m) m) (\<lambda>m'. good (upd [] m') ps \<and> get m' = get m)"
proof -
  have "hand (upd [] m) (get m @ ps) = hand m ps" by (simp add: hand_eq [of m ps])
  from good_same_hand [OF assms this] have "good (upd [] m) (get m @ ps)" by (simp add: strees_upd rest_upd)
  from good_free_list [OF this] show ?thesis
    by (auto simp: free_stack_def strees_upd upd_store get_store wp_def)
qed

lemma good_check_free:
  assumes "good m ps" "\<And>msg. get (sm_perror msg m) = get m"
  shows "wp (check_stree_stack_free nm (get m) m) (\<lambda>m'. good (upd [] m') ps)"
proof (cases "get m = []")
  case True
  then have "upd [] m = m" using upd_get [of m] by simp
  then show ?thesis using True assms(1) by (simp add: check_stree_stack_free_def)
next
  case False
  have "good (sm_perror (''stack not empty '' @ nm) m) ps" using assms(1) by (auto simp: sm_perror_def intro: good_done)
  from good_clear_stack [OF this] show ?thesis
    using False assms(2) by (auto simp: check_stree_stack_free_def elim!: wp_mono)
qed

end

lemma free_goto_stack_keeps: "keeps free_goto_stack"
proof (rule keepsI)
  fix m ps assume g: "good m ps"
  let ?m = "m\<lparr>goto_stack := []\<rparr>"
  have eq: "?m\<lparr>strees := st\<rparr> = m\<lparr>strees := st, goto_stack := []\<rparr>" for st by (rule machine.equality) simp_all
  have "good ?m (map ns_stree (goto_stack m) @ ps)"
    by (rule good_same_hand [OF g]) (simp_all add: holders_def control_of_def)
  from good_free_list [OF this] show "wp (free_goto_stack m) (\<lambda>m'. good m' ps)"
    by (auto simp: free_goto_stack_def free_stack_def wp_def eq)
qed

lemma free_every_single_sm_state_keeps: "keeps free_every_single_sm_state"
proof (rule keepsI)
  fix m ps assume g: "good m ps"
  have reset: "good (n\<lparr>all_pools := [], pool := pl, sms := (sms n)\<lparr>sm_state_counter := c\<rparr>\<rparr>) ps" if "good (n\<lparr>all_pools := []\<rparr>) ps" for n pl c
    using that by (auto simp: good_def holders_def fam_def below_def)
  from pools_st.good_clear_stack [OF g] show "wp (free_every_single_sm_state m) (\<lambda>m'. good m' ps)"
    by (auto simp: free_every_single_sm_state_def intro: reset elim!: wp_mono)
qed

lemma clear_all_states_keeps: "keeps clear_all_states"
proof (rule keepsI)
  fix m ps assume g: "good m ps"
  note frees = true_st.good_check_free false_st.good_check_free pre_cond_st.good_check_free cond_true_st.good_check_free
    cond_false_st.good_check_free break_st.good_check_free fake_break_st.good_check_free switch_st.good_check_free
    continue_st.good_check_free fake_st.good_check_free
  have "wp (free_goto_stack n) (\<lambda>n. wp (free_every_single_sm_state n) (\<lambda>m'. good m' ps))" if "good n ps" for n
    by (rule wp_mono [OF keepsD [OF free_goto_stack_keeps that] keepsD [OF free_every_single_sm_state_keeps]])
  note last = this
  show "wp (clear_all_states m) (\<lambda>m'. good m' ps)"
    unfolding clear_all_states_def Let_def wp_simps
    by (rule wp_mono [OF keepsD [OF nullify_path_keeps g]],
        (rule wp_mono, erule frees, simp add: sm_perror_def)+, erule last)
qed

section \<open>All operations\<close>

text \<open>The states that are reached from the start of the program.\<close>

inductive reachable :: "env \<Rightarrow> machine \<Rightarrow> bool" for E where
  init: "reachable E (init_machine l)"
| step: "reachable E m \<Longrightarrow> run_op E x m = Some m' \<Longrightarrow> reachable E m'"

lemmas op_keeps = set_state_keeps set_true_false_states_keeps delete_state_keeps delete_all_states_sym_keeps
  discard_fake_states_keeps nullify_path_keeps unnullify_path_keeps save_pre_cond_states_keeps use_pre_cond_states_keeps
  discard_pre_cond_states_keeps push_fake_cur_stree_keeps free_fake_cur_stree_keeps push_cond_stacks_keeps
  fold_in_set_states_keeps free_set_states_keeps use_cond_stack_keeps use_cond_states_keeps negate_cond_stacks_keeps
  and_cond_states_keeps or_cond_states_keeps push_true_states_keeps use_false_states_keeps discard_false_states_keeps
  merge_false_states_keeps merge_true_states_keeps push_continues_keeps discard_continues_keeps process_continues_keeps
  merge_continues_keeps push_breaks_keeps process_breaks_keeps merge_breaks_keeps use_breaks_keeps
  save_switch_states_keeps discard_switches_keeps push_default_keeps set_default_keeps pop_default_keeps
  save_gotos_keeps merge_gotos_keeps clear_all_states_keeps

lemma run_op_keeps: "env_ok E \<Longrightarrow> keeps (run_op E x)"
  using op_keeps by (cases x) (simp_all add: run_op.simps [abs_def] use_cond_true_states_def use_cond_false_states_def)

lemma init_good: "good (init_machine l) []"
  by (simp add: good_def init_machine_def holders_def held_def store_ok_def bases_def fam_def below_def)

lemma reachable_good: "reachable E m \<Longrightarrow> env_ok E \<Longrightarrow> good m []"
proof (induction rule: reachable.induct)
  case (step m x m')
  then show ?case using keepsD [OF run_op_keeps [of E x], of m "[]"] by (simp add: wp_def)
qed (rule init_good)

lemma run_ops_reachable: "reachable E m \<Longrightarrow> run_ops E xs m = Some m' \<Longrightarrow> reachable E m'"
  by (induction xs arbitrary: m) (auto split: bind_splits intro: reachable.step)

lemma run_op_progress: "reachable E m \<Longrightarrow> env_ok E \<Longrightarrow> \<exists>m'. run_op E x m = Some m'"
  using keepsD [OF run_op_keeps reachable_good, of E E m x] by (auto simp: wp_def)

lemma run_ops_progress: "reachable E m \<Longrightarrow> env_ok E \<Longrightarrow> \<exists>m'. run_ops E xs m = Some m'"
proof (induction xs arbitrary: m)
  case (Cons x xs)
  obtain m1 where "run_op E x m = Some m1" using run_op_progress [OF Cons.prems] by blast
  then show ?case using Cons.IH [OF reachable.step [OF Cons.prems(1)]] Cons.prems(2) by simp
qed simp

section \<open>Setting a state in a reachable state\<close>

lemma set_state_reads:
  assumes "good m []" "ow \<noteq> USHRT_MAX"
  shows "if is_unreachable m then set_state ow (Some nm) sy (Some s) m = Some (None, m)
    else (\<exists>x m'. set_state ow (Some nm) sy (Some s) m = Some (Some x, m')
      \<and> state x = s \<and> possible x = [base x] \<and> get_sm_state ow (Some nm) sy m' = Some (Some x)
      \<and> (\<forall>ow' nm' sy'. (ow', nm', sy') \<noteq> (ow, nm, sy) \<longrightarrow>
           get_sm_state ow' (Some nm') sy' m' = get_sm_state ow' (Some nm') sy' m))"
proof (cases "is_unreachable m")
  case True
  then show ?thesis using assms by (simp add: set_state_def good_def is_unreachable_def)
next
  case False
  have r: "repr m [] (stacks_of m) []" and o: "fast_overlay m = None" and w: "read_only m = 0"
    using assms(1) by (simp_all add: good_repr)
  have "cur_stree (stacks_of m) \<noteq> Map.empty" using False null_cur [OF r] by (simp add: is_unreachable_def)
  with set_state_wp [OF r w, of ow nm sy s] obtain x y m' where
    e: "set_state ow (Some nm) sy (Some s) m = Some (Some y, m')"
    and r': "repr m' [] (spec_set (TKey ow nm sy) x y (stacks_of m)) []" and c: "control_of m' = control_of m"
    and f: "fresh_sm (TKey ow nm sy) s (sms m) y"
    by (auto simp: wp_def)
  have o': "fast_overlay m' = None" using c o by (simp add: control_of_def)
  have get: "get_sm_state a (Some n) b m = Some (cur_stree (stacks_of m) (TKey a n b))"
    "get_sm_state a (Some n) b m' = Some (((cur_stree (stacks_of m))(TKey ow nm sy \<mapsto> y)) (TKey a n b))" for a n b
    using get_sm_state_repr [OF r, of a n b] get_sm_state_repr [OF r', of a n b] o o'
    by (simp_all add: view_def spec_set_def)
  with e f False show ?thesis by (auto simp: fresh_sm_def)
qed

text \<open>Checkers of whom one has a merge function, and none a hook.\<close>

definition env0 :: env where
  "env0 = \<lparr>cf = \<lparr>num_checks = 5, dynamic_states = (\<lambda>_. False), SMATCH_EXTRA = 1\<rparr>,
     merge_funcs = [(4, \<lambda>a b. a)], unmatched_state_funcs = [], pre_merge_hooks = (\<lambda>_. None), get_state_hooks = [],
     oom = (\<lambda>_. False), keep_out_of_scope = (\<lambda>_. False)\<rparr>"

lemma env0_ok: "env_ok env0"
  by (auto simp: env_ok_def hooks_local_def merge_total_def env0_def merge_states_def client_merge_function_def
      split: option.splits prod.splits if_splits)

end
