(* ===== verification/Stack_Levels.thy ===== *)
theory Stack_Levels
  imports Safe_Runs
begin

text \<open>
  How deep the stacks of the analysis are, and what each operation of \<^verbatim>\<open>src/smatch_states.c\<close> does to the
  depths. This is the part of the analysis state that the walk over the program has to keep in
  balance.
\<close>

section \<open>Depths\<close>

datatype stack_name =
    True_stack | False_stack | Pre_cond | Cond_true | Cond_false | Fake | Breaks | Fake_breaks | Switches | Cases
  | Defaults | Continues | Backup

fun levels :: "machine \<Rightarrow> stack_name \<Rightarrow> nat" where
  "levels m True_stack = length (true_stack m)"
| "levels m False_stack = length (false_stack m)"
| "levels m Pre_cond = length (pre_cond_stack m)"
| "levels m Cond_true = length (cond_true_stack m)"
| "levels m Cond_false = length (cond_false_stack m)"
| "levels m Fake = length (fake_cur_stree_stack m)"
| "levels m Breaks = length (break_stack m)"
| "levels m Fake_breaks = length (fake_break_stack m)"
| "levels m Switches = length (switch_stack m)"
| "levels m Cases = length (remaining_cases m)"
| "levels m Defaults = length (default_stack m)"
| "levels m Continues = length (continue_stack m)"
| "levels m Backup = length (backup m)"

lemma levels_simps [simp]:
  "levels (m\<lparr>cur_stree := p\<rparr>) = levels m" "levels (m\<lparr>strees := st\<rparr>) = levels m" "levels (m\<lparr>sms := h\<rparr>) = levels m"
  "levels (m\<lparr>goto_stack := g\<rparr>) = levels m" "levels (m\<lparr>all_pools := ap\<rparr>) = levels m" "levels (m\<lparr>pool := pl\<rparr>) = levels m"
  "levels (m\<lparr>stree_id_counter := i\<rparr>) = levels m" "levels (m\<lparr>in_goto_merge := j\<rparr>) = levels m"
  "levels (m\<lparr>in_unmatched_hook := j\<rparr>) = levels m" "levels (m\<lparr>read_only := j\<rparr>) = levels m"
  "levels (m\<lparr>fast_overlay := q\<rparr>) = levels m" "levels (m\<lparr>fast_math_only := j\<rparr>) = levels m"
  "levels (m\<lparr>fake_state_cnt := j\<rparr>) = levels m" "levels (sm_perror msg m) = levels m"
  by (rule ext, rename_tac k, case_tac k, simp_all add: sm_perror_def)+

lemma levels_upd [simp]:
  "levels (m\<lparr>true_stack := s\<rparr>) = (levels m)(True_stack := length s)"
  "levels (m\<lparr>false_stack := s\<rparr>) = (levels m)(False_stack := length s)"
  "levels (m\<lparr>pre_cond_stack := s\<rparr>) = (levels m)(Pre_cond := length s)"
  "levels (m\<lparr>cond_true_stack := s\<rparr>) = (levels m)(Cond_true := length s)"
  "levels (m\<lparr>cond_false_stack := s\<rparr>) = (levels m)(Cond_false := length s)"
  "levels (m\<lparr>fake_cur_stree_stack := s\<rparr>) = (levels m)(Fake := length s)"
  "levels (m\<lparr>break_stack := s\<rparr>) = (levels m)(Breaks := length s)"
  "levels (m\<lparr>fake_break_stack := s\<rparr>) = (levels m)(Fake_breaks := length s)"
  "levels (m\<lparr>switch_stack := s\<rparr>) = (levels m)(Switches := length s)"
  "levels (m\<lparr>remaining_cases := c\<rparr>) = (levels m)(Cases := length c)"
  "levels (m\<lparr>default_stack := s\<rparr>) = (levels m)(Defaults := length s)"
  "levels (m\<lparr>continue_stack := s\<rparr>) = (levels m)(Continues := length s)"
  by (rule ext, rename_tac k, case_tac k, simp_all)+

lemma levels_get:
  "length (true_stack m) = levels m True_stack" "length (false_stack m) = levels m False_stack"
  "length (pre_cond_stack m) = levels m Pre_cond" "length (cond_true_stack m) = levels m Cond_true"
  "length (cond_false_stack m) = levels m Cond_false" "length (fake_cur_stree_stack m) = levels m Fake"
  "length (break_stack m) = levels m Breaks" "length (fake_break_stack m) = levels m Fake_breaks"
  "length (switch_stack m) = levels m Switches" "length (remaining_cases m) = levels m Cases"
  "length (default_stack m) = levels m Defaults" "length (continue_stack m) = levels m Continues"
  "true_stack m = [] \<longleftrightarrow> levels m True_stack = 0" "fake_cur_stree_stack m = [] \<longleftrightarrow> levels m Fake = 0"
  "cond_true_stack m = [] \<longleftrightarrow> levels m Cond_true = 0" "cond_false_stack m = [] \<longleftrightarrow> levels m Cond_false = 0"
  by simp_all

declare levels.simps [simp del]

text \<open>One level more, one level less, and the top replaced, which creates a top where there is none.\<close>

definition up :: "stack_name \<Rightarrow> (stack_name \<Rightarrow> nat) \<Rightarrow> stack_name \<Rightarrow> nat" where
  "up k l = l(k := Suc (l k))"

definition down :: "stack_name \<Rightarrow> (stack_name \<Rightarrow> nat) \<Rightarrow> stack_name \<Rightarrow> nat" where
  "down k l = l(k := l k - 1)"

definition touch :: "stack_name \<Rightarrow> (stack_name \<Rightarrow> nat) \<Rightarrow> stack_name \<Rightarrow> nat" where
  "touch k l = l(k := Suc (l k - 1))"

lemma touch_same [simp]: "0 < l k \<Longrightarrow> touch k l = l"
  by (auto simp: touch_def)

lemma up_apply [simp]: "up k l k' = (if k' = k then Suc (l k) else l k')" "down k l k' = (if k' = k then l k - 1 else l k')"
  "touch k l k' = (if k' = k then Suc (l k - 1) else l k')"
  by (simp_all add: up_def down_def touch_def)

lemma down_up [simp]: "down k (up k l) = l"
  by (auto simp: up_def down_def)

lemma up_down [simp]: "0 < l k \<Longrightarrow> up k (down k l) = l"
  by (auto simp: up_def down_def)

lemma up_swap: "k \<noteq> k' \<Longrightarrow> down k (up k' l) = up k' (down k l)"
  by (auto simp: up_def down_def)

lemmas stack_lengths = push_stree_def pop_stree_def length_butlast

section \<open>Trees and stacks of trees\<close>

lemma tree_levels:
  "clone_tree p m = Some (q, m') \<Longrightarrow> levels m' = levels m" "free_tree p m = Some m' \<Longrightarrow> levels m' = levels m"
  "insert_tree p x m = Some (q, m') \<Longrightarrow> levels m' = levels m"
  "overwrite_tree r p m = Some (q, m') \<Longrightarrow> levels m' = levels m"
  "filter_tree p r m = Some (q, m') \<Longrightarrow> levels m' = levels m"
  "delete_tree p ow nm sy m = Some (q, m') \<Longrightarrow> levels m' = levels m"
  "free_cur_stree m = Some m' \<Longrightarrow> levels m' = levels m"
  by (auto simp: clone_tree_def free_tree_def insert_tree_def overwrite_tree_def filter_tree_def delete_tree_def
      free_cur_stree_def split: bind_splits)

lemma insert_all_levels: "insert_all_tree p xs m = Some (q, m') \<Longrightarrow> levels m' = levels m"
  by (induction xs arbitrary: p m) (auto split: bind_splits dest!: tree_levels(3))

lemma stack_levels:
  "set_state_stree_stack h st s ow nm sy x = Some (s', y, h', st') \<Longrightarrow> length s' = Suc (length s - 1)"
  "overwrite_sm_state_stree_stack st s y = Some (s', st') \<Longrightarrow> length s' = Suc (length s - 1)"
  by (auto simp: set_state_stree_stack_def overwrite_sm_state_stree_stack_def stack_lengths split: bind_splits)

lemma overwrite_top_levels:
  "overwrite_top st s xs = Some (s', st') \<Longrightarrow> 0 < length s \<Longrightarrow> length s' = length s"
  by (induction xs arbitrary: st s) (fastforce split: bind_splits dest!: stack_levels(2))+

lemma and_stack_levels:
  assumes "and_stree_stack st s = Some (s', st')" "1 < length s"
  shows "length s' = length s - 1"
proof -
  obtain xs st1 where "overwrite_top st (butlast s) xs = Some (s', st1)"
    using assms(1) by (auto simp: and_stree_stack_def pop_stree_def split: bind_splits)
  from overwrite_top_levels [OF this] assms(2) show ?thesis by simp
qed

lemmas level_dests = tree_levels insert_all_levels stack_levels overwrite_top_levels and_stack_levels

section \<open>Setting states\<close>

lemma set_state_levels: "set_state ow nm sy s m = Some (x, m') \<Longrightarrow> levels m' = levels m"
  by (auto simp: set_state_def Let_def levels_get split: bind_splits if_splits option.splits dest!: level_dests)

lemma run_sets_levels: "run_sets calls m = Some m' \<Longrightarrow> levels m' = levels m"
  by (induction calls m rule: run_sets.induct) (auto split: bind_splits dest!: set_state_levels)

lemma set_sm_levels: "set_sm x m = Some m' \<Longrightarrow> levels m' = levels m"
  by (auto simp: set_sm_def Let_def levels_get split: bind_splits if_splits dest!: level_dests)

lemma set_true_false_sm_levels: "set_true_false_sm t f m = Some m' \<Longrightarrow> levels m' = levels m"
  by (auto simp: set_true_false_sm_def levels_get split: bind_splits if_splits option.splits dest!: level_dests)

lemma set_true_false_states_levels: "set_true_false_states ow nm sy t f m = Some m' \<Longrightarrow> levels m' = levels m"
  by (auto simp: set_true_false_states_def Let_def levels_get split: bind_splits if_splits option.splits dest!: level_dests)

lemma unnullify_path_levels: "unnullify_path m = Some m' \<Longrightarrow> levels m' = levels m"
  by (auto simp: unnullify_path_def split: if_splits dest!: set_state_levels)

section \<open>Conditions\<close>

lemma save_pre_levels: "save_pre_cond_states m = Some m' \<Longrightarrow> levels m' = up Pre_cond (levels m)"
  by (auto simp: save_pre_cond_states_def stack_lengths levels_get up_def split: bind_splits dest!: level_dests)

lemma use_pre_levels: "use_pre_cond_states m = Some m' \<Longrightarrow> levels m' = down Pre_cond (levels m)"
  by (auto simp: use_pre_cond_states_def stack_lengths levels_get down_def split: bind_splits dest!: level_dests)

lemma discard_pre_levels: "discard_pre_cond_states m = Some m' \<Longrightarrow> levels m' = down Pre_cond (levels m)"
  by (auto simp: discard_pre_cond_states_def stack_lengths levels_get down_def split: bind_splits dest!: level_dests)

lemma push_fake_levels: "push_fake_cur_stree m = Some m' \<Longrightarrow> levels m' = up Fake (up Pre_cond (levels m))"
  by (auto simp: push_fake_cur_stree_def stack_lengths levels_get up_def dest!: save_pre_levels)

lemma pop_fake_levels: "pop_fake_cur_stree m = Some (p, m') \<Longrightarrow> levels m' = down Fake (down Pre_cond (levels m))"
  by (auto simp: pop_fake_cur_stree_def Let_def stack_lengths levels_get down_def split: bind_splits if_splits
      dest!: use_pre_levels)

lemma free_fake_levels: "free_fake_cur_stree m = Some m' \<Longrightarrow> levels m' = down Fake (down Pre_cond (levels m))"
  by (auto simp: free_fake_cur_stree_def split: bind_splits dest!: pop_fake_levels level_dests)

lemma free_set_states_levels: "free_set_states m = Some m' \<Longrightarrow> levels m' = down Fake (down Pre_cond (levels m))"
  by (auto simp: free_set_states_def split: bind_splits dest!: pop_fake_levels level_dests)

lemma push_cond_levels:
  "push_cond_stacks m = Some m' \<Longrightarrow> levels m' = up Fake (up Pre_cond (up Cond_false (up Cond_true (levels m))))"
  by (auto simp: push_cond_stacks_def stack_lengths levels_get up_def dest!: push_fake_levels)

lemma fold_in_loop_levels: "fold_in_loop xs m = Some m' \<Longrightarrow> levels m' = levels m"
  by (induction xs arbitrary: m) (auto split: bind_splits dest!: set_sm_levels set_true_false_sm_levels)

lemma fold_in_levels: "fold_in_set_states m = Some m' \<Longrightarrow> levels m' = down Fake (down Pre_cond (levels m))"
  by (auto simp: fold_in_set_states_def split: bind_splits dest!: pop_fake_levels fold_in_loop_levels level_dests)

definition branch_name :: "bool \<Rightarrow> stack_name" where
  "branch_name b = (if b then Cond_true else Cond_false)"

lemma branch_distinct [simp]: "branch_name b \<noteq> Pre_cond" "Pre_cond \<noteq> branch_name b"
  by (simp_all add: branch_name_def)

lemma pop_cond_levels: "pop_cond_stack b m = (p, m') \<Longrightarrow> levels m' = down (branch_name b) (levels m)"
  by (auto simp: pop_cond_stack_def cond_stack_def set_cond_stack_def stack_lengths levels_get down_def branch_name_def
      split: if_splits)

lemma push_cond_stack_levels [simp]: "levels (push_cond_stack b p m) = up (branch_name b) (levels m)"
  by (auto simp: push_cond_stack_def cond_stack_def set_cond_stack_def stack_lengths levels_get up_def branch_name_def)

lemma touch_alt: "up k (down k l) = touch k l"
  by (auto simp: up_def down_def touch_def)

lemma copy_cond_levels: "copy_cond_states b m = Some (p, m') \<Longrightarrow> levels m' = touch (branch_name b) (levels m)"
  by (auto simp: copy_cond_states_def touch_alt split: bind_splits prod.splits dest!: pop_cond_levels level_dests)

lemma use_cond_stack_levels:
  "use_cond_stack b m = Some m' \<Longrightarrow> levels m' = touch Pre_cond (touch (branch_name b) (levels m))"
  by (auto simp: use_cond_stack_def stack_lengths levels_get touch_def up_def down_def fun_eq_iff
      split: bind_splits prod.splits dest!: pop_cond_levels level_dests)

lemma use_cond_states_levels:
  "use_cond_states m = Some m' \<Longrightarrow> levels m' = up False_stack (down Cond_false (down Cond_true (down Pre_cond (levels m))))"
  by (auto simp: use_cond_states_def stack_lengths levels_get up_def down_def branch_name_def
      split: bind_splits prod.splits dest!: pop_cond_levels level_dests)

lemma negate_cond_levels: "levels (negate_cond_stacks m) = touch Cond_true (touch Cond_false (levels m))"
  by (auto simp: negate_cond_stacks_def touch_def up_def down_def branch_name_def fun_eq_iff split: prod.splits dest!: pop_cond_levels)

section \<open>Merges\<close>

lemma fast_levels [simp]:
  "levels (set_fake_cur_stree_fast p m) = levels m" "levels (pop_fake_cur_stree_fast m) = levels m"
  "levels (set_cur_stree_readonly m) = levels m" "levels (set_cur_stree_writable m) = levels m"
  by (simp_all add: set_fake_cur_stree_fast_def pop_fake_cur_stree_fast_def set_cur_stree_readonly_def
      set_cur_stree_writable_def)

lemma unmatched_levels: "unmatched_sm E p x m = Some (y, m') \<Longrightarrow> levels m' = levels m"
  by (auto simp: unmatched_sm_def Let_def split: bind_splits prod.splits)

lemma match_walk_levels: "match_walk E p q xs ys m = Some (a, b, m') \<Longrightarrow> levels m' = levels m"
proof (induction "length xs + length ys" arbitrary: xs ys a b m rule: less_induct)
  case less
  let ?c = "cmp_tracker (case xs of [] \<Rightarrow> None | x # _ \<Rightarrow> Some x) (case ys of [] \<Rightarrow> None | x # _ \<Rightarrow> Some x)"
  consider "xs = []" "ys = []" | "?c < 0" "xs \<noteq> []" | "?c = 0" "xs \<noteq> []" "ys \<noteq> []" | "0 < ?c" "ys \<noteq> []"
    by (cases xs; cases ys) (force simp: cmp_tracker_def)+
  then show ?case
  proof cases
    case 2
    then obtain x m1 a' b' where "unmatched_sm E q (hd xs) m = Some (x, m1)" "match_walk E p q (tl xs) ys m1 = Some (a', b', m')"
      using less.prems by (subst (asm) match_walk.simps) (auto simp: Let_def split: bind_splits)
    then show ?thesis using less.hyps [of "tl xs" ys] 2 unmatched_levels by fastforce
  next
    case 3
    then have "match_walk E p q (tl xs) (tl ys) m = Some (a, b, m')"
      using less.prems by (subst (asm) match_walk.simps) (auto simp: Let_def)
    moreover have "length (tl xs) + length (tl ys) < length xs + length ys" using 3 by (cases xs; cases ys) simp_all
    ultimately show ?thesis using less.hyps by blast
  next
    case 4
    then obtain x m1 a' b' where "unmatched_sm E p (hd ys) m = Some (x, m1)" "match_walk E p q xs (tl ys) m1 = Some (a', b', m')"
      using less.prems by (subst (asm) match_walk.simps) (auto simp: Let_def split: bind_splits)
    then show ?thesis using less.hyps [of xs "tl ys"] 4 unmatched_levels by fastforce
  qed (use less.prems in simp)
qed

lemma match_states_levels: "match_states_stree E p q m = Some (p', q', m') \<Longrightarrow> levels m' = levels m"
  by (auto simp: match_states_stree_def Let_def split: bind_splits dest!: match_walk_levels level_dests)

lemma pre_merge_loop_levels: "pre_merge_loop E xs m = Some m' \<Longrightarrow> levels m' = levels m"
  by (induction xs arbitrary: m)
    (auto simp: call_pre_merge_hook_def split: bind_splits if_splits option.splits dest!: run_sets_levels)

lemma pre_merge_side_levels: "pre_merge_side E p q m = Some (r, m') \<Longrightarrow> levels m' = levels m"
  by (auto simp: pre_merge_side_def Let_def split: bind_splits
      dest!: push_fake_levels pre_merge_loop_levels pop_fake_levels level_dests)
    (auto simp: up_def down_def)

lemma pre_merge_hooks_levels: "call_pre_merge_hooks E p q m = Some (p', q', m') \<Longrightarrow> levels m' = levels m"
  by (auto simp: call_pre_merge_hooks_def Let_def split: bind_splits dest!: pre_merge_side_levels)

lemma clone_pool_havers_levels: "clone_pool_havers xs m = (ys, m') \<Longrightarrow> levels m' = levels m"
  by (induction xs arbitrary: m ys m') (fastforce split: if_splits prod.splits)+

lemma add_pools_levels: "add_pools p q m = Some (a, b, m') \<Longrightarrow> levels m' = levels m"
  by (auto simp: add_pools_def clone_pool_havers_stree_def give_ids_def new_stree_id_def new_base_id_def Let_def
      split: bind_splits prod.splits option.splits dest!: clone_pool_havers_levels level_dests)

lemma merge_walk_levels: "merge_walk E ap p q r xs ys m = Some (r', m') \<Longrightarrow> levels m' = levels m"
  by (induction xs ys arbitrary: r m rule: list_induct2')
    (auto simp: set_pool_def split: if_splits bind_splits dest!: tree_levels(3))

lemma join_levels: "join_strees E ap p q m = Some (r, m') \<Longrightarrow> levels m' = levels m"
  by (auto simp: join_strees_def split: bind_splits if_splits
      dest!: match_states_levels pre_merge_hooks_levels add_pools_levels merge_walk_levels level_dests)

lemma merge_stree_levels: "merge_stree E to p m = Some (r, m') \<Longrightarrow> levels m' = levels m"
  by (auto simp: merge_stree_def merge_stree_pools_def split: bind_splits if_splits dest!: join_levels level_dests)

lemma merge_into_cur_levels: "merge_into_cur E p m = Some m' \<Longrightarrow> levels m' = levels m"
  by (auto simp: merge_into_cur_def split: bind_splits dest!: merge_stree_levels)

lemma or_cond_levels:
  "or_cond_stack E b m = Some m' \<Longrightarrow> 1 < levels m (branch_name b) \<Longrightarrow> levels m' = touch Pre_cond (down (branch_name b) (levels m))"
  by (auto simp: or_cond_stack_def stack_lengths levels_get touch_def up_def down_def fun_eq_iff
      split: bind_splits prod.splits dest!: pop_cond_levels merge_stree_levels level_dests)

lemma and_cond_levels:
  "and_cond_stack b m = Some m' \<Longrightarrow> 1 < levels m (branch_name b) \<Longrightarrow> levels m' = down (branch_name b) (levels m)"
  by (auto simp: and_cond_stack_def cond_stack_def set_cond_stack_def branch_name_def levels_get down_def split: if_splits
      dest!: and_stack_levels)

lemma and_cond_states_levels:
  "and_cond_states E m = Some m' \<Longrightarrow> 1 < levels m Cond_true \<Longrightarrow> 1 < levels m Cond_false \<Longrightarrow>
     levels m' = touch Pre_cond (down Cond_false (down Cond_true (levels m)))"
  by (auto simp: and_cond_states_def split: bind_splits dest!: and_cond_levels or_cond_levels)
    (auto simp: branch_name_def)

lemma or_cond_states_levels:
  "or_cond_states E m = Some m' \<Longrightarrow> 1 < levels m Cond_true \<Longrightarrow> 1 < levels m Cond_false \<Longrightarrow>
     levels m' = touch Pre_cond (down Cond_false (down Cond_true (levels m)))"
  by (auto simp: or_cond_states_def split: bind_splits dest!: and_cond_levels or_cond_levels)
    (auto simp: branch_name_def)

section \<open>Branches\<close>

lemma push_true_levels: "push_true_states m = Some m' \<Longrightarrow> levels m' = up True_stack (levels m)"
  by (auto simp: push_true_states_def stack_lengths levels_get up_def split: bind_splits dest!: level_dests)

lemma use_false_levels: "use_false_states m = Some m' \<Longrightarrow> levels m' = down False_stack (levels m)"
  by (auto simp: use_false_states_def stack_lengths levels_get down_def split: bind_splits dest!: level_dests)

lemma discard_false_levels: "discard_false_states m = Some m' \<Longrightarrow> levels m' = down False_stack (levels m)"
  by (auto simp: discard_false_states_def stack_lengths levels_get down_def dest!: level_dests)

lemma merge_false_levels: "merge_false_states E m = Some m' \<Longrightarrow> levels m' = down False_stack (levels m)"
  by (auto simp: merge_false_states_def stack_lengths levels_get down_def split: bind_splits
      dest!: merge_into_cur_levels level_dests)

lemma update_merged_levels: "update_stree_with_merged p m = Some (q, m') \<Longrightarrow> levels m' = levels m"
  by (auto simp: update_stree_with_merged_def split: bind_splits dest!: level_dests)

lemma update_fake_levels: "update_fake_stree_with_merged m = Some m' \<Longrightarrow> levels m' = levels m"
  by (auto simp: update_fake_stree_with_merged_def stack_lengths levels_get fun_eq_iff split: bind_splits if_splits
      dest!: update_merged_levels)

lemma merge_true_levels: "merge_true_states E m = Some m' \<Longrightarrow> levels m' = down True_stack (levels m)"
  by (auto simp: merge_true_states_def stack_lengths levels_get down_def split: bind_splits
      dest!: merge_into_cur_levels update_fake_levels level_dests)

lemma merge_into_loop_levels: "merge_into_cur_loop E xs m = Some m' \<Longrightarrow> levels m' = levels m"
  by (induction xs arbitrary: m) (auto split: bind_splits option.splits dest!: set_sm_levels)

lemma merge_stree_into_cur_levels: "merge_stree_into_cur E p m = Some m' \<Longrightarrow> levels m' = levels m"
  by (auto simp: merge_stree_into_cur_def split: bind_splits dest!: merge_into_loop_levels)

lemma nullify_levels: "nullify_path m = Some m' \<Longrightarrow> 0 < levels m Fake \<longrightarrow> 0 < levels m Pre_cond \<Longrightarrow> levels m' = levels m"
  by (auto simp: nullify_path_def levels_get up_def down_def fun_eq_iff split: bind_splits if_splits
      dest!: free_fake_levels push_fake_levels level_dests)

lemma discard_fake_states_levels: "discard_fake_states c m = Some m' \<Longrightarrow> levels m' = levels m"
  by (auto simp: discard_fake_states_def Let_def split: bind_splits if_splits dest!: level_dests)

section \<open>Loops, switches and gotos\<close>

lemma clone_or_merge_levels: "clone_or_merge E p q m = Some (r, m') \<Longrightarrow> levels m' = levels m"
  by (auto simp: clone_or_merge_def split: if_splits dest!: merge_stree_levels level_dests)

lemma push_continues_levels: "levels (push_continues m) = up Continues (levels m)"
  by (auto simp: push_continues_def stack_lengths levels_get up_def)

lemma process_continues_levels: "process_continues E m = Some m' \<Longrightarrow> levels m' = touch Continues (levels m)"
  by (auto simp: process_continues_def stack_lengths levels_get touch_def split: bind_splits dest!: clone_or_merge_levels)

lemma merge_continues_levels: "merge_continues E m = Some m' \<Longrightarrow> levels m' = down Continues (levels m)"
  by (auto simp: merge_continues_def stack_lengths levels_get down_def split: bind_splits
      dest!: merge_into_cur_levels level_dests)

text \<open>The two stacks of breaks: the second is used while states are set aside.\<close>

definition if_fake :: "((stack_name \<Rightarrow> nat) \<Rightarrow> stack_name \<Rightarrow> nat) \<Rightarrow> (stack_name \<Rightarrow> nat) \<Rightarrow> stack_name \<Rightarrow> nat" where
  "if_fake f l = (if 0 < l Fake then f l else l)"

lemma push_breaks_levels: "levels (push_breaks m) = if_fake (up Fake_breaks) (up Breaks (levels m))"
  by (auto simp: push_breaks_def if_fake_def Let_def stack_lengths levels_get up_def)

lemma process_breaks_levels:
  "process_breaks E m = Some m' \<Longrightarrow> levels m' = if_fake (touch Fake_breaks) (touch Breaks (levels m))"
  by (auto simp: process_breaks_def if_fake_def stack_lengths levels_get touch_def split: bind_splits if_splits
      dest!: clone_or_merge_levels)

lemma overwrite_fake_top_levels: "overwrite_fake_top p m = Some m' \<Longrightarrow> 0 < levels m Fake \<Longrightarrow> levels m' = levels m"
  by (auto simp: overwrite_fake_top_def levels_get fun_eq_iff split: bind_splits dest!: level_dests)

lemma merge_breaks_levels:
  "merge_breaks E m = Some m' \<Longrightarrow> levels m' = if_fake (down Fake_breaks) (down Breaks (levels m))"
  by (auto simp: merge_breaks_def if_fake_def stack_lengths levels_get down_def split: bind_splits if_splits
      dest!: merge_into_cur_levels update_merged_levels overwrite_fake_top_levels level_dests)

lemma use_breaks_levels:
  "use_breaks m = Some m' \<Longrightarrow> levels m' = if_fake (down Fake_breaks) (down Breaks (levels m))"
  by (auto simp: use_breaks_def if_fake_def stack_lengths levels_get down_def split: bind_splits if_splits
      dest!: update_merged_levels overwrite_fake_top_levels level_dests)

lemma save_switch_levels: "save_switch_states rl m = Some m' \<Longrightarrow> levels m' = up Switches (up Cases (levels m))"
  by (auto simp: save_switch_states_def push_rl_def stack_lengths levels_get up_def split: bind_splits dest!: level_dests)

lemma discard_switches_levels: "discard_switches m = Some m' \<Longrightarrow> levels m' = down Switches (down Cases (levels m))"
  by (auto simp: discard_switches_def pop_rl_def stack_lengths levels_get down_def dest!: level_dests)

lemma default_levels:
  "levels (push_default m) = up Defaults (levels m)"
  "set_default m = Some m' \<Longrightarrow> levels m' = touch Defaults (levels m)"
  "pop_default m = Some (r, m') \<Longrightarrow> levels m' = down Defaults (levels m)"
  by (auto simp: push_default_def set_default_def pop_default_def stack_lengths levels_get up_def down_def touch_def Let_def
      split: bind_splits if_splits dest!: level_dests)

lemma goto_merge_levels [simp]: "levels (goto_merge sy d m) = levels m"
  by (simp add: goto_merge_def)

lemma goto_levels:
  "save_gotos E nm sy m = Some m' \<Longrightarrow> levels m' = levels m" "merge_gotos E nm sy m = Some m' \<Longrightarrow> levels m' = levels m"
  by (auto simp: save_gotos_def merge_gotos_def Let_def split: option.splits bind_splits
      dest!: merge_stree_levels merge_into_cur_levels level_dests)

section \<open>The end of a function\<close>

text \<open>When the stacks are empty, the end of a function finds nothing to complain about.\<close>

lemma nullify_perrors: "nullify_path m = Some m' \<Longrightarrow> perrors m' = perrors m"
  by (auto simp: nullify_path_def push_fake_cur_stree_def free_fake_cur_stree_def pop_fake_cur_stree_def save_pre_cond_states_def
      use_pre_cond_states_def free_cur_stree_def clone_tree_def free_tree_def pop_stree_def Let_def
      split: bind_splits if_splits)

lemma clear_all_quiet:
  assumes "clear_all_states m = Some m'" "\<forall>k. k \<noteq> Defaults \<and> k \<noteq> Cases \<and> k \<noteq> Backup \<longrightarrow> levels m k = 0"
  shows "perrors m' = perrors m"
proof -
  have z: "levels m True_stack = 0" "levels m False_stack = 0" "levels m Pre_cond = 0" "levels m Cond_true = 0" "levels m Cond_false = 0"
    "levels m Fake = 0" "levels m Breaks = 0" "levels m Fake_breaks = 0" "levels m Switches = 0" "levels m Continues = 0"
    using assms(2) by simp_all
  obtain n where n: "nullify_path m = Some n" using assms(1) by (auto simp: clear_all_states_def split: bind_splits)
  have l: "levels n = levels m" using nullify_levels [OF n] z by simp
  have e: "true_stack n = []" "false_stack n = []" "pre_cond_stack n = []" "cond_true_stack n = []" "cond_false_stack n = []"
    "fake_cur_stree_stack n = []" "break_stack n = []" "fake_break_stack n = []" "switch_stack n = []" "continue_stack n = []"
    using z unfolding l [symmetric] by (simp_all add: levels.simps)
  have "perrors m' = perrors n"
    using assms(1) n
    by (auto simp: clear_all_states_def check_stree_stack_free_def e free_goto_stack_def free_every_single_sm_state_def
        free_stack_def split: bind_splits)
  with nullify_perrors [OF n] show ?thesis by simp
qed

end
