(* ===== verification/Flow_Balance.thy ===== *)
theory Flow_Balance
  imports Flow_Walk Stack_Levels
begin

text \<open>
  The walk keeps the stacks of the analysis in balance: the contracts of the operations and of the
  parts of the walk, and that the walk over conditions keeps them.
\<close>

section \<open>Contracts\<close>

text \<open>
  What is known of a state of the walk: the invariant of the analysis with some local pointers, the
  depths of the stacks, the switches that are open, and that the goto at the end has been handled.
\<close>

definition mach_st :: "nat option multiset \<Rightarrow> (stack_name \<Rightarrow> nat) \<Rightarrow> machine \<Rightarrow> bool" where
  "mach_st M l m \<longleftrightarrow> (\<exists>ps. mset ps = M \<and> good m ps) \<and> levels m = l"

definition walk_st :: "nat option multiset \<Rightarrow> (stack_name \<Rightarrow> nat) \<Rightarrow> expr list \<Rightarrow> bool \<Rightarrow> flow \<Rightarrow> bool" where
  "walk_st M l sw h f \<longleftrightarrow> mach_st M l (mach f) \<and> switch_expr_stack f = sw \<and> (h \<longrightarrow> last_goto_statement_handled f)"

lemma walk_st_upd [simp]:
  "walk_st M l sw h (f\<lparr>post_op_stack := x\<rparr>) = walk_st M l sw h f" "walk_st M l sw h (f\<lparr>loop_num := i\<rparr>) = walk_st M l sw h f"
  "walk_st M l sw h (f\<lparr>loop_count := c\<rparr>) = walk_st M l sw h f" "walk_st M l sw h (f\<lparr>bail_on_rest_of_function := b\<rparr>) = walk_st M l sw h f"
  "walk_st M l sw h (f\<lparr>confidence_implied := j\<rparr>) = walk_st M l sw h f" "walk_st M l sw h (f\<lparr>inside_condition := j\<rparr>) = walk_st M l sw h f"
  "walk_st M l sw h (f\<lparr>in_pre_condition := j\<rparr>) = walk_st M l sw h f" "walk_st M l sw h (f\<lparr>expr_stmt_count := j\<rparr>) = walk_st M l sw h f"
  "walk_st M l sw h (f\<lparr>indent_cnt := j\<rparr>) = walk_st M l sw h f"
  by (simp_all add: walk_st_def)

lemma walk_st_mach: "walk_st M l sw h f \<Longrightarrow> mach_st M l (mach f)"
  by (simp add: walk_st_def)

lemma walk_st_put: "walk_st M l sw h f \<Longrightarrow> mach_st M' l' m \<Longrightarrow> walk_st M' l' sw h (f\<lparr>mach := m\<rparr>)"
  by (simp add: walk_st_def)

lemma mach_stI: "good m ps \<Longrightarrow> levels m = l \<Longrightarrow> mset ps = M \<Longrightarrow> mach_st M l m"
  by (auto simp: mach_st_def)

lemma mach_stE:
  assumes "mach_st (add_mset p M) l m"
  obtains ps where "good m (p # ps)" "mset ps = M" "levels m = l"
proof -
  obtain qs where q: "mset qs = add_mset p M" "good m qs" "levels m = l" using assms by (auto simp: mach_st_def)
  obtain ps where ps: "mset ps = M" using ex_mset by blast
  have "good m (p # ps)" by (rule good_perm [OF q(2)]) (simp add: q(1) ps)
  with that ps q(3) show ?thesis by blast
qed

lemma keeps_mach:
  assumes "keeps oper" "mach_st M l m"
  shows "\<exists>m'. oper m = Some m' \<and> mach_st M (levels m') m'"
  using assms keepsD [OF assms(1)] by (fastforce simp: mach_st_def wp_def)

text \<open>An operation on the state of the analysis, with its effect on the depths where its condition holds.\<close>

locale flow_step =
  fixes oper :: "machine \<Rightarrow> machine option" and g :: "(stack_name \<Rightarrow> nat) \<Rightarrow> stack_name \<Rightarrow> nat"
    and Q :: "(stack_name \<Rightarrow> nat) \<Rightarrow> bool"
  assumes oper_keeps: "keeps oper"
    and oper_levels: "oper m = Some m' \<Longrightarrow> Q (levels m) \<Longrightarrow> levels m' = g (levels m)"
begin

lemma step:
  assumes "walk_st M l sw h f" "Q l" "\<And>f'. walk_st M (g l) sw h f' \<Longrightarrow> R f'"
  shows "wp (on oper f) R"
proof -
  obtain m' where m': "oper (mach f) = Some m'" "mach_st M (levels m') m'"
    using keeps_mach [OF oper_keeps walk_st_mach [OF assms(1)]] by blast
  moreover have "levels m' = g l" using oper_levels [OF m'(1)] assms(1,2) by (simp add: walk_st_def mach_st_def)
  ultimately have "walk_st M (g l) sw h (f\<lparr>mach := m'\<rparr>)" using walk_st_put [OF assms(1)] by simp
  with assms(3) m'(1) show ?thesis by (simp add: on_def)
qed

end

text \<open>An operation that leaves the depths alone.\<close>

locale level_step = flow_step oper "\<lambda>l. l" "\<lambda>l. True" for oper

lemma level_stepI: "keeps oper \<Longrightarrow> (\<And>m m'. oper m = Some m' \<Longrightarrow> levels m' = levels m) \<Longrightarrow> level_step oper"
  by unfold_locales auto

interpretation save_pre: flow_step save_pre_cond_states "up Pre_cond" "\<lambda>l. True"
  by unfold_locales (auto simp: save_pre_cond_states_keeps dest: save_pre_levels)

interpretation use_pre: flow_step use_pre_cond_states "down Pre_cond" "\<lambda>l. True"
  by unfold_locales (auto simp: use_pre_cond_states_keeps dest: use_pre_levels)

interpretation discard_pre: flow_step discard_pre_cond_states "down Pre_cond" "\<lambda>l. True"
  by unfold_locales (auto simp: discard_pre_cond_states_keeps dest: discard_pre_levels)

interpretation push_fake: flow_step push_fake_cur_stree "\<lambda>l. up Fake (up Pre_cond l)" "\<lambda>l. True"
  by unfold_locales (auto simp: push_fake_cur_stree_keeps dest: push_fake_levels)

interpretation fold_in: flow_step fold_in_set_states "\<lambda>l. down Fake (down Pre_cond l)" "\<lambda>l. True"
  by unfold_locales (auto simp: fold_in_set_states_keeps dest: fold_in_levels)

interpretation push_cond: flow_step push_cond_stacks "\<lambda>l. up Fake (up Pre_cond (up Cond_false (up Cond_true l)))" "\<lambda>l. True"
  by unfold_locales (auto simp: push_cond_stacks_keeps dest: push_cond_levels)

interpretation use_cond_true: flow_step use_cond_true_states "\<lambda>l. l" "\<lambda>l. 0 < l Pre_cond \<and> 0 < l Cond_true"
  by unfold_locales
    (auto simp: use_cond_true_states_def use_cond_stack_keeps branch_name_def dest!: use_cond_stack_levels)

interpretation use_cond_false: flow_step use_cond_false_states "\<lambda>l. l" "\<lambda>l. 0 < l Pre_cond \<and> 0 < l Cond_false"
  by unfold_locales
    (auto simp: use_cond_false_states_def use_cond_stack_keeps branch_name_def dest!: use_cond_stack_levels)

interpretation use_cond: flow_step use_cond_states
    "\<lambda>l. up False_stack (down Cond_false (down Cond_true (down Pre_cond l)))" "\<lambda>l. True"
  by unfold_locales (auto simp: use_cond_states_keeps dest: use_cond_states_levels)

interpretation negate: flow_step "\<lambda>m. Some (negate_cond_stacks m)" "\<lambda>l. l" "\<lambda>l. 0 < l Cond_true \<and> 0 < l Cond_false"
  by unfold_locales (auto simp: negate_cond_stacks_keeps negate_cond_levels)

interpretation push_true: flow_step push_true_states "up True_stack" "\<lambda>l. True"
  by unfold_locales (auto simp: push_true_states_keeps dest: push_true_levels)

interpretation use_false: flow_step use_false_states "down False_stack" "\<lambda>l. True"
  by unfold_locales (auto simp: use_false_states_keeps dest: use_false_levels)

interpretation discard_false: flow_step discard_false_states "down False_stack" "\<lambda>l. True"
  by unfold_locales (auto simp: discard_false_states_keeps dest: discard_false_levels)

interpretation nullify: flow_step nullify_path "\<lambda>l. l" "\<lambda>l. l Fake \<le> l Pre_cond"
  by unfold_locales (auto simp: nullify_path_keeps intro!: nullify_levels)

interpretation unnullify: level_step unnullify_path
  by unfold_locales (auto simp: unnullify_path_keeps dest: unnullify_path_levels)

interpretation drop_fakes: level_step "discard_fake_states c" for c
  by unfold_locales (auto simp: discard_fake_states_keeps dest: discard_fake_states_levels)

interpretation push_loop: flow_step "\<lambda>m. Some (push_breaks (push_continues m))"
    "\<lambda>l. if_fake (up Fake_breaks) (up Breaks (up Continues l))" "\<lambda>l. True"
proof unfold_locales
  show "keeps (\<lambda>m. Some (push_breaks (push_continues m)))"
    using keeps_bind [OF push_continues_keeps push_breaks_keeps] by simp
qed (auto simp: push_breaks_levels push_continues_levels)

interpretation push_switch: flow_step "\<lambda>m. Some (push_breaks (push_default m))"
    "\<lambda>l. if_fake (up Fake_breaks) (up Breaks (up Defaults l))" "\<lambda>l. True"
proof unfold_locales
  show "keeps (\<lambda>m. Some (push_breaks (push_default m)))"
    using keeps_bind [OF push_default_keeps push_breaks_keeps] by simp
qed (auto simp: push_breaks_levels default_levels)

interpretation breaks_used: flow_step use_breaks "\<lambda>l. if_fake (down Fake_breaks) (down Breaks l)" "\<lambda>l. True"
  by unfold_locales (auto simp: use_breaks_keeps dest: use_breaks_levels)

interpretation save_switch: flow_step "save_switch_states rl" "\<lambda>l. up Switches (up Cases l)" "\<lambda>l. True" for rl
  by unfold_locales (auto simp: save_switch_states_keeps dest: save_switch_levels)

interpretation drop_switch: flow_step discard_switches "\<lambda>l. down Switches (down Cases l)" "\<lambda>l. True"
  by unfold_locales (auto simp: discard_switches_keeps dest: discard_switches_levels)

interpretation set_default: flow_step set_default "\<lambda>l. l" "\<lambda>l. 0 < l Defaults"
  by unfold_locales (auto simp: set_default_keeps dest: default_levels(2))

interpretation free_set: flow_step free_set_states "\<lambda>l. down Fake (down Pre_cond l)" "\<lambda>l. True"
  by unfold_locales (auto simp: free_set_states_keeps dest: free_set_states_levels)

interpretation use_side: flow_step "use_cond_stack b" "\<lambda>l. l" "\<lambda>l. 0 < l Pre_cond \<and> 0 < l (branch_name b)" for b
  by unfold_locales (auto simp: use_cond_stack_keeps dest!: use_cond_stack_levels)

lemma run_sets_keeps: "keeps (run_sets calls)"
proof (induction calls)
  case (Cons c cs)
  obtain ow nm sy s where c: "c = (ow, nm, sy, s)" by (cases c)
  show ?case
    using keeps_bind [OF set_state_keeps Cons.IH, of ow nm sy s]
    by (simp add: c keeps_def case_prod_unfold bind_map_option comp_def)
qed (simp add: keeps_def)

interpretation sets: level_step "run_sets calls" for calls
  by (rule level_stepI [OF run_sets_keeps run_sets_levels])

interpretation count: level_step "\<lambda>m. Some (m\<lparr>fake_state_cnt := g m\<rparr>)" for g
  by (rule level_stepI) (auto simp: keeps_def elim!: good_done)

interpretation restart: level_step "\<lambda>m. Some (m\<lparr>stree_id_counter := i\<rparr>)" for i
  by (rule level_stepI) (auto simp: keeps_def elim!: good_done)

interpretation perror: level_step "\<lambda>m. Some (sm_perror msg m)" for msg
proof (rule level_stepI)
  show "keeps (\<lambda>m. Some (sm_perror msg m))" by (auto simp: keeps_def sm_perror_def elim!: good_done)
qed auto

lemmas walk_steps = save_pre.step use_pre.step discard_pre.step push_fake.step fold_in.step push_cond.step
  use_cond_true.step use_cond_false.step use_cond.step negate.step push_true.step use_false.step discard_false.step
  nullify.step unnullify.step drop_fakes.step push_loop.step push_switch.step breaks_used.step save_switch.step
  drop_switch.step set_default.step free_set.step use_side.step sets.step count.step restart.step perror.step

section \<open>The rest of the program\<close>

text \<open>
  What the walk relies on: the functions of the checkers behave, what they do at a hook leaves the depths
  of the stacks alone, and the separation of the states of a case gives a tree of its own.
\<close>

definition world_ok :: "world \<Rightarrow> bool" where
  "world_ok W \<longleftrightarrow> env_ok (the_env W)
     \<and> (\<forall>v f m'. run_ops (the_env W) (pass_to_client W v f) (mach f) = Some m' \<longrightarrow> levels m' = levels (mach f))
     \<and> (\<forall>e rl p m ps. good m (p # ps) \<longrightarrow>
          wp (separate_and_filter W e rl p m) (\<lambda>(t, m'). good m' (t # p # ps) \<and> levels m' = levels m))"

lemma world_env: "world_ok W \<Longrightarrow> env_ok (the_env W)"
  by (simp add: world_ok_def)

lemma run_ops_keeps: "env_ok E \<Longrightarrow> keeps (run_ops E xs)"
proof (induction xs)
  case (Cons x xs)
  then show ?case using keeps_bind [OF run_op_keeps Cons.IH] by (simp add: keeps_def)
qed (simp add: keeps_def)

lemma visit_step:
  assumes "world_ok W" "walk_st M l sw h f" "True" "\<And>f'. walk_st M l sw h f' \<Longrightarrow> R f'"
  shows "wp (visit W v f) R"
proof -
  let ?run = "run_ops (the_env W) (pass_to_client W v f)"
  obtain m' where m': "?run (mach f) = Some m'" "mach_st M (levels m') m'"
    using keeps_mach [OF run_ops_keeps [OF world_env [OF assms(1)]] walk_st_mach [OF assms(2)]] by blast
  moreover have "levels m' = l" using m'(1) assms(1,2) by (simp add: walk_st_def mach_st_def world_ok_def)
  ultimately have "walk_st M l sw h (f\<lparr>mach := m'\<rparr>)" using walk_st_put [OF assms(2)] by simp
  then show ?thesis using m'(1) assms(4) by (simp add: visit_def on_def)
qed

lemma pass_step:
  assumes "world_ok W" "walk_st M l sw h f" "True" "\<And>f'. walk_st M l sw h f' \<Longrightarrow> R f'"
  shows "wp (pass_expr W k e f) R"
  unfolding pass_expr_def by (rule visit_step [OF assms])

lemma post_ops_step:
  assumes "world_ok W" "walk_st M l sw h f" "True" "\<And>f'. walk_st M l sw h f' \<Longrightarrow> R f'"
  shows "wp (process_post_op_stack W f) R"
proof -
  have "wp (pass_post_ops W es f) (walk_st M l sw h)" if "walk_st M l sw h f" for es f
    using that by (induction es arbitrary: f) (auto intro!: pass_step [OF assms(1)])
  from wp_mono [OF this [OF assms(2)]] assms(4) show ?thesis by (simp add: process_post_op_stack_def)
qed

text \<open>The operations that call functions of the checkers.\<close>

lemma world_step:
  assumes "keeps oper" "\<And>m m'. oper m = Some m' \<Longrightarrow> Q (levels m) \<Longrightarrow> levels m' = g (levels m)"
    "walk_st M l sw h f" "Q l" "\<And>f'. walk_st M (g l) sw h f' \<Longrightarrow> R f'"
  shows "wp (on oper f) R"
proof -
  have "flow_step oper g Q" by unfold_locales (use assms(1,2) in auto)
  from flow_step.step [OF this assms(3-5)] show ?thesis .
qed

lemma merge_false_step:
  "world_ok W \<Longrightarrow> walk_st M l sw h f \<Longrightarrow> True \<Longrightarrow> (\<And>f'. walk_st M (down False_stack l) sw h f' \<Longrightarrow> R f') \<Longrightarrow>
    wp (on (merge_false_states (the_env W)) f) R"
  by (rule world_step [where g = "down False_stack" and Q = "\<lambda>l. True", OF merge_false_states_keeps [OF world_env]])
    (auto dest!: merge_false_levels)

lemma merge_true_step:
  "world_ok W \<Longrightarrow> walk_st M l sw h f \<Longrightarrow> True \<Longrightarrow> (\<And>f'. walk_st M (down True_stack l) sw h f' \<Longrightarrow> R f') \<Longrightarrow>
    wp (on (merge_true_states (the_env W)) f) R"
  by (rule world_step [where g = "down True_stack" and Q = "\<lambda>l. True", OF merge_true_states_keeps [OF world_env]])
    (auto dest!: merge_true_levels)

lemma merge_continues_step:
  "world_ok W \<Longrightarrow> walk_st M l sw h f \<Longrightarrow> True \<Longrightarrow> (\<And>f'. walk_st M (down Continues l) sw h f' \<Longrightarrow> R f') \<Longrightarrow>
    wp (on (merge_continues (the_env W)) f) R"
  by (rule world_step [where g = "down Continues" and Q = "\<lambda>l. True", OF merge_continues_keeps [OF world_env]])
    (auto dest!: merge_continues_levels)

lemma merge_breaks_step:
  "world_ok W \<Longrightarrow> walk_st M l sw h f \<Longrightarrow> True \<Longrightarrow> (\<And>f'. walk_st M (if_fake (down Fake_breaks) (down Breaks l)) sw h f' \<Longrightarrow> R f') \<Longrightarrow>
    wp (on (merge_breaks (the_env W)) f) R"
  by (rule world_step [where g = "\<lambda>l. if_fake (down Fake_breaks) (down Breaks l)" and Q = "\<lambda>l. True", OF merge_breaks_keeps [OF world_env]])
    (auto dest!: merge_breaks_levels)

lemma process_continues_step:
  "world_ok W \<Longrightarrow> walk_st M l sw h f \<Longrightarrow> 0 < l Continues \<Longrightarrow> (\<And>f'. walk_st M l sw h f' \<Longrightarrow> R f') \<Longrightarrow>
    wp (on (process_continues (the_env W)) f) R"
  by (rule world_step [where g = "\<lambda>l. l" and Q = "\<lambda>l. 0 < l Continues", OF process_continues_keeps [OF world_env]])
    (auto dest!: process_continues_levels)

lemma process_breaks_step:
  "world_ok W \<Longrightarrow> walk_st M l sw h f \<Longrightarrow> 0 < l Breaks \<and> (0 < l Fake \<longrightarrow> 0 < l Fake_breaks) \<Longrightarrow>
    (\<And>f'. walk_st M l sw h f' \<Longrightarrow> R f') \<Longrightarrow> wp (on (process_breaks (the_env W)) f) R"
  by (rule world_step [where g = "\<lambda>l. l" and Q = "\<lambda>l. 0 < l Breaks \<and> (0 < l Fake \<longrightarrow> 0 < l Fake_breaks)", OF process_breaks_keeps [OF world_env]])
    (auto simp: if_fake_def dest!: process_breaks_levels)

lemma save_gotos_step:
  "world_ok W \<Longrightarrow> walk_st M l sw h f \<Longrightarrow> True \<Longrightarrow> (\<And>f'. walk_st M l sw h f' \<Longrightarrow> R f') \<Longrightarrow>
    wp (on (save_gotos (the_env W) nm sy) f) R"
  by (rule world_step [where g = "\<lambda>l. l" and Q = "\<lambda>l. True", OF save_gotos_keeps [OF world_env]])
    (auto dest!: goto_levels(1))

lemma merge_gotos_step:
  "world_ok W \<Longrightarrow> walk_st M l sw h f \<Longrightarrow> True \<Longrightarrow> (\<And>f'. walk_st M l sw h f' \<Longrightarrow> R f') \<Longrightarrow>
    wp (on (merge_gotos (the_env W) nm sy) f) R"
  by (rule world_step [where g = "\<lambda>l. l" and Q = "\<lambda>l. True", OF merge_gotos_keeps [OF world_env]])
    (auto dest!: goto_levels(2))

lemma and_step:
  "world_ok W \<Longrightarrow> walk_st M l sw h f \<Longrightarrow> 1 < l Cond_true \<and> 1 < l Cond_false \<and> 0 < l Pre_cond \<Longrightarrow>
    (\<And>f'. walk_st M (down Cond_true (down Cond_false l)) sw h f' \<Longrightarrow> R f') \<Longrightarrow> wp (on (and_cond_states (the_env W)) f) R"
  by (rule world_step [where g = "\<lambda>l. down Cond_true (down Cond_false l)" and Q = "\<lambda>l. 1 < l Cond_true \<and> 1 < l Cond_false \<and> 0 < l Pre_cond", OF and_cond_states_keeps [OF world_env]])
    (auto simp: fun_eq_iff up_def down_def touch_def dest!: and_cond_states_levels)

lemma or_step:
  "world_ok W \<Longrightarrow> walk_st M l sw h f \<Longrightarrow> 1 < l Cond_true \<and> 1 < l Cond_false \<and> 0 < l Pre_cond \<Longrightarrow>
    (\<And>f'. walk_st M (down Cond_true (down Cond_false l)) sw h f' \<Longrightarrow> R f') \<Longrightarrow> wp (on (or_cond_states (the_env W)) f) R"
  by (rule world_step [where g = "\<lambda>l. down Cond_true (down Cond_false l)" and Q = "\<lambda>l. 1 < l Cond_true \<and> 1 < l Cond_false \<and> 0 < l Pre_cond", OF or_cond_states_keeps [OF world_env]])
    (auto simp: fun_eq_iff up_def down_def touch_def dest!: or_cond_states_levels)

lemmas world_steps = visit_step pass_step post_ops_step merge_false_step merge_true_step merge_continues_step merge_breaks_step
  process_continues_step process_breaks_step save_gotos_step merge_gotos_step and_step or_step

end
