(* ===== verification/Cond_Balance.thy ===== *)
theory Cond_Balance
  imports Flow_Balance
begin

text \<open>
  The contracts of the parts of the walk, and that the walk over a condition keeps them when the walks
  over its parts do.
\<close>

section \<open>Contracts\<close>

text \<open>
  Where a statement stands: in a loop or switch that a break leaves, in a loop, in a switch. Made up
  states always come with saved states.
\<close>

definition ctx :: "bool \<Rightarrow> bool \<Rightarrow> bool \<Rightarrow> (stack_name \<Rightarrow> nat) \<Rightarrow> expr list \<Rightarrow> bool" where
  "ctx b c s l sw \<longleftrightarrow> l Fake \<le> l Pre_cond \<and> (b \<longrightarrow> 0 < l Breaks \<and> (0 < l Fake \<longrightarrow> 0 < l Fake_breaks))
     \<and> (c \<longrightarrow> 0 < l Continues) \<and> (s \<longrightarrow> 0 < l Switches \<and> 0 < l Cases \<and> 0 < l Defaults \<and> sw \<noteq> [])"

text \<open>A walk that leaves every stack as deep as it was.\<close>

definition stmt_ok :: "bool \<Rightarrow> bool \<Rightarrow> bool \<Rightarrow> nat \<Rightarrow> walk \<Rightarrow> bool" where
  "stmt_ok b c s n w \<longleftrightarrow>
     (\<forall>M l sw h f. walk_st M l sw h f \<longrightarrow> ctx b c s l sw \<and> (n = 0 \<longrightarrow> h) \<longrightarrow> wp (w f) (walk_st M l sw h))"

abbreviation expr_ok :: "nat \<Rightarrow> walk \<Rightarrow> bool" where
  "expr_ok \<equiv> stmt_ok False False False"

text \<open>
  The walk over a condition starts with the made up states and the two trees of outcomes that
  \<^verbatim>\<open>__push_cond_stacks\<close> pushes, and folds the made up states in.
\<close>

definition conds :: "(stack_name \<Rightarrow> nat) \<Rightarrow> bool" where
  "conds l \<longleftrightarrow> 0 < l Fake \<and> l Fake < l Pre_cond \<and> 0 < l Cond_true \<and> 0 < l Cond_false"

definition cond_ok :: "nat \<Rightarrow> cond_walk \<Rightarrow> bool" where
  "cond_ok n w \<longleftrightarrow>
     (\<forall>M l sw h tf f. walk_st M l sw h f \<longrightarrow> conds l \<and> (n = 0 \<longrightarrow> h) \<longrightarrow>
        wp (w tf f) (\<lambda>(tf', f'). walk_st M (down Fake (down Pre_cond l)) sw h f'))"

lemma ctx_plain [simp]: "ctx False False False l sw \<longleftrightarrow> l Fake \<le> l Pre_cond"
  by (simp add: ctx_def)

lemma ctxD: "ctx b c s l sw \<Longrightarrow> l Fake \<le> l Pre_cond"
  by (simp add: ctx_def)

lemma stmt_okI:
  "(\<And>M l sw h f. walk_st M l sw h f \<Longrightarrow> ctx b c s l sw \<Longrightarrow> n = 0 \<longrightarrow> h \<Longrightarrow> wp (w f) (walk_st M l sw h)) \<Longrightarrow> stmt_ok b c s n w"
  by (simp add: stmt_ok_def)

lemma stmt_okD:
  "stmt_ok b c s n w \<Longrightarrow> walk_st M l sw h f \<Longrightarrow> ctx b c s l sw \<and> (n = 0 \<longrightarrow> h) \<Longrightarrow> (\<And>f'. walk_st M l sw h f' \<Longrightarrow> R f') \<Longrightarrow>
    wp (w f) R"
  unfolding stmt_ok_def by (blast intro: wp_mono)

lemma cond_okI:
  "(\<And>M l sw h tf f. walk_st M l sw h f \<Longrightarrow> conds l \<Longrightarrow> n = 0 \<longrightarrow> h \<Longrightarrow>
      wp (w tf f) (\<lambda>(tf', f'). walk_st M (down Fake (down Pre_cond l)) sw h f')) \<Longrightarrow> cond_ok n w"
  by (simp add: cond_ok_def)

lemma cond_okD:
  assumes "cond_ok n w" "walk_st M l sw h f" "conds l \<and> (n = 0 \<longrightarrow> h)"
    "\<And>tf' f'. walk_st M (down Fake (down Pre_cond l)) sw h f' \<Longrightarrow> R (tf', f')"
  shows "wp (w tf f) R"
proof -
  have "wp (w tf f) (\<lambda>(tf', f'). walk_st M (down Fake (down Pre_cond l)) sw h f')" using assms(1-3) unfolding cond_ok_def by blast
  then show ?thesis by (rule wp_mono) (use assms(4) in auto)
qed

lemma walk_st_eq: "walk_st M l sw h f \<Longrightarrow> l = l' \<Longrightarrow> walk_st M l' sw h f"
  by simp

lemmas level_eqs = up_def down_def touch_def if_fake_def fun_eq_iff

lemma ctx_mono: "stmt_ok False False False n w \<Longrightarrow> stmt_ok b c s n w"
  unfolding stmt_ok_def ctx_def by blast

lemma skip_ok [simp]: "stmt_ok b c s n Some"
  by (simp add: stmt_ok_def)

section \<open>Parts of conditions\<close>

lemma null_condition_ok: "cond_ok n null_condition"
  by (rule cond_okI) (simp add: null_condition_def, rule walk_steps, assumption, simp, simp)

lemma handle_negation_ok:
  assumes "cond_ok n a"
  shows "cond_ok n (handle_negation a)"
proof (rule cond_okI)
  fix M l sw h tf f assume "walk_st M l sw h f" and l: "conds l" "n = 0 \<longrightarrow> h"
  then show "wp (handle_negation a tf f) (\<lambda>(tf', f'). walk_st M (down Fake (down Pre_cond l)) sw h f')"
    unfolding handle_negation_def wp_simps
    by - (rule cond_okD [OF assms], assumption, simp, simp, rule walk_steps, assumption, simp_all add: conds_def)
qed

lemma handle_logical_ok:
  assumes W: "world_ok W" and "cond_ok n a" "cond_ok n b"
  shows "cond_ok n (handle_logical W is_and a b)"
proof (rule cond_okI)
  fix M l sw h tf f assume "walk_st M l sw h f" and l: "conds l" "n = 0 \<longrightarrow> h"
  then show "wp (handle_logical W is_and a b tf f) (\<lambda>(tf', f'). walk_st M (down Fake (down Pre_cond l)) sw h f')"
    unfolding handle_logical_def wp_simps
    by (cases is_and; simp)
      ((rule cond_okD [OF assms(2)] cond_okD [OF assms(3)] walk_steps world_steps [OF W], assumption, simp add: conds_def, simp?)+,
       (erule walk_st_eq, auto simp: level_eqs)?)+
qed

lemma handle_comma_ok: "expr_ok n a \<Longrightarrow> cond_ok n b \<Longrightarrow> cond_ok n (handle_comma a b)"
  by (rule cond_okI)
    (simp add: handle_comma_def, rule stmt_okD, assumption+, simp add: conds_def, rule cond_okD, assumption+, simp_all)

lemma do_condition_step:
  assumes W: "world_ok W" and "walk_st M l sw h f" "True" "\<And>f'. walk_st M (down Fake (down Pre_cond l)) sw h f' \<Longrightarrow> R f'"
  shows "wp (do_condition W e f) R"
  using assms(2) unfolding do_condition_def wp_simps
  by - ((rule walk_steps world_steps [OF W], assumption, simp)+, rule assms(4), erule walk_st_eq, auto simp: level_eqs)

lemma simple_condition_ok:
  assumes W: "world_ok W" and "expr_ok n a" "expr_ok n b"
  shows "cond_ok n (simple_condition W e a b)"
proof (rule cond_okI)
  fix M l sw h tf f assume "walk_st M l sw h f" and l: "conds l" "n = 0 \<longrightarrow> h"
  note steps = stmt_okD [OF assms(2)] stmt_okD [OF assms(3)] walk_steps world_steps [OF W] do_condition_step [OF W]
  have fake: "down Fake (down Pre_cond l) Fake \<le> down Fake (down Pre_cond l) Pre_cond" using l(1) by (auto simp: conds_def)
  have 1: "wp (on push_fake_cur_stree f') (\<lambda>f. wp (process_post_op_stack W f) (\<lambda>f. wp (on fold_in_set_states f) (walk_st M l' sw h)))"
    if "walk_st M l' sw h f'" for f' l'
    using that by - ((rule steps, assumption, simp)+, (erule walk_st_eq)?, auto simp: level_eqs)
  from \<open>walk_st M l sw h f\<close> l
  show "wp (simple_condition W e a b tf f) (\<lambda>(tf', f'). walk_st M (down Fake (down Pre_cond l)) sw h f')"
    unfolding simple_condition_def wp_simps Let_def
    apply -
    apply (rule steps(1), assumption, simp add: conds_def)
    apply (rule steps, assumption, simp)
    apply (rule steps(2), assumption, use fake in simp)
    apply (cases tf; simp)
     apply (erule 1)
    apply (rule walk_steps, assumption, simp, erule 1)
    done
qed

lemma simple_compare_ok:
  assumes W: "world_ok W" and "expr_ok n a" "expr_ok n b"
  shows "cond_ok n (simple_compare W c l r a b)"
  unfolding simple_compare_def
proof (rule simple_condition_ok [OF W])
  show "expr_ok n (\<lambda>f. do { f \<leftarrow> (if is_postop l then Some f else a f); if is_postop r then Some f else b f })"
    by (rule stmt_okI) (auto intro!: stmt_okD [OF assms(2)] stmt_okD [OF assms(3)])
  show "expr_ok n (\<lambda>f. do { f \<leftarrow> (if is_postop l then a f else Some f); if is_postop r then b f else Some f })"
    by (rule stmt_okI) (auto intro!: stmt_okD [OF assms(2)] stmt_okD [OF assms(3)])
qed

lemma handle_compare_ok:
  assumes W: "world_ok W" and e: "expr_ok n a" "expr_ok n b" and c: "cond_ok n a'" "cond_ok n b'"
  shows "cond_ok n (handle_compare W c l r a b a' b')"
proof (rule cond_okI)
  fix M lv sw h tf f assume f: "walk_st M lv sw h f" and l: "conds lv" "n = 0 \<longrightarrow> h"
  let ?P = "\<lambda>(tf' :: bool option, f'). walk_st M (down Fake (down Pre_cond lv)) sw h f'"
  have sub: "wp (w tf f) ?P" if "cond_ok n w" "walk_st M lv sw h f" for w f
    by (rule cond_okD [OF that]) (use l in auto)
  have arg: "wp (if q then Some f else w f) R" if "expr_ok n w" "\<And>f. walk_st M lv sw h f \<Longrightarrow> R f" for q w R
    using f l that by (auto simp: conds_def intro!: stmt_okD [OF that(1)])
  have alt: "wp (if q = SPECIAL_NOTEQUAL then w tf f else if q = SPECIAL_EQUAL then handle_negation w tf f
      else simple_compare W q l r a b tf f) ?P" if "cond_ok n w" "walk_st M lv sw h f" for q w f
    using that by (simp add: sub handle_negation_ok simple_compare_ok [OF W e])
  show "wp (handle_compare W c l r a b a' b' tf f) ?P"
  proof (cases "expr_is_zero W l f")
    case True
    then show ?thesis
      unfolding handle_compare_def Let_def by (simp only: if_True wp_simps) (intro arg [OF e(1)] alt [OF c(2)], assumption)
  next
    case False
    then show ?thesis
      unfolding handle_compare_def Let_def
      by (cases "expr_is_zero W r f"; simp only: if_True if_False wp_simps)
        (intro arg [OF e(2)] alt [OF c(1)] sub [OF simple_compare_ok [OF W e] f], assumption?)+
  qed
qed

lemma handle_expr_statement_conditions_ok:
  assumes W: "world_ok W" and "expr_ok n a" "expr_ok n b" "cond_ok n c"
  shows "cond_ok n (handle_expr_statement_conditions W a b c)"
proof (rule cond_okI)
  fix M l sw h tf f assume f: "walk_st M l sw h f" and l: "conds l" "n = 0 \<longrightarrow> h"
  then have "walk_st M l sw h (f\<lparr>expr_stmt_count := expr_stmt_count f + 1\<rparr>)" by simp
  then show "wp (handle_expr_statement_conditions W a b c tf f) (\<lambda>(tf', f'). walk_st M (down Fake (down Pre_cond l)) sw h f')"
    unfolding handle_expr_statement_conditions_def wp_simps
    by - (rule stmt_okD [OF assms(2)], assumption, use l in \<open>simp add: conds_def\<close>, rule stmt_okD [OF assms(3)], assumption,
      use l in \<open>simp add: conds_def\<close>, rule cond_okD [OF assms(4)], assumption, use l in simp, simp, rule world_steps [OF W], assumption, simp_all)
qed

section \<open>Whole conditions\<close>

text \<open>The states of the outcome that does not hold stay on a stack.\<close>

lemma split_whole_condition_tf_step:
  assumes W: "world_ok W" and "cond_ok n a" "walk_st M l sw h f" "l Fake \<le> l Pre_cond \<and> (n = 0 \<longrightarrow> h)"
    "\<And>tf f'. walk_st M (up False_stack l) sw h f' \<Longrightarrow> R (tf, f')"
  shows "wp (split_whole_condition_tf W e a f) R"
proof -
  have "walk_st M l sw h (f\<lparr>inside_condition := inside_condition f + 1\<rparr>)" using assms(3) by simp
  then show ?thesis unfolding split_whole_condition_tf_def wp_simps
    apply -
    apply ((rule walk_steps, assumption, simp)+)
    apply (rule cond_okD [OF assms(2)], assumption)
    using assms(4) apply (simp add: conds_def)
    apply (simp, (rule walk_steps world_steps [OF W], assumption, simp)+)
    apply (rule assms(5), simp)
    apply (erule walk_st_eq, auto simp: level_eqs)
    done
qed

lemma split_whole_condition_step:
  assumes "world_ok W" "cond_ok n a" "walk_st M l sw h f" "l Fake \<le> l Pre_cond \<and> (n = 0 \<longrightarrow> h)"
    "\<And>f'. walk_st M (up False_stack l) sw h f' \<Longrightarrow> R f'"
  shows "wp (split_whole_condition W e a f) R"
  unfolding split_whole_condition_def wp_simps by (rule split_whole_condition_tf_step [OF assms(1-4)]) (use assms(5) in auto)

lemma handle_logic_ok:
  assumes W: "world_ok W" and "cond_ok n a"
  shows "expr_ok n (handle_logic W e a)"
proof (rule stmt_okI)
  fix M l sw h f assume f: "walk_st M l sw h f" "ctx False False False l sw" "n = 0 \<longrightarrow> h"
  then have "walk_st M l sw h (f\<lparr>inside_condition := inside_condition f + 1\<rparr>)" by simp
  then show "wp (handle_logic W e a f) (walk_st M l sw h)" unfolding handle_logic_def wp_simps
    apply -
    apply ((rule walk_steps, assumption, simp)+)
    apply (rule cond_okD [OF assms(2)], assumption)
    using f(2,3) apply (simp add: conds_def)
    apply (simp, (rule walk_steps world_steps [OF W], assumption, simp)+)
    apply (simp, erule walk_st_eq, auto simp: level_eqs)
    done
qed

end
