(* ===== verification/Tree_Steps.thy ===== *)
theory Tree_Steps
  imports Flow_Balance
begin

text \<open>
  The steps of functions that hold trees in local variables: a multiset of pointers says which trees the
  function has in hand.
\<close>

lemma mach_st_null: "mach_st M l m \<Longrightarrow> mach_st (add_mset None M) l m"
  unfolding mach_st_def by (metis good_null mset.simps(2))

lemma mach_st_drop:
  assumes "mach_st (add_mset p M) l m"
  shows "mach_st M l m"
  using assms by (rule mach_stE) (auto intro: mach_stI good_drop)

lemma mach_st_less:
  assumes "mach_st M l m" "N \<subseteq># M"
  shows "mach_st N l m"
proof -
  obtain K where "M = N + K" using assms(2) by (rule mset_subset_eq_exists_conv [THEN iffD1, THEN exE])
  with assms(1) show ?thesis by (induction K arbitrary: M) (auto dest: mach_st_drop)
qed

lemma mach_st_pick:
  assumes "mach_st M l m" "p \<in># M"
  obtains ps where "good m (p # ps)" "mset ps = M - {#p#}" "levels m = l"
  using assms by (metis mach_stE insert_DiffM)

lemma clone_mach:
  assumes "mach_st M l m" "p \<in># M" "\<And>m'. mach_st (add_mset p M) l m' \<Longrightarrow> R (p, m')"
  shows "wp (clone_tree p m) R"
proof -
  obtain ps where ps: "good m ps" "mset ps = M" "levels m = l" using assms(1) by (auto simp: mach_st_def)
  have "p \<in># hand m ps" using ps(2) assms(2) by auto
  then show ?thesis by (rule good_clone [OF ps(1)]) (rule assms(3), use ps in \<open>auto intro: mach_stI\<close>)
qed

lemma clone_cur_step:
  assumes "mach_st M l m" "True" "\<And>m'. mach_st (add_mset (cur_stree m) M) l m' \<Longrightarrow> R (cur_stree m, m')"
  shows "wp (clone_tree (cur_stree m) m) R"
proof -
  obtain ps where ps: "good m ps" "mset ps = M" "levels m = l" using assms(1) by (auto simp: mach_st_def)
  show ?thesis by (rule good_clone [OF ps(1)]) (simp, rule assms(3), use ps in \<open>auto intro: mach_stI\<close>)
qed

lemma free_mach:
  assumes "mach_st M l m" "p \<in># M" "\<And>m'. mach_st (M - {#p#}) l m' \<Longrightarrow> R m'"
  shows "wp (free_tree p m) R"
proof -
  obtain ps where ps: "good m (p # ps)" "mset ps = M - {#p#}" "levels m = l" by (rule mach_st_pick [OF assms(1,2)])
  show ?thesis by (rule good_free [OF ps(1)]) (rule assms(3), use ps(2,3) in \<open>auto intro: mach_stI\<close>)
qed

lemma overwrite_mach:
  assumes "mach_st M l m" "to \<in># M \<and> from \<in># M" "\<And>q m'. mach_st (add_mset q (M - {#to#})) l m' \<Longrightarrow> R (q, m')"
  shows "wp (overwrite_tree from to m) R"
proof -
  obtain ps where ps: "good m (to # ps)" "mset ps = M - {#to#}" "levels m = l" using mach_st_pick [OF assms(1)] assms(2) by blast
  have "from \<in># mset (to # ps)" using ps(2) assms(2) by simp
  then have "from \<in># hand m (to # ps)" by auto
  then show ?thesis by (rule good_overwrite [OF ps(1)]) (rule assms(3), use ps(2,3) in \<open>auto intro!: mach_stI\<close>)
qed

lemma overwrite_new_step:
  assumes "mach_st M l m" "from \<in># M" "\<And>q m'. mach_st (add_mset q M) l m' \<Longrightarrow> R (q, m')"
  shows "wp (overwrite_tree from None m) R"
  by (rule overwrite_mach [OF mach_st_null [OF assms(1)]]) (use assms(2,3) in auto)

lemma merge_step:
  assumes "env_ok E" "mach_st M l m" "p \<in># M \<and> q \<in># M" "\<And>r m'. mach_st (add_mset r (M - {#p#})) l m' \<Longrightarrow> R (r, m')"
  shows "wp (merge_stree E (\<lambda>m. p) q m) R"
proof -
  obtain ps where ps: "good m (p # ps)" "mset ps = M - {#p#}" "levels m = l" using mach_st_pick [OF assms(2)] assms(3) by blast
  have "q \<in># mset (p # ps)" using ps(2) assms(3) by simp
  then have "q \<in># hand m (p # ps)" by auto
  from good_merge [OF ps(1) this assms(1), of "\<lambda>(r, m'). good m' (r # ps)" True]
  obtain r m' where r: "merge_stree E (\<lambda>m. p) q m = Some (r, m')" "good m' (r # ps)" by (auto simp: wp_def merge_stree_def)
  have "mach_st (add_mset r (M - {#p#})) l m'"
    by (rule mach_stI [OF r(2)]) (use merge_stree_levels [OF r(1)] ps in auto)
  then show ?thesis using r(1) assms(4) by simp
qed

lemma merge_cur_step:
  assumes "env_ok E" "mach_st M l m" "p \<in># M" "\<And>r m'. mach_st (add_mset r (M - {#p#})) l m' \<Longrightarrow> R (r, m')"
  shows "wp (merge_stree E (\<lambda>m. p) (cur_stree m) m) R"
proof -
  obtain ps where ps: "good m (p # ps)" "mset ps = M - {#p#}" "levels m = l" using mach_st_pick [OF assms(2,3)] by blast
  have "cur_stree m \<in># hand m (p # ps)" by simp
  from good_merge [OF ps(1) this assms(1), of "\<lambda>(r, m'). good m' (r # ps)" True]
  obtain r m' where r: "merge_stree E (\<lambda>m. p) (cur_stree m) m = Some (r, m')" "good m' (r # ps)"
    by (auto simp: wp_def merge_stree_def)
  have "mach_st (add_mset r (M - {#p#})) l m'"
    by (rule mach_stI [OF r(2)]) (use merge_stree_levels [OF r(1)] ps in auto)
  then show ?thesis using r(1) assms(4) by simp
qed

lemma pop_fake_step:
  assumes "mach_st M l m" "True" "\<And>p m'. mach_st (add_mset p M) (down Fake (down Pre_cond l)) m' \<Longrightarrow> R (p, m')"
  shows "wp (pop_fake_cur_stree m) R"
proof -
  obtain ps where ps: "good m ps" "mset ps = M" "levels m = l" using assms(1) by (auto simp: mach_st_def)
  obtain p m' where p: "pop_fake_cur_stree m = Some (p, m')" "good m' (p # ps)"
    using pop_fake_good [OF ps(1)] by (auto simp: wp_def)
  have "mach_st (add_mset p M) (down Fake (down Pre_cond l)) m'"
    by (rule mach_stI [OF p(2)]) (use pop_fake_levels [OF p(1)] ps in auto)
  then show ?thesis using p(1) assms(3) by simp
qed

lemma pop_cond_step:
  assumes "mach_st M l m" "pop_cond_stack b m = (p, m')"
  shows "mach_st (add_mset p M) (down (branch_name b) l) m'"
proof -
  obtain ps where ps: "good m ps" "mset ps = M" "levels m = l" using assms(1) by (auto simp: mach_st_def)
  have "good m' (p # ps)"
    using cond_true_st.good_pop [OF ps(1)] cond_false_st.good_pop [OF ps(1)] assms(2)
    by (cases b) (auto simp: pop_cond_stack_def cond_stack_def set_cond_stack_def pop_stree_def split: if_splits)
  then show ?thesis by (rule mach_stI) (use pop_cond_levels [OF assms(2)] ps in auto)
qed

lemma push_cond_good:
  assumes "mach_st (add_mset p M) l m"
  shows "mach_st M (up (branch_name b) l) (push_cond_stack b p m)"
proof -
  obtain ps where ps: "good m (p # ps)" "mset ps = M" "levels m = l" using assms by (rule mach_stE)
  have "good (push_cond_stack b p m) ps"
    using cond_true_st.good_push [OF ps(1)] cond_false_st.good_push [OF ps(1)]
    by (cases b) (auto simp: push_cond_stack_def cond_stack_def set_cond_stack_def push_stree_def)
  then show ?thesis by (rule mach_stI) (use ps in auto)
qed

lemma copy_cond_step:
  assumes "mach_st M l m" "0 < l (branch_name b)" "\<And>p m'. mach_st (add_mset p M) l m' \<Longrightarrow> R (p, m')"
  shows "wp (copy_cond_states b m) R"
proof -
  obtain p m1 where p: "pop_cond_stack b m = (p, m1)" by force
  note 1 = pop_cond_step [OF assms(1) p]
  show ?thesis unfolding copy_cond_states_def Let_def p wp_simps prod.case
  proof (rule clone_mach [OF 1])
    fix m' assume "mach_st (add_mset p (add_mset p M)) (down (branch_name b) l) m'"
    from push_cond_good [OF this, of b] assms(2)
    show "wp (case (p, m') of (q, m) \<Rightarrow> Some (p, push_cond_stack b q m)) R" using assms(3) by simp
  qed simp
qed

text \<open>Setting the states of a tree in hand.\<close>

lemma kept_set_side:
  assumes "kept m ps vs" "v \<in> set vs" "v (key x) = Some x"
  shows "wp (if b then set_true_false_sm (Some x) None m else set_true_false_sm None (Some x) m) (\<lambda>m'. kept m' ps vs)"
proof -
  note r = kept_repr [OF assms(1)]
  have err: "kept (sm_perror msg m) ps vs" for msg
    using assms(1) by (auto simp: kept_def sm_perror_def elim: good_done)
  have p: "picks (set_mset (holders S) \<union> set vs) (set_mset (holders (S\<lparr>cond_true_stack := map_top (\<lambda>f. f(key x \<mapsto> x)) (cond_true_stack S)\<rparr>)))"
    "picks (set_mset (holders S) \<union> set vs) (set_mset (holders (S\<lparr>cond_false_stack := map_top (\<lambda>f. f(key x \<mapsto> x)) (cond_false_stack S)\<rparr>)))" for S
    using assms(2,3) by (auto simp: picks_def holders_set map_top_def split: if_splits dest!: top_map_Some in_butlast)
  have "wp (overwrite_sm_state_stree_stack (strees m) (cond_true_stack m) x) (\<lambda>(stack, st). kept (m\<lparr>cond_true_stack := stack, strees := st\<rparr>) ps vs)"
    by (rule cond_true_st.overwrite_top_wp [OF r], drule kept_step [OF assms(1)])
      (use p [of "stacks_of m"] in \<open>simp_all add: same_rest_def control_of_def\<close>)
  moreover have "wp (overwrite_sm_state_stree_stack (strees m) (cond_false_stack m) x) (\<lambda>(stack, st). kept (m\<lparr>cond_false_stack := stack, strees := st\<rparr>) ps vs)"
    by (rule cond_false_st.overwrite_top_wp [OF r], drule kept_step [OF assms(1)])
      (use p [of "stacks_of m"] in \<open>simp_all add: same_rest_def control_of_def\<close>)
  ultimately show ?thesis using assms(1) err by (simp add: set_true_false_sm_def case_prod_unfold)
qed

lemma set_cond_sms_kept:
  "kept m ps vs \<Longrightarrow> v \<in> set vs \<Longrightarrow> \<forall>x \<in> set xs. v (key x) = Some x \<Longrightarrow> wp (set_cond_sms b xs m) (\<lambda>m'. kept m' ps vs)"
proof (induction xs arbitrary: m)
  case (Cons x xs)
  from Cons.prems kept_set_side [OF Cons.prems(1,2), of x b] show ?case
    by (auto elim!: wp_mono intro!: Cons.IH split del: if_split)
qed simp

lemma set_sms_kept:
  "kept m ps vs \<Longrightarrow> v \<in> set vs \<Longrightarrow> \<forall>x \<in> set xs. v (key x) = Some x \<Longrightarrow> wp (set_sms xs m) (\<lambda>m'. kept m' ps vs)"
proof (induction xs arbitrary: m)
  case (Cons x xs)
  from Cons.prems kept_set_sm [OF Cons.prems(1,2), of x] show ?case by (auto elim!: wp_mono intro!: Cons.IH)
qed simp

lemma set_loop_levels:
  "set_cond_sms b xs m = Some m' \<Longrightarrow> levels m' = levels m" "set_sms xs m = Some m' \<Longrightarrow> levels m' = levels m"
  by (induction xs arbitrary: m)
    (auto split: bind_splits if_splits dest!: set_true_false_sm_levels set_sm_levels)

lemma set_loop_step:
  assumes "mach_st M l m" "p \<in># M"
    and loop: "\<And>m ps vs v xs. kept m ps vs \<Longrightarrow> v \<in> set vs \<Longrightarrow> \<forall>x \<in> set xs. v (key x) = Some x \<Longrightarrow> wp (loop xs m) (\<lambda>m'. kept m' ps vs)"
    and lv: "\<And>xs m m'. loop xs m = Some m' \<Longrightarrow> levels m' = levels m"
    and R: "\<And>m'. mach_st M l m' \<Longrightarrow> R m'"
  shows "wp (states_of (strees m) p) (\<lambda>xs. wp (loop xs m) R)"
proof -
  obtain ps where ps: "good m (p # ps)" "mset ps = M - {#p#}" "levels m = l" by (rule mach_st_pick [OF assms(1,2)])
  show ?thesis
  proof (rule good_states [OF ps(1)])
    fix xs assume xs: "\<forall>x \<in> set xs. view (strees m) p (key x) = Some x"
    have "kept m (p # ps) (view (strees m) p # map (view (strees m)) ps)" using ps(1) by (simp add: kept_def)
    from loop [OF this _ xs] obtain m' where m': "loop xs m = Some m'" "good m' (p # ps)" by (auto simp: wp_def kept_def)
    have "mach_st M l m'" by (rule mach_stI [OF m'(2)]) (use lv [OF m'(1)] ps assms(2) in auto)
    then show "wp (loop xs m) R" using R m'(1) by simp
  qed simp
qed

lemma set_cond_sms_step:
  assumes "mach_st M l m" "p \<in># M" "\<And>m'. mach_st M l m' \<Longrightarrow> R m'"
  shows "wp (states_of (strees m) p) (\<lambda>xs. wp (set_cond_sms b xs m) R)"
  by (rule set_loop_step [OF assms(1,2) set_cond_sms_kept set_loop_levels(1) assms(3)])

lemma set_sms_step:
  assumes "mach_st M l m" "p \<in># M" "\<And>m'. mach_st M l m' \<Longrightarrow> R m'"
  shows "wp (states_of (strees m) p) (\<lambda>xs. wp (set_sms xs m) R)"
  by (rule set_loop_step [OF assms(1,2) set_sms_kept set_loop_levels(2) assms(3)])

text \<open>Operations that have no local pointers.\<close>

lemma op_step:
  assumes "keeps oper" "\<And>m'. oper m = Some m' \<Longrightarrow> levels m' = g (levels m)" "mach_st M l m" "\<And>m'. mach_st M (g l) m' \<Longrightarrow> R m'"
  shows "wp (oper m) R"
proof -
  obtain m' where m': "oper m = Some m'" "mach_st M (levels m') m'" using keeps_mach [OF assms(1,3)] by blast
  then have "mach_st M (g l) m'" using assms(2) [OF m'(1)] assms(3) by (simp add: mach_st_def)
  with m'(1) assms(4) show ?thesis by simp
qed

section \<open>Merging a tree in hand state by state\<close>

lemma kept_set_new:
  assumes "kept m ps vs" "grown (sms m) h"
    "(\<exists>f \<in> set_mset (holders (stacks_of m)) \<union> set vs. f (key x) = Some x) \<or> next_sm (sms m) \<le> sm_addr x \<and> sm_addr x < next_sm h"
  shows "wp (set_sm x (m\<lparr>sms := h\<rparr>)) (\<lambda>m'. kept m' ps vs)"
proof -
  let ?S = "stacks_of m" let ?F = "set_mset (holders ?S) \<union> set vs"
  have g: "good m ps" and vs: "vs = map (view (strees m)) ps" using assms(1) by (auto simp: kept_def)
  have r: "repr (m\<lparr>sms := h\<rparr>) ps ?S vs" using kept_repr [OF assms(1)] by (auto elim!: repr_done)
  let ?T = "if cur_stree ?S = Map.empty then ?S else spec_set (key x) x x ?S"
  have new: "(\<exists>f \<in> set_mset (holders ?S). f k = Some z) \<or> z = x \<and> k = key x" if "f \<in># holders ?T" "f k = Some z" for f k z
    using that by (auto simp: holders_set spec_set_def put_top_def map_top_def split: if_splits dest!: top_map_Some in_butlast)
  have "fam (sms m) ?F" using g by (simp add: good_def holders_value vs image_Un)
  then have fam: "fam h (set_mset (holders ?T) \<union> set vs)"
  proof (rule fam_fresh [OF _ assms(2), where s = "state x"], intro ballI allI impI)
    fix f k z assume f: "f \<in> set_mset (holders ?T) \<union> set vs" "f k = Some z"
    show "(\<exists>f \<in> ?F. f k = Some z) \<or> next_sm (sms m) \<le> sm_addr z \<and> sm_addr z < next_sm h \<and> state z = state x"
      using f new [of f k z] assms(3) by blast
  qed
  have "kept m' ps vs"
    if "repr m' ps ?T vs" "same_rest (m\<lparr>sms := h\<rparr>) m'" for m'
  proof -
    have "good m' ps" by (rule goodI [OF that(1)]) (use fam that(2) g in \<open>auto simp: same_rest_def control_of_def good_def\<close>)
    then show ?thesis using that(1) by (simp add: kept_def repr_def)
  qed
  moreover have "read_only (m\<lparr>sms := h\<rparr>) = 0" using g by (simp add: good_def)
  ultimately show ?thesis by (intro wp_mono [OF set_sm_wp [OF r]]) auto
qed

lemma merge_into_cur_loop_kept:
  assumes "env_ok E"
  shows "kept m ps vs \<Longrightarrow> v \<in> set vs \<Longrightarrow> \<forall>x \<in> set xs. v (key x) = Some x \<Longrightarrow> wp (merge_into_cur_loop E xs m) (\<lambda>m'. kept m' ps vs)"
proof (induction xs arbitrary: m)
  case (Cons x xs)
  have g: "good m ps" using Cons.prems(1) by (simp add: kept_def)
  let ?cur = "view (strees m) (cur_stree m)"
  have cur: "?cur \<in># holders (stacks_of m)" by (simp add: holders_value)
  have x: "v (key x) = Some x" "TKey (owner x) (name x) (sym x) = key x" using Cons.prems(3) by (simp_all add: key_def)
  have go: "wp (set_sm z (m\<lparr>sms := h\<rparr>)) (\<lambda>m. wp (merge_into_cur_loop E xs m) (\<lambda>m'. kept m' ps vs))"
    if "grown (sms m) h" "(\<exists>f \<in> set_mset (holders (stacks_of m)) \<union> set vs. f (key z) = Some z)
      \<or> next_sm (sms m) \<le> sm_addr z \<and> sm_addr z < next_sm h" for z h
    by (rule wp_mono [OF kept_set_new [OF Cons.prems(1) that]], rule Cons.IH) (use Cons.prems in auto)
  show ?case
  proof (cases "?cur (key x)")
    case None
    then show ?thesis using go [of "sms m" x] Cons.prems(2) x by (auto simp: get_sm_state_good [OF g])
  next
    case (Some y)
    then have y: "key y = key x" by (rule view_key)
    show ?thesis
    proof (cases "sm_addr y = sm_addr x \<or> oom E m")
      case True
      then have "merge_sm_states (cf E) (merge_funcs E) (oom E m) (sms m) y x = Some (y, sms m)" by (auto simp: merge_sm_states_def)
      then show ?thesis using go [of "sms m" y] Some cur y by (auto simp: get_sm_state_good [OF g] x(2))
    next
      case False
      obtain z h where z: "merge_sm_states (cf E) (merge_funcs E) False (sms m) y x = Some (z, h)" "joins E (sms m) h (y, x) z"
        "next_sm (sms m) \<le> sm_addr z" "grown (sms m) h"
        using merge_sm_states_total [of E y x "sms m"] assms False by (auto simp: env_ok_def)
      then show ?thesis using go [of h z] Some False by (auto simp: get_sm_state_good [OF g] x(2) joins_def)
    qed
  qed
qed simp

lemma merge_into_cur_tree_step:
  assumes "env_ok E" "mach_st M l m" "p \<in># M" "\<And>m'. mach_st M l m' \<Longrightarrow> R m'"
  shows "wp (merge_stree_into_cur E p m) R"
  unfolding merge_stree_into_cur_def wp_simps
  by (rule set_loop_step [OF assms(2,3) merge_into_cur_loop_kept [OF assms(1)] merge_into_loop_levels assms(4)])

lemma merge_hand_step:
  assumes "env_ok E" "mach_st M l m" "p \<in># M" "\<And>m'. mach_st M l m' \<Longrightarrow> R m'"
  shows "wp (merge_into_cur E p m) R"
proof -
  obtain ps where ps: "good m ps" "mset ps = M" "levels m = l" using assms(2) by (auto simp: mach_st_def)
  have "p \<in># hand m ps" using assms(3) ps(2) by auto
  from good_merge_cur [OF ps(1) this assms(1)] obtain m' where m': "merge_into_cur E p m = Some m'" "good m' ps" by (auto simp: wp_def)
  have "mach_st M l m'" by (rule mach_stI [OF m'(2)]) (use merge_into_cur_levels [OF m'(1)] ps in auto)
  then show ?thesis using m'(1) assms(4) by simp
qed

end
