(* ===== verification/Select_Balance.thy ===== *)
theory Select_Balance
  imports Cond_Balance Tree_Steps
begin

text \<open>
  Selections: as conditions and as the right side of an assignment. Here the walk holds trees in local
  variables, and each of them is freed once.
\<close>

section \<open>Branches\<close>

lemma combine_step:
  assumes "mach_st M l m" "orig \<in># M \<and> fake \<in># M \<and> new \<in># M" "\<And>r m'. mach_st (add_mset r (M - {#new#})) l m' \<Longrightarrow> R (r, m')"
  shows "wp (combine_strees orig fake new m) R"
  using assms(1,2) unfolding combine_strees_def wp_simps
  apply -
  apply (rule overwrite_new_step, assumption, simp, simp)
  apply (rule overwrite_mach, assumption, simp, simp)
  apply (rule overwrite_mach, assumption, simp, simp)
  apply (rule free_mach, assumption, simp)
  apply (simp, rule assms(3), simp)
  done

lemma pops_step:
  assumes "mach_st M l m"
    and "\<And>p m'. mach_st (add_mset p M) (down Cond_true l) m' \<Longrightarrow> R (p, m')"
  shows "R (pop_cond_true_stack m)"
  using pop_cond_step [OF assms(1), of True] assms(2) by (cases "pop_cond_true_stack m") (simp add: pop_cond_true_stack_def branch_name_def)

lemma popf_step:
  assumes "mach_st M l m"
    and "\<And>p m'. mach_st (add_mset p M) (down Cond_false l) m' \<Longrightarrow> R (p, m')"
  shows "R (pop_cond_false_stack m)"
  using pop_cond_step [OF assms(1), of False] assms(2) by (cases "pop_cond_false_stack m") (simp add: pop_cond_false_stack_def branch_name_def)

lemma select_branch_step:
  assumes W: "world_ok W" and "cond_ok n sub" "walk_st M l sw h f"
    and l: "a \<in># M \<and> l Fake < l Pre_cond \<and> 0 < l Cond_true \<and> 0 < l Cond_false \<and> (n = 0 \<longrightarrow> h)"
    and R: "\<And>tf fake bT bF f'. walk_st (add_mset bF (add_mset bT (add_mset fake M))) l sw h f' \<Longrightarrow> R (tf, fake, bT, bF, f')"
  shows "wp (select_branch W b a post sub f) R"
proof -
  have post: "wp (if post then process_post_op_stack W f else Some f) Q" if "walk_st M' l' sw h f" "\<And>f. walk_st M' l' sw h f \<Longrightarrow> Q f" for M' l' f Q
    using that by (auto intro!: post_ops_step [OF W])
  show ?thesis using assms(3) unfolding select_branch_def wp_simps
    apply -
    apply (rule walk_steps, assumption, use l in \<open>simp add: branch_name_def\<close>)
    apply (rule walk_steps, assumption, simp)
    apply (rule walk_steps, assumption, simp)
    apply (rule cond_okD [OF assms(2)], assumption, use l in \<open>simp add: conds_def\<close>, simp split del: if_split)
    apply (rule post, assumption)
    apply (rule pop_fake_step [OF walk_st_mach], assumption, simp, simp only: prod.case Let_def wp_simps)
    apply (rule pops_step, assumption)
    apply (simp only: prod.case wp_simps, rule combine_step, assumption, use l in simp, simp)
    apply (rule popf_step, assumption)
    apply (simp only: prod.case wp_simps, rule combine_step, assumption, use l in simp, simp)
    apply (rule R, rule walk_st_put, assumption)
    apply (erule back_subst [of "\<lambda>l. mach_st _ l _"], use l in \<open>auto simp: level_eqs\<close>)
    done
qed

lemma mach_put: "mach (f\<lparr>mach := m\<rparr>) = m"
  by simp

lemma pair_pick:
  assumes "{#x, y#} \<subseteq># M"
  shows "M = add_mset x (add_mset y (M - {#x, y#}))"
  using subset_mset.add_diff_inverse [OF assms] by simp

lemma select_known_step:
  assumes "mach_st (add_mset x (add_mset y N)) l m" "a \<in># N \<and> fake \<in># N"
    "\<And>x' y' m'. mach_st (add_mset x' (add_mset y' N)) l m' \<Longrightarrow> R ((x', y'), m')"
  shows "wp (if q then select_known b a fake (x, y) m else Some ((x, y), m)) R"
proof (cases q)
  case True
  show ?thesis using assms(1,2) unfolding if_P [OF True] select_known_def wp_simps prod.sel
    apply -
    apply (rule free_mach, assumption, simp, simp)
    apply (rule free_mach, assumption, simp, simp)
    apply (rule clone_mach, assumption, simp, simp)
    apply (rule overwrite_mach, assumption, simp, simp)
    using assms(3) mach_st_null apply (cases b; fastforce simp: add_mset_commute)
    done
qed (use assms in simp)

lemma select_implied_step:
  assumes "walk_st M l sw h f" "{#x, y#} \<subseteq># M \<and> a \<in># M - {#x, y#} \<and> fake \<in># M - {#x, y#}"
    "\<And>x' y' f'. walk_st (add_mset x' (add_mset y' (M - {#x, y#}))) l sw h f' \<Longrightarrow> R ((x', y'), f')"
  shows "wp (select_implied W e a fake (x, y) f) R"
proof -
  have "mach_st (add_mset x (add_mset y (M - {#x, y#}))) l (mach f)"
    using walk_st_mach [OF assms(1)] pair_pick [of x y M] assms(2) by simp
  then show ?thesis using assms(1,2) unfolding select_implied_def wp_simps
    apply -
    apply (rule select_known_step, assumption, simp)
    apply (unfold prod.case Let_def wp_simps mach_put)
    apply (rule select_known_step, assumption, simp)
    apply (simp only: prod.case Let_def wp_simps)
    apply (simp, rule assms(3), rule walk_st_put, assumption+)
    done
qed

section \<open>Selections as conditions\<close>

lemma push_cond_mach:
  "mach_st M l m \<Longrightarrow> (\<And>m'. mach_st M (up Fake (up Pre_cond (up Cond_false (up Cond_true l)))) m' \<Longrightarrow> R m') \<Longrightarrow>
    wp (push_cond_stacks m) R"
  by (rule op_step [where g = "\<lambda>l. up Fake (up Pre_cond (up Cond_false (up Cond_true l)))", OF push_cond_stacks_keeps push_cond_levels])

lemma free_set_mach:
  "mach_st M l m \<Longrightarrow> (\<And>m'. mach_st M (down Fake (down Pre_cond l)) m' \<Longrightarrow> R m') \<Longrightarrow> wp (free_set_states m) R"
  by (rule op_step [where g = "\<lambda>l. down Fake (down Pre_cond l)", OF free_set_states_keeps free_set_states_levels])

lemma use_pre_mach:
  "mach_st M l m \<Longrightarrow> (\<And>m'. mach_st M (down Pre_cond l) m' \<Longrightarrow> R m') \<Longrightarrow> wp (use_pre_cond_states m) R"
  by (rule op_step [where g = "down Pre_cond", OF use_pre_cond_states_keeps use_pre_levels])

lemma handle_select_ok:
  assumes W: "world_ok W" and ok: "cond_ok n c" "cond_ok n a" "cond_ok n b"
  shows "cond_ok n (handle_select W e e' c a b)"
proof (rule cond_okI)
  fix M l sw h tf f assume f: "walk_st M l sw h f" and l: "conds l" "n = 0 \<longrightarrow> h"
  note E = world_env [OF W]
  have lt: "l Fake - Suc 0 < l Pre_cond" using l(1) by (auto simp: conds_def)
  show "wp (handle_select W e e' c a b tf f) (\<lambda>(tf', f'). walk_st M (down Fake (down Pre_cond l)) sw h f')"
    using f unfolding handle_select_def wp_simps copy_cond_true_states_def copy_cond_false_states_def
    apply -
    apply (rule walk_steps, assumption, simp)
    apply (rule cond_okD [OF ok(1)], assumption, use l in \<open>simp add: conds_def\<close>, simp only: prod.case wp_simps)
    apply (rule copy_cond_step [OF walk_st_mach], assumption, use l in \<open>simp add: conds_def branch_name_def\<close>, simp only: prod.case wp_simps)
    apply (rule copy_cond_step, assumption, use l in \<open>simp add: conds_def branch_name_def\<close>, simp only: prod.case wp_simps)
    apply (rule select_branch_step [OF W ok(2)], rule walk_st_put, assumption, assumption, use l lt in \<open>simp add: conds_def\<close>, simp split del: if_split)
    apply (rule select_branch_step [OF W ok(3)], assumption, use l lt in \<open>simp add: conds_def\<close>, simp split del: if_split)
    apply (rule walk_steps, assumption, simp)
    apply (rule select_implied_step, assumption, simp, simp split del: if_split)
    apply (rule select_implied_step, assumption, simp, simp split del: if_split)
    apply (rule merge_step [OF E walk_st_mach], assumption, simp, simp split del: if_split)
    apply (rule merge_step [OF E], assumption, simp, simp add: Let_def split del: if_split)
    apply (rule pops_step, assumption, simp split del: if_split)
    apply (rule free_mach, assumption, simp, simp split del: if_split)
    apply (rule popf_step, assumption, simp split del: if_split)
    apply (rule free_mach, assumption, simp, simp split del: if_split)
    apply (rule push_cond_mach, assumption)
    apply (rule set_cond_sms_step, assumption, simp)
    apply (rule set_cond_sms_step, assumption, simp)
    apply (rule free_set_mach, assumption)
    apply ((rule free_mach, assumption, simp, simp split del: if_split)+)
    apply (rule walk_st_put, assumption)
    apply (erule back_subst [of "\<lambda>l. mach_st _ l _"], use l in \<open>auto simp: level_eqs conds_def\<close>)
    done
qed

section \<open>Selections that are assigned\<close>

text \<open>The walk over a whole condition leaves the states of the other outcome on a stack.\<close>

definition whole_ok :: "nat \<Rightarrow> walk \<Rightarrow> bool" where
  "whole_ok n w \<longleftrightarrow>
     (\<forall>M l sw h f. walk_st M l sw h f \<longrightarrow> l Fake \<le> l Pre_cond \<and> (n = 0 \<longrightarrow> h) \<longrightarrow> wp (w f) (walk_st M (up False_stack l) sw h))"

lemma whole_okD:
  "whole_ok n w \<Longrightarrow> walk_st M l sw h f \<Longrightarrow> l Fake \<le> l Pre_cond \<and> (n = 0 \<longrightarrow> h) \<Longrightarrow>
    (\<And>f'. walk_st M (up False_stack l) sw h f' \<Longrightarrow> R f') \<Longrightarrow> wp (w f) R"
  unfolding whole_ok_def by (blast intro: wp_mono)

lemma split_whole_condition_ok: "world_ok W \<Longrightarrow> cond_ok n a \<Longrightarrow> whole_ok n (split_whole_condition W e a)"
  unfolding whole_ok_def by (blast intro: split_whole_condition_step)

lemma count_fake_step:
  "walk_st M l sw h f \<Longrightarrow> True \<Longrightarrow> (\<And>f'. walk_st M l sw h f' \<Longrightarrow> R f') \<Longrightarrow> wp (count_fake new f) R"
  by (auto simp: count_fake_def intro!: count.step)

lemma final_states_step:
  assumes "walk_st M l sw h f" "\<And>p m'. mach_st (add_mset p M) l m' \<Longrightarrow> R (p, m')"
  shows "wp (if q then Some (None, mach f) else clone_tree (cur_stree (mach f)) (mach f)) R"
  using clone_cur_step [OF walk_st_mach [OF assms(1)]] mach_st_null [OF walk_st_mach [OF assms(1)]] assms(2) by auto

lemma handle_select_assigns_ok:
  assumes W: "world_ok W" and ok: "whole_ok n c" "expr_ok n a" "expr_ok n b"
  shows "expr_ok n (handle_select_assigns W e d q c a b)"
proof (rule stmt_okI)
  fix M l sw h f assume f: "walk_st M l sw h f" and l: "ctx False False False l sw" "n = 0 \<longrightarrow> h"
  have E: "env_ok (the_env W)" by (rule world_env [OF W])
  have opt: "wp (if q then do { f \<leftarrow> w f; process_post_op_stack W f } else Some f) R"
    "wp (if q then Some f else do { f \<leftarrow> w f; process_post_op_stack W f }) R"
    if "expr_ok n w" "walk_st N k sw h f" "k Fake \<le> k Pre_cond" "\<And>f'. walk_st N k sw h f' \<Longrightarrow> R f'" for q w N k f R
    using that l(2) by (auto intro!: stmt_okD [OF that(1)] post_ops_step [OF W])
  have other: "wp (if q then on discard_false_states f else do { f \<leftarrow> on use_false_states f; f \<leftarrow> b f; process_post_op_stack W f }) R"
    if "walk_st N k sw h f" "k Fake \<le> k Pre_cond" "\<And>f'. walk_st N (down False_stack k) sw h f' \<Longrightarrow> R f'" for q N k f R
    using that l(2) by (auto intro!: walk_steps stmt_okD [OF ok(3)] post_ops_step [OF W])
  show "wp (handle_select_assigns W e d q c a b f) (walk_st M l sw h)"
    using f unfolding handle_select_assigns_def wp_simps Let_def
    apply -
    apply (rule world_steps [OF W], assumption, simp)
    apply (rule walk_steps, assumption, simp)
    apply (rule whole_okD [OF ok(1)], assumption, use l in simp)
    apply (rule opt(2) [OF ok(2)], assumption, use l in simp)
    apply (rule opt(1) [OF ok(2)], assumption, use l in simp)
    apply (rule final_states_step, assumption, simp only: prod.case wp_simps)
    apply (rule other, rule walk_st_put, assumption, assumption, use l in simp)
    apply (rule merge_cur_step [OF E walk_st_mach], assumption, simp, simp)
    apply (rule use_pre_mach, assumption)
    apply (rule set_sms_step, assumption, simp)
    apply (rule free_mach, assumption, simp, simp)
    apply (rule walk_st_put, assumption)
    apply (erule back_subst [of "\<lambda>l. mach_st _ l _"], auto simp: level_eqs)
    done
qed

end
