(* ===== verification/Stmt_Balance.thy ===== *)
theory Stmt_Balance
  imports Select_Balance
begin

text \<open>
  Statements: each kind of statement leaves the stacks as deep as it finds them when its parts do. The
  parts of a loop may break and continue, those of a switch may break and have labels.
\<close>

section \<open>Branches\<close>

definition tf_ok :: "nat \<Rightarrow> (flow \<Rightarrow> (bool option \<times> flow) option) \<Rightarrow> bool" where
  "tf_ok n w \<longleftrightarrow> whole_ok n (\<lambda>f. map_option snd (w f))"

lemma tf_okD:
  assumes "tf_ok n w" "walk_st M l sw h f" "l Fake \<le> l Pre_cond \<and> (n = 0 \<longrightarrow> h)"
    "\<And>tf f'. walk_st M (up False_stack l) sw h f' \<Longrightarrow> R (tf, f')"
  shows "wp (w f) R"
proof -
  have "wp (map_option snd (w f)) (walk_st M (up False_stack l) sw h)" using assms(1-3) unfolding tf_ok_def whole_ok_def by blast
  then show ?thesis using assms(4) by (auto simp: wp_def)
qed

lemma split_whole_condition_tf_ok: "world_ok W \<Longrightarrow> cond_ok n a \<Longrightarrow> tf_ok n (split_whole_condition_tf W e a)"
  unfolding tf_ok_def whole_ok_def by (auto intro: split_whole_condition_tf_step)

lemma post_ops_ok: "world_ok W \<Longrightarrow> stmt_ok b c s n (process_post_op_stack W)"
  by (rule stmt_okI) (auto intro: post_ops_step)

lemma fake_a_return_step:
  assumes W: "world_ok W" and "walk_st M l sw h f" "l Fake \<le> l Pre_cond" "\<And>f'. walk_st M l sw h f' \<Longrightarrow> R f'"
  shows "wp (fake_a_return W f) R"
  using assms(2,3) unfolding fake_a_return_def wp_simps
  by - ((rule walk_steps world_steps [OF W], assumption, simp)+, rule assms(4))

lemma free_calls_step:
  "walk_st M l sw h f \<Longrightarrow> True \<Longrightarrow> (\<And>f'. walk_st M l sw h f' \<Longrightarrow> R f') \<Longrightarrow> wp (free_parsed_call_stuff q f) R"
  by (auto simp: free_parsed_call_stuff_def intro!: walk_steps)

lemma enter_stmt_ok:
  assumes W: "world_ok W" and "stmt_ok b c s n w"
  shows "stmt_ok b c s n (enter_stmt W x skip w)"
proof (rule stmt_okI)
  fix M l sw h f assume f: "walk_st M l sw h f" and l: "ctx b c s l sw" "n = 0 \<longrightarrow> h"
  note steps = free_calls_step visit_step [OF W] post_ops_step [OF W]
  have main: "wp (free_parsed_call_stuff q g) (\<lambda>f. wp (visit W (Pass_stmt STMT_HOOK x) f) (\<lambda>f. wp (w f) (\<lambda>f.
      wp (if skip then Some f else visit W (Pass_stmt STMT_HOOK_AFTER x) f) (\<lambda>f.
        wp (free_parsed_call_stuff (k f) (f\<lparr>indent_cnt := i f\<rparr>)) (\<lambda>f. wp (process_post_op_stack W f) (walk_st M l sw h))))))"
    if "walk_st M l sw h g" for q k i g
    using that
    by - (rule steps, assumption, simp, rule steps, assumption, simp, rule stmt_okD [OF assms(2)], assumption, use l in simp,
      cases skip; simp, (rule steps, (assumption | simp), simp)+)
  have "wp (fake_a_return W (f\<lparr>bail_on_rest_of_function := True\<rparr>)) (walk_st M l sw h)"
    by (rule fake_a_return_step [OF W]) (use f ctxD [OF l(1)] in auto)
  then show "wp (enter_stmt W x skip w f) (walk_st M l sw h)"
    using f main [of "f\<lparr>indent_cnt := indent_cnt f + 1\<rparr>"] by (simp add: enter_stmt_def Let_def)
qed

lemma split_if_statement_ok:
  assumes W: "world_ok W" and "tf_ok n w" "stmt_ok b c s n x" "stmt_ok b c s n y"
  shows "stmt_ok b c s n (split_if_statement w W x y)"
proof (rule stmt_okI)
  fix M l sw h f assume f: "walk_st M l sw h f" and l: "ctx b c s l sw" "n = 0 \<longrightarrow> h"
  have up: "ctx b c s (up False_stack l) sw" "ctx b c s (up True_stack l) sw" using l by (auto simp: ctx_def)
  have eq: "down False_stack (up True_stack (up False_stack l)) = up True_stack l" by (auto simp: level_eqs)
  note steps = walk_steps world_steps [OF W] stmt_okD [OF assms(3)] stmt_okD [OF assms(4)]
  show "wp (split_if_statement w W x y f) (walk_st M l sw h)"
    using f unfolding split_if_statement_def wp_simps
  proof (rule tf_okD [OF assms(2)])
    fix tf g assume g: "walk_st M (up False_stack l) sw h g"
    consider "tf = Some True" | "tf = Some False" | "tf = None" by (cases tf) auto
    then show "wp (case (tf, g) of (known_tf, f) \<Rightarrow>
        if known_tf = Some True then do { f \<leftarrow> x f; on discard_false_states f }
        else if known_tf = Some False then do { f \<leftarrow> on use_false_states f; y f }
        else do { f \<leftarrow> x f; f \<leftarrow> on push_true_states f; f \<leftarrow> on use_false_states f; f \<leftarrow> y f; on (merge_true_states (the_env W)) f })
      (walk_st M l sw h)"
      using g by cases (simp, (rule steps, assumption, use l up eq in simp)+, (simp add: eq)?)+
  qed (use l in \<open>simp add: ctx_def\<close>)
qed

section \<open>Loops\<close>

lemma wp_if: "(q \<Longrightarrow> wp x R) \<Longrightarrow> (\<not> q \<Longrightarrow> wp y R) \<Longrightarrow> wp (if q then x else y) R"
  by simp

lemma maybe_step:
  "walk_st M l sw h f \<Longrightarrow> (walk_st M l sw h f \<Longrightarrow> wp (w f) (walk_st M l sw h)) \<Longrightarrow> (\<And>f'. walk_st M l sw h f' \<Longrightarrow> R f') \<Longrightarrow>
    wp (if q then Some f else w f) R"
  by (auto elim: wp_mono)

lemma drop_false_step:
  assumes W: "world_ok W" and "walk_st M l sw h f" "True" "\<And>f'. walk_st M (down False_stack l) sw h f' \<Longrightarrow> R f'"
  shows "wp (if q then on discard_false_states f else on (merge_false_states (the_env W)) f) R"
  using assms by (auto intro!: discard_false.step merge_false_step [OF W])

lemma free_walk_step:
  assumes "walk_st M l sw h f" "p \<in># M" "\<And>f'. walk_st (M - {#p#}) l sw h f' \<Longrightarrow> R f'"
  shows "wp (on (free_tree p) f) R"
  unfolding on_def wp_simps by (rule free_mach [OF walk_st_mach [OF assms(1)] assms(2)], rule assms(3), rule walk_st_put [OF assms(1)])

lemma walk_st_upds: "walk_st M l sw h f \<Longrightarrow> walk_st M l sw h (f\<lparr>in_pre_condition := i, confidence_implied := j\<rparr>)"
  "walk_st M l sw h f \<Longrightarrow> walk_st M l sw h (f\<lparr>loop_num := k, loop_count := w\<rparr>)"
  by (simp_all add: walk_st_def)

lemma handle_post_loop_ok:
  assumes W: "world_ok W" and "tf_ok n w" "stmt_ok True True s n body"
  shows "stmt_ok b c s n (handle_post_loop W x w body)"
proof (rule stmt_okI)
  fix M l sw h f assume f: "walk_st M l sw h f" and l: "ctx b c s l sw" "n = 0 \<longrightarrow> h"
  define k where "k = if_fake (up Fake_breaks) (up Breaks (up Continues l))"
  have k: "ctx True True s k sw" "k Fake \<le> k Pre_cond" using l(1) by (auto simp: ctx_def k_def level_eqs)
  have fin: "if_fake (down Fake_breaks) (down Breaks (down Continues k)) = l"
    "if_fake (down Fake_breaks) (down Breaks (down False_stack (up False_stack (down Continues k)))) = l"
    by (auto simp: k_def level_eqs)
  note steps = walk_steps world_steps [OF W]
  have save: "wp (if q then Some f else on (save_gotos (the_env W) nm 0) f) R"
    if "walk_st M k sw h f" "\<And>f'. walk_st M k sw h f' \<Longrightarrow> R f'" for q nm k f R
    using that by (auto intro!: save_gotos_step [OF W])
  from walk_st_upds(2) [OF f]
  show "wp (handle_post_loop W x w body f) (walk_st M l sw h)"
    unfolding handle_post_loop_def wp_simps Let_def
    apply -
    apply (rule steps, assumption, simp)
    apply (rule push_loop.step, assumption, simp, unfold k_def [symmetric])
    apply (rule steps, assumption, simp)
    apply (rule stmt_okD [OF assms(3)], assumption, use k l in simp)
    apply (rule steps, assumption, simp)
    apply (rule save, assumption)
    apply (rule wp_if)
     apply (unfold wp_simps, (rule steps, assumption, simp)+, simp add: fin)
    apply (rule tf_okD [OF assms(2)], assumption, use k l in simp, simp)
    apply ((rule steps, assumption, simp)+, simp add: fin)
    done
qed

lemma handle_pre_loop_ok:
  assumes W: "world_ok W" and ok: "expr_ok n pre" "tf_ok n w" "stmt_ok True True s n body" "expr_ok n post"
  shows "stmt_ok b c s n (handle_pre_loop W x syms pre w body post)"
proof (rule stmt_okI)
  fix M l sw h f assume f: "walk_st M l sw h f" and l: "ctx b c s l sw" "n = 0 \<longrightarrow> h"
  define k where "k = if_fake (up Fake_breaks) (up Breaks (up Continues l))"
  have k: "ctx True True s (up False_stack k) sw" "k Fake \<le> k Pre_cond" using l(1) by (auto simp: ctx_def k_def level_eqs)
  have fin: "if_fake (down Fake_breaks) (down Breaks (down False_stack (down Continues (up False_stack k)))) = l"
    "if_fake (down Fake_breaks) (down Breaks (down False_stack (down False_stack (up False_stack (down Continues (up False_stack k)))))) = l"
    "if_fake (down Fake_breaks) (down Breaks (down False_stack (down Fake (down Pre_cond (up Fake (up Pre_cond (down Continues (up False_stack k)))))))) = l"
    by (auto simp: k_def level_eqs)
  note steps = walk_steps world_steps [OF W]
  note E = world_env [OF W]
  have leave: "wp (visit W Call_scope_hooks (f\<lparr>loop_count := i f\<rparr>)) (walk_st M l sw h)" if "walk_st M k' sw h f" "k' = l" for f k' i
    by (rule visit_step [OF W]) (use that in auto)
  have mrg: "wp (if q then Some f else on (merge_stree_into_cur (the_env W) p) f) R"
    if "walk_st (add_mset p M) k sw h f" "\<And>f'. walk_st (add_mset p M) k sw h f' \<Longrightarrow> R f'" for q p k f R
  proof (cases q)
    case False
    have "wp (merge_stree_into_cur (the_env W) p (mach f)) (\<lambda>m. R (f\<lparr>mach := m\<rparr>))"
      by (rule merge_into_cur_tree_step [OF E walk_st_mach [OF that(1)]]) (simp, rule that(2), rule walk_st_put [OF that(1)])
    then show ?thesis using False by (simp add: on_def)
  qed (use that in simp)
  have "walk_st M l sw h (f\<lparr>loop_num := loop_num f + 1\<rparr>)" using f by simp
  then show "wp (handle_pre_loop W x syms pre w body post f) (walk_st M l sw h)"
    unfolding handle_pre_loop_def wp_simps Let_def
    apply -
    apply (rule steps, assumption, simp)
    apply (rule maybe_step, assumption, erule stmt_okD [OF ok(1)], use l in \<open>simp add: ctx_def\<close>, assumption)
    apply (rule push_loop.step, simp, simp, unfold k_def [symmetric])
    apply (rule steps, assumption, simp)
    apply (rule steps, assumption, simp)
    apply (rule steps, assumption, simp)
    apply (rule tf_okD [OF ok(2)], erule walk_st_upds, use k l in simp, unfold prod.case wp_simps Let_def)
    apply (rule sets.step, simp, simp)
    apply (rule stmt_okD [OF ok(3)], assumption, use k l in simp)
    apply (rule wp_if)
     apply ((unfold wp_simps)?, rule steps, assumption, simp, rule steps, assumption, simp, rule drop_false_step [OF W], assumption, simp)
     apply ((rule steps, assumption, simp)+, erule leave, simp add: fin)
    apply (rule wp_if)
     apply ((unfold wp_simps)?, rule steps, assumption, simp, rule steps, assumption, simp, rule steps, assumption, simp)
     apply (rule stmt_okD [OF ok(4)], assumption, use k l in simp)
     apply (rule pop_fake_step [OF walk_st_mach], assumption, simp, unfold prod.case wp_simps)
     apply (rule discard_false.step, rule walk_st_put, assumption, assumption, simp)
     apply (rule steps, assumption, simp, rule steps, assumption, simp, rule mrg, assumption)
     apply (rule free_walk_step, assumption, simp, rule leave, simp, simp add: fin)
    apply ((unfold wp_simps)?, rule merge_continues_step [OF W], assumption, simp)
    apply (rule stmt_okD [OF ok(4)], assumption, use k l in simp)
    apply (rule steps, assumption, simp)
    apply (rule tf_okD [OF ok(2)], simp, use k l in simp, unfold prod.case wp_simps Let_def)
    apply (rule nullify.step, simp, use k in simp)
    apply (rule steps, assumption, simp)
    apply (rule drop_false_step [OF W], assumption, simp)
    apply ((rule steps, assumption, simp)+, erule leave, simp add: fin)
    done
qed

end
