(* ===== verification/Switch_Balance.thy ===== *)
theory Switch_Balance
  imports Stmt_Balance
begin

text \<open>
  Switches: the values that remain, the label of a case, and the walk over the body.
\<close>

section \<open>Cases\<close>

lemma cases_upd:
  assumes "mach_st M l m" "length c = l Cases"
  shows "mach_st M l (m\<lparr>remaining_cases := c\<rparr>)"
proof -
  obtain ps where ps: "good m ps" "mset ps = M" "levels m = l" using assms(1) by (auto simp: mach_st_def)
  have "good (m\<lparr>remaining_cases := c\<rparr>) ps" using ps(1) by (auto elim!: good_done simp: stacks.truncate_def)
  then show ?thesis by (rule mach_stI) (use ps assms(2) in auto)
qed

lemma filter_top_length: "0 < length s \<Longrightarrow> length (filter_top_rl prj s rl) = length s"
  by (auto simp: filter_top_rl_def pop_rl_def push_rl_def Let_def split: prod.splits)

lemma narrow_step:
  assumes "mach_st M l m" "0 < l Cases"
    "\<And>rl' m'. mach_st M l m' \<Longrightarrow> R (rl', m')"
  shows "R (if rl \<noteq> [] then (rl, m\<lparr>remaining_cases := filter_top_rl prj (remaining_cases m) rl\<rparr>)
            else (top_rl (remaining_cases m), m))"
proof -
  have "length (remaining_cases m) = l Cases" using assms(1) by (auto simp: mach_st_def levels_get)
  then have "mach_st M l (m\<lparr>remaining_cases := filter_top_rl prj (remaining_cases m) rl\<rparr>)"
    using cases_upd [OF assms(1)] filter_top_length assms(2) by metis
  then show ?thesis using assms(1,3) by simp
qed

lemma separate_step:
  assumes "world_ok W" "mach_st M l m" "p \<in># M" "\<And>t m'. mach_st (add_mset t M) l m' \<Longrightarrow> R (t, m')"
  shows "wp (separate_and_filter W e rl p m) R"
proof -
  obtain ps where ps: "good m (p # ps)" "mset ps = M - {#p#}" "levels m = l" by (rule mach_st_pick [OF assms(2,3)])
  have "wp (separate_and_filter W e rl p m) (\<lambda>(t, m'). good m' (t # p # ps) \<and> levels m' = levels m)"
    using assms(1) ps(1) by (simp add: world_ok_def)
  then obtain t m' where t: "separate_and_filter W e rl p m = Some (t, m')" "good m' (t # p # ps)" "levels m' = l"
    using ps(3) by (auto simp: wp_def)
  have "mach_st (add_mset t M) l m'" by (rule mach_stI [OF t(2,3)]) (use ps(2) assms(3) in simp)
  then show ?thesis using t(1) assms(4) by simp
qed

lemma push_fake_mach:
  "mach_st M l m \<Longrightarrow> (\<And>m'. mach_st M (up Fake (up Pre_cond l)) m' \<Longrightarrow> R m') \<Longrightarrow> wp (push_fake_cur_stree m) R"
  by (rule op_step [where g = "\<lambda>l. up Fake (up Pre_cond l)", OF push_fake_cur_stree_keeps push_fake_levels])

lemma unnullify_mach: "mach_st M l m \<Longrightarrow> (\<And>m'. mach_st M l m' \<Longrightarrow> R m') \<Longrightarrow> wp (unnullify_path m) R"
  by (rule op_step [where g = "\<lambda>l. l", OF unnullify_path_keeps unnullify_path_levels])

lemma sets_mach: "mach_st M l m \<Longrightarrow> (\<And>m'. mach_st M l m' \<Longrightarrow> R m') \<Longrightarrow> wp (run_sets calls m) R"
  by (rule op_step [where g = "\<lambda>l. l", OF run_sets_keeps run_sets_levels])

lemma implied_case_step:
  assumes W: "world_ok W" and "mach_st M l m" "p \<in># M \<and> 0 < l Cases" "\<And>r m'. mach_st (add_mset r M) l m' \<Longrightarrow> R (r, p, m')"
  shows "wp (implied_case_stree W e rl p m) R"
  using assms(2,3) unfolding implied_case_stree_def wp_simps Let_def
  apply -
  apply (rule clone_mach, assumption, simp, unfold prod.case)
  apply (rule narrow_step, assumption, simp, unfold prod.case wp_simps)
  apply (rule separate_step [OF W], assumption, simp, unfold prod.case wp_simps)
  apply (rule push_fake_mach, assumption)
  apply (rule unnullify_mach, assumption)
  apply (rule sets_mach, assumption)
  apply (rule pop_fake_step, assumption, simp, simp)
  apply (rule overwrite_mach, assumption, simp, simp)
  apply (rule overwrite_mach, assumption, simp, simp)
  apply (rule free_mach, assumption, simp, simp)
  apply (rule free_mach, assumption, simp, simp)
  apply (rule assms(4))
  apply (erule back_subst [of "\<lambda>l. mach_st _ l _"], auto simp: level_eqs)
  done

lemma switch_pop: "mach_st M l m \<Longrightarrow>
    mach_st (add_mset (top_stree (switch_stack m)) M) (down Switches l) (m\<lparr>switch_stack := butlast (switch_stack m)\<rparr>)"
  by (auto simp: mach_st_def down_def levels_get(9) [symmetric] intro!: exI [of _ "top_stree (switch_stack m) # _"] switch_st.good_pop)

lemma switch_push:
  assumes "mach_st (add_mset p M) l m"
  shows "mach_st M (up Switches l) (m\<lparr>switch_stack := push_stree (switch_stack m) p\<rparr>)"
  using assms
  by (rule mach_stE) (auto simp: push_stree_def up_def levels_get(9) [symmetric] intro!: mach_stI dest: switch_st.good_push)

lemma merge_switches_step:
  assumes W: "world_ok W" and "walk_st M l sw h f" "0 < l Switches \<and> 0 < l Cases" "\<And>f'. walk_st M l sw h f' \<Longrightarrow> R f'"
  shows "wp (on (merge_switches (the_env W) (implied_case_stree W e rl)) f) R"
proof -
  let ?m = "mach f"
  note pop = switch_pop [OF walk_st_mach [OF assms(2)]]
  have fin: "wp (Some (m\<lparr>switch_stack := push_stree (switch_stack m) p\<rparr>)) (\<lambda>m. R (f\<lparr>mach := m\<rparr>))"
    if "mach_st (add_mset p M) (down Switches l) m" for m p
    using walk_st_put [OF assms(2) switch_push [OF that]] assms(3,4) by simp
  have "wp (merge_switches (the_env W) (implied_case_stree W e rl) ?m) (\<lambda>m. R (f\<lparr>mach := m\<rparr>))"
  proof (cases "top_stree (switch_stack ?m) = None")
    case True
    then show ?thesis using fin [OF pop] by (simp add: merge_switches_def pop_stree_def Let_def)
  next
    case False
    then show ?thesis unfolding merge_switches_def pop_stree_def Let_def prod.case if_not_P [OF False] wp_simps
      apply -
      apply (rule implied_case_step [OF W pop], use assms(3) in simp, unfold prod.case wp_simps)
      apply (rule merge_hand_step [OF world_env [OF W]], assumption, simp)
      apply (rule free_mach, assumption, simp, rule fin [unfolded wp_simps], simp)
      done
  qed
  then show ?thesis by (simp add: on_def)
qed

lemma merge_case_step:
  assumes W: "world_ok W" and "walk_st M l sw h f" "0 < l Switches \<and> 0 < l Cases \<and> sw \<noteq> []" "\<And>f'. walk_st M l sw h f' \<Longrightarrow> R f'"
  shows "wp (merge_case W rl f) R"
proof -
  have "top_switch f = Some (last sw)" using assms(2,3) by (simp add: top_switch_def walk_st_def)
  then show ?thesis using merge_switches_step [OF W assms(2) _ assms(4)] assms(3) by (simp add: merge_case_def)
qed

lemma case_chain_step:
  assumes "walk_st M l sw h f" "0 < l Defaults" "\<And>rl' f'. walk_st M l sw h f' \<Longrightarrow> R (rl', f')"
  shows "wp (case_chain W se rl x f) R"
proof -
  have "wp (case_chain W se rl x f) (\<lambda>(rl', f'). walk_st M l sw h f')"
    using assms(1)
  proof (induction W se rl x f rule: case_chain.induct)
    case (1 W se rl e t e' t' x f)
    have "wp (if e = None then on set_default f else Some f) (walk_st M l sw h)"
      using 1(3) assms(2) by (auto intro: set_default.step)
    then obtain g where g: "(if e = None then on set_default f else Some f) = Some g" "walk_st M l sw h g" by (auto simp: wp_def)
    show ?case
    proof (cases "get_case_rl W se e' t' f = []")
      case True
      then show ?thesis using 1(1) [OF refl True 1(3)] by simp
    next
      case False
      then show ?thesis using 1(2) [OF refl False g] g(1) by (simp add: Let_def)
    qed
  qed simp_all
  then show ?thesis by (rule wp_mono) (use assms(3) in auto)
qed

lemma split_case_ok:
  assumes W: "world_ok W" and "stmt_ok b c True n body"
  shows "stmt_ok b c True n (split_case W x body)"
proof (rule stmt_okI)
  fix M l sw h f assume f: "walk_st M l sw h f" and l: "ctx b c True l sw" "n = 0 \<longrightarrow> h"
  have top: "top_switch f = Some (last sw)" using f l by (simp add: top_switch_def walk_st_def ctx_def)
  have d: "wp (if q then on set_default f else Some f) R" if "walk_st M l sw h f" "\<And>f'. walk_st M l sw h f' \<Longrightarrow> R f'" for q f R
    using that l(1) by (auto simp: ctx_def intro!: set_default.step)
  show "wp (split_case W x body f) (walk_st M l sw h)"
    using f unfolding split_case_def wp_simps top Let_def
    apply -
    apply (rule case_chain_step, assumption, use l in \<open>simp add: ctx_def\<close>, unfold prod.case wp_simps)
    apply (rule merge_case_step [OF W], assumption, use l in \<open>simp add: ctx_def\<close>)
    apply (rule d, assumption)
    apply (rule stmt_okD [OF assms(2)], assumption, use l in simp, assumption)
    done
qed

section \<open>Switches\<close>

definition in_switch :: "(stack_name \<Rightarrow> nat) \<Rightarrow> stack_name \<Rightarrow> nat" where
  "in_switch l = if_fake (up Fake_breaks) (up Breaks (up Defaults (up Switches (up Cases l))))"

lemma begin_switch_step:
  assumes "walk_st M l sw h f" "l Fake \<le> l Pre_cond" "\<And>f'. walk_st M (in_switch l) (sw @ [e]) h f' \<Longrightarrow> R f'"
  shows "wp (begin_switch W e f) R"
proof -
  have "walk_st M l (sw @ [e]) h (f\<lparr>switch_expr_stack := switch_expr_stack f @ [e]\<rparr>)" using assms(1) by (simp add: walk_st_def)
  then show ?thesis unfolding begin_switch_def wp_simps Let_def
    by - ((rule walk_steps, assumption, use assms(2) in simp)+, rule assms(3), simp add: in_switch_def)
qed

lemma end_switch_step:
  assumes W: "world_ok W" and "walk_st M (down Defaults (in_switch l)) (sw @ [e]) h f" "\<And>f'. walk_st M l sw h f' \<Longrightarrow> R f'"
  shows "wp (end_switch W f) R"
proof -
  have eq: "if_fake (down Fake_breaks) (down Breaks (down Switches (down Cases (down Defaults (in_switch l))))) = l"
    by (auto simp: level_eqs in_switch_def)
  show ?thesis using assms(2) unfolding end_switch_def wp_simps
    by - ((rule walk_steps world_steps [OF W], assumption, simp)+, rule assms(3), simp add: walk_st_def eq)
qed

lemma pop_default_step:
  assumes "mach_st M l m" "\<And>r m'. mach_st M (down Defaults l) m' \<Longrightarrow> R (r, m')"
  shows "wp (pop_default m) R"
proof -
  obtain m' where "map_option snd (pop_default m) = Some m'" and m': "mach_st M (levels m') m'"
    using keeps_mach [OF pop_default_keeps assms(1)] by blast
  then obtain r where r: "pop_default m = Some (r, m')" by auto
  moreover have "levels m' = down Defaults l" using default_levels(3) [OF r] assms(1) by (simp add: mach_st_def)
  ultimately show ?thesis using m' assms(2) by simp
qed

lemma close_default_step:
  assumes W: "world_ok W" and "expr_ok n x" "walk_st M l sw h f"
    and l: "0 < l Switches \<and> 0 < l Cases \<and> sw \<noteq> [] \<and> l Fake \<le> l Pre_cond \<and> (n = 0 \<longrightarrow> h)"
    and R: "\<And>f'. walk_st M (down Defaults l) sw h f' \<Longrightarrow> R f'"
  shows "wp (close_default W q x f) R"
proof -
  have "wp (let f = f\<lparr>mach := m\<rparr> in
       if seen \<noteq> 0 then Some f else if q then merge_case W [] f
       else if have_remaining_cases m then do { f \<leftarrow> merge_case W [] f; x f } else Some f) R"
    if "mach_st M (down Defaults l) m" for m seen
    using walk_st_put [OF assms(3) that] l R
    by (auto simp: Let_def intro!: merge_case_step [OF W] stmt_okD [OF assms(2)])
  then show ?thesis unfolding close_default_def wp_simps
    by (intro pop_default_step [OF walk_st_mach [OF assms(3)]]) simp
qed

lemma in_switch_ctx: "ctx b c s l sw \<Longrightarrow> ctx True c True (in_switch l) (sw @ [e])"
  by (auto simp: ctx_def in_switch_def level_eqs)

lemma switch_ok:
  assumes W: "world_ok W" and ok: "expr_ok n a" "stmt_ok True c True n body" "expr_ok n x"
  shows "stmt_ok b c s n (\<lambda>f. do { f \<leftarrow> a f; f \<leftarrow> begin_switch W e f; f \<leftarrow> body f; f \<leftarrow> close_default W q x f; end_switch W f })"
proof (rule stmt_okI)
  fix M l sw h f assume f: "walk_st M l sw h f" and l: "ctx b c s l sw" "n = 0 \<longrightarrow> h"
  note k = in_switch_ctx [OF l(1), of e]
  show "wp (do { f \<leftarrow> a f; f \<leftarrow> begin_switch W e f; f \<leftarrow> body f; f \<leftarrow> close_default W q x f; end_switch W f }) (walk_st M l sw h)"
    using f unfolding wp_simps
    apply -
    apply (rule stmt_okD [OF ok(1)], assumption, use l in \<open>simp add: ctx_def\<close>)
    apply (rule begin_switch_step, assumption, rule ctxD [OF l(1)])
    apply (rule stmt_okD [OF ok(2)], assumption, use k l in simp)
    apply (rule close_default_step [OF W ok(3)], assumption, use k l in \<open>simp add: ctx_def\<close>)
    apply (rule end_switch_step [OF W], assumption, assumption)
    done
qed

lemma split_switch_ok:
  assumes "world_ok W" "expr_ok n a" "stmt_ok True c True n body" "expr_ok n x"
  shows "stmt_ok b c s n (split_switch W e a body x)"
  using switch_ok [OF assms, of b s e False] by (simp add: split_switch_def [abs_def])

lemma split_known_switch_ok:
  assumes W: "world_ok W" and "expr_ok n a" "stmt_ok True c True n body"
  shows "stmt_ok b c s n (split_known_switch W e a body)"
proof -
  have "stmt_ok True c True n (\<lambda>f. do { f \<leftarrow> body f; visit W Call_scope_hooks f })"
    by (rule stmt_okI) (auto intro!: stmt_okD [OF assms(3)] visit_step [OF W])
  from switch_ok [OF W assms(2) this skip_ok, of b s e True] show ?thesis by (simp add: split_known_switch_def [abs_def])
qed

lemma known_case_ok:
  assumes W: "world_ok W" and ok: "stmt_ok b c True n x" "stmt_ok b c True n y" "stmt_ok b c True n rest"
  shows "stmt_ok b c True n (known_case W st v x y rest)"
proof (rule stmt_okI)
  fix M l sw h f assume f: "walk_st M l sw h f" and l: "ctx b c True l sw" "n = 0 \<longrightarrow> h"
  have l': "0 < l Defaults" "0 < l Switches \<and> 0 < l Cases \<and> sw \<noteq> []" using l(1) by (simp_all add: ctx_def)
  have rest: "wp (rest f) (walk_st M l sw h)" if "walk_st M l sw h f" for f
    by (rule stmt_okD [OF ok(3) that]) (use l in auto)
  have hit: "wp (is_case_val W st v f) R" if "\<And>q f'. walk_st M l sw h f' \<Longrightarrow> R (q, f')" for R
    using f l' that by (auto simp: is_case_val_def split: stmt.splits option.splits intro!: set_default.step)
  have fin: "wp (if path_null f then on set_default f else rest f) (walk_st M l sw h)" if "walk_st M l sw h f" for f
    using that l' rest by (auto intro!: set_default.step)
  show "wp (known_case W st v x y rest f) (walk_st M l sw h)"
    unfolding known_case_def wp_simps
  proof (rule hit, unfold prod.case)
    fix q g assume g: "walk_st M l sw h g"
    have "wp (if q then do { let rl = alloc_rl (option_project W) v v; f \<leftarrow> merge_case W rl g; f \<leftarrow> visit W (Pass_case rl) f; x f } else y g) R"
      if "\<And>f. walk_st M l sw h f \<Longrightarrow> R f" for R
      using g l l' that by (auto simp: Let_def intro!: merge_case_step [OF W] visit_step [OF W] stmt_okD [OF ok(1)] stmt_okD [OF ok(2)])
    from this [OF fin]
    show "wp (if \<not> q \<and> path_null g then rest g
        else do {
          f \<leftarrow> (if q then do { let rl = alloc_rl (option_project W) v v; f \<leftarrow> merge_case W rl g; f \<leftarrow> visit W (Pass_case rl) f; x f } else y g);
          if path_null f then on set_default f else rest f
        }) (walk_st M l sw h)"
      using rest [OF g] by (simp del: if_split)
  qed
qed

end
