(* ===== verification/Expr_Balance.thy ===== *)
theory Expr_Balance
  imports Switch_Balance
begin

text \<open>
  Expressions, assignments and gotos, and the trees for which the walk keeps the stacks in balance.
\<close>

section \<open>Walks from one state\<close>

definition stmt_at :: "bool \<Rightarrow> bool \<Rightarrow> bool \<Rightarrow> nat \<Rightarrow> flow \<Rightarrow> flow option \<Rightarrow> bool" where
  "stmt_at b c s n f r \<longleftrightarrow>
     (\<forall>M l sw h. walk_st M l sw h f \<longrightarrow> ctx b c s l sw \<and> (n = 0 \<longrightarrow> h) \<longrightarrow> wp r (walk_st M l sw h))"

definition cond_at :: "nat \<Rightarrow> flow \<Rightarrow> (bool option \<times> flow) option \<Rightarrow> bool" where
  "cond_at n f r \<longleftrightarrow>
     (\<forall>M l sw h. walk_st M l sw h f \<longrightarrow> conds l \<and> (n = 0 \<longrightarrow> h) \<longrightarrow>
        wp r (\<lambda>(tf', f'). walk_st M (down Fake (down Pre_cond l)) sw h f'))"

lemma stmt_ok_at: "(\<And>f. stmt_at b c s n f (w f)) \<Longrightarrow> stmt_ok b c s n w"
  by (simp add: stmt_ok_def stmt_at_def)

lemma cond_ok_at: "(\<And>tf f. cond_at n f (w tf f)) \<Longrightarrow> cond_ok n w"
  by (simp add: cond_ok_def cond_at_def)

lemma at_stmt: "stmt_ok b c s n w \<Longrightarrow> stmt_at b c s n f (w f)"
  by (simp add: stmt_ok_def stmt_at_def)

lemma at_cond: "cond_ok n w \<Longrightarrow> cond_at n f (w tf f)"
  by (simp add: cond_ok_def cond_at_def)

lemma at_skip: "stmt_at b c s n f (Some f)"
  by (simp add: stmt_at_def)

lemma at_bind: "stmt_at b c s n f r \<Longrightarrow> (\<And>g. stmt_at b c s n g (k g)) \<Longrightarrow> stmt_at b c s n f (Option.bind r k)"
  unfolding stmt_at_def wp_simps by (blast intro: wp_mono)

lemma at_cond_bind: "stmt_at False False False n f r \<Longrightarrow> (\<And>g. cond_at n g (k g)) \<Longrightarrow> cond_at n f (Option.bind r k)"
proof -
  assume r: "stmt_at False False False n f r" and k: "\<And>g. cond_at n g (k g)"
  show ?thesis unfolding cond_at_def wp_simps
  proof (intro allI impI)
    fix M l sw h assume f: "walk_st M l sw h f" "conds l \<and> (n = 0 \<longrightarrow> h)"
    then have "wp r (walk_st M l sw h)" using r by (simp add: stmt_at_def conds_def)
    then show "wp r (\<lambda>x. wp (k x) (\<lambda>(tf', f'). walk_st M (down Fake (down Pre_cond l)) sw h f'))"
      by (rule wp_mono) (use k f(2) in \<open>auto simp: cond_at_def\<close>)
  qed
qed

lemma at_if: "(q \<Longrightarrow> stmt_at b c s n f x) \<Longrightarrow> (\<not> q \<Longrightarrow> stmt_at b c s n f y) \<Longrightarrow> stmt_at b c s n f (if q then x else y)"
  by simp

lemma at_upd: "stmt_at b c s n (f\<lparr>expr_stmt_count := i\<rparr>) r \<Longrightarrow> stmt_at b c s n f r"
  by (simp add: stmt_at_def)

lemma at_end: "stmt_at b c s n f (Some (f\<lparr>expr_stmt_count := i\<rparr>))" "stmt_at b c s n f (Some (f\<lparr>post_op_stack := es\<rparr>))"
  by (simp_all add: stmt_at_def)

lemma at_mono: "stmt_at False False False n f r \<Longrightarrow> stmt_at b c s n f r"
  unfolding stmt_at_def ctx_def by blast

lemma at_visit: "world_ok W \<Longrightarrow> stmt_at b c s n f (visit W v f)" "world_ok W \<Longrightarrow> stmt_at b c s n f (pass_expr W k e f)"
  "world_ok W \<Longrightarrow> stmt_at b c s n f (process_post_op_stack W f)"
  by (auto simp: stmt_at_def intro: world_steps)

lemma at_nullify: "stmt_at b c s n f (on nullify_path f)"
  by (auto simp: stmt_at_def ctx_def intro: nullify.step)

lemma at_fakes: "stmt_at b c s n f (on (discard_fake_states call) f)" "stmt_at b c s n f (count_fake q f)"
  by (auto simp: stmt_at_def intro: drop_fakes.step count_fake_step)

lemma at_gotos: "world_ok W \<Longrightarrow> stmt_at b c s n f (on (save_gotos (the_env W) nm sy) f)"
  by (auto simp: stmt_at_def intro: save_gotos_step)

lemmas at_intros = at_bind at_if at_visit at_nullify at_fakes at_gotos at_skip at_end

section \<open>Expressions\<close>

lemma enter_expr_ok:
  assumes "world_ok W" "expr_ok n w"
  shows "expr_ok n (enter_expr W e w)"
  unfolding enter_expr_def by (intro stmt_ok_at at_intros at_stmt [OF assms(2)] assms(1))

lemma split_preop_ok:
  assumes "world_ok W" "expr_ok n w"
  shows "expr_ok n (split_preop W c u w)"
  unfolding split_preop_def by (intro stmt_ok_at at_intros at_stmt [OF assms(2)] assms(1))

lemma add_postop_ok: "expr_ok n (add_postop e)"
  unfolding add_postop_def by (intro stmt_ok_at at_intros)

lemma split_select_ok:
  assumes W: "world_ok W" and ok: "whole_ok n a" "expr_ok n x" "expr_ok n y"
  shows "expr_ok n (split_select W e d a x y)"
proof -
  have "stmt_at False False False n f (do { f \<leftarrow> a f; f \<leftarrow> x f; f \<leftarrow> on push_true_states f; f \<leftarrow> on use_false_states f; f \<leftarrow> y f;
      on (merge_true_states (the_env W)) f })" for f
  proof -
    have eq: "down True_stack (down False_stack (up True_stack (up False_stack l))) = l" for l by (auto simp: level_eqs)
    note steps = whole_okD [OF ok(1)] stmt_okD [OF ok(2)] stmt_okD [OF ok(3)] walk_steps world_steps [OF W]
    show ?thesis unfolding stmt_at_def wp_simps
      by (intro allI impI) ((rule steps, assumption, simp)+, simp add: eq)
  qed
  then show ?thesis unfolding split_select_def
    by (intro stmt_ok_at at_if at_bind [OF at_visit(2) [OF W]] at_stmt [OF ok(2)] at_stmt [OF ok(3)])
qed

lemma split_call_ok:
  assumes "world_ok W" "expr_ok n x" "expr_ok n y" "expr_ok n z"
  shows "expr_ok n (split_call W e fn x y z)"
  unfolding split_call_def by (intro stmt_ok_at at_intros at_stmt [OF assms(2)] at_stmt [OF assms(3)] at_stmt [OF assms(4)] assms(1))

section \<open>Assignments\<close>

lemma after_assign_ok:
  assumes "world_ok W" "expr_ok n w"
  shows "expr_ok n (after_assign W e w)"
  unfolding after_assign_def by (intro stmt_ok_at at_intros at_stmt [OF assms(2)] assms(1))

lemma plain_assign_ok:
  assumes W: "world_ok W" and "expr_ok n x" "expr_ok n y"
  shows "expr_ok n (plain_assign W c e r x y)"
proof -
  have "stmt_at False False False n f (case strip_expr W f r of
      EXPR_CALL _ _ \<Rightarrow> if c = eq_op then pass_expr W CALL_ASSIGNMENT_HOOK e f else Some f | _ \<Rightarrow> Some f)" for f
    by (auto split: expr.splits intro: at_visit(2) [OF W] at_skip)
  then show ?thesis unfolding plain_assign_def
    by (intro stmt_ok_at at_bind [OF at_stmt [OF assms(2)]] at_bind [OF at_visit(2) [OF W]] at_bind [OF at_visit(1) [OF W]]
        at_bind at_stmt [OF after_assign_ok [OF W assms(3)]])
qed

lemma handle_block_assigns_ok:
  assumes "world_ok W" "expr_ok n x" "expr_ok n y" "expr_ok n z"
  shows "expr_ok n (handle_block_assigns W st x y z)"
  unfolding handle_block_assigns_def by (intro stmt_ok_at at_bind [OF at_upd [OF at_stmt [OF assms(2)]]] at_intros at_stmt [OF assms(3)] at_stmt [OF assms(4)] assms(1))

lemma in_expr_stmt_ok:
  assumes "expr_ok n w"
  shows "expr_ok n (in_expr_stmt w)"
  unfolding in_expr_stmt_def by (intro stmt_ok_at at_bind [OF at_upd [OF at_stmt [OF assms]]] at_intros)

lemma with_casts_ok:
  assumes "world_ok W" "expr_ok n w"
  shows "expr_ok n (with_casts W cast e w)"
proof -
  have "expr_ok n (\<lambda>f. do { f \<leftarrow> pass_expr W CAST_HOOK (EXPR_CAST e) f; w f })"
    by (intro stmt_ok_at at_intros at_stmt [OF assms(2)] assms(1))
  from enter_expr_ok [OF assms(1) this] assms(2) show ?thesis by (simp add: with_casts_def)
qed

section \<open>Gotos and labels\<close>

lemma jump_ok: "world_ok W \<Longrightarrow> (t = Goto_break \<longrightarrow> b) \<Longrightarrow> (t = Goto_continue \<longrightarrow> c) \<Longrightarrow> stmt_ok b c s n (jump W t)"
  by (rule stmt_okI) (cases t; auto simp: jump_def ctx_def intro: process_breaks_step process_continues_step save_gotos_step)

lemma save_asm_gotos_ok: "world_ok W \<Longrightarrow> stmt_ok b c s n (save_asm_gotos W ls)"
proof (rule stmt_ok_at)
  fix f assume "world_ok W"
  then show "stmt_at b c s n f (save_asm_gotos W ls f)"
    by (induction ls arbitrary: f) (auto intro!: at_intros)
qed

lemma split_label_ok: "world_ok W \<Longrightarrow> stmt_ok b c s n (split_label_stmt W nm sy)"
  by (rule stmt_okI) (simp add: split_label_stmt_def, rule merge_gotos_step, assumption, simp, simp_all)

lemma split_last_label_ok: "world_ok W \<Longrightarrow> stmt_ok b c s n (split_last_label W x)"
  unfolding split_last_label_def
  by (intro stmt_ok_at) (auto split: stmt.splits intro: at_skip at_stmt [OF split_label_ok])

lemma split_compound_ok:
  assumes "world_ok W" "stmt_ok b c s n w"
  shows "stmt_ok b c s n (split_compound W ss w)"
  unfolding split_compound_def by (intro stmt_ok_at at_intros at_stmt [OF assms(2)] assms(1))

text \<open>The statements that are walked again for a goto at the end: then it has been handled.\<close>

lemma backward_goto_ok:
  assumes "\<And>k nm. n = Suc k \<Longrightarrow> expr_ok k (again k nm)"
  shows "stmt_ok b c s n (handle_backward_goto_at_end W a t (\<lambda>nm. case n of 0 \<Rightarrow> (\<lambda>_. None) | Suc k \<Rightarrow> again k nm))"
proof (rule stmt_okI)
  fix M l sw h f assume f: "walk_st M l sw h f" and l: "ctx b c s l sw" "n = 0 \<longrightarrow> h"
  let ?g = "f\<lparr>last_goto_statement_handled := True\<rparr>"
  have g: "walk_st M l sw True ?g" using f by (simp add: walk_st_def)
  have "wp (again k nm ?g) (walk_st M l sw h)" if "n = Suc k" for k nm
    by (rule stmt_okD [OF assms [OF that] g]) (use l(1) in \<open>auto simp: ctx_def walk_st_def\<close>)
  moreover have "last_goto_statement_handled f" if "n = 0" using f l(2) that by (simp add: walk_st_def)
  moreover have "walk_st M l sw h ?g" using g by (simp add: walk_st_def)
  ultimately show "wp (handle_backward_goto_at_end W a t (\<lambda>nm. case n of 0 \<Rightarrow> (\<lambda>_. None) | Suc k \<Rightarrow> again k nm) f) (walk_st M l sw h)"
    using f by (cases n; cases t) (auto simp: handle_backward_goto_at_end_def Let_def)
qed

end
