(* ===== verification/Walk_Balance.thy ===== *)
theory Walk_Balance
  imports Expr_Balance
begin

text \<open>
  The whole walk keeps the stacks in balance and always returns.
\<close>

section \<open>Well-formed trees\<close>

text \<open>
  A break stands in a loop or a switch, a continue in a loop and a case label in a switch. The statements
  inside an expression have loops and switches of their own, and a block in parentheses is not empty.
\<close>

fun wf_expr :: "expr \<Rightarrow> bool" and wf_stmt :: "bool \<Rightarrow> bool \<Rightarrow> bool \<Rightarrow> stmt \<Rightarrow> bool" where
  "wf_expr (EXPR_VALUE v) = True"
| "wf_expr (EXPR_SYMBOL nm) = True"
| "wf_expr (EXPR_OTHER i) = True"
| "wf_expr (EXPR_PREOP c e) = (wf_expr e \<and> \<not> (c = Ch CHR ''('' \<and> e = EXPR_STATEMENT (STMT_COMPOUND [])))"
| "wf_expr (EXPR_POSTOP c e) = wf_expr e"
| "wf_expr (EXPR_LOGICAL c l r) = (wf_expr l \<and> wf_expr r)"
| "wf_expr (EXPR_COMPARE c l r) = (wf_expr l \<and> wf_expr r)"
| "wf_expr (EXPR_BINOP c l r) = (wf_expr l \<and> wf_expr r)"
| "wf_expr (EXPR_COMMA l r) = (wf_expr l \<and> wf_expr r)"
| "wf_expr (EXPR_ASSIGNMENT c l r) = (wf_expr l \<and> wf_expr r)"
| "wf_expr (EXPR_DEREF e) = wf_expr e"
| "wf_expr (EXPR_PART e) = wf_expr e"
| "wf_expr (EXPR_CAST e) = wf_expr e"
| "wf_expr (EXPR_SELECT a t d) = (wf_expr a \<and> (case t of None \<Rightarrow> True | Some t \<Rightarrow> wf_expr t) \<and> wf_expr d)"
| "wf_expr (EXPR_CALL fn args) = (wf_expr fn \<and> (\<forall>a \<in> set args. wf_expr a))"
| "wf_expr (EXPR_INITIALIZER es) = (\<forall>e \<in> set es. wf_expr e)"
| "wf_expr (EXPR_STATEMENT st) = wf_stmt False False False st"
| "wf_stmt b c s STMT_NONE = True"
| "wf_stmt b c s (STMT_DECLARATION d) = True"
| "wf_stmt b c s (STMT_EXPRESSION e) = (case e of None \<Rightarrow> True | Some e \<Rightarrow> wf_expr e)"
| "wf_stmt b c s (STMT_COMPOUND ss) = (\<forall>x \<in> set ss. wf_stmt b c s x)"
| "wf_stmt b c s (STMT_IF e x y) =
     (wf_expr e \<and> (case x of None \<Rightarrow> True | Some x \<Rightarrow> wf_stmt b c s x) \<and> (case y of None \<Rightarrow> True | Some y \<Rightarrow> wf_stmt b c s y))"
| "wf_stmt b c s (STMT_RETURN e) = (case e of None \<Rightarrow> True | Some e \<Rightarrow> wf_expr e)"
| "wf_stmt b c s (STMT_CASE e t x) = (s \<and> wf_stmt b c s x)"
| "wf_stmt b c s (STMT_SWITCH e ss) = (wf_expr e \<and> (\<forall>x \<in> set ss. wf_stmt True c True x))"
| "wf_stmt b c s (STMT_ITERATOR d x e body y e') =
     ((case x of None \<Rightarrow> True | Some x \<Rightarrow> wf_stmt False False False x) \<and> (case e of None \<Rightarrow> True | Some e \<Rightarrow> wf_expr e)
      \<and> wf_stmt True True s body
      \<and> (case y of None \<Rightarrow> True | Some y \<Rightarrow> wf_stmt False False False y) \<and> (case e' of None \<Rightarrow> True | Some e \<Rightarrow> wf_expr e))"
| "wf_stmt b c s (STMT_LABEL nm sy x) = wf_stmt b c s x"
| "wf_stmt b c s (STMT_GOTO a t e) =
     ((t = Goto_break \<longrightarrow> b) \<and> (t = Goto_continue \<longrightarrow> c) \<and> (case e of None \<Rightarrow> True | Some e \<Rightarrow> wf_expr e))"
| "wf_stmt b c s (STMT_ASM e es cs ls) = (wf_expr e \<and> (\<forall>x \<in> set es \<union> set cs. wf_expr x))"
| "wf_stmt b c s STMT_CONTEXT = True"
| "wf_stmt b c s (STMT_RANGE x y z) = (wf_expr x \<and> wf_expr y \<and> wf_expr z)"

lemma inner_parens_wf: "wf_expr (EXPR_PREOP c u) \<Longrightarrow> wf_expr (EXPR_PREOP c (inner_parens c u))"
  by (induction c u rule: inner_parens.induct) auto

lemma chosen_arg_wf: "chosen_arg W fn args f = Some a \<Longrightarrow> wf_expr (EXPR_CALL fn args) \<Longrightarrow> wf_expr a"
  by (auto simp: chosen_arg_def split: if_splits list.splits)

lemma strip_plus_zero_wf: "strip_plus_zero W f k c l r = Some x \<Longrightarrow> wf_expr (EXPR_BINOP c l r) \<Longrightarrow> wf_expr x"
  by (auto simp: strip_plus_zero_def Let_def split: if_splits)

lemma strip_helper_wf: "wf_expr e \<Longrightarrow> wf_expr (fst (strip_expr_helper W f cast k e))"
proof (induction W f cast k e rule: strip_expr_helper.induct)
  case (1 W f cast k e)
  show ?case
  proof (cases e)
    case (EXPR_PREOP c u)
    define v where "v = inner_parens c u"
    have v: "wf_expr (EXPR_PREOP c v)" using inner_parens_wf 1(9) unfolding EXPR_PREOP v_def by blast
    obtain w i where w: "strip_expr_helper W f cast (k + 1) v = (w, i)" by force
    show ?thesis
    proof (cases "c = Ch CHR ''('' \<and> is_block v")
      case True
      then show ?thesis using v by (subst strip_expr_helper.simps) (auto simp: EXPR_PREOP v_def Let_def)
    next
      case False
      have "wf_expr w" using 1(1) [OF refl EXPR_PREOP refl] False v w by (simp add: v_def)
      moreover have "wf_expr (fst (strip_expr_helper W f cast i x))"
        if "w = EXPR_PREOP (Ch CHR ''&'') x" "c = Ch CHR ''*''" "\<not> is_sym SYM_ARRAY (get_type W x)" "esize x < esize e" for x
        using 1(2) [OF refl EXPR_PREOP refl] that w False \<open>wf_expr w\<close> by (simp add: v_def)
      ultimately show ?thesis
        using v w False by (subst strip_expr_helper.simps) (auto simp: EXPR_PREOP v_def Let_def split: expr.splits)
    qed
  next
    case (EXPR_CAST u)
    show ?thesis using 1(4) [OF refl EXPR_CAST] 1(9) by (subst strip_expr_helper.simps) (auto simp: EXPR_CAST)
  next
    case (EXPR_SELECT a t d)
    show ?thesis using 1(5,6) [OF refl EXPR_SELECT] 1(9)
      by (subst strip_expr_helper.simps) (auto simp: EXPR_SELECT split: option.splits)
  next
    case (EXPR_CALL fn args)
    show ?thesis using 1(7,8) [OF refl EXPR_CALL] 1(9) chosen_arg_wf [of W fn args f]
      by (subst strip_expr_helper.simps) (auto simp: EXPR_CALL split: option.splits list.splits)
  next
    case (EXPR_BINOP c l r)
    show ?thesis using 1(3) [OF refl EXPR_BINOP] 1(9) strip_plus_zero_wf [of W f "k + 1" c l r]
      by (subst strip_expr_helper.simps) (auto simp: EXPR_BINOP split: option.splits)
  qed (subst strip_expr_helper.simps, use 1(9) in simp)+
qed

lemma strip_wf: "wf_expr e \<Longrightarrow> wf_expr (strip_expr W f e)" "wf_expr e \<Longrightarrow> wf_expr (strip_no_cast W f e)"
  by (simp_all add: strip_expr_def strip_no_cast_def strip_helper_wf)

lemma strip_cast_wf: "wf_expr e \<Longrightarrow> wf_expr (fst (strip_expr_cast W f e))"
proof (induction W f e rule: strip_expr_cast.induct)
  case (1 W f e)
  then show ?case using strip_wf(2) [OF 1(2), of W f]
    by (cases "strip_no_cast W f e") (auto simp: strip_expr_cast.simps [of _ _ e])
qed

lemma strip_parens_wf: "wf_expr e \<Longrightarrow> wf_expr (strip_parens e)"
  by (induction e rule: strip_parens.induct) auto

lemma parts_wf:
  "select_parts W f c r = Some (a, t, d) \<Longrightarrow> wf_expr r \<Longrightarrow> wf_expr a \<and> (case t of None \<Rightarrow> True | Some t \<Rightarrow> wf_expr t) \<and> wf_expr d"
  "comma_parts W f r = Some (x, y) \<Longrightarrow> wf_expr r \<Longrightarrow> wf_expr x \<and> wf_expr y"
  "assigned_stmt W f r = Some st \<Longrightarrow> wf_expr r \<Longrightarrow> wf_stmt False False False st"
  "chosen_right W r f = Some z \<Longrightarrow> wf_expr r \<Longrightarrow> wf_expr z"
  "overflow_assign fn args = Some (x, y) \<Longrightarrow> wf_expr (EXPR_CALL fn args) \<Longrightarrow> wf_expr x \<and> wf_expr y"
proof -
  show "select_parts W f c r = Some (a, t, d) \<Longrightarrow> wf_expr r \<Longrightarrow> wf_expr a \<and> (case t of None \<Rightarrow> True | Some t \<Rightarrow> wf_expr t) \<and> wf_expr d"
    using strip_wf(1) [of r W f] by (auto simp: select_parts_def split: expr.splits if_splits)
  show "comma_parts W f r = Some (x, y) \<Longrightarrow> wf_expr r \<Longrightarrow> wf_expr x \<and> wf_expr y"
    using strip_wf(1) [of r W f] by (auto simp: comma_parts_def split: expr.splits)
  show "assigned_stmt W f r = Some st \<Longrightarrow> wf_expr r \<Longrightarrow> wf_stmt False False False st"
    using strip_cast_wf [of r W f] by (auto simp: assigned_stmt_def split: expr.splits if_splits)
  show "chosen_right W r f = Some z \<Longrightarrow> wf_expr r \<Longrightarrow> wf_expr z"
    using strip_parens_wf [of r] by (auto simp: chosen_right_def split: expr.splits dest!: chosen_arg_wf)
  show "overflow_assign fn args = Some (x, y) \<Longrightarrow> wf_expr (EXPR_CALL fn args) \<Longrightarrow> wf_expr x \<and> wf_expr y"
    by (auto simp: overflow_assign_def Let_def split: if_splits list.splits option.splits)
qed

lemma postop_target_wf:
  assumes "postop_target W f l = Some p" "wf_expr l"
  shows "wf_expr p"
proof -
  obtain u c q where "strip_expr W f l = EXPR_PREOP (Ch CHR ''*'') u" "strip_expr W f u = EXPR_POSTOP c q" "p = strip_expr W f q"
    using assms(1) by (auto simp: postop_target_def split: expr.splits if_splits)
  then show ?thesis using strip_wf(1) [of _ W f] assms(2) by (metis wf_expr.simps(4,5))
qed

lemma last_label_wf: "wf_stmt b c s x \<Longrightarrow> wf_stmt b c s (snd (last_label x))"
  by (cases s) (induction x rule: last_label.induct, auto)+

lemma case_body_wf: "wf_stmt b c s x \<Longrightarrow> wf_stmt b c s (case_body x)"
  by (cases x) auto

lemma after_label_wf: "wf_stmt b c s x \<Longrightarrow> wf_stmt b c s (after_label x)"
  by (cases x) (auto simp: after_label_def)

lemma last_expr_wf: "last_expr x = Some (Some e) \<Longrightarrow> wf_stmt b c s x \<Longrightarrow> wf_expr e"
  by (induction x rule: last_expr.induct) auto

lemma from_label_wf: "\<forall>x \<in> set ss. P x \<Longrightarrow> x \<in> set (from_label nm ss) \<Longrightarrow> P x"
  by (auto simp: from_label_def dest: set_dropWhileD)

section \<open>The recursion\<close>

declare split_conditions.simps [simp del] split_expr.simps [simp del] parse_assignment.simps [simp del] split_stmt.simps [simp del]

lemma at_option:
  "(x = None \<Longrightarrow> stmt_at b c s n f y) \<Longrightarrow> (\<And>v. x = Some v \<Longrightarrow> stmt_at b c s n f (k v)) \<Longrightarrow>
    stmt_at b c s n f (case x of None \<Rightarrow> y | Some v \<Rightarrow> k v)"
  by (cases x) simp_all

text \<open>
  The walks over all trees below a size, where walks of the same tree are ranked as in the
  termination proof.
\<close>

definition subwalks :: "world \<Rightarrow> nat \<Rightarrow> nat \<Rightarrow> bool" where
  "subwalks W n N \<longleftrightarrow>
     (\<forall>e. wf_expr e \<longrightarrow> 7 * esize e + 3 < N \<longrightarrow> cond_ok n (split_conditions W n e))
     \<and> (\<forall>e. wf_expr e \<longrightarrow> 7 * esize e + 2 < N \<longrightarrow> cond_ok n (split_stripped W n e))
     \<and> (\<forall>b e. wf_expr e \<longrightarrow> 7 * esize e + wrap_rank b e < N \<longrightarrow> expr_ok n (split_expr W n b e))
     \<and> (\<forall>p es. (\<forall>e \<in> set es. wf_expr e) \<longrightarrow> 7 * sum_list (map (\<lambda>e. esize e + 1) es) < N \<longrightarrow> expr_ok n (split_expr_list W n p es))
     \<and> (\<forall>c i es. (\<forall>e \<in> set es. wf_expr e) \<longrightarrow> 7 * sum_list (map (\<lambda>e. esize e + 2) es) < N \<longrightarrow> expr_ok n (split_args W n c i es))
     \<and> (\<forall>l c r. wf_expr l \<longrightarrow> wf_expr r \<longrightarrow> 7 * (esize l + esize r) + 5 < N \<longrightarrow> expr_ok n (parse_assignment W n l c r))
     \<and> (\<forall>b c s x. wf_stmt b c s x \<longrightarrow> 7 * ssize x < N \<longrightarrow> stmt_ok b c s n (split_stmt W n x))
     \<and> (\<forall>b c s ss. (\<forall>x \<in> set ss. wf_stmt b c s x) \<longrightarrow> 7 * sum_list (map (\<lambda>s. ssize s + 1) ss) < N \<longrightarrow> stmt_ok b c s n (split_stmts W n ss))
     \<and> (\<forall>b c v ss. (\<forall>x \<in> set ss. wf_stmt b c True x) \<longrightarrow> 7 * sum_list (map (\<lambda>s. ssize s + 1) ss) < N \<longrightarrow> stmt_ok b c True n (known_cases W n v ss))"

lemma subwalksD:
  assumes "subwalks W n N"
  shows sub_cond: "wf_expr e \<Longrightarrow> 7 * esize e + 3 < N \<Longrightarrow> cond_ok n (split_conditions W n e)"
    and sub_stripped: "wf_expr e \<Longrightarrow> 7 * esize e + 2 < N \<Longrightarrow> cond_ok n (split_stripped W n e)"
    and sub_expr: "wf_expr e \<Longrightarrow> 7 * esize e + wrap_rank b e < N \<Longrightarrow> expr_ok n (split_expr W n b e)"
    and sub_list: "\<forall>e \<in> set es. wf_expr e \<Longrightarrow> 7 * sum_list (map (\<lambda>e. esize e + 1) es) < N \<Longrightarrow> expr_ok n (split_expr_list W n p es)"
    and sub_args: "\<forall>e \<in> set es. wf_expr e \<Longrightarrow> 7 * sum_list (map (\<lambda>e. esize e + 2) es) < N \<Longrightarrow> expr_ok n (split_args W n call i es)"
    and sub_assign: "wf_expr l \<Longrightarrow> wf_expr r \<Longrightarrow> 7 * (esize l + esize r) + 5 < N \<Longrightarrow> expr_ok n (parse_assignment W n l c r)"
    and sub_stmt: "wf_stmt b' c' s x \<Longrightarrow> 7 * ssize x < N \<Longrightarrow> stmt_ok b' c' s n (split_stmt W n x)"
    and sub_stmts: "\<forall>x \<in> set ss. wf_stmt b' c' s x \<Longrightarrow> 7 * sum_list (map (\<lambda>s. ssize s + 1) ss) < N \<Longrightarrow> stmt_ok b' c' s n (split_stmts W n ss)"
    and sub_cases: "\<forall>x \<in> set ss. wf_stmt b' c' True x \<Longrightarrow> 7 * sum_list (map (\<lambda>s. ssize s + 1) ss) < N \<Longrightarrow> stmt_ok b' c' True n (known_cases W n v ss)"
  using assms unfolding subwalks_def by simp_all

lemma wrap_rank_le: "wrap_rank b e \<le> 6" "wrap_rank True e \<le> 4"
  by (auto simp: wrap_rank_def split: expr.splits)

lemma conditions_walk:
  assumes "subwalks W n N" "wf_expr e" "7 * esize e + 3 \<le> N"
  shows "cond_ok n (split_conditions W n e)"
proof (rule cond_ok_at)
  fix tf f
  show "cond_at n f (split_conditions W n e tf f)"
    unfolding split_conditions.simps
    by (rule at_cond, rule sub_stripped [OF assms(1) strip_wf(1) [OF assms(2)]])
      (use strip_size(1) [of W f e] assms(3) in linarith)
qed

lemma block_parts:
  assumes "ss \<noteq> []" "\<forall>x \<in> set ss. wf_stmt b c s x"
  shows "\<forall>x \<in> set (butlast ss). wf_stmt b c s x" "wf_stmt b c s (last ss)"
  using assms by (auto dest: in_set_butlastD)

lemma block_condition:
  assumes W: "world_ok W" and IH: "subwalks W n N" and ss: "ss \<noteq> []" "\<forall>x \<in> set ss. wf_stmt False False False x"
    and N: "7 * sum_list (map (\<lambda>s. ssize s + 1) ss) \<le> N" and e: "last_expr (last ss) = Some e"
  shows "cond_ok n (handle_expr_statement_conditions W (split_stmts W n (butlast ss)) (split_last_label W (last ss))
    (case e of None \<Rightarrow> null_condition | Some e \<Rightarrow> split_conditions W n e))"
proof (rule handle_expr_statement_conditions_ok [OF W _ split_last_label_ok [OF W]])
  show "expr_ok n (split_stmts W n (butlast ss))"
    using sub_stmts [OF IH block_parts(1) [OF ss]] ssize_block [OF ss(1)] N by simp
  show "cond_ok n (case e of None \<Rightarrow> null_condition | Some e \<Rightarrow> split_conditions W n e)"
  proof (cases e)
    case (Some x)
    have "wf_expr x" using last_expr_wf block_parts(2) [OF ss] e Some by blast
    moreover have "7 * esize x + 3 < N" using last_expr_size [of "last ss" x] ssize_block [OF ss(1)] N e Some by simp
    ultimately show ?thesis using sub_cond [OF IH] Some by simp
  qed (simp add: null_condition_ok)
qed

lemma stripped_walk:
  assumes W: "world_ok W" and IH: "subwalks W n N" and "wf_expr e" "7 * esize e + 2 \<le> N"
  shows "cond_ok n (split_stripped W n e)"
proof (cases e)
  case (EXPR_PREOP c u)
  have simple: "cond_ok n (simple_condition W (EXPR_PREOP c u) (split_expr W n True (EXPR_PREOP c u)) Some)"
    by (rule simple_condition_ok [OF W sub_expr [OF IH] skip_ok]) (use assms(3,4) EXPR_PREOP in simp_all)
  show ?thesis
  proof (cases "c = Ch CHR ''!''")
    case True
    have "cond_ok n (split_conditions W n u)" by (rule sub_cond [OF IH]) (use assms(3,4) EXPR_PREOP in simp_all)
    then show ?thesis using True EXPR_PREOP by (simp add: split_stripped.simps handle_negation_ok)
  next
    case c: False
    show ?thesis
    proof (cases "c = Ch CHR ''('' \<and> is_block u")
      case True
      then obtain ss where u: "u = EXPR_STATEMENT (STMT_COMPOUND ss)" by (cases u rule: is_block.cases) auto
      have ss: "ss \<noteq> []" "\<forall>x \<in> set ss. wf_stmt False False False x" using assms(3) True EXPR_PREOP u by auto
      have N: "7 * sum_list (map (\<lambda>s. ssize s + 1) ss) < N" using assms(4) EXPR_PREOP u by simp
      have "cond_ok n (\<lambda>known_tf f. do { f \<leftarrow> split_stmts W n ss f; null_condition known_tf f })"
        by (intro cond_ok_at at_cond_bind at_stmt [OF sub_stmts [OF IH ss(2) N]] at_cond [OF null_condition_ok])
      then show ?thesis
        using c True ss block_condition [OF W IH ss less_imp_le [OF N]] by (auto simp: EXPR_PREOP u split_stripped.simps split: option.splits)
    next
      case False
      then show ?thesis using c simple by (auto simp: EXPR_PREOP split_stripped.simps split: expr.splits stmt.splits)
    qed
  qed
next
  case (EXPR_STATEMENT s)
  have simple: "cond_ok n (simple_condition W (EXPR_STATEMENT s) (split_expr W n True (EXPR_STATEMENT s)) Some)"
    by (rule simple_condition_ok [OF W sub_expr [OF IH] skip_ok]) (use assms(3,4) EXPR_STATEMENT in simp_all)
  have "cond_ok n (handle_expr_statement_conditions W (split_stmts W n (butlast ss)) (split_last_label W (last ss))
      (case e of None \<Rightarrow> null_condition | Some e \<Rightarrow> split_conditions W n e))"
    if "s = STMT_COMPOUND ss" "ss \<noteq> []" "last_expr (last ss) = Some e" for ss e
    by (rule block_condition [OF W IH that(2) _ _ that(3)]) (use assms(3,4) EXPR_STATEMENT that(1) in simp_all)
  with simple show ?thesis unfolding EXPR_STATEMENT split_stripped.simps by (auto split: stmt.splits option.splits)
next
  case (EXPR_LOGICAL c l r)
  have "cond_ok n (split_conditions W n l)" "cond_ok n (split_conditions W n r)"
    by (rule sub_cond [OF IH]; use assms(3,4) EXPR_LOGICAL in simp)+
  note both = handle_logical_ok [OF W this]
  show ?thesis unfolding EXPR_LOGICAL split_stripped.simps by (intro cond_ok_at at_cond_bind at_visit W at_cond [OF both])
next
  case (EXPR_COMPARE c l r)
  have "expr_ok n (split_expr W n False l)" "expr_ok n (split_expr W n False r)"
    "cond_ok n (split_conditions W n l)" "cond_ok n (split_conditions W n r)"
    by (rule sub_expr [OF IH] sub_cond [OF IH]; use assms(3,4) EXPR_COMPARE in simp)+
  then show ?thesis unfolding EXPR_COMPARE split_stripped.simps by (rule handle_compare_ok [OF W])
next
  case (EXPR_BINOP c l r)
  have parts: "expr_ok n (split_expr W n False l)" "expr_ok n (split_expr W n False r)"
    "cond_ok n (split_conditions W n l)" "cond_ok n (split_conditions W n r)"
    by (rule sub_expr [OF IH] sub_cond [OF IH]; use assms(3,4) EXPR_BINOP in simp)+
  moreover have "cond_ok n (simple_condition W e (split_expr W n True e) Some)"
    by (rule simple_condition_ok [OF W sub_expr [OF IH] skip_ok]) (use assms(3,4) EXPR_BINOP in simp_all)
  ultimately show ?thesis
    using handle_logical_ok [OF W parts(3,4)] handle_compare_ok [OF W parts] by (simp add: EXPR_BINOP split_stripped.simps)
next
  case (EXPR_COMMA l r)
  have "expr_ok n (split_expr W n False l)" "cond_ok n (split_conditions W n r)"
    by (rule sub_expr [OF IH] sub_cond [OF IH]; use assms(3,4) EXPR_COMMA in simp)+
  then show ?thesis unfolding EXPR_COMMA split_stripped.simps by (rule handle_comma_ok)
next
  case (EXPR_SELECT a t d)
  have "cond_ok n (split_conditions W n a)" "cond_ok n (split_conditions W n d)"
    by (rule sub_cond [OF IH]; use assms(3,4) EXPR_SELECT in \<open>simp split: option.splits\<close>)+
  moreover have "cond_ok n (case t of None \<Rightarrow> null_condition | Some b \<Rightarrow> split_conditions W n b)"
    using assms(3,4) EXPR_SELECT by (auto simp: null_condition_ok split: option.splits intro!: sub_cond [OF IH])
  ultimately show ?thesis unfolding EXPR_SELECT split_stripped.simps by (intro handle_select_ok [OF W])
next
  case (EXPR_CALL fn args)
  have "cond_ok n (split_conditions W n a)" if "args = a # as" for a as
    by (rule sub_cond [OF IH]) (use assms(3,4) EXPR_CALL that in simp_all)
  moreover have "cond_ok n (simple_condition W e (split_expr W n True e) Some)"
    by (rule simple_condition_ok [OF W sub_expr [OF IH] skip_ok]) (use assms(3,4) EXPR_CALL in simp_all)
  ultimately show ?thesis by (auto simp: EXPR_CALL split_stripped.simps null_condition_ok split: list.splits)
next
  case (EXPR_POSTOP c u)
  have "expr_ok n (split_expr W n True e)" by (rule sub_expr [OF IH]) (use assms(3,4) EXPR_POSTOP in simp_all)
  then show ?thesis unfolding EXPR_POSTOP split_stripped.simps by (rule simple_condition_ok [OF W skip_ok])
qed (simp only: split_stripped.simps, rule simple_condition_ok [OF W sub_expr [OF IH] skip_ok], use assms(3) in simp, use assms(4) in simp)+

section \<open>Expressions\<close>

lemma call_walk:
  assumes W: "world_ok W" and IH: "subwalks W n N" and wf: "wf_expr (EXPR_CALL fn args)"
    and N: "7 * esize (EXPR_CALL fn args) + wrap_rank b (EXPR_CALL fn args) \<le> N"
  shows "expr_ok n (split_expr W n b (EXPR_CALL fn args))"
proof -
  let ?e = "EXPR_CALL fn args" and ?l = "fake_symbol W ''__fake_assign_'' (EXPR_CALL fn args)"
  have fake: "expr_ok n (enter_expr W (EXPR_ASSIGNMENT eq_op ?l ?e) (parse_assignment W n ?l eq_op ?e))" if "\<not> b"
    by (rule enter_expr_ok [OF W sub_assign [OF IH _ wf]]) (use N that in \<open>simp_all add: fake_symbol_def\<close>)
  have arg: "expr_ok n (split_expr W n False a)" if "chosen_arg W fn args f = Some a" for a f
    by (rule sub_expr [OF IH chosen_arg_wf [OF that wf]]) (use chosen_arg_size [OF that] N in simp)
  have over: "expr_ok n (case overflow_assign fn args of None \<Rightarrow> Some
      | Some (l, r) \<Rightarrow> enter_expr W (EXPR_ASSIGNMENT eq_op l r) (parse_assignment W n l eq_op r))"
  proof (cases "overflow_assign fn args")
    case (Some p)
    obtain l r where p: "p = (l, r)" by force
    have "expr_ok n (parse_assignment W n l eq_op r)"
      by (rule sub_assign [OF IH]) (use parts_wf(5) [OF _ wf] overflow_assign_size Some p N in fastforce)+
    then show ?thesis using Some p enter_expr_ok [OF W] by simp
  qed simp
  have parts: "expr_ok n (split_expr W n False fn)" "expr_ok n (split_args W n ?e 0 args)"
    by (rule sub_expr [OF IH] sub_args [OF IH]; use wf N in simp)+
  note call = split_call_ok [OF W parts over]
  have "expr_ok n (\<lambda>f. if sym_name_is ''__builtin_constant_p'' fn then Some f else case chosen_arg W fn args f of
      Some a \<Rightarrow> split_expr W n False a f
    | None \<Rightarrow> split_call W ?e fn (split_expr W n False fn) (split_args W n ?e 0 args)
        (case overflow_assign fn args of None \<Rightarrow> Some
         | Some (l, r) \<Rightarrow> enter_expr W (EXPR_ASSIGNMENT eq_op l r) (parse_assignment W n l eq_op r)) f)"
    by (intro stmt_ok_at at_if at_skip at_option at_stmt [OF call] at_stmt [OF arg])
  from at_stmt [OF this] at_stmt [OF fake] show ?thesis
    unfolding split_expr.simps Let_def by (intro enter_expr_ok [OF W] stmt_ok_at at_if at_bind at_fakes) auto
qed

lemma select_walk:
  assumes W: "world_ok W" and IH: "subwalks W n N" and wf: "wf_expr (EXPR_SELECT a t d)" and N: "7 * esize (EXPR_SELECT a t d) \<le> N"
  shows "expr_ok n (split_expr W n b (EXPR_SELECT a t d))"
proof -
  have "cond_ok n (split_conditions W n a)" "expr_ok n (split_expr W n False d)"
    by (rule sub_expr [OF IH] sub_cond [OF IH]; use wf N in \<open>simp split: option.splits\<close>)+
  moreover have "expr_ok n (case t of None \<Rightarrow> Some | Some t \<Rightarrow> split_expr W n False t)"
    using wf N by (auto split: option.splits intro!: sub_expr [OF IH])
  ultimately show ?thesis unfolding split_expr.simps
    by (intro enter_expr_ok [OF W] split_select_ok [OF W] split_whole_condition_ok [OF W])
qed

lemma expr_walk:
  assumes W: "world_ok W" and IH: "subwalks W n N" and wf: "wf_expr e" and N: "7 * esize e + wrap_rank b e \<le> N"
  shows "expr_ok n (split_expr W n b e)"
proof (cases e)
  case (EXPR_PREOP c u)
  have "expr_ok n (split_expr W n (b \<and> c = Ch CHR ''('') u)"
    by (rule sub_expr [OF IH]) (use wf N EXPR_PREOP wrap_rank_le(1) [of "b \<and> c = Ch CHR ''(''" u] in simp_all)
  then show ?thesis unfolding EXPR_PREOP split_expr.simps by (intro enter_expr_ok [OF W] split_preop_ok [OF W])
next
  case (EXPR_POSTOP c u)
  have "expr_ok n (split_expr W n False u)" by (rule sub_expr [OF IH]) (use wf N EXPR_POSTOP in simp_all)
  from at_stmt [OF this] show ?thesis unfolding EXPR_POSTOP split_expr.simps
    by (intro enter_expr_ok [OF W] stmt_ok_at at_bind at_stmt [OF add_postop_ok])
next
  case (EXPR_LOGICAL c l r)
  have "cond_ok n (split_conditions W n e)" by (rule sub_cond [OF IH wf]) (use N EXPR_LOGICAL in \<open>simp split: if_splits\<close>)
  note logic = handle_logic_ok [OF W this [unfolded EXPR_LOGICAL], of "EXPR_LOGICAL c l r"]
  show ?thesis unfolding EXPR_LOGICAL split_expr.simps
    by (intro enter_expr_ok [OF W] stmt_ok_at at_bind at_visit W at_stmt [OF logic])
next
  case (EXPR_COMPARE c l r)
  have "cond_ok n (split_conditions W n e)" by (rule sub_cond [OF IH wf]) (use N EXPR_COMPARE in \<open>simp split: if_splits\<close>)
  note logic = handle_logic_ok [OF W this [unfolded EXPR_COMPARE], of "EXPR_COMPARE c l r"]
  show ?thesis unfolding EXPR_COMPARE split_expr.simps
    by (intro enter_expr_ok [OF W] stmt_ok_at at_bind at_visit W at_stmt [OF logic])
next
  case (EXPR_BINOP c l r)
  have parts: "expr_ok n (split_expr W n False l)" "expr_ok n (split_expr W n False r)"
    by (rule sub_expr [OF IH]; use wf N EXPR_BINOP in simp)+
  show ?thesis unfolding EXPR_BINOP split_expr.simps
    by (intro enter_expr_ok [OF W] stmt_ok_at at_bind at_visit W at_stmt [OF parts(1)] at_stmt [OF parts(2)])
next
  case (EXPR_COMMA l r)
  have parts: "expr_ok n (split_expr W n False l)" "expr_ok n (split_expr W n False r)"
    by (rule sub_expr [OF IH]; use wf N EXPR_COMMA in simp)+
  show ?thesis unfolding EXPR_COMMA split_expr.simps
    by (intro enter_expr_ok [OF W] stmt_ok_at at_bind at_visit W at_stmt [OF parts(1)] at_stmt [OF parts(2)])
next
  case (EXPR_ASSIGNMENT c l r)
  have "expr_ok n (parse_assignment W n l c r)" by (rule sub_assign [OF IH]) (use wf N EXPR_ASSIGNMENT in simp_all)
  then show ?thesis unfolding EXPR_ASSIGNMENT split_expr.simps by (rule enter_expr_ok [OF W])
next
  case (EXPR_DEREF u)
  have "expr_ok n (split_expr W n False u)" by (rule sub_expr [OF IH]) (use wf N EXPR_DEREF in simp_all)
  from at_stmt [OF this] show ?thesis unfolding EXPR_DEREF split_expr.simps by (intro enter_expr_ok [OF W] stmt_ok_at at_bind at_visit W)
next
  case (EXPR_PART u)
  have "expr_ok n (split_expr W n False u)" by (rule sub_expr [OF IH]) (use wf N EXPR_PART in simp_all)
  then show ?thesis unfolding EXPR_PART split_expr.simps by (rule enter_expr_ok [OF W])
next
  case (EXPR_CAST u)
  have "expr_ok n (split_expr W n b u)" by (rule sub_expr [OF IH]) (use wf N EXPR_CAST wrap_rank_le(1) [of b u] in simp_all)
  from at_stmt [OF this] show ?thesis unfolding EXPR_CAST split_expr.simps by (intro enter_expr_ok [OF W] stmt_ok_at at_bind at_visit W)
next
  case (EXPR_SELECT a t d)
  then show ?thesis using select_walk [OF W IH] wf N by simp
next
  case (EXPR_CALL fn args)
  then show ?thesis using call_walk [OF W IH] wf N by simp
next
  case (EXPR_INITIALIZER es)
  have "expr_ok n (split_expr_list W n True es)" by (rule sub_list [OF IH]) (use wf N EXPR_INITIALIZER in simp_all)
  then show ?thesis unfolding EXPR_INITIALIZER split_expr.simps by (rule enter_expr_ok [OF W])
next
  case (EXPR_STATEMENT s)
  have "expr_ok n (split_stmt W n s)" by (rule sub_stmt [OF IH]) (use wf N EXPR_STATEMENT in simp_all)
  then show ?thesis unfolding EXPR_STATEMENT split_expr.simps by (intro enter_expr_ok [OF W] in_expr_stmt_ok)
next
  case (EXPR_SYMBOL nm)
  have "expr_ok n (pass_expr W SYM_HOOK (EXPR_SYMBOL nm))" by (intro stmt_ok_at at_visit W)
  then show ?thesis unfolding EXPR_SYMBOL split_expr.simps by (rule enter_expr_ok [OF W])
qed (simp only: split_expr.simps, rule enter_expr_ok [OF W skip_ok])+

lemma list_walk:
  assumes W: "world_ok W" and IH: "subwalks W n N" and wf: "\<forall>e \<in> set es. wf_expr e" and N: "7 * sum_list (map (\<lambda>e. esize e + 1) es) \<le> N"
  shows "expr_ok n (split_expr_list W n p es)"
proof (cases es)
  case (Cons a as)
  have parts: "expr_ok n (split_expr W n False a)" "expr_ok n (split_expr_list W n p as)"
    by (rule sub_expr [OF IH] sub_list [OF IH]; use wf N Cons in simp)+
  show ?thesis unfolding Cons split_expr_list.simps
    by (intro stmt_ok_at at_bind at_if at_visit W at_skip at_stmt [OF parts(1)] at_stmt [OF parts(2)])
qed simp

text \<open>The made up assignment to a parameter or a returned value.\<close>

lemma fake_walk:
  assumes W: "world_ok W" and IH: "subwalks W n N" and wf: "wf_expr a" and N: "7 * esize a + 6 < N"
  shows "stmt_at False False False n f (case fake_arg W call a f of
      Fake_none \<Rightarrow> Some f
    | Fake_plain \<Rightarrow> split_expr W n False a f
    | Fake_assign \<Rightarrow> (let l = EXPR_SYMBOL nm in do {
        f \<leftarrow> count_fake True f;
        enter_expr W (EXPR_ASSIGNMENT eq_op l a) (parse_assignment W n l eq_op a) f }))"
proof -
  have "expr_ok n (parse_assignment W n (EXPR_SYMBOL nm) eq_op a)" by (rule sub_assign [OF IH]) (use wf N in simp_all)
  note assign = enter_expr_ok [OF W this]
  have "expr_ok n (split_expr W n False a)" by (rule sub_expr [OF IH wf]) (use N in simp)
  then show ?thesis unfolding Let_def by (auto split: fake_choice.split intro: at_stmt at_skip at_bind at_fakes at_stmt [OF assign])
qed

lemma args_walk:
  assumes W: "world_ok W" and IH: "subwalks W n N" and wf: "\<forall>e \<in> set es. wf_expr e" and N: "7 * sum_list (map (\<lambda>e. esize e + 2) es) \<le> N"
  shows "expr_ok n (split_args W n call i es)"
proof (cases es)
  case (Cons a as)
  have "7 * esize a + 6 < N" "wf_expr a" using N wf Cons by simp_all
  note fake = fake_walk [OF W IH this(2,1)]
  have rest: "expr_ok n (split_args W n call (i + 1) as)" by (rule sub_args [OF IH]) (use wf N Cons in simp_all)
  show ?thesis unfolding Cons split_args.simps
    by (intro stmt_ok_at at_bind [OF fake] at_bind at_visit(3) W at_stmt [OF rest])
qed simp

section \<open>Assignments\<close>

lemma at_stmt_cases:
  "(\<And>ss. x = STMT_COMPOUND ss \<Longrightarrow> stmt_at b c s n f (u ss)) \<Longrightarrow> (\<And>e. x = STMT_EXPRESSION e \<Longrightarrow> stmt_at b c s n f (v e)) \<Longrightarrow>
    stmt_at b c s n f w \<Longrightarrow> stmt_at b c s n f (case x of STMT_COMPOUND ss \<Rightarrow> u ss | STMT_EXPRESSION e \<Rightarrow> v e | _ \<Rightarrow> w)"
  by (cases x) simp_all

lemma at_pair: "(\<And>x y. p = (x, y) \<Longrightarrow> stmt_at b c s n f (k x y)) \<Longrightarrow> stmt_at b c s n f (case p of (x, y) \<Rightarrow> k x y)"
  by (cases p) simp

lemma at_triple:
  "(\<And>x y z. p = (x, y, z) \<Longrightarrow> stmt_at b c s n f (k x y z)) \<Longrightarrow> stmt_at b c s n f (case p of (x, y, z) \<Rightarrow> k x y z)"
  by (cases p) simp

lemma assign_to_walk:
  assumes "world_ok W" "subwalks W n N" "wf_expr l" "wf_expr r" "7 * (esize l + esize r) + 5 < N"
  shows "expr_ok n (enter_expr W (EXPR_ASSIGNMENT c l r) (parse_assignment W n l d r))"
  by (rule enter_expr_ok [OF assms(1) sub_assign [OF assms(2-5)]])

lemma assign_select_walk:
  assumes W: "world_ok W" and IH: "subwalks W n N" and wf: "wf_expr l" "wf_expr r" and N: "7 * (esize l + esize r) + 5 \<le> N"
    and p: "select_parts W f c r = Some (a, t, d)"
  shows "expr_ok n (handle_select_assigns W x a (t \<noteq> None)
    (case t of
       Some _ \<Rightarrow> split_whole_condition W (Some a) (split_conditions W n a)
     | None \<Rightarrow>
         (let fake = EXPR_ASSIGNMENT eq_op (fake_symbol W ''fake_cond_'' e) a
          in (\<lambda>f. do {
                f \<leftarrow> count_fake True f;
                split_whole_condition W (Some fake) (split_conditions W n fake) f
              })))
    (case t of
       Some t \<Rightarrow> enter_expr W (EXPR_ASSIGNMENT c l t) (parse_assignment W n l c t)
     | None \<Rightarrow>
         (let v = fake_symbol W ''fake_cond_'' e
          in enter_expr W (EXPR_ASSIGNMENT c l v) (parse_assignment W n l c v)))
    (enter_expr W (EXPR_ASSIGNMENT c l d) (parse_assignment W n l c d)))"
proof (rule handle_select_assigns_ok [OF W])
  let ?v = "fake_symbol W ''fake_cond_'' e"
  note parts = parts_wf(1) [OF p wf(2)] and size = select_parts_size [OF p]
  have v: "wf_expr ?v" "esize ?v = 0" by (simp_all add: fake_symbol_def)
  show "expr_ok n (enter_expr W (EXPR_ASSIGNMENT c l d) (parse_assignment W n l c d))"
    by (rule assign_to_walk [OF W IH wf(1)]) (use parts size N in simp_all)
  show "expr_ok n (case t of Some t \<Rightarrow> enter_expr W (EXPR_ASSIGNMENT c l t) (parse_assignment W n l c t)
      | None \<Rightarrow> (let v = ?v in enter_expr W (EXPR_ASSIGNMENT c l v) (parse_assignment W n l c v)))"
    using parts size N v by (auto split: option.splits simp: Let_def intro!: assign_to_walk [OF W IH wf(1)])
  have known: "cond_ok n (split_conditions W n a)" by (rule sub_cond [OF IH]) (use parts size N in simp_all)
  have "cond_ok n (split_conditions W n (EXPR_ASSIGNMENT eq_op ?v a))" by (rule sub_cond [OF IH]) (use parts size N v in simp_all)
  note fake = whole_okD [OF split_whole_condition_ok [OF W this]]
  have "whole_ok n (\<lambda>f. do { f \<leftarrow> count_fake True f;
      split_whole_condition W (Some (EXPR_ASSIGNMENT eq_op ?v a)) (split_conditions W n (EXPR_ASSIGNMENT eq_op ?v a)) f })"
    unfolding whole_ok_def wp_simps by (intro allI impI) (rule count_fake_step, assumption, simp, rule fake, assumption, simp_all)
  then show "whole_ok n (case t of Some _ \<Rightarrow> split_whole_condition W (Some a) (split_conditions W n a)
      | None \<Rightarrow> (let fake = EXPR_ASSIGNMENT eq_op ?v a
           in (\<lambda>f. do { f \<leftarrow> count_fake True f; split_whole_condition W (Some fake) (split_conditions W n fake) f })))"
    using split_whole_condition_ok [OF W known] by (simp add: Let_def split: option.split)
qed

lemma assign_block_walk:
  assumes W: "world_ok W" and IH: "subwalks W n N" and wf: "wf_expr l" "wf_expr r" and N: "7 * (esize l + esize r) + 5 \<le> N"
    and s: "assigned_stmt W f r = Some (STMT_COMPOUND ss)" "ss \<noteq> []"
  shows "expr_ok n (handle_block_assigns W x (split_stmts W n (butlast ss)) (split_last_label W (last ss))
    (with_casts W q (EXPR_ASSIGNMENT c l (EXPR_STATEMENT (after_label (last ss))))
      (enter_expr W (EXPR_ASSIGNMENT c l (EXPR_STATEMENT (after_label (last ss))))
        (parse_assignment W n l c (EXPR_STATEMENT (after_label (last ss)))))))"
proof -
  have ss: "\<forall>x \<in> set ss. wf_stmt False False False x" using parts_wf(3) [OF s(1) wf(2)] by simp
  have size: "sum_list (map (\<lambda>s. ssize s + 1) ss) + 1 < esize r" using assigned_stmt_size [OF s(1)] by simp
  have "expr_ok n (split_stmts W n (butlast ss))"
    by (rule sub_stmts [OF IH block_parts(1) [OF s(2) ss]]) (use size ssize_block [OF s(2)] N in simp)
  moreover have "expr_ok n (enter_expr W (EXPR_ASSIGNMENT c l (EXPR_STATEMENT (after_label (last ss))))
        (parse_assignment W n l c (EXPR_STATEMENT (after_label (last ss)))))"
    by (rule assign_to_walk [OF W IH wf(1)])
      (use after_label_wf [OF block_parts(2) [OF s(2) ss]] size block_bounds [OF s(2)] N in simp_all)
  ultimately show ?thesis by (intro handle_block_assigns_ok [OF W] split_last_label_ok [OF W] with_casts_ok [OF W])
qed

lemma assign_stmt_walk:
  assumes W: "world_ok W" and IH: "subwalks W n N" and wf: "wf_expr l" "wf_expr r" and N: "7 * (esize l + esize r) + 5 \<le> N"
    and s: "assigned_stmt W f r = Some (STMT_EXPRESSION x)"
  shows "expr_ok n (in_expr_stmt
    (case x of
       None \<Rightarrow> Some
     | Some x \<Rightarrow>
         (let x = strip_no_cast W f x
          in with_casts W q (EXPR_ASSIGNMENT c l x)
               (enter_expr W (EXPR_ASSIGNMENT c l x) (parse_assignment W n l c x)))))"
proof (rule in_expr_stmt_ok, cases x)
  case (Some y)
  have "wf_expr y" "esize y + 1 < esize r" using parts_wf(3) [OF s wf(2)] assigned_stmt_size [OF s] Some by simp_all
  then have "expr_ok n (enter_expr W (EXPR_ASSIGNMENT c l (strip_no_cast W f y)) (parse_assignment W n l c (strip_no_cast W f y)))"
    by (intro assign_to_walk [OF W IH wf(1)] strip_wf(2)) (use strip_size(2) [of W f y] N in simp_all)
  then show "expr_ok n (case x of None \<Rightarrow> Some | Some x \<Rightarrow> (let x = strip_no_cast W f x
          in with_casts W q (EXPR_ASSIGNMENT c l x) (enter_expr W (EXPR_ASSIGNMENT c l x) (parse_assignment W n l c x))))"
    using Some by (simp add: Let_def with_casts_ok [OF W])
qed simp

lemma assign_walk:
  assumes W: "world_ok W" and IH: "subwalks W n N" and wf: "wf_expr l" "wf_expr r" and N: "7 * (esize l + esize r) + 5 \<le> N"
  shows "expr_ok n (parse_assignment W n l c r)"
proof (rule stmt_ok_at)
  fix f
  have side: "expr_ok n (split_expr W n True l)" "expr_ok n (split_expr W n True r)"
    by (rule sub_expr [OF IH]; use wf N wrap_rank_less [of l] wrap_rank_less [of r] in simp)+
  note finish = after_assign_ok [OF W side(1)] after_assign_ok [OF W skip_ok [of False False False n]]
  have stm: "expr_ok n (in_expr_stmt (split_stmt W n st))" if "assigned_stmt W g r = Some st" for g st
    by (rule in_expr_stmt_ok, rule sub_stmt [OF IH parts_wf(3) [OF that wf(2)]]) (use assigned_stmt_size [OF that] N in simp)
  have comma: "expr_ok n (split_expr W n False x)"
     "expr_ok n (enter_expr W (EXPR_ASSIGNMENT eq_op l y) (parse_assignment W n l eq_op y))" if "comma_parts W g r = Some (x, y)" for g x y
    by (rule sub_expr [OF IH] assign_to_walk [OF W IH wf(1)];
        use parts_wf(2) [OF that wf(2)] comma_parts_size [OF that] N in simp)+
  have chosen: "expr_ok n (enter_expr W (EXPR_ASSIGNMENT eq_op l y) (parse_assignment W n l eq_op y))" if "chosen_right W r g = Some y" for g y
    by (rule assign_to_walk [OF W IH wf(1) parts_wf(4) [OF that wf(2)]]) (use chosen_right_size [OF that] N in simp)
  have post: "expr_ok n (enter_expr W (EXPR_ASSIGNMENT eq_op (EXPR_PREOP (Ch CHR ''*'') p) r)
      (parse_assignment W n (EXPR_PREOP (Ch CHR ''*'') p) eq_op r))" if "postop_target W g l = Some p" for g p
    by (rule assign_to_walk [OF W IH _ wf(2)]) (use postop_target_wf [OF that wf(1)] postop_target_size [OF that] N in simp_all)
  note rules = assign_select_walk [OF W IH wf N, unfolded Let_def] assign_block_walk [OF W IH wf N]
    assign_stmt_walk [OF W IH wf N, unfolded Let_def] stm comma chosen post plain_assign_ok [OF W side(2,1)] finish side
  show "stmt_at False False False n f (parse_assignment W n l c r f)"
    by (subst parse_assignment.simps, unfold Let_def)
      (intro at_bind [OF at_visit(2) [OF W]] at_bind [OF at_visit(1) [OF W]] at_bind [OF at_visit(3) [OF W]] at_if at_option at_triple at_pair
        at_stmt_cases at_skip at_bind [OF at_stmt [OF rules(1)]] at_bind [OF at_stmt [OF rules(5)]] at_bind [OF at_stmt [OF rules(6)]]
        at_bind [OF at_stmt [OF rules(7)]] at_bind [OF at_stmt [OF rules(8)]] rules [THEN at_stmt]; simp)
qed

section \<open>Statements\<close>

lemma maybe_stmt_walk:
  assumes W: "world_ok W" and IH: "subwalks W n N" and "case x of None \<Rightarrow> True | Some x \<Rightarrow> wf_stmt b c s x"
    "7 * (case x of None \<Rightarrow> 0 | Some x \<Rightarrow> ssize x) < N"
  shows "stmt_ok b c s n (case x of None \<Rightarrow> process_post_op_stack W | Some x \<Rightarrow> split_stmt W n x)"
  using assms(3,4) by (cases x) (auto intro: post_ops_ok [OF W] sub_stmt [OF IH])

lemma maybe_expr_walk:
  assumes IH: "subwalks W n N" and "case x of None \<Rightarrow> True | Some x \<Rightarrow> wf_expr x" "7 * (case x of None \<Rightarrow> 0 | Some x \<Rightarrow> esize x) + 6 < N"
  shows "expr_ok n (case x of None \<Rightarrow> Some | Some x \<Rightarrow> split_expr W n False x)"
  using assms(2,3) by (cases x) (auto intro: sub_expr [OF IH])

lemma maybe_cond_walk:
  assumes W: "world_ok W" and IH: "subwalks W n N" and "case x of None \<Rightarrow> True | Some x \<Rightarrow> wf_expr x"
    "7 * (case x of None \<Rightarrow> 0 | Some x \<Rightarrow> esize x) + 3 < N"
  shows "tf_ok n (split_whole_condition_tf W x (case x of None \<Rightarrow> null_condition | Some x \<Rightarrow> split_conditions W n x))"
  using assms(3,4) by (intro split_whole_condition_tf_ok [OF W]) (cases x; auto intro: sub_cond [OF IH] null_condition_ok)

lemma return_walk:
  assumes W: "world_ok W" and IH: "subwalks W n N" and wf: "wf_stmt b c s (STMT_RETURN e)" and N: "7 * ssize (STMT_RETURN e) \<le> N"
  shows "stmt_ok b c s n (split_stmt W n (STMT_RETURN e))"
proof -
  have "stmt_at False False False n f (case e of None \<Rightarrow> Some f | Some e \<Rightarrow> (case fake_arg W None e f of
      Fake_none \<Rightarrow> Some f
    | Fake_plain \<Rightarrow> split_expr W n False e f
    | Fake_assign \<Rightarrow>
        (let l = fake_symbol W ''__fake_return_'' e
         in do {
           f \<leftarrow> count_fake True f;
           enter_expr W (EXPR_ASSIGNMENT eq_op l e) (parse_assignment W n l eq_op e) f
         })))" for f
    using wf N unfolding fake_symbol_def by (cases e) (auto intro!: at_skip fake_walk [OF W IH])
  note fake = at_mono [OF this]
  show ?thesis unfolding split_stmt.simps
    by (intro enter_stmt_ok [OF W] stmt_ok_at at_bind [OF fake] at_bind at_visit W at_nullify)
qed

lemma switch_walk:
  assumes W: "world_ok W" and IH: "subwalks W n N" and wf: "wf_stmt b c s (STMT_SWITCH e ss)" and N: "7 * ssize (STMT_SWITCH e ss) \<le> N"
  shows "stmt_ok b c s n (split_stmt W n (STMT_SWITCH e ss))"
proof -
  have e: "expr_ok n (split_expr W n False e)" by (rule sub_expr [OF IH]) (use wf N in simp_all)
  have all: "stmt_ok True c True n (split_stmt W n (STMT_COMPOUND ss))" by (rule sub_stmt [OF IH]) (use wf N in simp_all)
  have none: "expr_ok n (split_stmt W n STMT_NONE)" by (rule sub_stmt [OF IH]) (use wf N in simp_all)
  have cases: "stmt_ok True c True n (known_cases W n v ss)" for v by (rule sub_cases [OF IH]) (use wf N in simp_all)
  show ?thesis unfolding split_stmt.simps(8)
    by (intro enter_stmt_ok [OF W] stmt_ok_at at_option at_stmt [OF split_switch_ok [OF W e all none]]
        at_stmt [OF split_known_switch_ok [OF W e cases]])
qed

lemma iterator_walk:
  assumes W: "world_ok W" and IH: "subwalks W n N" and wf: "wf_stmt b c s (STMT_ITERATOR d x e body y e')"
    and N: "7 * ssize (STMT_ITERATOR d x e body y e') \<le> N"
  shows "stmt_ok b c s n (split_stmt W n (STMT_ITERATOR d x e body y e'))"
proof -
  have pos: "ssize z > 0" for z by (cases z) auto
  have parts: "expr_ok n (case x of None \<Rightarrow> process_post_op_stack W | Some s \<Rightarrow> split_stmt W n s)"
    "expr_ok n (case y of None \<Rightarrow> process_post_op_stack W | Some s \<Rightarrow> split_stmt W n s)"
    "tf_ok n (split_whole_condition_tf W e (case e of None \<Rightarrow> null_condition | Some x \<Rightarrow> split_conditions W n x))"
    "tf_ok n (split_whole_condition_tf W e' (case e' of None \<Rightarrow> null_condition | Some x \<Rightarrow> split_conditions W n x))"
    "stmt_ok True True s n (split_stmt W n body)"
    by (rule maybe_stmt_walk [OF W IH] maybe_cond_walk [OF W IH] sub_stmt [OF IH]; use wf N pos [of body] in simp)+
  have "stmt_ok b c s n (if e = None \<and> e' \<noteq> None then handle_post_loop W (STMT_ITERATOR d x e body y e')
        (split_whole_condition_tf W e' (case e' of None \<Rightarrow> null_condition | Some c \<Rightarrow> split_conditions W n c)) (split_stmt W n body)
      else handle_pre_loop W (STMT_ITERATOR d x e body y e') d (case x of None \<Rightarrow> process_post_op_stack W | Some s \<Rightarrow> split_stmt W n s)
        (split_whole_condition_tf W e (case e of None \<Rightarrow> null_condition | Some e \<Rightarrow> split_conditions W n e)) (split_stmt W n body)
        (case y of None \<Rightarrow> process_post_op_stack W | Some t \<Rightarrow> split_stmt W n t))"
    using handle_post_loop_ok [OF W parts(4,5)] handle_pre_loop_ok [OF W parts(1,3,5,2)] by simp
  then show ?thesis unfolding split_stmt.simps by (rule enter_stmt_ok [OF W])
qed

text \<open>The statements from the label on are walked with a smaller bound.\<close>

lemma goto_walk:
  assumes W: "world_ok W" and IH: "subwalks W n N" and wf: "wf_stmt b c s (STMT_GOTO a t e)" and N: "7 * ssize (STMT_GOTO a t e) \<le> N"
    and again: "\<And>k nm. n = Suc k \<Longrightarrow> expr_ok k (split_stmts W k (from_label nm (func_stmts W)))"
  shows "stmt_ok b c s n (split_stmt W n (STMT_GOTO a t e))"
proof -
  have e: "stmt_at b c s n f (case e of None \<Rightarrow> Some f | Some e \<Rightarrow> split_expr W n False e f)" for f
    using wf N by (cases e) (auto intro!: at_skip at_mono [OF at_stmt] sub_expr [OF IH])
  have j: "stmt_ok b c s n (jump W t)" by (rule jump_ok [OF W]) (use wf in simp_all)
  show ?thesis unfolding split_stmt.simps
    by (intro enter_stmt_ok [OF W] stmt_ok_at at_bind [OF e] at_bind [OF at_stmt [OF j]] at_bind
        at_stmt [OF backward_goto_ok [of n "\<lambda>k nm. split_stmts W k (from_label nm (func_stmts W))", OF again]] at_nullify)
qed

lemma stmt_walk:
  assumes W: "world_ok W" and IH: "subwalks W n N" and wf: "wf_stmt b c s x" and N: "7 * ssize x \<le> N"
    and again: "\<And>k nm. n = Suc k \<Longrightarrow> expr_ok k (split_stmts W k (from_label nm (func_stmts W)))"
  shows "stmt_ok b c s n (split_stmt W n x)"
proof (cases x)
  case (STMT_DECLARATION d)
  have "stmt_ok b c s n (visit W (Split_declaration d))" by (intro stmt_ok_at at_visit W)
  then show ?thesis unfolding STMT_DECLARATION split_stmt.simps by (rule enter_stmt_ok [OF W])
next
  case (STMT_EXPRESSION e)
  have "expr_ok n (case e of None \<Rightarrow> Some | Some e \<Rightarrow> split_expr W n False e)"
    by (rule maybe_expr_walk [OF IH]) (use wf N STMT_EXPRESSION in simp_all)
  then show ?thesis unfolding STMT_EXPRESSION split_stmt.simps by (rule enter_stmt_ok [OF W ctx_mono])
next
  case (STMT_COMPOUND ss)
  have "stmt_ok b c s n (split_stmts W n ss)" by (rule sub_stmts [OF IH]) (use wf N STMT_COMPOUND in simp_all)
  then show ?thesis unfolding STMT_COMPOUND split_stmt.simps by (intro enter_stmt_ok [OF W] split_compound_ok [OF W])
next
  case (STMT_IF e y z)
  have "cond_ok n (split_conditions W n e)" by (rule sub_cond [OF IH]) (use wf N STMT_IF in simp_all)
  moreover have "stmt_ok b c s n (case y of None \<Rightarrow> process_post_op_stack W | Some x \<Rightarrow> split_stmt W n x)"
    "stmt_ok b c s n (case z of None \<Rightarrow> process_post_op_stack W | Some x \<Rightarrow> split_stmt W n x)"
    by (rule maybe_stmt_walk [OF W IH]; use wf N STMT_IF in simp)+
  ultimately show ?thesis unfolding STMT_IF split_stmt.simps
    by (intro enter_stmt_ok [OF W] split_if_statement_ok [OF W] split_whole_condition_tf_ok [OF W])
next
  case (STMT_RETURN e)
  then show ?thesis using return_walk [OF W IH] wf N by simp
next
  case (STMT_CASE e t y)
  have "wf_stmt b c s (snd (last_label x))" by (rule last_label_wf [OF wf])
  then have "stmt_ok b c s n (split_stmt W n (snd (last_label x)))"
    by (rule sub_stmt [OF IH]) (use N label_bounds(1) [of e t y] STMT_CASE in \<open>simp del: label_bounds\<close>)
  then show ?thesis using wf unfolding STMT_CASE split_stmt.simps by (auto intro!: enter_stmt_ok [OF W] split_case_ok [OF W])
next
  case (STMT_SWITCH e ss)
  then show ?thesis using switch_walk [OF W IH] wf N by simp
next
  case (STMT_ITERATOR d y e body z e')
  then show ?thesis using iterator_walk [OF W IH] wf N by simp
next
  case (STMT_LABEL nm sy y)
  have rest: "stmt_ok b c s n (split_stmt W n y)" by (rule sub_stmt [OF IH]) (use wf N STMT_LABEL in simp_all)
  show ?thesis unfolding STMT_LABEL split_stmt.simps
    by (intro enter_stmt_ok [OF W] stmt_ok_at at_bind [OF at_stmt [OF split_label_ok [OF W]]] at_bind [OF at_visit(1) [OF W]] at_stmt [OF rest])
next
  case (STMT_GOTO a t e)
  then show ?thesis using goto_walk [OF W IH _ _ again] wf N by simp
next
  case (STMT_ASM e es cs ls)
  have parts: "expr_ok n (split_expr W n False e)" "expr_ok n (split_expr_list W n False es)" "expr_ok n (split_expr_list W n True cs)"
    by (rule sub_expr [OF IH] sub_list [OF IH]; use wf N STMT_ASM in simp)+
  show ?thesis unfolding STMT_ASM split_stmt.simps
    by (intro enter_stmt_ok [OF W] stmt_ok_at at_bind [OF at_stmt [OF save_asm_gotos_ok [OF W]]] at_bind [OF at_visit(1) [OF W]]
        at_bind parts [THEN at_stmt, THEN at_mono])
next
  case (STMT_RANGE u v w)
  have parts: "expr_ok n (split_expr W n False u)" "expr_ok n (split_expr W n False v)" "expr_ok n (split_expr W n False w)"
    by (rule sub_expr [OF IH]; use wf N STMT_RANGE in simp)+
  show ?thesis unfolding STMT_RANGE split_stmt.simps
    by (intro enter_stmt_ok [OF W] stmt_ok_at at_bind parts [THEN at_stmt, THEN at_mono])
qed (simp only: split_stmt.simps, rule enter_stmt_ok [OF W skip_ok])+

lemma stmts_walk:
  assumes IH: "subwalks W n N" and wf: "\<forall>x \<in> set ss. wf_stmt b c s x" and N: "7 * sum_list (map (\<lambda>s. ssize s + 1) ss) \<le> N"
  shows "stmt_ok b c s n (split_stmts W n ss)"
proof (cases ss)
  case (Cons x xs)
  have parts: "stmt_ok b c s n (split_stmt W n x)" "stmt_ok b c s n (split_stmts W n xs)"
    by (rule sub_stmt [OF IH] sub_stmts [OF IH]; use wf N Cons in simp)+
  show ?thesis unfolding Cons split_stmts.simps by (intro stmt_ok_at at_bind at_stmt [OF parts(1)] at_stmt [OF parts(2)])
qed simp

lemma cases_walk:
  assumes W: "world_ok W" and IH: "subwalks W n N" and wf: "\<forall>x \<in> set ss. wf_stmt b c True x"
    and N: "7 * sum_list (map (\<lambda>s. ssize s + 1) ss) \<le> N"
  shows "stmt_ok b c True n (known_cases W n v ss)"
proof (cases ss)
  case (Cons x xs)
  have "stmt_ok b c True n (split_stmt W n (case_body x))"
    by (rule sub_stmt [OF IH case_body_wf]) (use wf N Cons label_bounds(2) [of x 0] in simp_all)
  moreover have "stmt_ok b c True n (split_stmt W n x)" "stmt_ok b c True n (known_cases W n v xs)"
    by (rule sub_stmt [OF IH] sub_cases [OF IH]; use wf N Cons in simp)+
  ultimately show ?thesis unfolding Cons known_cases.simps by (intro known_case_ok [OF W])
qed simp

section \<open>All trees\<close>

lemma subwalks_Suc:
  assumes W: "world_ok W" and IH: "subwalks W n N"
    and again: "\<And>k nm. n = Suc k \<Longrightarrow> expr_ok k (split_stmts W k (from_label nm (func_stmts W)))"
  shows "subwalks W n (Suc N)"
  unfolding subwalks_def less_Suc_eq_le
  using conditions_walk [OF IH] stripped_walk [OF W IH] expr_walk [OF W IH] list_walk [OF W IH] args_walk [OF W IH]
    assign_walk [OF W IH] stmt_walk [OF W IH _ _ again] stmts_walk [OF IH] cases_walk [OF W IH]
  by (intro conjI allI impI) simp_all

lemma all_subwalks:
  assumes W: "world_ok W" and again: "\<And>k nm. n = Suc k \<Longrightarrow> expr_ok k (split_stmts W k (from_label nm (func_stmts W)))"
  shows "subwalks W n N"
proof (induction N)
  case 0
  show ?case by (simp add: subwalks_def)
next
  case (Suc N)
  then show ?case by (intro subwalks_Suc [OF W] again)
qed

definition func_ok :: "world \<Rightarrow> bool" where
  "func_ok W \<longleftrightarrow> (\<forall>x \<in> set (func_stmts W). wf_stmt False False False x)"

lemma walks_again:
  assumes "world_ok W" "func_ok W"
  shows "expr_ok n (split_stmts W n (from_label nm (func_stmts W)))"
proof (induction n arbitrary: nm)
  case 0
  have "subwalks W 0 N" for N using all_subwalks [OF assms(1), of 0] by blast
  then show ?case by (rule sub_stmts) (use assms(2) from_label_wf in \<open>auto simp: func_ok_def\<close>)
next
  case (Suc n)
  have "subwalks W (Suc n) N" for N using all_subwalks [OF assms(1), of "Suc n"] Suc.IH by blast
  then show ?case by (rule sub_stmts) (use assms(2) from_label_wf in \<open>auto simp: func_ok_def\<close>)
qed

lemma walks_ok:
  assumes "world_ok W" "func_ok W"
  shows "subwalks W n N"
  using all_subwalks [OF assms(1)] walks_again [OF assms] by blast

lemma split_stmt_ok: "world_ok W \<Longrightarrow> func_ok W \<Longrightarrow> wf_stmt b c s x \<Longrightarrow> stmt_ok b c s n (split_stmt W n x)"
  by (rule sub_stmt [OF walks_ok _ lessI])

lemma split_conditions_ok: "world_ok W \<Longrightarrow> func_ok W \<Longrightarrow> wf_expr e \<Longrightarrow> cond_ok n (split_conditions W n e)"
  by (rule sub_cond [OF walks_ok _ lessI])

end
