(* ===== verification/Function_Balance.thy ===== *)
theory Function_Balance
  imports Walk_Balance
begin

text \<open>
  The analysis of a whole function returns, and leaves the stacks as it found them.
\<close>

section \<open>Freeing the states\<close>

lemma free_stack_levels: "free_stack s m = Some m' \<Longrightarrow> levels m' = levels m"
  by (induction s arbitrary: m) (auto simp: free_stack_def split: bind_splits dest!: tree_levels)

lemma check_stack_levels: "check_stree_stack_free nm s m = Some m' \<Longrightarrow> levels m' = levels m"
  by (auto simp: check_stree_stack_free_def split: if_splits dest!: free_stack_levels)

lemma clear_all_levels:
  assumes "clear_all_states m = Some m'" "levels m = (\<lambda>_. 0)"
  shows "levels m' = (\<lambda>_. 0)"
proof -
  have "nullify_path m = Some n \<Longrightarrow> levels n = (\<lambda>_. 0)" for n using nullify_levels [of m n] assms(2) by simp
  then show ?thesis using assms(1)
    by (auto simp: clear_all_states_def Let_def free_goto_stack_def free_every_single_sm_state_def split: bind_splits
        dest!: check_stack_levels free_stack_levels)
qed

section \<open>Functions\<close>

lemma at_reset: "stmt_at b c s n f (on (\<lambda>m. Some (m\<lparr>stree_id_counter := 0\<rparr>)) f)"
  by (auto simp: stmt_at_def intro: restart.step)

lemma start_function_ok: "world_ok W \<Longrightarrow> stmt_ok b c s n (start_function_definition W)"
  unfolding start_function_definition_def by (intro stmt_ok_at at_bind at_visit)

lemma parse_fn_ok:
  assumes "world_ok W" "func_ok W"
  shows "expr_ok 1 (parse_fn_statements W)"
proof -
  have "expr_ok 1 (split_stmt W 1 (STMT_COMPOUND (func_stmts W)))"
    by (rule split_stmt_ok [OF assms]) (use assms(2) in \<open>simp add: func_ok_def\<close>)
  then show ?thesis unfolding parse_fn_statements_def by (intro stmt_ok_at at_bind at_visit assms(1)) (rule at_stmt)
qed

lemma walk_function_ok:
  assumes W: "world_ok W" and F: "func_ok W" and f: "walk_st M l sw h f" and l: "l Fake \<le> l Pre_cond"
  shows "wp (walk_function W two_passes f) (walk_st M l sw False)"
proof -
  have g: "walk_st M l sw False (f\<lparr>loop_count := 0, last_goto_statement_handled := False\<rparr>)" using f by (simp add: walk_st_def)
  note start = start_function_ok [OF W, of False False False 1] and body = parse_fn_ok [OF W F]
  have pass: "stmt_at False False False 1 f (do { f \<leftarrow> on unnullify_path f; f \<leftarrow> start_function_definition W (f\<lparr>loop_num := 0\<rparr>);
      f \<leftarrow> parse_fn_statements W f; k f })" if "\<And>f. stmt_at False False False 1 f (k f)" for f k
  proof (intro at_bind)
    show "stmt_at False False False 1 f (on unnullify_path f)" for f by (auto simp: stmt_at_def intro: unnullify.step)
    show "stmt_at False False False 1 f (start_function_definition W (f\<lparr>loop_num := 0\<rparr>))" for f
      using at_stmt [OF start, of "f\<lparr>loop_num := 0\<rparr>"] by (simp add: stmt_at_def)
  qed (intro at_stmt [OF body] that)+
  have "stmt_at False False False 1 g (do {
      f \<leftarrow> on (\<lambda>m. Some (m\<lparr>stree_id_counter := 0\<rparr>)) g;
      f \<leftarrow> (if two_passes then do { f \<leftarrow> on unnullify_path f; f \<leftarrow> start_function_definition W (f\<lparr>loop_num := 0\<rparr>);
              f \<leftarrow> parse_fn_statements W f; f \<leftarrow> visit W Call_scope_hooks f; on nullify_path f } else Some f);
      f \<leftarrow> on unnullify_path f;
      f \<leftarrow> start_function_definition W (f\<lparr>loop_num := 0\<rparr>);
      f \<leftarrow> parse_fn_statements W f;
      f \<leftarrow> (if \<not> path_null f \<and> returns_void W \<and> \<not> bail_on_rest_of_function f then do { f \<leftarrow> visit W Call_all_scope_hooks f;
              f \<leftarrow> visit W (Pass_expr RETURN_HOOK None) f; on nullify_path f } else Some f);
      f \<leftarrow> visit W (Pass_func END_FUNC_HOOK) f;
      visit W (Pass_func AFTER_FUNC_HOOK) f })" for g
    by (intro at_bind [OF at_reset] at_bind [OF at_if] pass at_if at_bind at_visit W at_nullify at_skip)
  with g l show ?thesis unfolding walk_function_def Let_def stmt_at_def by simp
qed

lemma split_function_ok:
  assumes W: "world_ok W" "func_ok W" and f: "good (mach f) []" "levels (mach f) = (\<lambda>_. 0)" "switch_expr_stack f = []"
  obtains g f' where "walk_function W two_passes f = Some g" "levels (mach g) = (\<lambda>_. 0)" "switch_expr_stack g = []"
    "split_function W two_passes f = Some f'" "good (mach f') []" "levels (mach f') = (\<lambda>_. 0)" "perrors (mach f') = perrors (mach g)"
    "switch_expr_stack f' = []"
proof -
  have "walk_st {#} (\<lambda>_. 0) [] False f" using f by (auto simp: walk_st_def mach_st_def)
  then obtain g where g: "walk_function W two_passes f = Some g" "walk_st {#} (\<lambda>_. 0) [] False g"
    using walk_function_ok [OF W] by (fastforce simp: wp_def)
  have st: "good (mach g) []" "levels (mach g) = (\<lambda>_. 0)" "switch_expr_stack g = []"
    using g(2) by (auto simp: walk_st_def mach_st_def)
  obtain m where m: "clear_all_states (mach g) = Some m" "good m []"
    using keepsD [OF clear_all_states_keeps st(1)] by (auto simp: wp_def)
  show thesis
  proof (rule that [OF g(1) st(2,3)])
    show "split_function W two_passes f = Some (g\<lparr>mach := m, switch_expr_stack := [], bail_on_rest_of_function := False\<rparr>)"
      using g(1) m(1) by (simp add: split_function_def on_def)
  qed (use m clear_all_levels [OF m(1) st(2)] clear_all_quiet [OF m(1)] st(2) in simp_all)
qed

section \<open>Stack effects\<close>

lemma mach_st_good: "mach_st (mset ps) l m \<longleftrightarrow> good m ps \<and> levels m = l"
  by (auto simp: mach_st_def intro: good_perm)

lemma split_stmt_effect:
  assumes "world_ok W" "func_ok W" "wf_stmt b c s x" "good (mach f) ps" "ctx b c s (levels (mach f)) (switch_expr_stack f)"
  obtains f' where "split_stmt W 1 x f = Some f'" "good (mach f') ps" "levels (mach f') = levels (mach f)"
    "switch_expr_stack f' = switch_expr_stack f"
proof -
  have "walk_st (mset ps) (levels (mach f)) (switch_expr_stack f) False f" using assms(4) by (simp add: walk_st_def mach_st_good)
  from stmt_okD [OF split_stmt_ok [OF assms(1-3)] this] assms(5)
  have "wp (split_stmt W 1 x f) (walk_st (mset ps) (levels (mach f)) (switch_expr_stack f) False)" by simp
  then show thesis using that by (auto simp: wp_def walk_st_def mach_st_good)
qed

lemma split_condition_effect:
  assumes "world_ok W" "func_ok W" "wf_expr e" "good (mach f) ps" "levels (mach f) Fake \<le> levels (mach f) Pre_cond"
  obtains tf f' where "split_whole_condition_tf W (Some e) (split_conditions W 1 e) f = Some (tf, f')" "good (mach f') ps"
    "levels (mach f') = up False_stack (levels (mach f))" "switch_expr_stack f' = switch_expr_stack f"
proof -
  have "walk_st (mset ps) (levels (mach f)) (switch_expr_stack f) False f" using assms(4) by (simp add: walk_st_def mach_st_good)
  from tf_okD [OF split_whole_condition_tf_ok [OF assms(1) split_conditions_ok [OF assms(1-3)]] this]
  have "wp (split_whole_condition_tf W (Some e) (split_conditions W 1 e) f)
      (\<lambda>(tf, f'). walk_st (mset ps) (up False_stack (levels (mach f))) (switch_expr_stack f) False f')" using assms(5) by simp
  then show thesis using that by (auto simp: wp_def walk_st_def mach_st_good)
qed

section \<open>A concrete world\<close>

text \<open>
  A checker that sets a state at every assignment, no expression with a known value, and the state of
  the walk at the start of the program.
\<close>

definition world0 :: "stmt list \<Rightarrow> world" where
  "world0 ss =
     \<lparr>the_env = env0, option_project = PROJ_NONE,
      pass_to_client = (\<lambda>v f. case v of Pass_expr ASSIGNMENT_HOOK _ \<Rightarrow> [Set_state 3 ''p'' 1 merged_state] | _ \<Rightarrow> []),
      get_value = (\<lambda>_ _. None), get_type = (\<lambda>_. None), is_array = (\<lambda>_. False), plain_cast = (\<lambda>_. True),
      known_condition_true = (\<lambda>_ _. False), known_condition_false = (\<lambda>_ _. False),
      implied_condition_true = (\<lambda>_ _. False), implied_condition_false = (\<lambda>_ _. False),
      once_through_hooks = (\<lambda>_ _. False), canonical_states = (\<lambda>_ _. []), get_absolute_rl = (\<lambda>_ _. []),
      separate_and_filter = (\<lambda>_ _ _ m. Some (None, m)), case_sets = (\<lambda>_ _ _. []), skip_expr = (\<lambda>_ _. False),
      give_up = (\<lambda>_. False), is_skipped_function = False, fake_call = (\<lambda>_ _. Fake_none), fake_arg = (\<lambda>_ _ _. Fake_plain),
      expr_ptr = (\<lambda>_. ''0''), inlinable = (\<lambda>_ _. False), is_noreturn_func = (\<lambda>_. False), has_parent = (\<lambda>_ _. False),
      get_address = (\<lambda>_ _. False), returns_void = True, func_stmts = ss\<rparr>"

definition flow0 :: flow where
  "flow0 =
     \<lparr>mach = init_machine 7, post_op_stack = [], switch_expr_stack = [], loop_num = 0, loop_count = 0,
      bail_on_rest_of_function = False, last_goto_statement_handled = False, confidence_implied = 0, inside_condition = 0,
      in_pre_condition = 0, expr_stmt_count = 0, indent_cnt = 0\<rparr>"

lemma world0_ok: "world_ok (world0 ss)"
  by (auto simp: world_ok_def world0_def env0_ok split: client_call.splits hook.splits bind_splits dest!: set_state_levels intro: good_null)

lemma flow0_facts: "good (mach flow0) []" "levels (mach flow0) = (\<lambda>_. 0)" "switch_expr_stack flow0 = []"
proof -
  show "levels (mach flow0) = (\<lambda>_. 0)" by (rule ext, rename_tac k, case_tac k) (simp_all add: flow0_def init_machine_def levels.simps)
qed (simp_all add: flow0_def init_good)

text \<open>A function with a loop, a switch and a goto at its end back to its start.\<close>

definition func0 :: "stmt list" where
  "func0 =
     [STMT_LABEL ''again'' 5 (STMT_EXPRESSION None),
      STMT_IF (EXPR_LOGICAL SPECIAL_LOGICAL_AND (EXPR_SYMBOL ''a'') (EXPR_SYMBOL ''b''))
        (Some (STMT_ITERATOR 0 None None
           (STMT_COMPOUND
              [STMT_EXPRESSION (Some (EXPR_ASSIGNMENT eq_op (EXPR_SYMBOL ''p'') (EXPR_SYMBOL ''a''))),
               STMT_GOTO 1 Goto_break None])
           None None))
        None,
      STMT_SWITCH (EXPR_SYMBOL ''x'') [STMT_CASE None None (STMT_GOTO 2 Goto_break None)],
      STMT_GOTO 3 (Goto_label ''again'' 5) None]"

lemma func0_ok: "func_ok (world0 func0)"
  by (simp add: func_ok_def world0_def func0_def)

end
