(* ===== verification/Range_Text.thy ===== *)
theory Range_Text
  imports Ranges Decimal
begin

text \<open>
  The text of values and range lists: printing (\<^verbatim>\<open>sval_to_str\<close> of \<^verbatim>\<open>src/smatch_sval.c\<close>, \<^verbatim>\<open>show_rl\<close> of
  \<^verbatim>\<open>src/smatch_ranges.c\<close>) and parsing (\<^verbatim>\<open>str_to_rl\<close> and \<^verbatim>\<open>call_results_to_rl\<close>). The texts are the names of the states
  and the entries of the database.
\<close>

section \<open>The rest of the program\<close>

text \<open>
  What printing and parsing use of the rest of the program and of the C library: the text of floating
  values and how much of a text \<^verbatim>\<open>strtof\<close>, \<^verbatim>\<open>strtod\<close> and \<^verbatim>\<open>strtold\<close> read, the arguments of a call, and what is known of the
  values of an expression. An expression is a value of type \<open>'e\<close>, and None is NULL.
\<close>

record 'e text_env =
  project :: project_type
  fp_to_str :: "sval \<Rightarrow> string"
  strto_fp :: "ctype \<Rightarrow> string \<Rightarrow> rat \<times> nat"
  is_call :: "'e \<Rightarrow> bool"
  get_argument :: "'e \<Rightarrow> int \<Rightarrow> 'e option"
  gen_expression_from_key :: "'e \<Rightarrow> string \<Rightarrow> 'e option"
  get_implied_min :: "'e option \<Rightarrow> sval option"
  get_implied_max :: "'e option \<Rightarrow> sval option"
  get_implied_rl :: "'e option \<Rightarrow> range_list option"
  db_return_vals_no_args :: "'e \<Rightarrow> range_list option"
  parse_call_math_rl :: "'e option \<Rightarrow> string \<Rightarrow> range_list option"

section \<open>Printing\<close>

definition sval_to_str :: "'e text_env \<Rightarrow> sval \<Rightarrow> string" where
  "sval_to_str T sval =
     (if sval_is_fp sval then fp_to_str T sval
      else if sval_is_ptr sval \<and> sv_val sval = valid_ptr_max then ''ptr_max''
      else if sval_unsigned sval \<and> uvalue sval = ULLONG_MAX then ''u64max''
      else if sval_unsigned sval \<and> svalue sval = UINT_MAX then ''u32max''
      else if svalue sval = USHRT_MAX then ''u16max''
      else if sval_signed sval \<and> svalue sval = LLONG_MAX then ''s64max''
      else if svalue sval = INT_MAX then ''s32max''
      else if svalue sval = SHRT_MAX then ''s16max''
      else if sval_signed sval \<and> svalue sval = SHRT_MIN then ''s16min''
      else if sval_signed sval \<and> svalue sval = INT_MIN then ''s32min''
      else if sval_signed sval \<and> svalue sval = LLONG_MIN then ''s64min''
      else if sval_unsigned sval then print_llu (sv_val sval)
      else if svalue sval < 0 then ''('' @ print_lld (sv_val sval) @ '')''
      else print_lld (sv_val sval))"

definition sign_extend_err_ptr :: "u64 \<Rightarrow> u64" where
  "sign_extend_err_ptr v = (if svalue (sval_type_max (Some ulong_ctype)) = UINT_MAX then scast (ucast v :: 32 word) else v)"

definition sval_to_str_or_err_ptr :: "'e text_env \<Rightarrow> sval \<Rightarrow> string" where
  "sval_to_str_or_err_ptr T sval =
     (if project T \<noteq> PROJ_KERNEL \<or> \<not> is_ptr_type (sv_type sval) then sval_to_str T sval
      else if \<not> sval_is_fp sval \<and> sval_cmp sval valid_ptr_max_sval > 0 then
        take 11 (''('' @ print_lld (sign_extend_err_ptr (sv_val sval)) @ '')'')
      else sval_to_str T sval)"

definition sval_to_numstr :: "'e text_env \<Rightarrow> sval \<Rightarrow> string" where
  "sval_to_numstr T sval =
     (if type_is_fp (sv_type sval) then fp_to_str T sval
      else if sval_unsigned sval then print_llu (sv_val sval)
      else if svalue sval < 0 then ''('' @ print_lld (sv_val sval) @ '')''
      else print_lld (sv_val sval))"

definition get_err_pointer_str :: "'e text_env \<Rightarrow> data_range \<Rightarrow> string option" where
  "get_err_pointer_str T d =
     (if \<not> is_err_ptr (project T) (dr_min d) then None
      else
        (let mn = ''('' @ print_lld (sign_extend_err_ptr (sv_val (dr_min d))) @ '')'';
             mx = ''('' @ print_lld (sign_extend_err_ptr (sv_val (dr_max d))) @ '')''
         in Some (take 19 (if sv_val (dr_min d) = sv_val (dr_max d) then mn else mn @ ''-'' @ mx))))"

definition show_range :: "'e text_env \<Rightarrow> data_range \<Rightarrow> string" where
  "show_range T d =
     (case get_err_pointer_str T d of
        Some s \<Rightarrow> s
      | None \<Rightarrow>
          if sval_cmp (dr_min d) (dr_max d) = 0 then sval_to_str T (dr_min d)
          else sval_to_str T (dr_min d) @ ''-'' @ sval_to_str T (dr_max d))"

text \<open>
  The loop over the ranges with the text so far, and the range and the length of the text before it. The
  buffer has 255 bytes; when fewer than 48 are left, the range before is replaced by one that
  reaches up to the maximum of the type.
\<close>

fun show_rl_loop :: "'e text_env \<Rightarrow> (data_range \<times> nat) option \<Rightarrow> string \<Rightarrow> range_list \<Rightarrow> string" where
  "show_rl_loop T prev out [] = out"
| "show_rl_loop T prev out (d # rl) =
     (case prev of
        None \<Rightarrow> show_rl_loop T (Some (d, length out)) (out @ show_range T d) rl
      | Some (p, n) \<Rightarrow>
          if length out + 48 > 255 then
            take n out @ '','' @ sval_to_str T (dr_min p) @ ''-'' @ sval_to_str T (sval_type_max (sv_type (dr_min p)))
          else show_rl_loop T (Some (d, length out)) (out @ '','' @ show_range T d) rl)"

definition show_rl :: "'e text_env \<Rightarrow> range_list \<Rightarrow> string" where
  "show_rl T rl = take 254 (show_rl_loop T None [] rl)"

section \<open>Comparisons with a parameter\<close>

text \<open>The character at a pointer; 0 at the end.\<close>

definition peek :: "string \<Rightarrow> char" where
  "peek s = (case s of [] \<Rightarrow> CHR 0x00 | c # _ \<Rightarrow> c)"

definition comparison_prefix :: "string \<Rightarrow> (opcode \<times> string) option" where
  "comparison_prefix c =
     (if peek c = CHR ''<'' then
        (if peek (tl c) = CHR ''='' then Some (SPECIAL_LTE, drop 2 c) else Some (Ch CHR ''<'', tl c))
      else if peek c = CHR ''='' then Some (SPECIAL_EQUAL, drop 2 c)
      else if peek c = CHR ''>'' then
        (if peek (tl c) = CHR ''='' then Some (SPECIAL_GTE, drop 2 c) else Some (Ch CHR ''>'', tl c))
      else if peek c = CHR ''!'' then Some (SPECIAL_NOTEQUAL, drop 2 c)
      else if peek c = CHR ''$'' then Some (SPECIAL_EQUAL, c)
      else None)"

text \<open>The comparison and the argument, and what is written to \<^verbatim>\<open>*endp\<close>, if anything.\<close>

definition str_to_comparison_arg_helper ::
  "'e text_env \<Rightarrow> string \<Rightarrow> 'e option \<Rightarrow> (opcode \<times> 'e option) option \<times> string option" where
  "str_to_comparison_arg_helper T str call =
     (if peek str \<noteq> CHR ''['' then (None, None)
      else case comparison_prefix (tl str) of
             None \<Rightarrow> (None, None)
           | Some (comparison, c) \<Rightarrow>
               if peek c \<noteq> CHR ''$'' then (None, None)
               else
                 (let (param, c) = strtoll 10 (tl c)
                  in if peek c = CHR '' '' then (None, None)
                     else
                       (let c = (if peek c = CHR '','' \<or> peek c = CHR '']'' then tl c else c)
                        in case call of
                             None \<Rightarrow> (None, Some c)
                           | Some e \<Rightarrow>
                               (case get_argument T e (sint (ucast param :: 32 word)) of
                                  None \<Rightarrow> (None, Some c)
                                | Some arg \<Rightarrow>
                                    if peek c = CHR ''-'' \<and> peek (tl c) = CHR ''>'' then
                                      (let buf = CHR ''$'' # c
                                       in if length buf \<ge> 256 then (None, Some c)
                                          else (Some (comparison, gen_expression_from_key T arg
                                                  (if last buf = CHR '']'' then butlast buf else buf)), Some c))
                                    else (Some (comparison, Some arg), Some c)))))"

definition str_to_comparison_arg :: "'e text_env \<Rightarrow> string \<Rightarrow> 'e option \<Rightarrow> (opcode \<times> 'e option) option" where
  "str_to_comparison_arg T str call =
     (case dropWhile (\<lambda>c. c \<noteq> CHR ''['') str of
        [] \<Rightarrow> None
      | s \<Rightarrow> fst (str_to_comparison_arg_helper T s call))"

definition get_val_from_key :: "'e text_env \<Rightarrow> bool \<Rightarrow> ctype \<Rightarrow> string \<Rightarrow> 'e option \<Rightarrow> sval \<times> string option" where
  "get_val_from_key T use_max t c call =
     (let ret = (if use_max then sval_type_max t else sval_type_min t)
      in case str_to_comparison_arg_helper T c call of
           (None, endp) \<Rightarrow> (ret, endp)
         | (Some (comparison, arg), endp) \<Rightarrow>
             (if use_max then
                (case get_implied_max T arg of
                   None \<Rightarrow> ret
                 | Some v \<Rightarrow> if comparison = Ch CHR ''<'' then sval_binop v (Ch CHR ''-'') (v\<lparr>sv_val := 1\<rparr>) else v)
              else
                (case get_implied_min T arg of
                   None \<Rightarrow> ret
                 | Some v \<Rightarrow> if comparison = Ch CHR ''>'' then sval_binop v (Ch CHR ''+'') (v\<lparr>sv_val := 1\<rparr>) else v),
              endp))"

text \<open>None where \<^verbatim>\<open>rl_intersection\<close> gives up on the program.\<close>

definition filter_by_comparison_call ::
  "'e text_env \<Rightarrow> string \<Rightarrow> 'e option \<Rightarrow> range_list \<Rightarrow> range_list option" where
  "filter_by_comparison_call T c call start_rl =
     (case call of
        None \<Rightarrow> Some start_rl
      | Some e \<Rightarrow>
          if \<not> is_call T e then Some start_rl
          else case fst (str_to_comparison_arg_helper T c call) of
                 None \<Rightarrow> Some start_rl
               | Some (comparison, arg) \<Rightarrow>
                   (case get_implied_rl T arg of
                      None \<Rightarrow> Some start_rl
                    | Some right_orig \<Rightarrow>
                        (let t = get_binop_type start_rl right_orig;
                             casted_start = cast_rl (project T) t start_rl;
                             right_orig = cast_rl (project T) t right_orig
                         in map_option (cast_rl (project T) (rl_type start_rl))
                              (filter_by_comparison (project T) casted_start comparison right_orig))))"

section \<open>Values\<close>

text \<open>The names of bounds, in the order in which they are tried. \<^verbatim>\<open>long\<close> has 64 bits.\<close>

definition bound_names :: "ctype \<Rightarrow> (string \<times> sval) list" where
  "bound_names t =
     [(''max'', sval_type_max t),
      (''u64max'', sval_type_val t (word_of_int ULLONG_MAX)), (''s64max'', sval_type_val t (word_of_int LLONG_MAX)),
      (''u32max'', sval_type_val t (word_of_int UINT_MAX)), (''s32max'', sval_type_val t (word_of_int INT_MAX)),
      (''u16max'', sval_type_val t (word_of_int USHRT_MAX)), (''s16max'', sval_type_val t (word_of_int SHRT_MAX)),
      (''min'', sval_type_min t),
      (''s64min'', sval_type_val t (word_of_int LLONG_MIN)), (''s32min'', sval_type_val t (word_of_int INT_MIN)),
      (''s16min'', sval_type_val t (word_of_int SHRT_MIN)),
      (''long_min'', sval_type_val t (word_of_int LLONG_MIN)), (''long_max'', sval_type_val t (word_of_int LLONG_MAX)),
      (''ulong_max'', sval_type_val t (word_of_int ULLONG_MAX)), (''ptr_max'', sval_type_val t valid_ptr_max)]"

fun find_bound :: "(string \<times> sval) list \<Rightarrow> string \<Rightarrow> (sval \<times> string) option" where
  "find_bound [] s = None"
| "find_bound ((nm, v) # ns) s = (if take (length nm) s = nm then Some (v, drop (length nm) s) else find_bound ns s)"

definition parse_val :: "'e text_env \<Rightarrow> 'e option \<Rightarrow> ctype \<Rightarrow> string \<Rightarrow> sval \<times> string" where
  "parse_val T call t c =
     (if t = Some float_ctype \<or> t = Some double_ctype \<or> t = Some ldouble_ctype then
        (let (x, n) = strto_fp T t c in (sval_type_fval t x, drop n c))
      else case find_bound (bound_names t) c of
             Some (v, rest) \<Rightarrow> (v, rest)
           | None \<Rightarrow>
               if peek c = CHR ''['' then
                 (case get_val_from_key T True t c call of (v, endp) \<Rightarrow> (v, case endp of None \<Rightarrow> c | Some c' \<Rightarrow> c'))
               else if type_is_ptr t then
                 (case strtoll 0 c of (v, rest) \<Rightarrow>
                    (sval_type_val t (if svalue (sval_type_max (Some ulong_ctype)) = UINT_MAX then v AND word_of_int UINT_MAX else v), rest))
               else if type_positive_bits t = 64 then (case strtoull 0 c of (v, rest) \<Rightarrow> (sval_type_val t v, rest))
               else (case strtoll 0 c of (v, rest) \<Rightarrow> (sval_type_val t v, rest)))"

definition skip_char :: "char \<Rightarrow> string \<Rightarrow> string" where
  "skip_char x s = (if peek s = x then tl s else s)"

definition ended :: "string \<Rightarrow> bool" where
  "ended c \<longleftrightarrow> c = [] \<or> peek c = CHR ''[''"

lemma find_bound_length: "find_bound ns s = Some (v, r) \<Longrightarrow> length r \<le> length s"
  by (induction ns s rule: find_bound.induct) (auto split: if_splits)

lemma comparison_prefix_length: "comparison_prefix c = Some (x, r) \<Longrightarrow> length r \<le> length c"
  by (auto simp: comparison_prefix_def split: if_splits)

lemma key_length: "str_to_comparison_arg_helper T str call = (x, Some r) \<Longrightarrow> length r \<le> length str"
proof -
  assume a: "str_to_comparison_arg_helper T str call = (x, Some r)"
  then obtain y c where c: "comparison_prefix (tl str) = Some (y, c)"
    by (auto simp: str_to_comparison_arg_helper_def split: if_splits option.splits)
  obtain p d where d: "strtoll 10 (tl c) = (p, d)" by force
  have "length d \<le> length (tl c)" using strtoll_length(1) [of 10 "tl c"] d by simp
  moreover have "length r \<le> length d"
    using a c d by (auto simp: str_to_comparison_arg_helper_def Let_def split: if_splits option.splits)
  moreover have "length c \<le> length (tl str)" using comparison_prefix_length c by blast
  ultimately show ?thesis by simp
qed

lemma parse_val_length: "length (snd (parse_val T call t c)) \<le> length c"
proof -
  have "length (case endp of None \<Rightarrow> c | Some c' \<Rightarrow> c') \<le> length c" if "get_val_from_key T True t c call = (v, endp)" for v endp
  proof (cases endp)
    case (Some c')
    then have "\<exists>x. str_to_comparison_arg_helper T c call = (x, Some c')"
      using that by (auto simp: get_val_from_key_def Let_def split: prod.splits option.splits)
    then show ?thesis using Some key_length by auto
  qed simp
  then show ?thesis using strtoll_length [of 0 c]
    by (auto simp: parse_val_def Let_def find_bound_length split: prod.splits option.splits)
qed

section \<open>Range lists\<close>

lemma skip_char_length: "length (skip_char x s) \<le> length s"
  by (simp add: skip_char_def)

lemma peek_length: "peek s = x \<Longrightarrow> x \<noteq> CHR 0x00 \<Longrightarrow> length (tl s) < length s"
  by (cases s) (auto simp: peek_def)

lemma parse_step_length: "(v, c1) = parse_val T call t (skip_char x c) \<Longrightarrow> length c1 \<le> length c"
  using parse_val_length [of T call t "skip_char x c"] skip_char_length [of x c] by (metis le_trans snd_conv)

text \<open>
  One range list up to the end of the text or a bracket. The last argument is the list so far and the
  pointer; the three values are \<^verbatim>\<open>prev_min\<close>, \<^verbatim>\<open>min\<close> and \<^verbatim>\<open>max\<close>.
\<close>

function str_to_rl_loop ::
  "'e text_env \<Rightarrow> 'e option \<Rightarrow> ctype \<Rightarrow> sval \<Rightarrow> sval \<Rightarrow> sval \<Rightarrow> range_list \<Rightarrow> string \<Rightarrow> range_list \<times> string" where
  "str_to_rl_loop T call t prev_min mn mx rl c =
     (let add = (\<lambda>rl lo hi. add_range_t (add_range (project T)) t rl lo hi);
          tmin = sval_type_min t; tmax = sval_type_max t
      in if ended c then (rl, c)
         else if peek c = CHR ''+'' then (add rl (if sval_cmp mn tmin \<noteq> 0 then mx else mn) tmax, c)
         else
           (let (lo, c1) = parse_val T call t (skip_char CHR ''('' c);
                lo = (if \<not> sval_fits t lo then tmin else lo);
                c2 = skip_char CHR '')'' c1
            in if ended c2 then (add rl lo lo, c2)
               else if peek c2 = CHR '','' then str_to_rl_loop T call t prev_min lo lo (add rl lo lo) (tl c2)
               else
                 (let plus = (peek c2 = CHR ''+'');
                      lo = (if plus then prev_min else lo);
                      rl = (if plus then add rl prev_min tmax else rl);
                      c3 = (if plus then tl c2 else c2)
                  in if plus \<and> ended c3 \<or> peek c3 \<noteq> CHR ''-'' then (rl, c3)
                     else
                       (let (hi, c4) = parse_val T call t (skip_char CHR ''('' (tl c3));
                            hi = (if \<not> sval_fits t hi then tmax else hi);
                            more = (peek c4 = CHR ''+'');
                            hi = (if more then tmax else hi);
                            rl = (if more then add rl lo tmax else rl);
                            c5 = (if more then tl c4 else c4)
                        in if more \<and> ended c5 then (rl, c5)
                           else str_to_rl_loop T call t hi lo hi (add rl lo hi) (skip_char CHR '','' (skip_char CHR '')'' c5))))))"
  by pat_completeness auto

termination
proof (relation "measure (\<lambda>(T, call, t, prev_min, mn, mx, rl, c). length c)", goal_cases)
  case (2 T call t prev_min mn mx rl c add tmin tmax p lo c1 lo' c2)
  have "length c1 \<le> length c" using parse_step_length 2 by metis
  then show ?case using 2 peek_length [of c2 "CHR '',''"] skip_char_length [of "CHR '')''" c1] by simp
next
  case (3 T call t prev_min mn mx rl c add tmin tmax p lo c1 lo' c2 plus lo'' rl' c3 q hi c4 hi' more hi'' rl'' c5)
  have "length c1 \<le> length c" using parse_step_length 3 by metis
  moreover have "length c4 \<le> length (tl c3)" using parse_step_length 3 by metis
  moreover have "length (tl c3) < length c3" using 3 peek_length [of c3 "CHR ''-''"] by simp
  moreover have "length c3 \<le> length c2" "length c2 \<le> length c1" "length c5 \<le> length c4"
    using 3 skip_char_length [of "CHR '')''" c1] by auto
  moreover have "length (skip_char CHR '','' (skip_char CHR '')'' c5)) \<le> length c5" using skip_char_length order_trans by blast
  ultimately show ?case by simp
qed simp

declare str_to_rl_loop.simps [simp del]

definition str_to_rl_helper :: "'e text_env \<Rightarrow> 'e option \<Rightarrow> ctype \<Rightarrow> string \<Rightarrow> range_list \<times> string" where
  "str_to_rl_helper T call t str = str_to_rl_loop T call t (sval_type_min t) (sval_type_min t) (sval_type_max t) [] str"

definition jump_to_call_math :: "string \<Rightarrow> string option" where
  "jump_to_call_math value =
     (case dropWhile (\<lambda>c. c \<noteq> CHR ''['') value of
        [] \<Rightarrow> None
      | _ # c \<Rightarrow> if peek c \<in> {CHR ''<'', CHR ''='', CHR ''>'', CHR ''!''} then None else Some c)"

definition get_param_return_rl :: "'e text_env \<Rightarrow> 'e \<Rightarrow> string \<Rightarrow> range_list option" where
  "get_param_return_rl T call call_math =
     (case get_argument T call (sint (ucast (fst (strtoll 10 (drop 3 call_math))) :: 32 word)) of
        None \<Rightarrow> None
      | Some arg \<Rightarrow> db_return_vals_no_args T arg)"

text \<open>
  The ranges that are stored in the \<^verbatim>\<open>data_info\<close>, which starts empty. The result None is a dereferenced NULL
  call or an intersection that gives up on the program.
\<close>

definition str_to_dinfo :: "'e text_env \<Rightarrow> 'e option \<Rightarrow> ctype \<Rightarrow> string \<Rightarrow> range_list option" where
  "str_to_dinfo T call t value =
     (let t = (if t = None then Some llong_ctype else t); prj = project T; cast = map_option (cast_rl prj t)
      in if value = ''empty'' then Some []
         else if take 4 value = ''[==$'' then
           (case str_to_comparison_arg T value call of
              None \<Rightarrow> Some []
            | Some (comparison, arg) \<Rightarrow> (case get_implied_rl T arg of None \<Rightarrow> Some [] | Some rl \<Rightarrow> cast (Some rl)))
         else
           (let (rl, c) = str_to_rl_helper T call t value; call_math = jump_to_call_math value
            in if c = [] then cast (Some rl)
               else if call_math \<noteq> None \<and> peek (the call_math) = CHR ''r'' then
                 (case call of
                    None \<Rightarrow> None
                  | Some e \<Rightarrow>
                      cast (case get_param_return_rl T e (the call_math) of
                              None \<Rightarrow> Some rl
                            | Some math_rl \<Rightarrow> rl_intersection prj rl math_rl))
               else if call_math \<noteq> None \<and> parse_call_math_rl T call (the call_math) \<noteq> None then
                 cast (rl_intersection prj rl (the (parse_call_math_rl T call (the call_math))))
               else if peek c = CHR ''['' \<and> jump_to_call_math c \<noteq> None then cast (Some rl)
               else cast (filter_by_comparison_call T c call rl)))"

definition str_to_rl :: "'e text_env \<Rightarrow> ctype \<Rightarrow> string \<Rightarrow> range_list option" where
  "str_to_rl T t value =
     map_option (\<lambda>rl. if rl_is_sane rl then rl else alloc_whole_rl (project T) t) (str_to_dinfo T None t value)"

definition call_results_to_rl :: "'e text_env \<Rightarrow> 'e option \<Rightarrow> ctype \<Rightarrow> string \<Rightarrow> range_list option" where
  "call_results_to_rl T call t value = str_to_dinfo T call t value"

end
