(* ===== verification/Estate.thy ===== *)
theory Estate
  imports Range_Text Tracker
begin

text \<open>
  The states of \<^verbatim>\<open>src/smatch_estate.c\<close>, which carry the values of a variable, and the lists of related variables of
  \<^verbatim>\<open>src/smatch_equiv.c\<close>.
\<close>

section \<open>Related variables\<close>

record relation =
  rel_name :: string
  rel_sym :: nat

definition alloc_relation :: "string \<Rightarrow> nat \<Rightarrow> relation" where
  "alloc_relation nm sy = \<lparr>rel_name = nm, rel_sym = sy\<rparr>"

definition clone_related_list :: "relation list \<Rightarrow> relation list" where
  "clone_related_list rs = rs"

text \<open>Two pointers to one relation compare equal by their members too.\<close>

definition cmp_relation :: "relation \<Rightarrow> relation \<Rightarrow> int" where
  "cmp_relation a b =
     (if rel_sym a > rel_sym b then -1
      else if rel_sym a < rel_sym b then 1
      else strcmp (rel_name a) (rel_name b))"

fun get_shared_relations :: "relation list \<Rightarrow> relation list \<Rightarrow> relation list" where
  "get_shared_relations (a # as) (b # bs) =
     (if cmp_relation a b < 0 then get_shared_relations as (b # bs)
      else if cmp_relation a b = 0 then a # get_shared_relations as bs
      else get_shared_relations (a # as) bs)"
| "get_shared_relations _ _ = []"

fun add_related :: "relation list \<Rightarrow> string \<Rightarrow> nat \<Rightarrow> relation list" where
  "add_related [] nm sy = [alloc_relation nm sy]"
| "add_related (r # rs) nm sy =
     (let c = cmp_relation r (alloc_relation nm sy)
      in if c < 0 then r # add_related rs nm sy
         else if c = 0 then r # rs
         else alloc_relation nm sy # r # rs)"

definition del_related :: "relation list \<Rightarrow> string \<Rightarrow> nat \<Rightarrow> relation list" where
  "del_related rs nm sy = filter (\<lambda>r. cmp_relation r (alloc_relation nm sy) \<noteq> 0) rs"

fun rlists_equiv :: "relation list \<Rightarrow> relation list \<Rightarrow> bool" where
  "rlists_equiv [] [] = True"
| "rlists_equiv (a # as) (b # bs) =
     (rel_sym a = rel_sym b \<and> strcmp (rel_name a) (rel_name b) = 0 \<and> rlists_equiv as bs)"
| "rlists_equiv _ _ = False"

section \<open>States\<close>

record data_info =
  related :: "relation list"
  value_ranges :: range_list
  fuzzy_max :: sval
  hard_max :: bool
  capped :: bool
  treat_untagged :: bool
  assigned :: bool
  new_set :: bool

text \<open>The member \<^verbatim>\<open>data\<close> of a state.\<close>

record estate = smatch_state +
  dinfo :: data_info

text \<open>A value without a type.\<close>

definition sval_none :: sval where
  "sval_none = mk_sval None 0"

definition get_dinfo :: "estate option \<Rightarrow> data_info option" where
  "get_dinfo st = map_option dinfo st"

definition estate_rl :: "estate option \<Rightarrow> range_list" where
  "estate_rl st = (case st of None \<Rightarrow> [] | Some s \<Rightarrow> value_ranges (dinfo s))"

definition estate_related :: "estate option \<Rightarrow> relation list" where
  "estate_related st = (case st of None \<Rightarrow> [] | Some s \<Rightarrow> related (dinfo s))"

definition estate_get_fuzzy_max :: "estate option \<Rightarrow> sval" where
  "estate_get_fuzzy_max st = (case st of None \<Rightarrow> sval_none | Some s \<Rightarrow> fuzzy_max (dinfo s))"

definition estate_has_fuzzy_max :: "estate option \<Rightarrow> bool" where
  "estate_has_fuzzy_max st = (sv_type (estate_get_fuzzy_max st) \<noteq> None)"

definition estate_min :: "estate option \<Rightarrow> sval" where
  "estate_min st = rl_min (estate_rl st)"

definition estate_max :: "estate option \<Rightarrow> sval" where
  "estate_max st = rl_max (estate_rl st)"

definition estate_type :: "estate option \<Rightarrow> ctype" where
  "estate_type st = (if st = None then None else sv_type (rl_max (estate_rl st)))"

definition set_related :: "estate \<Rightarrow> relation list \<Rightarrow> estate" where
  "set_related s rs =
     (if estate_related (Some s) = [] \<and> rs = [] then s else s\<lparr>dinfo := (dinfo s)\<lparr>related := rs\<rparr>\<rparr>)"

definition estate_set_fuzzy_max :: "estate \<Rightarrow> sval \<Rightarrow> estate" where
  "estate_set_fuzzy_max s v =
     (if is_ptr_type (estate_type (Some s)) then s
      else if \<not> rl_has_sval (estate_rl (Some s)) v then s
      else s\<lparr>dinfo := (dinfo s)\<lparr>fuzzy_max := v\<rparr>\<rparr>)"

definition estate_copy_fuzzy_max :: "estate \<Rightarrow> estate option \<Rightarrow> estate" where
  "estate_copy_fuzzy_max new old =
     (if is_ptr_type (estate_type (Some new)) then new
      else if \<not> estate_has_fuzzy_max old then new
      else estate_set_fuzzy_max new (estate_get_fuzzy_max old))"

definition estate_clear_fuzzy_max :: "estate \<Rightarrow> estate" where
  "estate_clear_fuzzy_max s = s\<lparr>dinfo := (dinfo s)\<lparr>fuzzy_max := sval_none\<rparr>\<rparr>"

definition estate_has_hard_max :: "estate option \<Rightarrow> bool" where
  "estate_has_hard_max st = (case st of None \<Rightarrow> False | Some s \<Rightarrow> estate_rl st \<noteq> [] \<and> hard_max (dinfo s))"

definition estate_set_hard_max :: "estate \<Rightarrow> estate" where
  "estate_set_hard_max s =
     (if is_ptr_type (estate_type (Some s)) then s else s\<lparr>dinfo := (dinfo s)\<lparr>hard_max := True\<rparr>\<rparr>)"

definition estate_clear_hard_max :: "estate \<Rightarrow> estate" where
  "estate_clear_hard_max s = s\<lparr>dinfo := (dinfo s)\<lparr>hard_max := False\<rparr>\<rparr>"

definition estate_get_hard_max :: "estate option \<Rightarrow> sval option" where
  "estate_get_hard_max st =
     (case st of
        None \<Rightarrow> None
      | Some s \<Rightarrow> if \<not> hard_max (dinfo s) \<or> estate_rl st = [] then None else Some (rl_max (estate_rl st)))"

text \<open>An impossible state counts as capped and untagged.\<close>

definition estate_capped :: "estate option \<Rightarrow> bool" where
  "estate_capped st = (case st of None \<Rightarrow> False | Some s \<Rightarrow> estate_rl st = [] \<or> capped (dinfo s))"

definition estate_set_capped :: "estate \<Rightarrow> estate" where
  "estate_set_capped s = s\<lparr>dinfo := (dinfo s)\<lparr>capped := True\<rparr>\<rparr>"

definition estate_treat_untagged :: "estate option \<Rightarrow> bool" where
  "estate_treat_untagged st = (case st of None \<Rightarrow> False | Some s \<Rightarrow> estate_rl st = [] \<or> treat_untagged (dinfo s))"

definition estate_set_treat_untagged :: "estate \<Rightarrow> estate" where
  "estate_set_treat_untagged s = s\<lparr>dinfo := (dinfo s)\<lparr>treat_untagged := True\<rparr>\<rparr>"

definition estate_assigned :: "estate option \<Rightarrow> bool" where
  "estate_assigned st = (case st of None \<Rightarrow> False | Some s \<Rightarrow> estate_rl st \<noteq> [] \<and> assigned (dinfo s))"

definition estate_set_assigned :: "estate \<Rightarrow> estate" where
  "estate_set_assigned s = s\<lparr>dinfo := (dinfo s)\<lparr>assigned := True\<rparr>\<rparr>"

definition estate_new :: "estate option \<Rightarrow> bool" where
  "estate_new st = (case st of None \<Rightarrow> False | Some s \<Rightarrow> estate_rl st \<noteq> [] \<and> new_set (dinfo s))"

definition estate_set_new :: "estate \<Rightarrow> estate" where
  "estate_set_new s = s\<lparr>dinfo := (dinfo s)\<lparr>new_set := True\<rparr>\<rparr>"

text \<open>The name of a state is never NULL here.\<close>

definition estates_equiv :: "estate option \<Rightarrow> estate option \<Rightarrow> bool" where
  "estates_equiv one two =
     (case (one, two) of
        (Some a, Some b) \<Rightarrow>
          st_addr a = st_addr b
          \<or> rlists_equiv (estate_related one) (estate_related two)
             \<and> estate_capped one = estate_capped two
             \<and> estate_treat_untagged one = estate_treat_untagged two
             \<and> estate_has_hard_max one = estate_has_hard_max two
             \<and> estate_new one = estate_new two
             \<and> strcmp (the (st_name a)) (the (st_name b)) = 0
      | _ \<Rightarrow> False)"

definition estate_is_whole :: "estate option \<Rightarrow> bool" where
  "estate_is_whole st = is_whole_rl (estate_rl st)"

definition estate_is_empty :: "estate option \<Rightarrow> bool" where
  "estate_is_empty st = (st \<noteq> None \<and> estate_rl st = [])"

definition estate_is_unknown :: "estate option \<Rightarrow> bool" where
  "estate_is_unknown st =
     (estate_is_whole st \<and> estate_related st = [] \<and> \<not> estate_has_fuzzy_max st)"

definition estate_get_single_value :: "estate option \<Rightarrow> sval option" where
  "estate_get_single_value st =
     (if estate_rl st = [] then None
      else if sval_cmp (rl_min (estate_rl st)) (rl_max (estate_rl st)) \<noteq> 0 then None
      else Some (rl_min (estate_rl st)))"

section \<open>Allocation\<close>

definition alloc_dinfo :: data_info where
  "alloc_dinfo =
     \<lparr>related = [], value_ranges = [], fuzzy_max = sval_none, hard_max = False, capped = False, treat_untagged = False,
      assigned = False, new_set = False\<rparr>"

definition alloc_dinfo_range :: "'e text_env \<Rightarrow> sval \<Rightarrow> sval \<Rightarrow> data_info" where
  "alloc_dinfo_range T mn mx = alloc_dinfo\<lparr>value_ranges := add_range (project T) [] mn mx\<rparr>"

definition alloc_dinfo_range_list :: "range_list \<Rightarrow> data_info" where
  "alloc_dinfo_range_list rl = alloc_dinfo\<lparr>value_ranges := rl\<rparr>"

definition clone_dinfo :: "data_info \<Rightarrow> data_info" where
  "clone_dinfo d =
     alloc_dinfo\<lparr>related := clone_related_list (related d), value_ranges := value_ranges d, hard_max := hard_max d,
       fuzzy_max := fuzzy_max d\<rparr>"

text \<open>\<open>a\<close> is the address that \<^verbatim>\<open>__alloc_smatch_state\<close> gives.\<close>

definition mk_estate :: "nat \<Rightarrow> string \<Rightarrow> data_info \<Rightarrow> estate" where
  "mk_estate a nm d = \<lparr>st_addr = a, st_name = Some nm, dinfo = d\<rparr>"

definition alloc_estate_empty :: "nat \<Rightarrow> estate" where
  "alloc_estate_empty a = mk_estate a '''' alloc_dinfo"

definition extra_empty :: "nat \<Rightarrow> estate" where
  "extra_empty a = mk_estate a ''empty'' alloc_dinfo"

definition alloc_estate_rl :: "'e text_env \<Rightarrow> nat \<Rightarrow> range_list \<Rightarrow> estate" where
  "alloc_estate_rl T a rl =
     (if rl = [] then extra_empty a else mk_estate a (show_rl T rl) (alloc_dinfo_range_list rl))"

definition alloc_estate_whole :: "'e text_env \<Rightarrow> nat \<Rightarrow> ctype \<Rightarrow> estate" where
  "alloc_estate_whole T a t = alloc_estate_rl T a (alloc_whole_rl (project T) t)"

definition alloc_estate_sval :: "'e text_env \<Rightarrow> nat \<Rightarrow> sval \<Rightarrow> estate" where
  "alloc_estate_sval T a v =
     (let d = alloc_dinfo_range T v v
      in estate_set_fuzzy_max (estate_set_hard_max (mk_estate a (show_rl T (value_ranges d)) d)) v)"

definition alloc_estate_range :: "'e text_env \<Rightarrow> nat \<Rightarrow> sval \<Rightarrow> sval \<Rightarrow> estate" where
  "alloc_estate_range T a mn mx =
     (let d = alloc_dinfo_range T mn mx in mk_estate a (show_rl T (value_ranges d)) d)"

definition clone_estate :: "nat \<Rightarrow> estate option \<Rightarrow> estate option" where
  "clone_estate a st =
     map_option (\<lambda>s. \<lparr>st_addr = a, st_name = st_name s, dinfo = clone_dinfo (dinfo s)\<rparr>) st"

definition clone_partial_estate :: "'e text_env \<Rightarrow> nat \<Rightarrow> estate option \<Rightarrow> range_list \<Rightarrow> estate option" where
  "clone_partial_estate T a st rl =
     map_option (\<lambda>s.
       let rl = cast_rl (project T) (estate_type st) rl;
           ret = set_related (alloc_estate_rl T a rl) (clone_related_list (estate_related st));
           ret = (if estate_has_hard_max st then estate_set_hard_max ret else ret)
       in if estate_has_fuzzy_max st then estate_set_fuzzy_max ret (estate_get_fuzzy_max st) else ret) st"

definition clone_estate_cast :: "'e text_env \<Rightarrow> nat \<Rightarrow> ctype \<Rightarrow> estate option \<Rightarrow> estate option" where
  "clone_estate_cast T a t st =
     map_option (\<lambda>s.
       let rl = cast_rl (project T) t (estate_rl st) in mk_estate a (show_rl T rl) (alloc_dinfo\<lparr>value_ranges := rl\<rparr>)) st"

definition clone_dinfo_perm :: "data_info \<Rightarrow> data_info" where
  "clone_dinfo_perm d = alloc_dinfo\<lparr>value_ranges := value_ranges d, fuzzy_max := fuzzy_max d\<rparr>"

definition clone_estate_perm :: "nat \<Rightarrow> estate \<Rightarrow> estate" where
  "clone_estate_perm a s = \<lparr>st_addr = a, st_name = st_name s, dinfo = clone_dinfo_perm (dinfo s)\<rparr>"

section \<open>Merging\<close>

definition merged_capped :: "estate option \<Rightarrow> estate option \<Rightarrow> bool" where
  "merged_capped s1 s2 =
     (estate_capped s1 \<and> estate_capped s2
      \<or> estate_rl s1 \<noteq> [] \<and> estate_rl s2 \<noteq> []
         \<and> (estate_capped s1 \<and> uvalue (estate_max s2) < 100 \<or> estate_capped s2 \<and> uvalue (estate_max s1) < 100))"

definition merge_estates :: "'e text_env \<Rightarrow> nat \<Rightarrow> estate option \<Rightarrow> estate option \<Rightarrow> estate option" where
  "merge_estates T a s1 s2 =
     (if estates_equiv s1 s2 then s1
      else
        (let tmp = alloc_estate_rl T a (rl_union (project T) (estate_rl s1) (estate_rl s2));
             tmp = set_related tmp (get_shared_relations (estate_related s1) (estate_related s2));
             tmp = (if estate_has_hard_max s1 \<and> (estate_rl s2 = [] \<or> estate_has_hard_max s2)
                       \<or> estate_has_hard_max s2 \<and> (estate_rl s1 = [] \<or> estate_has_hard_max s1)
                    then estate_set_hard_max tmp else tmp);
             tmp = estate_set_fuzzy_max tmp (sval_max (estate_get_fuzzy_max s1) (estate_get_fuzzy_max s2));
             tmp = (if merged_capped s1 s2 then estate_set_capped tmp else tmp);
             tmp = (if estate_treat_untagged s1 \<and> estate_treat_untagged s2 then estate_set_treat_untagged tmp else tmp);
             tmp = (if estate_assigned s1 \<or> estate_assigned s2 then estate_set_assigned tmp else tmp);
             tmp = (if estate_new s1 \<or> estate_new s2 then estate_set_new tmp else tmp)
         in Some tmp))"

end
