(* ===== verification/Range_Text_Facts.thy ===== *)
theory Range_Text_Facts
  imports Range_Text Range_Cmp
begin

text \<open>
  Range lists of integer types survive printing and parsing. A text that is cut off because it is too
  long stands for a larger list.
\<close>

section \<open>Values\<close>

text \<open>What may follow the text of a value.\<close>

definition after_val :: "string \<Rightarrow> bool" where
  "after_val r \<longleftrightarrow> r = [] \<or> peek r = CHR '','' \<or> peek r = CHR ''-''"

lemma after_val_cases:
  assumes "after_val r"
  obtains "r = []" | s where "r = CHR '','' # s" | s where "r = CHR ''-'' # s"
  using assms by (cases r) (auto simp: after_val_def peek_def)

lemma after_val_stops: "after_val r \<Longrightarrow> stops r" "stops (CHR '')'' # r)"
  by (auto simp: stops_def elim: after_val_cases)

lemma skip_after: "after_val r \<Longrightarrow> skip_char CHR '')'' r = r" "skip_char CHR '')'' (CHR '')'' # r) = r"
  by (auto simp: skip_char_def peek_def elim: after_val_cases)

lemma int_type_no_fp: "int_type_ok t \<Longrightarrow> t \<noteq> Some float_ctype \<and> t \<noteq> Some double_ctype \<and> t \<noteq> Some ldouble_ctype"
  by (auto simp: int_type_ok_def arith_type_def)

lemma find_bound_other: "\<forall>(nm, v) \<in> set ns. nm \<noteq> [] \<and> hd nm \<noteq> c \<Longrightarrow> find_bound ns (c # s) = None"
proof (induction ns)
  case (Cons x ns)
  obtain nm v where x: "x = (nm, v)" by force
  then have "take (length nm) (c # s) \<noteq> nm" using Cons.prems by (cases nm) auto
  then show ?case using Cons x by simp
qed simp

lemma no_bound: "c = CHR ''-'' \<or> is_digit 10 c \<Longrightarrow> find_bound (bound_names t) (c # s) = None"
proof (rule find_bound_other)
  have "\<not> is_digit 10 CHR ''m''" "\<not> is_digit 10 CHR ''u''" "\<not> is_digit 10 CHR ''s''" "\<not> is_digit 10 CHR ''l''" "\<not> is_digit 10 CHR ''p''"
    by code_simp+
  moreover assume "c = CHR ''-'' \<or> is_digit 10 c"
  ultimately show "\<forall>(nm, v) \<in> set (bound_names t). nm \<noteq> [] \<and> hd nm \<noteq> c" by (auto simp: bound_names_def)
qed

text \<open>A number is read back; it may start with a minus sign.\<close>

lemma parse_number:
  assumes t: "int_type_ok t" and c: "c = CHR ''-'' \<or> is_digit 10 c"
  shows "parse_val T call t (c # s) =
    (if type_positive_bits t = 64 then (case strtoull 0 (c # s) of (v, rest) \<Rightarrow> (sval_type_val t v, rest))
     else (case strtoll 0 (c # s) of (v, rest) \<Rightarrow> (sval_type_val t v, rest)))"
proof -
  have "\<not> is_digit 10 CHR ''[''" by code_simp
  then have "peek (c # s) \<noteq> CHR ''[''" using c by (auto simp: peek_def)
  moreover have "\<not> type_is_ptr t" using t by (simp add: int_type_ok_def)
  ultimately show ?thesis using int_type_no_fp [OF t] no_bound [OF c] by (simp add: parse_val_def)
qed

lemma parse_bound:
  assumes "int_type_ok t" "find_bound (bound_names t) s = Some (v, r)"
  shows "parse_val T call t s = (v, r)"
  using int_type_no_fp [OF assms(1)] assms(2) by (simp add: parse_val_def)

lemma sval_type_val_same: "has_type t v \<Longrightarrow> sval_type_val t (sv_val v) = v"
  by (cases v) (auto simp: has_type_def sval_ok_def arith_type_def sval_type_val_def mk_sval_def split: option.splits)

lemma sval_to_str_int:
  assumes "int_type_ok t" "has_type t v"
  shows "sval_to_str T v =
     (if type_unsigned t \<and> uvalue v = ULLONG_MAX then ''u64max''
      else if type_unsigned t \<and> svalue v = UINT_MAX then ''u32max''
      else if svalue v = USHRT_MAX then ''u16max''
      else if \<not> type_unsigned t \<and> svalue v = LLONG_MAX then ''s64max''
      else if svalue v = INT_MAX then ''s32max''
      else if svalue v = SHRT_MAX then ''s16max''
      else if \<not> type_unsigned t \<and> svalue v = SHRT_MIN then ''s16min''
      else if \<not> type_unsigned t \<and> svalue v = INT_MIN then ''s32min''
      else if \<not> type_unsigned t \<and> svalue v = LLONG_MIN then ''s64min''
      else if type_unsigned t then print_llu (sv_val v)
      else if svalue v < 0 then ''('' @ print_lld (sv_val v) @ '')''
      else print_lld (sv_val v))"
proof -
  have "sv_type v = t" "\<not> type_is_fp t" "\<not> is_ptr_type t" "\<not> type_is_ptr t"
    using assms by (auto simp: has_type_def int_type_ok_def arith_type_def)
  moreover have "\<not> sval_is_ptr v" using calculation by (auto simp: sval_is_ptr_def type_is_ptr_def)
  ultimately show ?thesis by (simp add: sval_to_str_def sval_is_fp_def sval_unsigned_def sval_signed_def)
qed

text \<open>The names of bounds are read back, whatever follows.\<close>

lemma find_bound_names:
  "find_bound (bound_names t) (''u64max'' @ r) = Some (sval_type_val t (word_of_int ULLONG_MAX), r)"
  "find_bound (bound_names t) (''u32max'' @ r) = Some (sval_type_val t (word_of_int UINT_MAX), r)"
  "find_bound (bound_names t) (''u16max'' @ r) = Some (sval_type_val t (word_of_int USHRT_MAX), r)"
  "find_bound (bound_names t) (''s64max'' @ r) = Some (sval_type_val t (word_of_int LLONG_MAX), r)"
  "find_bound (bound_names t) (''s32max'' @ r) = Some (sval_type_val t (word_of_int INT_MAX), r)"
  "find_bound (bound_names t) (''s16max'' @ r) = Some (sval_type_val t (word_of_int SHRT_MAX), r)"
  "find_bound (bound_names t) (''s16min'' @ r) = Some (sval_type_val t (word_of_int SHRT_MIN), r)"
  "find_bound (bound_names t) (''s32min'' @ r) = Some (sval_type_val t (word_of_int INT_MIN), r)"
  "find_bound (bound_names t) (''s64min'' @ r) = Some (sval_type_val t (word_of_int LLONG_MIN), r)"
  by (simp_all add: bound_names_def)

text \<open>A value is read, possibly in parentheses.\<close>

definition reads :: "'e text_env \<Rightarrow> 'e option \<Rightarrow> ctype \<Rightarrow> string \<Rightarrow> sval \<Rightarrow> string \<Rightarrow> bool" where
  "reads T call t s v r \<longleftrightarrow>
     (\<exists>r'. parse_val T call t (skip_char CHR ''('' s) = (v, r') \<and> skip_char CHR '')'' r' = r \<and> peek r' \<noteq> CHR ''+'')"

lemma reads_plain:
  assumes "parse_val T call t s = (v, r)" "after_val r" "peek s \<noteq> CHR ''(''"
  shows "reads T call t s v r"
proof -
  have "peek r \<noteq> CHR ''+''" using assms(2) by (auto simp: peek_def elim: after_val_cases)
  then show ?thesis using assms skip_after(1) [OF assms(2)] by (auto simp: reads_def skip_char_def)
qed

lemma reads_bound:
  assumes "int_type_ok t" "after_val r" "find_bound (bound_names t) (nm @ r) = Some (v, r)" "nm \<noteq> []" "hd nm \<noteq> CHR ''(''"
  shows "reads T call t (nm @ r) v r"
  by (rule reads_plain [OF parse_bound [OF assms(1,3)] assms(2)]) (use assms(4,5) in \<open>cases nm; simp add: peek_def\<close>)

lemma first_digit: "\<exists>c ds. digits n = c # ds \<and> is_digit 10 c \<and> c \<noteq> CHR ''(''"
proof -
  obtain c ds where c: "digits n = c # ds" by (cases "digits n") auto
  then obtain d :: nat where "d < 10" "c = char_of (48 + d)" using digits_chars [of c n] by auto
  then have "digit_val c = Some d" "d < 10" using digit_char by auto
  then show ?thesis using c digit_val_simps(4) by (force simp: is_digit_def)
qed

lemma positive_bits: "int_type_ok t \<Longrightarrow> type_positive_bits t = 64 \<longleftrightarrow> type_unsigned t \<and> type_bits t = 64"
  by (auto simp: int_type_ok_def arith_type_def type_positive_bits_def)

lemma strtoll_nat:
  assumes "stops r" "int n \<le> LLONG_MAX"
  shows "strtoll 0 (digits n @ r) = (of_nat n, r)"
  using assms strto_digits [OF assms(1), of n] by (simp add: strtoll_def LLONG_MIN_def)

lemma parse_unsigned:
  assumes t: "int_type_ok t" "type_unsigned t" and v: "has_type t v" and r: "stops r"
  shows "parse_val T call t (print_llu (sv_val v) @ r) = (v, r)"
proof -
  obtain c ds where c: "digits (unat (sv_val v)) = c # ds" "is_digit 10 c" using first_digit by blast
  have "int (unat (sv_val v)) \<le> LLONG_MAX" if "type_bits t \<noteq> 64"
  proof -
    have "uvalue v \<le> type_hi t" using has_typeD [OF v] t(2) by (simp add: sval_int_def)
    moreover have "type_hi t \<le> 2 ^ 32 - 1"
      using t that by (auto simp: type_hi_def type_width_def int_type_ok_def arith_type_def)
    ultimately show ?thesis by (simp add: LLONG_MAX_def)
  qed
  then show ?thesis
    using parse_number [OF t(1), of c T call "ds @ r"] c strtoull_print [OF r, of "sv_val v"] strtoll_nat [OF r, of "unat (sv_val v)"]
      positive_bits [OF t(1)] t(2) sval_type_val_same [OF v] by (auto simp: print_llu_def)
qed

lemma parse_signed:
  assumes t: "int_type_ok t" "\<not> type_unsigned t" and v: "has_type t v" and r: "stops r"
  shows "parse_val T call t (print_lld (sv_val v) @ r) = (v, r)"
proof -
  have "\<exists>c s. print_lld (sv_val v) @ r = c # s \<and> (c = CHR ''-'' \<or> is_digit 10 c)"
    using first_digit [of "nat (svalue v)"] by (auto simp: print_lld_def)
  then obtain c s where "print_lld (sv_val v) @ r = c # s" "c = CHR ''-'' \<or> is_digit 10 c" by blast
  then show ?thesis
    using parse_number [OF t(1), of c T call s] strtoll_print [OF r, of "sv_val v"] positive_bits [OF t(1)] t(2)
      sval_type_val_same [OF v] by simp
qed

lemma print_first: "peek (print_llu w @ r) \<noteq> CHR ''(''" "peek (print_lld w @ r) \<noteq> CHR ''(''"
proof -
  have d: "peek (digits n @ r) \<noteq> CHR ''(''" for n using first_digit [of n] by (auto simp: peek_def)
  then show "peek (print_llu w @ r) \<noteq> CHR ''(''" "peek (print_lld w @ r) \<noteq> CHR ''(''"
    by (auto simp: print_llu_def print_lld_def) (simp add: peek_def)
qed

lemma reads_val:
  assumes t: "int_type_ok t" and v: "has_type t v" and r: "after_val r"
  shows "reads T call t (sval_to_str T v @ r) v r"
proof -
  note same = sval_type_val_same [OF v]
  have bound: "reads T call t (nm @ r) v r"
    if "find_bound (bound_names t) (nm @ r) = Some (sval_type_val t (word_of_int k), r)" "svalue v = k \<or> uvalue v = k"
      "nm \<noteq> []" "hd nm \<noteq> CHR ''(''" for nm k
    using that same by (intro reads_bound [OF t r]) auto
  have neg: "reads T call t (CHR ''('' # print_lld (sv_val v) @ CHR '')'' # r) v r" if "\<not> type_unsigned t"
    using parse_signed [OF t that v after_val_stops(2) [of r], of T call] by (auto simp: reads_def skip_char_def peek_def)
  have choose: "(q \<Longrightarrow> reads T call t (x @ r) v r) \<Longrightarrow> (\<not> q \<Longrightarrow> reads T call t (y @ r) v r) \<Longrightarrow>
      reads T call t ((if q then x else y) @ r) v r" for q x y by simp
  note numbers = reads_plain [OF parse_unsigned [OF t _ v after_val_stops(1) [OF r]] r print_first(1)]
    reads_plain [OF parse_signed [OF t _ v after_val_stops(1) [OF r]] r print_first(2)]
  show ?thesis
    unfolding sval_to_str_int [OF t v]
    by (intro choose bound [OF find_bound_names(1)] bound [OF find_bound_names(2)] bound [OF find_bound_names(3)]
        bound [OF find_bound_names(4)] bound [OF find_bound_names(5)] bound [OF find_bound_names(6)] bound [OF find_bound_names(7)]
        bound [OF find_bound_names(8)] bound [OF find_bound_names(9)] numbers; simp add: neg)
qed

section \<open>Ranges\<close>

lemma val_text:
  assumes "int_type_ok t" "has_type t v"
  shows "\<not> ended (sval_to_str T v @ r)" "peek (sval_to_str T v @ r) \<noteq> CHR ''+''" "peek (sval_to_str T v @ r) \<noteq> CHR ''e''"
proof -
  have "digit_val CHR ''e'' = Some 14" by code_simp
  then have d: "\<exists>c s. digits n = c # s \<and> c \<noteq> CHR ''['' \<and> c \<noteq> CHR ''+'' \<and> c \<noteq> CHR ''e''" for n
    using first_digit [of n] by (auto simp: is_digit_def)
  have "\<exists>c s. sval_to_str T v = c # s \<and> c \<noteq> CHR ''['' \<and> c \<noteq> CHR ''+'' \<and> c \<noteq> CHR ''e''"
    unfolding sval_to_str_int [OF assms] using d [of "unat (sv_val v)"] d [of "nat (svalue v)"]
    by (simp add: print_llu_def print_lld_def)
  then show "\<not> ended (sval_to_str T v @ r)" "peek (sval_to_str T v @ r) \<noteq> CHR ''+''" "peek (sval_to_str T v @ r) \<noteq> CHR ''e''"
    by (auto simp: ended_def peek_def)
qed

lemma add_range_t_same:
  assumes "has_type t a" "has_type t b"
  shows "add_range_t add t rl a b = add rl a b"
  using assms has_typeD [OF assms(1)] has_typeD [OF assms(2)]
  by (simp add: add_range_t_def has_type_cast_id sval_fits_iff)

lemma show_range_int:
  assumes "int_type_ok t" "range_ok t d"
  shows "show_range T d = (if dr_min d = dr_max d then sval_to_str T (dr_min d)
    else sval_to_str T (dr_min d) @ ''-'' @ sval_to_str T (dr_max d))"
proof -
  have "has_type t (dr_min d)" "has_type t (dr_max d)" using assms(2) by (simp_all add: range_ok_iff)
  moreover have "\<not> is_err_ptr prj (dr_min d)" for prj
    using assms by (auto simp: is_err_ptr_def int_type_ok_def range_ok_def)
  ultimately show ?thesis by (simp add: show_range_def get_err_pointer_str_def sval_cmp_eq_0)
qed

lemma loop_end: "str_to_rl_loop T call t pm mn mx rl [] = (rl, [])"
  by (subst str_to_rl_loop.simps) (simp add: ended_def)

text \<open>One printed range, at the end of the text or before a comma.\<close>

lemma loop_range:
  assumes t: "int_type_ok t" and d: "range_ok t d" and r: "r = [] \<or> r = CHR '','' # s"
  shows "\<exists>pm' mn' mx'. str_to_rl_loop T call t pm mn mx rl (show_range T d @ r) =
    str_to_rl_loop T call t pm' mn' mx' (add_range (project T) rl (dr_min d) (dr_max d)) (skip_char CHR '','' r)"
proof -
  have ty: "has_type t (dr_min d)" "has_type t (dr_max d)" using d by (simp_all add: range_ok_iff)
  then have fits: "sval_fits t (dr_min d)" "sval_fits t (dr_max d)" using range_ok_sane [OF d] by simp_all
  note add = add_range_t_same [OF ty(1,1)] add_range_t_same [OF ty]
  have r': "after_val r" using r by (auto simp: after_val_def peek_def)
  have end_r: "ended r \<longleftrightarrow> r = []" "r \<noteq> [] \<Longrightarrow> peek r = CHR '',''" using r by (auto simp: ended_def peek_def)
  note first = val_text [OF t ty(1)]
  show ?thesis
  proof (cases "dr_min d = dr_max d")
    case True
    obtain r1 where r1: "parse_val T call t (skip_char CHR ''('' (sval_to_str T (dr_min d) @ r)) = (dr_min d, r1)"
      "skip_char CHR '')'' r1 = r" using reads_val [OF t ty(1) r', of T call] by (auto simp: reads_def)
    have "show_range T d = sval_to_str T (dr_min d)" using True show_range_int [OF t d] by simp
    then have "str_to_rl_loop T call t pm mn mx rl (show_range T d @ r) = (if r = [] then (add_range (project T) rl (dr_min d) (dr_min d), r)
        else str_to_rl_loop T call t pm (dr_min d) (dr_min d) (add_range (project T) rl (dr_min d) (dr_min d)) (tl r))"
      using end_r by (subst str_to_rl_loop.simps) (simp add: first Let_def r1 fits add)
    then show ?thesis using r True loop_end [of T call t] by (cases "r = []") (auto simp: skip_char_def peek_def)
  next
    case False
    let ?s = "CHR ''-'' # sval_to_str T (dr_max d) @ r"
    have s: "after_val ?s" "\<not> ended ?s" "peek ?s = CHR ''-''" by (auto simp: after_val_def ended_def peek_def)
    obtain r1 where r1: "parse_val T call t (skip_char CHR ''('' (sval_to_str T (dr_min d) @ ?s)) = (dr_min d, r1)"
      "skip_char CHR '')'' r1 = ?s" using reads_val [OF t ty(1) s(1), of T call] by (auto simp: reads_def)
    obtain r2 where r2: "parse_val T call t (skip_char CHR ''('' (sval_to_str T (dr_max d) @ r)) = (dr_max d, r2)"
      "skip_char CHR '')'' r2 = r" "peek r2 \<noteq> CHR ''+''" using reads_val [OF t ty(2) r', of T call] by (auto simp: reads_def)
    have "str_to_rl_loop T call t pm mn mx rl (show_range T d @ r) =
        str_to_rl_loop T call t (dr_max d) (dr_min d) (dr_max d) (add_range (project T) rl (dr_min d) (dr_max d)) (skip_char CHR '','' r)"
      using False by (subst str_to_rl_loop.simps) (simp add: show_range_int [OF t d] first Let_def r1 s r2 fits add)
    then show ?thesis by blast
  qed
qed

section \<open>Lists\<close>

text \<open>The text of a list without the bound of the buffer.\<close>

fun show_all :: "'e text_env \<Rightarrow> range_list \<Rightarrow> string" where
  "show_all T [] = []"
| "show_all T [d] = show_range T d"
| "show_all T (d # e # rl) = show_range T d @ '','' @ show_all T (e # rl)"

lemma loop_show_all:
  assumes "int_type_ok t" "\<forall>d \<in> set rl. range_ok t d"
  shows "str_to_rl_loop T call t pm mn mx acc (show_all T rl) =
    (foldl (\<lambda>ret tmp. add_range (project T) ret (dr_min tmp) (dr_max tmp)) acc rl, [])"
  using assms(2)
proof (induction T rl arbitrary: pm mn mx acc rule: show_all.induct)
  case (2 T d)
  then obtain pm' mn' mx' where "str_to_rl_loop T call t pm mn mx acc (show_range T d @ []) =
      str_to_rl_loop T call t pm' mn' mx' (add_range (project T) acc (dr_min d) (dr_max d)) (skip_char CHR '','' [])"
    using loop_range [OF assms(1), of d "[]" "[]" T call pm mn mx acc] by auto
  then show ?case by (simp add: skip_char_def peek_def loop_end)
next
  case (3 T d e rl)
  then obtain pm' mn' mx' where "str_to_rl_loop T call t pm mn mx acc (show_range T d @ CHR '','' # show_all T (e # rl)) =
      str_to_rl_loop T call t pm' mn' mx' (add_range (project T) acc (dr_min d) (dr_max d))
        (skip_char CHR '','' (CHR '','' # show_all T (e # rl)))"
    using loop_range [OF assms(1), of d "CHR '','' # show_all T (e # rl)" "show_all T (e # rl)" T call pm mn mx acc] by auto
  then show ?case using 3 by (simp add: skip_char_def peek_def)
qed (simp add: loop_end)

lemma show_all_text:
  assumes "int_type_ok t" "\<forall>d \<in> set rl. range_ok t d"
  shows "show_all T rl \<noteq> ''empty''" "take 4 (show_all T rl) \<noteq> ''[==$''"
proof -
  have "rl = [] \<or> (\<exists>v r. has_type t v \<and> show_all T rl = sval_to_str T v @ r)"
    using assms(2)
    by (cases "(T, rl)" rule: show_all.cases) (auto simp: show_range_int [OF assms(1)] range_ok_iff intro: exI [of _ "[]"])
  then have "show_all T rl = [] \<or> peek (show_all T rl) \<noteq> CHR ''e'' \<and> peek (show_all T rl) \<noteq> CHR ''[''"
    using val_text [OF assms(1), of _ T] by (auto simp: ended_def)
  then show "show_all T rl \<noteq> ''empty''" "take 4 (show_all T rl) \<noteq> ''[==$''" by (auto simp: peek_def split: list.splits)
qed

lemma parse_show_all:
  assumes t: "int_type_ok t" and rl: "rl_ok t rl"
  shows "str_to_rl T t (show_all T rl) = Some rl"
proof -
  have ok: "\<forall>d \<in> set rl. range_ok t d" using rl by (simp add: rl_ok_def)
  let ?r = "foldl (\<lambda>ret tmp. add_range (project T) ret (dr_min tmp) (dr_max tmp)) [] rl"
  have "?r = rl" using ar.add_ranges [OF t rl_ok_Nil ok, of "project T"] rl_ok_unique [OF _ rl] by auto
  then have "str_to_rl_helper T None t (show_all T rl) = (rl, [])"
    using loop_show_all [OF t ok, of T None] by (simp add: str_to_rl_helper_def)
  moreover have "t \<noteq> None" using t by (auto simp: int_type_ok_def arith_type_def)
  ultimately show ?thesis
    using show_all_text [OF t ok, of T] cast_rl_same [OF rl] rl_ok_sane [OF rl]
    by (auto simp: str_to_rl_def str_to_dinfo_def Let_def)
qed

section \<open>The buffer\<close>

lemma digits_length: "n < 10 ^ k \<Longrightarrow> 0 < k \<Longrightarrow> length (digits n) \<le> k"
proof (induction n arbitrary: k rule: digits.induct)
  case (1 n)
  show ?case
  proof (cases "n < 10")
    case True
    then show ?thesis using 1(3) by (simp add: digits.simps [of n])
  next
    case False
    then obtain j where j: "k = Suc j" "0 < j" using 1(2,3) by (cases k; cases "k - 1") auto
    then have "n div 10 < 10 ^ j" using 1(2) by (simp add: less_mult_imp_div_less mult.commute)
    then show ?thesis using 1(1) [OF False _ j(2)] False j by (simp add: digits.simps [of n])
  qed
qed

lemma print_length: "length (print_llu w) \<le> 20" "length (print_lld w) \<le> 20"
proof -
  have "unat w < 2 ^ 64" using unsigned_less [of w] by simp
  then have "unat w < 10 ^ 20" by (rule less_trans) simp
  then show "length (print_llu w) \<le> 20" unfolding print_llu_def by (rule digits_length) simp
  have "- (2 ^ 63) \<le> sint w" "sint w < 2 ^ 63" using sint64_bounds [of w] by simp_all
  moreover have "(2 :: int) ^ 63 < 10 ^ 19" by simp
  ultimately have "- sint w < 10 ^ 19" "sint w < 10 ^ 19" by linarith+
  then have "nat (- sint w) < 10 ^ 19" "nat (sint w) < 10 ^ 19" by (simp_all add: nat_less_iff)
  from this [THEN digits_length] show "length (print_lld w) \<le> 20" by (simp add: print_lld_def)
qed

lemma val_length:
  assumes "int_type_ok t" "has_type t v"
  shows "length (sval_to_str T v) \<le> 22"
  using print_length [of "sv_val v"] unfolding sval_to_str_int [OF assms] by simp

lemma range_length: "int_type_ok t \<Longrightarrow> range_ok t d \<Longrightarrow> length (show_range T d) \<le> 45"
  using val_length [of t "dr_min d" T] val_length [of t "dr_max d" T] by (simp add: show_range_int range_ok_iff)

lemma show_all_snoc: "qs \<noteq> [] \<Longrightarrow> show_all T (qs @ d # rl) = show_all T qs @ '','' @ show_all T (d # rl)"
proof (induction T qs rule: show_all.induct)
  case (2 T e)
  then show ?case by (cases rl) simp_all
qed simp_all

text \<open>The last range that is shown, up to the maximum of its type.\<close>

definition widen :: "ctype \<Rightarrow> data_range \<Rightarrow> data_range" where
  "widen t p = \<lparr>dr_min = dr_min p, dr_max = sval_type_max t\<rparr>"

text \<open>What is shown of a list: all of it, or a part of it with a wider last range.\<close>

definition shown :: "'e text_env \<Rightarrow> ctype \<Rightarrow> range_list \<Rightarrow> range_list \<Rightarrow> bool" where
  "shown T t rl res \<longleftrightarrow>
     res = rl \<or> (\<exists>qs p d ss. rl = qs @ p # d # ss \<and> qs \<noteq> [] \<and> res = qs @ [widen t p] \<and> 207 < length (show_all T (qs @ [p])))"

lemma widen_ok:
  assumes "int_type_ok t" "rl_ok t (qs @ p # d # ss)"
  shows "range_ok t (widen t p)" "dr_min p \<noteq> sval_type_max t" "rl_ok t (qs @ [widen t p])"
    "rl_set (qs @ p # d # ss) \<subseteq> rl_set (qs @ [widen t p])"
proof -
  have a: "arith_type t" using assms(1) by (simp add: int_type_ok_def)
  have p: "range_ok t p" "range_ok t d" "dhi p + 1 < dlo d" using assms(2) by (auto simp: rl_ok_def sorted_wrt_append)
  have hi: "dhi (widen t p) = type_hi t" "dlo (widen t p) = dlo p" "sval_int (sval_type_max t) = type_hi t"
    using sval_type_max_ok [OF a] by (simp_all add: widen_def)
  have "dlo d \<le> type_hi t" using p(2) has_typeD(6) by (auto simp: range_ok_iff)
  then have lt: "dlo p < type_hi t" using p by (auto simp: range_ok_def)
  then show "dr_min p \<noteq> sval_type_max t" using hi by auto
  show w: "range_ok t (widen t p)" using p(1) lt hi a by (auto simp: range_ok_iff widen_def)
  show "rl_ok t (qs @ [widen t p])" using assms(2) w hi by (auto simp: rl_ok_def sorted_wrt_append)
  have "rset x \<subseteq> rset (widen t p)" if "x \<in> set (p # d # ss)" for x
  proof -
    have "range_ok t x" "dlo p \<le> dlo x" using that assms(2) p by (fastforce simp: rl_ok_def sorted_wrt_append range_ok_def)+
    then show ?thesis using hi has_typeD(6) by (fastforce simp: rset_def range_ok_iff)
  qed
  then show "rl_set (qs @ p # d # ss) \<subseteq> rl_set (qs @ [widen t p])" by (auto simp: rl_set_def)
qed

text \<open>The loop has shown a part of the list; the text stays within the buffer.\<close>

lemma show_loop_shape:
  assumes "int_type_ok t" "rl_ok t (qs @ p # rl)"
    and "out = show_all T (qs @ [p])" "n = length (show_all T qs)" "n \<le> 207" "length out \<le> 253"
  shows "\<exists>res. shown T t (qs @ p # rl) res \<and> show_rl_loop T (Some (p, n)) out rl = show_all T res \<and> length (show_all T res) \<le> 253"
  using assms(2-6)
proof (induction rl arbitrary: qs p out n)
  case Nil
  then show ?case by (intro exI [of _ "qs @ [p]"]) (simp add: shown_def)
next
  case (Cons d rl)
  have p: "range_ok t p" "range_ok t d" using Cons.prems(1) by (auto simp: rl_ok_def)
  show ?case
  proof (cases "length out + 48 > 255")
    case True
    then have qs: "qs \<noteq> []" using Cons.prems(2) range_length [OF assms(1) p(1), of T] by auto
    note w = widen_ok [OF assms(1) Cons.prems(1)]
    have "dr_min (widen t p) \<noteq> dr_max (widen t p)" "sv_type (dr_min p) = t" using w(2) p(1) by (auto simp: widen_def range_ok_def)
    then have text_p: "show_range T (widen t p) = sval_to_str T (dr_min p) @ ''-'' @ sval_to_str T (sval_type_max t)"
      using show_range_int [OF assms(1) w(1), of T] by (simp add: widen_def)
    have "take n out = show_all T qs" using Cons.prems(2,3) show_all_snoc [OF qs, of T p "[]"] by simp
    then have "show_rl_loop T (Some (p, n)) out (d # rl) = show_all T (qs @ [widen t p])"
      using True text_p \<open>sv_type (dr_min p) = t\<close> show_all_snoc [OF qs, of T "widen t p" "[]"] by simp
    moreover have "length (show_all T (qs @ [widen t p])) \<le> 253"
      using range_length [OF assms(1) w(1), of T] Cons.prems(3,4) show_all_snoc [OF qs, of T "widen t p" "[]"] by simp
    moreover have "shown T t (qs @ p # d # rl) (qs @ [widen t p])" using True qs Cons.prems(2) by (auto simp: shown_def)
    ultimately show ?thesis by blast
  next
    case False
    have next_out: "out @ CHR '','' # show_range T d = show_all T ((qs @ [p]) @ [d])"
      using Cons.prems(2) show_all_snoc [of "qs @ [p]" T d "[]"] by simp
    have "length (out @ CHR '','' # show_range T d) \<le> 253" using False range_length [OF assms(1) p(2), of T] by simp
    from Cons.IH [OF _ next_out _ _ this, of "length out"] Cons.prems(1,2) False show ?thesis by simp
  qed
qed

lemma show_rl_shape:
  assumes "int_type_ok t" "rl_ok t rl"
  shows "\<exists>res. shown T t rl res \<and> show_rl T rl = show_all T res"
proof (cases rl)
  case Nil
  then show ?thesis by (auto simp: shown_def show_rl_def)
next
  case (Cons d ds)
  then have "length (show_range T d) \<le> 45" using range_length [OF assms(1)] assms(2) by (auto simp: rl_ok_def)
  then show ?thesis
    using show_loop_shape [OF assms(1), of "[]" d ds "show_range T d" T 0] assms(2) Cons by (auto simp: show_rl_def)
qed

text \<open>A text that fits shows the whole list.\<close>

lemma shown_all:
  assumes "shown T t rl res" "length (show_all T rl) \<le> 207"
  shows "res = rl"
proof (rule ccontr)
  assume "res \<noteq> rl"
  then obtain qs p d ss where "rl = (qs @ [p]) @ d # ss" "207 < length (show_all T (qs @ [p]))"
    using assms(1) by (auto simp: shown_def)
  then show False using assms(2) show_all_snoc [of "qs @ [p]" T d ss] by simp
qed

lemma parse_show_rl:
  assumes t: "int_type_ok t" and rl: "rl_ok t rl"
  shows "\<exists>res. str_to_rl T t (show_rl T rl) = Some res \<and> rl_ok t res \<and> rl_set rl \<subseteq> rl_set res
    \<and> (length (show_all T rl) \<le> 207 \<longrightarrow> res = rl)"
proof -
  obtain res where res: "shown T t rl res" "show_rl T rl = show_all T res" using show_rl_shape [OF assms] by blast
  then have "rl_ok t res \<and> rl_set rl \<subseteq> rl_set res" using rl widen_ok(3,4) [OF t] unfolding shown_def by blast
  then show ?thesis using parse_show_all [OF t, of res T] res shown_all by auto
qed

end
