(* ===== verification/Estate_Facts.thy ===== *)
theory Estate_Facts
  imports Estate Range_Text_Facts
begin

text \<open>
  Merging the states of two paths keeps every value of either path, and only the relations and bounds
  that both have.
\<close>

section \<open>Related variables\<close>

definition rel_key :: "relation \<Rightarrow> int \<times> string" where
  "rel_key r = (- int (rel_sym r), rel_name r)"

lemma rel_key_inject: "rel_key a = rel_key b \<longleftrightarrow> a = b"
  by (cases a; cases b) (auto simp: rel_key_def)

lemma cmp_relation_key: "cmp_relation a b < 0 \<longleftrightarrow> rel_key a < rel_key b" "cmp_relation a b = 0 \<longleftrightarrow> a = b"
proof -
  show "cmp_relation a b < 0 \<longleftrightarrow> rel_key a < rel_key b"
    by (auto simp: cmp_relation_def rel_key_def less_prod_def strcmp_cmp3)
  have "cmp_relation a b = 0 \<longleftrightarrow> rel_key a = rel_key b"
    by (auto simp: cmp_relation_def rel_key_def strcmp_cmp3)
  then show "cmp_relation a b = 0 \<longleftrightarrow> a = b" by (simp add: rel_key_inject)
qed

definition rel_sorted :: "relation list \<Rightarrow> bool" where
  "rel_sorted rs \<longleftrightarrow> sorted_wrt (\<lambda>a b. rel_key a < rel_key b) rs"

lemma rel_sorted_simps [simp]:
  "rel_sorted []" "rel_sorted (a # as) \<longleftrightarrow> (\<forall>b \<in> set as. rel_key a < rel_key b) \<and> rel_sorted as"
  by (simp_all add: rel_sorted_def)

lemma shared_relations:
  assumes "rel_sorted as" "rel_sorted bs"
  shows "set (get_shared_relations as bs) = set as \<inter> set bs \<and> rel_sorted (get_shared_relations as bs)"
  using assms
proof (induction as bs rule: get_shared_relations.induct)
  case (1 a as b bs)
  consider "rel_key a < rel_key b" | "a = b" | "rel_key b < rel_key a" using rel_key_inject [of a b] by fastforce
  then show ?case
  proof cases
    case 1
    then have "a \<notin> set (b # bs)" using "1.prems"(2) by auto
    with 1 "1.IH"(1) "1.prems" show ?thesis by (auto simp: cmp_relation_key)
  next
    case 2
    then have "a \<notin> set as" "a \<notin> set bs" using "1.prems" by auto
    with 2 "1.IH"(2) "1.prems" show ?thesis by (auto simp: cmp_relation_key)
  next
    case 3
    then have "b \<notin> set (a # as)" using "1.prems"(1) by auto
    with 3 "1.IH"(3) "1.prems" show ?thesis by (auto simp: cmp_relation_key)
  qed
qed auto

lemma add_related_set:
  assumes "rel_sorted rs"
  shows "set (add_related rs nm sy) = insert (alloc_relation nm sy) (set rs) \<and> rel_sorted (add_related rs nm sy)"
  using assms
proof (induction rs nm sy rule: add_related.induct)
  case (2 r rs nm sy)
  consider "rel_key r < rel_key (alloc_relation nm sy)" | "r = alloc_relation nm sy" | "rel_key (alloc_relation nm sy) < rel_key r"
    using rel_key_inject [of r "alloc_relation nm sy"] by fastforce
  then show ?case using 2 by cases (auto simp: cmp_relation_key Let_def)
qed simp

lemma rlists_equiv_eq: "rlists_equiv as bs \<longleftrightarrow> as = bs"
  by (induction as bs rule: rlists_equiv.induct) (auto simp: strcmp_cmp3 rel_key_inject [symmetric] rel_key_def)

section \<open>Names\<close>

text \<open>The name of a state is the text of its values; there are two names for a state without values.\<close>

definition estate_ok :: "'e text_env \<Rightarrow> ctype \<Rightarrow> estate \<Rightarrow> bool" where
  "estate_ok T t s \<longleftrightarrow>
     rl_ok t (estate_rl (Some s)) \<and> rel_sorted (estate_related (Some s))
     \<and> (if estate_rl (Some s) = [] then st_name s = Some '''' \<or> st_name s = Some ''empty''
        else st_name s = Some (show_rl T (estate_rl (Some s))))"

text \<open>The text of the values is short enough to be shown.\<close>

definition shown_whole :: "'e text_env \<Rightarrow> estate \<Rightarrow> bool" where
  "shown_whole T s \<longleftrightarrow> length (show_all T (estate_rl (Some s))) \<le> 207"

lemma show_rl_fits:
  assumes "int_type_ok t" "rl_ok t rl" "length (show_all T rl) \<le> 207"
  shows "show_rl T rl = show_all T rl"
  using show_rl_shape [OF assms(1,2), of T] shown_all assms(3) by metis

lemma show_all_empty:
  assumes "int_type_ok t" "rl_ok t rl" "show_all T rl = []"
  shows "rl = []"
proof -
  have "str_to_rl T t [] = Some []" using parse_show_all [OF assms(1) rl_ok_Nil, of T] by simp
  then show ?thesis using parse_show_all [OF assms(1,2), of T] assms(3) by simp
qed

lemma name_of_values:
  assumes t: "int_type_ok t" and ok: "estate_ok T t s" and whole: "shown_whole T s"
  shows "estate_rl (Some s) = [] \<longleftrightarrow> st_name s = Some '''' \<or> st_name s = Some ''empty''"
    "estate_rl (Some s) \<noteq> [] \<Longrightarrow> st_name s = Some (show_all T (estate_rl (Some s)))"
proof -
  let ?a = "estate_rl (Some s)"
  have rl: "rl_ok t ?a" using ok by (simp add: estate_ok_def)
  have plain: "show_rl T ?a = show_all T ?a" using show_rl_fits [OF t rl] whole by (simp add: shown_whole_def)
  show named: "st_name s = Some (show_all T ?a)" if "?a \<noteq> []" using ok that plain by (simp add: estate_ok_def)
  have "show_all T ?a \<noteq> [] \<and> show_all T ?a \<noteq> ''empty''" if "?a \<noteq> []"
    using that show_all_empty [OF t rl] show_all_text(1) [OF t, of ?a T] rl by (auto simp: rl_ok_def)
  then show "?a = [] \<longleftrightarrow> st_name s = Some '''' \<or> st_name s = Some ''empty''"
    using named ok unfolding estate_ok_def by (metis option.inject)
qed

lemma name_decides_values:
  assumes t: "int_type_ok t" and ok: "estate_ok T t s1" "estate_ok T t s2" and whole: "shown_whole T s1" "shown_whole T s2"
    and same: "st_name s1 = st_name s2"
  shows "estate_rl (Some s1) = estate_rl (Some s2)"
proof (cases "estate_rl (Some s1) = []")
  case True
  then show ?thesis using name_of_values(1) [OF t ok(1) whole(1)] name_of_values(1) [OF t ok(2) whole(2)] same by metis
next
  case False
  then have "estate_rl (Some s2) \<noteq> []"
    using name_of_values(1) [OF t ok(1) whole(1)] name_of_values(1) [OF t ok(2) whole(2)] same by metis
  with False have "show_all T (estate_rl (Some s1)) = show_all T (estate_rl (Some s2))"
    using name_of_values(2) [OF t ok(1) whole(1)] name_of_values(2) [OF t ok(2) whole(2)] same by simp
  moreover have "rl_ok t (estate_rl (Some s1))" "rl_ok t (estate_rl (Some s2))" using ok by (simp_all add: estate_ok_def)
  ultimately show ?thesis using parse_show_all [OF t, of _ T] by (metis option.inject)
qed

section \<open>Merging\<close>

text \<open>The conditional updates of a state, as updates.\<close>

lemma set_related_upd: "set_related s rs = s\<lparr>dinfo := (dinfo s)\<lparr>related := rs\<rparr>\<rparr>"
  by (auto simp: set_related_def estate_related_def)

lemma flag_upds:
  "(if q then estate_set_capped s else s) = s\<lparr>dinfo := (dinfo s)\<lparr>capped := q \<or> capped (dinfo s)\<rparr>\<rparr>"
  "(if q then estate_set_treat_untagged s else s) = s\<lparr>dinfo := (dinfo s)\<lparr>treat_untagged := q \<or> treat_untagged (dinfo s)\<rparr>\<rparr>"
  "(if q then estate_set_assigned s else s) = s\<lparr>dinfo := (dinfo s)\<lparr>assigned := q \<or> assigned (dinfo s)\<rparr>\<rparr>"
  "(if q then estate_set_new s else s) = s\<lparr>dinfo := (dinfo s)\<lparr>new_set := q \<or> new_set (dinfo s)\<rparr>\<rparr>"
  by (simp_all add: estate_set_capped_def estate_set_treat_untagged_def estate_set_assigned_def estate_set_new_def)

lemma hard_max_upd:
  assumes "\<not> is_ptr_type (estate_type (Some s))"
  shows "(if q then estate_set_hard_max s else s) = s\<lparr>dinfo := (dinfo s)\<lparr>hard_max := q \<or> hard_max (dinfo s)\<rparr>\<rparr>"
  using assms by (simp add: estate_set_hard_max_def)

lemma fuzzy_max_upd: "\<exists>v'. estate_set_fuzzy_max s v = s\<lparr>dinfo := (dinfo s)\<lparr>fuzzy_max := v'\<rparr>\<rparr>"
proof -
  have "s = s\<lparr>dinfo := (dinfo s)\<lparr>fuzzy_max := fuzzy_max (dinfo s)\<rparr>\<rparr>" by simp
  then show ?thesis unfolding estate_set_fuzzy_max_def by metis
qed

definition merged_hard_max :: "estate option \<Rightarrow> estate option \<Rightarrow> bool" where
  "merged_hard_max s1 s2 \<longleftrightarrow>
     estate_has_hard_max s1 \<and> (estate_rl s2 = [] \<or> estate_has_hard_max s2)
     \<or> estate_has_hard_max s2 \<and> (estate_rl s1 = [] \<or> estate_has_hard_max s1)"

text \<open>The state that is made when the two are not equivalent.\<close>

lemma merge_estates_new:
  fixes T :: "'e text_env"
  assumes t: "int_type_ok t" and rl: "rl_ok t (estate_rl s1)" "rl_ok t (estate_rl s2)" and ne: "\<not> estates_equiv s1 s2"
  defines "u \<equiv> rl_union (project T) (estate_rl s1) (estate_rl s2)"
  shows "\<exists>m. merge_estates T a s1 s2 = Some m \<and> estate_rl (Some m) = u
    \<and> estate_related (Some m) = get_shared_relations (estate_related s1) (estate_related s2)
    \<and> st_name m = Some (if u = [] then ''empty'' else show_rl T u)
    \<and> hard_max (dinfo m) = merged_hard_max s1 s2 \<and> capped (dinfo m) = merged_capped s1 s2
    \<and> treat_untagged (dinfo m) = (estate_treat_untagged s1 \<and> estate_treat_untagged s2)
    \<and> new_set (dinfo m) = (estate_new s1 \<or> estate_new s2)"
proof -
  let ?tmp = "alloc_estate_rl T a u"
  have d: "dinfo ?tmp = alloc_dinfo\<lparr>value_ranges := u\<rparr>" "st_name ?tmp = Some (if u = [] then ''empty'' else show_rl T u)"
    by (simp_all add: alloc_estate_rl_def extra_empty_def mk_estate_def alloc_dinfo_range_list_def alloc_dinfo_def)
  have "rl_ok t u" using rl_union_spec [OF t rl] by (simp add: u_def)
  then have "u = [] \<or> sv_type (rl_max u) = t" by (cases u) (auto simp: rl_ok_def range_ok_def rl_max_def)
  moreover have "\<not> is_ptr_type (Some llong_ctype)" "\<not> is_ptr_type t" using t by (simp_all add: int_type_ok_def)
  ultimately have "\<not> is_ptr_type (sv_type (rl_max u))" by (auto simp: rl_max_def mk_sval_def)
  then have np: "\<not> is_ptr_type (estate_type (Some (?tmp\<lparr>dinfo := (dinfo ?tmp)\<lparr>related := rs\<rparr>\<rparr>)))" for rs
    by (simp add: estate_type_def estate_rl_def d)
  let ?s = "?tmp\<lparr>dinfo := (dinfo ?tmp)\<lparr>related := get_shared_relations (estate_related s1) (estate_related s2)\<rparr>\<rparr>"
  let ?h = "?s\<lparr>dinfo := (dinfo ?s)\<lparr>hard_max := merged_hard_max s1 s2 \<or> hard_max (dinfo ?s)\<rparr>\<rparr>"
  obtain v where "estate_set_fuzzy_max ?h (sval_max (estate_get_fuzzy_max s1) (estate_get_fuzzy_max s2))
      = ?h\<lparr>dinfo := (dinfo ?h)\<lparr>fuzzy_max := v\<rparr>\<rparr>" using fuzzy_max_upd by blast
  with ne d show ?thesis
    unfolding merge_estates_def Let_def set_related_upd flag_upds hard_max_upd [OF np] u_def [symmetric] merged_hard_max_def [symmetric]
    by (simp add: estate_rl_def estate_related_def alloc_dinfo_def)
qed

text \<open>Two equivalent states have the same values, relations and flags.\<close>

lemma equivalent_estates:
  assumes t: "int_type_ok t" and ok: "estate_ok T t s1" "estate_ok T t s2" and whole: "shown_whole T s1" "shown_whole T s2"
    and addr: "st_addr s1 = st_addr s2 \<longrightarrow> s1 = s2" and eq: "estates_equiv (Some s1) (Some s2)"
  shows "estate_rl (Some s1) = estate_rl (Some s2) \<and> estate_related (Some s1) = estate_related (Some s2)
    \<and> estate_capped (Some s1) = estate_capped (Some s2) \<and> estate_treat_untagged (Some s1) = estate_treat_untagged (Some s2)
    \<and> estate_has_hard_max (Some s1) = estate_has_hard_max (Some s2) \<and> estate_new (Some s1) = estate_new (Some s2)"
proof (cases "st_addr s1 = st_addr s2")
  case True
  with addr show ?thesis by simp
next
  case False
  obtain n1 n2 where n: "st_name s1 = Some n1" "st_name s2 = Some n2"
    using ok unfolding estate_ok_def by (metis)
  then have "st_name s1 = st_name s2" using eq False by (simp add: estates_equiv_def strcmp_cmp3)
  then have "estate_rl (Some s1) = estate_rl (Some s2)" using name_decides_values [OF t ok whole] by simp
  with eq False show ?thesis by (simp add: estates_equiv_def rlists_equiv_eq)
qed

text \<open>The flags of the merged state, when the merge makes a new state.\<close>

lemma merged_flags:
  assumes "estate_rl (Some m) = [] \<longleftrightarrow> estate_rl s1 = [] \<and> estate_rl s2 = []"
    and "s1 \<noteq> None" "s2 \<noteq> None"
    and "hard_max (dinfo m) = merged_hard_max s1 s2" "capped (dinfo m) = merged_capped s1 s2"
    and "treat_untagged (dinfo m) = (estate_treat_untagged s1 \<and> estate_treat_untagged s2)"
    and "new_set (dinfo m) = (estate_new s1 \<or> estate_new s2)"
  shows "estate_has_hard_max (Some m) = merged_hard_max s1 s2" "estate_capped (Some m) = merged_capped s1 s2"
    "estate_treat_untagged (Some m) = (estate_treat_untagged s1 \<and> estate_treat_untagged s2)"
    "estate_new (Some m) = (estate_new s1 \<or> estate_new s2)"
  using assms
  by (auto simp: estate_has_hard_max_def merged_hard_max_def estate_capped_def merged_capped_def estate_treat_untagged_def
      estate_new_def split: option.splits)

lemma merge_estates_spec:
  assumes t: "int_type_ok t" and ok: "estate_ok T t s1" "estate_ok T t s2" and whole: "shown_whole T s1" "shown_whole T s2"
    and addr: "st_addr s1 = st_addr s2 \<longrightarrow> s1 = s2"
  shows "\<exists>m. merge_estates T a (Some s1) (Some s2) = Some m \<and> estate_ok T t m
    \<and> rl_set (estate_rl (Some m)) = rl_set (estate_rl (Some s1)) \<union> rl_set (estate_rl (Some s2))
    \<and> set (estate_related (Some m)) = set (estate_related (Some s1)) \<inter> set (estate_related (Some s2))
    \<and> estate_has_hard_max (Some m) = merged_hard_max (Some s1) (Some s2)
    \<and> estate_capped (Some m) = merged_capped (Some s1) (Some s2)
    \<and> estate_treat_untagged (Some m) = (estate_treat_untagged (Some s1) \<and> estate_treat_untagged (Some s2))
    \<and> estate_new (Some m) = (estate_new (Some s1) \<or> estate_new (Some s2))"
proof (cases "estates_equiv (Some s1) (Some s2)")
  case True
  then have "merge_estates T a (Some s1) (Some s2) = Some s1" by (simp add: merge_estates_def)
  with equivalent_estates [OF t ok whole addr True] ok(1) show ?thesis
    by (auto simp: merged_hard_max_def merged_capped_def estate_capped_def estate_has_hard_max_def)
next
  case False
  let ?u = "rl_union (project T) (estate_rl (Some s1)) (estate_rl (Some s2))"
  have rl: "rl_ok t (estate_rl (Some s1))" "rl_ok t (estate_rl (Some s2))" using ok by (simp_all add: estate_ok_def)
  note u = rl_union_spec [OF t rl, of "project T"]
  have sh: "set (get_shared_relations (estate_related (Some s1)) (estate_related (Some s2)))
      = set (estate_related (Some s1)) \<inter> set (estate_related (Some s2))
      \<and> rel_sorted (get_shared_relations (estate_related (Some s1)) (estate_related (Some s2)))"
    using shared_relations ok by (simp add: estate_ok_def)
  obtain m where m: "merge_estates T a (Some s1) (Some s2) = Some m" "estate_rl (Some m) = ?u"
      "estate_related (Some m) = get_shared_relations (estate_related (Some s1)) (estate_related (Some s2))"
      "st_name m = Some (if ?u = [] then ''empty'' else show_rl T ?u)"
      "hard_max (dinfo m) = merged_hard_max (Some s1) (Some s2)" "capped (dinfo m) = merged_capped (Some s1) (Some s2)"
      "treat_untagged (dinfo m) = (estate_treat_untagged (Some s1) \<and> estate_treat_untagged (Some s2))"
      "new_set (dinfo m) = (estate_new (Some s1) \<or> estate_new (Some s2))"
    using merge_estates_new [OF t rl False, of T a] by blast
  have "estate_rl (Some m) = [] \<longleftrightarrow> estate_rl (Some s1) = [] \<and> estate_rl (Some s2) = []"
    using u rl_set_empty_iff [of t ?u] rl_set_empty_iff [OF rl(1)] rl_set_empty_iff [OF rl(2)] m(2) by auto
  note flags = merged_flags [OF this _ _ m(5-8)]
  have "estate_ok T t m" using u sh m(2-4) by (simp add: estate_ok_def)
  then show ?thesis using u sh m(1-3) flags by simp
qed

section \<open>A program without calls\<close>

text \<open>An instance of the parameters: no floating value is read, there are no calls and nothing is implied.\<close>

definition no_calls :: "unit text_env" where
  "no_calls =
     \<lparr>project = PROJ_KERNEL, fp_to_str = (\<lambda>_. ''0.0''), strto_fp = (\<lambda>_ _. (0, 0)), is_call = (\<lambda>_. False),
      get_argument = (\<lambda>_ _. None), gen_expression_from_key = (\<lambda>_ _. None), get_implied_min = (\<lambda>_. None),
      get_implied_max = (\<lambda>_. None), get_implied_rl = (\<lambda>_. None), db_return_vals_no_args = (\<lambda>_. None),
      parse_call_math_rl = (\<lambda>_ _. None)\<rparr>"

text \<open>A new state is named by its values and has no relations.\<close>

lemma alloc_estate_rl_sel [simp]:
  "estate_rl (Some (alloc_estate_rl T a rl)) = rl" "st_addr (alloc_estate_rl T a rl) = a"
  "estate_related (Some (alloc_estate_rl T a rl)) = []"
  by (simp_all add: estate_rl_def estate_related_def alloc_estate_rl_def extra_empty_def mk_estate_def
      alloc_dinfo_range_list_def alloc_dinfo_def)

lemma alloc_estate_rl_ok: "rl_ok t rl \<Longrightarrow> estate_ok T t (alloc_estate_rl T a rl)"
  by (simp add: estate_ok_def) (simp add: alloc_estate_rl_def extra_empty_def mk_estate_def)

end
