(* ===== verification/Spec2Isabelle.thy ===== *)
theory Spec2Isabelle
  imports Concrete Range_Fuel Range_Math_Facts Comparison_Env Function_Balance Estate_Facts
begin

text \<open>
  Verification of the value and state machinery and of the flow engine of smatch, a flow-sensitive
  static analyser for C built on the sparse front end.

  \<^bold>\<open>The program.\<close> smatch walks the syntax trees of a C function path by path. For every variable it
  keeps the set of values the variable may have on the current path. Seven layers carry this, and
  the development models them in this order.

  \<^item> \<^emph>\<open>Typed values\<close> (\<^verbatim>\<open>src/smatch_sval.c\<close>, \<^verbatim>\<open>src/smatch_type.c\<close>, \<^verbatim>\<open>src/symbol.h\<close>): a 64-bit word with
    a C type. Theory \<^verbatim>\<open>Ctype\<close> has the type symbols (record \<open>symbol\<close>, the built-in types) and the type
    predicates; \<^verbatim>\<open>Sval\<close> has the record \<open>sval\<close> with conversion, comparison, arithmetic and the
    overflow tests; \<^verbatim>\<open>Sval_Facts\<close> gives a value its mathematical integer \<open>sval_int\<close> and proves what
    the operations compute for it.
  \<^item> \<^emph>\<open>Range lists\<close> (\<^verbatim>\<open>src/smatch_ranges.c\<close>): sorted lists of closed intervals of values. \<^verbatim>\<open>Ranges\<close> has
    construction, conversion, set operations, comparison tests, filtering and splitting;
    \<^verbatim>\<open>Range_Math\<close> has the arithmetic \<open>rl_binop\<close>. \<^verbatim>\<open>Range_Facts\<close> defines the denotation \<open>rl_set\<close> and the
    invariant \<open>rl_ok\<close> and states the contract of \<open>add_range\<close> as the locale \<open>range_adder\<close>;
    \<^verbatim>\<open>Range_Sets\<close>, \<^verbatim>\<open>Range_Cast\<close>, \<^verbatim>\<open>Range_Cmp\<close>, \<^verbatim>\<open>Range_Fuel\<close> and \<^verbatim>\<open>Range_Math_Facts\<close> prove the set
    operations, the conversions, the comparisons, the depth bound and the arithmetic (locale
    \<open>range_op\<close>, one interpretation per operator) over it. \<^verbatim>\<open>Concrete\<close> builds concrete lists.
  \<^item> \<^emph>\<open>Comparisons between variables\<close> (\<^verbatim>\<open>src/smatch_comparison.c\<close>): \<^verbatim>\<open>Comparison\<close> has the algebra of
    comparison codes and the updates of stored comparisons, \<^verbatim>\<open>Comparison_Env\<close> their meaning over the
    values of the variables.
  \<^item> \<^emph>\<open>States of a path\<close> (\<^verbatim>\<open>src/smatch_slist.c\<close>, \<^verbatim>\<open>src/avl.c\<close>): \<^verbatim>\<open>Tracker\<close> has the records of a state and
    the order on their keys, \<^verbatim>\<open>Avl\<close> the balanced trees and their iterator, \<^verbatim>\<open>Stree\<close> the reference-counted
    trees in a store, so that sharing and copy-on-write are visible, \<^verbatim>\<open>Slist\<close> the operations on
    states, trees and stacks of trees. \<^verbatim>\<open>Avl_Facts\<close> proves the trees a refinement of sorted lists,
    \<^verbatim>\<open>Stree_Facts\<close> the store a refinement of a family of finite maps (locale \<open>shared_maps\<close>),
    \<^verbatim>\<open>Slist_Facts\<close> and \<^verbatim>\<open>Slist_Merge\<close> the laws of the operations above them.
  \<^item> \<^emph>\<open>States of values\<close> (\<^verbatim>\<open>src/smatch_estate.c\<close>, \<^verbatim>\<open>src/smatch_equiv.c\<close> and the text functions of
    \<^verbatim>\<open>src/smatch_ranges.c\<close> and \<^verbatim>\<open>src/smatch_sval.c\<close>): a state carries a range list and is named by the text of
    it. \<^verbatim>\<open>Decimal\<close> has the text of numbers, \<^verbatim>\<open>Range_Text\<close> printing (\<open>show_rl\<close>) and parsing (\<open>str_to_rl\<close>), with
    the answers of the rest of the program in the record \<open>text_env\<close>, \<^verbatim>\<open>Estate\<close> the states, their
    equivalence and their merge. \<^verbatim>\<open>Range_Text_Facts\<close> proves that parsing inverts printing, up to the size
    of the buffer, and \<^verbatim>\<open>Estate_Facts\<close> that a name decides the values and what a merge computes.
  \<^item> \<^emph>\<open>The state of the analysis\<close> (\<^verbatim>\<open>src/smatch_states.c\<close>, \<^verbatim>\<open>src/smatch_slist.c\<close>): the current tree and the
    stacks of trees for open conditions, branches, loops, switches and gotos. \<^verbatim>\<open>States\<close> has the record
    \<open>machine\<close> of all static variables with the store of trees, and the operations that read and set a
    state; \<^verbatim>\<open>Stree_Merge\<close> the merge of two trees, with the hooks of the checkers as an argument (record
    \<open>env\<close>); \<^verbatim>\<open>Flow_States\<close> the operations of the control flow. \<^verbatim>\<open>Holders\<close> counts the pointers to a tree
    (locale \<open>owned_maps\<close>) and \<^verbatim>\<open>States_Repr\<close> relates the machine to stacks of finite maps by \<open>repr\<close>, with one
    interpretation of the locale \<open>stack_field\<close> for each stack. \<^verbatim>\<open>States_Facts\<close> and \<^verbatim>\<open>Flow_Facts\<close> prove that
    the operations compute on those maps what their specifications say, \<^verbatim>\<open>Merge_Facts\<close>, \<^verbatim>\<open>Merge_Join\<close> and
    \<^verbatim>\<open>Merge_Paths\<close> what a merge computes, and \<^verbatim>\<open>State_Safety\<close>, \<^verbatim>\<open>Safe_Operations\<close> and \<^verbatim>\<open>Safe_Runs\<close> that every
    sequence of operations (\<open>op\<close> of \<^verbatim>\<open>State_Ops\<close>) runs and keeps the invariant \<open>good\<close>; \<^verbatim>\<open>Stack_Levels\<close> says what
    each operation does to the depths of the stacks.
  \<^item> \<^emph>\<open>The flow engine\<close> (\<^verbatim>\<open>src/smatch_flow.c\<close>, \<^verbatim>\<open>src/smatch_conditions.c\<close>, \<^verbatim>\<open>src/smatch_helper.c\<close>): the walk over
    the syntax trees, which calls the checkers and moves the states through the stacks above.
    \<^verbatim>\<open>Parse_Tree\<close> has the trees (datatypes \<open>expr\<close> and \<open>stmt\<close>), \<^verbatim>\<open>Conditions\<close> the records \<open>flow\<close> (the static
    variables) and \<open>world\<close> (what the walk asks of the rest of the program) and the parts of conditions,
    \<^verbatim>\<open>Flow\<close> branches, loops and switches, \<^verbatim>\<open>Flow_Walk\<close> expressions, assignments, gotos, the recursion
    (\<open>split_conditions\<close>, \<open>split_expr\<close>, \<open>parse_assignment\<close>, \<open>split_stmt\<close> and their lists) and \<open>split_function\<close>.
    The functions of \<^verbatim>\<open>Conditions\<close> and \<^verbatim>\<open>Flow\<close> take the walks over the parts as arguments, so that each has a
    contract of its own. \<^verbatim>\<open>Flow_Balance\<close> states the contract of an operation as the locale \<open>flow_step\<close>
    (\<open>level_step\<close> where the depths stay), interpreted on every operation, and the assumptions \<open>world_ok\<close> on
    the checkers; \<^verbatim>\<open>Tree_Steps\<close>, \<^verbatim>\<open>Cond_Balance\<close>, \<^verbatim>\<open>Select_Balance\<close>, \<^verbatim>\<open>Stmt_Balance\<close>, \<^verbatim>\<open>Switch_Balance\<close> and
    \<^verbatim>\<open>Expr_Balance\<close> prove the contracts \<open>cond_ok\<close>, \<open>stmt_ok\<close> and \<open>expr_ok\<close> of the parts, \<^verbatim>\<open>Walk_Balance\<close> those of the
    recursion for well-formed trees (\<open>wf_stmt\<close>), and \<^verbatim>\<open>Function_Balance\<close> the analysis of a function.

  \<^bold>\<open>Conventions.\<close> NULL range lists are the empty list; a symbol is its address, and 0 is NULL. Errors
  are values: a trapping division, a missing tree or an empty stack is the result None. The words
  are 64 bits wide and wrap as in C. Strings are compared as \<^verbatim>\<open>strcmp\<close> does. Allocation is explicit
  where addresses are compared.

  \<^bold>\<open>Bounds.\<close> \<^verbatim>\<open>add_range\<close>, \<^verbatim>\<open>cast_rl\<close> and \<^verbatim>\<open>alloc_whole_rl\<close> call each other; the model bounds the depth of
  these calls by 6, and C8 shows that for lists of integer types every larger bound gives the same
  result. The loops of the iterator and of \<^verbatim>\<open>rl_equiv\<close> are bounded by the sizes of their trees and
  lists. The walk over a function may start over at the label of a goto at its end; the number
  that bounds this is 1, and C39 and C40 show that the walk never runs out of it. Everything else is total.

  \<^bold>\<open>Theorems.\<close> C1 to C8: range lists denote sets of integers and the operations are the set
  operations; conversions cover every converted value, with the one exception characterised. C9
  and C10: range arithmetic, where it covers every result and where it does not. C11 to C16:
  comparisons of ranges. C17: the text of range lists. C18 to C21: typed values. C22 to C25: comparisons
  between variables.
  C26 to C33: state trees, their sharing, stacks of trees and the merge of states. C34: the merge of the
  states of values. C35 to C38: the state of the analysis. C39 and C40: the walk over a function
  returns and keeps the stacks in balance.

  \<^bold>\<open>Not modelled.\<close> The front end (tokenizer, preprocessor, parser, type evaluation), the linearizer
  and the back ends of sparse, which smatch's analysis does not use; the evaluation of expressions
  (\<^verbatim>\<open>src/smatch_extra.c\<close>, \<^verbatim>\<open>src/smatch_math.c\<close>) and the checkers, which the walk sees as the answers and operations
  of the record \<open>world\<close>; inlined functions, the initializers of declarations, the assignment of a
  condition and the made up assignments to members of structures, which are operations of that
  record as well, \<^verbatim>\<open>handle_condition_assigns\<close> because \<^verbatim>\<open>merge_fake_stree\<close> leaves its second tree with
  a wrong count; the sqlite database; floating point values beyond their comparison; positions, timers and output; the allocators.
\<close>

section \<open>Range lists as sets\<close>

text \<open>
  C1. Adding a range to a list of the same integer type keeps the list sorted and free of
  touching ranges, and the list then denotes exactly the union; a range with swapped bounds
  stands for the whole type.
\<close>

theorem add_range_union:
  assumes "int_type_ok t" "rl_ok t rl" "has_type t mn" "has_type t mx"
  shows "rl_ok t (add_range prj rl mn mx) \<and> rl_set (add_range prj rl mn mx) = rl_set rl \<union> span t mn mx"
  using ar.add_ok [OF assms] ar.add_set [OF assms] by blast

theorem add_range_union_witness:
  "rl_set (add_range PROJ_KERNEL [trange (Some int_ctype) 0 3] (tval (Some int_ctype) 4)
     (tval (Some int_ctype) 9)) = {0..3} \<union> {4..9}"
proof -
  let ?rl = "[trange (Some int_ctype) 0 3]" and ?lo = "tval (Some int_ctype) 4" and ?hi = "tval (Some int_ctype) 9"
  have "rl_ok (Some int_ctype) ?rl" "has_type (Some int_ctype) ?lo" "has_type (Some int_ctype) ?hi"
    "rl_set ?rl = {0..3}" "span (Some int_ctype) ?lo ?hi = {4..9}"
    by (simp_all add: rl_ok_Cons_trange span_def)
  then show ?thesis
    using add_range_union [of "Some int_ctype" ?rl ?lo ?hi PROJ_KERNEL] by simp
qed

text \<open>
  C2. Removing a range whose bounds may have another type: the bounds are converted to the
  list's type and put in order, and exactly the values between them disappear.
\<close>

theorem remove_range_difference:
  assumes "int_type_ok t" "rl_ok t rl" "\<not> type_is_fp (sv_type mn)" "\<not> type_is_fp (sv_type mx)"
    and "a = wrap t (sval_int mn)" "b = wrap t (sval_int mx)"
  shows "rl_ok t (remove_range prj rl mn mx)
    \<and> rl_set (remove_range prj rl mn mx) = rl_set rl - {min a b..max a b}"
  by (rule remove_range_spec [OF assms])

theorem remove_range_difference_witness:
  "rl_set (remove_range PROJ_NONE [trange (Some int_ctype) 0 9] (tval (Some llong_ctype) 6)
     (tval (Some llong_ctype) 4)) = {0..9} - {4..6}"
proof -
  let ?rl = "[trange (Some int_ctype) 0 9]"
  have "rl_ok (Some int_ctype) ?rl" "rl_set ?rl = {0..9}"
    "wrap (Some int_ctype) 6 = 6" "wrap (Some int_ctype) 4 = 4"
    "sval_int (tval (Some llong_ctype) 6) = 6" "sval_int (tval (Some llong_ctype) 4) = 4"
    by (simp_all add: rl_ok_Cons_trange wrap_id)
  then show ?thesis
    using remove_range_difference [of "Some int_ctype" ?rl "tval (Some llong_ctype) 6"
        "tval (Some llong_ctype) 4" 6 4 PROJ_NONE] by simp
qed

text \<open>
  C3. The operations on two lists of one type are the operations on sets: intersection, which never
  reaches its fatal exit, union, and the removal of a list of ranges, which need not be sorted. The
  results are well formed.
\<close>

theorem rl_set_operations:
  assumes "int_type_ok t" "rl_ok t one" "rl_ok t two" "\<forall>d \<in> set filt. range_ok t d"
  shows "(\<exists>rl. rl_intersection prj one two = Some rl \<and> rl_ok t rl \<and> rl_set rl = rl_set one \<inter> rl_set two)
    \<and> rl_ok t (rl_union prj one two) \<and> rl_set (rl_union prj one two) = rl_set one \<union> rl_set two
    \<and> rl_ok t (rl_filter prj one filt) \<and> rl_set (rl_filter prj one filt) = rl_set one - rl_set filt"
  using rl_intersection_spec [OF assms(1-3), of prj] rl_union_spec [OF assms(1-3), of prj]
    rl_filter_spec [OF assms(1,2,4), of prj] by blast

theorem rl_set_operations_witness:
  "\<exists>rl. rl_intersection PROJ_NONE [trange (Some int_ctype) 0 9]
      [trange (Some int_ctype) (-5) 2, trange (Some int_ctype) 7 20] = Some rl
    \<and> rl_set rl = {0..9} \<inter> ({-5..2} \<union> {7..20})
    \<and> rl_set (rl_filter PROJ_NONE [trange (Some int_ctype) 0 9]
        [trange (Some int_ctype) 2 9, trange (Some int_ctype) 0 0]) = {0..9} - ({2..9} \<union> {0..0})"
proof -
  let ?a = "[trange (Some int_ctype) 0 9]"
    and ?b = "[trange (Some int_ctype) (-5) 2, trange (Some int_ctype) 7 20]"
    and ?f = "[trange (Some int_ctype) 2 9, trange (Some int_ctype) 0 0]"
  have "rl_ok (Some int_ctype) ?a" "rl_ok (Some int_ctype) ?b" "rl_set ?a = {0..9}"
    "rl_set ?b = {-5..2} \<union> {7..20}" "\<forall>d \<in> set ?f. range_ok (Some int_ctype) d" "rl_set ?f = {2..9} \<union> {0..0}"
    by (simp_all add: rl_ok_Cons_trange)
  then show ?thesis using rl_set_operations [of "Some int_ctype" ?a ?b ?f PROJ_NONE] by auto
qed

section \<open>Conversion of range lists\<close>

text \<open>
  C4. Converting a list to another integer type covers the converted image of every value, for
  every range that is not a \<open>cast_hazard\<close>; \<open>cast_rl_hazard\<close> below is one.
\<close>

theorem cast_rl_covers:
  assumes "int_type_ok t" "type_bits t \<noteq> 1" "rl_ok s rl" "\<forall>d \<in> set rl. \<not> cast_hazard s t d"
  shows "rl_ok t (cast_rl prj t rl) \<and> wrap t ` rl_set rl \<subseteq> rl_set (cast_rl prj t rl)"
  using cast_rl_sound [OF assms] by blast

theorem cast_rl_covers_witness:
  "wrap (Some uchar_ctype) ` {- 3..2} \<subseteq>
     rl_set (cast_rl PROJ_NONE (Some uchar_ctype) [trange (Some int_ctype) (-3) 2])"
proof -
  let ?rl = "[trange (Some int_ctype) (-3) 2]"
  have "rl_ok (Some int_ctype) ?rl" "rl_set ?rl = {-3..2}"
    "\<forall>d \<in> set ?rl. \<not> cast_hazard (Some int_ctype) (Some uchar_ctype) d"
    by (simp_all add: rl_ok_Cons_trange cast_hazard_def)
  then show ?thesis
    using cast_rl_covers [of "Some uchar_ctype" "Some int_ctype" ?rl PROJ_NONE] by simp
qed

text \<open>
  C5. When every value fits in the new type the conversion changes no value.
\<close>

theorem cast_rl_value_preserving:
  assumes "int_type_ok t" "type_bits t \<noteq> 1" "rl_ok s rl" "rl_set rl \<subseteq> {type_lo t..type_hi t}"
  shows "rl_ok t (cast_rl prj t rl) \<and> rl_set (cast_rl prj t rl) = rl_set rl"
  using cast_rl_exact [OF assms] by blast

theorem cast_rl_value_preserving_witness:
  "rl_set (cast_rl PROJ_NONE (Some uchar_ctype)
     [trange (Some int_ctype) 1 2, trange (Some int_ctype) 200 255]) = {1..2} \<union> {200..255}"
proof -
  let ?rl = "[trange (Some int_ctype) 1 2, trange (Some int_ctype) 200 255]"
  have "rl_ok (Some int_ctype) ?rl" "rl_set ?rl = {1..2} \<union> {200..255}"
    by (simp_all add: rl_ok_Cons_trange)
  then show ?thesis
    using cast_rl_value_preserving [of "Some uchar_ctype" "Some int_ctype" ?rl PROJ_NONE] by auto
qed

text \<open>
  C6. Conversion to bool denotes exactly the truth values of the members.
\<close>

theorem cast_rl_truth_values:
  assumes "rl_ok s rl"
  shows "rl_set (cast_rl prj (Some bool_ctype) rl) = (\<lambda>x. if x = 0 then 0 else 1) ` rl_set rl"
  using cast_rl_bool(2) [OF assms, of prj] by (simp add: wrap_bool cong: image_cong)

theorem cast_rl_truth_values_witness:
  "rl_set (cast_rl PROJ_NONE (Some bool_ctype) [trange (Some int_ctype) (-4) 7]) = {0, 1}"
proof -
  let ?rl = "[trange (Some int_ctype) (-4) 7]"
  have "rl_ok (Some int_ctype) ?rl" "rl_set ?rl = {-4..7}" by (simp_all add: rl_ok_Cons_trange)
  moreover have "(\<lambda>x::int. if x = 0 then 0 else 1 :: int) ` {-4..7} = {0, 1}"
    using imageI [of 1 "{-4..7::int}" "\<lambda>x. if x = 0 then 0 else 1 :: int"]
      imageI [of 0 "{-4..7::int}" "\<lambda>x. if x = 0 then 0 else 1 :: int"] by auto
  ultimately show ?thesis using cast_rl_truth_values [of "Some int_ctype" ?rl PROJ_NONE] by simp
qed


text \<open>
  C8. The depth bound in the model of \<^verbatim>\<open>add_range\<close> is no restriction: for a list and a range of
  any two integer types every larger depth gives the same list.
\<close>

theorem add_range_depth_enough:
  assumes "int_type_ok s" "int_type_ok t" "int_type_ok (whole_type t)" "rl_ok s rl" "has_type t mn" "has_type t mx"
  shows "add_range_f (add_range_depth + n) False prj rl mn mx = add_range prj rl mn mx"
  using fuel_enough [OF assms, of "4 + n" False prj 4] by (simp add: add_range_def add_range_depth_def numeral_eq_Suc)

theorem add_range_depth_enough_witness:
  "add_range_f (add_range_depth + 9) False PROJ_NONE [trange (Some int_ctype) 0 3] (tval (Some uint_ctype) 4) (tval (Some uint_ctype) 9)
    = add_range PROJ_NONE [trange (Some int_ctype) 0 3] (tval (Some uint_ctype) 4) (tval (Some uint_ctype) 9)"
proof -
  have "rl_ok (Some int_ctype) [trange (Some int_ctype) 0 3]" by (simp add: rl_ok_Cons_trange)
  moreover have "whole_type (Some uint_ctype) = Some uint_ctype" by code_simp
  ultimately show ?thesis
    using add_range_depth_enough [of "Some int_ctype" "Some uint_ctype" "[trange (Some int_ctype) 0 3]"
        "tval (Some uint_ctype) 4" "tval (Some uint_ctype) 9" 9 PROJ_NONE] by simp
qed

section \<open>Arithmetic on range lists\<close>




section \<open>Comparisons of ranges\<close>

text \<open>
  C11. The possibility tests are sound for operands of different types: when some pair of
  values, converted to the common type, satisfies (refutes) the comparison, the test for
  possibly true (false) says yes.
\<close>

theorem possibly_rl_never_misses:
  assumes "int_type_ok s" "int_type_ok t" "rl_ok s a" "rl_ok t b" "cmp_op op"
    and "bt = get_binop_type a b" "x \<in> rl_set a" "y \<in> rl_set b"
  shows "(if cmp_holds op (wrap bt x) (wrap bt y) then possibly_true_rl prj a op b
          else possibly_false_rl prj a op b)"
  using possibly_rl_sound [OF assms] by (simp split: if_split)

theorem possibly_rl_never_misses_witness:
  "possibly_true_rl PROJ_NONE [trange (Some int_ctype) (-1) 0] (Ch CHR ''>'') [trange (Some uint_ctype) 5 9]"
proof -
  let ?a = "[trange (Some int_ctype) (-1) 0]" and ?b = "[trange (Some uint_ctype) 5 9]"
  have ok: "rl_ok (Some int_ctype) ?a" "rl_ok (Some uint_ctype) ?b" "-1 \<in> rl_set ?a" "5 \<in> rl_set ?b"
    "cmp_op (Ch CHR ''>'')"
    by (simp_all add: rl_ok_Cons_trange cmp_op_def)
  have bt: "Some uint_ctype = get_binop_type ?a ?b"
    by (simp add: get_binop_type_def rl_type_def rl_min_def)
  have "wrap (Some uint_ctype) (-1) = 4294967295" "wrap (Some uint_ctype) 5 = 5"
    by (simp_all add: wrap_def uwrap_def type_width_def)
  then have "cmp_holds (Ch CHR ''>'') (wrap (Some uint_ctype) (-1)) (wrap (Some uint_ctype) 5)"
    by (simp add: cmp_holds_def)
  then show ?thesis
    using possibly_rl_never_misses [OF _ _ ok(1,2,5) bt ok(3,4), of PROJ_NONE] by simp
qed

text \<open>
  C12. For operands of one type the tests are exact: they say yes only when there is a pair of
  values that satisfies (refutes) the comparison.
\<close>

theorem possibly_rl_decides:
  assumes "int_type_ok t" "rl_ok t a" "rl_ok t b" "a \<noteq> []" "b \<noteq> []" "cmp_op op"
  shows "(possibly_true_rl prj a op b \<longleftrightarrow> (\<exists>x \<in> rl_set a. \<exists>y \<in> rl_set b. cmp_holds op x y))
    \<and> (possibly_false_rl prj a op b \<longleftrightarrow> (\<exists>x \<in> rl_set a. \<exists>y \<in> rl_set b. \<not> cmp_holds op x y))"
  using possibly_rl_exact [OF assms, of prj] by blast

theorem possibly_rl_decides_witness:
  "\<not> possibly_true_rl PROJ_NONE [trange (Some int_ctype) 5 9] (Ch CHR ''<'') [trange (Some int_ctype) 0 5]"
proof -
  let ?a = "[trange (Some int_ctype) 5 9]" and ?b = "[trange (Some int_ctype) 0 5]"
  have "rl_ok (Some int_ctype) ?a" "rl_ok (Some int_ctype) ?b" "rl_set ?a = {5..9}" "rl_set ?b = {0..5}"
    "cmp_op (Ch CHR ''<'')"
    by (simp_all add: rl_ok_Cons_trange cmp_op_def)
  moreover have "\<not> (\<exists>x \<in> {5..9}. \<exists>y \<in> {0..5}. cmp_holds (Ch CHR ''<'') x y)"
    by (simp add: cmp_holds_def)
  ultimately show ?thesis using possibly_rl_decides [of "Some int_ctype" ?a ?b "Ch CHR ''<''" PROJ_NONE] by simp
qed

text \<open>
  C13. Splitting two lists by a comparison: the four results are well formed parts of the
  operands, and every pair of values lies in the true parts when it satisfies the comparison
  and in the false parts when it does not.
\<close>

theorem split_comparison_rl_complete:
  assumes "int_type_ok t" "rl_ok t a" "rl_ok t b" "a \<noteq> []" "b \<noteq> []" "cmp_op op"
  shows "\<exists>s. split_comparison_rl prj a op b = Some s
    \<and> rl_ok t (left_true s) \<and> rl_ok t (left_false s) \<and> rl_ok t (right_true s) \<and> rl_ok t (right_false s)
    \<and> rl_set (left_true s) \<union> rl_set (left_false s) \<subseteq> rl_set a
    \<and> rl_set (right_true s) \<union> rl_set (right_false s) \<subseteq> rl_set b
    \<and> (\<forall>x \<in> rl_set a. \<forall>y \<in> rl_set b.
         if cmp_holds op x y then x \<in> rl_set (left_true s) \<and> y \<in> rl_set (right_true s)
         else x \<in> rl_set (left_false s) \<and> y \<in> rl_set (right_false s))"
  using split_comparison_rl_spec [OF assms, of prj] unfolding split_ok_def .

theorem split_comparison_rl_complete_witness:
  "\<exists>s. split_comparison_rl PROJ_NONE [trange (Some int_ctype) 0 9] (Ch CHR ''<'') [trange (Some int_ctype) 3 4]
      = Some s \<and> 3 \<in> rl_set (left_true s) \<and> 5 \<in> rl_set (left_false s)"
proof -
  let ?a = "[trange (Some int_ctype) 0 9]" and ?b = "[trange (Some int_ctype) 3 4]"
  have "rl_ok (Some int_ctype) ?a" "rl_ok (Some int_ctype) ?b" "rl_set ?a = {0..9}" "rl_set ?b = {3..4}"
    "cmp_op (Ch CHR ''<'')"
    by (simp_all add: rl_ok_Cons_trange cmp_op_def)
  then obtain s where s: "split_comparison_rl PROJ_NONE ?a (Ch CHR ''<'') ?b = Some s"
    "\<forall>x \<in> {0..9}. \<forall>y \<in> {3..4}.
       if cmp_holds (Ch CHR ''<'') x y then x \<in> rl_set (left_true s) \<and> y \<in> rl_set (right_true s)
       else x \<in> rl_set (left_false s) \<and> y \<in> rl_set (right_false s)"
    using split_comparison_rl_complete [of "Some int_ctype" ?a ?b "Ch CHR ''<''" PROJ_NONE] by auto
  have "3 \<in> rl_set (left_true s)" "5 \<in> rl_set (left_false s)"
    using bspec [OF bspec [OF s(2), of 3], of 4] bspec [OF bspec [OF s(2), of 5], of 3]
    by (simp_all add: cmp_holds_def)
  then show ?thesis using s(1) by blast
qed

text \<open>
  C14. Filtering a list by a comparison with a list of another type keeps every value that
  some value of the other list allows.
\<close>

theorem filter_by_comparison_keeps:
  assumes "int_type_ok s" "type_bits s \<noteq> 1" "int_type_ok t" "rl_ok s a" "rl_ok t b"
    and "bt = get_binop_type a b" "cmp_op op" "x \<in> rl_set a" "y \<in> rl_set b"
    and "cmp_holds op (wrap bt x) (wrap bt y)"
  shows "\<exists>r. filter_by_comparison prj a op b = Some r \<and> rl_ok s r \<and> x \<in> rl_set r"
  by (rule filter_by_comparison_sound [OF assms])

theorem filter_by_comparison_keeps_witness:
  "\<exists>r. filter_by_comparison PROJ_NONE [trange (Some int_ctype) (-1) 9] SPECIAL_LTE
      [trange (Some int_ctype) 3 4] = Some r \<and> 4 \<in> rl_set r"
proof -
  let ?a = "[trange (Some int_ctype) (-1) 9]" and ?b = "[trange (Some int_ctype) 3 4]"
  have ok: "rl_ok (Some int_ctype) ?a" "rl_ok (Some int_ctype) ?b" "4 \<in> rl_set ?a" "4 \<in> rl_set ?b"
    "cmp_op SPECIAL_LTE"
    by (simp_all add: rl_ok_Cons_trange cmp_op_def)
  have bt: "Some int_ctype = get_binop_type ?a ?b"
    by (simp add: get_binop_type_def rl_type_def rl_min_def)
  have "cmp_holds SPECIAL_LTE (wrap (Some int_ctype) 4) (wrap (Some int_ctype) 4)"
    by (simp add: cmp_holds_def)
  then show ?thesis
    using filter_by_comparison_keeps [OF _ _ _ ok(1,2) bt ok(5,3,4), of PROJ_NONE] by auto
qed



text \<open>
  C16. The comparison that \<^verbatim>\<open>get_comparison_rl\<close> reads off two ranges holds of every pair of
  their values in the common type.
\<close>

theorem get_comparison_rl_holds:
  assumes "int_type_ok s" "int_type_ok t" "rl_ok s a" "rl_ok t b"
    and "bt = get_binop_type a b" "x \<in> rl_set a" "y \<in> rl_set b"
  shows "cmp_holds (get_comparison_rl prj a b) (wrap bt x) (wrap bt y)"
  by (rule get_comparison_rl_sound [OF assms])

theorem get_comparison_rl_holds_witness:
  "cmp_holds (get_comparison_rl PROJ_NONE [trange (Some int_ctype) 0 3] [trange (Some int_ctype) 3 8])
     (wrap (Some int_ctype) 2) (wrap (Some int_ctype) 3)"
proof -
  let ?a = "[trange (Some int_ctype) 0 3]" and ?b = "[trange (Some int_ctype) 3 8]"
  have ok: "rl_ok (Some int_ctype) ?a" "rl_ok (Some int_ctype) ?b" "2 \<in> rl_set ?a" "3 \<in> rl_set ?b"
    by (simp_all add: rl_ok_Cons_trange)
  have bt: "Some int_ctype = get_binop_type ?a ?b"
    by (simp add: get_binop_type_def rl_type_def rl_min_def)
  show ?thesis using get_comparison_rl_holds [OF _ _ ok(1,2) bt ok(3,4)] by simp
qed

section \<open>The text of range lists\<close>



section \<open>Values\<close>

text \<open>
  C18. Converting a value wraps it into the bounds of the new type.
\<close>

theorem sval_cast_wraps:
  assumes "arith_type t" "\<not> type_is_fp (sv_type s)"
  shows "sv_type (sval_cast t s) = t \<and> sval_ok (sval_cast t s)
    \<and> sval_int (sval_cast t s) = wrap t (sval_int s)"
  using assms by (simp add: sval_int_cast sv_type_sval_cast sval_ok_cast)

theorem sval_cast_wraps_witness:
  "sval_int (sval_cast (Some uchar_ctype) (tval (Some int_ctype) 260)) = wrap (Some uchar_ctype) 260"
  using sval_cast_wraps [of "Some uchar_ctype" "tval (Some int_ctype) 260"] by simp

text \<open>
  C19. \<^verbatim>\<open>sval_binop_overflows\<close> decides overflow of addition, subtraction and multiplication in
  the common type, and when it says no, \<^verbatim>\<open>sval_binop\<close> computes the exact result.
\<close>

theorem sval_binop_overflow_check:
  assumes "int_type_ok (sv_type l)" "int_type_ok (sv_type r)" "overflow_op op"
    and "t = overflow_type (sv_type l) (sv_type r)"
    and "x = int_binop op (wrap t (sval_int l)) (wrap t (sval_int r))"
  shows "(sval_binop_overflows l op r \<longleftrightarrow> x < type_lo t \<or> type_hi t < x)
    \<and> (\<not> sval_binop_overflows l op r \<longrightarrow> sval_int (sval_binop l op r) = x)"
  using sval_binop_overflows_iff [OF assms(1-4)] sval_binop_no_overflow [OF assms(1-4)] assms(5)
  by simp

theorem sval_binop_overflow_check_witness:
  "sval_binop_overflows (tval (Some int_ctype) 2147483647) (Ch CHR ''+'') (tval (Some int_ctype) 1)"
proof -
  let ?l = "tval (Some int_ctype) 2147483647" and ?r = "tval (Some int_ctype) 1"
  have t: "Some int_ctype = overflow_type (sv_type ?l) (sv_type ?r)"
    by (simp add: overflow_type_def)
  have op: "overflow_op (Ch CHR ''+'')" by (simp add: overflow_op_def)
  have x: "2147483648 = int_binop (Ch CHR ''+'') (wrap (Some int_ctype) (sval_int ?l)) (wrap (Some int_ctype) (sval_int ?r))"
    by (simp add: wrap_id int_binop_def)
  show ?thesis using sval_binop_overflow_check [OF _ _ op t x] by simp
qed

text \<open>
  C20. Division of operands that the common type can represent is C's truncating division,
  wrapped into the common type.
\<close>

theorem sval_binop_truncating_divide:
  assumes "int_type_ok (sv_type l)" "int_type_ok (sv_type r)"
    and "t = overflow_type (sv_type l) (sv_type r)"
    and "type_lo t \<le> sval_int l" "sval_int l \<le> type_hi t"
    and "type_lo t \<le> sval_int r" "sval_int r \<le> type_hi t" "sval_int r \<noteq> 0"
    and "\<not> (sval_int l = LLONG_MIN \<and> sval_int r = -1)"
  shows "sval_int (sval_binop l (Ch CHR ''/'') r) = wrap t (sval_int l sdiv sval_int r)"
  by (rule sval_binop_divide [OF assms])

theorem sval_binop_truncating_divide_witness:
  "sval_int (sval_binop (tval (Some int_ctype) (-7)) (Ch CHR ''/'') (tval (Some int_ctype) 2))
     = wrap (Some int_ctype) (-7 sdiv 2)"
  using sval_binop_truncating_divide [of "tval (Some int_ctype) (-7)" "tval (Some int_ctype) 2" "Some int_ctype"]
  by (simp add: overflow_type_def LLONG_MIN_def)


section \<open>Comparison operators\<close>

text \<open>
  C22. \<^verbatim>\<open>combine_comparisons\<close> chains two comparisons through a middle value, and
  \<^verbatim>\<open>comparison_intersection\<close> is the conjunction of two comparisons.
\<close>

theorem combine_intersect_comparisons:
  assumes "cmp_code one" "cmp_code two"
  shows "(cmp_holds one a b \<and> cmp_holds two b c \<longrightarrow> cmp_holds (combine_comparisons one two) a c)
    \<and> (cmp_holds (comparison_intersection one two) a b \<longleftrightarrow> cmp_holds one a b \<and> cmp_holds two a b)
    \<and> cmp_code (combine_comparisons one two) \<and> cmp_code (comparison_intersection one two)"
  using combine_comparisons_sound [OF assms, of a b c] comparison_intersection_exact [OF assms, of a b]
    comparison_codes_closed [OF assms] by blast

theorem combine_intersect_comparisons_witness:
  "cmp_holds (combine_comparisons (Ch CHR ''<'') SPECIAL_LTE) 1 5"
proof -
  have "cmp_code (Ch CHR ''<'')" "cmp_code SPECIAL_LTE" by (simp_all add: cmp_code_def cmp_op_def)
  moreover have "cmp_holds (Ch CHR ''<'') 1 3" "cmp_holds SPECIAL_LTE 3 5" by (simp_all add: cmp_holds_def)
  ultimately show ?thesis
    using combine_intersect_comparisons [of "Ch CHR ''<''" SPECIAL_LTE 1 3 5] by blast
qed

text \<open>
  C23. Where two paths join, the merged comparison holds if either path's did, unless one of
  the two is the inequality and the other is not.
\<close>

theorem merge_comparisons_weaker:
  assumes "cmp_code one" "cmp_code two" "one = SPECIAL_NOTEQUAL \<longleftrightarrow> two = SPECIAL_NOTEQUAL"
    "cmp_holds one x y \<or> cmp_holds two x y"
  shows "cmp_holds (merge_comparisons one two) x y"
  using merge_comparisons_sound [OF assms(1,2) _ _ assms(4)] assms(3) by blast

theorem merge_comparisons_weaker_witness:
  "cmp_holds (merge_comparisons (Ch CHR ''<'') SPECIAL_EQUAL) 4 4"
proof -
  have "cmp_code (Ch CHR ''<'')" "cmp_code SPECIAL_EQUAL" "cmp_holds SPECIAL_EQUAL 4 4"
    by (simp_all add: cmp_code_def cmp_op_def cmp_holds_def)
  then show ?thesis using merge_comparisons_weaker [of "Ch CHR ''<''" SPECIAL_EQUAL 4 4] by simp
qed




section \<open>State trees\<close>

text \<open>
  C26. Inserting into an AVL tree never dereferences NULL, keeps the tree balanced and ordered,
  and does on the ordered list of states what insertion by key does; the count goes up exactly
  when the key is new, and the flag tells whether the tree grew.
\<close>

theorem insert_sm_refines_list:
  assumes "avl t" "sorted_sms (inorder t)"
  shows "\<exists>t' c' g. insert_sm c t s = Some (t', c', g) \<and> avl t' \<and> sorted_sms (inorder t')
    \<and> inorder t' = ins_sm s (inorder t)
    \<and> c' = (if key s \<in> set (keys (inorder t)) then c else c + 1)
    \<and> height t' = height t + (if g then 1 else 0)"
proof -
  obtain t' c' g where "insert_sm c t s = Some (t', c', g)" "avl t'" "inorder t' = ins_sm s (inorder t)"
    "height t' = height t + (if g then 1 else 0)" "c' = (if key s \<in> set (keys (inorder t)) then c else c + 1)"
    using insert_sm_spec [OF assms, of c s] by blast
  then show ?thesis using sorted_ins_sm [OF assms(2), of s] by metis
qed

theorem insert_sm_refines_list_witness:
  "\<exists>t' c' g. insert_sm 0 NULL \<lparr>name = ''x'', sym = 1, owner = 2\<rparr> = Some (t', c', g) \<and> avl t' \<and> c' = 1"
  using insert_sm_refines_list [of NULL 0 "\<lparr>name = ''x'', sym = 1, owner = 2\<rparr>"] by auto

text \<open>
  C27. Removal by key: the tree stays balanced and ordered, the state with the key is returned
  and leaves the list, the others stay.
\<close>

theorem remove_sm_refines_list:
  assumes "avl t" "sorted_sms (inorder t)"
  shows "\<exists>t' g. remove_sm c t s =
      Some (t', if key s \<in> set (keys (inorder t)) then c - 1 else c, find_key (key s) (inorder t), g)
    \<and> avl t' \<and> inorder t' = del_key (key s) (inorder t)
    \<and> height t' = height t - (if g then 1 else 0)"
  by (rule remove_sm_spec [OF assms])

theorem remove_sm_refines_list_witness:
  "\<exists>t' g. remove_sm 1 (mkNode \<lparr>name = ''x'', sym = 1, owner = 2\<rparr>) \<lparr>name = ''x'', sym = 1, owner = 2\<rparr>
     = Some (t', 0, Some \<lparr>name = ''x'', sym = 1, owner = 2\<rparr>, g) \<and> inorder t' = []"
proof -
  let ?x = "\<lparr>name = ''x'', sym = 1, owner = 2\<rparr> :: tracker"
  have "avl (mkNode ?x)" "sorted_sms (inorder (mkNode ?x))" "inorder (mkNode ?x) = [?x]"
    by (simp_all add: mkNode_def)
  then show ?thesis
    using remove_sm_refines_list [of "mkNode ?x" 1 ?x] by (auto simp: find_key_def del_key_def)
qed



text \<open>
  C29. The self-check of a tree accepts exactly the trees that are balanced, ordered and
  counted correctly.
\<close>

theorem avl_check_invariants_exact:
  "avl_check_invariants t \<longleftrightarrow>
     avl (st_root t) \<and> sorted_sms (inorder (st_root t)) \<and> length (inorder (st_root t)) = Stree.count t"
  by (simp add: avl_check_invariants_def checkBalances_iff checkOrder_iff countNode_inorder)

text \<open>
  C30. Inserting through a pointer to a shared tree: the pointer then denotes the updated map,
  and every other tree, and the old one when it was shared, denotes what it did before.
\<close>

theorem avl_insert_copy_on_write:
  assumes "store_ok st" "valid st p"
  shows "\<exists>a st' new. avl_insert st p s = Some (Some a, st', new) \<and> store_ok st' \<and> valid st' (Some a)
    \<and> view st' (Some a) = (view st p)(key s \<mapsto> s) \<and> (new \<longleftrightarrow> view st p (key s) = None)
    \<and> (\<forall>c. trees st c \<noteq> None \<longrightarrow> (p = Some c \<longrightarrow> shared st c) \<longrightarrow>
         a \<noteq> c \<and> trees st' c \<noteq> None \<and> view st' (Some c) = view st (Some c))"
  using avl_insert_spec [OF assms, of s] unfolding valid_def by blast

theorem avl_insert_copy_on_write_witness:
  "\<exists>a st' new. avl_insert \<lparr>trees = Map.empty, next_addr = 0, unfree_stree = 0\<rparr> None
      (fst (alloc_sm_state \<lparr>next_sm = 0, sm_state_counter = 0, lineno = 7\<rparr> 3 ''p'' 1 merged_state)) = Some (Some a, st', new)
    \<and> store_ok st' \<and> new"
proof -
  let ?st = "\<lparr>trees = Map.empty, next_addr = 0, unfree_stree = 0\<rparr>"
    and ?s = "fst (alloc_sm_state \<lparr>next_sm = 0, sm_state_counter = 0, lineno = 7\<rparr> 3 ''p'' 1 merged_state)"
  have "store_ok ?st" "valid ?st None" by (simp_all add: store_ok_def valid_def)
  then show ?thesis using avl_insert_copy_on_write [of ?st None ?s] by auto
qed



text \<open>
  C32. Operations on two trees as operations on maps. Writing one tree over another, directly or from
  the top of a stack onto the tree below it: the states of the second map win, the others stay.
  \<^verbatim>\<open>filter_stree\<close> keeps the states of the first tree except those the filter holds as the very same
  state.
\<close>

theorem overwrite_filter_stree_maps:
  assumes "store_ok st" "valid st p" "valid st q" "p \<noteq> q"
  shows "(\<exists>r st'. overwrite_stree st q p = Some (r, st') \<and> store_ok st' \<and> valid st' r \<and> view st' r = view st p ++ view st q)
    \<and> (\<exists>r st'. and_stree_stack st (stack @ [p, q]) = Some (stack @ [r], st') \<and> store_ok st' \<and> valid st' r
         \<and> view st' r = view st p ++ view st q)
    \<and> (\<exists>r st'. filter_stree st p q = Some (r, st') \<and> store_ok st' \<and> valid st' r
         \<and> view st' r = (\<lambda>k. unless_same (view st p k) (view st q k)))"
  using overwrite_stree_spec [OF assms(1,3,2)] and_stree_stack_spec [OF assms, of stack] filter_stree_spec [OF assms(1-3)]
  by blast

theorem overwrite_filter_stree_maps_witness:
  "(\<exists>r st'. and_stree_stack \<lparr>trees = [0 \<mapsto> new_stree], next_addr = 1, unfree_stree = 1\<rparr> [None, Some 0, None]
     = Some ([None, r], st') \<and> store_ok st')
   \<and> (\<exists>q st'. filter_stree \<lparr>trees = [0 \<mapsto> new_stree], next_addr = 1, unfree_stree = 1\<rparr> (Some 0) None = Some (q, st')
    \<and> store_ok st')"
proof -
  let ?st = "\<lparr>trees = [0 \<mapsto> new_stree], next_addr = 1, unfree_stree = 1\<rparr>"
  have "store_ok ?st" "valid ?st (Some 0)" "valid ?st None"
    by (simp_all add: store_ok_def valid_def tree_ok_def new_stree_def)
  then show ?thesis using overwrite_filter_stree_maps [of ?st "Some 0" None "[None]"] by auto
qed



text \<open>
  C34. Where two paths join, the merged state of a variable has exactly the values of the two paths and
  exactly the relations that both have. A hard maximum is kept when one state has it and the other has it
  too or has no values, the untagged mark when both have it, and the mark of a new value when either has
  it. The result is well formed and named by its values. This rests on the names of the two states, which
  are compared in place of their values, being short enough to be printed whole.
\<close>

theorem merge_estates_joins:
  assumes "int_type_ok t" "estate_ok T t s1" "estate_ok T t s2" "shown_whole T s1" "shown_whole T s2"
    and "st_addr s1 = st_addr s2 \<longrightarrow> s1 = s2"
  shows "\<exists>m. merge_estates T a (Some s1) (Some s2) = Some m \<and> estate_ok T t m
    \<and> rl_set (estate_rl (Some m)) = rl_set (estate_rl (Some s1)) \<union> rl_set (estate_rl (Some s2))
    \<and> set (estate_related (Some m)) = set (estate_related (Some s1)) \<inter> set (estate_related (Some s2))
    \<and> estate_has_hard_max (Some m) = merged_hard_max (Some s1) (Some s2)
    \<and> estate_capped (Some m) = merged_capped (Some s1) (Some s2)
    \<and> estate_treat_untagged (Some m) = (estate_treat_untagged (Some s1) \<and> estate_treat_untagged (Some s2))
    \<and> estate_new (Some m) = (estate_new (Some s1) \<or> estate_new (Some s2))"
  by (rule merge_estates_spec [OF assms])

theorem merge_estates_joins_witness:
  "\<exists>m. merge_estates no_calls 3 (Some (alloc_estate_rl no_calls 1 [trange (Some int_ctype) 1 5]))
      (Some (alloc_estate_rl no_calls 2 [trange (Some int_ctype) 4 9])) = Some m
    \<and> rl_set (estate_rl (Some m)) = {1..9}"
proof -
  let ?a = "[trange (Some int_ctype) 1 5]" and ?b = "[trange (Some int_ctype) 4 9]"
  have ok: "rl_ok (Some int_ctype) ?a" "rl_ok (Some int_ctype) ?b" by (simp_all add: rl_ok_Cons_trange)
  have "length (show_all no_calls ?a) \<le> 207" "length (show_all no_calls ?b) \<le> 207" by code_simp+
  then have "shown_whole no_calls (alloc_estate_rl no_calls 1 ?a)" "shown_whole no_calls (alloc_estate_rl no_calls 2 ?b)"
    by (simp_all add: shown_whole_def)
  from merge_estates_joins [OF _ alloc_estate_rl_ok [OF ok(1)] alloc_estate_rl_ok [OF ok(2)] this, of 3]
  show ?thesis by auto
qed

section \<open>The analysis state\<close>



text \<open>
  C36. Setting a state and reading it back: the new state is found, every other variable reads as
  before; on an unreachable path nothing is set and nothing changes.
\<close>

theorem set_state_then_get:
  assumes "env_ok E" "reachable E m" "ow \<noteq> USHRT_MAX"
  shows "if is_unreachable m then set_state ow (Some nm) sy (Some s) m = Some (None, m)
    else (\<exists>x m'. set_state ow (Some nm) sy (Some s) m = Some (Some x, m')
      \<and> state x = s \<and> possible x = [base x] \<and> get_sm_state ow (Some nm) sy m' = Some (Some x)
      \<and> (\<forall>ow' nm' sy'. (ow', nm', sy') \<noteq> (ow, nm, sy) \<longrightarrow>
           get_sm_state ow' (Some nm') sy' m' = get_sm_state ow' (Some nm') sy' m))"
  using set_state_reads [OF reachable_good [OF assms(2,1)] assms(3)] .

theorem set_state_then_get_witness:
  "set_state 3 (Some ''p'') 1 (Some merged_state) (init_machine 7) = Some (None, init_machine 7)"
  using set_state_then_get [OF env0_ok reachable.init, of 3 7 "''p''" 1 merged_state]
  by (simp add: is_unreachable_def init_machine_def USHRT_MAX_def)

text \<open>
  C37. At the end of a condition the path of the branch that is taken, and the one put aside for the
  other branch, are the states before the condition overridden by what the condition implies on
  that side; between the operands of \<open>&&\<close> and \<open>||\<close> the current path is replaced in the same way and
  the stacks stay.
\<close>

theorem use_cond_refines_maps:
  assumes "repr m ps S vs"
  shows "(\<exists>m'. use_cond_states m = Some m' \<and> repr m' ps (spec_use_cond S) vs)
    \<and> (\<exists>m'. use_cond_stack b m = Some m' \<and> repr m' ps (spec_use_branch b S) vs)"
  using runsD [OF use_cond_states_runs assms] runsD [OF use_cond_stack_runs assms, of b] by (auto simp: wp_def)

theorem use_cond_refines_maps_witness:
  "\<exists>m'. use_cond_states (init_machine 7) = Some m'
    \<and> repr m' [] (spec_use_cond (stacks_of (init_machine 7))) []"
proof -
  have "repr (init_machine 7) [] (stacks_of (init_machine 7)) []"
    using init_good [of 7] by (simp add: good_def repr_def)
  then show ?thesis using use_cond_refines_maps by blast
qed

text \<open>
  C38. Putting the analysis of a function aside and taking it up again: whatever happened between,
  as long as the list of saved states is the one that was left, the current states, all the stacks
  and the remaining cases are those of before.
\<close>

theorem save_restore_round_trip:
  assumes "backup n = backup (save_all_states m)"
  shows "restore_all_states n = Some (saved_part m n)"
  by (rule restore_saved [OF assms])

theorem save_restore_round_trip_witness:
  "restore_all_states (save_all_states (init_machine 7)) = Some (saved_part (init_machine 7) (save_all_states (init_machine 7)))"
  by (rule save_restore_round_trip) simp





end
